(* ===== verification/Prelude.thy ===== *)
theory Prelude
  imports Main "HOL-Library.Word"
begin

text \<open>
  What the components share: the machine integers of the C code as words, the byte order
  functions of the C library as they act on a little-endian host, the reading and writing of
  little-endian fields, cyclic indexing into a list, and the collections of rewrite rules that
  the component theories extend.
\<close>

unbundle bit_operations_syntax

subsection \<open>Machine integers\<close>

type_synonym u8 = "8 word"
type_synonym u16 = "16 word"
type_synonym u32 = "32 word"
type_synonym u64 = "64 word"

named_theorems bytes_simps "rewriting of little-endian encodings"
named_theorems src_simps "one step of the reading of a capture"
named_theorems sec_simps "projections of a replay section after an update"

declare length_concat [simp del]

lemma unat_of_nat_small:
  "n < 2 ^ LENGTH('w) \<Longrightarrow> unat (of_nat n :: 'w::len word) = n"
  by (simp add: unat_of_nat)

lemma unat_less_2p32: "unat x < 2 ^ 32" for x :: u32
  using unsigned_less [where ?'a = nat, of x] by simp

lemma unat_less_2p64: "unat x < 2 ^ 64" for x :: u64
  using unsigned_less [where ?'a = nat, of x] by simp

lemma unat_ucast_32_64 [simp]: "unat (ucast x :: u64) = unat x" for x :: u32
  by (simp add: unsigned_ucast_eq take_bit_nat_eq_self unat_less_2p32 [THEN order_less_trans])

lemma unat_ucast_64_32: "unat x < 2 ^ 32 \<Longrightarrow> unat (ucast x :: u32) = unat x" for x :: u64
  by (simp add: unsigned_ucast_eq take_bit_nat_eq_self)

lemma unat_add_no_wrap:
  "unat a + unat b < 2 ^ LENGTH('w) \<Longrightarrow> unat (a + b) = unat a + unat b" for a b :: "'w::len word"
  by (simp add: unat_word_ariths)

lemma unat_inc_no_wrap:
  "unat a + 1 < 2 ^ LENGTH('w) \<Longrightarrow> unat (a + 1) = unat a + 1" for a :: "'w::len word"
  by (metis unat_add_no_wrap unat_1 One_nat_def)

subsection \<open>Fields of a file, read and written by a little-endian host\<close>

fun get_le16 :: "u8 list \<Rightarrow> u16" where
  "get_le16 (a # b # _) = ucast a OR push_bit 8 (ucast b)"
| "get_le16 _ = 0"

fun get_le32 :: "u8 list \<Rightarrow> u32" where
  "get_le32 (a # b # c # d # _) =
     ucast a OR push_bit 8 (ucast b) OR push_bit 16 (ucast c) OR push_bit 24 (ucast d)"
| "get_le32 _ = 0"

definition put_le16 :: "u16 \<Rightarrow> u8 list" where
  "put_le16 x = [ucast x, ucast (drop_bit 8 x)]"

definition put_le32 :: "u32 \<Rightarrow> u8 list" where
  "put_le32 x = [ucast x, ucast (drop_bit 8 x), ucast (drop_bit 16 x), ucast (drop_bit 24 x)]"

lemma get_put_le16 [bytes_simps]: "get_le16 (put_le16 x @ bs) = x"
  unfolding put_le16_def by (rule bit_word_eqI) (auto simp: bit_simps not_le)

lemma get_put_le32 [bytes_simps]: "get_le32 (put_le32 x @ bs) = x"
  unfolding put_le32_def
proof (rule bit_word_eqI)
  fix n assume "n < LENGTH(32)"
  then consider "n < 8" | "8 \<le> n" "n < 16" | "16 \<le> n" "n < 24" | "24 \<le> n" "n < 32"
    by fastforce
  then show "bit (get_le32 ([ucast x, ucast (drop_bit 8 x), ucast (drop_bit 16 x),
      ucast (drop_bit 24 x)] @ bs)) n = bit x n"
    by cases (auto simp: bit_simps not_le)
qed

lemma no_bit_above_u8 [simp]: "8 \<le> n \<Longrightarrow> \<not> bit a n" for a :: u8
  by (rule notI, drule bit_imp_le_length) simp

lemma put_get_le16: "put_le16 (get_le16 [a, b]) = [a, b]"
  unfolding put_le16_def
  by (auto intro!: bit_word_eqI simp: bit_simps)

lemma put_get_le32: "put_le32 (get_le32 [a, b, c, d]) = [a, b, c, d]"
  unfolding put_le32_def
  by (auto intro!: bit_word_eqI simp: bit_simps)

lemma length_put_le16 [bytes_simps]: "length (put_le16 x) = 2"
  by (simp add: put_le16_def)

lemma length_put_le32 [bytes_simps]: "length (put_le32 x) = 4"
  by (simp add: put_le32_def)

subsection \<open>Byte order\<close>

text \<open>\<open>ntohl\<close> and \<open>ntohs\<close> on a little-endian host reverse the bytes.\<close>

definition ntohl :: "u32 \<Rightarrow> u32" where
  "ntohl x = get_le32 (rev (put_le32 x))"

definition ntohs :: "u16 \<Rightarrow> u16" where
  "ntohs x = get_le16 (rev (put_le16 x))"

lemma ntohl_ntohl [simp]: "ntohl (ntohl x) = x"
proof -
  have "put_le32 (get_le32 (rev (put_le32 x))) = rev (put_le32 x)"
    using put_get_le32 by (simp add: put_le32_def)
  then show ?thesis using get_put_le32 [of x "[]"] by (simp add: ntohl_def)
qed

lemma ntohs_ntohs [simp]: "ntohs (ntohs x) = x"
proof -
  have "put_le16 (get_le16 (rev (put_le16 x))) = rev (put_le16 x)"
    using put_get_le16 by (simp add: put_le16_def)
  then show ?thesis using get_put_le16 [of x "[]"] by (simp add: ntohs_def)
qed

lemma ntohl_inj [simp]: "ntohl x = ntohl y \<longleftrightarrow> x = y"
  by (metis ntohl_ntohl)

subsection \<open>Reading a list round and round\<close>

definition cyc :: "'a list \<Rightarrow> nat \<Rightarrow> 'a" where
  "cyc xs i = xs ! (i mod length xs)"

lemma cyc_mod: "i mod length xs = j mod length xs \<Longrightarrow> cyc xs i = cyc xs j"
  by (simp add: cyc_def)

lemma cyc_add_length [simp]: "cyc xs (i + length xs) = cyc xs i"
  by (simp add: cyc_def)

lemma cyc_less: "i < length xs \<Longrightarrow> cyc xs i = xs ! i"
  by (simp add: cyc_def)

definition cyc_take :: "'a list \<Rightarrow> nat \<Rightarrow> nat \<Rightarrow> 'a list" where
  "cyc_take xs i n = map (\<lambda>j. cyc xs (i + j)) [0..<n]"

lemma length_cyc_take [simp]: "length (cyc_take xs i n) = n"
  by (simp add: cyc_take_def)

lemma cyc_take_0 [simp]: "cyc_take xs i 0 = []"
  by (simp add: cyc_take_def)

lemma cyc_take_Suc: "cyc_take xs i (Suc n) = cyc_take xs i n @ [cyc xs (i + n)]"
  by (simp add: cyc_take_def)

lemma cyc_take_Suc_front: "cyc_take xs i (Suc n) = cyc xs i # cyc_take xs (Suc i) n"
proof -
  have "[0..<Suc n] = 0 # map Suc [0..<n]"
    by (simp only: upt_conv_Cons zero_less_Suc map_Suc_upt)
  then show ?thesis by (simp add: cyc_take_def comp_def del: upt_Suc)
qed

lemma cyc_take_add: "cyc_take xs i (m + n) = cyc_take xs i m @ cyc_take xs (i + m) n"
proof (induction n)
  case 0
  show ?case by simp
next
  case (Suc n)
  then show ?case by (simp add: cyc_take_Suc add.assoc)
qed

lemma take_cyc_take: "k \<le> n \<Longrightarrow> take k (cyc_take xs i n) = cyc_take xs i k"
  by (simp add: cyc_take_def take_map take_upt)

lemma cyc_take_mod:
  "i mod length xs = j mod length xs \<Longrightarrow> cyc_take xs i n = cyc_take xs j n"
  by (auto simp: cyc_take_def intro!: cyc_mod mod_add_cong)

end
