(* ===== verification/PcapFormat.thy ===== *)
theory PcapFormat
  imports Prelude
begin

text \<open>
  The capture file format of \<open>app/pktgen-pcap.h\<close> and the functions of
  \<open>app/pktgen-pcap.c\<close> that look at it: the global header and the record header as the
  structs that \<open>fread\<close> fills on a little-endian host, the detection of the byte order,
  the conversion of the headers, and the writer of capture files.
\<close>

subsection \<open>The structs\<close>

record pcap_hdr =
  magic_number :: u32
  version_major :: u16
  version_minor :: u16
  thiszone :: u32
  sigfigs :: u32
  snaplen :: u32
  network :: u32

record pcap_record_hdr =
  ts_sec :: u32
  ts_usec :: u32
  incl_len :: u32
  orig_len :: u32

abbreviation (input) sizeof_pcap_hdr :: nat where "sizeof_pcap_hdr \<equiv> 24"
abbreviation (input) sizeof_record_hdr :: nat where "sizeof_record_hdr \<equiv> 16"

definition PCAP_MAGIC_NUMBER :: u32 where "PCAP_MAGIC_NUMBER = 0xa1b2c3d4"
definition PCAPNG_MAGIC_NUMBER :: u32 where "PCAPNG_MAGIC_NUMBER = 0x0A0D0D0A"
definition PCAP_NUM_SECTIONS :: nat where "PCAP_NUM_SECTIONS = 2"

text \<open>The bytes of a struct in memory, and the struct that a run of bytes is read as.\<close>

definition hdr_of_bytes :: "u8 list \<Rightarrow> pcap_hdr" where
  "hdr_of_bytes bs = \<lparr>magic_number = get_le32 bs,
     version_major = get_le16 (drop 4 bs), version_minor = get_le16 (drop 6 bs),
     thiszone = get_le32 (drop 8 bs), sigfigs = get_le32 (drop 12 bs),
     snaplen = get_le32 (drop 16 bs), network = get_le32 (drop 20 bs)\<rparr>"

definition bytes_of_hdr :: "pcap_hdr \<Rightarrow> u8 list" where
  "bytes_of_hdr h = put_le32 (magic_number h) @ put_le16 (version_major h)
     @ put_le16 (version_minor h) @ put_le32 (thiszone h) @ put_le32 (sigfigs h)
     @ put_le32 (snaplen h) @ put_le32 (network h)"

definition rec_of_bytes :: "u8 list \<Rightarrow> pcap_record_hdr" where
  "rec_of_bytes bs = \<lparr>ts_sec = get_le32 bs, ts_usec = get_le32 (drop 4 bs),
     incl_len = get_le32 (drop 8 bs), orig_len = get_le32 (drop 12 bs)\<rparr>"

definition bytes_of_rec :: "pcap_record_hdr \<Rightarrow> u8 list" where
  "bytes_of_rec h = put_le32 (ts_sec h) @ put_le32 (ts_usec h)
     @ put_le32 (incl_len h) @ put_le32 (orig_len h)"

lemma length_bytes_of_hdr [bytes_simps]: "length (bytes_of_hdr h) = 24"
  by (simp add: bytes_of_hdr_def bytes_simps)

lemma length_bytes_of_rec [bytes_simps]: "length (bytes_of_rec h) = 16"
  by (simp add: bytes_of_rec_def bytes_simps)

lemma hdr_of_bytes_of_hdr [bytes_simps]: "hdr_of_bytes (bytes_of_hdr h @ bs) = h"
  by (simp add: hdr_of_bytes_def bytes_of_hdr_def bytes_simps)

lemma rec_of_bytes_of_rec [bytes_simps]: "rec_of_bytes (bytes_of_rec h @ bs) = h"
  by (simp add: rec_of_bytes_def bytes_of_rec_def bytes_simps)

lemmas hdr_of_bytes_of_hdr' [bytes_simps] = hdr_of_bytes_of_hdr [where bs = "[]", simplified]
lemmas rec_of_bytes_of_rec' [bytes_simps] = rec_of_bytes_of_rec [where bs = "[]", simplified]

subsection \<open>Byte order of a capture\<close>

definition pcap_convert_record_header :: "u32 \<Rightarrow> pcap_record_hdr \<Rightarrow> pcap_record_hdr" where
  "pcap_convert_record_header convert hdr =
     (if convert \<noteq> 0 then
        hdr\<lparr>incl_len := ntohl (incl_len hdr), orig_len := ntohl (orig_len hdr),
            ts_sec := ntohl (ts_sec hdr), ts_usec := ntohl (ts_usec hdr)\<rparr>
      else hdr)"

definition pcap_swap_hdr :: "pcap_hdr \<Rightarrow> pcap_hdr" where
  "pcap_swap_hdr hdr =
     hdr\<lparr>magic_number := ntohl (magic_number hdr),
         version_major := ntohs (version_major hdr), version_minor := ntohs (version_minor hdr),
         thiszone := ntohl (thiszone hdr), sigfigs := ntohl (sigfigs hdr),
         snaplen := ntohl (snaplen hdr), network := ntohl (network hdr)\<rparr>"

text \<open>The return code, the header and the flag \<open>*convert\<close> after the call.\<close>

definition pcap_decode_header :: "pcap_hdr \<Rightarrow> u32 \<Rightarrow> int \<times> pcap_hdr \<times> u32" where
  "pcap_decode_header hdr convert =
     (if magic_number hdr = PCAPNG_MAGIC_NUMBER then (-2, hdr, convert)
      else if magic_number hdr = PCAP_MAGIC_NUMBER then (0, hdr, 0)
      else if magic_number hdr = ntohl PCAP_MAGIC_NUMBER then (0, pcap_swap_hdr hdr, 1)
      else (-1, hdr, convert))"

lemma pcap_swap_hdr_swap [simp]: "pcap_swap_hdr (pcap_swap_hdr h) = h"
  by (simp add: pcap_swap_hdr_def)

lemma pcap_convert_convert [simp]:
  "pcap_convert_record_header c (pcap_convert_record_header c r) = r"
  by (simp add: pcap_convert_record_header_def)

lemma ntohl_magic [simp]: "ntohl 0xa1b2c3d4 = 0xd4c3b2a1"
  by (simp add: ntohl_def put_le32_def)

lemmas pcap_magics = PCAP_MAGIC_NUMBER_def PCAPNG_MAGIC_NUMBER_def

lemma pcap_decode_header_ok:
  "pcap_decode_header h c = (0, h', c') \<longleftrightarrow>
     magic_number h = PCAP_MAGIC_NUMBER \<and> h' = h \<and> c' = 0 \<or>
     magic_number h = ntohl PCAP_MAGIC_NUMBER \<and> h' = pcap_swap_hdr h \<and> c' = 1"
  by (auto simp: pcap_decode_header_def pcap_magics)

text \<open>
  Byte order of a capture: a header is accepted exactly when its magic number is the
  little-endian or the byte-swapped one; the header that comes back has the magic number in host
  order, and \<open>convert\<close> tells which of the two it was. A header written by a machine of
  the other byte order comes back as the header that machine wrote.
\<close>

lemma decode_header_correct:
  "(fst (pcap_decode_header h c) = 0 \<longleftrightarrow>
      magic_number h = PCAP_MAGIC_NUMBER \<or> magic_number h = ntohl PCAP_MAGIC_NUMBER)
   \<and> (\<forall>h' c'. pcap_decode_header h c = (0, h', c') \<longrightarrow>
        magic_number h' = PCAP_MAGIC_NUMBER \<and> (c' = 0 \<and> h = h' \<or> c' = 1 \<and> h = pcap_swap_hdr h'))
   \<and> (magic_number h = PCAP_MAGIC_NUMBER \<longrightarrow> pcap_decode_header (pcap_swap_hdr h) c = (0, h, 1))"
proof (intro conjI allI impI)
  show "fst (pcap_decode_header h c) = 0 \<longleftrightarrow>
      magic_number h = PCAP_MAGIC_NUMBER \<or> magic_number h = ntohl PCAP_MAGIC_NUMBER"
    by (simp add: pcap_decode_header_def pcap_magics)
next
  fix h' c' assume "pcap_decode_header h c = (0, h', c')"
  then have *: "magic_number h = PCAP_MAGIC_NUMBER \<and> h' = h \<and> c' = 0 \<or>
     magic_number h = ntohl PCAP_MAGIC_NUMBER \<and> h' = pcap_swap_hdr h \<and> c' = 1"
    by (simp only: pcap_decode_header_ok)
  then have magic: "magic_number h' = PCAP_MAGIC_NUMBER"
    by (elim disjE conjE) (simp_all add: pcap_swap_hdr_def)
  from * show "magic_number h' = PCAP_MAGIC_NUMBER"
    "c' = 0 \<and> h = h' \<or> c' = 1 \<and> h = pcap_swap_hdr h'"
    using magic by auto
next
  assume "magic_number h = PCAP_MAGIC_NUMBER"
  then show "pcap_decode_header (pcap_swap_hdr h) c = (0, h, 1)"
    unfolding pcap_decode_header_ok by (simp add: pcap_swap_hdr_def)
qed

lemma decode_header_correct_example:
  "pcap_decode_header (pcap_swap_hdr \<lparr>magic_number = PCAP_MAGIC_NUMBER, version_major = 2,
     version_minor = 4, thiszone = 0, sigfigs = 0, snaplen = 65535, network = 1\<rparr>) 0
   = (0, \<lparr>magic_number = PCAP_MAGIC_NUMBER, version_major = 2,
     version_minor = 4, thiszone = 0, sigfigs = 0, snaplen = 65535, network = 1\<rparr>, 1)"
  using decode_header_correct [of "\<lparr>magic_number = PCAP_MAGIC_NUMBER, version_major = 2,
     version_minor = 4, thiszone = 0, sigfigs = 0, snaplen = 65535, network = 1\<rparr>" 0]
  by simp

end
