(* ===== verification/PcapSource.thy ===== *)
theory PcapSource
  imports PcapFormat
begin

text \<open>
  The source side of the replay (\<open>app/pktgen-pcap.c\<close>): the list of capture files of a port, the
  open capture, the scan that counts the packets, and the reader that fills the packet buffers
  of a section, going round and round the files. \<open>rte_exit\<close> ends the process: it is the
  left side of the result, with one constructor for each message. Disk reads do not fail and
  memory is not exhausted; a read is short only at the end of a file.
\<close>

subsection \<open>Files and streams of the C library\<close>

datatype inode = Reg "u8 list" | Dir "string list" | Special

type_synonym fs = "string \<Rightarrow> inode option"

datatype exit_reason =
    Exit_open_directory string
  | Exit_join_path string
  | Exit_stat_entry string
  | Exit_not_a_pcap string
  | Exit_empty_directory string
  | Exit_stat_source string
  | Exit_source_kind string
  | Exit_open_source string
  | Exit_read_header string
  | Exit_pcapng string
  | Exit_bad_magic string
  | Exit_truncated_record string
  | Exit_empty_source string
  | Exit_rewind string
  | Exit_prepare string
  | Exit_read_record string
  | Exit_packet_header
  | Exit_packet_data string
  | Exit_no_hugepages
  | Exit_section_too_small
  | Exit_create_pool nat
  | Exit_reload_thread
  | Exit_null_filename
  | Fault_null_stream
  | Fault_buffer_overrun

record stream =
  s_bytes :: "u8 list"
  s_pos :: nat
  s_eof :: bool

definition stream_of :: "u8 list \<Rightarrow> stream" where
  "stream_of bs = \<lparr>s_bytes = bs, s_pos = 0, s_eof = False\<rparr>"

definition fopen :: "fs \<Rightarrow> string \<Rightarrow> stream option" where
  "fopen fs path = (case fs path of Some (Reg bs) \<Rightarrow> Some (stream_of bs) | _ \<Rightarrow> None)"

definition fread :: "nat \<Rightarrow> stream \<Rightarrow> u8 list \<times> stream" where
  "fread n st =
     (let buf = take n (drop (s_pos st) (s_bytes st))
      in (buf, st\<lparr>s_pos := s_pos st + length buf, s_eof := s_eof st \<or> length buf < n\<rparr>))"

definition fseek_cur :: "nat \<Rightarrow> stream \<Rightarrow> stream" where
  "fseek_cur n st = st\<lparr>s_pos := s_pos st + n, s_eof := False\<rparr>"

definition clearerr :: "stream \<Rightarrow> stream" where
  "clearerr st = st\<lparr>s_eof := False\<rparr>"

definition ftell :: "stream \<Rightarrow> int" where
  "ftell st = int (s_pos st)"

abbreviation unread :: "stream \<Rightarrow> u8 list" where
  "unread st \<equiv> drop (s_pos st) (s_bytes st)"

text \<open>\<open>strcmp\<close> on byte strings, and \<open>qsort\<close> with such a comparison.\<close>

fun strcmp :: "string \<Rightarrow> string \<Rightarrow> int" where
  "strcmp [] [] = 0"
| "strcmp [] (_ # _) = -1"
| "strcmp (_ # _) [] = 1"
| "strcmp (x # xs) (y # ys) =
     (if x = y then strcmp xs ys else if (of_char x :: nat) < of_char y then -1 else 1)"

fun insert_by :: "('a \<Rightarrow> 'a \<Rightarrow> int) \<Rightarrow> 'a \<Rightarrow> 'a list \<Rightarrow> 'a list" where
  "insert_by cmp x [] = [x]"
| "insert_by cmp x (y # ys) = (if cmp x y \<le> 0 then x # y # ys else y # insert_by cmp x ys)"

definition qsort :: "('a \<Rightarrow> 'a \<Rightarrow> int) \<Rightarrow> 'a list \<Rightarrow> 'a list" where
  "qsort cmp xs = foldr (insert_by cmp) xs []"

subsection \<open>The state of a port's capture\<close>

record pcap_section =
  sec_mp :: "nat option"
  sec_pkt_count :: u32
  sec_pkt_loaded :: u32
  budget_bytes :: u64
  chunk_id :: u64
  file_offset_begin :: int
  file_offset_end :: int

record pcap_info =
  filename :: string
  fp :: "stream option"
  pcap_mp :: "nat option"
  sections :: "nat \<Rightarrow> pcap_section"
  active_section_idx :: nat
  convert :: u32
  max_pkt_size :: u32
  avg_pkt_size :: u32
  pkt_count :: u32
  pkt_index :: u32
  next_chunk_id :: u64
  info :: pcap_hdr
  reload_request :: int
  reload_in_progress :: int
  section_locked :: "nat \<Rightarrow> int"
  source_files :: "string list"
  source_file_count :: u32
  source_file_index :: u32
  source_convert :: u32

subsection \<open>The list of source files\<close>

definition pcap_has_pcap_suffix :: "string option \<Rightarrow> bool" where
  "pcap_has_pcap_suffix fname =
     (case fname of None \<Rightarrow> False
      | Some s \<Rightarrow> if length s < 5 then False else strcmp (drop (length s - 5) s) ''.pcap'' = 0)"

definition pcap_dir_entry_cmp :: "string \<Rightarrow> string \<Rightarrow> int" where
  "pcap_dir_entry_cmp left right = strcmp left right"

definition pcap_join_path :: "string option \<Rightarrow> string option \<Rightarrow> string option" where
  "pcap_join_path dirpath entry =
     (case (dirpath, entry) of
        (Some d, Some e) \<Rightarrow>
          Some (if length d > 0 \<and> d ! (length d - 1) = CHR ''/'' then d @ e else d @ ''/'' @ e)
      | _ \<Rightarrow> None)"

fun pcap_scan_directory :: "fs \<Rightarrow> string \<Rightarrow> string list \<Rightarrow> string list \<Rightarrow> exit_reason + string list" where
  "pcap_scan_directory fs dirpath [] entries = Inr entries"
| "pcap_scan_directory fs dirpath (d # ds) entries =
     (if strcmp d ''.'' = 0 \<or> strcmp d ''..'' = 0 then pcap_scan_directory fs dirpath ds entries
      else case pcap_join_path (Some dirpath) (Some d) of
        None \<Rightarrow> Inl (Exit_join_path dirpath)
      | Some full_path \<Rightarrow>
          (case fs full_path of
             None \<Rightarrow> Inl (Exit_stat_entry full_path)
           | Some st \<Rightarrow>
               (if (case st of Reg _ \<Rightarrow> False | _ \<Rightarrow> True) \<or> \<not> pcap_has_pcap_suffix (Some d)
                then Inl (Exit_not_a_pcap d)
                else pcap_scan_directory fs dirpath ds (entries @ [d]))))"

definition pcap_collect_directory_entries :: "fs \<Rightarrow> string \<Rightarrow> exit_reason + string list" where
  "pcap_collect_directory_entries fs dirpath =
     (case fs dirpath of
        Some (Dir names) \<Rightarrow>
          (case pcap_scan_directory fs dirpath names [] of
             Inl e \<Rightarrow> Inl e
           | Inr entries \<Rightarrow>
               if entries = [] then Inl (Exit_empty_directory dirpath)
               else Inr (qsort pcap_dir_entry_cmp entries))
      | _ \<Rightarrow> Inl (Exit_open_directory dirpath))"

definition pcap_free_source_files :: "pcap_info \<Rightarrow> pcap_info" where
  "pcap_free_source_files p =
     (if source_files p = [] then p
      else p\<lparr>source_files := [], source_file_count := 0, source_file_index := 0,
              source_convert := 0\<rparr>)"

fun pcap_join_all :: "string \<Rightarrow> string list \<Rightarrow> exit_reason + string list" where
  "pcap_join_all dirpath [] = Inr []"
| "pcap_join_all dirpath (e # es) =
     (case pcap_join_path (Some dirpath) (Some e) of
        None \<Rightarrow> Inl (Exit_join_path dirpath)
      | Some path \<Rightarrow>
          (case pcap_join_all dirpath es of Inl r \<Rightarrow> Inl r | Inr ps \<Rightarrow> Inr (path # ps)))"

definition pcap_prepare_source_files :: "fs \<Rightarrow> pcap_info \<Rightarrow> exit_reason + int \<times> pcap_info" where
  "pcap_prepare_source_files fs p0 =
     (let p = pcap_free_source_files p0 in
      case fs (filename p) of
        None \<Rightarrow> Inl (Exit_stat_source (filename p))
      | Some (Dir _) \<Rightarrow>
          (case pcap_collect_directory_entries fs (filename p) of
             Inl e \<Rightarrow> Inl e
           | Inr entries \<Rightarrow>
               (case pcap_join_all (filename p) entries of
                  Inl e \<Rightarrow> Inl e
                | Inr paths \<Rightarrow>
                    Inr (0, p\<lparr>source_files := paths, source_file_count := of_nat (length entries)\<rparr>)))
      | Some (Reg _) \<Rightarrow> Inr (0, p\<lparr>source_files := [filename p], source_file_count := 1\<rparr>)
      | Some Special \<Rightarrow> Inl (Exit_source_kind (filename p)))"

subsection \<open>Opening a source file\<close>

text \<open>The code path from \<open>fread\<close> of the global header to the decoded header.\<close>

definition pcap_read_header :: "string \<Rightarrow> stream \<Rightarrow> exit_reason + pcap_hdr \<times> u32 \<times> stream" where
  "pcap_read_header path st =
     (let (buf, st1) = fread sizeof_pcap_hdr st in
      if length buf \<noteq> sizeof_pcap_hdr then Inl (Exit_read_header path)
      else case pcap_decode_header (hdr_of_bytes buf) 0 of
        (rc, hdr, conv) \<Rightarrow>
          if rc = -2 then Inl (Exit_pcapng path)
          else if rc < 0 then Inl (Exit_bad_magic path)
          else Inr (hdr, conv, st1))"

definition pcap_open_source_index :: "fs \<Rightarrow> pcap_info \<Rightarrow> u32 \<Rightarrow> exit_reason + int \<times> pcap_info" where
  "pcap_open_source_index fs p source_idx =
     (if source_idx \<ge> source_file_count p then Inr (-1, p)
      else
        let path = source_files p ! unat source_idx;
            p1 = (if fp p \<noteq> None then p\<lparr>fp := None\<rparr> else p)
        in case fopen fs path of
             None \<Rightarrow> Inl (Exit_open_source path)
           | Some st \<Rightarrow>
               (case pcap_read_header path st of
                  Inl e \<Rightarrow> Inl e
                | Inr (hdr, conv, st1) \<Rightarrow>
                    Inr (0, p1\<lparr>fp := Some st1, source_file_index := source_idx,
                               source_convert := conv\<rparr>)))"

definition pcap_rewind :: "fs \<Rightarrow> pcap_info \<Rightarrow> exit_reason + int \<times> pcap_info" where
  "pcap_rewind fs p =
     (if source_file_count p = 0 then Inr (-1, p) else pcap_open_source_index fs p 0)"

subsection \<open>Counting the packets\<close>

lemma fread_simps [src_simps]:
  "fst (fread n st) = take n (unread st)"
  "s_bytes (snd (fread n st)) = s_bytes st"
  "s_pos (snd (fread n st)) = s_pos st + length (take n (unread st))"
  "s_eof (snd (fread n st)) = (s_eof st \<or> length (take n (unread st)) < n)"
  by (simp_all add: fread_def Let_def)

lemma fread_eq:
  "fread n st = (take n (unread st), st\<lparr>s_pos := s_pos st + length (take n (unread st)),
     s_eof := s_eof st \<or> length (take n (unread st)) < n\<rparr>)"
  by (simp add: fread_def Let_def)

text \<open>The loop over the records of one file; the last argument is the local \<open>total_size\<close>.\<close>

function pcap_scan_records ::
  "string \<Rightarrow> u32 \<Rightarrow> stream \<Rightarrow> pcap_info \<Rightarrow> u64 \<Rightarrow> exit_reason + pcap_info \<times> u64" where
  "pcap_scan_records path conv st p total_size =
     (let (buf, st1) = fread sizeof_record_hdr st in
      if length buf = 0 then Inr (p, total_size)
      else if length buf \<noteq> sizeof_record_hdr then Inl (Exit_truncated_record path)
      else
        let rec_hdr = pcap_convert_record_header conv (rec_of_bytes buf);
            st2 = fseek_cur (unat (incl_len rec_hdr)) st1;
            p1 = p\<lparr>pkt_count := pkt_count p + 1\<rparr>;
            p2 = (if incl_len rec_hdr > max_pkt_size p1
                  then p1\<lparr>max_pkt_size := incl_len rec_hdr\<rparr> else p1)
        in pcap_scan_records path conv st2 p2 (total_size + ucast (incl_len rec_hdr)))"
  by pat_completeness auto
termination
  by (relation "measure (\<lambda>(_, _, st, _, _). length (s_bytes st) - s_pos st)")
    (auto simp: fread_eq fseek_cur_def)

declare pcap_scan_records.simps [simp del]

fun pcap_scan_files ::
  "fs \<Rightarrow> string list \<Rightarrow> bool \<Rightarrow> pcap_info \<Rightarrow> u64 \<Rightarrow> exit_reason + pcap_info \<times> u64" where
  "pcap_scan_files fs [] info_set p total_size = Inr (p, total_size)"
| "pcap_scan_files fs (path # paths) info_set p total_size =
     (case fopen fs path of
        None \<Rightarrow> Inl (Exit_open_source path)
      | Some st \<Rightarrow>
          (case pcap_read_header path st of
             Inl e \<Rightarrow> Inl e
           | Inr (hdr, conv, st1) \<Rightarrow>
               (let p1 = (if \<not> info_set then p\<lparr>info := hdr, convert := conv\<rparr> else p) in
                case pcap_scan_records path conv st1 p1 total_size of
                  Inl e \<Rightarrow> Inl e
                | Inr (p2, total2) \<Rightarrow> pcap_scan_files fs paths True p2 total2)))"

definition pcap_get_info :: "fs \<Rightarrow> pcap_info \<Rightarrow> exit_reason + pcap_info" where
  "pcap_get_info fs p0 =
     (let p = p0\<lparr>pkt_count := 0, max_pkt_size := 0, avg_pkt_size := 0\<rparr> in
      case pcap_scan_files fs (take (unat (source_file_count p)) (source_files p)) False p 0 of
        Inl e \<Rightarrow> Inl e
      | Inr (p1, total_size) \<Rightarrow>
          if pkt_count p1 = 0 then Inl (Exit_empty_source (filename p1))
          else
            let p2 = p1\<lparr>avg_pkt_size := ucast (total_size div ucast (pkt_count p1))\<rparr>
            in case pcap_rewind fs p2 of
                 Inl e \<Rightarrow> Inl e
               | Inr (rc, p3) \<Rightarrow> if rc < 0 then Inl (Exit_rewind (filename p3)) else Inr p3)"

subsection \<open>Reading the next record\<close>

text \<open>
  The result has no value when the loop does not end, the left side when the process exits, and
  no header for the return value \<open>-1\<close>.
\<close>

partial_function (option) pcap_read_record_loop ::
  "fs \<Rightarrow> pcap_info \<Rightarrow> (exit_reason + pcap_record_hdr option \<times> pcap_info) option" where
  "pcap_read_record_loop fs p =
     (case fp p of
        None \<Rightarrow> Some (Inl Fault_null_stream)
      | Some st \<Rightarrow>
          (if length (fst (fread sizeof_record_hdr st)) = sizeof_record_hdr
           then Some (Inr (Some (pcap_convert_record_header (source_convert p)
                                   (rec_of_bytes (fst (fread sizeof_record_hdr st)))),
                           p\<lparr>fp := Some (snd (fread sizeof_record_hdr st))\<rparr>))
           else if s_eof (snd (fread sizeof_record_hdr st))
           then (case pcap_open_source_index fs
                        (p\<lparr>fp := Some (clearerr (snd (fread sizeof_record_hdr st)))\<rparr>)
                        (if source_file_index p + 1 \<ge> source_file_count p then 0
                         else source_file_index p + 1) of
                   Inl e \<Rightarrow> Some (Inl e)
                 | Inr r \<Rightarrow>
                     (if fst r < 0 then Some (Inr (None, snd r))
                      else pcap_read_record_loop fs (snd r)))
           else Some (Inl (Exit_read_record (source_files p ! unat (source_file_index p))))))"

definition pcap_read_record_header ::
  "fs \<Rightarrow> pcap_info \<Rightarrow> (exit_reason + pcap_record_hdr option \<times> pcap_info) option" where
  "pcap_read_record_header fs p =
     (if fp p = None \<or> source_file_count p = 0 then Some (Inr (None, p))
      else pcap_read_record_loop fs p)"

end
