(* ===== verification/PcapReader.thy ===== *)
theory PcapReader
  imports PcapSource
begin

text \<open>
  What a capture file means, as a list of records, and the facts that tie the code of
  \<open>PcapSource\<close> to it: the scan counts exactly these records, and the reader returns them one
  after the other, file after file, and starts over after the last one.
\<close>

subsection \<open>The records of a file\<close>

type_synonym packet = "pcap_record_hdr \<times> u8 list"

definition rec_at :: "u32 \<Rightarrow> u8 list \<Rightarrow> pcap_record_hdr" where
  "rec_at conv bs = pcap_convert_record_header conv (rec_of_bytes (take 16 bs))"

abbreviation rec_len :: "u32 \<Rightarrow> u8 list \<Rightarrow> nat" where
  "rec_len conv bs \<equiv> unat (incl_len (rec_at conv bs))"

function pcap_records :: "u32 \<Rightarrow> u8 list \<Rightarrow> packet list option" where
  "pcap_records conv bs =
     (if bs = [] then Some []
      else if length bs < 16 + rec_len conv bs then None
      else map_option ((#) (rec_at conv bs, take (rec_len conv bs) (drop 16 bs)))
             (pcap_records conv (drop (16 + rec_len conv bs) bs)))"
  by pat_completeness auto
termination
  by (relation "measure (\<lambda>(_, bs). length bs)") (auto simp: rec_at_def)

declare pcap_records.simps [simp del]

definition pcap_file_records :: "fs \<Rightarrow> string \<Rightarrow> packet list option" where
  "pcap_file_records fs path =
     (case fopen fs path of None \<Rightarrow> None
      | Some st \<Rightarrow>
          (case pcap_read_header path st of Inl _ \<Rightarrow> None
           | Inr (hdr, conv, st1) \<Rightarrow> pcap_records conv (unread st1)))"

text \<open>The source files are complete captures, and these are their records.\<close>

definition captures :: "fs \<Rightarrow> string list \<Rightarrow> packet list list \<Rightarrow> bool" where
  "captures fs files Rs \<longleftrightarrow> list_all2 (\<lambda>f rs. pcap_file_records fs f = Some rs) files Rs"

lemma pcap_records_Nil [simp]: "pcap_records conv [] = Some []"
  by (subst pcap_records.simps) simp

lemma pcap_records_Cons_iff:
  "pcap_records conv bs = Some (r # rs) \<longleftrightarrow>
     bs \<noteq> [] \<and> 16 + rec_len conv bs \<le> length bs
     \<and> r = (rec_at conv bs, take (rec_len conv bs) (drop 16 bs))
     \<and> pcap_records conv (drop (16 + rec_len conv bs) bs) = Some rs"
  by (subst pcap_records.simps) auto

lemma pcap_records_empty_iff: "pcap_records conv bs = Some [] \<longleftrightarrow> bs = []"
  by (subst pcap_records.simps) auto

lemma pcap_records_payload:
  "pcap_records conv bs = Some rs \<Longrightarrow> (h, d) \<in> set rs \<Longrightarrow> length d = unat (incl_len h)"
proof (induction conv bs arbitrary: rs rule: pcap_records.induct)
  case (1 conv bs)
  show ?case
  proof (cases rs)
    case Nil
    with 1 show ?thesis by simp
  next
    case (Cons r rs')
    with 1 show ?thesis by (auto simp: pcap_records_Cons_iff)
  qed
qed

subsection \<open>The scan\<close>

definition sum_len :: "packet list \<Rightarrow> u64" where
  "sum_len rs = sum_list (map (\<lambda>r. ucast (incl_len (fst r))) rs)"

definition max_len :: "u32 \<Rightarrow> packet list \<Rightarrow> u32" where
  "max_len m rs = foldl (\<lambda>m r. if incl_len (fst r) > m then incl_len (fst r) else m) m rs"

lemma scan_records:
  "pcap_records conv (unread st) = Some rs \<Longrightarrow>
   pcap_scan_records path conv st p t =
     Inr (p\<lparr>pkt_count := pkt_count p + of_nat (length rs), max_pkt_size := max_len (max_pkt_size p) rs\<rparr>,
          t + sum_len rs)"
proof (induction path conv st p t arbitrary: rs rule: pcap_scan_records.induct)
  case (1 path conv st p t)
  show ?case
  proof (cases rs)
    case Nil
    with 1(2) have "unread st = []" by (simp add: pcap_records_empty_iff)
    with Nil show ?thesis
      by (subst pcap_scan_records.simps) (simp add: fread_eq sum_len_def max_len_def)
  next
    case (Cons r rs')
    let ?n = "rec_len conv (unread st)"
    let ?h = "rec_at conv (unread st)"
    let ?st1 = "snd (fread 16 st)"
    let ?st2 = "fseek_cur ?n ?st1"
    let ?p1 = "p\<lparr>pkt_count := pkt_count p + 1\<rparr>"
    let ?p2 = "if incl_len ?h > max_pkt_size ?p1 then ?p1\<lparr>max_pkt_size := incl_len ?h\<rparr> else ?p1"
    from 1(2) Cons have len: "16 + ?n \<le> length (unread st)"
      and r: "r = (?h, take ?n (drop 16 (unread st)))"
      and rest: "pcap_records conv (drop (16 + ?n) (unread st)) = Some rs'"
      by (simp_all add: pcap_records_Cons_iff)
    then have full: "length (fst (fread 16 st)) = 16" by (simp add: src_simps)
    have "unread ?st2 = drop (16 + ?n) (unread st)"
      using len by (simp add: fread_eq fseek_cur_def ac_simps)
    with rest have tail: "pcap_records conv (unread ?st2) = Some rs'" by simp
    have h: "pcap_convert_record_header conv (rec_of_bytes (fst (fread 16 st))) = ?h"
      by (simp add: src_simps rec_at_def)
    have "pcap_scan_records path conv st p t =
        pcap_scan_records path conv ?st2 ?p2 (t + ucast (incl_len ?h))"
      by (subst pcap_scan_records.simps) (simp only: Let_def split_beta full h, simp)
    also have "\<dots> = Inr (?p2\<lparr>pkt_count := pkt_count ?p2 + of_nat (length rs'),
          max_pkt_size := max_len (max_pkt_size ?p2) rs'\<rparr>, t + ucast (incl_len ?h) + sum_len rs')"
      by (rule 1(1) [OF refl prod.collapse _ _ h [symmetric] refl refl refl tail]) (use full in auto)
    finally show ?thesis
      by (simp add: Cons r sum_len_def max_len_def add.assoc)
  qed
qed

text \<open>The files of the list, one after the other.\<close>

lemma captures_Nil [simp]: "captures fs [] Rs \<longleftrightarrow> Rs = []"
  by (simp add: captures_def)

lemma captures_Cons [simp]:
  "captures fs (f # fls) Rs \<longleftrightarrow>
     (\<exists>rs Rs'. Rs = rs # Rs' \<and> pcap_file_records fs f = Some rs \<and> captures fs fls Rs')"
  by (auto simp: captures_def list_all2_Cons1)

lemma captures_length: "captures fs files Rs \<Longrightarrow> length Rs = length files"
  by (auto simp: captures_def dest: list_all2_lengthD)

lemma captures_nth:
  "captures fs files Rs \<Longrightarrow> i < length files \<Longrightarrow> pcap_file_records fs (files ! i) = Some (Rs ! i)"
  by (simp add: captures_def list_all2_conv_all_nth)

lemma pcap_file_records_Some:
  "pcap_file_records fs path = Some rs \<Longrightarrow>
     \<exists>st hdr conv st1. fopen fs path = Some st \<and> pcap_read_header path st = Inr (hdr, conv, st1)
       \<and> pcap_records conv (unread st1) = Some rs"
  by (auto simp: pcap_file_records_def split: option.splits sum.splits)

lemma max_len_append: "max_len m (xs @ ys) = max_len (max_len m xs) ys"
  by (simp add: max_len_def)

lemma sum_len_append: "sum_len (xs @ ys) = sum_len xs + sum_len ys"
  by (simp add: sum_len_def)

lemma scan_files:
  "captures fs files Rs \<Longrightarrow>
   \<exists>i c. pcap_scan_files fs files b p t =
     Inr (p\<lparr>info := i, convert := c, pkt_count := pkt_count p + of_nat (length (concat Rs)),
            max_pkt_size := max_len (max_pkt_size p) (concat Rs)\<rparr>, t + sum_len (concat Rs))"
proof (induction files arbitrary: Rs b p t)
  case Nil
  then show ?case by (auto simp: sum_len_def max_len_def intro!: exI [of _ "info p"] exI [of _ "convert p"])
next
  case (Cons f files)
  then obtain rs Rs' where Rs: "Rs = rs # Rs'" "captures fs files Rs'"
    and f: "pcap_file_records fs f = Some rs" by auto
  from pcap_file_records_Some [OF f] obtain st hdr conv st1 where
    st: "fopen fs f = Some st" "pcap_read_header f st = Inr (hdr, conv, st1)"
    and recs: "pcap_records conv (unread st1) = Some rs" by blast
  let ?p1 = "if \<not> b then p\<lparr>info := hdr, convert := conv\<rparr> else p"
  let ?p2 = "?p1\<lparr>pkt_count := pkt_count ?p1 + of_nat (length rs),
    max_pkt_size := max_len (max_pkt_size ?p1) rs\<rparr>"
  have "pcap_scan_files fs (f # files) b p t = pcap_scan_files fs files True ?p2 (t + sum_len rs)"
    by (simp add: st scan_records [OF recs])
  moreover from Cons.IH [OF Rs(2), of True ?p2 "t + sum_len rs"] obtain i c where
    "pcap_scan_files fs files True ?p2 (t + sum_len rs) =
       Inr (?p2\<lparr>info := i, convert := c, pkt_count := pkt_count ?p2 + of_nat (length (concat Rs')),
              max_pkt_size := max_len (max_pkt_size ?p2) (concat Rs')\<rparr>,
            t + sum_len rs + sum_len (concat Rs'))" by blast
  moreover have "?p2\<lparr>info := i, convert := c, pkt_count := pkt_count ?p2 + of_nat (length (concat Rs')),
      max_pkt_size := max_len (max_pkt_size ?p2) (concat Rs')\<rparr>
    = p\<lparr>info := i, convert := c, pkt_count := pkt_count p + of_nat (length (concat Rs)),
        max_pkt_size := max_len (max_pkt_size p) (concat Rs)\<rparr>"
    by (simp add: Rs(1) max_len_append add.assoc)
  ultimately show ?case by (auto simp: Rs(1) sum_len_append add.assoc)
qed

subsection \<open>Where the reader is\<close>

text \<open>
  \<open>reader_at fs Rs n p\<close>: the open stream stands before the record number \<open>n\<close> of the source, the
  records being numbered through all the files and from 0 again after the last one.
\<close>

definition reader_at :: "fs \<Rightarrow> packet list list \<Rightarrow> nat \<Rightarrow> pcap_info \<Rightarrow> bool" where
  "reader_at fs Rs n p \<longleftrightarrow>
     captures fs (source_files p) Rs \<and> length Rs < 2 ^ 32
     \<and> source_file_count p = of_nat (length Rs) \<and> source_files p \<noteq> []
     \<and> (\<exists>k st. unat (source_file_index p) < length Rs \<and> fp p = Some st
          \<and> k \<le> length (Rs ! unat (source_file_index p))
          \<and> pcap_records (source_convert p) (unread st) = Some (drop k (Rs ! unat (source_file_index p)))
          \<and> (length (concat (take (unat (source_file_index p)) Rs)) + k) mod length (concat Rs)
              = n mod length (concat Rs))"

lemma pcap_open_source_index_ok:
  assumes "captures fs (source_files p) Rs" and "source_file_count p = of_nat (length Rs)"
    and "length Rs < 2 ^ 32" and "unat i < length Rs"
  shows "\<exists>st conv. pcap_open_source_index fs p i = Inr (0, p\<lparr>fp := Some st, source_file_index := i,
           source_convert := conv\<rparr>) \<and> pcap_records conv (unread st) = Some (Rs ! unat i)"
proof -
  have "unat i < unat (source_file_count p)"
    using assms by (simp add: unat_of_nat_small)
  then have not_ge: "\<not> source_file_count p \<le> i" by (simp add: word_le_nat_alt)
  have "unat i < length (source_files p)" using assms captures_length by metis
  then have "pcap_file_records fs (source_files p ! unat i) = Some (Rs ! unat i)"
    by (rule captures_nth [OF assms(1)])
  from pcap_file_records_Some [OF this] obtain st hdr conv st1 where
    "fopen fs (source_files p ! unat i) = Some st"
    "pcap_read_header (source_files p ! unat i) st = Inr (hdr, conv, st1)"
    and recs: "pcap_records conv (unread st1) = Some (Rs ! unat i)" by blast
  then have "pcap_open_source_index fs p i = Inr (0, p\<lparr>fp := Some st1, source_file_index := i,
      source_convert := conv\<rparr>)"
    using not_ge by (simp add: pcap_open_source_index_def Let_def)
  with recs show ?thesis by blast
qed

lemma reader_at_open:
  assumes "captures fs (source_files p) Rs" and "source_file_count p = of_nat (length Rs)"
    and "length Rs < 2 ^ 32" and "unat i < length Rs"
  shows "\<exists>p'. pcap_open_source_index fs p i = Inr (0, p')
    \<and> reader_at fs Rs (length (concat (take (unat i) Rs))) p'
    \<and> source_file_index p' = i
    \<and> (\<exists>st conv. p' = p\<lparr>fp := Some st, source_file_index := i, source_convert := conv\<rparr>
          \<and> pcap_records conv (unread st) = Some (Rs ! unat i))"
proof -
  from pcap_open_source_index_ok [OF assms] obtain st conv where
    st: "pcap_open_source_index fs p i = Inr (0, p\<lparr>fp := Some st, source_file_index := i,
           source_convert := conv\<rparr>)" "pcap_records conv (unread st) = Some (Rs ! unat i)"
    by blast
  have "source_files p \<noteq> []" using assms captures_length by fastforce
  then have "reader_at fs Rs (length (concat (take (unat i) Rs)))
      (p\<lparr>fp := Some st, source_file_index := i, source_convert := conv\<rparr>)"
    using assms st(2) by (auto simp: reader_at_def intro!: exI [of _ 0])
  with st show ?thesis by auto
qed


subsection \<open>Reading on\<close>

text \<open>The header is there: one step of the loop.\<close>

lemma read_loop_header:
  assumes "fp p = Some st" and "pcap_records (source_convert p) (unread st) = Some ((h, d) # rs)"
  shows "pcap_read_record_loop fs p =
           Some (Inr (Some h, p\<lparr>fp := Some (snd (fread 16 st))\<rparr>))"
    and "pcap_records (source_convert p) (drop (unat (incl_len h)) (unread (snd (fread 16 st)))) = Some rs"
    and "take (unat (incl_len h)) (unread (snd (fread 16 st))) = d"
    and "length d = unat (incl_len h)"
proof -
  from assms(2) have len: "16 + rec_len (source_convert p) (unread st) \<le> length (unread st)"
    and h: "h = rec_at (source_convert p) (unread st)"
    and d: "d = take (rec_len (source_convert p) (unread st)) (drop 16 (unread st))"
    and rs: "pcap_records (source_convert p)
               (drop (16 + rec_len (source_convert p) (unread st)) (unread st)) = Some rs"
    by (simp_all add: pcap_records_Cons_iff)
  have next_bytes: "unread (snd (fread 16 st)) = drop 16 (unread st)"
    using len by (simp add: src_simps ac_simps)
  show "pcap_read_record_loop fs p = Some (Inr (Some h, p\<lparr>fp := Some (snd (fread 16 st))\<rparr>))"
    using len by (subst pcap_read_record_loop.simps) (simp add: assms(1) src_simps h rec_at_def)
  show "pcap_records (source_convert p) (drop (unat (incl_len h)) (unread (snd (fread 16 st)))) = Some rs"
    using rs by (simp only: next_bytes) (simp add: h ac_simps)
  show "take (unat (incl_len h)) (unread (snd (fread 16 st))) = d"
    by (simp only: next_bytes) (simp add: d h)
  show "length d = unat (incl_len h)"
    using len by (simp add: d h)
qed

text \<open>The file is at its end: the loop goes on with the next file.\<close>

definition next_source :: "pcap_info \<Rightarrow> u32" where
  "next_source p = (if source_file_index p + 1 \<ge> source_file_count p then 0
                    else source_file_index p + 1)"

lemma read_loop_eof:
  assumes "fp p = Some st" and "unread st = []"
    and "pcap_open_source_index fs (p\<lparr>fp := Some (clearerr (snd (fread 16 st)))\<rparr>) (next_source p)
         = Inr (0, p')"
  shows "pcap_read_record_loop fs p = pcap_read_record_loop fs p'"
proof -
  have "pcap_read_record_loop fs p =
    (case pcap_open_source_index fs (p\<lparr>fp := Some (clearerr (snd (fread 16 st)))\<rparr>) (next_source p) of
       Inl e \<Rightarrow> Some (Inl e)
     | Inr r \<Rightarrow> if fst r < 0 then Some (Inr (None, snd r)) else pcap_read_record_loop fs (snd r))"
    by (subst pcap_read_record_loop.simps) (simp add: assms(1,2) src_simps next_source_def)
  then show ?thesis by (simp only: assms(3) sum.case fst_conv snd_conv) simp
qed

lemma unat_next_source:
  assumes "source_file_count p = of_nat n" and "n < 2 ^ 32" and "unat (source_file_index p) < n"
  shows "unat (next_source p) = (unat (source_file_index p) + 1) mod n"
proof -
  have count: "unat (source_file_count p) = n" using assms by (simp add: unat_of_nat_small)
  have idx: "unat (source_file_index p + 1) = unat (source_file_index p) + 1"
    using assms by (intro unat_inc_no_wrap) simp
  show ?thesis
    using assms(3) by (cases "unat (source_file_index p) + 1 = n")
      (auto simp: next_source_def word_le_nat_alt count idx)
qed

lemma length_concat_take_Suc:
  "i < length xss \<Longrightarrow> length (concat (take (Suc i) xss)) = length (concat (take i xss)) + length (xss ! i)"
  by (simp add: take_Suc_conv_app_nth)

lemma start_of_next_mod:
  "i < length xss \<Longrightarrow>
   length (concat (take ((i + 1) mod length xss) xss)) mod length (concat xss)
     = (length (concat (take i xss)) + length (xss ! i)) mod length (concat xss)"
proof (cases "i + 1 = length xss")
  case True
  assume "i < length xss"
  with True have "length (concat xss) = length (concat (take i xss)) + length (xss ! i)"
    using length_concat_take_Suc [of i xss] by simp
  with True show ?thesis by simp
next
  case False
  assume "i < length xss"
  with False show ?thesis by (simp add: length_concat_take_Suc [symmetric])
qed


text \<open>Only the place in the source has changed.\<close>

definition no_place :: "pcap_info \<Rightarrow> pcap_info" where
  "no_place p = p\<lparr>fp := None, source_file_index := 0, source_convert := 0\<rparr>"

definition moved :: "pcap_info \<Rightarrow> pcap_info \<Rightarrow> bool" where
  "moved p p' \<longleftrightarrow> no_place p' = no_place p"

lemma moved_refl [simp]: "moved p p"
  by (simp add: moved_def)

lemma moved_trans: "moved p q \<Longrightarrow> moved q r \<Longrightarrow> moved p r"
  by (simp add: moved_def)

lemma no_place_update [simp]:
  "no_place (p\<lparr>fp := st\<rparr>) = no_place p"
  "no_place (p\<lparr>source_file_index := i\<rparr>) = no_place p"
  "no_place (p\<lparr>source_convert := c\<rparr>) = no_place p"
  by (simp_all add: no_place_def)

lemma moved_update [simp]:
  "moved p (p'\<lparr>fp := st\<rparr>) = moved p p'"
  "moved p (p'\<lparr>source_file_index := i\<rparr>) = moved p p'"
  "moved p (p'\<lparr>source_convert := c\<rparr>) = moved p p'"
  by (simp_all add: moved_def)

lemma moved_frame:
  assumes "moved p p'"
  shows "sections p' = sections p" "source_files p' = source_files p"
    "source_file_count p' = source_file_count p" "filename p' = filename p"
    "pcap_mp p' = pcap_mp p" "next_chunk_id p' = next_chunk_id p"
    "pkt_count p' = pkt_count p" "max_pkt_size p' = max_pkt_size p"
    "active_section_idx p' = active_section_idx p" "pkt_index p' = pkt_index p"
    "reload_request p' = reload_request p" "reload_in_progress p' = reload_in_progress p"
    "section_locked p' = section_locked p"
  using assms by (cases p; cases p'; simp add: moved_def no_place_def)+

text \<open>The header of record \<open>n\<close> has been read and its payload is next.\<close>

definition at_payload :: "fs \<Rightarrow> packet list list \<Rightarrow> nat \<Rightarrow> pcap_info \<Rightarrow> pcap_record_hdr \<Rightarrow> pcap_info \<Rightarrow> bool" where
  "at_payload fs Rs n p h p' \<longleftrightarrow>
     (\<exists>st d. fp p' = Some st \<and> cyc (concat Rs) n = (h, d) \<and> length d = unat (incl_len h)
        \<and> fst (fread (unat (incl_len h)) st) = d \<and> moved p p'
        \<and> reader_at fs Rs (Suc n) (p'\<lparr>fp := Some (snd (fread (unat (incl_len h)) st))\<rparr>))"

lemma nth_concat_at:
  "i < length xss \<Longrightarrow> k < length (xss ! i) \<Longrightarrow>
   concat xss ! (length (concat (take i xss)) + k) = xss ! i ! k"
proof -
  assume "i < length xss" "k < length (xss ! i)"
  moreover from this have "concat xss = concat (take i xss) @ xss ! i @ concat (drop (Suc i) xss)"
    by (metis concat.simps(2) concat_append id_take_nth_drop)
  ultimately show ?thesis by (simp add: nth_append)
qed

lemma concat_at_less:
  "i < length xss \<Longrightarrow> k < length (xss ! i) \<Longrightarrow>
   length (concat (take i xss)) + k < length (concat xss)"
proof -
  assume "i < length xss" "k < length (xss ! i)"
  moreover from this have "concat xss = concat (take i xss) @ xss ! i @ concat (drop (Suc i) xss)"
    by (metis concat.simps(2) concat_append id_take_nth_drop)
  then have "length (concat xss) = length (concat (take i xss)) + length (xss ! i)
      + length (concat (drop (Suc i) xss))"
    by (metis add.assoc length_append)
  ultimately show ?thesis by linarith
qed

lemma read_here:
  assumes "captures fs (source_files p) Rs" "length Rs < 2 ^ 32"
    and "source_file_count p = of_nat (length Rs)" "source_files p \<noteq> []"
    and i: "unat (source_file_index p) = i" "i < length Rs" "fp p = Some st"
    and k: "k < length (Rs ! i)"
    and recs: "pcap_records (source_convert p) (unread st) = Some (drop k (Rs ! i))"
    and pos: "(length (concat (take i Rs)) + k) mod length (concat Rs) = n mod length (concat Rs)"
  shows "\<exists>h p'. pcap_read_record_loop fs p = Some (Inr (Some h, p')) \<and> at_payload fs Rs n p h p'"
proof -
  obtain h d where hd: "Rs ! i ! k = (h, d)" by (cases "Rs ! i ! k")
  have split: "drop k (Rs ! i) = (h, d) # drop (Suc k) (Rs ! i)"
    using k hd by (simp add: Cons_nth_drop_Suc [symmetric])
  note step = read_loop_header [OF i(3) recs [unfolded split]]
  let ?st = "snd (fread 16 st)"
  let ?st' = "snd (fread (unat (incl_len h)) ?st)"
  have pos_less: "length (concat (take i Rs)) + k < length (concat Rs)"
    using i k by (simp add: concat_at_less)
  have "cyc (concat Rs) n = concat Rs ! ((length (concat (take i Rs)) + k) mod length (concat Rs))"
    by (simp add: cyc_def pos)
  also have "\<dots> = (h, d)" using pos_less i k hd by (simp add: nth_concat_at)
  finally have this_rec: "cyc (concat Rs) n = (h, d)" .
  have "length (take (unat (incl_len h)) (unread ?st)) = unat (incl_len h)"
    using step(3,4) by simp
  then have "unread ?st' = drop (unat (incl_len h)) (unread ?st)"
    by (simp add: fread_eq ac_simps)
  with step(2) have after: "pcap_records (source_convert p) (unread ?st') = Some (drop (Suc k) (Rs ! i))"
    by simp
  have pos': "(length (concat (take i Rs)) + Suc k) mod length (concat Rs) = Suc n mod length (concat Rs)"
    using pos by (metis add_Suc_right mod_Suc_eq)
  have "reader_at fs Rs (Suc n) (p\<lparr>fp := Some ?st'\<rparr>)"
    unfolding reader_at_def using assms(1-4) i k after pos' by (auto intro!: exI [of _ "Suc k"])
  moreover have "fst (fread (unat (incl_len h)) ?st) = d" using step(3) by (simp add: src_simps)
  ultimately have "at_payload fs Rs n p h (p\<lparr>fp := Some ?st\<rparr>)"
    unfolding at_payload_def using this_rec step(4) by auto
  with step(1) show ?thesis by blast
qed


text \<open>The place of the reader made explicit: record \<open>k\<close> of file \<open>i\<close>.\<close>

definition reader_in :: "fs \<Rightarrow> packet list list \<Rightarrow> nat \<Rightarrow> pcap_info \<Rightarrow> nat \<Rightarrow> nat \<Rightarrow> stream \<Rightarrow> bool" where
  "reader_in fs Rs n p i k st \<longleftrightarrow>
     captures fs (source_files p) Rs \<and> length Rs < 2 ^ 32
     \<and> source_file_count p = of_nat (length Rs) \<and> source_files p \<noteq> []
     \<and> unat (source_file_index p) = i \<and> i < length Rs \<and> fp p = Some st \<and> k \<le> length (Rs ! i)
     \<and> pcap_records (source_convert p) (unread st) = Some (drop k (Rs ! i))
     \<and> (length (concat (take i Rs)) + k) mod length (concat Rs) = n mod length (concat Rs)"

lemma reader_at_in: "reader_at fs Rs n p \<longleftrightarrow> (\<exists>i k st. reader_in fs Rs n p i k st)"
  unfolding reader_at_def reader_in_def by blast

lemma reader_in_here:
  "reader_in fs Rs n p i k st \<Longrightarrow> k < length (Rs ! i) \<Longrightarrow>
   \<exists>h p'. pcap_read_record_loop fs p = Some (Inr (Some h, p')) \<and> at_payload fs Rs n p h p'"
  unfolding reader_in_def by (elim conjE) (rule read_here)

lemma reader_in_end:
  assumes "reader_in fs Rs n p i (length (Rs ! i)) st"
  shows "\<exists>p' st'. pcap_read_record_loop fs p = pcap_read_record_loop fs p' \<and> moved p p'
           \<and> reader_in fs Rs n p' ((i + 1) mod length Rs) 0 st'"
proof -
  from assms have p: "captures fs (source_files p) Rs" "length Rs < 2 ^ 32"
    "source_file_count p = of_nat (length Rs)" "source_files p \<noteq> []" "fp p = Some st"
    and i: "unat (source_file_index p) = i" "i < length Rs"
    and "pcap_records (source_convert p) (unread st) = Some []"
    and n: "(length (concat (take i Rs)) + length (Rs ! i)) mod length (concat Rs) = n mod length (concat Rs)"
    unfolding reader_in_def by simp_all
  then have eof: "unread st = []" by (simp only: pcap_records_empty_iff)
  have next_idx: "unat (next_source p) = (i + 1) mod length Rs"
    using p i by (simp add: unat_next_source)
  have next_less: "(i + 1) mod length Rs < length Rs" using i(2) by (intro mod_less_divisor) linarith
  let ?q = "p\<lparr>fp := Some (clearerr (snd (fread 16 st)))\<rparr>"
  obtain st' c where opened: "pcap_open_source_index fs ?q (next_source p)
      = Inr (0, ?q\<lparr>fp := Some st', source_file_index := next_source p, source_convert := c\<rparr>)"
    and recs: "pcap_records c (unread st') = Some (Rs ! ((i + 1) mod length Rs))"
    using pcap_open_source_index_ok [of fs ?q Rs "next_source p"] p next_idx next_less by auto
  let ?p' = "?q\<lparr>fp := Some st', source_file_index := next_source p, source_convert := c\<rparr>"
  have "reader_in fs Rs n ?p' ((i + 1) mod length Rs) 0 st'"
    using p next_idx next_less recs n start_of_next_mod [OF i(2)] by (simp add: reader_in_def)
  moreover have "moved p ?p'" by simp
  ultimately show ?thesis using read_loop_eof [OF p(5) eof opened] by blast
qed

lemma at_payload_moved: "moved p q \<Longrightarrow> at_payload fs Rs n q h p' \<Longrightarrow> at_payload fs Rs n p h p'"
  unfolding at_payload_def by (blast intro: moved_trans)

text \<open>Skipping the files that have no more records; \<open>d\<close> is the distance to one that has some.\<close>

lemma read_from:
  "reader_in fs Rs n p i k st \<Longrightarrow> Rs ! ((i + 1 + d) mod length Rs) \<noteq> [] \<Longrightarrow>
   \<exists>h p'. pcap_read_record_loop fs p = Some (Inr (Some h, p')) \<and> at_payload fs Rs n p h p'"
proof (induction d arbitrary: p i k st)
  case (0 p i k st)
  show ?case
  proof (cases "k < length (Rs ! i)")
    case True
    with 0(1) show ?thesis by (rule reader_in_here)
  next
    case False
    with 0(1) have "reader_in fs Rs n p i (length (Rs ! i)) st" by (auto simp: reader_in_def)
    from reader_in_end [OF this] obtain q st' where
      q: "pcap_read_record_loop fs p = pcap_read_record_loop fs q" "moved p q"
        "reader_in fs Rs n q ((i + 1) mod length Rs) 0 st'" by blast
    with 0(2) reader_in_here [OF q(3)] show ?thesis by (auto intro: at_payload_moved)
  qed
next
  case (Suc d p i k st)
  show ?case
  proof (cases "k < length (Rs ! i)")
    case True
    with Suc.prems(1) show ?thesis by (rule reader_in_here)
  next
    case False
    with Suc.prems(1) have "reader_in fs Rs n p i (length (Rs ! i)) st" by (auto simp: reader_in_def)
    from reader_in_end [OF this] obtain q st' where
      q: "pcap_read_record_loop fs p = pcap_read_record_loop fs q" "moved p q"
        "reader_in fs Rs n q ((i + 1) mod length Rs) 0 st'" by blast
    have "((i + 1) mod length Rs + 1 + d) mod length Rs = (i + 1 + Suc d) mod length Rs"
      by (metis add.assoc mod_add_left_eq plus_1_eq_Suc)
    with Suc.prems(2) have "Rs ! (((i + 1) mod length Rs + 1 + d) mod length Rs) \<noteq> []" by simp
    from Suc.IH [OF q(3) this] q(1,2) show ?thesis by (auto intro: at_payload_moved)
  qed
qed

text \<open>
  The reader returns, whatever the place, and what it returns is the record it stands before.
  Files without a record are passed over.
\<close>

lemma read_header_next:
  assumes "reader_at fs Rs n p" and "concat Rs \<noteq> []"
  shows "\<exists>h p'. pcap_read_record_header fs p = Some (Inr (Some h, p')) \<and> at_payload fs Rs n p h p'"
proof -
  from assms(1) obtain i k st where at: "reader_in fs Rs n p i k st" by (auto simp: reader_at_in)
  then have "0 < length Rs" and i: "i < length Rs" by (auto simp: reader_in_def)
  from assms(2) obtain j where j: "j < length Rs" "Rs ! j \<noteq> []"
    by (auto simp: in_set_conv_nth)
  have "i + 1 + (j + length Rs - i - 1) = j + length Rs" using i by linarith
  then have "(i + 1 + (j + length Rs - i - 1)) mod length Rs = j"
    using j(1) by (simp only: mod_add_self2 mod_less)
  with j(2) have "Rs ! ((i + 1 + (j + length Rs - i - 1)) mod length Rs) \<noteq> []" by simp
  from read_from [OF at this] have "\<exists>h p'. pcap_read_record_loop fs p = Some (Inr (Some h, p'))
      \<and> at_payload fs Rs n p h p'" .
  moreover have "\<not> (fp p = None \<or> source_file_count p = 0)"
  proof -
    from at have count: "source_file_count p = of_nat (length Rs)" "length Rs < 2 ^ 32" "fp p = Some st"
      by (simp_all add: reader_in_def)
    then have "unat (source_file_count p) = length Rs" by (simp add: unat_of_nat_small)
    with i count(3) show ?thesis by auto
  qed
  ultimately show ?thesis by (simp add: pcap_read_record_header_def)
qed

end
