(* ===== verification/Mbuf.thy ===== *)
theory Mbuf
  imports Prelude
begin

text \<open>
  The packet buffer of DPDK, with the fields of \<open>struct rte_mbuf\<close> that the replay reads and
  writes. \<open>m_data\<close> is the memory from \<open>rte_pktmbuf_mtod\<close> to the end of the buffer, so its
  length is the room for packet data. Pools are named by numbers.
\<close>

record mbuf =
  m_data :: "u8 list"
  m_pool :: "nat option"
  m_next :: "nat option"
  m_data_len :: u16
  m_pkt_len :: u32
  m_port :: u16
  m_ol_flags :: u64

text \<open>Writing \<open>bs\<close> at the start of the data; no value when it would leave the buffer.\<close>

definition mtod_write :: "u8 list \<Rightarrow> 'a mbuf_scheme \<Rightarrow> 'a mbuf_scheme option" where
  "mtod_write bs m =
     (if length bs \<le> length (m_data m) then Some (m\<lparr>m_data := bs @ drop (length bs) (m_data m)\<rparr>)
      else None)"

text \<open>Reading \<open>n\<close> bytes from the start of the data; no value when it would leave the buffer.\<close>

definition mtod_read :: "nat \<Rightarrow> 'a mbuf_scheme \<Rightarrow> u8 list option" where
  "mtod_read n m = (if n \<le> length (m_data m) then Some (take n (m_data m)) else None)"

abbreviation pkt_data :: "'a mbuf_scheme \<Rightarrow> u8 list" where
  "pkt_data m \<equiv> take (unat (m_pkt_len m)) (m_data m)"

lemma mtod_write_Some:
  "mtod_write bs m = Some m' \<Longrightarrow>
     length (m_data m') = length (m_data m) \<and> take (length bs) (m_data m') = bs"
  by (auto simp: mtod_write_def split: if_splits)

end
