(* ===== verification/PcapWriter.thy ===== *)
theory PcapWriter
  imports PcapReader Mbuf
begin

text \<open>
  The writer of capture files at the end of \<open>app/pktgen-pcap.c\<close>. An open output file is the
  list of the bytes written to it; a file that is not open is \<open>None\<close>. Writes are complete.
\<close>

definition pktgen_create_pcap_file :: "bool \<Rightarrow> u8 list option" where
  "pktgen_create_pcap_file can_open =
     (let file_header = \<lparr>magic_number = 0xa1b2c3d4, version_major = 2, version_minor = 4,
            thiszone = 0, sigfigs = 0, snaplen = 65535, network = 1\<rparr>
      in if \<not> can_open then None else Some (bytes_of_hdr file_header))"

definition pktgen_close_pcap_file :: "u8 list option \<Rightarrow> u8 list option" where
  "pktgen_close_pcap_file file = None"

text \<open>No value for a packet length that reaches past the buffer.\<close>

definition pktgen_write_mbuf_to_pcap_file ::
  "u8 list option \<Rightarrow> mbuf \<Rightarrow> (int \<times> u8 list option) option" where
  "pktgen_write_mbuf_to_pcap_file file m =
     (case file of
        None \<Rightarrow> Some (0, None)
      | Some bs \<Rightarrow>
          let packet_header = \<lparr>ts_sec = 0, ts_usec = 0, incl_len = m_pkt_len m, orig_len = m_pkt_len m\<rparr>;
              bs1 = bs @ bytes_of_rec packet_header
          in case mtod_read (unat (m_pkt_len m)) m of
               None \<Rightarrow> None
             | Some data \<Rightarrow> Some (0, Some (bs1 @ data)))"

fun write_mbufs :: "u8 list option \<Rightarrow> mbuf list \<Rightarrow> u8 list option option" where
  "write_mbufs file [] = Some file"
| "write_mbufs file (m # ms) =
     (case pktgen_write_mbuf_to_pcap_file file m of
        None \<Rightarrow> None | Some (_, file') \<Rightarrow> write_mbufs file' ms)"

subsection \<open>What is written is read back\<close>

definition written_packet :: "mbuf \<Rightarrow> packet" where
  "written_packet m =
     (\<lparr>ts_sec = 0, ts_usec = 0, incl_len = m_pkt_len m, orig_len = m_pkt_len m\<rparr>, pkt_data m)"

definition bytes_of_packet :: "packet \<Rightarrow> u8 list" where
  "bytes_of_packet r = bytes_of_rec (fst r) @ snd r"

definition whole :: "mbuf \<Rightarrow> bool" where
  "whole m \<longleftrightarrow> unat (m_pkt_len m) \<le> length (m_data m)"

lemma rec_at_bytes [simp]: "rec_at 0 (bytes_of_rec h @ bs) = h"
  by (simp add: rec_at_def bytes_simps pcap_convert_record_header_def)

lemma pcap_records_front:
  assumes "length d = unat (incl_len h)" and "pcap_records 0 rest = Some rs"
  shows "pcap_records 0 (bytes_of_rec h @ d @ rest) = Some ((h, d) # rs)"
proof -
  have "bytes_of_rec h \<noteq> []" using length_bytes_of_rec [of h] by auto
  with assms show ?thesis by (simp add: pcap_records_Cons_iff bytes_simps)
qed

lemma pcap_records_bytes:
  "\<forall>r \<in> set rs. length (snd r) = unat (incl_len (fst r)) \<Longrightarrow>
   pcap_records 0 (concat (map bytes_of_packet rs)) = Some rs"
  by (induction rs) (auto simp: bytes_of_packet_def pcap_records_front)

lemma write_mbufs_bytes:
  "list_all whole ms \<Longrightarrow>
   write_mbufs (Some bs) ms = Some (Some (bs @ concat (map (bytes_of_packet \<circ> written_packet) ms)))"
  by (induction ms arbitrary: bs)
    (auto simp: pktgen_write_mbuf_to_pcap_file_def mtod_read_def whole_def Let_def
      bytes_of_packet_def written_packet_def)

lemma create_pcap_file_header:
  "pktgen_create_pcap_file True = Some hdr \<Longrightarrow>
   length hdr = 24 \<and> pcap_decode_header (hdr_of_bytes (hdr @ bs)) 0 = (0, hdr_of_bytes hdr, 0)"
  by (auto simp: pktgen_create_pcap_file_def Let_def bytes_simps pcap_decode_header_def pcap_magics)

lemma pcap_file_records_bytes:
  assumes "fs path = Some (Reg (hdr @ concat (map bytes_of_packet rs)))"
    and "pktgen_create_pcap_file True = Some hdr"
    and "\<forall>r \<in> set rs. length (snd r) = unat (incl_len (fst r))"
  shows "pcap_file_records fs path = Some rs"
proof -
  have hdr: "length hdr = 24" "pcap_decode_header (hdr_of_bytes hdr) 0 = (0, hdr_of_bytes hdr, 0)"
    using create_pcap_file_header [OF assms(2), of "[]"] by simp_all
  then show ?thesis
    using pcap_records_bytes [OF assms(3)]
    by (simp add: pcap_file_records_def fopen_def assms(1) stream_of_def pcap_read_header_def fread_eq)
qed

text \<open>
  C16 Capture round trip: any number of packets that are written to a new capture file are, when
  that file is replayed, the records of the source, with their data and their lengths, in the
  order they were written.
\<close>

theorem capture_roundtrip:
  assumes "pktgen_create_pcap_file True = Some hdr" and "list_all whole ms"
  shows "\<exists>bs. write_mbufs (Some hdr) ms = Some (Some bs)
           \<and> pcap_file_records (\<lambda>f. if f = path then Some (Reg bs) else None) path
               = Some (map written_packet ms)"
proof (intro exI conjI)
  show "write_mbufs (Some hdr) ms
      = Some (Some (hdr @ concat (map bytes_of_packet (map written_packet ms))))"
    using assms(2) by (simp add: write_mbufs_bytes)
  have "\<forall>r \<in> set (map written_packet ms). length (snd r) = unat (incl_len (fst r))"
    using assms(2) by (auto simp: written_packet_def whole_def list_all_iff)
  then show "pcap_file_records (\<lambda>f. if f = path
        then Some (Reg (hdr @ concat (map bytes_of_packet (map written_packet ms)))) else None) path
      = Some (map written_packet ms)"
    by (intro pcap_file_records_bytes [OF _ assms(1)]) simp_all
qed

definition small_mbuf :: "u8 list \<Rightarrow> mbuf" where
  "small_mbuf bs = \<lparr>m_data = bs @ replicate 64 0, m_pool = None, m_next = None,
     m_data_len = of_nat (length bs), m_pkt_len = of_nat (length bs), m_port = 0, m_ol_flags = 0\<rparr>"

theorem capture_roundtrip_witness:
  "\<exists>bs. write_mbufs (pktgen_create_pcap_file True) [small_mbuf [1, 2, 3], small_mbuf [4]]
          = Some (Some bs)
      \<and> pcap_file_records (\<lambda>f. if f = ''a.pcap'' then Some (Reg bs) else None) ''a.pcap''
          = Some (map written_packet [small_mbuf [1, 2, 3], small_mbuf [4]])"
proof -
  obtain hdr where hdr: "pktgen_create_pcap_file True = Some hdr"
    by (simp add: pktgen_create_pcap_file_def Let_def)
  have "list_all whole [small_mbuf [1, 2, 3], small_mbuf [4]]"
    by (simp add: whole_def small_mbuf_def)
  from capture_roundtrip [OF hdr this, of "''a.pcap''"] show ?thesis by (simp only: hdr)
qed

end
