(* ===== verification/PcapScan.thy ===== *)
theory PcapScan
  imports PcapWriter "HOL-Library.Multiset"
begin

text \<open>
  Properties of the source side: which files a directory stands for, and what the scan of the
  captures computes.
\<close>

subsection \<open>The directory\<close>

lemma strcmp_eq_0 [simp]: "strcmp xs ys = 0 \<longleftrightarrow> xs = ys"
  by (induction xs ys rule: strcmp.induct) auto

lemma strcmp_antisym: "strcmp ys xs = - strcmp xs ys"
  by (induction xs ys rule: strcmp.induct) auto

lemma strcmp_trans: "strcmp xs ys \<le> 0 \<Longrightarrow> strcmp ys zs \<le> 0 \<Longrightarrow> strcmp xs zs \<le> 0"
proof (induction xs ys arbitrary: zs rule: strcmp.induct)
  case 1
  then show ?case by simp
next
  case (2 y ys)
  show ?case by (cases zs) auto
next
  case (3 x xs)
  then show ?case by simp
next
  case (4 x xs y ys)
  then show ?case by (cases zs) (auto split: if_splits)
qed

lemma mset_qsort [simp]: "mset (qsort cmp xs) = mset xs"
proof -
  have "mset (insert_by cmp x ys) = add_mset x (mset ys)" for x ys
    by (induction ys) auto
  then show ?thesis by (induction xs) (auto simp: qsort_def)
qed

lemma sorted_qsort: "sorted_wrt (\<lambda>a b. strcmp a b \<le> 0) (qsort strcmp xs)"
proof -
  have ins: "sorted_wrt (\<lambda>a b. strcmp a b \<le> 0) ys \<Longrightarrow>
      sorted_wrt (\<lambda>a b. strcmp a b \<le> 0) (insert_by strcmp x ys)
      \<and> set (insert_by strcmp x ys) = insert x (set ys)" for x ys
  proof (induction ys)
    case Nil
    then show ?case by simp
  next
    case (Cons y ys)
    have "strcmp x y \<le> 0 \<or> strcmp y x \<le> 0" using strcmp_antisym [of x y] by linarith
    with Cons show ?case by (auto intro: strcmp_trans)
  qed
  show ?thesis by (induction xs) (auto simp: qsort_def ins)
qed

definition dots :: "string \<Rightarrow> bool" where
  "dots d \<longleftrightarrow> d = ''.'' \<or> d = ''..''"

text \<open>
  What an entry has to be, stated without the functions of the program: some name followed by \<open>.pcap\<close>, and a regular file
  in the directory, whose path gets a slash between the two parts unless the first ends in one.
\<close>

definition entry_path :: "string \<Rightarrow> string \<Rightarrow> string" where
  "entry_path dirpath d = dirpath @ (if dirpath \<noteq> [] \<and> last dirpath = CHR ''/'' then [] else ''/'') @ d"

definition accepted :: "fs \<Rightarrow> string \<Rightarrow> string \<Rightarrow> bool" where
  "accepted fs dirpath d \<longleftrightarrow> (\<exists>stem. d = stem @ ''.pcap'') \<and> (\<exists>bs. fs (entry_path dirpath d) = Some (Reg bs))"

lemma suffix_iff: "pcap_has_pcap_suffix (Some d) \<longleftrightarrow> (\<exists>stem. d = stem @ ''.pcap'')"
proof
  assume "pcap_has_pcap_suffix (Some d)"
  then have "drop (length d - 5) d = ''.pcap''" by (simp add: pcap_has_pcap_suffix_def split: if_splits)
  then show "\<exists>stem. d = stem @ ''.pcap''" by (metis append_take_drop_id)
qed (auto simp: pcap_has_pcap_suffix_def)

lemma join_path_eq: "pcap_join_path (Some dirpath) (Some d) = Some (entry_path dirpath d)"
  by (cases "dirpath = []") (simp_all add: pcap_join_path_def entry_path_def last_conv_nth)

lemma accepted_iff: "accepted fs dirpath d \<longleftrightarrow> pcap_has_pcap_suffix (Some d)
    \<and> (\<exists>path bs. pcap_join_path (Some dirpath) (Some d) = Some path \<and> fs path = Some (Reg bs))"
  by (simp add: accepted_def suffix_iff join_path_eq)

lemma scan_directory_Inr:
  "pcap_scan_directory fs dirpath ds acc = Inr es \<longleftrightarrow>
     es = acc @ filter (Not \<circ> dots) ds \<and> (\<forall>d \<in> set ds. dots d \<or> accepted fs dirpath d)"
proof (induction ds arbitrary: acc)
  case Nil
  show ?case by auto
next
  case (Cons d ds)
  show ?case
  proof (cases "dots d")
    case True
    then have "pcap_scan_directory fs dirpath (d # ds) acc = pcap_scan_directory fs dirpath ds acc"
      by (auto simp: dots_def)
    with Cons True show ?thesis by simp
  next
    case False
    obtain path where path: "pcap_join_path (Some dirpath) (Some d) = Some path"
      by (auto simp: pcap_join_path_def)
    show ?thesis
    proof (cases "accepted fs dirpath d")
      case True
      then have "pcap_scan_directory fs dirpath (d # ds) acc
          = pcap_scan_directory fs dirpath ds (acc @ [d])"
        using False path by (auto simp: dots_def accepted_iff)
      with Cons True False show ?thesis by simp
    next
      case not_acc: False
      then have "\<exists>e. pcap_scan_directory fs dirpath (d # ds) acc = Inl e"
        using False path by (auto simp: dots_def accepted_iff split: option.splits inode.splits)
      with not_acc False show ?thesis by auto
    qed
  qed
qed

lemma collect_directory_Inr:
  "pcap_collect_directory_entries fs dirpath = Inr es \<longleftrightarrow>
     (\<exists>names. fs dirpath = Some (Dir names) \<and> filter (Not \<circ> dots) names \<noteq> []
        \<and> es = qsort strcmp (filter (Not \<circ> dots) names)
        \<and> (\<forall>d \<in> set names. dots d \<or> accepted fs dirpath d))"
proof (cases "\<exists>names. fs dirpath = Some (Dir names)")
  case True
  then obtain names where names: "fs dirpath = Some (Dir names)" by blast
  have cmp: "pcap_dir_entry_cmp = strcmp" by (intro ext) (simp add: pcap_dir_entry_cmp_def)
  note scan = scan_directory_Inr [of fs dirpath names "[]"]
  show ?thesis
  proof (cases "pcap_scan_directory fs dirpath names []")
    case (Inl e)
    with scan [of "filter (Not \<circ> dots) names"] names show ?thesis
      by (simp add: pcap_collect_directory_entries_def)
  next
    case (Inr entries)
    with scan [of entries] names cmp show ?thesis
      by (auto simp: pcap_collect_directory_entries_def)
  qed
next
  case False
  then show ?thesis
    by (auto simp: pcap_collect_directory_entries_def split: option.splits inode.splits)
qed

text \<open>
  C7 Directory source: the list of a directory is accepted exactly when the directory can be
  read, holds at least one entry besides the two dot entries, and each of them is a regular file
  whose name ends in \<open>.pcap\<close> (\<open>accepted\<close>, which does not use the test of the program). The result then has
  exactly these entries, in the order of \<open>strcmp\<close>.
\<close>

theorem collect_directory_correct:
  "((\<exists>es. pcap_collect_directory_entries fs dirpath = Inr es) \<longleftrightarrow>
     (\<exists>names. fs dirpath = Some (Dir names) \<and> filter (Not \<circ> dots) names \<noteq> []
        \<and> (\<forall>d \<in> set names. dots d \<or> accepted fs dirpath d)))
   \<and> (\<forall>es. pcap_collect_directory_entries fs dirpath = Inr es \<longrightarrow>
        (\<exists>names. fs dirpath = Some (Dir names) \<and> mset es = mset (filter (Not \<circ> dots) names)
           \<and> sorted_wrt (\<lambda>a b. strcmp a b \<le> 0) es))"
  unfolding collect_directory_Inr by (auto intro: sorted_qsort)

definition two_captures :: fs where
  "two_captures f =
     (if f = ''d'' then Some (Dir [''.'', ''b.pcap'', ''..'', ''a.pcap''])
      else if f = ''d/a.pcap'' \<or> f = ''d/b.pcap'' then Some (Reg []) else None)"

theorem collect_directory_correct_witness:
  "pcap_collect_directory_entries two_captures ''d'' = Inr [''a.pcap'', ''b.pcap'']
   \<and> (\<exists>names. two_captures ''d'' = Some (Dir names)
        \<and> mset [''a.pcap'', ''b.pcap''] = mset (filter (Not \<circ> dots) names)
        \<and> sorted_wrt (\<lambda>a b. strcmp a b \<le> 0) [''a.pcap'', ''b.pcap''])"
proof -
  have "pcap_collect_directory_entries two_captures ''d'' = Inr [''a.pcap'', ''b.pcap'']"
    by (simp add: pcap_collect_directory_entries_def two_captures_def pcap_join_path_def
        pcap_has_pcap_suffix_def qsort_def pcap_dir_entry_cmp_def)
  with collect_directory_correct [of two_captures "''d''"] show ?thesis by blast
qed

subsection \<open>The numbers\<close>

lemma max_len_upper: "m \<le> max_len m rs \<and> (\<forall>r \<in> set rs. incl_len (fst r) \<le> max_len m rs)"
proof (induction rs arbitrary: m)
  case Nil
  show ?case by (simp add: max_len_def)
next
  case (Cons r rs)
  let ?m = "if incl_len (fst r) > m then incl_len (fst r) else m"
  have "max_len m (r # rs) = max_len ?m rs" by (simp add: max_len_def)
  with Cons [of ?m] show ?case by (auto intro: order_trans split: if_splits)
qed

lemma max_len_attained: "max_len m rs = m \<or> (\<exists>r \<in> set rs. incl_len (fst r) = max_len m rs)"
proof (induction rs arbitrary: m)
  case Nil
  show ?case by (simp add: max_len_def)
next
  case (Cons r rs)
  let ?m = "if incl_len (fst r) > m then incl_len (fst r) else m"
  have "max_len m (r # rs) = max_len ?m rs" by (simp add: max_len_def)
  with Cons [of ?m] show ?case by (auto split: if_splits)
qed

lemma max_len_0_attained:
  "rs \<noteq> [] \<Longrightarrow> \<exists>r \<in> set rs. incl_len (fst r) = max_len 0 rs"
  using max_len_attained [of 0 rs] max_len_upper [of 0 rs] by (cases rs) auto

abbreviation total_len :: "packet list \<Rightarrow> nat" where
  "total_len rs \<equiv> sum_list (map (\<lambda>r. unat (incl_len (fst r))) rs)"

lemma total_len_bound: "total_len rs \<le> length rs * (2 ^ 32 - 1)"
proof (induction rs)
  case (Cons r rs)
  have "unat (incl_len (fst r)) < 2 ^ 32" by (rule unat_less_2p32)
  with Cons show ?case by simp
qed simp

lemma unat_sum_len:
  "length rs < 2 ^ 32 \<Longrightarrow> unat (sum_len rs) = total_len rs"
proof (induction rs)
  case Nil
  show ?case by (simp add: sum_len_def)
next
  case (Cons r rs)
  have "total_len (r # rs) \<le> length (r # rs) * (2 ^ 32 - 1)" by (rule total_len_bound)
  also have "\<dots> \<le> 2 ^ 32 * (2 ^ 32 - 1)"
    using Cons.prems by (intro mult_le_mono1) simp
  finally have bound: "unat (incl_len (fst r)) + total_len rs < 2 ^ 64" by simp
  have IH: "unat (sum_len rs) = total_len rs" using Cons by simp
  have len: "unat (ucast (incl_len (fst r)) :: u64) = unat (incl_len (fst r))"
    by (rule unat_ucast_32_64)
  have "unat ((ucast (incl_len (fst r)) :: u64) + sum_len rs)
      = unat (incl_len (fst r)) + total_len rs"
    using unat_add_no_wrap [of "ucast (incl_len (fst r)) :: u64" "sum_len rs"] bound IH len by simp
  then show ?case by (simp add: sum_len_def)
qed


lemma avg_len:
  assumes "rs \<noteq> []" and "length rs < 2 ^ 32"
  shows "unat (ucast (sum_len rs div ucast (of_nat (length rs) :: u32)) :: u32)
    = total_len rs div length rs"
proof -
  have n: "unat (of_nat (length rs) :: u32) = length rs"
    using assms(2) by (simp add: unat_of_nat_small)
  have "total_len rs div length rs \<le> (length rs * (2 ^ 32 - 1)) div length rs"
    by (rule div_le_mono) (rule total_len_bound)
  also have "\<dots> < 2 ^ 32" using assms(1) by simp
  finally have "total_len rs div length rs < 2 ^ 32" .
  then show ?thesis
    using unat_ucast_64_32 [of "sum_len rs div ucast (of_nat (length rs) :: u32)"]
    by (simp add: unat_div unat_sum_len [OF assms(2)] n)
qed

lemma get_info:
  assumes "captures fs (source_files p) Rs" and "concat Rs \<noteq> []"
    and "source_file_count p = of_nat (length Rs)" and "length Rs < 2 ^ 32"
    and "length (concat Rs) < 2 ^ 32"
  obtains i c a st conv where "pcap_get_info fs p = Inr (p\<lparr>info := i, convert := c,
      pkt_count := of_nat (length (concat Rs)), max_pkt_size := max_len 0 (concat Rs),
      avg_pkt_size := a, fp := Some st, source_file_index := 0, source_convert := conv\<rparr>)"
    and "unat a = total_len (concat Rs) div length (concat Rs)"
    and "reader_at fs Rs 0 (p\<lparr>info := i, convert := c,
      pkt_count := of_nat (length (concat Rs)), max_pkt_size := max_len 0 (concat Rs),
      avg_pkt_size := a, fp := Some st, source_file_index := 0, source_convert := conv\<rparr>)"
proof -
  let ?rs = "concat Rs"
  let ?p0 = "p\<lparr>pkt_count := 0, max_pkt_size := 0, avg_pkt_size := 0\<rparr>"
  have count: "unat (source_file_count p) = length (source_files p)"
    using assms(3,4) captures_length [OF assms(1)] by (simp add: unat_of_nat_small)
  from scan_files [OF assms(1), of False ?p0 0] obtain i c where
    scan: "pcap_scan_files fs (source_files p) False ?p0 0 =
      Inr (?p0\<lparr>info := i, convert := c, pkt_count := of_nat (length ?rs),
              max_pkt_size := max_len 0 ?rs\<rparr>, sum_len ?rs)"
    by auto
  have "unat (of_nat (length ?rs) :: u32) = length ?rs"
    using assms(5) by (simp add: unat_of_nat_small)
  then have nonzero: "(of_nat (length ?rs) :: u32) \<noteq> 0" using assms(2) by auto
  let ?a = "ucast (sum_len ?rs div ucast (of_nat (length ?rs) :: u32)) :: u32"
  let ?p2 = "p\<lparr>info := i, convert := c, pkt_count := of_nat (length ?rs),
    max_pkt_size := max_len 0 ?rs, avg_pkt_size := ?a\<rparr>"
  have Rs: "0 < length Rs" using assms(2) by (cases Rs) auto
  have nonzero_files: "source_file_count p \<noteq> 0"
    using count Rs captures_length [OF assms(1)] by auto
  have "captures fs (source_files ?p2) Rs" "source_file_count ?p2 = of_nat (length Rs)"
    using assms(1,3) by simp_all
  from reader_at_open [OF this assms(4), of 0] Rs obtain st conv where
    opened: "pcap_open_source_index fs ?p2 0 =
       Inr (0, ?p2\<lparr>fp := Some st, source_file_index := 0, source_convert := conv\<rparr>)"
      "reader_at fs Rs 0 (?p2\<lparr>fp := Some st, source_file_index := 0, source_convert := conv\<rparr>)"
    by auto
  have "pcap_get_info fs p =
      Inr (?p2\<lparr>fp := Some st, source_file_index := 0, source_convert := conv\<rparr>)"
    using nonzero nonzero_files opened(1)
    by (simp add: pcap_get_info_def count scan pcap_rewind_def)
  with opened(2) avg_len [OF assms(2,5)] show thesis by (intro that) auto
qed

text \<open>
  Scan of the source: when every source file is a complete capture and there is a packet, the
  scan succeeds; it has counted the packets of all the files, found the largest packet and the
  average size, and it leaves the reader before the first packet. Neither the 32-bit count nor
  the 64-bit sum of the sizes wraps while the number of packets stays below \<open>2 ^ 32\<close>.
\<close>

lemma get_info_correct:
  assumes "captures fs (source_files p) Rs" and "concat Rs \<noteq> []"
    and "source_file_count p = of_nat (length Rs)" and "length Rs < 2 ^ 32"
    and "length (concat Rs) < 2 ^ 32"
  shows "\<exists>p'. pcap_get_info fs p = Inr p' \<and> unat (pkt_count p') = length (concat Rs)
    \<and> (\<forall>r \<in> set (concat Rs). incl_len (fst r) \<le> max_pkt_size p')
    \<and> (\<exists>r \<in> set (concat Rs). incl_len (fst r) = max_pkt_size p')
    \<and> unat (avg_pkt_size p') = total_len (concat Rs) div length (concat Rs)
    \<and> reader_at fs Rs 0 p'"
proof -
  from get_info [OF assms] obtain i c a st conv where
    *: "pcap_get_info fs p = Inr (p\<lparr>info := i, convert := c,
      pkt_count := of_nat (length (concat Rs)), max_pkt_size := max_len 0 (concat Rs),
      avg_pkt_size := a, fp := Some st, source_file_index := 0, source_convert := conv\<rparr>)"
    "unat a = total_len (concat Rs) div length (concat Rs)"
    "reader_at fs Rs 0 (p\<lparr>info := i, convert := c,
      pkt_count := of_nat (length (concat Rs)), max_pkt_size := max_len 0 (concat Rs),
      avg_pkt_size := a, fp := Some st, source_file_index := 0, source_convert := conv\<rparr>)" .
  show ?thesis
    using max_len_upper [of 0 "concat Rs"] max_len_0_attained [OF assms(2)] assms(5)
    by (simp add: * unat_of_nat_small)
qed

text \<open>A capture with three packets, as a file system with one file.\<close>

definition sample_packets :: "packet list" where
  "sample_packets = map written_packet [small_mbuf [1, 2, 3], small_mbuf [4], small_mbuf [5, 6]]"

definition sample_fs :: fs where
  "sample_fs f = (if f = ''s.pcap''
     then Some (Reg (the (pktgen_create_pcap_file True) @ concat (map bytes_of_packet sample_packets)))
     else None)"

definition sample_info :: pcap_info where
  "sample_info = \<lparr>filename = ''s.pcap'', fp = None, pcap_mp = None,
     sections = (\<lambda>_. \<lparr>sec_mp = None, sec_pkt_count = 0, sec_pkt_loaded = 0, budget_bytes = 0,
                       chunk_id = 0, file_offset_begin = 0, file_offset_end = 0\<rparr>),
     active_section_idx = 0, convert = 0, max_pkt_size = 0, avg_pkt_size = 0, pkt_count = 0,
     pkt_index = 0, next_chunk_id = 1, info = hdr_of_bytes [], reload_request = -1,
     reload_in_progress = -1, section_locked = (\<lambda>_. 0), source_files = [''s.pcap''],
     source_file_count = 1, source_file_index = 0, source_convert = 0\<rparr>"

lemma sample_captures: "captures sample_fs [''s.pcap''] [sample_packets]"
proof -
  obtain hdr where hdr: "pktgen_create_pcap_file True = Some hdr"
    by (simp add: pktgen_create_pcap_file_def Let_def)
  have contents: "sample_fs ''s.pcap'' = Some (Reg (hdr @ concat (map bytes_of_packet sample_packets)))"
    by (simp add: sample_fs_def hdr)
  have "\<forall>r \<in> set sample_packets. length (snd r) = unat (incl_len (fst r))"
    by (simp add: sample_packets_def written_packet_def small_mbuf_def)
  with pcap_file_records_bytes [where fs = sample_fs and path = "''s.pcap''", OF contents hdr] show ?thesis by simp
qed

lemma sample_nonempty: "concat [sample_packets] \<noteq> []" "length (concat [sample_packets]) = 3"
  by (simp_all add: sample_packets_def)

lemma get_info_correct_example:
  "\<exists>p'. pcap_get_info sample_fs sample_info = Inr p' \<and> unat (pkt_count p') = 3
     \<and> reader_at sample_fs [sample_packets] 0 p'"
proof -
  have "captures sample_fs (source_files sample_info) [sample_packets]"
    using sample_captures by (simp add: sample_info_def)
  then show ?thesis
    using get_info_correct [of sample_fs sample_info "[sample_packets]"] sample_nonempty
    by (auto simp: sample_info_def)
qed

end
