(* ===== verification/PcapLoad.thy ===== *)
theory PcapLoad
  imports PcapScan
begin

text \<open>
  Filling a section with packets (\<open>mbuf_iterate_cb\<close> and \<open>pcap_load_section\<close> of
  \<open>app/pktgen-pcap.c\<close>). The pools are a map from pool numbers to their buffers, in the order
  in which \<open>rte_mempool_obj_iter\<close> of DPDK visits them.
\<close>

type_synonym pools = "nat \<Rightarrow> mbuf list"

subsection \<open>Sections\<close>

definition pcap_section_reset :: "pcap_section \<Rightarrow> pcap_section" where
  "pcap_section_reset section = section\<lparr>sec_pkt_loaded := 0\<rparr>"

definition pcap_section_from_mp :: "pcap_info \<Rightarrow> nat option \<Rightarrow> nat option" where
  "pcap_section_from_mp p mp =
     (if mp = None then None
      else if mp = sec_mp (sections p 0) then Some 0
      else if mp = sec_mp (sections p 1) then Some 1
      else None)"

definition upd_section :: "nat \<Rightarrow> (pcap_section \<Rightarrow> pcap_section) \<Rightarrow> pcap_info \<Rightarrow> pcap_info" where
  "upd_section i f p = p\<lparr>sections := (sections p)(i := f (sections p i))\<rparr>"

subsection \<open>One buffer\<close>

text \<open>
  The call-back of the iteration. It gets the capture and one buffer and returns both changed.
\<close>

definition mbuf_iterate_cb ::
  "fs \<Rightarrow> nat \<Rightarrow> pcap_info \<Rightarrow> mbuf \<Rightarrow> (exit_reason + pcap_info \<times> mbuf) option" where
  "mbuf_iterate_cb fs mp p m =
     (let section = pcap_section_from_mp p (Some mp) in
      if (case section of None \<Rightarrow> False
          | Some i \<Rightarrow> sec_pkt_loaded (sections p i) \<ge> sec_pkt_count (sections p i))
      then Some (Inr (p, m))
      else case pcap_read_record_header fs p of
        None \<Rightarrow> None
      | Some (Inl e) \<Rightarrow> Some (Inl e)
      | Some (Inr (None, p1)) \<Rightarrow> Some (Inl Exit_packet_header)
      | Some (Inr (Some hdr, p1)) \<Rightarrow>
          (case fp p1 of
             None \<Rightarrow> Some (Inl Fault_null_stream)
           | Some st \<Rightarrow>
               (let (data, st1) = fread (unat (incl_len hdr)) st;
                    p2 = p1\<lparr>fp := Some st1\<rparr>
                in case mtod_write data m of
                     None \<Rightarrow> Some (Inl Fault_buffer_overrun)
                   | Some m1 \<Rightarrow>
                       if length data \<noteq> unat (incl_len hdr)
                       then Some (Inl (Exit_packet_data (source_files p2 ! unat (source_file_index p2))))
                       else
                         let m2 = m1\<lparr>m_pool := Some mp, m_next := None,
                                     m_data_len := ucast (incl_len hdr), m_pkt_len := incl_len hdr,
                                     m_port := 0, m_ol_flags := 0\<rparr>
                         in Some (Inr
                              (case section of
                                 None \<Rightarrow> p2
                               | Some i \<Rightarrow> upd_section i (\<lambda>s. s\<lparr>sec_pkt_loaded := sec_pkt_loaded s + 1\<rparr>) p2,
                               m2)))))"

subsection \<open>All the buffers of a pool\<close>

fun rte_mempool_obj_iter ::
  "('s \<Rightarrow> 'm \<Rightarrow> ('e + 's \<times> 'm) option) \<Rightarrow> 's \<Rightarrow> 'm list \<Rightarrow> ('e + 's \<times> 'm list) option" where
  "rte_mempool_obj_iter cb s [] = Some (Inr (s, []))"
| "rte_mempool_obj_iter cb s (m # ms) =
     (case cb s m of
        None \<Rightarrow> None
      | Some (Inl e) \<Rightarrow> Some (Inl e)
      | Some (Inr (s1, m1)) \<Rightarrow>
          (case rte_mempool_obj_iter cb s1 ms of
             None \<Rightarrow> None
           | Some (Inl e) \<Rightarrow> Some (Inl e)
           | Some (Inr (s2, ms2)) \<Rightarrow> Some (Inr (s2, m1 # ms2))))"

definition pcap_load_section ::
  "fs \<Rightarrow> pcap_info \<Rightarrow> nat \<Rightarrow> pools \<Rightarrow> (exit_reason + pcap_info \<times> pools) option" where
  "pcap_load_section fs p i pools =
     (case sec_mp (sections p i) of
        None \<Rightarrow> Some (Inr (p, pools))
      | Some mp \<Rightarrow>
          (case fp p of
             None \<Rightarrow> Some (Inl Fault_null_stream)
           | Some st \<Rightarrow>
               (let p1 = upd_section i (\<lambda>s. s\<lparr>file_offset_begin := ftell st\<rparr>) p;
                    p2 = upd_section i (\<lambda>s. s\<lparr>chunk_id := next_chunk_id p1\<rparr>) p1;
                    p3 = upd_section i pcap_section_reset (p2\<lparr>next_chunk_id := next_chunk_id p2 + 1\<rparr>)
                in case rte_mempool_obj_iter (mbuf_iterate_cb fs mp) p3 (pools mp) of
                     None \<Rightarrow> None
                   | Some (Inl e) \<Rightarrow> Some (Inl e)
                   | Some (Inr (p4, ms)) \<Rightarrow>
                       (case fp p4 of
                          None \<Rightarrow> Some (Inl Fault_null_stream)
                        | Some st4 \<Rightarrow>
                            Some (Inr (upd_section i (\<lambda>s. s\<lparr>file_offset_end := ftell st4\<rparr>) p4,
                                       pools(mp := ms)))))))"

subsection \<open>The contract of a filling call-back\<close>

text \<open>
  A call-back that takes the values of a cyclic sequence one after the other and stops when its
  client is full. \<open>at n s\<close>: the next value is number \<open>n\<close>; \<open>room s\<close>: how many buffers it still
  takes.
\<close>

locale cyclic_filler =
  fixes cb :: "'s \<Rightarrow> 'm \<Rightarrow> ('e + 's \<times> 'm) option"
    and at :: "nat \<Rightarrow> 's \<Rightarrow> bool"
    and room :: "'s \<Rightarrow> nat"
    and fits :: "'m \<Rightarrow> bool"
    and val :: "'m \<Rightarrow> 'a"
    and vals :: "'a list"
  assumes fill: "at n s \<Longrightarrow> 0 < room s \<Longrightarrow> fits m \<Longrightarrow>
      \<exists>s' m'. cb s m = Some (Inr (s', m')) \<and> at (Suc n) s' \<and> room s' = room s - 1
        \<and> fits m' \<and> val m' = cyc vals n"
    and full: "at n s \<Longrightarrow> room s = 0 \<Longrightarrow> cb s m = Some (Inr (s, m))"
begin

lemma iter_full: "at n s \<Longrightarrow> room s = 0 \<Longrightarrow> rte_mempool_obj_iter cb s ms = Some (Inr (s, ms))"
  by (induction ms) (simp_all add: full)

lemma iter_fill:
  "at n s \<Longrightarrow> list_all fits ms \<Longrightarrow> length ms \<le> room s \<Longrightarrow>
   \<exists>s' ms'. rte_mempool_obj_iter cb s ms = Some (Inr (s', ms'))
     \<and> at (n + length ms) s' \<and> room s' = room s - length ms
     \<and> list_all fits ms' \<and> length ms' = length ms \<and> map val ms' = cyc_take vals n (length ms)"
proof (induction ms arbitrary: n s)
  case Nil
  then show ?case by simp
next
  case (Cons m ms)
  then have "0 < room s" and "fits m" by simp_all
  from fill [OF Cons.prems(1) this] obtain s1 m1 where
    1: "cb s m = Some (Inr (s1, m1))" "at (Suc n) s1" "room s1 = room s - 1" "fits m1"
      "val m1 = cyc vals n" by blast
  have "list_all fits ms" and "length ms \<le> room s1" using Cons.prems 1(3) by simp_all
  from Cons.IH [OF 1(2) this] obtain s2 ms2 where
    "rte_mempool_obj_iter cb s1 ms = Some (Inr (s2, ms2))" "at (Suc n + length ms) s2"
    "room s2 = room s1 - length ms" "list_all fits ms2" "length ms2 = length ms"
    "map val ms2 = cyc_take vals (Suc n) (length ms)" by blast
  with 1 show ?case by (simp add: cyc_take_Suc_front)
qed

end


subsection \<open>The reader of captures fills the buffers of a section\<close>

text \<open>Everything but the place in the source and the number of packets loaded into section \<open>i\<close>.\<close>

definition no_load :: "nat \<Rightarrow> pcap_info \<Rightarrow> pcap_info" where
  "no_load i p = upd_section i (\<lambda>s. s\<lparr>sec_pkt_loaded := 0\<rparr>) (no_place p)"

definition loading :: "fs \<Rightarrow> packet list list \<Rightarrow> nat \<Rightarrow> nat \<Rightarrow> pcap_info \<Rightarrow> nat \<Rightarrow> pcap_info \<Rightarrow> bool" where
  "loading fs Rs mp i p0 n p \<longleftrightarrow>
     reader_at fs Rs n p \<and> concat Rs \<noteq> [] \<and> no_load i p = no_load i p0
     \<and> pcap_section_from_mp p (Some mp) = Some i
     \<and> sec_pkt_loaded (sections p i) \<le> sec_pkt_count (sections p i)"

definition sec_room :: "nat \<Rightarrow> pcap_info \<Rightarrow> nat" where
  "sec_room i p = unat (sec_pkt_count (sections p i)) - unat (sec_pkt_loaded (sections p i))"

definition roomy :: "packet list list \<Rightarrow> mbuf \<Rightarrow> bool" where
  "roomy Rs m \<longleftrightarrow> (\<forall>r \<in> set (concat Rs). unat (incl_len (fst r)) \<le> length (m_data m))"

lemma upd_section_sel [sec_simps]:
  "sections (upd_section i f p) = (sections p)(i := f (sections p i))"
  "fp (upd_section i f p) = fp p"
  "source_files (upd_section i f p) = source_files p"
  "source_file_count (upd_section i f p) = source_file_count p"
  "source_file_index (upd_section i f p) = source_file_index p"
  "source_convert (upd_section i f p) = source_convert p"
  "next_chunk_id (upd_section i f p) = next_chunk_id p"
  "active_section_idx (upd_section i f p) = active_section_idx p"
  "pkt_index (upd_section i f p) = pkt_index p"
  "pcap_mp (upd_section i f p) = pcap_mp p"
  "section_locked (upd_section i f p) = section_locked p"
  "reload_request (upd_section i f p) = reload_request p"
  "reload_in_progress (upd_section i f p) = reload_in_progress p"
  "max_pkt_size (upd_section i f p) = max_pkt_size p"
  "pkt_count (upd_section i f p) = pkt_count p"
  "filename (upd_section i f p) = filename p"
  by (simp_all add: upd_section_def)

lemma reader_at_upd_section [sec_simps]: "reader_at fs Rs n (upd_section i f p) = reader_at fs Rs n p"
  by (simp add: reader_at_def sec_simps)

lemma reader_at_chunk [sec_simps]: "reader_at fs Rs n (p\<lparr>next_chunk_id := c\<rparr>) = reader_at fs Rs n p"
  by (simp add: reader_at_def)

lemma no_load_loaded:
  "no_load i (upd_section i (\<lambda>s. s\<lparr>sec_pkt_loaded := g s\<rparr>) p) = no_load i p"
  by (cases p) (simp add: no_load_def no_place_def upd_section_def)

lemma no_load_moved: "moved p p' \<Longrightarrow> no_load i p' = no_load i p"
  by (simp add: moved_def no_load_def)

lemma section_from_mp_moved:
  "moved p p' \<Longrightarrow> pcap_section_from_mp p' mp = pcap_section_from_mp p mp"
  by (simp add: pcap_section_from_mp_def moved_frame)

lemma section_from_mp_cong:
  "(\<And>j. sec_mp (sections p' j) = sec_mp (sections p j)) \<Longrightarrow>
   pcap_section_from_mp p' mp = pcap_section_from_mp p mp"
  by (simp add: pcap_section_from_mp_def)

lemma section_from_mp_loaded:
  "pcap_section_from_mp (upd_section i (\<lambda>s. s\<lparr>sec_pkt_loaded := g s\<rparr>) p) mp = pcap_section_from_mp p mp"
  by (simp add: pcap_section_from_mp_def sec_simps)

lemma mbuf_cb_full:
  assumes "loading fs Rs mp i p0 n p" and "sec_room i p = 0"
  shows "mbuf_iterate_cb fs mp p m = Some (Inr (p, m))"
proof -
  have "sec_pkt_loaded (sections p i) \<ge> sec_pkt_count (sections p i)"
    using assms(2) by (simp add: sec_room_def word_le_nat_alt)
  with assms(1) show ?thesis by (simp add: mbuf_iterate_cb_def loading_def)
qed

lemma mbuf_cb_fill:
  assumes at: "loading fs Rs mp i p0 n p" and room: "0 < sec_room i p" and "roomy Rs m"
  shows "\<exists>p' m'. mbuf_iterate_cb fs mp p m = Some (Inr (p', m')) \<and> loading fs Rs mp i p0 (Suc n) p'
    \<and> sec_room i p' = sec_room i p - 1 \<and> roomy Rs m'
    \<and> pkt_data m' = cyc (map snd (concat Rs)) n"
proof -
  from at have ne: "concat Rs \<noteq> []" and sec: "pcap_section_from_mp p (Some mp) = Some i"
    and reader: "reader_at fs Rs n p" and same: "no_load i p = no_load i p0"
    by (simp_all add: loading_def)
  have not_full: "\<not> sec_pkt_loaded (sections p i) \<ge> sec_pkt_count (sections p i)"
    using room by (simp add: sec_room_def word_le_nat_alt)
  from read_header_next [OF reader ne] obtain h p1 where
    header: "pcap_read_record_header fs p = Some (Inr (Some h, p1))" "at_payload fs Rs n p h p1"
    by blast
  then obtain st d where st: "fp p1 = Some st" and rec: "cyc (concat Rs) n = (h, d)"
    and len: "length d = unat (incl_len h)" and data: "fst (fread (unat (incl_len h)) st) = d"
    and moved: "moved p p1"
    and after': "reader_at fs Rs (Suc n) (p1\<lparr>fp := Some (snd (fread (unat (incl_len h)) st))\<rparr>)"
    by (auto simp: at_payload_def)
  obtain st1 where fread: "fread (unat (incl_len h)) st = (d, st1)"
    using data by (cases "fread (unat (incl_len h)) st") simp
  let ?p2 = "p1\<lparr>fp := Some st1\<rparr>"
  have after: "reader_at fs Rs (Suc n) ?p2" using after' by (simp add: fread)
  have "(h, d) \<in> set (concat Rs)"
    using rec ne by (metis cyc_def mod_less_divisor length_greater_0_conv nth_mem)
  then have fits: "length d \<le> length (m_data m)" using assms(3) len by (force simp: roomy_def)
  let ?m1 = "m\<lparr>m_data := d @ drop (length d) (m_data m)\<rparr>"
  let ?m2 = "?m1\<lparr>m_pool := Some mp, m_next := None, m_data_len := ucast (incl_len h),
    m_pkt_len := incl_len h, m_port := 0, m_ol_flags := 0\<rparr>"
  let ?p3 = "upd_section i (\<lambda>s. s\<lparr>sec_pkt_loaded := sec_pkt_loaded s + 1\<rparr>) ?p2"
  have "mbuf_iterate_cb fs mp p m = Some (Inr (?p3, ?m2))"
    using sec not_full header(1) st fits len
    by (simp add: mbuf_iterate_cb_def fread mtod_write_def)
  moreover have m2: "moved p ?p2" using moved by simp
  have sec3: "sections ?p3 i = (sections p i)\<lparr>sec_pkt_loaded := sec_pkt_loaded (sections p i) + 1\<rparr>"
    using moved by (simp add: sec_simps moved_frame)
  have loaded: "unat (sec_pkt_loaded (sections p i) + 1) = unat (sec_pkt_loaded (sections p i)) + 1"
    using room unat_inc_no_wrap [of "sec_pkt_loaded (sections p i)"]
      unat_less_2p32 [of "sec_pkt_count (sections p i)"] by (simp add: sec_room_def)
  have "no_load i ?p3 = no_load i p0"
    by (simp only: no_load_loaded no_load_moved [OF m2] same)
  moreover have "pcap_section_from_mp ?p3 (Some mp) = Some i"
    by (simp only: section_from_mp_loaded section_from_mp_moved [OF m2] sec)
  moreover have "sec_pkt_loaded (sections ?p3 i) \<le> sec_pkt_count (sections ?p3 i)"
    using room loaded by (simp add: sec3 word_le_nat_alt sec_room_def)
  ultimately have cb: "mbuf_iterate_cb fs mp p m = Some (Inr (?p3, ?m2))"
    and "loading fs Rs mp i p0 (Suc n) ?p3"
    using ne after by (simp_all only: loading_def reader_at_upd_section simp_thms)
  moreover have "sec_room i ?p3 = sec_room i p - 1"
    using loaded by (simp add: sec_room_def sec3)
  moreover have "roomy Rs ?m2" using assms(3) fits by (simp add: roomy_def)
  moreover have "pkt_data ?m2 = cyc (map snd (concat Rs)) n"
    using len rec ne by (simp add: cyc_def)
  ultimately show ?thesis by blast
qed

text \<open>The call-back of the code meets the contract.\<close>

interpretation loader: cyclic_filler "mbuf_iterate_cb fs mp" "loading fs Rs mp i p0" "sec_room i"
    "roomy Rs" pkt_data "map snd (concat Rs)" for fs mp Rs i p0
  by unfold_locales (rule mbuf_cb_fill, assumption+, rule mbuf_cb_full)


lemma no_load_frame:
  assumes "no_load i p' = no_load i p"
  shows "j \<noteq> i \<Longrightarrow> sections p' j = sections p j"
    "sec_mp (sections p' i) = sec_mp (sections p i)"
    "sec_pkt_count (sections p' i) = sec_pkt_count (sections p i)"
    "chunk_id (sections p' i) = chunk_id (sections p i)"
    "file_offset_begin (sections p' i) = file_offset_begin (sections p i)"
    "budget_bytes (sections p' i) = budget_bytes (sections p i)"
    "source_files p' = source_files p" "source_file_count p' = source_file_count p"
    "pcap_mp p' = pcap_mp p" "next_chunk_id p' = next_chunk_id p"
    "active_section_idx p' = active_section_idx p" "pkt_index p' = pkt_index p"
    "reload_request p' = reload_request p" "reload_in_progress p' = reload_in_progress p"
    "section_locked p' = section_locked p"
    "max_pkt_size p' = max_pkt_size p" "pkt_count p' = pkt_count p" "filename p' = filename p"
proof -
  have sec: "(sections p')(i := (sections p' i)\<lparr>sec_pkt_loaded := 0\<rparr>)
      = (sections p)(i := (sections p i)\<lparr>sec_pkt_loaded := 0\<rparr>)"
    using arg_cong [OF assms, of sections] by (simp add: no_load_def sec_simps no_place_def)
  have eq_i: "(sections p' i)\<lparr>sec_pkt_loaded := 0\<rparr> = (sections p i)\<lparr>sec_pkt_loaded := 0\<rparr>"
    using fun_cong [OF sec, of i] by simp
  show "j \<noteq> i \<Longrightarrow> sections p' j = sections p j" using fun_cong [OF sec, of j] by simp
  show "sec_mp (sections p' i) = sec_mp (sections p i)"
    "sec_pkt_count (sections p' i) = sec_pkt_count (sections p i)"
    "chunk_id (sections p' i) = chunk_id (sections p i)"
    "file_offset_begin (sections p' i) = file_offset_begin (sections p i)"
    "budget_bytes (sections p' i) = budget_bytes (sections p i)"
    using arg_cong [OF eq_i, of sec_mp] arg_cong [OF eq_i, of sec_pkt_count]
      arg_cong [OF eq_i, of chunk_id] arg_cong [OF eq_i, of file_offset_begin]
      arg_cong [OF eq_i, of budget_bytes] by simp_all
  show "source_files p' = source_files p" "source_file_count p' = source_file_count p"
    "pcap_mp p' = pcap_mp p" "next_chunk_id p' = next_chunk_id p"
    "active_section_idx p' = active_section_idx p" "pkt_index p' = pkt_index p"
    "reload_request p' = reload_request p" "reload_in_progress p' = reload_in_progress p"
    "section_locked p' = section_locked p"
    "max_pkt_size p' = max_pkt_size p" "pkt_count p' = pkt_count p" "filename p' = filename p"
    using arg_cong [OF assms, of source_files] arg_cong [OF assms, of source_file_count]
      arg_cong [OF assms, of pcap_mp] arg_cong [OF assms, of next_chunk_id]
      arg_cong [OF assms, of active_section_idx] arg_cong [OF assms, of pkt_index]
      arg_cong [OF assms, of reload_request] arg_cong [OF assms, of reload_in_progress]
      arg_cong [OF assms, of section_locked] arg_cong [OF assms, of max_pkt_size]
      arg_cong [OF assms, of pkt_count] arg_cong [OF assms, of filename]
    by (simp_all add: no_load_def sec_simps no_place_def)
qed

text \<open>The part of the state that the sending side owns.\<close>

definition same_control :: "pcap_info \<Rightarrow> pcap_info \<Rightarrow> bool" where
  "same_control p p' \<longleftrightarrow> active_section_idx p' = active_section_idx p \<and> pkt_index p' = pkt_index p
     \<and> reload_request p' = reload_request p \<and> reload_in_progress p' = reload_in_progress p
     \<and> section_locked p' = section_locked p \<and> pcap_mp p' = pcap_mp p
     \<and> max_pkt_size p' = max_pkt_size p \<and> pkt_count p' = pkt_count p \<and> filename p' = filename p"

text \<open>The pool of section \<open>i\<close> has as many buffers as the section has packets, all large enough.\<close>

definition section_ok :: "packet list list \<Rightarrow> pcap_info \<Rightarrow> pools \<Rightarrow> nat \<Rightarrow> nat \<Rightarrow> bool" where
  "section_ok Rs p pools i mp \<longleftrightarrow>
     sec_mp (sections p i) = Some mp \<and> pcap_section_from_mp p (Some mp) = Some i
     \<and> unat (sec_pkt_count (sections p i)) = length (pools mp) \<and> list_all (roomy Rs) (pools mp)"

lemma load_section:
  assumes "reader_at fs Rs n p" and "concat Rs \<noteq> []" and "section_ok Rs p pools i mp"
  shows "\<exists>p' pools'. pcap_load_section fs p i pools = Some (Inr (p', pools'))
    \<and> map pkt_data (pools' mp) = cyc_take (map snd (concat Rs)) n (length (pools mp))
    \<and> reader_at fs Rs (n + length (pools mp)) p'
    \<and> sec_pkt_loaded (sections p' i) = sec_pkt_count (sections p' i)
    \<and> chunk_id (sections p' i) = next_chunk_id p \<and> next_chunk_id p' = next_chunk_id p + 1
    \<and> section_ok Rs p' pools' i mp \<and> same_control p p'
    \<and> (\<forall>j. j \<noteq> i \<longrightarrow> sections p' j = sections p j) \<and> (\<forall>q. q \<noteq> mp \<longrightarrow> pools' q = pools q)"
proof -
  from assms(3) have mp: "sec_mp (sections p i) = Some mp"
    and sec: "pcap_section_from_mp p (Some mp) = Some i"
    and cnt: "unat (sec_pkt_count (sections p i)) = length (pools mp)"
    and roomy: "list_all (roomy Rs) (pools mp)" by (simp_all add: section_ok_def)
  from assms(1) obtain st where st: "fp p = Some st" by (auto simp: reader_at_def)
  let ?p1 = "upd_section i (\<lambda>s. s\<lparr>file_offset_begin := ftell st\<rparr>) p"
  let ?p2 = "upd_section i (\<lambda>s. s\<lparr>chunk_id := next_chunk_id ?p1\<rparr>) ?p1"
  let ?p3 = "upd_section i pcap_section_reset (?p2\<lparr>next_chunk_id := next_chunk_id ?p2 + 1\<rparr>)"
  have sec3: "sections ?p3 = (sections p)(i := (sections p i)\<lparr>file_offset_begin := ftell st,
      chunk_id := next_chunk_id p, sec_pkt_loaded := 0\<rparr>)"
    by (simp add: sec_simps pcap_section_reset_def)
  have "pcap_section_from_mp ?p3 (Some mp) = pcap_section_from_mp p (Some mp)"
    by (rule section_from_mp_cong) (simp add: sec3)
  with assms(1,2) sec have at: "loading fs Rs mp i ?p3 n ?p3"
    by (simp add: loading_def reader_at_upd_section reader_at_chunk sec3)
  have room: "sec_room i ?p3 = length (pools mp)" by (simp add: sec_room_def sec3 cnt)
  from loader.iter_fill [OF at roomy] room obtain p4 ms where
    iter: "rte_mempool_obj_iter (mbuf_iterate_cb fs mp) ?p3 (pools mp) = Some (Inr (p4, ms))"
    and after: "loading fs Rs mp i ?p3 (n + length (pools mp)) p4"
    and left: "sec_room i p4 = 0" and ms: "list_all (roomy Rs) ms" "length ms = length (pools mp)"
      "map pkt_data ms = cyc_take (map snd (concat Rs)) n (length (pools mp))"
    by auto
  from after obtain st4 where st4: "fp p4 = Some st4" by (auto simp: loading_def reader_at_def)
  let ?p5 = "upd_section i (\<lambda>s. s\<lparr>file_offset_end := ftell st4\<rparr>) p4"
  have load: "pcap_load_section fs p i pools = Some (Inr (?p5, pools(mp := ms)))"
    by (simp add: pcap_load_section_def mp st Let_def iter st4)
  from after have frame: "no_load i p4 = no_load i ?p3" by (simp add: loading_def)
  note f = no_load_frame [OF frame]
  have sec5: "sections ?p5 j = (if j = i then (sections p4 i)\<lparr>file_offset_end := ftell st4\<rparr>
      else sections p j)" for j
    using f(1) by (simp add: sec_simps sec3)
  have "sec_pkt_count (sections p4 i) \<le> sec_pkt_loaded (sections p4 i)"
    using left by (simp add: sec_room_def word_le_nat_alt)
  with after have loaded: "sec_pkt_loaded (sections p4 i) = sec_pkt_count (sections p4 i)"
    by (simp add: loading_def)
  have "pcap_section_from_mp ?p5 (Some mp) = pcap_section_from_mp p (Some mp)"
    by (rule section_from_mp_cong) (simp add: sec5 f(2) sec3)
  then have "section_ok Rs ?p5 (pools(mp := ms)) i mp"
    using mp sec cnt ms by (simp add: section_ok_def sec5 f(2,3) sec3)
  moreover have "same_control p ?p5"
    by (simp add: same_control_def sec_simps f(9,11-18))
  moreover have "reader_at fs Rs (n + length (pools mp)) ?p5"
    using after by (simp add: reader_at_upd_section loading_def)
  ultimately show ?thesis
    using load ms(3) loaded f(1)
    by (auto simp: sec5 sec_simps f(4,10) sec3 pcap_section_reset_def)
qed

lemma same_control_trans: "same_control p q \<Longrightarrow> same_control q r \<Longrightarrow> same_control p r"
  by (simp add: same_control_def)

lemma same_control_upd_section [sec_simps]:
  "same_control (upd_section i f p) q = same_control p q"
  "same_control p (upd_section i f q) = same_control p q"
  by (simp_all add: same_control_def sec_simps)

text \<open>
  C4 Loading a section: with the reader before record \<open>n\<close> of the source, a load returns, fills
  every buffer of the pool of the section with the payloads of the records
  \<open>n, n + 1, \<dots>\<close> (numbered round and round through all source files), leaves the reader after
  them, marks the section as completely loaded, gives it the next chunk number, and changes
  neither the other section, nor another pool, nor what the sending side keeps.
\<close>

theorem load_section_correct:
  assumes "reader_at fs Rs n p" and "concat Rs \<noteq> []" and "section_ok Rs p pools i mp"
  shows "\<exists>p' pools'. pcap_load_section fs p i pools = Some (Inr (p', pools'))
    \<and> map pkt_data (pools' mp) = cyc_take (map snd (concat Rs)) n (length (pools mp))
    \<and> reader_at fs Rs (n + length (pools mp)) p'
    \<and> sec_pkt_loaded (sections p' i) = sec_pkt_count (sections p' i)
    \<and> chunk_id (sections p' i) = next_chunk_id p \<and> next_chunk_id p' = next_chunk_id p + 1
    \<and> section_ok Rs p' pools' i mp \<and> same_control p p'
    \<and> (\<forall>j. j \<noteq> i \<longrightarrow> sections p' j = sections p j) \<and> (\<forall>q. q \<noteq> mp \<longrightarrow> pools' q = pools q)"
  using assms by (rule load_section)

definition sample_pools :: pools where
  "sample_pools mp = (if mp = 7 then replicate 5 (small_mbuf []) else [])"

definition sample_open :: pcap_info where
  "sample_open = (case pcap_open_source_index sample_fs
       (upd_section 0 (\<lambda>s. s\<lparr>sec_mp := Some 7, sec_pkt_count := 5\<rparr>) sample_info) 0 of
     Inr (_, p) \<Rightarrow> p | Inl _ \<Rightarrow> sample_info)"

lemma sample_open_ok:
  "reader_at sample_fs [sample_packets] 0 sample_open"
  "section_ok [sample_packets] sample_open sample_pools 0 7"
proof -
  let ?p = "upd_section 0 (\<lambda>s. s\<lparr>sec_mp := Some 7, sec_pkt_count := 5\<rparr>) sample_info"
  have "captures sample_fs (source_files ?p) [sample_packets]"
    using sample_captures by (simp add: sample_info_def sec_simps)
  from reader_at_open [OF this, of 0] obtain p' st conv where
    opened: "pcap_open_source_index sample_fs ?p 0 = Inr (0, p')"
    and at: "reader_at sample_fs [sample_packets] 0 p'"
    and p': "p' = ?p\<lparr>fp := Some st, source_file_index := 0, source_convert := conv\<rparr>"
    by (auto simp: sample_info_def sec_simps)
  have eq: "sample_open = p'" unfolding sample_open_def opened by simp
  show "reader_at sample_fs [sample_packets] 0 sample_open" using at eq by simp
  show "section_ok [sample_packets] sample_open sample_pools 0 7"
    by (simp add: eq p' section_ok_def sec_simps pcap_section_from_mp_def
        sample_info_def sample_pools_def list_all_iff roomy_def sample_packets_def
        written_packet_def small_mbuf_def)
qed

lemma sample_first_five:
  "cyc_take (map snd (concat [sample_packets])) 0 5 = [[1, 2, 3], [4], [5, 6], [1, 2, 3], [4]]"
proof -
  have "map snd (concat [sample_packets]) = [[1, 2, 3], [4], [5, 6]]"
    by (simp add: sample_packets_def written_packet_def small_mbuf_def)
  then show ?thesis by (simp add: cyc_take_def cyc_def upt_rec)
qed

theorem load_section_correct_witness:
  "\<exists>p' pools'. pcap_load_section sample_fs sample_open 0 sample_pools = Some (Inr (p', pools'))
     \<and> map pkt_data (pools' 7) = [[1, 2, 3], [4], [5, 6], [1, 2, 3], [4]]
     \<and> reader_at sample_fs [sample_packets] 5 p'"
proof -
  have "length (sample_pools 7) = 5" by (simp add: sample_pools_def)
  then show ?thesis
    using load_section_correct [OF sample_open_ok(1) sample_nonempty(1) sample_open_ok(2)]
    by (auto simp: sample_first_five [simplified])
qed

subsection \<open>A damaged capture\<close>

text \<open>
  The scan skips over the payloads with \<open>fseek\<close>, which may go past the end of the file without
  an error. A capture whose only record announces more bytes than the file has:
\<close>

definition cut_fs :: "pcap_record_hdr \<Rightarrow> u8 list \<Rightarrow> fs" where
  "cut_fs h bs f = (if f = ''s.pcap''
     then Some (Reg (the (pktgen_create_pcap_file True) @ bytes_of_rec h @ bs)) else None)"

text \<open>
  A damaged capture: the scan of a capture whose payload is cut off succeeds, counts
  the cut packet with its announced length, and the first buffer that is to be filled from it ends
  the process.
\<close>

lemma cut_capture_passes_scan:
  assumes "length bs < unat (incl_len h)"
  shows "\<exists>p. pcap_get_info (cut_fs h bs) sample_info = Inr p \<and> pkt_count p = 1
     \<and> max_pkt_size p = incl_len h
     \<and> (\<forall>mp m. length bs \<le> length (m_data m) \<longrightarrow>
          mbuf_iterate_cb (cut_fs h bs) mp p m = Some (Inl (Exit_packet_data ''s.pcap'')))"
proof -
  obtain hdr where hdr: "pktgen_create_pcap_file True = Some hdr"
    by (simp add: pktgen_create_pcap_file_def Let_def)
  let ?bs = "hdr @ bytes_of_rec h @ bs"
  let ?st = "\<lparr>s_bytes = ?bs, s_pos = 24, s_eof = False\<rparr>"
  note len = conjunct1 [OF create_pcap_file_header [OF hdr]]
  have opened: "fopen (cut_fs h bs) ''s.pcap'' = Some (stream_of ?bs)"
    by (simp add: fopen_def cut_fs_def hdr)
  have header: "pcap_read_header ''s.pcap'' (stream_of ?bs) = Inr (hdr_of_bytes hdr, 0, ?st)"
    using create_pcap_file_header [OF hdr, of "[]"]
    by (simp add: pcap_read_header_def stream_of_def fread_eq)
  have first: "take 16 (bytes_of_rec h @ bs) = bytes_of_rec h" by (simp add: length_bytes_of_rec)
  have ne: "bytes_of_rec h \<noteq> []" using length_bytes_of_rec [of h] by auto
  have conv: "pcap_convert_record_header 0 h = h" by (simp add: pcap_convert_record_header_def)
  have scan: "pcap_scan_records ''s.pcap'' 0 ?st p t =
      Inr (p\<lparr>pkt_count := pkt_count p + 1,
             max_pkt_size := (if incl_len h > max_pkt_size p then incl_len h else max_pkt_size p)\<rparr>,
           t + ucast (incl_len h))" for p t
    using assms len
    by (subst pcap_scan_records.simps, subst pcap_scan_records.simps)
      (simp add: fread_eq fseek_cur_def first ne conv length_bytes_of_rec rec_of_bytes_of_rec')
  have avg: "ucast (ucast (incl_len h) :: u64) = incl_len h"
    by (rule bit_word_eqI) (simp add: bit_simps)
  have big: "0 < incl_len h" using assms by (simp add: word_less_nat_alt)
  let ?p = "sample_info\<lparr>pkt_count := 1, max_pkt_size := incl_len h, avg_pkt_size := incl_len h,
     info := hdr_of_bytes hdr, fp := Some ?st\<rparr>"
  have "pcap_get_info (cut_fs h bs) sample_info = Inr ?p"
    using big
    by (simp add: pcap_get_info_def sample_info_def opened header scan pcap_rewind_def Let_def avg
        pcap_open_source_index_def)
  moreover have "mbuf_iterate_cb (cut_fs h bs) mp ?p m = Some (Inl (Exit_packet_data ''s.pcap''))"
    if "length bs \<le> length (m_data m)" for mp m
  proof -
    have "pcap_read_record_header (cut_fs h bs) ?p = Some (Inr (Some h, ?p\<lparr>fp := Some (?st\<lparr>s_pos := 40\<rparr>)\<rparr>))"
      using len
      by (simp add: pcap_read_record_header_def pcap_read_record_loop.simps sample_info_def
          fread_eq first conv length_bytes_of_rec rec_of_bytes_of_rec')
    then show ?thesis
      using that assms len
      by (simp add: mbuf_iterate_cb_def pcap_section_from_mp_def sample_info_def Let_def fread_eq
          length_bytes_of_rec mtod_write_def split_beta)
  qed
  ultimately show ?thesis by (intro exI [of _ ?p]) simp
qed

lemma cut_capture_passes_scan_example:
  "\<exists>p. pcap_get_info (cut_fs \<lparr>ts_sec = 0, ts_usec = 0, incl_len = 100, orig_len = 100\<rparr> [1, 2, 3]) sample_info
         = Inr p \<and> pkt_count p = 1
     \<and> (\<forall>mp m. 3 \<le> length (m_data m) \<longrightarrow>
          mbuf_iterate_cb (cut_fs \<lparr>ts_sec = 0, ts_usec = 0, incl_len = 100, orig_len = 100\<rparr> [1, 2, 3]) mp p m
            = Some (Inl (Exit_packet_data ''s.pcap'')))"
  using cut_capture_passes_scan
    [of "[1, 2, 3]" "\<lparr>ts_sec = 0, ts_usec = 0, incl_len = 100, orig_len = 100\<rparr>"] by auto

end
