(* ===== verification/L2pTable.thy ===== *)
theory L2pTable
  imports Prelude
begin

text \<open>
  The table that maps ports to their queues, pools and captures and logical cores to ports
  (\<open>app/l2p.h\<close>, \<open>l2p_create\<close> of \<open>app/l2p.c\<close>). The pointer to an object is the
  number of the object: a pool, a port structure, or the slot of a capture in the list of
  captures; \<open>None\<close> is \<open>NULL\<close>.
\<close>

definition RTE_MAX_ETHPORTS :: nat where "RTE_MAX_ETHPORTS = 32"
definition RTE_MAX_LCORE :: nat where "RTE_MAX_LCORE = 128"
definition MAX_QUEUES_PER_PORT :: nat where "MAX_QUEUES_PER_PORT = 32"

lemmas l2p_limits = RTE_MAX_ETHPORTS_def RTE_MAX_LCORE_def MAX_QUEUES_PER_PORT_def

datatype lcore_mode = LCORE_MODE_UNKNOWN | LCORE_MODE_RX | LCORE_MODE_TX | LCORE_MODE_BOTH

record l2p_port =
  l_pinfo :: "nat option"
  l_pid :: nat
  num_rx_qids :: nat
  num_tx_qids :: nat
  rx_mp :: "nat \<Rightarrow> nat option"
  tx_mp :: "nat \<Rightarrow> nat option"
  sp_mp :: "nat \<Rightarrow> nat option"
  l_pcap_info :: "nat option"

record l2p_lport =
  lp_mode :: lcore_mode
  lp_lid :: nat
  lp_rx_qid :: nat
  lp_tx_qid :: nat
  lp_port :: "nat option"

record l2p =
  lports :: "nat \<Rightarrow> l2p_lport option"
  ports :: "nat \<Rightarrow> l2p_port"
  mappings :: "string list"
  num_ports :: nat

text \<open>The table before \<open>main\<close>: static storage, all zero.\<close>

definition l2p_zero :: l2p where
  "l2p_zero = \<lparr>lports = (\<lambda>_. None),
     ports = (\<lambda>_. \<lparr>l_pinfo = None, l_pid = 0, num_rx_qids = 0, num_tx_qids = 0, rx_mp = (\<lambda>_. None),
                   tx_mp = (\<lambda>_. None), sp_mp = (\<lambda>_. None), l_pcap_info = None\<rparr>),
     mappings = [], num_ports = 0\<rparr>"

abbreviation upd_port :: "nat \<Rightarrow> (l2p_port \<Rightarrow> l2p_port) \<Rightarrow> l2p \<Rightarrow> l2p" where
  "upd_port pid f t \<equiv> t\<lparr>ports := (ports t)(pid := f (ports t pid))\<rparr>"

definition l2p_create :: "l2p \<Rightarrow> l2p" where
  "l2p_create t = t\<lparr>ports := (\<lambda>i. if i < RTE_MAX_ETHPORTS
     then (ports t i)\<lparr>l_pid := RTE_MAX_ETHPORTS + 1\<rparr> else ports t i)\<rparr>"

text \<open>The two tests that the access functions share.\<close>

abbreviation attached :: "l2p \<Rightarrow> nat \<Rightarrow> bool" where
  "attached t pid \<equiv> pid < RTE_MAX_ETHPORTS \<and> l_pid (ports t pid) < RTE_MAX_ETHPORTS"

subsection \<open>Ports\<close>

definition l2p_get_port :: "l2p \<Rightarrow> nat \<Rightarrow> nat option" where
  "l2p_get_port t pid = (if attached t pid then Some pid else None)"

definition l2p_get_port_cnt :: "l2p \<Rightarrow> nat" where
  "l2p_get_port_cnt t = num_ports t"

definition l2p_get_port_pinfo :: "l2p \<Rightarrow> nat \<Rightarrow> nat option" where
  "l2p_get_port_pinfo t pid =
     (case l2p_get_port t pid of None \<Rightarrow> None | Some i \<Rightarrow> l_pinfo (ports t i))"

definition l2p_set_port_pinfo :: "l2p \<Rightarrow> nat \<Rightarrow> nat option \<Rightarrow> int \<times> l2p" where
  "l2p_set_port_pinfo t pid pinfo =
     (case l2p_get_port t pid of None \<Rightarrow> (-1, t)
      | Some i \<Rightarrow> (0, upd_port i (\<lambda>p. p\<lparr>l_pinfo := pinfo\<rparr>) t))"

definition l2p_get_rx_mp :: "l2p \<Rightarrow> nat \<Rightarrow> nat \<Rightarrow> nat option" where
  "l2p_get_rx_mp t pid qid =
     (if pid \<ge> RTE_MAX_ETHPORTS then None else if qid \<ge> MAX_QUEUES_PER_PORT then None
      else rx_mp (ports t pid) qid)"

definition l2p_get_tx_mp :: "l2p \<Rightarrow> nat \<Rightarrow> nat \<Rightarrow> nat option" where
  "l2p_get_tx_mp t pid qid =
     (if pid \<ge> RTE_MAX_ETHPORTS then None else if qid \<ge> MAX_QUEUES_PER_PORT then None
      else tx_mp (ports t pid) qid)"

definition l2p_get_sp_mp :: "l2p \<Rightarrow> nat \<Rightarrow> nat \<Rightarrow> nat option" where
  "l2p_get_sp_mp t pid qid =
     (if pid \<ge> RTE_MAX_ETHPORTS then None else if qid \<ge> MAX_QUEUES_PER_PORT then None
      else sp_mp (ports t pid) qid)"

definition l2p_get_rxcnt :: "l2p \<Rightarrow> nat \<Rightarrow> nat" where
  "l2p_get_rxcnt t pid = (if attached t pid then num_rx_qids (ports t pid) else 0)"

definition l2p_get_txcnt :: "l2p \<Rightarrow> nat \<Rightarrow> nat" where
  "l2p_get_txcnt t pid = (if attached t pid then num_tx_qids (ports t pid) else 0)"

text \<open>The two counts; \<open>None\<close> for the return value \<open>-1\<close>.\<close>

definition l2p_get_qcnt :: "l2p \<Rightarrow> nat \<Rightarrow> (nat \<times> nat) option" where
  "l2p_get_qcnt t pid =
     (if attached t pid then Some (num_rx_qids (ports t pid), num_tx_qids (ports t pid)) else None)"

subsection \<open>Logical cores\<close>

fun first_lport :: "l2p \<Rightarrow> nat \<Rightarrow> nat list \<Rightarrow> nat option option" where
  "first_lport t pid [] = Some None"
| "first_lport t pid (i # is) =
     (case lports t i of
        None \<Rightarrow> first_lport t pid is
      | Some lp \<Rightarrow>
          (case lp_port lp of
             None \<Rightarrow> None
           | Some p \<Rightarrow>
               if l_pid (ports t p) = pid then Some (Some (lp_lid lp)) else first_lport t pid is))"

text \<open>No value where the C code follows a null pointer or reads past the array.\<close>

definition l2p_get_lcore_by_pid :: "l2p \<Rightarrow> nat \<Rightarrow> nat option" where
  "l2p_get_lcore_by_pid t pid =
     (case first_lport t pid [0..<RTE_MAX_LCORE] of
        None \<Rightarrow> None | Some None \<Rightarrow> Some RTE_MAX_LCORE | Some (Some lid) \<Rightarrow> Some lid)"

definition l2p_get_pid_by_lcore :: "l2p \<Rightarrow> nat \<Rightarrow> nat option" where
  "l2p_get_pid_by_lcore t lid =
     (if lid \<ge> RTE_MAX_LCORE then None
      else Some (case lports t lid of
        None \<Rightarrow> RTE_MAX_ETHPORTS
      | Some lp \<Rightarrow>
          (case lp_port lp of
             None \<Rightarrow> RTE_MAX_ETHPORTS
           | Some p \<Rightarrow> if l_pid (ports t p) \<ge> RTE_MAX_ETHPORTS then RTE_MAX_ETHPORTS
                       else l_pid (ports t p))))"

definition l2p_get_type :: "l2p \<Rightarrow> nat \<Rightarrow> (int + lcore_mode) option" where
  "l2p_get_type t lid =
     (if lid \<ge> RTE_MAX_LCORE then Some (Inl (-1))
      else map_option (\<lambda>lp. Inr (lp_mode lp)) (lports t lid))"

definition l2p_get_pinfo_by_lcore :: "l2p \<Rightarrow> nat \<Rightarrow> nat option option" where
  "l2p_get_pinfo_by_lcore t lid =
     (if lid \<ge> RTE_MAX_LCORE then Some None
      else case lports t lid of
        None \<Rightarrow> None
      | Some lp \<Rightarrow>
          if lp_lid lp \<ge> RTE_MAX_LCORE then Some None
          else case lp_port lp of None \<Rightarrow> Some None | Some p \<Rightarrow> Some (l_pinfo (ports t p)))"

definition l2p_set_pinfo_by_lcore :: "l2p \<Rightarrow> nat \<Rightarrow> nat option \<Rightarrow> (int \<times> l2p) option" where
  "l2p_set_pinfo_by_lcore t lid pinfo =
     (if lid \<ge> RTE_MAX_LCORE then Some (-1, t)
      else case lports t lid of
        None \<Rightarrow> None
      | Some lp \<Rightarrow>
          if lp_lid lp \<ge> RTE_MAX_LCORE then Some (-1, t)
          else case lp_port lp of
                 None \<Rightarrow> Some (-1, t)
               | Some p \<Rightarrow> Some (0, upd_port p (\<lambda>q. q\<lparr>l_pinfo := pinfo\<rparr>) t))"

definition l2p_get_rxqid :: "l2p \<Rightarrow> nat \<Rightarrow> nat" where
  "l2p_get_rxqid t lid =
     (if lid < RTE_MAX_LCORE then
        case lports t lid of None \<Rightarrow> 0 | Some lp \<Rightarrow> if lp_port lp \<noteq> None then lp_rx_qid lp else 0
      else 0)"

definition l2p_get_txqid :: "l2p \<Rightarrow> nat \<Rightarrow> nat" where
  "l2p_get_txqid t lid =
     (if lid < RTE_MAX_LCORE then
        case lports t lid of None \<Rightarrow> 0 | Some lp \<Rightarrow> if lp_port lp \<noteq> None then lp_tx_qid lp else 0
      else 0)"

definition l2p_get_qids :: "l2p \<Rightarrow> nat \<Rightarrow> (nat \<times> nat) option" where
  "l2p_get_qids t pid =
     (if attached t pid then Some (l2p_get_rxqid t pid, l2p_get_txqid t pid) else None)"

subsection \<open>Captures\<close>

definition l2p_get_pcap :: "l2p \<Rightarrow> nat \<Rightarrow> nat option" where
  "l2p_get_pcap t pid = (if attached t pid then l_pcap_info (ports t pid) else None)"

definition l2p_set_pcap_info :: "l2p \<Rightarrow> nat \<Rightarrow> nat option \<Rightarrow> int \<times> l2p" where
  "l2p_set_pcap_info t pid pcap =
     (if pid \<ge> RTE_MAX_ETHPORTS \<or> l_pid (ports t pid) \<ge> RTE_MAX_ETHPORTS then (-1, t)
      else (0, upd_port pid (\<lambda>p. p\<lparr>l_pcap_info := pcap\<rparr>) t))"

end
