(* ===== verification/PcapSections.thy ===== *)
theory PcapSections
  imports PcapLoad L2pTable
begin

text \<open>
  How the huge page memory is divided between the two sections of a capture and how the capture
  of a port is opened (\<open>app/pktgen-pcap.c\<close>, from \<open>get_total_hugepage_bytes\<close> to
  \<open>pktgen_pcap_open\<close>). The lines of \<open>/proc/meminfo\<close>, the memory the pools of the
  ports took, and which requests for pools and threads succeed are parameters.
\<close>

definition PCAP_SECTION_PKT_MULTIPLE :: u32 where "PCAP_SECTION_PKT_MULTIPLE = 64"
definition PCAP_BASELINE_HUGEPAGE_SIZE_KB :: u64 where "PCAP_BASELINE_HUGEPAGE_SIZE_KB = 2048"
definition DEFAULT_TX_DESC :: u32 where "DEFAULT_TX_DESC = 1024"
definition RTE_PKTMBUF_HEADROOM :: u32 where "RTE_PKTMBUF_HEADROOM = 128"
definition sizeof_rte_mbuf :: u64 where "sizeof_rte_mbuf = 128"

lemmas pcap_limits = PCAP_SECTION_PKT_MULTIPLE_def PCAP_BASELINE_HUGEPAGE_SIZE_KB_def
  DEFAULT_TX_DESC_def RTE_PKTMBUF_HEADROOM_def sizeof_rte_mbuf_def

subsection \<open>The size of the huge page memory\<close>

text \<open>\<open>sscanf\<close> with a literal prefix and one \<open>%lu\<close>: the value when it is converted.\<close>

definition is_space :: "char \<Rightarrow> bool" where
  "is_space c \<longleftrightarrow> c \<in> {CHR '' '', CHR 0x09, CHR 0x0A, CHR 0x0B, CHR 0x0C, CHR 0x0D}"

definition digit_val :: "char \<Rightarrow> nat option" where
  "digit_val c = (let n = of_char c :: nat in if 48 \<le> n \<and> n \<le> 57 then Some (n - 48) else None)"

fun scan_digits :: "string \<Rightarrow> nat \<Rightarrow> nat" where
  "scan_digits [] acc = acc"
| "scan_digits (c # cs) acc =
     (case digit_val c of None \<Rightarrow> acc | Some d \<Rightarrow> scan_digits cs (10 * acc + d))"

definition sscanf_lu :: "string \<Rightarrow> string \<Rightarrow> u64 option" where
  "sscanf_lu prefix line =
     (if take (length prefix) line = prefix then
        (case dropWhile is_space (drop (length prefix) line) of
           [] \<Rightarrow> None
         | c # cs \<Rightarrow>
             if digit_val c = None then None
             else Some (of_nat (min (scan_digits (c # cs) 0) (2 ^ 64 - 1))))
      else None)"

fun meminfo_lines :: "string list \<Rightarrow> u64 \<Rightarrow> u64 \<Rightarrow> u64 \<times> u64" where
  "meminfo_lines [] pages size_kb = (pages, size_kb)"
| "meminfo_lines (line # rest) pages size_kb =
     (case sscanf_lu ''HugePages_Total:'' line of
        Some v \<Rightarrow> meminfo_lines rest v size_kb
      | None \<Rightarrow>
          (case sscanf_lu ''Hugepagesize:'' line of
             Some v \<Rightarrow> meminfo_lines rest pages v
           | None \<Rightarrow> meminfo_lines rest pages size_kb))"

text \<open>The bytes of all the huge pages and of one; \<open>None\<close> for the return value \<open>-1\<close>.\<close>

definition get_total_hugepage_bytes :: "string list option \<Rightarrow> (u64 \<times> u64) option" where
  "get_total_hugepage_bytes meminfo =
     (case meminfo of
        None \<Rightarrow> None
      | Some lines \<Rightarrow>
          (case meminfo_lines lines 0 0 of
             (hugepages_total, hugepage_size_kb) \<Rightarrow>
               if hugepages_total = 0 \<or> hugepage_size_kb = 0 then None
               else Some (hugepages_total * hugepage_size_kb * 1024, hugepage_size_kb * 1024)))"

subsection \<open>Dividing it\<close>

definition pcap_pkt_count_floor_multiple :: "u32 \<Rightarrow> u32" where
  "pcap_pkt_count_floor_multiple n = n - n mod PCAP_SECTION_PKT_MULTIPLE"

text \<open>The usable bytes and the budgets of the two sections.\<close>

definition pcap_split_section_budgets :: "u64 \<Rightarrow> u64 \<Rightarrow> u64 \<times> u64 \<times> u64" where
  "pcap_split_section_budgets total_bytes reserve =
     (let usable = (if total_bytes > reserve then total_bytes - reserve else 0);
          section0 = usable div 2
      in (usable, section0, usable - section0))"

definition pcap_get_baseline_hugepages :: "u64 \<Rightarrow> u64" where
  "pcap_get_baseline_hugepages total_mem_used =
     (let total_mem_used_kb = (total_mem_used + 1023) div 1024;
          needed_hugepages = (total_mem_used_kb + PCAP_BASELINE_HUGEPAGE_SIZE_KB - 1)
                               div PCAP_BASELINE_HUGEPAGE_SIZE_KB;
          baseline_hugepages = (needed_hugepages * 3 + 1) div 2
      in if baseline_hugepages = 0 then 1 else baseline_hugepages)"

text \<open>\<open>RTE_ALIGN_CEIL\<close> of DPDK for a power of two.\<close>

definition rte_align_ceil :: "'w::len word \<Rightarrow> 'w word \<Rightarrow> 'w word" where
  "rte_align_ceil val align = (val + (align - 1)) AND NOT (align - 1)"

definition pcap_dataroom :: "u32 \<Rightarrow> u32" where
  "pcap_dataroom max_size = rte_align_ceil (max_size + RTE_PKTMBUF_HEADROOM) 64"

definition pcap_per_pkt_bytes :: "u32 \<Rightarrow> u64" where
  "pcap_per_pkt_bytes dataroom = rte_align_ceil (sizeof_rte_mbuf + 0 + ucast dataroom) 64 + 32"

definition set_budgets :: "u64 \<Rightarrow> u64 \<Rightarrow> pcap_info \<Rightarrow> pcap_info" where
  "set_budgets b0 b1 p =
     upd_section 1 (\<lambda>s. s\<lparr>budget_bytes := b1\<rparr>) (upd_section 0 (\<lambda>s. s\<lparr>budget_bytes := b0\<rparr>) p)"

definition set_counts :: "u32 \<Rightarrow> u32 \<Rightarrow> pcap_info \<Rightarrow> pcap_info" where
  "set_counts c0 c1 p =
     upd_section 1 (\<lambda>s. s\<lparr>sec_pkt_count := c1\<rparr>) (upd_section 0 (\<lambda>s. s\<lparr>sec_pkt_count := c0\<rparr>) p)"

text \<open>
  The part of \<open>pktgen_pcap_open\<close> between the scan of the captures and the creation of the pools:
  with the result of \<open>get_total_hugepage_bytes\<close> and the memory used so far, it sets the packet
  counts of the two sections or ends the process.
\<close>

definition pcap_plan_sections ::
  "(u64 \<times> u64) option \<Rightarrow> u64 \<Rightarrow> pcap_info \<Rightarrow> exit_reason + pcap_info" where
  "pcap_plan_sections hugepages total_mem_used p =
     (let pkts = (if pkt_count p < DEFAULT_TX_DESC * 4 then DEFAULT_TX_DESC * 4 else pkt_count p);
          dataroom = pcap_dataroom (max_pkt_size p);
          planned =
            (case hugepages of
               Some (total_bytes, _) \<Rightarrow>
                 (let reserve = pcap_get_baseline_hugepages total_mem_used
                                  * PCAP_BASELINE_HUGEPAGE_SIZE_KB * 1024;
                      per_pkt_bytes = pcap_per_pkt_bytes dataroom;
                      (available, budget0, budget1) = pcap_split_section_budgets total_bytes reserve;
                      p1 = set_budgets budget0 budget1 p;
                      cap0 = (if per_pkt_bytes > 0 then ucast (budget0 div per_pkt_bytes) else 0);
                      cap1 = (if per_pkt_bytes > 0 then ucast (budget1 div per_pkt_bytes) else 0);
                      p2 = set_counts cap0 cap1 p1;
                      max_pkts_fit = (if per_pkt_bytes > 0 then ucast (available div per_pkt_bytes) else 0)
                  in if max_pkts_fit = 0 then Inl Exit_no_hugepages
                     else if pkts \<le> max_pkts_fit
                     then Inr (pkts, set_counts pkts 0 (set_budgets available 0 p2))
                     else Inr (max_pkts_fit, set_counts cap0 cap1 (set_budgets budget0 budget1 p2)))
             | None \<Rightarrow> Inr (pkts, p))
      in case planned of
           Inl e \<Rightarrow> Inl e
         | Inr (pkts1, p3) \<Rightarrow>
             (let have_info = (hugepages \<noteq> None);
                  create0 = (if have_info \<and> sec_pkt_count (sections p3 0) > 0
                             then sec_pkt_count (sections p3 0) else pkts1);
                  create1 = (if have_info \<and> sec_pkt_count (sections p3 1) > 0
                             then sec_pkt_count (sections p3 1) else 0);
                  floor0 = pcap_pkt_count_floor_multiple create0;
                  floor1 = pcap_pkt_count_floor_multiple create1
              in if floor0 = 0 then Inl Exit_section_too_small
                 else Inr (set_counts floor0 floor1 p3)))"

subsection \<open>Creating the pools\<close>

text \<open>
  \<open>rte_pktmbuf_pool_create\<close> of DPDK takes the data room as \<open>uint16_t\<close>; the buffers keep
  \<open>RTE_PKTMBUF_HEADROOM\<close> bytes of it free in front of the packet.
\<close>

definition rte_pktmbuf_pool_create :: "bool \<Rightarrow> u32 \<Rightarrow> u16 \<Rightarrow> mbuf list option" where
  "rte_pktmbuf_pool_create memory n data_room_size =
     (if memory then Some (replicate (unat n)
        \<lparr>m_data = replicate (unat data_room_size - unat RTE_PKTMBUF_HEADROOM) 0, m_pool = None,
         m_next = None, m_data_len = 0, m_pkt_len = 0, m_port = 0, m_ol_flags = 0\<rparr>)
      else None)"

record pcap_env =
  env_meminfo :: "string list option"
  env_total_mem_used :: u64
  env_pool :: "nat \<Rightarrow> bool"
  env_thread :: "nat \<Rightarrow> bool"

text \<open>The pools of port \<open>pid\<close> (\<open>pcap-%d\<close> and \<open>pcap-%d-sec1\<close>).\<close>

definition pcap_pool :: "nat \<Rightarrow> nat \<Rightarrow> nat" where
  "pcap_pool pid section = 2 * pid + section"

definition pcap_fill_section ::
  "fs \<Rightarrow> bool \<Rightarrow> nat \<Rightarrow> nat \<Rightarrow> pcap_info \<Rightarrow> pools \<Rightarrow> (exit_reason + pcap_info \<times> pools) option" where
  "pcap_fill_section fs memory pid i p pools =
     (case rte_pktmbuf_pool_create memory (sec_pkt_count (sections p i))
             (ucast (pcap_dataroom (max_pkt_size p))) of
        None \<Rightarrow> Some (Inl (Exit_create_pool i))
      | Some bufs \<Rightarrow>
          let mp = pcap_pool pid i;
              p1 = (if i = 0 then p\<lparr>pcap_mp := Some mp\<rparr> else p);
              p2 = upd_section i (\<lambda>s. s\<lparr>sec_mp := Some mp\<rparr>) p1
          in pcap_load_section fs p2 i (pools(mp := bufs)))"

definition pcap_create_sections ::
  "fs \<Rightarrow> pcap_env \<Rightarrow> nat \<Rightarrow> pcap_info \<Rightarrow> pools \<Rightarrow> (exit_reason + pcap_info \<times> pools) option" where
  "pcap_create_sections fs env pid p pools =
     (case pcap_fill_section fs (env_pool env (pcap_pool pid 0)) pid 0 p pools of
        None \<Rightarrow> None
      | Some (Inl e) \<Rightarrow> Some (Inl e)
      | Some (Inr (p1, pools1)) \<Rightarrow>
          if sec_pkt_count (sections p1 1) > 0
          then pcap_fill_section fs (env_pool env (pcap_pool pid 1)) pid 1 p1 pools1
          else Some (Inr (upd_section 1 (\<lambda>s. s\<lparr>sec_mp := None, sec_pkt_loaded := 0\<rparr>) p1, pools1)))"

subsection \<open>Registering and opening captures\<close>

type_synonym pcap_list = "nat \<Rightarrow> pcap_info option"

definition pcap_zero :: pcap_info where
  "pcap_zero = \<lparr>filename = [], fp = None, pcap_mp = None,
     sections = (\<lambda>_. \<lparr>sec_mp = None, sec_pkt_count = 0, sec_pkt_loaded = 0, budget_bytes = 0,
                       chunk_id = 0, file_offset_begin = 0, file_offset_end = 0\<rparr>),
     active_section_idx = 0, convert = 0, max_pkt_size = 0, avg_pkt_size = 0, pkt_count = 0,
     pkt_index = 0, next_chunk_id = 0,
     info = \<lparr>magic_number = 0, version_major = 0, version_minor = 0, thiszone = 0, sigfigs = 0,
             snaplen = 0, network = 0\<rparr>,
     reload_request = 0, reload_in_progress = 0, section_locked = (\<lambda>_. 0), source_files = [],
     source_file_count = 0, source_file_index = 0, source_convert = 0\<rparr>"

definition pktgen_pcap_add :: "string option \<Rightarrow> nat \<Rightarrow> pcap_list \<Rightarrow> exit_reason + int \<times> pcap_list" where
  "pktgen_pcap_add name pid lst =
     (case name of
        None \<Rightarrow> Inl Exit_null_filename
      | Some f \<Rightarrow>
          Inr (0, lst(pid \<mapsto> pcap_zero\<lparr>filename := f, active_section_idx := 0, next_chunk_id := 1,
            reload_request := -1, reload_in_progress := -1, source_files := [],
            source_file_count := 0, source_file_index := 0, source_convert := 0,
            section_locked := (\<lambda>_. 0)\<rparr>)))"

definition pcap_open_port ::
  "fs \<Rightarrow> pcap_env \<Rightarrow> nat \<Rightarrow> pcap_info \<Rightarrow> pools \<Rightarrow> l2p \<Rightarrow> (exit_reason + pcap_info \<times> pools \<times> l2p) option" where
  "pcap_open_port fs env pid p pools t =
     (case pcap_prepare_source_files fs p of
        Inl e \<Rightarrow> Some (Inl e)
      | Inr (rc, p1) \<Rightarrow>
          if rc < 0 then Some (Inl (Exit_prepare (filename p1)))
          else case pcap_get_info fs p1 of
            Inl e \<Rightarrow> Some (Inl e)
          | Inr p2 \<Rightarrow>
              (case pcap_plan_sections (get_total_hugepage_bytes (env_meminfo env))
                      (env_total_mem_used env) p2 of
                 Inl e \<Rightarrow> Some (Inl e)
               | Inr p3 \<Rightarrow>
                   (case pcap_create_sections fs env pid p3 pools of
                      None \<Rightarrow> None
                    | Some (Inl e) \<Rightarrow> Some (Inl e)
                    | Some (Inr (p4, pools4)) \<Rightarrow>
                        if \<not> env_thread env pid then Some (Inl Exit_reload_thread)
                        else Some (Inr (p4, pools4, snd (l2p_set_pcap_info t pid (Some pid)))))))"

fun pcap_open_ports ::
  "fs \<Rightarrow> pcap_env \<Rightarrow> nat list \<Rightarrow> pcap_list \<Rightarrow> pools \<Rightarrow> l2p \<Rightarrow>
     (exit_reason + pcap_list \<times> pools \<times> l2p) option" where
  "pcap_open_ports fs env [] lst pools t = Some (Inr (lst, pools, t))"
| "pcap_open_ports fs env (pid # pids) lst pools t =
     (case lst pid of
        None \<Rightarrow> pcap_open_ports fs env pids lst pools t
      | Some p \<Rightarrow>
          (case pcap_open_port fs env pid p pools t of
             None \<Rightarrow> None
           | Some (Inl e) \<Rightarrow> Some (Inl e)
           | Some (Inr (p1, pools1, t1)) \<Rightarrow>
               pcap_open_ports fs env pids (lst(pid \<mapsto> p1)) pools1 t1))"

definition pktgen_pcap_open ::
  "fs \<Rightarrow> pcap_env \<Rightarrow> pcap_list \<Rightarrow> pools \<Rightarrow> l2p \<Rightarrow> (exit_reason + pcap_list \<times> pools \<times> l2p) option" where
  "pktgen_pcap_open fs env lst pools t = pcap_open_ports fs env [0..<RTE_MAX_ETHPORTS] lst pools t"

subsection \<open>Sizes\<close>

lemma unat_ucast_le: "unat (ucast x :: 'b::len word) \<le> unat x" for x :: "'a::len word"
  by (simp add: unsigned_ucast_eq)

lemma and_not_63: "x AND NOT 63 = push_bit 6 (drop_bit 6 x)" for x :: "'w::len word"
proof -
  have "(63 :: 'w word) = mask 6" by (simp add: mask_eq_exp_minus_1)
  moreover have "x AND NOT (mask 6) = push_bit 6 (drop_bit 6 x)"
    by (rule bit_word_eqI) (auto simp: bit_simps)
  ultimately show ?thesis by (simp only:)
qed

lemma unat_align:
  fixes x :: "'w::len word"
  assumes "unat x + 63 < 2 ^ LENGTH('w)" and "6 \<le> LENGTH('w)"
  shows "unat (rte_align_ceil x 64) = (unat x + 63) div 64 * 64"
proof -
  have 63: "unat (63 :: 'w word) = 63"
  proof -
    have "(63 :: nat) < 2 ^ 6" by simp
    also have "\<dots> \<le> 2 ^ LENGTH('w)" using assms(2) by (intro power_increasing) simp_all
    finally show ?thesis using unat_of_nat_small [of 63, where 'w = 'w] by simp
  qed
  then have sum: "unat (x + 63) = unat x + 63" using unat_add_no_wrap [of x 63] assms by simp
  have le: "(unat x + 63) div 64 * 64 < 2 ^ LENGTH('w)" using assms(1) by (rule le_less_trans [rotated]) simp
  have "unat (push_bit 6 (drop_bit 6 (x + 63)))
      = take_bit LENGTH('w) (push_bit 6 (drop_bit 6 (take_bit LENGTH('w) (unat (x + 63)))))"
    by (simp only: unsigned_push_bit_eq unsigned_drop_bit_eq)
  also have "\<dots> = (unat x + 63) div 64 * 64"
    using le assms(1)
    by (simp add: sum take_bit_nat_eq_self push_bit_eq_mult drop_bit_eq_div)
  finally have "unat (push_bit 6 (drop_bit 6 (x + 63))) = (unat x + 63) div 64 * 64" .
  moreover have "(64 :: 'w word) - 1 = 63" by simp
  ultimately show ?thesis by (simp only: rte_align_ceil_def and_not_63)
qed

lemma unat_floor_multiple: "unat (pcap_pkt_count_floor_multiple n) = unat n div 64 * 64"
proof -
  have "n mod 64 \<le> n" by (simp add: word_le_nat_alt unat_mod)
  from unat_sub [OF this] have "unat (n - n mod 64) = unat n - unat n mod 64"
    by (simp only: unat_mod) simp
  then show ?thesis
    by (simp only: pcap_pkt_count_floor_multiple_def pcap_limits minus_mod_eq_div_mult)
qed

lemma split_section_budgets:
  assumes "pcap_split_section_budgets pages reserve = (available, b0, b1)"
  shows "unat available = unat pages - unat reserve" and "b0 = available div 2"
    and "unat b0 + unat b1 = unat available" and "unat b0 \<le> unat b1"
    and "unat b1 \<le> unat b0 + 1"
proof -
  from assms have u: "available = (if pages > reserve then pages - reserve else 0)"
    and b: "b0 = available div 2" "b1 = available - available div 2"
    by (auto simp: pcap_split_section_budgets_def Let_def)
  show "unat available = unat pages - unat reserve"
    using unat_sub [of reserve pages] by (auto simp: u word_less_nat_alt word_le_nat_alt)
  have half: "unat (available div 2) = unat available div 2" by (simp add: unat_div)
  then have "available div 2 \<le> available" by (simp add: word_le_nat_alt)
  then have "unat b1 = unat available - unat available div 2"
    by (simp add: b(2) unat_sub half)
  then show "b0 = available div 2" "unat b0 + unat b1 = unat available" "unat b0 \<le> unat b1"
    "unat b1 \<le> unat b0 + 1"
    using b(1) half by auto
qed

lemma per_pkt_bytes:
  "unat (pcap_per_pkt_bytes d) = (unat d + 191) div 64 * 64 + 32"
  "0 < pcap_per_pkt_bytes d"
proof -
  have d: "unat d < 2 ^ 32" by (rule unat_less_2p32)
  have len: "unat (128 + ucast d :: u64) = 128 + unat d"
    using unat_add_no_wrap [of 128 "ucast d :: u64"] d by simp
  then have a: "unat (rte_align_ceil (128 + ucast d :: u64) 64) = (unat d + 191) div 64 * 64"
    using unat_align [of "128 + ucast d :: u64"] d by simp
  have "(unat d + 191) div 64 * 64 \<le> unat d + 191" by simp
  then have "unat (rte_align_ceil (128 + ucast d :: u64) 64) + unat (32 :: u64) < 2 ^ LENGTH(64)"
    using a d by simp
  from unat_add_no_wrap [OF this] show *: "unat (pcap_per_pkt_bytes d) = (unat d + 191) div 64 * 64 + 32"
    by (simp add: pcap_per_pkt_bytes_def pcap_limits a)
  then show "0 < pcap_per_pkt_bytes d" by (simp add: word_less_nat_alt)
qed

text \<open>The room for a packet in the buffers of a section.\<close>

definition pcap_room :: "u32 \<Rightarrow> nat" where
  "pcap_room max_size = unat (ucast (pcap_dataroom max_size) :: u16) - unat RTE_PKTMBUF_HEADROOM"

lemma room_iff: "unat m \<le> pcap_room m \<longleftrightarrow> unat m \<le> 65344"
proof (cases "unat m < 65408")
  case True
  have "unat (m + 128) = unat m + 128" using True unat_add_no_wrap [of m 128] by simp
  then have D: "unat (pcap_dataroom m) = (unat m + 191) div 64 * 64"
    using True unat_align [of "m + 128"] by (simp add: pcap_dataroom_def pcap_limits)
  have "unat (ucast (pcap_dataroom m) :: u16) = unat (pcap_dataroom m) mod 65536"
    by (simp add: unsigned_ucast_eq take_bit_eq_mod)
  then have room: "pcap_room m = (unat m + 191) div 64 * 64 mod 65536 - 128"
    by (simp add: pcap_room_def D pcap_limits)
  show ?thesis
  proof (cases "unat m \<le> 65344")
    case small: True
    then have "(unat m + 191) div 64 * 64 \<le> 65535 div 64 * 64" by (intro mult_le_mono1 div_le_mono) simp
    then have "(unat m + 191) div 64 * 64 mod 65536 = (unat m + 191) div 64 * 64" by simp
    moreover have "unat m + 128 \<le> (unat m + 191) div 64 * 64" by presburger
    ultimately show ?thesis using small room by simp
  next
    case False
    then have "(unat m + 191) div 64 = 1024" using True by simp
    with room False show ?thesis by simp
  qed
next
  case False
  have "pcap_room m < 65408"
    using unsigned_less [where ?'a = nat, of "ucast (pcap_dataroom m) :: u16"]
    by (simp add: pcap_room_def pcap_limits)
  with False show ?thesis by simp
qed

subsection \<open>The plan\<close>

abbreviation wanted_pkts :: "pcap_info \<Rightarrow> u32" where
  "wanted_pkts p \<equiv> (if pkt_count p < 4096 then 4096 else pkt_count p)"

abbreviation reserved_bytes :: "u64 \<Rightarrow> u64" where
  "reserved_bytes used \<equiv> pcap_get_baseline_hugepages used * PCAP_BASELINE_HUGEPAGE_SIZE_KB * 1024"

abbreviation pkt_bytes :: "pcap_info \<Rightarrow> u64" where
  "pkt_bytes p \<equiv> pcap_per_pkt_bytes (pcap_dataroom (max_pkt_size p))"

abbreviation count0 :: "pcap_info \<Rightarrow> nat" where "count0 p \<equiv> unat (sec_pkt_count (sections p 0))"
abbreviation count1 :: "pcap_info \<Rightarrow> nat" where "count1 p \<equiv> unat (sec_pkt_count (sections p 1))"

text \<open>Everything but the counts and the budgets stays as it is.\<close>

definition only_planned :: "pcap_info \<Rightarrow> pcap_info \<Rightarrow> bool" where
  "only_planned p p' \<longleftrightarrow> (\<exists>b0 b1 c0 c1. p' = set_counts c0 c1 (set_budgets b0 b1 p))"

lemma set_counts_absorb [simp]:
  "set_counts c0 c1 (set_counts d0 d1 p) = set_counts c0 c1 p"
  "set_budgets b0 b1 (set_budgets e0 e1 p) = set_budgets b0 b1 p"
  "set_budgets b0 b1 (set_counts c0 c1 p) = set_counts c0 c1 (set_budgets b0 b1 p)"
  by (cases p, auto simp: set_counts_def set_budgets_def upd_section_def fun_eq_iff)+

lemma set_counts_sel [simp]:
  "sec_pkt_count (sections (set_counts c0 c1 p) 0) = c0"
  "sec_pkt_count (sections (set_counts c0 c1 p) 1) = c1"
  "sec_pkt_count (sections (set_counts c0 c1 p) (Suc 0)) = c1"
  by (simp_all add: set_counts_def sec_simps)

lemma set_budgets_same: "set_budgets (budget_bytes (sections p 0)) (budget_bytes (sections p 1)) p = p"
  by (cases p) (auto simp: set_budgets_def upd_section_def fun_eq_iff)

lemma plan_no_info:
  "pcap_plan_sections None used p =
     (if pcap_pkt_count_floor_multiple (wanted_pkts p) = 0 then Inl Exit_section_too_small
      else Inr (set_counts (pcap_pkt_count_floor_multiple (wanted_pkts p)) 0 p))"
  by (simp add: pcap_plan_sections_def pcap_limits pcap_pkt_count_floor_multiple_def Let_def)

lemma plan_info:
  assumes "pcap_split_section_budgets pages (reserved_bytes used) = (available, b0, b1)"
  shows "pcap_plan_sections (Some (pages, sz)) used p =
     (let fit = ucast (available div pkt_bytes p) :: u32;
          cap0 = ucast (b0 div pkt_bytes p) :: u32; cap1 = ucast (b1 div pkt_bytes p) :: u32 in
      if fit = 0 then Inl Exit_no_hugepages
      else if wanted_pkts p \<le> fit then
        if pcap_pkt_count_floor_multiple (wanted_pkts p) = 0 then Inl Exit_section_too_small
        else Inr (set_counts (pcap_pkt_count_floor_multiple (wanted_pkts p)) 0 (set_budgets available 0 p))
      else
        if pcap_pkt_count_floor_multiple (if cap0 > 0 then cap0 else fit) = 0
        then Inl Exit_section_too_small
        else Inr (set_counts (pcap_pkt_count_floor_multiple (if cap0 > 0 then cap0 else fit))
                             (pcap_pkt_count_floor_multiple cap1) (set_budgets b0 b1 p)))"
  using assms per_pkt_bytes(2) [of "pcap_dataroom (max_pkt_size p)"]
  by (auto simp: pcap_plan_sections_def pcap_limits Let_def word_gt_0 pcap_pkt_count_floor_multiple_def)

lemma count_bytes_le:
  "unat (ucast (b div s) :: u32) * unat s \<le> unat b" for b s :: u64
proof -
  have "unat (ucast (b div s) :: u32) \<le> unat b div unat s"
    using unat_ucast_le [of "b div s"] by (simp add: unat_div)
  then have "unat (ucast (b div s) :: u32) * unat s \<le> unat b div unat s * unat s"
    by (rule mult_le_mono1)
  then show ?thesis using div_times_less_eq_dividend order_trans by blast
qed

text \<open>
  When the capacity of section 0 is cut off to zero, less than a whole group of packets fits.
\<close>

lemma no_cap0_no_fit:
  assumes "pcap_split_section_budgets pages reserve = (available, b0, b1)" and "0 < s"
    and "(ucast (b0 div s) :: u32) = 0"
  shows "unat (ucast (available div s) :: u32) < 64"
proof -
  let ?q = "unat b0 div unat s"
  have s: "0 < unat s" using assms(2) by (simp add: word_less_nat_alt)
  have "2 * unat b0 \<le> unat available" "unat available \<le> 2 * unat b0 + 1"
    using split_section_budgets(3-5) [OF assms(1)] by linarith+
  moreover have "?q * unat s \<le> unat b0" by simp
  moreover have "unat b0 < ?q * unat s + unat s"
    using mod_less_divisor [OF s, of "unat b0"] div_mult_mod_eq [of "unat b0" "unat s"] by linarith
  ultimately have "2 * (?q * unat s) \<le> unat available"
    and "unat available < 2 * (?q * unat s) + 2 * unat s" by linarith+
  then have "2 * ?q * unat s \<le> unat available" and "unat available < (2 * ?q + 2) * unat s"
    by (simp_all only: add_mult_distrib mult.assoc)
  then have "2 * ?q \<le> unat available div unat s" and "unat available div unat s < 2 * ?q + 2"
    using s by (simp_all add: less_eq_div_iff_mult_less_eq div_less_iff_less_mult)
  then have q: "unat available div unat s = 2 * ?q \<or> unat available div unat s = 2 * ?q + 1" by auto
  have cut: "unat (ucast x :: u32) = unat x mod 2 ^ 32" for x :: u64
    by (simp add: unsigned_ucast_eq take_bit_eq_mod)
  have "unat (ucast (b0 div s) :: u32) = 0" using assms(3) by (simp only: unat_0)
  then have "?q mod 2 ^ 32 = 0" by (simp add: cut unat_div)
  then obtain k where "?q = 2 ^ 32 * k" by (auto elim: dvdE)
  with q obtain e where "e \<le> 1" "unat available div unat s = e + 2 * k * 2 ^ 32"
    by (auto intro: that [of 0] that [of 1])
  then have "unat available div unat s mod 2 ^ 32 \<le> 1" by (simp only: mod_mult_self1) simp
  then show ?thesis by (simp add: cut unat_div)
qed

lemma floor64: "a div 64 * 64 \<le> a" "64 dvd a div 64 * 64" for a :: nat
  by simp_all

lemma floor_multiple_0: "pcap_pkt_count_floor_multiple n = 0 \<longleftrightarrow> unat n < 64"
  using unat_floor_multiple [of n] by (auto simp: word_unat_eq_iff)

lemma plan_sections:
  assumes "pcap_plan_sections hugepages used p = Inr p'"
  shows "only_planned p p'" and "64 dvd count0 p'" and "64 dvd count1 p'" and "64 \<le> count0 p'"
    and "hugepages = Some (pages, sz) \<Longrightarrow>
      (count0 p' + count1 p') * unat (pkt_bytes p) \<le> unat pages - unat (reserved_bytes used)"
    and "hugepages = None \<Longrightarrow> count0 p' = unat (wanted_pkts p) div 64 * 64 \<and> count1 p' = 0"
proof -
  have "only_planned p p' \<and> 64 dvd count0 p' \<and> 64 dvd count1 p' \<and> 64 \<le> count0 p'
    \<and> (hugepages = Some (pages, sz) \<longrightarrow>
       (count0 p' + count1 p') * unat (pkt_bytes p) \<le> unat pages - unat (reserved_bytes used))
    \<and> (hugepages = None \<longrightarrow> count0 p' = unat (wanted_pkts p) div 64 * 64 \<and> count1 p' = 0)"
  proof (cases hugepages)
    case None
    let ?c = "pcap_pkt_count_floor_multiple (wanted_pkts p)"
    from assms None have c: "?c \<noteq> 0" "p' = set_counts ?c 0 p"
      by (auto simp: plan_no_info split: if_splits)
    have "only_planned p p'" using c(2) set_budgets_same [of p] unfolding only_planned_def by metis
    then show ?thesis using c by (auto simp: None unat_floor_multiple floor_multiple_0)
  next
    case (Some h)
    obtain pg sz' where h: "h = (pg, sz')" by (cases h)
    obtain available b0 b1 where
      split: "pcap_split_section_budgets pg (reserved_bytes used) = (available, b0, b1)"
      by (cases "pcap_split_section_budgets pg (reserved_bytes used)") auto
    let ?s = "pkt_bytes p"
    let ?fit = "ucast (available div ?s) :: u32"
    let ?cap0 = "ucast (b0 div ?s) :: u32"
    let ?cap1 = "ucast (b1 div ?s) :: u32"
    let ?w = "wanted_pkts p"
    have plan: "pcap_plan_sections hugepages used p =
      (if ?fit = 0 then Inl Exit_no_hugepages
       else if ?w \<le> ?fit then
         if pcap_pkt_count_floor_multiple ?w = 0 then Inl Exit_section_too_small
         else Inr (set_counts (pcap_pkt_count_floor_multiple ?w) 0 (set_budgets available 0 p))
       else if pcap_pkt_count_floor_multiple (if ?cap0 > 0 then ?cap0 else ?fit) = 0
         then Inl Exit_section_too_small
         else Inr (set_counts (pcap_pkt_count_floor_multiple (if ?cap0 > 0 then ?cap0 else ?fit))
                              (pcap_pkt_count_floor_multiple ?cap1) (set_budgets b0 b1 p)))"
      unfolding Some h by (simp only: plan_info [OF split] Let_def)
    note avail = split_section_budgets(1,3) [OF split]
    have s: "0 < ?s" by (rule per_pkt_bytes)
    show ?thesis
    proof (cases "?w \<le> ?fit")
      case True
      with plan assms have p': "p' = set_counts (pcap_pkt_count_floor_multiple ?w) 0 (set_budgets available 0 p)"
        and w: "pcap_pkt_count_floor_multiple ?w \<noteq> 0"
        by (auto split: if_splits)
      have "unat ?w div 64 * 64 * unat ?s \<le> unat ?fit * unat ?s"
        using True floor64(1) [of "unat ?w"] unfolding word_le_nat_alt by (intro mult_le_mono1) linarith
      also have "\<dots> \<le> unat available" by (rule count_bytes_le)
      finally have "unat ?w div 64 * 64 * unat ?s \<le> unat available" .
      then show ?thesis
        using w by (auto simp: p' Some h unat_floor_multiple floor_multiple_0 only_planned_def avail
            simp del: floor64)
    next
      case False
      with plan assms have p': "p' = set_counts (pcap_pkt_count_floor_multiple (if ?cap0 > 0 then ?cap0 else ?fit))
            (pcap_pkt_count_floor_multiple ?cap1) (set_budgets b0 b1 p)"
        and c0: "pcap_pkt_count_floor_multiple (if ?cap0 > 0 then ?cap0 else ?fit) \<noteq> 0"
        by (auto split: if_splits)
      have pos: "?cap0 > 0"
        using c0 no_cap0_no_fit [OF split s] by (auto simp: floor_multiple_0 word_gt_0)
      have "(unat ?cap0 div 64 * 64 + unat ?cap1 div 64 * 64) * unat ?s
          \<le> (unat ?cap0 + unat ?cap1) * unat ?s"
        by (intro mult_le_mono1 add_mono floor64)
      also have "\<dots> \<le> unat b0 + unat b1"
        by (simp add: add_mult_distrib count_bytes_le add_mono)
      finally have "(unat ?cap0 div 64 * 64 + unat ?cap1 div 64 * 64) * unat ?s \<le> unat available"
        using avail by simp
      then show ?thesis
        using c0 pos by (auto simp: p' Some h unat_floor_multiple floor_multiple_0 only_planned_def avail
            simp del: floor64)
    qed
  qed
  then show "only_planned p p'" "64 dvd count0 p'" "64 dvd count1 p'" "64 \<le> count0 p'"
    "hugepages = Some (pages, sz) \<Longrightarrow>
      (count0 p' + count1 p') * unat (pkt_bytes p) \<le> unat pages - unat (reserved_bytes used)"
    "hugepages = None \<Longrightarrow> count0 p' = unat (wanted_pkts p) div 64 * 64 \<and> count1 p' = 0"
    by blast+
qed

subsection \<open>Opening a capture\<close>

definition roomy_size :: "packet list list \<Rightarrow> u32 \<Rightarrow> bool" where
  "roomy_size Rs m \<longleftrightarrow> (\<forall>r \<in> set (concat Rs). unat (incl_len (fst r)) \<le> pcap_room m)"

lemma fill_section:
  assumes "reader_at fs Rs n p" and "concat Rs \<noteq> []" and "roomy_size Rs (max_pkt_size p)"
    and "i = 0 \<or> i = 1 \<and> sec_mp (sections p 0) \<noteq> Some (pcap_pool pid 1)"
  shows "\<exists>p' pools'. pcap_fill_section fs True pid i p pools = Some (Inr (p', pools'))
    \<and> map pkt_data (pools' (pcap_pool pid i))
        = cyc_take (map snd (concat Rs)) n (unat (sec_pkt_count (sections p i)))
    \<and> reader_at fs Rs (n + unat (sec_pkt_count (sections p i))) p'
    \<and> section_ok Rs p' pools' i (pcap_pool pid i)
    \<and> sec_pkt_count (sections p' i) = sec_pkt_count (sections p i)
    \<and> sec_pkt_loaded (sections p' i) = sec_pkt_count (sections p i)
    \<and> sec_mp (sections p' i) = Some (pcap_pool pid i)
    \<and> same_control (if i = 0 then p\<lparr>pcap_mp := Some (pcap_pool pid 0)\<rparr> else p) p'
    \<and> (\<forall>j. j \<noteq> i \<longrightarrow> sections p' j = sections p j)
    \<and> (\<forall>q. q \<noteq> pcap_pool pid i \<longrightarrow> pools' q = pools q)"
proof -
  let ?mp = "pcap_pool pid i"
  let ?n = "unat (sec_pkt_count (sections p i))"
  let ?buf = "\<lparr>m_data = replicate (pcap_room (max_pkt_size p)) 0, m_pool = None,
     m_next = None, m_data_len = 0, m_pkt_len = 0, m_port = 0, m_ol_flags = 0\<rparr> :: mbuf"
  let ?p1 = "if i = 0 then p\<lparr>pcap_mp := Some ?mp\<rparr> else p"
  let ?p2 = "upd_section i (\<lambda>s. s\<lparr>sec_mp := Some ?mp\<rparr>) ?p1"
  let ?pools = "pools(?mp := replicate ?n ?buf)"
  have at: "reader_at fs Rs n ?p2"
    using assms(1) by (simp add: reader_at_upd_section) (simp add: reader_at_def)
  have ok: "section_ok Rs ?p2 ?pools i ?mp"
    using assms(3,4)
    by (auto simp: section_ok_def sec_simps pcap_section_from_mp_def list_all_iff roomy_def
        roomy_size_def)
  from load_section [OF at assms(2) ok] obtain p' pools' where
    *: "pcap_load_section fs ?p2 i ?pools = Some (Inr (p', pools'))"
      "map pkt_data (pools' ?mp) = cyc_take (map snd (concat Rs)) n ?n"
      "reader_at fs Rs (n + ?n) p'" "sec_pkt_loaded (sections p' i) = sec_pkt_count (sections p' i)"
      "section_ok Rs p' pools' i ?mp" "same_control ?p2 p'"
      "\<forall>j. j \<noteq> i \<longrightarrow> sections p' j = sections ?p2 j" "\<forall>q. q \<noteq> ?mp \<longrightarrow> pools' q = ?pools q"
    by auto
  have "length (pools' ?mp) = ?n" using arg_cong [OF *(2), of length] by simp
  with *(5) have "unat (sec_pkt_count (sections p' i)) = ?n" by (simp add: section_ok_def)
  then have cnt: "sec_pkt_count (sections p' i) = sec_pkt_count (sections p i)"
    by (simp add: word_unat_eq_iff)
  have "pcap_fill_section fs True pid i p pools = Some (Inr (p', pools'))"
    using *(1) by (simp add: pcap_fill_section_def rte_pktmbuf_pool_create_def Let_def pcap_room_def)
  then show ?thesis
    using * cnt by (auto simp: sec_simps section_ok_def)
qed

text \<open>Both sections together, with enough memory.\<close>

definition opened_ok :: "fs \<Rightarrow> packet list list \<Rightarrow> nat \<Rightarrow> pcap_info \<Rightarrow> pools \<Rightarrow> bool" where
  "opened_ok fs Rs pid p pools \<longleftrightarrow>
     section_ok Rs p pools 0 (pcap_pool pid 0)
     \<and> sec_pkt_loaded (sections p 0) = sec_pkt_count (sections p 0)
     \<and> map pkt_data (pools (pcap_pool pid 0)) = cyc_take (map snd (concat Rs)) 0 (count0 p)
     \<and> pcap_mp p = Some (pcap_pool pid 0)
     \<and> (if count1 p = 0 then sec_mp (sections p 1) = None \<and> sec_pkt_loaded (sections p 1) = 0
        else section_ok Rs p pools 1 (pcap_pool pid 1)
          \<and> sec_pkt_loaded (sections p 1) = sec_pkt_count (sections p 1)
          \<and> map pkt_data (pools (pcap_pool pid 1))
              = cyc_take (map snd (concat Rs)) (count0 p) (count1 p))
     \<and> reader_at fs Rs (count0 p + count1 p) p"

lemma section_ok_other:
  assumes "section_ok Rs p pools i mp" and "sections p' i = sections p i" and "pools' mp = pools mp"
    and "pcap_section_from_mp p' (Some mp) = Some i"
  shows "section_ok Rs p' pools' i mp"
  using assms by (simp add: section_ok_def)

lemma create_sections:
  assumes "reader_at fs Rs 0 p" and "concat Rs \<noteq> []" and "roomy_size Rs (max_pkt_size p)"
    and "env_pool env (pcap_pool pid 0)" and "env_pool env (pcap_pool pid 1)"
  shows "\<exists>p' pools'. pcap_create_sections fs env pid p pools = Some (Inr (p', pools'))
    \<and> opened_ok fs Rs pid p' pools' \<and> count0 p' = count0 p \<and> count1 p' = count1 p
    \<and> same_control (p\<lparr>pcap_mp := Some (pcap_pool pid 0)\<rparr>) p'"
proof -
  have pools: "pcap_pool pid 0 \<noteq> pcap_pool pid 1" by (simp add: pcap_pool_def)
  from fill_section [OF assms(1-3), of 0 pid pools] obtain p1 pools1 where
    1: "pcap_fill_section fs True pid 0 p pools = Some (Inr (p1, pools1))"
      "map pkt_data (pools1 (pcap_pool pid 0)) = cyc_take (map snd (concat Rs)) 0 (count0 p)"
      "reader_at fs Rs (count0 p) p1" "section_ok Rs p1 pools1 0 (pcap_pool pid 0)"
      "sec_pkt_count (sections p1 0) = sec_pkt_count (sections p 0)"
      "sec_pkt_loaded (sections p1 0) = sec_pkt_count (sections p 0)"
      "sec_mp (sections p1 0) = Some (pcap_pool pid 0)"
      "same_control (p\<lparr>pcap_mp := Some (pcap_pool pid 0)\<rparr>) p1"
      "\<forall>j. j \<noteq> 0 \<longrightarrow> sections p1 j = sections p j"
    by auto
  show ?thesis
  proof (cases "count1 p = 0")
    case True
    let ?p' = "upd_section 1 (\<lambda>s. s\<lparr>sec_mp := None, sec_pkt_loaded := 0\<rparr>) p1"
    have "sec_pkt_count (sections p1 1) = 0" using True 1(9) by (simp add: unat_eq_zero)
    then have "pcap_create_sections fs env pid p pools = Some (Inr (?p', pools1))"
      by (simp add: pcap_create_sections_def assms(4) 1(1))
    moreover have "section_ok Rs ?p' pools1 0 (pcap_pool pid 0)"
      using 1(4,7) by (auto simp: section_ok_def sec_simps pcap_section_from_mp_def)
    ultimately show ?thesis
      using True 1 by (auto simp: opened_ok_def sec_simps same_control_def)
  next
    case False
    have p1: "concat Rs \<noteq> []" "roomy_size Rs (max_pkt_size p1)"
      "(1::nat) = 0 \<or> (1::nat) = 1 \<and> sec_mp (sections p1 0) \<noteq> Some (pcap_pool pid 1)"
      using assms(2,3) 1(7,8) pools by (simp_all add: same_control_def)
    from fill_section [OF 1(3) p1, of pools1] obtain p2 pools2 where
      2: "pcap_fill_section fs True pid 1 p1 pools1 = Some (Inr (p2, pools2))"
        "map pkt_data (pools2 (pcap_pool pid 1)) = cyc_take (map snd (concat Rs)) (count0 p) (count1 p1)"
        "reader_at fs Rs (count0 p + count1 p1) p2" "section_ok Rs p2 pools2 1 (pcap_pool pid 1)"
        "sec_pkt_count (sections p2 1) = sec_pkt_count (sections p1 1)"
        "sec_pkt_loaded (sections p2 1) = sec_pkt_count (sections p1 1)"
        "same_control p1 p2" "sections p2 0 = sections p1 0"
        "pools2 (pcap_pool pid 0) = pools1 (pcap_pool pid 0)"
      using pools by auto
    have "section_ok Rs p2 pools2 0 (pcap_pool pid 0)"
      by (rule section_ok_other [where pools = pools1, OF 1(4) 2(8)])
        (use 1(7) 2(8,9) in \<open>simp_all add: pcap_section_from_mp_def\<close>)
    moreover have "pcap_create_sections fs env pid p pools = Some (Inr (p2, pools2))"
      using False 1(9) 2(1)
      by (simp add: pcap_create_sections_def assms(4) assms(5) [simplified] 1(1) word_gt_0 unat_eq_zero)
    moreover have "count1 p1 = count1 p" using 1(9) by simp
    ultimately show ?thesis
      using False 1 2 same_control_trans [OF 1(8) 2(7)]
      by (auto simp: opened_ok_def same_control_def)
  qed
qed

lemma only_planned_frame:
  assumes "only_planned p p'"
  shows "same_control p p'" "reader_at fs Rs n p' = reader_at fs Rs n p"
  using assms by (auto simp: only_planned_def set_counts_def set_budgets_def same_control_def sec_simps)

lemma join_all_length: "pcap_join_all d es = Inr ps \<Longrightarrow> length ps = length es"
  by (induction es arbitrary: ps) (auto split: option.splits sum.splits)

lemma prepare_ok:
  assumes "pcap_prepare_source_files fs p = Inr (rc, p1)"
  shows "rc = 0 \<and> source_file_count p1 = of_nat (length (source_files p1)) \<and> same_control p p1
     \<and> sections p1 = sections p"
  using assms join_all_length
  by (auto simp: pcap_prepare_source_files_def pcap_free_source_files_def Let_def same_control_def
      split: option.splits inode.splits sum.splits if_splits)

lemma total_len_roomy:
  assumes "\<forall>r \<in> set rs. unat (incl_len (fst r)) \<le> 65344" and "rs \<noteq> []"
  shows "unat (max_len 0 rs) \<le> 65344" "\<forall>r \<in> set rs. unat (incl_len (fst r)) \<le> unat (max_len 0 rs)"
  using assms(1) max_len_0_attained [OF assms(2)] max_len_upper [of 0 rs]
  by (auto simp: word_le_nat_alt)

subsection \<open>When the memory is too small\<close>

text \<open>
  The limits of the plan in unbounded numbers: the bytes of one buffer for packets of up to \<open>m\<close> bytes (its structure, the
  headroom, both aligned to 64, and the overhead of the pool), the reserve (one and a half times the huge pages of 2 MB that
  the used bytes fill, rounded up, and one page at least) and the memory that is left.
\<close>

definition buffer_bytes :: "nat \<Rightarrow> nat" where
  "buffer_bytes m = (128 + (m + 128 + 63) div 64 * 64 + 63) div 64 * 64 + 32"

definition pages_2mb :: "nat \<Rightarrow> nat" where
  "pages_2mb used = ((used + 1023) div 1024 + 2047) div 2048"

definition memory_left :: "nat \<Rightarrow> nat \<Rightarrow> nat" where
  "memory_left total_bytes used = total_bytes - max 1 ((3 * pages_2mb used + 1) div 2) * (2048 * 1024)"

lemma pkt_bytes_nat:
  assumes "unat (max_pkt_size p) \<le> 65344"
  shows "unat (pkt_bytes p) = buffer_bytes (unat (max_pkt_size p))"
proof -
  have "unat (max_pkt_size p + 128) = unat (max_pkt_size p) + 128"
    using assms unat_add_no_wrap [of "max_pkt_size p" 128] by simp
  then have "unat (pcap_dataroom (max_pkt_size p)) = (unat (max_pkt_size p) + 128 + 63) div 64 * 64"
    using assms unat_align [of "max_pkt_size p + 128"] by (simp add: pcap_dataroom_def pcap_limits)
  then show ?thesis unfolding per_pkt_bytes(1) buffer_bytes_def by (simp add: add.commute)
qed

lemma reserved_nat:
  assumes "unat used < 2 ^ 60"
  shows "unat (reserved_bytes used) = max 1 ((3 * pages_2mb (unat used) + 1) div 2) * (2048 * 1024)"
proof -
  have a: "unat (used + 1023) = unat used + 1023" using assms unat_add_no_wrap [of used 1023] by simp
  let ?kb = "(unat used + 1023) div 1024"
  have kb: "unat ((used + 1023) div 1024) = ?kb" using a by (simp add: unat_div)
  have kb_le: "?kb \<le> 2 ^ 50" using assms by simp
  have n0: "unat ((used + 1023) div 1024 + 2047) = ?kb + 2047"
    using kb kb_le unat_add_no_wrap [of "(used + 1023) div 1024" 2047] by simp
  let ?n = "pages_2mb (unat used)"
  have n: "unat (((used + 1023) div 1024 + 2047) div 2048) = ?n" using n0 by (simp add: unat_div pages_2mb_def)
  have n_le: "?n \<le> 2 ^ 40" using kb_le by (simp add: pages_2mb_def)
  let ?w = "((used + 1023) div 1024 + 2047) div 2048"
  have "unat (?w * 3) = ?n * 3" using n n_le unat_mult_lem [of ?w "3 :: u64"] by simp
  then have "unat (?w * 3 + 1) = ?n * 3 + 1" using n_le unat_add_no_wrap [of "?w * 3" 1] by simp
  then have b: "unat ((?w * 3 + 1) div 2) = (3 * ?n + 1) div 2" by (simp add: unat_div mult.commute)
  have eq: "pcap_get_baseline_hugepages used = (if (?w * 3 + 1) div 2 = 0 then 1 else (?w * 3 + 1) div 2)"
    by (simp add: pcap_get_baseline_hugepages_def PCAP_BASELINE_HUGEPAGE_SIZE_KB_def Let_def add.commute)
  have base: "unat (pcap_get_baseline_hugepages used) = max 1 ((3 * ?n + 1) div 2)"
    unfolding eq using b unat_eq_zero [of "(?w * 3 + 1) div 2"] by auto
  have base_le: "max 1 ((3 * ?n + 1) div 2) \<le> 2 ^ 41" using n_le by simp
  let ?b = "pcap_get_baseline_hugepages used"
  have "unat (?b * 2048) = unat ?b * 2048" using base base_le unat_mult_lem [of ?b "2048 :: u64"] by simp
  then have "unat (?b * 2048 * 1024) = unat ?b * 2048 * 1024" using base base_le unat_mult_lem [of "?b * 2048" "1024 :: u64"] by simp
  then show ?thesis by (simp add: base PCAP_BASELINE_HUGEPAGE_SIZE_KB_def)
qed

text \<open>
  The plan for known huge pages of less than a terabyte, where no number is cut: it needs room for one buffer, and for 64
  buffers in half of the memory when not all packets fit.
\<close>

lemma plan_exact:
  assumes "unat pages < 2 ^ 40" "unat used < 2 ^ 60" and m: "unat (max_pkt_size p) \<le> 65344"
    and left: "left = memory_left (unat pages) (unat used)" and b: "b = buffer_bytes (unat (max_pkt_size p))"
    and n: "n = max 4096 (unat (pkt_count p))"
  shows "left < b \<Longrightarrow> pcap_plan_sections (Some (pages, sz)) used p = Inl Exit_no_hugepages"
    and "b \<le> left \<Longrightarrow> left < n * b \<Longrightarrow> left div 2 < 64 * b \<Longrightarrow>
      pcap_plan_sections (Some (pages, sz)) used p = Inl Exit_section_too_small"
    and "n * b \<le> left \<Longrightarrow> \<exists>p'. pcap_plan_sections (Some (pages, sz)) used p = Inr p'
      \<and> count0 p' = n div 64 * 64 \<and> count1 p' = 0"
    and "left < n * b \<Longrightarrow> 64 * b \<le> left div 2 \<Longrightarrow> \<exists>p'. pcap_plan_sections (Some (pages, sz)) used p = Inr p'
      \<and> count0 p' = left div 2 div b div 64 * 64 \<and> count1 p' = (left - left div 2) div b div 64 * 64"
proof -
  obtain av b0 b1 where split: "pcap_split_section_budgets pages (reserved_bytes used) = (av, b0, b1)" by (metis prod.exhaust)
  note s = split_section_budgets [OF split]
  have av: "unat av = left" unfolding s(1) reserved_nat [OF assms(2)] left memory_left_def ..
  have b0: "unat b0 = left div 2" using s(2) av by (simp add: unat_div)
  have b1: "unat b1 = left - left div 2" using s(3) av b0 by simp
  have per: "unat (pkt_bytes p) = b" using pkt_bytes_nat [OF m] b by simp
  have "2 ^ 8 \<le> b" by (simp add: b buffer_bytes_def)
  moreover have "left < 2 ^ 40" using assms(1) by (simp add: left memory_left_def)
  ultimately have cut: "x div b < 2 ^ 32" if "x \<le> left" for x
    using that div_le_mono2 [of "2 ^ 8" b x] div_le_mono [of x "2 ^ 40 - 1" "2 ^ 8"] by simp
  have q: "unat (ucast (w div pkt_bytes p) :: u32) = unat w div b" if "unat w \<le> left" for w
    using cut [OF that] by (simp add: unat_ucast_64_32 unat_div per)
  have fit: "unat (ucast (av div pkt_bytes p) :: u32) = left div b" and cap0: "unat (ucast (b0 div pkt_bytes p) :: u32) = left div 2 div b"
    and cap1: "unat (ucast (b1 div pkt_bytes p) :: u32) = (left - left div 2) div b"
    using q [of av] q [of b0] q [of b1] av b0 b1 by simp_all
  have w: "unat (wanted_pkts p) = n" by (simp add: n word_less_nat_alt max_def)
  have bpos: "0 < b" using \<open>2 ^ 8 \<le> b\<close> by simp
  have le: "wanted_pkts p \<le> ucast (av div pkt_bytes p) \<longleftrightarrow> n * b \<le> left"
    unfolding word_le_nat_alt w fit using bpos by (simp add: less_eq_div_iff_mult_less_eq)
  have fit0: "(ucast (av div pkt_bytes p) :: u32) = 0 \<longleftrightarrow> left < b"
    using fit bpos by (simp add: unat_eq_zero [symmetric] div_eq_0_iff del: unat_eq_zero)
  have nb: "b \<le> n * b" by (simp add: n max_def)
  note plan = plan_info [OF split, of sz p, unfolded Let_def le fit0]
  have cap0_pos: "(0 :: u32) < ucast (b0 div pkt_bytes p) \<longleftrightarrow> b \<le> left div 2"
    using cap0 bpos by (simp add: word_less_nat_alt div_greater_zero_iff)
  {
    assume "left < b" then show "pcap_plan_sections (Some (pages, sz)) used p = Inl Exit_no_hugepages" using plan by simp
  next
    assume a: "b \<le> left" "left < n * b" "left div 2 < 64 * b"
    have "unat (if (0 :: u32) < ucast (b0 div pkt_bytes p) then ucast (b0 div pkt_bytes p) else ucast (av div pkt_bytes p) :: u32) < 64"
    proof (cases "b \<le> left div 2")
      case True
      then show ?thesis using cap0_pos cap0 a(3) bpos by (simp add: word_less_nat_alt div_less_iff_less_mult)
    next
      case False
      then have "left < 64 * b" by simp
      then show ?thesis using False cap0_pos fit bpos by (simp add: word_less_nat_alt div_less_iff_less_mult)
    qed
    then have "pcap_pkt_count_floor_multiple (if (0 :: u32) < ucast (b0 div pkt_bytes p) then ucast (b0 div pkt_bytes p)
        else ucast (av div pkt_bytes p)) = 0" by (simp only: floor_multiple_0)
    moreover have "\<not> left < b" "\<not> n * b \<le> left" using a by simp_all
    ultimately show "pcap_plan_sections (Some (pages, sz)) used p = Inl Exit_section_too_small"
      using plan by (simp only: if_True if_False simp_thms)
  next
    assume a: "n * b \<le> left"
    have "\<not> left < b" using a nb by linarith
    moreover have "pcap_pkt_count_floor_multiple (wanted_pkts p) \<noteq> 0" using w by (simp only: floor_multiple_0 word_less_nat_alt) (simp add: n)
    ultimately show "\<exists>p'. pcap_plan_sections (Some (pages, sz)) used p = Inr p' \<and> count0 p' = n div 64 * 64 \<and> count1 p' = 0"
      using a plan w by (simp only: if_True if_False) (simp add: unat_floor_multiple)
  next
    assume a: "left < n * b" "64 * b \<le> left div 2"
    have "64 \<le> left div 2 div b" using a(2) bpos by (simp add: less_eq_div_iff_mult_less_eq)
    then have nz: "pcap_pkt_count_floor_multiple (ucast (b0 div pkt_bytes p)) \<noteq> 0"
      using cap0 by (simp add: floor_multiple_0 word_less_nat_alt not_less)
    moreover have "b \<le> left div 2" "\<not> left < b" using a(2) bpos by simp_all
    ultimately show "\<exists>p'. pcap_plan_sections (Some (pages, sz)) used p = Inr p'
      \<and> count0 p' = left div 2 div b div 64 * 64 \<and> count1 p' = (left - left div 2) div b div 64 * 64"
      using a(1) plan cap0_pos cap0 cap1 by (simp add: unat_floor_multiple)
  }
qed

text \<open>
  The reference plan for \<open>n\<close> packets of \<open>b\<close> bytes: without knowledge of the memory one section for all of them; else one
  section when they fit, and two of half the memory when they do not, unless there is not even room for 64 packets.
\<close>

definition reference_plan :: "nat option \<Rightarrow> nat \<Rightarrow> nat \<Rightarrow> exit_reason + (nat \<times> nat)" where
  "reference_plan left_bytes n b =
     (case left_bytes of
        None \<Rightarrow> Inr (n div 64 * 64, 0)
      | Some left \<Rightarrow>
          if left < b then Inl Exit_no_hugepages
          else if n * b \<le> left then Inr (n div 64 * 64, 0)
          else if left div 2 < 64 * b then Inl Exit_section_too_small
          else Inr (left div 2 div b div 64 * 64, (left - left div 2) div b div 64 * 64))"

lemma plan_is_reference:
  assumes "\<forall>pages sz. hp = Some (pages, sz) \<longrightarrow> unat pages < 2 ^ 40" "unat used < 2 ^ 60" "unat (max_pkt_size p) \<le> 65344"
    and r: "reference_plan (map_option (\<lambda>(pages, _). memory_left (unat pages) (unat used)) hp)
      (max 4096 (unat (pkt_count p))) (buffer_bytes (unat (max_pkt_size p))) = r"
  shows "r = Inl e \<Longrightarrow> pcap_plan_sections hp used p = Inl e"
    and "r = Inr (c0, c1) \<Longrightarrow> \<exists>p'. pcap_plan_sections hp used p = Inr p' \<and> count0 p' = c0 \<and> count1 p' = c1"
proof -
  let ?n = "max 4096 (unat (pkt_count p))" and ?b = "buffer_bytes (unat (max_pkt_size p))"
  have w: "unat (wanted_pkts p) = ?n" by (simp add: word_less_nat_alt max_def)
  have goal: "(\<forall>e. r = Inl e \<longrightarrow> pcap_plan_sections hp used p = Inl e)
      \<and> (\<forall>c0 c1. r = Inr (c0, c1) \<longrightarrow> (\<exists>p'. pcap_plan_sections hp used p = Inr p' \<and> count0 p' = c0 \<and> count1 p' = c1))"
  proof (cases hp)
    case None
    have "pcap_pkt_count_floor_multiple (wanted_pkts p) \<noteq> 0"
      unfolding floor_multiple_0 w by simp
    then show ?thesis using r w by (auto simp: None reference_plan_def plan_no_info unat_floor_multiple split del: if_split)
  next
    case (Some x)
    obtain pages sz where hp: "hp = Some (pages, sz)" using Some by (cases x) simp
    have pages: "unat pages < 2 ^ 40" using assms(1) hp by blast
    let ?left = "memory_left (unat pages) (unat used)"
    note ex = plan_exact [OF pages assms(2,3) refl refl refl, of sz]
    consider "?left < ?b" | "?b \<le> ?left" "?n * ?b \<le> ?left" | "?b \<le> ?left" "?left < ?n * ?b" "?left div 2 < 64 * ?b"
      | "?b \<le> ?left" "?left < ?n * ?b" "64 * ?b \<le> ?left div 2" by linarith
    then show ?thesis
    proof cases
      case 1
      then show ?thesis using r ex(1) by (auto simp: hp reference_plan_def)
    next
      case 2
      then have "r = Inr (?n div 64 * 64, 0)" using r by (simp add: hp reference_plan_def)
      then show ?thesis using ex(3) [OF 2(2)] by (simp add: hp)
    next
      case 3
      then have "r = Inl Exit_section_too_small" using r by (simp add: hp reference_plan_def)
      then show ?thesis using ex(2) [OF 3] by (simp add: hp)
    next
      case 4
      then have "r = Inr (?left div 2 div ?b div 64 * 64, (?left - ?left div 2) div ?b div 64 * 64)"
        using r by (simp add: hp reference_plan_def)
      then show ?thesis using ex(4) [OF 4(2,3)] by (simp add: hp)
    qed
  qed
  then show "r = Inl e \<Longrightarrow> pcap_plan_sections hp used p = Inl e"
    and "r = Inr (c0, c1) \<Longrightarrow> \<exists>p'. pcap_plan_sections hp used p = Inr p' \<and> count0 p' = c0 \<and> count1 p' = c1"
    by blast+
qed

text \<open>The largest packet of a list.\<close>

definition largest :: "packet list \<Rightarrow> nat" where
  "largest rs = Max ((\<lambda>r. unat (incl_len (fst r))) ` set rs)"

lemma largest_eq: "rs \<noteq> [] \<Longrightarrow> unat (max_len 0 rs) = largest rs"
  unfolding largest_def using max_len_0_attained [of rs] max_len_upper [of 0 rs]
  by (intro Max_eqI [symmetric]) (auto simp: word_le_nat_alt intro!: rev_image_eqI)

lemma open_port:
  assumes "pcap_prepare_source_files fs p = Inr (rc, p1)" and "captures fs (source_files p1) Rs"
    and "length Rs < 2 ^ 32" and "concat Rs \<noteq> []" and "length (concat Rs) < 2 ^ 32"
    and "\<forall>r \<in> set (concat Rs). unat (incl_len (fst r)) \<le> 65344"
    and "\<forall>i. env_pool env (pcap_pool pid i)" and "env_thread env pid"
    and "\<forall>pages sz. get_total_hugepage_bytes (env_meminfo env) = Some (pages, sz) \<longrightarrow> unat pages < 2 ^ 40"
    and "unat (env_total_mem_used env) < 2 ^ 60"
  shows "case reference_plan (map_option (\<lambda>(pages, _). memory_left (unat pages) (unat (env_total_mem_used env)))
           (get_total_hugepage_bytes (env_meminfo env))) (max 4096 (length (concat Rs))) (buffer_bytes (largest (concat Rs))) of
      Inl e \<Rightarrow> pcap_open_port fs env pid p pools t = Some (Inl e)
    | Inr (c0, c1) \<Rightarrow> (\<exists>p' pools'. pcap_open_port fs env pid p pools t
           = Some (Inr (p', pools', snd (l2p_set_pcap_info t pid (Some pid))))
         \<and> opened_ok fs Rs pid p' pools' \<and> unat (pkt_count p') = length (concat Rs)
         \<and> count0 p' = c0 \<and> count1 p' = c1 \<and> 64 dvd c0 \<and> 64 dvd c1 \<and> 64 \<le> c0
         \<and> active_section_idx p' = active_section_idx p \<and> pkt_index p' = pkt_index p
         \<and> reload_request p' = reload_request p \<and> reload_in_progress p' = reload_in_progress p
         \<and> section_locked p' = section_locked p)"
proof -
  note prep = prepare_ok [OF assms(1)]
  have "source_file_count p1 = of_nat (length Rs)"
    using prep captures_length [OF assms(2)] by simp
  from get_info [OF assms(2,4) this assms(3,5)] obtain i c a st conv where
    info: "pcap_get_info fs p1 = Inr (p1\<lparr>info := i, convert := c,
        pkt_count := of_nat (length (concat Rs)), max_pkt_size := max_len 0 (concat Rs),
        avg_pkt_size := a, fp := Some st, source_file_index := 0, source_convert := conv\<rparr>)"
    and at: "reader_at fs Rs 0 (p1\<lparr>info := i, convert := c,
        pkt_count := of_nat (length (concat Rs)), max_pkt_size := max_len 0 (concat Rs),
        avg_pkt_size := a, fp := Some st, source_file_index := 0, source_convert := conv\<rparr>)" .
  define p2 where "p2 = p1\<lparr>info := i, convert := c,
        pkt_count := of_nat (length (concat Rs)), max_pkt_size := max_len 0 (concat Rs),
        avg_pkt_size := a, fp := Some st, source_file_index := 0, source_convert := conv\<rparr>"
  let ?hp = "get_total_hugepage_bytes (env_meminfo env)"
  have start: "pcap_open_port fs env pid p pools t =
     (case pcap_plan_sections ?hp (env_total_mem_used env) p2 of
        Inl e \<Rightarrow> Some (Inl e)
      | Inr p3 \<Rightarrow>
          (case pcap_create_sections fs env pid p3 pools of
             None \<Rightarrow> None
           | Some (Inl e) \<Rightarrow> Some (Inl e)
           | Some (Inr (p4, pools4)) \<Rightarrow> Some (Inr (p4, pools4, snd (l2p_set_pcap_info t pid (Some pid))))))"
    by (simp only: pcap_open_port_def assms(1) sum.case prod.case info [folded p2_def]
        conjunct1 [OF prep] assms(8) not_True_eq_False if_False less_irrefl)
  have big: "unat (max_pkt_size p2) = largest (concat Rs)" "unat (pkt_count p2) = length (concat Rs)"
    using largest_eq [OF assms(4)] assms(5) by (simp_all add: p2_def unat_of_nat_small)
  have "unat (max_pkt_size p2) \<le> 65344" using total_len_roomy(1) [OF assms(6,4)] by (simp add: p2_def)
  note plan_ref = plan_is_reference [OF assms(9,10) this refl, unfolded big]
  show ?thesis
  proof (cases "reference_plan (map_option (\<lambda>(pages, _). memory_left (unat pages) (unat (env_total_mem_used env))) ?hp)
      (max 4096 (length (concat Rs))) (buffer_bytes (largest (concat Rs)))")
    case (Inl e)
    then show ?thesis using start plan_ref(1) [OF Inl] by simp
  next
    case ref: (Inr cs)
    obtain c0 c1 where cs: "cs = (c0, c1)" by (cases cs)
    obtain p3 where Inr: "pcap_plan_sections ?hp (env_total_mem_used env) p2 = Inr p3" and counts: "count0 p3 = c0" "count1 p3 = c1"
      using plan_ref(2) [OF ref [unfolded cs]] by blast
    note plan = plan_sections(1-4) [OF Inr]
    note frame = only_planned_frame [OF plan(1)]
    have m: "max_pkt_size p3 = max_len 0 (concat Rs)"
      using frame(1) by (simp add: same_control_def p2_def)
    have "unat (max_len 0 (concat Rs)) \<le> pcap_room (max_len 0 (concat Rs))"
      using total_len_roomy(1) [OF assms(6,4)] by (simp add: room_iff)
    with total_len_roomy(2) [OF assms(6,4)] have roomy: "roomy_size Rs (max_pkt_size p3)"
      unfolding roomy_size_def m by (blast intro: order_trans)
    have at3: "reader_at fs Rs 0 p3" using at frame(2) by (simp add: p2_def)
    from create_sections [OF at3 assms(4) roomy] assms(7) obtain p' pools' where
      created: "pcap_create_sections fs env pid p3 pools = Some (Inr (p', pools'))"
        "opened_ok fs Rs pid p' pools'" "count0 p' = count0 p3" "count1 p' = count1 p3"
        "same_control (p3\<lparr>pcap_mp := Some (pcap_pool pid 0)\<rparr>) p'" by blast
    have "unat (pkt_count p') = length (concat Rs)"
      using frame(1) created(5) assms(5) by (simp add: same_control_def p2_def unat_of_nat_small)
    then show ?thesis
      unfolding ref cs using start Inr created plan frame(1) prep counts
      by (simp add: same_control_def p2_def)
  qed
qed

subsection \<open>Properties\<close>

text \<open>
  C6 Sizes of the sections: whenever the plan of a capture goes through, both sections hold a
  multiple of 64 packets, the first at least 64; when the size of the huge page memory is known, the
  memory for the packets of both sections together stays within what is left after the reserve, in
  spite of the cut of the capacities to 32 bits; when it is not known, all packets (at least 4096)
  go to the first section.
\<close>

theorem plan_sections_correct:
  assumes "pcap_plan_sections hugepages used p = Inr p'"
  shows "64 dvd count0 p' \<and> 64 dvd count1 p' \<and> 64 \<le> count0 p'
    \<and> (\<forall>pages sz. hugepages = Some (pages, sz) \<longrightarrow>
          (count0 p' + count1 p') * unat (pkt_bytes p) \<le> unat pages - unat (reserved_bytes used))
    \<and> (hugepages = None \<longrightarrow> count0 p' = unat (wanted_pkts p) div 64 * 64 \<and> count1 p' = 0)
    \<and> same_control p p'"
  using plan_sections [OF assms] only_planned_frame(1) by blast

definition sample_scan :: pcap_info where
  "sample_scan = pcap_zero\<lparr>pkt_count := 100000, max_pkt_size := 1500\<rparr>"

theorem plan_sections_correct_witness:
  "(\<exists>p'. pcap_plan_sections None 0 sample_scan = Inr p' \<and> count0 p' = 99968 \<and> count1 p' = 0)
   \<and> (\<exists>p'. pcap_plan_sections (Some (0x8000000, 0x200000)) 0 sample_scan = Inr p' \<and> 64 \<le> count0 p' \<and> 64 dvd count1 p'
        \<and> (count0 p' + count1 p') * unat (pkt_bytes sample_scan) \<le> 0x7E00000)"
proof -
  have "pcap_pkt_count_floor_multiple (wanted_pkts sample_scan) \<noteq> 0"
    by (simp add: floor_multiple_0 sample_scan_def)
  then obtain p' where p': "pcap_plan_sections None 0 sample_scan = Inr p'"
    unfolding plan_no_info by auto
  have "case pcap_plan_sections (Some (0x8000000, 0x200000)) 0 sample_scan of Inr _ \<Rightarrow> True | Inl _ \<Rightarrow> False"
    by code_simp
  then obtain p2 where p2: "pcap_plan_sections (Some (0x8000000, 0x200000)) 0 sample_scan = Inr p2"
    by (auto split: sum.splits)
  have r: "unat (reserved_bytes 0) = 0x200000"
    by (simp add: pcap_get_baseline_hugepages_def pcap_limits)
  show ?thesis
    using plan_sections_correct [OF p'] p' plan_sections_correct [OF p2] p2 r by (simp add: sample_scan_def)
qed

text \<open>
  Large packets: the buffers of a section have room for the largest packet of the capture
  exactly when it has at most 65344 bytes. Beyond that the data room, cut to 16 bits when the pool
  is created, is smaller than the packet that the load then writes into it.
\<close>

lemma pool_room_iff:
  "(\<forall>m \<in> set (the (rte_pktmbuf_pool_create True n (ucast (pcap_dataroom sz)))).
      unat sz \<le> length (m_data m)) \<longleftrightarrow> n = 0 \<or> unat sz \<le> 65344"
proof -
  have "n = 0 \<longleftrightarrow> unat n = 0" by (simp add: unat_eq_zero)
  then show ?thesis
    using room_iff [of sz]
    by (auto simp: rte_pktmbuf_pool_create_def pcap_room_def)
qed

lemma pool_room_iff_example:
  "\<not> (\<forall>m \<in> set (the (rte_pktmbuf_pool_create True 64 (ucast (pcap_dataroom 65345)))).
      unat (65345 :: u32) \<le> length (m_data m))"
  unfolding pool_room_iff [of 64 65345] by simp

text \<open>
  C5 Opening a port: for a source of complete captures with at least one packet and no packet larger than 65344 bytes, with
  the pools and the thread available and less than a terabyte of huge pages, opening does what the reference plan says. It
  ends the process exactly when the huge pages are known and the memory left after the reserve has no room for one buffer
  of the largest packet, or neither room for all packets (4096 at least) nor for 64 buffers in its half. Otherwise the
  sections have the sizes of the plan, the first holds the first packets of the source, the second, when there is one, the
  packets that follow them, both are marked as loaded, and the reader stands after the last packet that was loaded.
\<close>

theorem open_port_correct:
  assumes "pcap_prepare_source_files fs p = Inr (rc, p1)" and "captures fs (source_files p1) Rs"
    and "length Rs < 2 ^ 32" and "concat Rs \<noteq> []" and "length (concat Rs) < 2 ^ 32"
    and "\<forall>r \<in> set (concat Rs). unat (incl_len (fst r)) \<le> 65344"
    and "\<forall>i. env_pool env (pcap_pool pid i)" and "env_thread env pid"
    and "\<forall>pages sz. get_total_hugepage_bytes (env_meminfo env) = Some (pages, sz) \<longrightarrow> unat pages < 2 ^ 40"
    and "unat (env_total_mem_used env) < 2 ^ 60"
  shows "case reference_plan (map_option (\<lambda>(pages, _). memory_left (unat pages) (unat (env_total_mem_used env)))
           (get_total_hugepage_bytes (env_meminfo env))) (max 4096 (length (concat Rs))) (buffer_bytes (largest (concat Rs))) of
      Inl e \<Rightarrow> pcap_open_port fs env pid p pools t = Some (Inl e)
    | Inr (c0, c1) \<Rightarrow> (\<exists>p' pools'. pcap_open_port fs env pid p pools t
           = Some (Inr (p', pools', snd (l2p_set_pcap_info t pid (Some pid))))
         \<and> opened_ok fs Rs pid p' pools' \<and> unat (pkt_count p') = length (concat Rs)
         \<and> count0 p' = c0 \<and> count1 p' = c1 \<and> 64 dvd c0 \<and> 64 dvd c1 \<and> 64 \<le> c0
         \<and> active_section_idx p' = active_section_idx p \<and> pkt_index p' = pkt_index p
         \<and> reload_request p' = reload_request p \<and> reload_in_progress p' = reload_in_progress p
         \<and> section_locked p' = section_locked p)"
  using assms by (rule open_port)

definition sample_env :: pcap_env where
  "sample_env = \<lparr>env_meminfo = None, env_total_mem_used = 0, env_pool = (\<lambda>_. True),
     env_thread = (\<lambda>_. True)\<rparr>"

definition sample_added :: pcap_info where
  "sample_added = (case pktgen_pcap_add (Some ''s.pcap'') 0 (\<lambda>_. None) of
     Inr (_, lst) \<Rightarrow> the (lst 0) | Inl _ \<Rightarrow> pcap_zero)"

text \<open>A machine with so many huge pages of 2 MB.\<close>

definition huge_env :: "string \<Rightarrow> pcap_env" where
  "huge_env n = sample_env\<lparr>env_meminfo := Some [''MemTotal: 16384 kB'', ''HugePages_Total: '' @ n, ''Hugepagesize: 2048 kB'']\<rparr>"

lemma huge_bytes:
  "get_total_hugepage_bytes (env_meminfo (huge_env ''64'')) = Some (0x8000000, 0x200000)"
  "get_total_hugepage_bytes (env_meminfo (huge_env ''1'')) = Some (0x200000, 0x200000)"
  by (simp_all add: huge_env_def get_total_hugepage_bytes_def sscanf_lu_def is_space_def digit_val_def Let_def)

lemma sample_bytes: "buffer_bytes (largest sample_packets) = 352" "length sample_packets = 3" "pages_2mb 0 = 0"
  by (simp_all add: largest_def sample_packets_def written_packet_def small_mbuf_def buffer_bytes_def pages_2mb_def)

theorem open_port_correct_witness:
  "(\<exists>p' pools'. pcap_open_port sample_fs (huge_env ''64'') 0 sample_added (\<lambda>_. []) l2p_zero
       = Some (Inr (p', pools', snd (l2p_set_pcap_info l2p_zero 0 (Some 0))))
     \<and> opened_ok sample_fs [sample_packets] 0 p' pools' \<and> count0 p' = 4096)
   \<and> pcap_open_port sample_fs (huge_env ''1'') 0 sample_added (\<lambda>_. []) l2p_zero = Some (Inl Exit_no_hugepages)"
proof -
  have name: "filename sample_added = ''s.pcap''" "source_files sample_added = []"
    by (simp_all add: sample_added_def pktgen_pcap_add_def pcap_zero_def)
  have prep: "pcap_prepare_source_files sample_fs sample_added
      = Inr (0, sample_added\<lparr>source_files := [''s.pcap''], source_file_count := 1\<rparr>)"
    by (simp add: pcap_prepare_source_files_def pcap_free_source_files_def name sample_fs_def)
  have small: "\<forall>r \<in> set (concat [sample_packets]). unat (incl_len (fst r)) \<le> 65344"
    by (simp add: sample_packets_def written_packet_def small_mbuf_def)
  have env: "env_pool (huge_env n) i" "env_thread (huge_env n) pid" "env_total_mem_used (huge_env n) = 0" for n i pid
    by (simp_all add: huge_env_def sample_env_def)
  note open_it = open_port_correct [OF prep _ _ sample_nonempty(1) _ small, where pid = 0 and pools = "\<lambda>_. []" and t = l2p_zero]
  show ?thesis
    using open_it [of "huge_env ''64''"] open_it [of "huge_env ''1''"] sample_captures
    by (auto simp: env huge_bytes sample_bytes reference_plan_def memory_left_def)
qed

text \<open>
  The packets that fit are counted in 32 bits: with exactly 2 to the 32 times the bytes of a buffer left, some terabytes, the
  count is zero and the program ends for want of huge pages.
\<close>

lemma capacity_cut:
  assumes "pcap_split_section_budgets pages (reserved_bytes used) = (available, b0, b1)"
    and "unat available div unat (pkt_bytes p) = 2 ^ 32"
  shows "pcap_plan_sections (Some (pages, sz)) used p = Inl Exit_no_hugepages"
proof -
  have "unat (available div pkt_bytes p) = 2 ^ 32" using assms(2) by (simp add: unat_div)
  then have "unat (ucast (available div pkt_bytes p) :: u32) = 0" by (simp add: unsigned_ucast_eq take_bit_eq_mod)
  then show ?thesis using plan_info [OF assms(1)] by (simp add: unat_eq_zero)
qed

text \<open>
  The end of a capture that fits: when all packets (at least 4096) fit into the memory, only one
  section is made, which is never loaded again; its packet count is cut to a multiple of 64, so the
  last \<open>n mod 64\<close> packets of the capture are in no buffer.
\<close>

lemma one_section_cuts_tail:
  assumes "pcap_split_section_budgets pages (reserved_bytes used) = (available, b0, b1)"
    and "4096 \<le> unat (pkt_count p)"
    and "unat (pkt_count p) \<le> unat (ucast (available div pkt_bytes p) :: u32)"
  shows "\<exists>p'. pcap_plan_sections (Some (pages, sz)) used p = Inr p'
    \<and> count0 p' = unat (pkt_count p) - unat (pkt_count p) mod 64 \<and> count1 p' = 0"
proof -
  have w: "wanted_pkts p = pkt_count p" using assms(2) by (simp add: word_less_nat_alt)
  have fit: "(ucast (available div pkt_bytes p) :: u32) \<noteq> 0"
  proof
    assume "(ucast (available div pkt_bytes p) :: u32) = 0"
    then have "unat (ucast (available div pkt_bytes p) :: u32) = 0" by (simp only: unat_0)
    with assms(2,3) show False by simp
  qed
  have le: "pkt_count p \<le> ucast (available div pkt_bytes p)"
    using assms(3) by (simp only: word_le_nat_alt)
  have "pcap_pkt_count_floor_multiple (pkt_count p) \<noteq> 0"
    using assms(2) by (simp add: floor_multiple_0)
  then have "pcap_plan_sections (Some (pages, sz)) used p =
      Inr (set_counts (pcap_pkt_count_floor_multiple (pkt_count p)) 0 (set_budgets available 0 p))"
    using fit le by (simp only: plan_info [OF assms(1)] Let_def w if_False if_True)
  then show ?thesis by (simp add: unat_floor_multiple minus_mod_eq_div_mult)
qed

lemma one_section_cuts_tail_example:
  "\<exists>p'. pcap_plan_sections (Some (0x40000000, 0x200000)) 0 sample_scan = Inr p'
     \<and> count0 p' = 99968 \<and> count1 p' = 0"
proof -
  have split: "pcap_split_section_budgets 0x40000000 (reserved_bytes 0) = (0x3fe00000, 0x1ff00000, 0x1ff00000)"
    by (simp add: pcap_split_section_budgets_def pcap_get_baseline_hugepages_def pcap_limits)
  have bytes: "unat (pkt_bytes sample_scan) = 1824"
    by (simp add: per_pkt_bytes sample_scan_def pcap_dataroom_def pcap_limits rte_align_ceil_def)
  have "unat (ucast (0x3fe00000 div pkt_bytes sample_scan) :: u32) = 587524"
    by (simp add: unat_ucast_64_32 unat_div bytes)
  with one_section_cuts_tail [OF split, where p = sample_scan and sz = "0x200000"] show ?thesis
    by (simp add: sample_scan_def)
qed

end
