(* ===== verification/PcapReload.thy ===== *)
theory PcapReload
  imports PcapSections
begin

text \<open>
  The two sections at run time: the thread that reloads a section in the background
  (\<open>pcap_reload_worker\<close> of \<open>app/pktgen-pcap.c\<close>) and the thread that sends packets from the
  active section and switches to the other one (\<open>pktgen_send_pkts\<close> of \<open>app/pktgen.c\<close>), as steps on a shared
  state. A step is what a thread does without another thread being able to see or change the state in between:
  the code between a lock of the mutex and the next access to something that is changed without the mutex.
  One port with one transmit queue is modelled. The third actor is the network device, which
  reads the data of a buffer some time after it was given to it and then returns the buffer to its pool.
\<close>

subsection \<open>The state\<close>

datatype thread = Worker | Tx

datatype wk_pc = WK_lock | WK_while | WK_wait bool | WK_begin nat | WK_load nat nat | WK_finish nat | WK_exit

datatype tx_pc = TX_start | TX_request nat | TX_while_loaded nat | TX_wait_loaded nat bool
  | TX_while_locked nat | TX_wait_locked nat bool | TX_switch nat | TX_send

text \<open>
  The flag of a waiting state says that the thread was woken by a signal. \<open>s_mp\<close> is the argument
  \<open>mp\<close> of \<open>pktgen_send_pkts\<close>, \<open>s_free\<close> the free buffers of the pools in the order in which the ring of
  the pool returns them, \<open>s_flying\<close> the buffers that the device holds, \<open>s_wire\<close> the
  packets that were sent.
\<close>

record sys =
  s_pcap :: pcap_info
  s_pools :: pools
  s_owner :: "thread option"
  s_wk :: wk_pc
  s_tx :: tx_pc
  s_mp :: "nat option"
  s_free :: "nat \<Rightarrow> nat list"
  s_flying :: "(nat \<times> nat) list"
  s_wire :: "u8 list list"
  s_exit :: "exit_reason option"

definition next_section :: "nat \<Rightarrow> nat" where "next_section idx = (idx + 1) mod PCAP_NUM_SECTIONS"

text \<open>The pool of the active section, \<open>l2p_get_pcap_mp\<close> of a port that has a capture.\<close>

definition l2p_get_pcap_mp :: "pcap_info \<Rightarrow> nat option" where
  "l2p_get_pcap_mp p =
     (let idx = active_section_idx p in
      if idx < PCAP_NUM_SECTIONS \<and> sec_mp (sections p idx) \<noteq> None then sec_mp (sections p idx)
      else pcap_mp p)"

abbreviation on_pcap :: "(pcap_info \<Rightarrow> pcap_info) \<Rightarrow> sys \<Rightarrow> sys" where
  "on_pcap f s \<equiv> s\<lparr>s_pcap := f (s_pcap s)\<rparr>"

text \<open>\<open>pthread_cond_signal\<close> and \<open>pthread_cond_broadcast\<close> on the two conditions.\<close>

fun wk_woken :: "wk_pc \<Rightarrow> wk_pc" where
  "wk_woken (WK_wait _) = WK_wait True"
| "wk_woken wk = wk"

fun tx_woken :: "tx_pc \<Rightarrow> tx_pc" where
  "tx_woken (TX_wait_loaded i _) = TX_wait_loaded i True"
| "tx_woken (TX_wait_locked i _) = TX_wait_locked i True"
| "tx_woken tx = tx"

definition signal_reload :: "sys \<Rightarrow> sys" where
  "signal_reload s = s\<lparr>s_wk := wk_woken (s_wk s)\<rparr>"

definition broadcast_done :: "sys \<Rightarrow> sys" where
  "broadcast_done s = s\<lparr>s_tx := tx_woken (s_tx s)\<rparr>"

definition lock_section :: "nat \<Rightarrow> int \<Rightarrow> pcap_info \<Rightarrow> pcap_info" where
  "lock_section i v p = p\<lparr>section_locked := (section_locked p)(i := v)\<rparr>"

subsection \<open>The reload thread\<close>

text \<open>The start of \<open>pcap_load_section\<close>, up to the iteration over the buffers.\<close>

definition load_begin :: "nat \<Rightarrow> stream \<Rightarrow> pcap_info \<Rightarrow> pcap_info" where
  "load_begin i st p =
     (let p1 = upd_section i (\<lambda>s. s\<lparr>file_offset_begin := ftell st\<rparr>) p;
          p2 = upd_section i (\<lambda>s. s\<lparr>chunk_id := next_chunk_id p1\<rparr>) p1
      in upd_section i pcap_section_reset (p2\<lparr>next_chunk_id := next_chunk_id p2 + 1\<rparr>))"

definition pcap_reload_worker :: "fs \<Rightarrow> sys \<Rightarrow> sys option" where
  "pcap_reload_worker fs s =
     (if s_exit s \<noteq> None then None
      else case s_wk s of
        WK_lock \<Rightarrow> if s_owner s = None then Some (s\<lparr>s_owner := Some Worker, s_wk := WK_while\<rparr>) else None
      | WK_while \<Rightarrow>
          if reload_request (s_pcap s) < 0 then Some (s\<lparr>s_owner := None, s_wk := WK_wait False\<rparr>)
          else if reload_request (s_pcap s) = -2 then Some (s\<lparr>s_owner := None, s_wk := WK_exit\<rparr>)
          else let section_idx = nat (reload_request (s_pcap s))
               in Some (on_pcap (\<lambda>p. p\<lparr>reload_request := -1, reload_in_progress := int section_idx\<rparr>)
                         (s\<lparr>s_owner := None, s_wk := WK_begin section_idx\<rparr>))
      | WK_wait woken \<Rightarrow>
          if woken \<and> s_owner s = None then Some (s\<lparr>s_owner := Some Worker, s_wk := WK_while\<rparr>) else None
      | WK_begin i \<Rightarrow>
          (case sec_mp (sections (s_pcap s) i) of
             None \<Rightarrow> Some (s\<lparr>s_wk := WK_finish i\<rparr>)
           | Some mp \<Rightarrow>
               (case fp (s_pcap s) of
                  None \<Rightarrow> Some (s\<lparr>s_exit := Some Fault_null_stream\<rparr>)
                | Some st \<Rightarrow> Some (on_pcap (load_begin i st) (s\<lparr>s_wk := WK_load i 0\<rparr>))))
      | WK_load i k \<Rightarrow>
          (case sec_mp (sections (s_pcap s) i) of
             None \<Rightarrow> None
           | Some mp \<Rightarrow>
               if k < length (s_pools s mp) then
                 (case mbuf_iterate_cb fs mp (s_pcap s) (s_pools s mp ! k) of
                    None \<Rightarrow> None
                  | Some (Inl e) \<Rightarrow> Some (s\<lparr>s_exit := Some e\<rparr>)
                  | Some (Inr (p, m)) \<Rightarrow>
                      Some (s\<lparr>s_pcap := p, s_pools := (s_pools s)(mp := (s_pools s mp)[k := m]),
                              s_wk := WK_load i (k + 1)\<rparr>))
               else
                 (case fp (s_pcap s) of
                    None \<Rightarrow> Some (s\<lparr>s_exit := Some Fault_null_stream\<rparr>)
                  | Some st \<Rightarrow>
                      Some (on_pcap (upd_section i (\<lambda>x. x\<lparr>file_offset_end := ftell st\<rparr>))
                              (s\<lparr>s_wk := WK_finish i\<rparr>))))
      | WK_finish i \<Rightarrow>
          if s_owner s = None
          then Some (broadcast_done (on_pcap (\<lambda>p. (lock_section i 0 p)\<lparr>reload_in_progress := -1\<rparr>)
                       (s\<lparr>s_wk := WK_lock\<rparr>)))
          else None
      | WK_exit \<Rightarrow> None)"

subsection \<open>The sending thread\<close>

text \<open>
  One call of \<open>pktgen_send_pkts\<close> for queue 0 of a port in capture mode; \<open>burst\<close> is the
  number of packets of the call. \<open>TX_start\<close> to \<open>TX_switch\<close> are the part
  under the mutex.
\<close>

definition send_burst :: "nat \<Rightarrow> nat option \<Rightarrow> sys \<Rightarrow> sys" where
  "send_burst burst mp s =
     (case mp of
        None \<Rightarrow> s
      | Some q \<Rightarrow>
          if burst \<le> length (s_free s q) then
            on_pcap (\<lambda>p. p\<lparr>pkt_index := pkt_index p + of_nat burst\<rparr>)
              (s\<lparr>s_free := (s_free s)(q := drop burst (s_free s q)),
                 s_flying := s_flying s @ map (Pair q) (take burst (s_free s q))\<rparr>)
          else s)"

definition pktgen_send_pkts :: "nat \<Rightarrow> sys \<Rightarrow> sys option" where
  "pktgen_send_pkts burst s =
     (if s_exit s \<noteq> None then None
      else case s_tx s of
        TX_start \<Rightarrow>
          if s_owner s \<noteq> None then None
          else
            let p = s_pcap s; idx = active_section_idx p; nxt = next_section idx;
                s1 = s\<lparr>s_mp := l2p_get_pcap_mp p\<rparr>
            in if idx < PCAP_NUM_SECTIONS \<and> pkt_index p \<ge> sec_pkt_loaded (sections p idx)
                  \<and> sec_mp (sections p nxt) \<noteq> None
               then if sec_pkt_loaded (sections p nxt) = 0
                    then Some (s1\<lparr>s_owner := Some Tx, s_tx := TX_request idx\<rparr>)
                    else Some (s1\<lparr>s_owner := Some Tx, s_tx := TX_while_locked idx\<rparr>)
               else Some (s1\<lparr>s_tx := TX_send\<rparr>)
      | TX_request idx \<Rightarrow>
          let p = s_pcap s; nxt = next_section idx
          in if reload_request p < 0 \<and> reload_in_progress p < 0 \<and> section_locked p nxt = 0
             then Some (signal_reload (on_pcap (\<lambda>p. (lock_section nxt 1 p)\<lparr>reload_request := int nxt\<rparr>)
                    (s\<lparr>s_tx := TX_while_loaded idx\<rparr>)))
             else Some (s\<lparr>s_tx := TX_while_loaded idx\<rparr>)
      | TX_while_loaded idx \<Rightarrow>
          if sec_pkt_loaded (sections (s_pcap s) (next_section idx)) = 0
          then Some (s\<lparr>s_owner := None, s_tx := TX_wait_loaded idx False\<rparr>)
          else Some (s\<lparr>s_tx := TX_switch idx\<rparr>)
      | TX_wait_loaded idx woken \<Rightarrow>
          if woken \<and> s_owner s = None then Some (s\<lparr>s_owner := Some Tx, s_tx := TX_while_loaded idx\<rparr>) else None
      | TX_while_locked idx \<Rightarrow>
          if section_locked (s_pcap s) (next_section idx) \<noteq> 0
          then Some (s\<lparr>s_owner := None, s_tx := TX_wait_locked idx False\<rparr>)
          else Some (s\<lparr>s_tx := TX_switch idx\<rparr>)
      | TX_wait_locked idx woken \<Rightarrow>
          if woken \<and> s_owner s = None then Some (s\<lparr>s_owner := Some Tx, s_tx := TX_while_locked idx\<rparr>) else None
      | TX_switch idx \<Rightarrow>
          let s1 = on_pcap (\<lambda>p. (lock_section idx 1 p)\<lparr>active_section_idx := next_section idx,
                       pkt_index := 0, reload_request := int idx\<rparr>) s
          in Some (signal_reload (s1\<lparr>s_mp := l2p_get_pcap_mp (s_pcap s1), s_owner := None,
                       s_tx := TX_send\<rparr>))
      | TX_send \<Rightarrow> Some (send_burst burst (s_mp s) (s\<lparr>s_tx := TX_start\<rparr>)))"

subsection \<open>The device, and the system\<close>

definition nic_step :: "sys \<Rightarrow> sys option" where
  "nic_step s =
     (if s_exit s \<noteq> None then None
      else case s_flying s of
        [] \<Rightarrow> None
      | (q, k) # rest \<Rightarrow>
          Some (s\<lparr>s_flying := rest, s_wire := s_wire s @ [pkt_data (s_pools s q ! k)],
                  s_free := (s_free s)(q := s_free s q @ [k])\<rparr>))"

text \<open>A wait on a condition may also end without a signal.\<close>

definition spurious :: "thread \<Rightarrow> sys \<Rightarrow> sys" where
  "spurious t s = (case t of Worker \<Rightarrow> signal_reload s | Tx \<Rightarrow> broadcast_done s)"

inductive step :: "fs \<Rightarrow> nat \<Rightarrow> sys \<Rightarrow> sys \<Rightarrow> bool" for fs burst where
  worker: "pcap_reload_worker fs s = Some s' \<Longrightarrow> step fs burst s s'"
| tx: "pktgen_send_pkts burst s = Some s' \<Longrightarrow> step fs burst s s'"
| nic: "nic_step s = Some s' \<Longrightarrow> step fs burst s s'"
| wake: "step fs burst s (spurious t s)"

inductive_cases step_cases: "step fs burst s s'"

inductive reachable :: "fs \<Rightarrow> nat \<Rightarrow> sys \<Rightarrow> sys \<Rightarrow> bool" for fs burst s0 where
  init: "reachable fs burst s0 s0"
| step: "reachable fs burst s0 s \<Longrightarrow> step fs burst s s' \<Longrightarrow> reachable fs burst s0 s'"

subsection \<open>Stopping the thread, and reloading on request\<close>

text \<open>The part of \<open>pcap_reload_thread_stop\<close> before \<open>pthread_join\<close>, which returns in \<open>WK_exit\<close>.\<close>

definition pcap_reload_thread_stop :: "sys \<Rightarrow> sys option" where
  "pcap_reload_thread_stop s =
     (if s_owner s = None then Some (signal_reload (on_pcap (\<lambda>p. p\<lparr>reload_request := -2\<rparr>) s)) else None)"

text \<open>
  \<open>pktgen_pcap_reload_section\<close>: \<open>Inl\<close> the return value, \<open>Inr None\<close> for a wait on the condition.
\<close>

definition pktgen_pcap_reload_section :: "bool \<Rightarrow> nat \<Rightarrow> nat \<Rightarrow> sys \<Rightarrow> int \<times> sys option" where
  "pktgen_pcap_reload_section registered pid section_idx s =
     (if pid \<ge> RTE_MAX_ETHPORTS \<or> section_idx \<ge> PCAP_NUM_SECTIONS then (-1, Some s)
      else if \<not> registered \<or> fp (s_pcap s) = None then (-1, Some s)
      else if s_owner s \<noteq> None \<or> reload_request (s_pcap s) \<ge> 0 \<or> reload_in_progress (s_pcap s) \<ge> 0
      then (0, None)
      else (0, Some (signal_reload (on_pcap (\<lambda>p. (lock_section section_idx 1 p)\<lparr>
              reload_request := int section_idx\<rparr>) s))))"

subsection \<open>What a step of the load changes\<close>

lemma open_source_moved: "pcap_open_source_index fs p i = Inr (rc, p') \<Longrightarrow> moved p p'"
  by (auto simp: pcap_open_source_index_def Let_def moved_def no_place_def
      split: if_splits option.splits sum.splits)

lemma read_loop_moved:
  assumes "pcap_read_record_loop fs p = Some (Inr (h, p'))"
  shows "moved p p'"
proof -
  have "\<forall>h p'. r = Inr (h, p') \<longrightarrow> moved p p'" if "pcap_read_record_loop fs p = Some r" for r
    using that
  proof (rule pcap_read_record_loop.raw_induct [rotated])
    fix rec :: "fs \<Rightarrow> pcap_info \<Rightarrow> (exit_reason + pcap_record_hdr option \<times> pcap_info) option"
    fix fs p and r :: "exit_reason + pcap_record_hdr option \<times> pcap_info"
    assume IH: "\<And>fs p r. rec fs p = Some r \<Longrightarrow> \<forall>h p'. r = Inr (h, p') \<longrightarrow> moved p p'"
    let ?next = "\<lambda>st. pcap_open_source_index fs (p\<lparr>fp := Some (clearerr (snd (fread 16 st)))\<rparr>)
      (if source_file_index p + 1 \<ge> source_file_count p then 0 else source_file_index p + 1)"
    assume r: "(case fp p of
        None \<Rightarrow> Some (Inl Fault_null_stream)
      | Some st \<Rightarrow>
          (if length (fst (fread 16 st)) = 16
           then Some (Inr (Some (pcap_convert_record_header (source_convert p)
                                   (rec_of_bytes (fst (fread 16 st)))),
                           p\<lparr>fp := Some (snd (fread 16 st))\<rparr>))
           else if s_eof (snd (fread 16 st))
           then (case ?next st of
                   Inl e \<Rightarrow> Some (Inl e)
                 | Inr r \<Rightarrow> (if fst r < 0 then Some (Inr (None, snd r)) else rec fs (snd r)))
           else Some (Inl (Exit_read_record (source_files p ! unat (source_file_index p)))))) = Some r"
    show "\<forall>h p'. r = Inr (h, p') \<longrightarrow> moved p p'"
    proof (intro allI impI)
      fix h p' assume h: "r = Inr (h, p')"
      from r h obtain st where st: "fp p = Some st" by (auto split: option.splits)
      show "moved p p'"
      proof (cases "?next st")
        case (Inl e)
        with r h st show ?thesis by (auto split: if_splits)
      next
        case (Inr q)
        have "moved p (snd q)"
          using open_source_moved [of fs _ _ "fst q" "snd q"] Inr by (force simp: moved_def)
        with r h st Inr IH [of fs "snd q"] show ?thesis
          by (auto split: if_splits intro: moved_trans)
      qed
    qed
  qed
  with assms show ?thesis by blast
qed

lemma read_header_moved:
  "pcap_read_record_header fs p = Some (Inr (h, p')) \<Longrightarrow> moved p p'"
  by (auto simp: pcap_read_record_header_def split: if_splits intro: read_loop_moved)

lemma cb_frame:
  assumes "mbuf_iterate_cb fs mp p m = Some (Inr (p', m'))" and "pcap_section_from_mp p (Some mp) = Some i"
  shows "no_load i p' = no_load i p"
    and "sec_pkt_loaded (sections p' i) =
      (if sec_pkt_loaded (sections p i) \<ge> sec_pkt_count (sections p i) then sec_pkt_loaded (sections p i)
       else sec_pkt_loaded (sections p i) + 1)"
proof -
  have "no_load i p' = no_load i p \<and> sec_pkt_loaded (sections p' i) =
      (if sec_pkt_loaded (sections p i) \<ge> sec_pkt_count (sections p i) then sec_pkt_loaded (sections p i)
       else sec_pkt_loaded (sections p i) + 1)"
  proof (cases "sec_pkt_loaded (sections p i) \<ge> sec_pkt_count (sections p i)")
    case True
    with assms show ?thesis by (auto simp: mbuf_iterate_cb_def)
  next
    case False
    with assms obtain hdr p1 st where
      rd: "pcap_read_record_header fs p = Some (Inr (Some hdr, p1))" and st: "fp p1 = Some st"
      and p': "p' = upd_section i (\<lambda>s. s\<lparr>sec_pkt_loaded := sec_pkt_loaded s + 1\<rparr>)
         (p1\<lparr>fp := Some (snd (fread (unat (incl_len hdr)) st))\<rparr>)"
      by (auto simp: mbuf_iterate_cb_def Let_def split_beta split: option.splits sum.splits prod.splits if_splits)
    note mv = read_header_moved [OF rd]
    have "moved p (p1\<lparr>fp := Some (snd (fread (unat (incl_len hdr)) st))\<rparr>)" using mv by (simp add: moved_def)
    then show ?thesis
      using False moved_frame(1) [OF mv] by (auto simp: p' no_load_loaded no_load_moved sec_simps)
  qed
  then show "no_load i p' = no_load i p" "sec_pkt_loaded (sections p' i) =
      (if sec_pkt_loaded (sections p i) \<ge> sec_pkt_count (sections p i) then sec_pkt_loaded (sections p i)
       else sec_pkt_loaded (sections p i) + 1)"
    by blast+
qed

subsection \<open>The invariant of the two threads\<close>

fun loading_of :: "wk_pc \<Rightarrow> int" where
  "loading_of (WK_begin i) = int i"
| "loading_of (WK_load i k) = int i"
| "loading_of (WK_finish i) = int i"
| "loading_of _ = -1"

fun tx_holds :: "tx_pc \<Rightarrow> bool" where
  "tx_holds (TX_request i) = True"
| "tx_holds (TX_while_loaded i) = True"
| "tx_holds (TX_while_locked i) = True"
| "tx_holds (TX_switch i) = True"
| "tx_holds _ = False"

text \<open>Who has the mutex.\<close>

definition mutex_inv :: "thread option \<Rightarrow> wk_pc \<Rightarrow> tx_pc \<Rightarrow> bool" where
  "mutex_inv owner wk tx \<longleftrightarrow> (owner = Some Worker \<longleftrightarrow> wk = WK_while) \<and> (owner = Some Tx \<longleftrightarrow> tx_holds tx)
     \<and> wk \<noteq> WK_exit"

text \<open>
  The requests, as a property of the active section \<open>a\<close>, the request \<open>r\<close>, the load in
  progress \<open>g\<close> and the locks \<open>l\<close>: at most one request is pending, for the section that is not active; a section is
  locked exactly while a request for it is pending or it is being loaded; nobody waits for a
  signal that was already given.
\<close>

definition ctl_inv :: "nat \<Rightarrow> int \<Rightarrow> int \<Rightarrow> (nat \<Rightarrow> int) \<Rightarrow> wk_pc \<Rightarrow> bool" where
  "ctl_inv a r g l wk \<longleftrightarrow> a < 2 \<and> (r = -1 \<or> r = int (1 - a)) \<and> g = loading_of wk \<and> g < 2
     \<and> (r \<noteq> -1 \<longrightarrow> r \<noteq> g) \<and> (\<forall>j<2. l j = (if r = int j \<or> g = int j then 1 else 0))
     \<and> (g = int a \<longrightarrow> r = int (1 - a)) \<and> (wk = WK_wait False \<longrightarrow> r = -1)"

fun tx_inv :: "nat \<Rightarrow> int \<Rightarrow> int \<Rightarrow> (nat \<Rightarrow> int) \<Rightarrow> tx_pc \<Rightarrow> bool" where
  "tx_inv a r g l TX_start = True"
| "tx_inv a r g l (TX_request i) = (i = a \<and> r = -1 \<and> g = int (1 - a))"
| "tx_inv a r g l (TX_while_loaded i) = (i = a \<and> r = -1)"
| "tx_inv a r g l (TX_wait_loaded i w) = (i = a \<and> r = -1 \<and> (\<not> w \<longrightarrow> g = int (1 - a)))"
| "tx_inv a r g l (TX_while_locked i) = (i = a)"
| "tx_inv a r g l (TX_wait_locked i w) = (i = a \<and> (\<not> w \<longrightarrow> l (1 - a) \<noteq> 0))"
| "tx_inv a r g l (TX_switch i) = (i = a \<and> r = -1)"
| "tx_inv a r g l TX_send = True"

definition request_inv :: "pcap_info \<Rightarrow> wk_pc \<Rightarrow> tx_pc \<Rightarrow> bool" where
  "request_inv p wk tx \<longleftrightarrow>
     ctl_inv (active_section_idx p) (reload_request p) (reload_in_progress p) (section_locked p) wk
     \<and> tx_inv (active_section_idx p) (reload_request p) (reload_in_progress p) (section_locked p) tx"

text \<open>A section that is not being loaded is completely loaded.\<close>

fun progress :: "wk_pc \<Rightarrow> nat \<Rightarrow> nat \<Rightarrow> nat" where
  "progress (WK_load i k) j n = (if j = i then k else n)"
| "progress _ j n = n"

definition loaded_inv :: "nat \<Rightarrow> pcap_info \<Rightarrow> pools \<Rightarrow> wk_pc \<Rightarrow> bool" where
  "loaded_inv pid p pools wk \<longleftrightarrow>
     (\<forall>j<2. sec_mp (sections p j) = Some (pcap_pool pid j) \<and> 0 < sec_pkt_count (sections p j)
        \<and> length (pools (pcap_pool pid j)) = unat (sec_pkt_count (sections p j))
        \<and> unat (sec_pkt_loaded (sections p j)) = progress wk j (unat (sec_pkt_count (sections p j)))
        \<and> progress wk j (unat (sec_pkt_count (sections p j))) \<le> unat (sec_pkt_count (sections p j)))"

definition replay_inv :: "nat \<Rightarrow> sys \<Rightarrow> bool" where
  "replay_inv pid s \<longleftrightarrow> mutex_inv (s_owner s) (s_wk s) (s_tx s) \<and> request_inv (s_pcap s) (s_wk s) (s_tx s)
     \<and> loaded_inv pid (s_pcap s) (s_pools s) (s_wk s)"

lemma all_less_2: "(\<forall>j<2. P j) \<longleftrightarrow> P 0 \<and> P (1::nat)"
  by (auto simp: less_2_cases_iff)

lemma next_section_less: "i < 2 \<Longrightarrow> next_section i = 1 - i"
  by (auto simp: next_section_def PCAP_NUM_SECTIONS_def less_2_cases_iff)

lemma section_from_pool:
  assumes "loaded_inv pid p pools wk" and "i < 2"
  shows "pcap_section_from_mp p (Some (pcap_pool pid i)) = Some i"
  using assms by (auto simp: loaded_inv_def all_less_2 pcap_section_from_mp_def pcap_pool_def less_2_cases_iff)

lemma loaded_inv_frame:
  assumes "loaded_inv pid p pools wk" and "sections p' = sections p"
  shows "loaded_inv pid p' pools wk"
  using assms by (simp only: loaded_inv_def)

lemma loading_of_less:
  assumes "loaded_inv pid p pools wk" and "reload_in_progress p = loading_of wk" and "j < 2"
    and "sec_pkt_loaded (sections p j) = 0"
  shows "reload_in_progress p = int j"
proof -
  note * = assms(1) [unfolded loaded_inv_def, rule_format, OF assms(3)]
  have "unat (sec_pkt_count (sections p j)) \<noteq> 0" using * by (simp add: word_less_nat_alt)
  with * assms(4) have "\<exists>k. wk = WK_load j k"
    by (cases wk) (auto split: if_splits)
  then show ?thesis using assms(2) by auto
qed

text \<open>The switch to the other section.\<close>

lemma ctl_inv_switch:
  assumes "ctl_inv a (-1) g l wk"
  shows "ctl_inv (1 - a) (int a) g (l(a := 1)) (wk_woken wk)"
proof -
  from assms have "g \<noteq> int a" by (auto simp: ctl_inv_def)
  with assms show ?thesis
    by (cases wk) (auto simp: ctl_inv_def all_less_2 less_2_cases_iff)
qed

lemma ctl_inv_lock: "ctl_inv a r g l wk \<Longrightarrow> j < 2 \<Longrightarrow> l j = (if r = int j \<or> g = int j then 1 else 0)"
  by (simp add: ctl_inv_def)

lemma ctl_inv_pending:
  assumes "ctl_inv a r g l wk" and "g = int (1 - a) \<or> l (1 - a) = 0"
  shows "r = -1"
proof (rule ccontr)
  assume "r \<noteq> -1"
  with assms(1) have r: "r = int (1 - a)" and g: "r \<noteq> g" by (auto simp: ctl_inv_def)
  have "l (1 - a) = 1" using ctl_inv_lock [OF assms(1), of "1 - a"] r by simp
  with assms(2) r g show False by simp
qed

lemma mutex_inv_signal:
  "mutex_inv owner wk tx \<Longrightarrow> mutex_inv owner (wk_woken wk) tx"
  by (cases wk) (auto simp: mutex_inv_def)

lemma send_burst_sel [simp]:
  "s_owner (send_burst b mp s) = s_owner s" "s_wk (send_burst b mp s) = s_wk s"
  "s_tx (send_burst b mp s) = s_tx s" "s_pools (send_burst b mp s) = s_pools s"
  "sections (s_pcap (send_burst b mp s)) = sections (s_pcap s)"
  "active_section_idx (s_pcap (send_burst b mp s)) = active_section_idx (s_pcap s)"
  "reload_request (s_pcap (send_burst b mp s)) = reload_request (s_pcap s)"
  "reload_in_progress (s_pcap (send_burst b mp s)) = reload_in_progress (s_pcap s)"
  "section_locked (s_pcap (send_burst b mp s)) = section_locked (s_pcap s)"
  by (simp_all add: send_burst_def split: option.splits)

lemma tx_keeps_inv:
  assumes "mutex_inv (s_owner s) (s_wk s) (s_tx s)" and "request_inv (s_pcap s) (s_wk s) (s_tx s)"
    and "loaded_inv pid (s_pcap s) (s_pools s) (s_wk s)"
    and "pktgen_send_pkts burst s = Some s'"
  shows "mutex_inv (s_owner s') (s_wk s') (s_tx s') \<and> request_inv (s_pcap s') (s_wk s') (s_tx s')"
proof -
  let ?p = "s_pcap s"
  let ?a = "active_section_idx ?p"
  from assms(2) have ctl: "ctl_inv ?a (reload_request ?p) (reload_in_progress ?p) (section_locked ?p) (s_wk s)"
    and tx: "tx_inv ?a (reload_request ?p) (reload_in_progress ?p) (section_locked ?p) (s_tx s)"
    by (simp_all add: request_inv_def)
  from ctl have a: "?a < 2" and prog: "reload_in_progress ?p = loading_of (s_wk s)"
    by (simp_all add: ctl_inv_def)
  from a have nxt: "next_section ?a = 1 - ?a" by (rule next_section_less)
  have empty: "sec_pkt_loaded (sections ?p (1 - ?a)) = 0 \<Longrightarrow> reload_in_progress ?p = int (1 - ?a)"
    using loading_of_less [OF assms(3) prog, of "1 - ?a"] by auto
  have pending: "reload_in_progress ?p = int (1 - ?a) \<Longrightarrow> reload_request ?p = -1"
    "section_locked ?p (1 - ?a) = 0 \<Longrightarrow> reload_request ?p = -1"
    using ctl_inv_pending [OF ctl] by blast+
  from assms(4) have run: "s_exit s = None" by (auto simp: pktgen_send_pkts_def split: if_splits)
  note defs = pktgen_send_pkts_def request_inv_def Let_def nxt run
  show ?thesis
  proof (cases "s_tx s")
    case TX_start
    with assms(1,4) ctl empty pending show ?thesis
      by (auto simp: defs mutex_inv_def split: if_splits)
  next
    case (TX_request i)
    with assms(1,4) ctl tx show ?thesis
      by (auto simp: defs mutex_inv_def split: if_splits)
  next
    case (TX_while_loaded i)
    with assms(1,4) ctl tx empty show ?thesis
      by (auto simp: defs mutex_inv_def split: if_splits)
  next
    case (TX_wait_loaded i w)
    with assms(1,4) ctl tx show ?thesis
      by (auto simp: defs mutex_inv_def split: if_splits)
  next
    case (TX_while_locked i)
    with assms(1,4) ctl tx pending show ?thesis
      by (auto simp: defs mutex_inv_def split: if_splits)
  next
    case (TX_wait_locked i w)
    with assms(1,4) ctl tx show ?thesis
      by (auto simp: defs mutex_inv_def split: if_splits)
  next
    case (TX_switch i)
    then have i: "i = ?a" and r: "reload_request ?p = -1" using tx by simp_all
    have ctl': "ctl_inv ?a (-1) (reload_in_progress ?p) (section_locked ?p) (s_wk s)"
      using ctl by (simp only: r)
    have m: "mutex_inv None (s_wk s) TX_send" using assms(1) TX_switch by (auto simp: mutex_inv_def)
    from assms(4) TX_switch have s': "s_owner s' = None" "s_tx s' = TX_send"
      "s_wk s' = wk_woken (s_wk s)"
      "active_section_idx (s_pcap s') = 1 - ?a" "reload_request (s_pcap s') = int ?a"
      "reload_in_progress (s_pcap s') = reload_in_progress ?p"
      "section_locked (s_pcap s') = (section_locked ?p)(?a := 1)"
      by (auto simp: defs i lock_section_def signal_reload_def)
    show ?thesis
      unfolding request_inv_def s' using mutex_inv_signal [OF m] ctl_inv_switch [OF ctl'] by simp
  next
    case TX_send
    with assms(1,4) ctl show ?thesis
      by (auto simp: defs mutex_inv_def)
  qed
qed

text \<open>The steps of the reload thread on the requests.\<close>

lemma ctl_inv_take:
  assumes "ctl_inv a r g l WK_while" and "0 \<le> r"
  shows "r = int (1 - a)" and "ctl_inv a (-1) r l (WK_begin (nat r))"
proof -
  from assms have a: "a = 0 \<or> a = 1" and r: "r = int (1 - a)" and g: "g = -1"
    and l: "l 0 = (if r = 0 then 1 else 0)" "l 1 = (if r = 1 then 1 else 0)"
    by (auto simp: ctl_inv_def all_less_2)
  show "r = int (1 - a)" by (rule r)
  show "ctl_inv a (-1) r l (WK_begin (nat r))"
    using a r l by (elim disjE) (simp_all add: ctl_inv_def all_less_2)
qed

lemma ctl_inv_finish:
  assumes "ctl_inv a r g l (WK_finish i)"
  shows "i < 2" and "g = int i" and "ctl_inv a r (-1) (l(i := 0)) WK_lock"
proof -
  note c = assms [unfolded ctl_inv_def loading_of.simps]
  from c show g: "g = int i" by blast
  with c show i: "i < 2" by auto
  from c have a: "a < 2" and r: "r = -1 \<or> r = int (1 - a)" and rg: "r \<noteq> -1 \<longrightarrow> r \<noteq> g"
    and l: "\<forall>j<2. l j = (if r = int j \<or> g = int j then 1 else 0)"
    by blast+
  have "(l(i := 0)) j = (if r = int j \<or> -1 = int j then 1 else 0)" if "j < 2" for j
    using l [rule_format, OF that] rg g by auto
  with a r show "ctl_inv a r (-1) (l(i := 0)) WK_lock"
    unfolding ctl_inv_def loading_of.simps by simp
qed

lemma ctl_inv_pc:
  assumes "ctl_inv a r g l wk" and "loading_of wk' = loading_of wk" and "wk' = WK_wait False \<Longrightarrow> r = -1"
  shows "ctl_inv a r g l wk'"
  using assms(1,3) unfolding ctl_inv_def assms(2) by blast

lemma tx_inv_take: "tx_inv a r (-1) l tx \<Longrightarrow> 0 \<le> r \<Longrightarrow> tx_inv a (-1) g l tx"
  by (cases tx) auto

lemma tx_inv_finish: "tx_inv a r g l tx \<Longrightarrow> \<not> tx_holds tx \<Longrightarrow> tx_inv a r g' l' (tx_woken tx)"
  by (cases tx) auto

lemma tx_holds_woken [simp]: "tx_holds (tx_woken tx) = tx_holds tx"
  by (cases tx) auto

lemma loaded_invD:
  assumes "loaded_inv pid p pools wk" and "j < 2"
  shows "sec_mp (sections p j) = Some (pcap_pool pid j)" "0 < sec_pkt_count (sections p j)"
    "length (pools (pcap_pool pid j)) = unat (sec_pkt_count (sections p j))"
  using assms by (auto simp: loaded_inv_def)

lemma loaded_inv_pc:
  assumes "loaded_inv pid p pools wk" and "progress wk' = progress wk"
  shows "loaded_inv pid p pools wk'"
  using assms unfolding loaded_inv_def by metis

lemma control_eqs:
  assumes "no_load i p' = no_load i p"
  shows "active_section_idx p' = active_section_idx p" "reload_request p' = reload_request p"
    "reload_in_progress p' = reload_in_progress p" "section_locked p' = section_locked p"
  by (rule no_load_frame [OF assms])+

lemma pool_inj [simp]: "pcap_pool pid i = pcap_pool pid j \<longleftrightarrow> i = j"
  by (simp add: pcap_pool_def)

lemma worker_keeps_inv:
  assumes "mutex_inv (s_owner s) (s_wk s) (s_tx s)" and "request_inv (s_pcap s) (s_wk s) (s_tx s)"
    and "loaded_inv pid (s_pcap s) (s_pools s) (s_wk s)"
    and "pcap_reload_worker fs s = Some s'"
  shows "mutex_inv (s_owner s') (s_wk s') (s_tx s') \<and> request_inv (s_pcap s') (s_wk s') (s_tx s')
    \<and> loaded_inv pid (s_pcap s') (s_pools s') (s_wk s')"
proof -
  let ?p = "s_pcap s"
  let ?a = "active_section_idx ?p"
  from assms(2) have ctl: "ctl_inv ?a (reload_request ?p) (reload_in_progress ?p) (section_locked ?p) (s_wk s)"
    and tx: "tx_inv ?a (reload_request ?p) (reload_in_progress ?p) (section_locked ?p) (s_tx s)"
    by (simp_all add: request_inv_def)
  from assms(4) have run: "s_exit s = None" by (auto simp: pcap_reload_worker_def split: if_splits)
  note defs = pcap_reload_worker_def request_inv_def Let_def run
  note pc = ctl_inv_pc [OF ctl] loaded_inv_pc [OF assms(3)]
  have [simp]: "progress WK_lock = progress WK_while" "progress (WK_wait w) = progress WK_while"
    "progress (WK_begin i) = progress WK_while" "progress (WK_finish i) = progress WK_while" for w i
    by (simp_all add: fun_eq_iff)
  show ?thesis
  proof (cases "s_wk s")
    case WK_lock
    with assms(1,4) pc(1) [of WK_while] pc(2) [of WK_while] tx show ?thesis
      by (auto simp: defs mutex_inv_def split: if_splits)
  next
    case (WK_wait w)
    with assms(1,4) pc(1) [of WK_while] pc(2) [of WK_while] tx show ?thesis
      by (auto simp: defs mutex_inv_def split: if_splits)
  next
    case WK_while
    have idle: "reload_in_progress ?p = -1" using ctl WK_while by (simp add: ctl_inv_def)
    show ?thesis
    proof (cases "reload_request ?p < 0")
      case True
      then have "reload_request ?p = -1" using ctl by (auto simp: ctl_inv_def)
      with True WK_while assms(1,4) pc(1) [of "WK_wait False"] pc(2) [of "WK_wait False"] tx show ?thesis
        by (auto simp: defs mutex_inv_def)
    next
      case False
      then have r: "0 \<le> reload_request ?p" by simp
      from ctl WK_while have "ctl_inv ?a (reload_request ?p) (reload_in_progress ?p) (section_locked ?p) WK_while"
        by simp
      note take = ctl_inv_take [OF this r]
      have tx': "tx_inv ?a (-1) (reload_request ?p) (section_locked ?p) (s_tx s)"
        using tx_inv_take [OF _ r] tx idle by simp
      let ?i = "nat (reload_request ?p)"
      have s': "s' = s\<lparr>s_pcap := ?p\<lparr>reload_request := -1, reload_in_progress := reload_request ?p\<rparr>,
          s_owner := None, s_wk := WK_begin ?i\<rparr>"
        using WK_while assms(4) r by (auto simp: defs)
      have "loaded_inv pid (?p\<lparr>reload_request := -1, reload_in_progress := reload_request ?p\<rparr>)
          (s_pools s) (WK_begin ?i)"
        by (rule loaded_inv_frame [OF pc(2)]) (simp_all add: WK_while)
      then show ?thesis
        using take(2) tx' assms(1) WK_while by (auto simp: s' request_inv_def mutex_inv_def)
    qed
  next
    case (WK_begin i)
    have i: "i < 2" using ctl WK_begin by (simp add: ctl_inv_def)
    note mp = loaded_invD [OF assms(3) i]
    show ?thesis
    proof (cases "fp ?p")
      case None
      with WK_begin assms mp show ?thesis by (auto simp: defs)
    next
      case (Some st)
      with WK_begin assms(4) mp have s': "s' = s\<lparr>s_pcap := load_begin i st ?p, s_wk := WK_load i 0\<rparr>"
        by (auto simp: defs)
      have "loaded_inv pid (load_begin i st ?p) (s_pools s) (WK_load i 0)"
        using assms(3) WK_begin
        by (auto simp: loaded_inv_def all_less_2 load_begin_def sec_simps pcap_section_reset_def)
      moreover have "same_ctl": "active_section_idx (load_begin i st ?p) = ?a"
        "reload_request (load_begin i st ?p) = reload_request ?p"
        "reload_in_progress (load_begin i st ?p) = reload_in_progress ?p"
        "section_locked (load_begin i st ?p) = section_locked ?p"
        by (simp_all add: load_begin_def sec_simps)
      ultimately show ?thesis
        using assms(1) tx pc(1) [of "WK_load i 0"] WK_begin
        by (auto simp: s' mutex_inv_def request_inv_def same_ctl)
    qed
  next
    case (WK_load i k)
    have i: "i < 2" using ctl WK_load by (simp add: ctl_inv_def)
    note mp = loaded_invD [OF assms(3) i]
    let ?mp = "pcap_pool pid i"
    show ?thesis
    proof (cases "k < length (s_pools s ?mp)")
      case True
      let ?cb = "mbuf_iterate_cb fs ?mp ?p (s_pools s ?mp ! k)"
      from assms(4) WK_load mp True consider (fails) e where "?cb = Some (Inl e)" "s' = s\<lparr>s_exit := Some e\<rparr>"
        | (fills) p m where "?cb = Some (Inr (p, m))"
            "s' = s\<lparr>s_pcap := p, s_pools := (s_pools s)(?mp := (s_pools s ?mp)[k := m]), s_wk := WK_load i (k + 1)\<rparr>"
        by (auto simp: defs split: option.splits sum.splits)
      then show ?thesis
      proof cases
        case fails
        with assms show ?thesis by simp
      next
        case (fills p m)
        note cb = cb_frame [OF fills(1) section_from_pool [OF assms(3) i]]
        note frame = no_load_frame [OF cb(1)] control_eqs [OF cb(1)]
        have k: "unat (sec_pkt_loaded (sections ?p i)) = k" "k < unat (sec_pkt_count (sections ?p i))"
          using assms(3) i WK_load True mp(3) by (auto simp: loaded_inv_def)
        then have "unat (sec_pkt_loaded (sections ?p i) + 1) = k + 1"
          using unat_less_2p32 [of "sec_pkt_count (sections ?p i)"]
            unat_inc_no_wrap [of "sec_pkt_loaded (sections ?p i)"] by simp
        with cb(2) k have loaded: "unat (sec_pkt_loaded (sections p i)) = k + 1"
          by (simp add: word_le_nat_alt)
        have "loaded_inv pid p ((s_pools s)(?mp := (s_pools s ?mp)[k := m])) (WK_load i (k + 1))"
          unfolding loaded_inv_def
        proof (intro allI impI)
          fix j :: nat assume j: "j < 2"
          note * = assms(3) [unfolded loaded_inv_def, rule_format, OF j]
          show "sec_mp (sections p j) = Some (pcap_pool pid j) \<and> 0 < sec_pkt_count (sections p j)
            \<and> length (((s_pools s)(?mp := (s_pools s ?mp)[k := m])) (pcap_pool pid j))
                = unat (sec_pkt_count (sections p j))
            \<and> unat (sec_pkt_loaded (sections p j))
                = progress (WK_load i (k + 1)) j (unat (sec_pkt_count (sections p j)))
            \<and> progress (WK_load i (k + 1)) j (unat (sec_pkt_count (sections p j)))
                \<le> unat (sec_pkt_count (sections p j))"
            using * frame(1) [of j] frame(2,3) loaded k WK_load by (cases "j = i") simp_all
        qed
        then show ?thesis
          using assms(1) tx pc(1) [of "WK_load i (k + 1)"] WK_load frame
          by (auto simp: fills(2) mutex_inv_def request_inv_def)
      qed
    next
      case False
      have k: "k = unat (sec_pkt_count (sections ?p i))"
        using assms(3) i WK_load False mp(3) by (auto simp: loaded_inv_def)
      show ?thesis
      proof (cases "fp ?p")
        case None
        with WK_load False assms mp show ?thesis by (auto simp: defs)
      next
        case (Some st)
        let ?p' = "upd_section i (\<lambda>x. x\<lparr>file_offset_end := ftell st\<rparr>) ?p"
        from Some WK_load False assms(4) mp have s': "s' = s\<lparr>s_pcap := ?p', s_wk := WK_finish i\<rparr>"
          by (auto simp: defs)
        have "loaded_inv pid ?p' (s_pools s) (WK_finish i)"
          unfolding loaded_inv_def
        proof (intro allI impI)
          fix j :: nat assume j: "j < 2"
          show "sec_mp (sections ?p' j) = Some (pcap_pool pid j) \<and> 0 < sec_pkt_count (sections ?p' j)
            \<and> length (s_pools s (pcap_pool pid j)) = unat (sec_pkt_count (sections ?p' j))
            \<and> unat (sec_pkt_loaded (sections ?p' j))
                = progress (WK_finish i) j (unat (sec_pkt_count (sections ?p' j)))
            \<and> progress (WK_finish i) j (unat (sec_pkt_count (sections ?p' j)))
                \<le> unat (sec_pkt_count (sections ?p' j))"
            using assms(3) [unfolded loaded_inv_def, rule_format, OF j] k WK_load
            by (cases "j = i") (simp_all add: sec_simps)
        qed
        then show ?thesis
          using assms(1) tx pc(1) [of "WK_finish i"] WK_load
          by (auto simp: s' mutex_inv_def request_inv_def sec_simps)
      qed
    qed
  next
    case (WK_finish i)
    then have "ctl_inv ?a (reload_request ?p) (reload_in_progress ?p) (section_locked ?p) (WK_finish i)"
      using ctl by simp
    note fin = ctl_inv_finish [OF this]
    have "\<not> tx_holds (s_tx s)" using assms(1,4) WK_finish by (auto simp: defs mutex_inv_def split: if_splits)
    note tx' = tx_inv_finish [OF tx this]
    have "loaded_inv pid (lock_section i 0 ?p\<lparr>reload_in_progress := -1\<rparr>) (s_pools s) WK_lock"
      by (rule loaded_inv_frame [OF pc(2)]) (simp_all add: lock_section_def WK_finish)
    with fin tx' assms(1,4) WK_finish show ?thesis
      by (auto simp: defs mutex_inv_def lock_section_def broadcast_done_def split: if_splits)
  next
    case WK_exit
    with assms(4) show ?thesis by (simp add: defs)
  qed
qed

lemma progress_woken [simp]: "progress (wk_woken wk) = progress wk"
  by (cases wk) (simp_all add: fun_eq_iff)

lemma tx_keeps_loaded:
  assumes "loaded_inv pid (s_pcap s) (s_pools s) (s_wk s)" and "pktgen_send_pkts burst s = Some s'"
  shows "loaded_inv pid (s_pcap s') (s_pools s') (s_wk s')"
proof -
  have "sections (s_pcap s') = sections (s_pcap s) \<and> s_pools s' = s_pools s
      \<and> progress (s_wk s') = progress (s_wk s)"
    using assms(2)
    by (auto simp: pktgen_send_pkts_def Let_def signal_reload_def lock_section_def
        split: if_splits tx_pc.splits)
  with assms(1) show ?thesis unfolding loaded_inv_def by metis
qed

lemma tx_inv_woken: "tx_inv a r g l tx \<Longrightarrow> tx_inv a r g l (tx_woken tx)"
  by (cases tx) auto

lemma ctl_inv_woken: "ctl_inv a r g l wk \<Longrightarrow> ctl_inv a r g l (wk_woken wk)"
  by (erule ctl_inv_pc) (cases wk; simp)+

lemma step_keeps_inv:
  assumes "replay_inv pid s" and "step fs burst s s'"
  shows "replay_inv pid s'"
proof (rule step_cases [OF assms(2)])
  assume w: "pcap_reload_worker fs s = Some s'"
  from worker_keeps_inv [OF _ _ _ w] assms(1) show ?thesis unfolding replay_inv_def by blast
next
  assume t: "pktgen_send_pkts burst s = Some s'"
  from tx_keeps_inv [OF _ _ _ t] tx_keeps_loaded [OF _ t] assms(1) show ?thesis
    unfolding replay_inv_def by blast
next
  assume "nic_step s = Some s'"
  then have "s_pcap s' = s_pcap s" "s_pools s' = s_pools s" "s_wk s' = s_wk s" "s_tx s' = s_tx s"
    "s_owner s' = s_owner s"
    by (auto simp: nic_step_def split: if_splits list.splits)
  with assms(1) show ?thesis by (simp add: replay_inv_def)
next
  fix t assume wake: "s' = spurious t s"
  from assms(1) have m: "mutex_inv (s_owner s) (s_wk s) (s_tx s)" by (simp add: replay_inv_def)
  have "mutex_inv (s_owner s) (s_wk s) (tx_woken (s_tx s))" using m by (simp add: mutex_inv_def)
  with m mutex_inv_signal [OF m] assms(1) show ?thesis
    by (cases t) (auto simp: wake spurious_def replay_inv_def request_inv_def signal_reload_def
        broadcast_done_def tx_inv_woken ctl_inv_woken intro: loaded_inv_pc)
qed

lemma reachable_inv:
  "reachable fs burst s0 s \<Longrightarrow> replay_inv pid s0 \<Longrightarrow> replay_inv pid s"
  by (induction rule: reachable.induct) (auto intro: step_keeps_inv)

subsection \<open>The reload thread never fails on a good source\<close>

definition data_inv :: "fs \<Rightarrow> packet list list \<Rightarrow> nat \<Rightarrow> sys \<Rightarrow> bool" where
  "data_inv fs Rs pid s \<longleftrightarrow> s_exit s = None \<and> concat Rs \<noteq> [] \<and> (\<exists>n. reader_at fs Rs n (s_pcap s))
     \<and> (\<forall>j<2. list_all (roomy Rs) (s_pools s (pcap_pool pid j)))"

lemma data_inv_loading:
  assumes "data_inv fs Rs pid s" and "loaded_inv pid (s_pcap s) (s_pools s) wk" and "i < 2"
  obtains n where "loading fs Rs (pcap_pool pid i) i (s_pcap s) n (s_pcap s)"
  using assms section_from_pool [OF assms(2,3)]
  by (force simp: data_inv_def loading_def loaded_inv_def word_le_nat_alt)

lemma cb_returns:
  assumes "data_inv fs Rs pid s" and "loaded_inv pid (s_pcap s) (s_pools s) (s_wk s)" and "i < 2"
    and "k < length (s_pools s (pcap_pool pid i))"
  obtains p m where "mbuf_iterate_cb fs (pcap_pool pid i) (s_pcap s) (s_pools s (pcap_pool pid i) ! k) = Some (Inr (p, m))"
    and "\<exists>n. reader_at fs Rs n p" and "roomy Rs m"
proof -
  from data_inv_loading [OF assms(1-3)] obtain n where
    at: "loading fs Rs (pcap_pool pid i) i (s_pcap s) n (s_pcap s)" .
  let ?m = "s_pools s (pcap_pool pid i) ! k"
  have m: "roomy Rs ?m" using assms(1,3,4) by (simp add: data_inv_def list_all_length)
  show thesis
  proof (cases "sec_room i (s_pcap s) = 0")
    case True
    show thesis
      using that [OF loader.full [OF at True]] at m by (auto simp: loading_def)
  next
    case False
    with loader.fill [OF at _ m] obtain s' m' where
      "mbuf_iterate_cb fs (pcap_pool pid i) (s_pcap s) ?m = Some (Inr (s', m'))"
      "loading fs Rs (pcap_pool pid i) i (s_pcap s) (Suc n) s'" "roomy Rs m'" by blast
    with that show thesis by (auto simp: loading_def)
  qed
qed

text \<open>The next step of a load that is under way.\<close>

fun steps_left :: "pools \<Rightarrow> nat \<Rightarrow> wk_pc \<Rightarrow> nat" where
  "steps_left pools pid (WK_begin i) = length (pools (pcap_pool pid i)) + 3"
| "steps_left pools pid (WK_load i k) = length (pools (pcap_pool pid i)) - k + 2"
| "steps_left pools pid (WK_finish i) = 1"
| "steps_left pools pid _ = 0"

definition same_requests :: "sys \<Rightarrow> sys \<Rightarrow> bool" where
  "same_requests s s' \<longleftrightarrow> s_tx s' = s_tx s \<and> s_owner s' = s_owner s
     \<and> active_section_idx (s_pcap s') = active_section_idx (s_pcap s)
     \<and> reload_request (s_pcap s') = reload_request (s_pcap s)
     \<and> section_locked (s_pcap s') = section_locked (s_pcap s)"

lemma same_requests_trans: "same_requests s s' \<Longrightarrow> same_requests s' s'' \<Longrightarrow> same_requests s s''"
  by (simp add: same_requests_def)

lemma load_step:
  assumes "replay_inv pid s" and "data_inv fs Rs pid s" and "loading_of (s_wk s) = int i"
    and "\<And>i. s_wk s \<noteq> WK_finish i"
  shows "\<exists>s'. pcap_reload_worker fs s = Some s' \<and> steps_left (s_pools s') pid (s_wk s') < steps_left (s_pools s) pid (s_wk s)
    \<and> loading_of (s_wk s') = int i \<and> same_requests s s' \<and> data_inv fs Rs pid s'"
proof -
  have run: "s_exit s = None" and data: "concat Rs \<noteq> []" "\<exists>n. reader_at fs Rs n (s_pcap s)"
    "\<forall>j<2. list_all (roomy Rs) (s_pools s (pcap_pool pid j))"
    using assms(2) by (simp_all add: data_inv_def)
  then obtain st where st: "fp (s_pcap s) = Some st" by (auto simp: reader_at_def)
  have li: "loaded_inv pid (s_pcap s) (s_pools s) (s_wk s)" using assms(1) by (simp add: replay_inv_def)
  have i: "i < 2" using assms(1,3) by (auto simp: replay_inv_def request_inv_def ctl_inv_def)
  note mp = loaded_invD [OF li i]
  from assms(3,4) consider (b) "s_wk s = WK_begin i" | (l) k where "s_wk s = WK_load i k"
    by (cases "s_wk s") auto
  then show ?thesis
  proof cases
    case b
    then have "pcap_reload_worker fs s = Some (s\<lparr>s_pcap := load_begin i st (s_pcap s), s_wk := WK_load i 0\<rparr>)"
      using mp st by (simp add: pcap_reload_worker_def run)
    then show ?thesis
      using b data by (simp add: same_requests_def data_inv_def load_begin_def sec_simps run)
  next
    case (l k)
    show ?thesis
    proof (cases "k < length (s_pools s (pcap_pool pid i))")
      case True
      from cb_returns [OF assms(2) li i True] obtain p m where
        cb: "mbuf_iterate_cb fs (pcap_pool pid i) (s_pcap s) (s_pools s (pcap_pool pid i) ! k) = Some (Inr (p, m))"
          "\<exists>n. reader_at fs Rs n p" "roomy Rs m" .
      note frame = control_eqs [OF cb_frame(1) [OF cb(1) section_from_pool [OF li i]]]
      let ?s' = "s\<lparr>s_pcap := p, s_pools := (s_pools s)(pcap_pool pid i := (s_pools s (pcap_pool pid i))[k := m]),
        s_wk := WK_load i (k + 1)\<rparr>"
      have "pcap_reload_worker fs s = Some ?s'"
        using l mp True cb(1) by (simp add: pcap_reload_worker_def run)
      moreover have "list_all (roomy Rs) ((s_pools s (pcap_pool pid i))[k := m])"
        using data(3) i cb(3) by (auto simp: list_all_iff dest!: set_update_subset_insert [THEN subsetD])
      then have "data_inv fs Rs pid ?s'"
        using data cb(2) by (auto simp: data_inv_def run)
      moreover have "same_requests s ?s'" using frame by (simp add: same_requests_def)
      ultimately show ?thesis using True l by (intro exI [of _ ?s']) simp
    next
      case False
      let ?s' = "s\<lparr>s_pcap := upd_section i (\<lambda>x. x\<lparr>file_offset_end := ftell st\<rparr>) (s_pcap s), s_wk := WK_finish i\<rparr>"
      have "pcap_reload_worker fs s = Some ?s'"
        using l mp False st by (simp add: pcap_reload_worker_def run)
      then show ?thesis
        using l data by (intro exI [of _ ?s']) (simp add: same_requests_def data_inv_def sec_simps run)
    qed
  qed
qed

abbreviation worker_runs :: "fs \<Rightarrow> sys \<Rightarrow> sys \<Rightarrow> bool" where
  "worker_runs fs \<equiv> (\<lambda>s s'. pcap_reload_worker fs s = Some s')\<^sup>*\<^sup>*"

lemma worker_step_inv:
  "pcap_reload_worker fs s = Some s' \<Longrightarrow> replay_inv pid s \<Longrightarrow> replay_inv pid s'"
  by (rule step_keeps_inv [where burst = 0]) (auto intro: step.intros)

lemma load_runs:
  assumes "replay_inv pid s" and "data_inv fs Rs pid s" and "loading_of (s_wk s) = int i"
  shows "\<exists>s'. worker_runs fs s s' \<and> s_wk s' = WK_finish i \<and> same_requests s s' \<and> data_inv fs Rs pid s'
    \<and> replay_inv pid s'"
  using assms
proof (induction "steps_left (s_pools s) pid (s_wk s)" arbitrary: s rule: less_induct)
  case less
  show ?case
  proof (cases "\<exists>j. s_wk s = WK_finish j")
    case True
    with less.prems show ?thesis by (intro exI [of _ s]) (auto simp: same_requests_def)
  next
    case False
    with load_step [OF less.prems] obtain s1 where
      1: "pcap_reload_worker fs s = Some s1"
        "steps_left (s_pools s1) pid (s_wk s1) < steps_left (s_pools s) pid (s_wk s)"
        "loading_of (s_wk s1) = int i" "same_requests s s1" "data_inv fs Rs pid s1" by blast
    from less.hyps [OF 1(2) worker_step_inv [OF 1(1) less.prems(1)] 1(5,3)] obtain s' where
      "worker_runs fs s1 s'" "s_wk s' = WK_finish i" "same_requests s1 s'" "data_inv fs Rs pid s'"
      "replay_inv pid s'" by blast
    with 1(1,4) show ?thesis by (blast intro: converse_rtranclp_into_rtranclp same_requests_trans)
  qed
qed

text \<open>From a load in progress to the signal that it is done.\<close>

lemma load_finishes:
  assumes "replay_inv pid s" and "data_inv fs Rs pid s" and "loading_of (s_wk s) = int i"
    and "s_owner s = None"
  shows "\<exists>s'. worker_runs fs s s' \<and> s_wk s' = WK_lock \<and> s_owner s' = None
    \<and> s_tx s' = tx_woken (s_tx s) \<and> section_locked (s_pcap s') = (section_locked (s_pcap s))(i := 0)
    \<and> reload_request (s_pcap s') = reload_request (s_pcap s)
    \<and> active_section_idx (s_pcap s') = active_section_idx (s_pcap s)
    \<and> data_inv fs Rs pid s' \<and> replay_inv pid s'"
proof -
  from load_runs [OF assms(1-3)] obtain s1 where
    1: "worker_runs fs s s1" "s_wk s1 = WK_finish i" "same_requests s s1" "data_inv fs Rs pid s1"
      "replay_inv pid s1" by blast
  let ?s' = "broadcast_done (on_pcap (\<lambda>p. (lock_section i 0 p)\<lparr>reload_in_progress := -1\<rparr>) (s1\<lparr>s_wk := WK_lock\<rparr>))"
  have w: "pcap_reload_worker fs s1 = Some ?s'"
    using 1(2,3,4) assms(4) by (simp add: pcap_reload_worker_def same_requests_def data_inv_def)
  have "reader_at fs Rs n (lock_section i 0 p\<lparr>reload_in_progress := r\<rparr>) = reader_at fs Rs n p" for n p r
    by (simp add: reader_at_def lock_section_def)
  then have "data_inv fs Rs pid ?s'" using 1(4) by (simp add: data_inv_def broadcast_done_def)
  with 1(1,3) w worker_step_inv [OF w 1(5)] assms(4) show ?thesis
    by (intro exI [of _ ?s'])
      (auto simp: same_requests_def broadcast_done_def lock_section_def intro: rtranclp.rtrancl_into_rtrancl)
qed

text \<open>From a pending request to the start of its load.\<close>

lemma request_taken:
  assumes "replay_inv pid s" and "data_inv fs Rs pid s" and "s_owner s = None"
    and "reload_request (s_pcap s) = int j" and "loading_of (s_wk s) = -1"
  shows "\<exists>s'. worker_runs fs s s' \<and> s_wk s' = WK_begin j \<and> s_owner s' = None \<and> s_tx s' = s_tx s
    \<and> active_section_idx (s_pcap s') = active_section_idx (s_pcap s)
    \<and> data_inv fs Rs pid s' \<and> replay_inv pid s'"
proof -
  have run: "s_exit s = None" using assms(2) by (simp add: data_inv_def)
  have "s_wk s = WK_lock \<or> s_wk s = WK_wait True"
    using assms(1,3,4,5) by (cases "s_wk s") (auto simp: replay_inv_def mutex_inv_def request_inv_def ctl_inv_def)
  then have 1: "pcap_reload_worker fs s = Some (s\<lparr>s_owner := Some Worker, s_wk := WK_while\<rparr>)"
    using assms(3) by (auto simp: pcap_reload_worker_def run)
  let ?s2 = "on_pcap (\<lambda>p. p\<lparr>reload_request := -1, reload_in_progress := int j\<rparr>)
    (s\<lparr>s_owner := None, s_wk := WK_begin j\<rparr>)"
  have 2: "pcap_reload_worker fs (s\<lparr>s_owner := Some Worker, s_wk := WK_while\<rparr>) = Some ?s2"
    using assms(4) by (simp add: pcap_reload_worker_def run)
  have "reader_at fs Rs n (p\<lparr>reload_request := r, reload_in_progress := g\<rparr>) = reader_at fs Rs n p" for n p r g
    by (simp add: reader_at_def)
  then have "data_inv fs Rs pid ?s2" using assms(2) by (simp add: data_inv_def)
  moreover have "worker_runs fs s ?s2"
    by (rule converse_rtranclp_into_rtranclp, rule 1, rule r_into_rtranclp, rule 2)
  moreover have "replay_inv pid ?s2"
    using worker_step_inv [OF 2 worker_step_inv [OF 1 assms(1)]] .
  ultimately show ?thesis by (intro exI [of _ ?s2]) simp
qed

fun tx_blocked :: "tx_pc \<Rightarrow> nat option" where
  "tx_blocked (TX_wait_loaded i False) = Some i"
| "tx_blocked (TX_wait_locked i False) = Some i"
| "tx_blocked _ = None"

lemma tx_woken_idem [simp]: "tx_woken (tx_woken tx) = tx_woken tx"
  by (cases tx) auto

lemma wait_ends:
  assumes "replay_inv pid s" and "data_inv fs Rs pid s" and "tx_blocked (s_tx s) = Some a"
    and "s_wk s \<noteq> WK_while"
  shows "\<exists>s'. worker_runs fs s s' \<and> s_owner s' = None \<and> s_tx s' = tx_woken (s_tx s)
    \<and> section_locked (s_pcap s') (1 - a) = 0
    \<and> sec_pkt_loaded (sections (s_pcap s') (1 - a)) = sec_pkt_count (sections (s_pcap s') (1 - a))
    \<and> 0 < sec_pkt_count (sections (s_pcap s') (1 - a))"
proof -
  let ?p = "s_pcap s"
  have ctl: "ctl_inv (active_section_idx ?p) (reload_request ?p) (reload_in_progress ?p) (section_locked ?p) (s_wk s)"
    and tx: "tx_inv (active_section_idx ?p) (reload_request ?p) (reload_in_progress ?p) (section_locked ?p) (s_tx s)"
    and m: "mutex_inv (s_owner s) (s_wk s) (s_tx s)"
    using assms(1) by (simp_all add: replay_inv_def request_inv_def)
  have owner: "s_owner s = None"
  proof (cases "s_owner s")
    case (Some t)
    then show ?thesis using m assms(3,4) by (cases t; cases "s_tx s") (auto simp: mutex_inv_def)
  qed simp
  have a: "a = active_section_idx ?p" "a < 2" and wanted: "section_locked ?p (1 - a) \<noteq> 0
      \<or> reload_in_progress ?p = int (1 - a)"
    using assms(3) tx ctl by (cases "s_tx s"; auto simp: ctl_inv_def split: if_splits elim: tx_blocked.elims)+
  have g: "reload_in_progress ?p = loading_of (s_wk s)" using ctl by (simp add: ctl_inv_def)
  have final: "\<exists>s'. worker_runs fs s s' \<and> s_owner s' = None \<and> s_tx s' = tx_woken (s_tx s)
      \<and> section_locked (s_pcap s') (1 - a) = 0
      \<and> sec_pkt_loaded (sections (s_pcap s') (1 - a)) = sec_pkt_count (sections (s_pcap s') (1 - a))
      \<and> 0 < sec_pkt_count (sections (s_pcap s') (1 - a))"
    if "worker_runs fs s s1" "replay_inv pid s1" "data_inv fs Rs pid s1" "loading_of (s_wk s1) = int (1 - a)"
      "s_owner s1 = None" "tx_woken (s_tx s1) = tx_woken (s_tx s)" for s1
  proof -
    from load_finishes [OF that(2-5)] obtain s' where
      s': "worker_runs fs s1 s'" "s_wk s' = WK_lock" "s_owner s' = None" "s_tx s' = tx_woken (s_tx s1)"
        "section_locked (s_pcap s') = (section_locked (s_pcap s1))(1 - a := 0)" "replay_inv pid s'" by blast
    have li: "loaded_inv pid (s_pcap s') (s_pools s') WK_lock"
      using s'(2,6) by (simp add: replay_inv_def)
    have "1 - a < 2" by simp
    note * = li [unfolded loaded_inv_def, rule_format, OF this]
    show ?thesis
      using that(1,6) s' * by (intro exI [of _ s']) (auto simp: word_unat_eq_iff)
  qed
  show ?thesis
  proof (cases "reload_in_progress ?p = int (1 - a)")
    case True
    with g show ?thesis using final [of s] assms(1,2) owner by simp
  next
    case False
    with wanted have "section_locked ?p (1 - a) \<noteq> 0" by simp
    with False ctl_inv_lock [OF ctl, of "1 - a"] have r: "reload_request ?p = int (1 - a)"
      by (simp split: if_splits)
    obtain s1 where s1: "worker_runs fs s s1" "loading_of (s_wk s1) = -1" "s_owner s1 = None"
      "tx_woken (s_tx s1) = tx_woken (s_tx s)" "reload_request (s_pcap s1) = int (1 - a)"
      "data_inv fs Rs pid s1" "replay_inv pid s1"
    proof (cases "loading_of (s_wk s) = -1")
      case True
      with that [of s] owner r assms(1,2) show thesis by simp
    next
      case False
      then obtain i where "loading_of (s_wk s) = int i" by (cases "s_wk s") auto
      from load_finishes [OF assms(1,2) this owner] obtain s1 where
        "worker_runs fs s s1" "s_wk s1 = WK_lock" "s_owner s1 = None" "s_tx s1 = tx_woken (s_tx s)"
        "reload_request (s_pcap s1) = reload_request ?p" "data_inv fs Rs pid s1" "replay_inv pid s1" by blast
      with that [of s1] r show thesis by simp
    qed
    from request_taken [OF s1(7,6,3,5,2)] obtain s2 where
      "worker_runs fs s1 s2" "s_wk s2 = WK_begin (1 - a)" "s_owner s2 = None" "s_tx s2 = s_tx s1"
      "data_inv fs Rs pid s2" "replay_inv pid s2" by blast
    with final [of s2] s1(1,4) show ?thesis by (auto intro: rtranclp_trans)
  qed
qed

subsection \<open>All steps keep the source good\<close>

lemma reader_at_control [simp]:
  "reader_at fs Rs n (p\<lparr>reload_request := r\<rparr>) = reader_at fs Rs n p"
  "reader_at fs Rs n (p\<lparr>reload_in_progress := g\<rparr>) = reader_at fs Rs n p"
  "reader_at fs Rs n (p\<lparr>section_locked := l\<rparr>) = reader_at fs Rs n p"
  "reader_at fs Rs n (p\<lparr>active_section_idx := a\<rparr>) = reader_at fs Rs n p"
  "reader_at fs Rs n (p\<lparr>pkt_index := i\<rparr>) = reader_at fs Rs n p"
  by (simp_all add: reader_at_def)

lemma worker_keeps_data:
  assumes "replay_inv pid s" and "data_inv fs Rs pid s" and "pcap_reload_worker fs s = Some s'"
  shows "data_inv fs Rs pid s'"
proof (cases "loading_of (s_wk s) = -1 \<or> (\<exists>i. s_wk s = WK_finish i)")
  case True
  with assms(2,3) show ?thesis
    by (auto simp: pcap_reload_worker_def data_inv_def lock_section_def broadcast_done_def Let_def
        split: wk_pc.splits if_splits)
next
  case False
  then obtain i where "loading_of (s_wk s) = int i" by (cases "s_wk s") auto
  with load_step [OF assms(1,2) this] False assms(3) show ?thesis by auto
qed

lemma tx_keeps_data:
  assumes "data_inv fs Rs pid s" and "pktgen_send_pkts burst s = Some s'"
  shows "data_inv fs Rs pid s'"
  using assms
  by (auto simp: pktgen_send_pkts_def data_inv_def lock_section_def signal_reload_def Let_def send_burst_def
      split: tx_pc.splits if_splits option.splits)

lemma step_keeps_data:
  assumes "replay_inv pid s" and "data_inv fs Rs pid s" and "step fs burst s s'"
  shows "data_inv fs Rs pid s'"
proof (rule step_cases [OF assms(3)])
  assume "pcap_reload_worker fs s = Some s'"
  then show ?thesis by (rule worker_keeps_data [OF assms(1,2)])
next
  assume "pktgen_send_pkts burst s = Some s'"
  then show ?thesis by (rule tx_keeps_data [OF assms(2)])
next
  assume "nic_step s = Some s'"
  with assms(2) show ?thesis
    by (auto simp: nic_step_def data_inv_def split: if_splits list.splits)
next
  fix t assume "s' = spurious t s"
  with assms(2) show ?thesis
    by (cases t) (auto simp: spurious_def data_inv_def signal_reload_def broadcast_done_def)
qed

lemma reachable_both:
  "reachable fs burst s0 s \<Longrightarrow> replay_inv pid s0 \<Longrightarrow> data_inv fs Rs pid s0 \<Longrightarrow>
   replay_inv pid s \<and> data_inv fs Rs pid s"
  by (induction rule: reachable.induct) (auto intro: step_keeps_inv step_keeps_data)

subsection \<open>The start\<close>

definition replay_start :: "pcap_info \<Rightarrow> pools \<Rightarrow> sys" where
  "replay_start p pools = \<lparr>s_pcap = p, s_pools = pools, s_owner = None, s_wk = WK_lock, s_tx = TX_start,
     s_mp = None, s_free = (\<lambda>q. [0..<length (pools q)]), s_flying = [], s_wire = [], s_exit = None\<rparr>"

text \<open>A port as it is after \<open>pktgen_pcap_add\<close> and \<open>pktgen_pcap_open\<close>, with two sections.\<close>

definition two_sections :: "fs \<Rightarrow> packet list list \<Rightarrow> nat \<Rightarrow> pcap_info \<Rightarrow> pools \<Rightarrow> bool" where
  "two_sections fs Rs pid p pools \<longleftrightarrow> opened_ok fs Rs pid p pools \<and> concat Rs \<noteq> []
     \<and> 0 < count0 p \<and> 0 < count1 p \<and> active_section_idx p = 0 \<and> pkt_index p = 0
     \<and> reload_request p = -1 \<and> reload_in_progress p = -1 \<and> section_locked p = (\<lambda>_. 0)"

lemma start_inv:
  assumes "two_sections fs Rs pid p pools"
  shows "replay_inv pid (replay_start p pools)" and "data_inv fs Rs pid (replay_start p pools)"
proof -
  show "replay_inv pid (replay_start p pools)"
    using assms
    by (auto simp: two_sections_def opened_ok_def section_ok_def replay_inv_def replay_start_def
        mutex_inv_def request_inv_def ctl_inv_def loaded_inv_def all_less_2 word_less_nat_alt split: if_splits)
  show "data_inv fs Rs pid (replay_start p pools)"
    using assms
    by (auto simp: two_sections_def opened_ok_def section_ok_def data_inv_def replay_start_def all_less_2
        split: if_splits)
qed

text \<open>A capture with two sections of 64 buffers.\<close>

definition sample_scanned :: pcap_info where
  "sample_scanned = (case pcap_get_info sample_fs sample_info of
     Inr p \<Rightarrow> set_counts 64 64 p | Inl _ \<Rightarrow> sample_info)"

definition sample_two :: "pcap_info \<times> pools" where
  "sample_two = (case pcap_create_sections sample_fs sample_env 0 sample_scanned (\<lambda>_. []) of
     Some (Inr r) \<Rightarrow> r | _ \<Rightarrow> (sample_info, \<lambda>_. []))"

lemma sample_two:
  "two_sections sample_fs [sample_packets] 0 (fst sample_two) (snd sample_two)"
  "count0 (fst sample_two) = 64" "count1 (fst sample_two) = 64"
proof -
  have src: "captures sample_fs (source_files sample_info) [sample_packets]"
    "source_file_count sample_info = of_nat (length [sample_packets])"
    using sample_captures by (simp_all add: sample_info_def)
  have len: "length [sample_packets] < 2 ^ 32" "length (concat [sample_packets]) < 2 ^ 32"
    using sample_nonempty(2) by simp_all
  from get_info [OF src(1) sample_nonempty(1) src(2) len] obtain i c a st conv where
    info: "pcap_get_info sample_fs sample_info = Inr (sample_info\<lparr>info := i, convert := c,
        pkt_count := of_nat (length (concat [sample_packets])), max_pkt_size := max_len 0 (concat [sample_packets]),
        avg_pkt_size := a, fp := Some st, source_file_index := 0, source_convert := conv\<rparr>)"
    and at: "reader_at sample_fs [sample_packets] 0 (sample_info\<lparr>info := i, convert := c,
        pkt_count := of_nat (length (concat [sample_packets])), max_pkt_size := max_len 0 (concat [sample_packets]),
        avg_pkt_size := a, fp := Some st, source_file_index := 0, source_convert := conv\<rparr>)" .
  define p where "p = set_counts 64 64 (sample_info\<lparr>info := i, convert := c,
        pkt_count := of_nat (length (concat [sample_packets])), max_pkt_size := max_len 0 (concat [sample_packets]),
        avg_pkt_size := a, fp := Some st, source_file_index := 0, source_convert := conv\<rparr>)"
  have scanned: "sample_scanned = p" by (simp add: sample_scanned_def info p_def)
  have at_p: "reader_at sample_fs [sample_packets] 0 p"
    using at by (simp add: p_def set_counts_def sec_simps)
  have "\<forall>r \<in> set (concat [sample_packets]). unat (incl_len (fst r)) \<le> 65344"
    by (simp add: sample_packets_def written_packet_def small_mbuf_def)
  note m = total_len_roomy [OF this sample_nonempty(1)]
  have size: "max_pkt_size p = max_len 0 (concat [sample_packets])"
    by (simp add: p_def set_counts_def sec_simps)
  have "roomy_size [sample_packets] (max_pkt_size p)"
    unfolding roomy_size_def size using m room_iff [of "max_len 0 (concat [sample_packets])"]
    by (blast intro: order_trans)
  from create_sections [OF at_p sample_nonempty(1) this, of sample_env 0 "\<lambda>_. []"] obtain p' pools' where
    *: "pcap_create_sections sample_fs sample_env 0 p (\<lambda>_. []) = Some (Inr (p', pools'))"
      "opened_ok sample_fs [sample_packets] 0 p' pools'" "count0 p' = count0 p" "count1 p' = count1 p"
      "same_control (p\<lparr>pcap_mp := Some (pcap_pool 0 0)\<rparr>) p'"
    by (auto simp: sample_env_def)
  have two: "sample_two = (p', pools')" by (simp add: sample_two_def scanned *(1))
  have counts: "count0 p = 64" "count1 p = 64" by (simp_all add: p_def)
  have "active_section_idx p = 0" "pkt_index p = 0" "reload_request p = -1" "reload_in_progress p = -1"
    "section_locked p = (\<lambda>_. 0)"
    by (simp_all add: p_def set_counts_def sec_simps sample_info_def)
  then show "two_sections sample_fs [sample_packets] 0 (fst sample_two) (snd sample_two)"
    "count0 (fst sample_two) = 64" "count1 (fst sample_two) = 64"
    using * counts sample_nonempty(1) by (simp_all add: two two_sections_def same_control_def)
qed

fun schedule :: "fs \<Rightarrow> nat \<Rightarrow> thread list \<Rightarrow> sys \<Rightarrow> sys option" where
  "schedule fs burst [] s = Some s"
| "schedule fs burst (t # ts) s =
     (case (case t of Worker \<Rightarrow> pcap_reload_worker fs s | Tx \<Rightarrow> pktgen_send_pkts burst s) of
        None \<Rightarrow> None | Some s1 \<Rightarrow> schedule fs burst ts s1)"

lemma schedule_reachable:
  "reachable fs burst s0 s \<Longrightarrow> schedule fs burst ts s = Some s' \<Longrightarrow> reachable fs burst s0 s'"
proof (induction ts arbitrary: s)
  case Nil
  then show ?case by simp
next
  case (Cons t ts)
  then obtain s1 where s1: "schedule fs burst ts s1 = Some s'"
    "(case t of Worker \<Rightarrow> pcap_reload_worker fs s | Tx \<Rightarrow> pktgen_send_pkts burst s) = Some s1"
    by (auto split: option.splits)
  then have "step fs burst s s1" by (cases t) (auto intro: step.intros)
  with Cons s1 show ?case by (auto intro: reachable.step)
qed

lemma next_section_simps [simp]: "next_section 0 = 1" "next_section (Suc 0) = 0"
  by (simp_all add: next_section_def PCAP_NUM_SECTIONS_def)

lemma two_sections_facts:
  assumes "two_sections fs Rs pid p pools" and "count0 p = burst" and "count1 p = burst" and "1 < burst"
  obtains st where "fp p = Some st" and "(of_nat burst :: u32) \<noteq> 0"
    and "sec_pkt_count (sections p 0) = of_nat burst" and "sec_pkt_count (sections p (Suc 0)) = of_nat burst"
    and "sec_pkt_loaded (sections p 0) = of_nat burst" and "sec_pkt_loaded (sections p (Suc 0)) = of_nat burst"
    and "sec_mp (sections p 0) = Some (pcap_pool pid 0)"
    and "sec_mp (sections p (Suc 0)) = Some (pcap_pool pid (Suc 0))"
    and "length (pools (pcap_pool pid 0)) = burst" and "length (pools (pcap_pool pid (Suc 0))) = burst"
    and "active_section_idx p = 0" and "pkt_index p = 0" and "reload_request p = -1"
    and "reload_in_progress p = -1" and "section_locked p = (\<lambda>_. 0)"
proof -
  let ?w = "of_nat burst :: u32"
  from assms have c: "sec_pkt_count (sections p 0) = ?w" "sec_pkt_count (sections p (Suc 0)) = ?w"
    by (auto simp: word_unat_eq_iff)
  from assms(4) c(1) assms(2) have w: "?w \<noteq> 0" by (auto simp: word_unat_eq_iff)
  from assms(1) have ok: "opened_ok fs Rs pid p pools" and c1: "count1 p \<noteq> 0"
    and start: "active_section_idx p = 0" "pkt_index p = 0"
    "reload_request p = -1" "reload_in_progress p = -1" "section_locked p = (\<lambda>_. 0)"
    by (simp_all add: two_sections_def)
  from ok c1 have "section_ok Rs p pools 0 (pcap_pool pid 0)" "section_ok Rs p pools 1 (pcap_pool pid 1)"
    "sec_pkt_loaded (sections p 0) = sec_pkt_count (sections p 0)"
    "sec_pkt_loaded (sections p 1) = sec_pkt_count (sections p 1)"
    unfolding opened_ok_def by (simp_all only: if_False)
  then have l: "sec_pkt_loaded (sections p 0) = ?w" "sec_pkt_loaded (sections p (Suc 0)) = ?w"
    and mp: "sec_mp (sections p 0) = Some (pcap_pool pid 0)" "sec_mp (sections p (Suc 0)) = Some (pcap_pool pid (Suc 0))"
    and len: "length (pools (pcap_pool pid 0)) = burst" "length (pools (pcap_pool pid (Suc 0))) = burst"
    using c assms(2,3) by (simp_all add: section_ok_def)
  from ok obtain st where "fp p = Some st" by (auto simp: opened_ok_def reader_at_def)
  from that [OF this w c l mp len start] show thesis .
qed

lemmas run_defs = pktgen_send_pkts_def pcap_reload_worker_def l2p_get_pcap_mp_def lock_section_def
  signal_reload_def send_burst_def load_begin_def pcap_section_reset_def PCAP_NUM_SECTIONS_def
  replay_start_def Let_def sec_simps

lemma reach_race:
  assumes "two_sections fs Rs pid p pools" and "count0 p = burst" and "count1 p = burst" and "1 < burst"
  shows "\<exists>s. reachable fs burst (replay_start p pools) s \<and> s_tx s = TX_while_loaded 1 \<and> s_wk s = WK_load 0 0
    \<and> active_section_idx (s_pcap s) = 1"
proof (rule two_sections_facts [OF assms], goal_cases)
  case (1 st)
  have "\<exists>s. schedule fs burst [Tx, Tx, Tx, Tx, Tx, Worker, Worker, Worker, Tx, Tx, Tx] (replay_start p pools) = Some s
    \<and> s_tx s = TX_while_loaded 1 \<and> s_wk s = WK_load 0 0 \<and> active_section_idx (s_pcap s) = 1"
    by (simp add: 1 run_defs)
  then show ?case using schedule_reachable [OF reachable.init] by blast
qed

lemma reach_wait:
  assumes "two_sections fs Rs pid p pools" and "count0 p = burst" and "count1 p = burst" and "1 < burst"
  shows "\<exists>s. reachable fs burst (replay_start p pools) s \<and> s_tx s = TX_wait_locked 1 False \<and> s_wk s = WK_lock"
proof (rule two_sections_facts [OF assms], goal_cases)
  case (1 st)
  have "\<exists>s. schedule fs burst [Tx, Tx, Tx, Tx, Tx, Tx, Tx, Tx] (replay_start p pools) = Some s
    \<and> s_tx s = TX_wait_locked 1 False \<and> s_wk s = WK_lock"
    by (simp add: 1 run_defs)
  then show ?case using schedule_reachable [OF reachable.init] by blast
qed

text \<open>
  C2 Control of the two sections: in every state that the reload thread, the sending
  thread and the device can reach, the process has not been ended; the two threads do not both hold the mutex; when
  the sending thread is about to switch, no other reload request is pending, so the request
  it makes overwrites none; a section is locked exactly while a reload of it is requested or in progress; and a section that is
  not being reloaded is completely loaded.
\<close>

theorem replay_control_safe:
  assumes "two_sections fs Rs pid p pools" and "reachable fs burst (replay_start p pools) s"
  shows "s_exit s = None \<and> \<not> (s_wk s = WK_while \<and> tx_holds (s_tx s))
    \<and> (\<forall>i. s_tx s = TX_switch i \<longrightarrow> i = active_section_idx (s_pcap s) \<and> reload_request (s_pcap s) = -1)
    \<and> (\<forall>j<2. section_locked (s_pcap s) j \<noteq> 0
          \<longleftrightarrow> reload_request (s_pcap s) = int j \<or> reload_in_progress (s_pcap s) = int j)
    \<and> (\<forall>j<2. reload_in_progress (s_pcap s) \<noteq> int j
          \<longrightarrow> sec_pkt_loaded (sections (s_pcap s) j) = sec_pkt_count (sections (s_pcap s) j))"
proof -
  note inv = reachable_both [OF assms(2) start_inv [OF assms(1)]]
  then have m: "mutex_inv (s_owner s) (s_wk s) (s_tx s)"
    and ctl: "ctl_inv (active_section_idx (s_pcap s)) (reload_request (s_pcap s))
        (reload_in_progress (s_pcap s)) (section_locked (s_pcap s)) (s_wk s)"
    and tx: "tx_inv (active_section_idx (s_pcap s)) (reload_request (s_pcap s))
        (reload_in_progress (s_pcap s)) (section_locked (s_pcap s)) (s_tx s)"
    and li: "loaded_inv pid (s_pcap s) (s_pools s) (s_wk s)"
    by (simp_all add: replay_inv_def request_inv_def)
  have g: "reload_in_progress (s_pcap s) = loading_of (s_wk s)" using ctl by (simp add: ctl_inv_def)
  have "sec_pkt_loaded (sections (s_pcap s) j) = sec_pkt_count (sections (s_pcap s) j)"
    if j: "j < 2" and "reload_in_progress (s_pcap s) \<noteq> int j" for j
  proof -
    have "progress (s_wk s) j n = n" for n using that g by (cases "s_wk s") auto
    with li [unfolded loaded_inv_def, rule_format, OF j] show ?thesis by (simp add: word_unat_eq_iff)
  qed
  moreover have "\<not> (s_wk s = WK_while \<and> tx_holds (s_tx s))" using m by (auto simp: mutex_inv_def)
  moreover have "s_tx s = TX_switch i \<Longrightarrow> i = active_section_idx (s_pcap s) \<and> reload_request (s_pcap s) = -1" for i
    using tx by simp
  ultimately show ?thesis
    using inv ctl_inv_lock [OF ctl] by (simp add: data_inv_def)
qed

theorem replay_control_safe_witness:
  "s_exit (replay_start (fst sample_two) (snd sample_two)) = None
   \<and> sec_pkt_loaded (sections (s_pcap (replay_start (fst sample_two) (snd sample_two))) 1)
       = sec_pkt_count (sections (s_pcap (replay_start (fst sample_two) (snd sample_two))) 1)"
proof -
  have "reload_in_progress (s_pcap (replay_start (fst sample_two) (snd sample_two))) = -1"
    using sample_two(1) by (simp add: replay_start_def two_sections_def)
  with replay_control_safe [OF sample_two(1) reachable.init] show ?thesis by auto
qed

text \<open>
  C3 No lost wake-up: whenever the sending thread waits for the other section without having been woken, and the reload
  thread is not in the middle of its test of the request, steps of the reload thread alone lead to a state in which the
  sending thread has been woken, the mutex is free, and the other section is unlocked and completely loaded with at least
  one packet, so both conditions it can wait for hold.
\<close>

theorem tx_wait_ends:
  assumes "two_sections fs Rs pid p pools" and "reachable fs burst (replay_start p pools) s"
    and "tx_blocked (s_tx s) = Some a" and "s_wk s \<noteq> WK_while"
  shows "\<exists>s'. worker_runs fs s s' \<and> s_owner s' = None \<and> s_tx s' = tx_woken (s_tx s)
    \<and> section_locked (s_pcap s') (1 - a) = 0
    \<and> sec_pkt_loaded (sections (s_pcap s') (1 - a)) = sec_pkt_count (sections (s_pcap s') (1 - a))
    \<and> 0 < sec_pkt_count (sections (s_pcap s') (1 - a))"
  using reachable_both [OF assms(2) start_inv [OF assms(1)]] wait_ends [OF _ _ assms(3,4)] by blast

theorem tx_wait_ends_witness:
  "\<exists>s s'. reachable sample_fs 64 (replay_start (fst sample_two) (snd sample_two)) s
     \<and> s_tx s = TX_wait_locked 1 False \<and> worker_runs sample_fs s s' \<and> s_tx s' = TX_wait_locked 1 True
     \<and> section_locked (s_pcap s') 0 = 0"
proof -
  from reach_wait [OF sample_two] obtain s where s: "s_tx s = TX_wait_locked 1 False" "s_wk s = WK_lock"
    "reachable sample_fs 64 (replay_start (fst sample_two) (snd sample_two)) s" by auto
  from tx_wait_ends [OF sample_two(1) s(3), of 1] s show ?thesis by auto
qed

lemma step_no_exit:
  assumes "step fs burst s s'" and "s_wk s \<noteq> WK_exit"
  shows "s_wk s' \<noteq> WK_exit"
proof (rule step_cases [OF assms(1)])
  assume "pcap_reload_worker fs s = Some s'"
  with assms(2) show ?thesis
    by (auto simp: pcap_reload_worker_def Let_def broadcast_done_def
        split: wk_pc.splits if_splits option.splits sum.splits)
next
  assume "pktgen_send_pkts burst s = Some s'"
  with assms(2) show ?thesis
    by (cases "s_wk s") (auto simp: pktgen_send_pkts_def Let_def signal_reload_def split: tx_pc.splits if_splits)
next
  assume "nic_step s = Some s'"
  with assms(2) show ?thesis by (auto simp: nic_step_def split: if_splits list.splits)
next
  fix t assume "s' = spurious t s"
  with assms(2) show ?thesis
    by (cases t; cases "s_wk s") (auto simp: spurious_def signal_reload_def broadcast_done_def)
qed

text \<open>
  C18 The reload thread cannot be stopped: the loop that waits for a request also waits while the
  request is \<open>-2\<close>, so the test for \<open>-2\<close> after it is never true; after \<open>pcap_reload_thread_stop\<close> has
  asked the thread to end, it does not end, whatever the threads do, and the \<open>pthread_join\<close> that
  follows does not return.
\<close>

theorem reload_thread_never_ends:
  assumes "s_wk s \<noteq> WK_exit" and "pcap_reload_thread_stop s = Some s1" and "reachable fs burst s1 s2"
  shows "s_wk s2 \<noteq> WK_exit"
proof -
  have "s_wk s1 \<noteq> WK_exit"
    using assms(1,2)
    by (cases "s_wk s") (auto simp: pcap_reload_thread_stop_def signal_reload_def split: if_splits)
  with assms(3) show ?thesis by (induction rule: reachable.induct) (auto dest: step_no_exit)
qed

definition sample_stopped :: sys where
  "sample_stopped = the (pcap_reload_thread_stop (replay_start (fst sample_two) (snd sample_two)))"

theorem reload_thread_never_ends_witness:
  "reload_request (s_pcap sample_stopped) = -2 \<and> s_wk sample_stopped \<noteq> WK_exit"
proof -
  have stop: "pcap_reload_thread_stop (replay_start (fst sample_two) (snd sample_two)) = Some sample_stopped"
    by (simp add: sample_stopped_def pcap_reload_thread_stop_def replay_start_def)
  moreover have "s_wk (replay_start (fst sample_two) (snd sample_two)) \<noteq> WK_exit"
    by (simp add: replay_start_def)
  moreover have "reload_request (s_pcap sample_stopped) = -2"
    by (simp add: sample_stopped_def pcap_reload_thread_stop_def replay_start_def signal_reload_def)
  ultimately show ?thesis using reload_thread_never_ends [OF _ stop reachable.init] by blast
qed

text \<open>
  C19 A section can be sent while it is reloaded: the test whether the other section is empty and the test of the loop that
  waits for it look at a counter that the reload thread changes without the mutex. If the first buffer is filled between
  the two tests, the sending thread switches to a section of which only that buffer has been filled
  again, and goes on to send from it.
\<close>

theorem switch_into_reload:
  assumes "two_sections fs Rs pid p pools" and "count0 p = burst" and "count1 p = burst" and "1 < burst"
  shows "\<exists>s. reachable fs burst (replay_start p pools) s \<and> s_tx s = TX_send \<and> s_mp s = Some (pcap_pool pid 0)
    \<and> active_section_idx (s_pcap s) = 0 \<and> s_wk s = WK_load 0 1
    \<and> unat (sec_pkt_loaded (sections (s_pcap s) 0)) = 1"
proof -
  from reach_race [OF assms] obtain s where s: "reachable fs burst (replay_start p pools) s"
    "s_tx s = TX_while_loaded 1" "s_wk s = WK_load 0 0" "active_section_idx (s_pcap s) = 1" by blast
  note inv = reachable_both [OF s(1) start_inv [OF assms(1)]]
  then have li: "loaded_inv pid (s_pcap s) (s_pools s) (s_wk s)" and run: "s_exit s = None"
    by (simp_all add: replay_inv_def data_inv_def)
  have 0: "(0::nat) < 2" by simp
  note l0 = li [unfolded loaded_inv_def, rule_format, OF 0] and mp1 = loaded_invD(1) [OF li, of 1]
  have pos: "0 < length (s_pools s (pcap_pool pid 0))" using l0 by (simp add: word_less_nat_alt)
  from cb_returns [OF conjunct2 [OF inv] li 0 pos] obtain p1 m where
    cb: "mbuf_iterate_cb fs (pcap_pool pid 0) (s_pcap s) (s_pools s (pcap_pool pid 0) ! 0) = Some (Inr (p1, m))" .
  note fr = cb_frame [OF cb section_from_pool [OF li 0]]
  note ctl = control_eqs [OF fr(1)] no_load_frame(1) [OF fr(1), of 1] no_load_frame(2) [OF fr(1)]
  have zero: "sec_pkt_loaded (sections (s_pcap s) 0) = 0" using l0 s(3) by (simp add: unat_eq_zero)
  then have one: "sec_pkt_loaded (sections p1 0) = 1" using fr(2) l0 by (simp add: not_le word_gt_0)
  let ?s1 = "s\<lparr>s_pcap := p1, s_pools := (s_pools s)(pcap_pool pid 0 := (s_pools s (pcap_pool pid 0))[0 := m]),
    s_wk := WK_load 0 1\<rparr>"
  have "pcap_reload_worker fs s = Some ?s1"
    using l0 cb pos s(3) run by (simp add: pcap_reload_worker_def)
  then have r1: "reachable fs burst (replay_start p pools) ?s1"
    using s(1) by (blast intro: step.worker reachable.step)
  have "\<exists>s'. schedule fs burst [Tx, Tx] ?s1 = Some s' \<and> s_tx s' = TX_send \<and> s_mp s' = Some (pcap_pool pid 0)
    \<and> active_section_idx (s_pcap s') = 0 \<and> s_wk s' = WK_load 0 1
    \<and> unat (sec_pkt_loaded (sections (s_pcap s') 0)) = 1"
    using l0 s(2,4) ctl one run
    by (simp add: pktgen_send_pkts_def lock_section_def signal_reload_def l2p_get_pcap_mp_def PCAP_NUM_SECTIONS_def)
  then show ?thesis using schedule_reachable [OF r1] by blast
qed

theorem switch_into_reload_witness:
  "\<exists>s. reachable sample_fs 64 (replay_start (fst sample_two) (snd sample_two)) s \<and> s_tx s = TX_send
    \<and> active_section_idx (s_pcap s) = 0 \<and> s_wk s = WK_load 0 1"
  using switch_into_reload [OF sample_two] by auto

end
