(* ===== verification/PcapReplay.thy ===== *)
theory PcapReplay
  imports PcapReload
begin

text \<open>
  The stream of packets that a port with two sections sends, when the reload thread and the device
  keep up: between two calls of \<open>pktgen_send_pkts\<close> the device sends everything it was given and the
  reload thread works until it waits for a request.
\<close>

subsection \<open>Calm rounds\<close>

text \<open>One call of \<open>pktgen_send_pkts\<close>; \<open>n\<close> bounds its steps, of which there are at most five without a wait.\<close>

fun tx_call :: "nat \<Rightarrow> nat \<Rightarrow> sys \<Rightarrow> sys option" where
  "tx_call 0 burst s = None"
| "tx_call (Suc n) burst s =
     (case pktgen_send_pkts burst s of
        None \<Rightarrow> None
      | Some s1 \<Rightarrow> if s_tx s1 = TX_start then Some s1 else tx_call n burst s1)"

fun nic_run :: "nat \<Rightarrow> sys \<Rightarrow> sys option" where
  "nic_run 0 s = Some s"
| "nic_run (Suc n) s = (case nic_step s of None \<Rightarrow> None | Some s1 \<Rightarrow> nic_run n s1)"

definition calm_round :: "fs \<Rightarrow> nat \<Rightarrow> sys \<Rightarrow> sys \<Rightarrow> bool" where
  "calm_round fs burst s s' \<longleftrightarrow>
     (\<exists>s1 s2. tx_call 5 burst s = Some s1 \<and> nic_run (length (s_flying s1)) s1 = Some s2
        \<and> worker_runs fs s2 s' \<and> pcap_reload_worker fs s' = None)"

inductive calm :: "fs \<Rightarrow> nat \<Rightarrow> sys \<Rightarrow> nat \<Rightarrow> sys \<Rightarrow> bool" for fs burst s0 where
  start: "worker_runs fs s0 s \<Longrightarrow> pcap_reload_worker fs s = None \<Longrightarrow> calm fs burst s0 0 s"
| round: "calm fs burst s0 n s \<Longrightarrow> calm_round fs burst s s' \<Longrightarrow> calm fs burst s0 (Suc n) s'"

inductive_cases calm_0: "calm fs burst s0 0 s"
inductive_cases calm_Suc: "calm fs burst s0 (Suc n) s"

text \<open>The reload thread is deterministic.\<close>

lemma worker_runs_unique:
  assumes "worker_runs fs s a" and "pcap_reload_worker fs a = None"
    and "worker_runs fs s b" and "pcap_reload_worker fs b = None"
  shows "a = b"
  using assms(1,3)
proof (induction rule: converse_rtranclp_induct)
  case base
  then show ?case using assms(2) by (cases rule: converse_rtranclpE) auto
next
  case (step s s1)
  from step.prems show ?case
  proof (cases rule: converse_rtranclpE)
    case base
    with step.hyps(1) assms(4) show ?thesis by simp
  next
    case (step s2)
    with \<open>pcap_reload_worker fs s = Some s1\<close> show ?thesis using step.IH by auto
  qed
qed

lemma calm_round_unique: "calm_round fs burst s a \<Longrightarrow> calm_round fs burst s b \<Longrightarrow> a = b"
  by (auto simp: calm_round_def intro: worker_runs_unique)

lemma calm_unique: "calm fs burst s0 n a \<Longrightarrow> calm fs burst s0 n b \<Longrightarrow> a = b"
proof (induction arbitrary: b rule: calm.induct)
  case (start s)
  from start.prems show ?case
    by (rule calm_0) (blast intro: worker_runs_unique [OF start.hyps])
next
  case (round n s s')
  from round.prems show ?case
    by (rule calm_Suc) (use round in \<open>blast intro: calm_round_unique\<close>)
qed

subsection \<open>The device\<close>

lemma nic_run_drains:
  assumes "s_flying s = map (Pair q) ks" and "s_exit s = None"
  shows "nic_run (length ks) s = Some (s\<lparr>s_flying := [],
     s_wire := s_wire s @ map (\<lambda>k. pkt_data (s_pools s q ! k)) ks,
     s_free := (s_free s)(q := s_free s q @ ks)\<rparr>)"
  using assms
proof (induction ks arbitrary: s)
  case Nil
  then show ?case by (cases s) simp
next
  case (Cons k ks)
  let ?s1 = "s\<lparr>s_flying := map (Pair q) ks, s_wire := s_wire s @ [pkt_data (s_pools s q ! k)],
     s_free := (s_free s)(q := s_free s q @ [k])\<rparr>"
  have "nic_step s = Some ?s1" using Cons.prems by (simp add: nic_step_def)
  moreover have "nic_run (length ks) ?s1 = Some (?s1\<lparr>s_flying := [],
     s_wire := s_wire ?s1 @ map (\<lambda>k. pkt_data (s_pools ?s1 q ! k)) ks,
     s_free := (s_free ?s1)(q := s_free ?s1 q @ ks)\<rparr>)"
    by (rule Cons.IH) (simp_all add: Cons.prems)
  ultimately show ?case by (simp add: fun_upd_def cong: if_cong)
qed

subsection \<open>One reload\<close>

text \<open>The data that the steps of a load write.\<close>

definition filled :: "fs \<Rightarrow> packet list list \<Rightarrow> nat \<Rightarrow> nat \<Rightarrow> nat \<Rightarrow> nat \<Rightarrow> sys \<Rightarrow> bool" where
  "filled fs Rs pid i n k s \<longleftrightarrow> reader_at fs Rs (n + k) (s_pcap s)
     \<and> map pkt_data (take k (s_pools s (pcap_pool pid i))) = cyc_take (map snd (concat Rs)) n k"

text \<open>What a load leaves alone.\<close>

definition load_frame :: "nat \<Rightarrow> nat \<Rightarrow> sys \<Rightarrow> sys \<Rightarrow> bool" where
  "load_frame pid i s s' \<longleftrightarrow> same_requests s s' \<and> s_free s' = s_free s \<and> s_flying s' = s_flying s
     \<and> s_wire s' = s_wire s \<and> (\<forall>q. q \<noteq> pcap_pool pid i \<longrightarrow> s_pools s' q = s_pools s q)
     \<and> pkt_index (s_pcap s') = pkt_index (s_pcap s)
     \<and> (\<forall>j. sec_pkt_count (sections (s_pcap s') j) = sec_pkt_count (sections (s_pcap s) j))"

lemma load_frame_trans: "load_frame pid i s s' \<Longrightarrow> load_frame pid i s' s'' \<Longrightarrow> load_frame pid i s s''"
  by (auto simp: load_frame_def intro: same_requests_trans)

lemma load_buffer:
  assumes "replay_inv pid s" and "data_inv fs Rs pid s" and "s_wk s = WK_load i k" and "filled fs Rs pid i n k s"
    and "k < length (s_pools s (pcap_pool pid i))"
  shows "\<exists>s'. pcap_reload_worker fs s = Some s' \<and> s_wk s' = WK_load i (Suc k) \<and> filled fs Rs pid i n (Suc k) s'
    \<and> load_frame pid i s s'
    \<and> length (s_pools s' (pcap_pool pid i)) = length (s_pools s (pcap_pool pid i))"
proof -
  let ?mp = "pcap_pool pid i"
  have run: "s_exit s = None" and ne: "concat Rs \<noteq> []" using assms(2) by (simp_all add: data_inv_def)
  have li: "loaded_inv pid (s_pcap s) (s_pools s) (s_wk s)" using assms(1) by (simp add: replay_inv_def)
  have i: "i < 2" using assms(1,3) by (auto simp: replay_inv_def request_inv_def ctl_inv_def)
  note l = li [unfolded loaded_inv_def, rule_format, OF i]
  have at: "loading fs Rs ?mp i (s_pcap s) (n + k) (s_pcap s)"
    using assms(4) ne section_from_pool [OF li i] l by (auto simp: filled_def loading_def word_le_nat_alt)
  have room: "0 < sec_room i (s_pcap s)" using l assms(3,5) by (simp add: sec_room_def)
  have fits: "roomy Rs (s_pools s ?mp ! k)" using assms(2,5) i by (simp add: data_inv_def list_all_length)
  from loader.fill [OF at room fits] obtain p m where
    cb: "mbuf_iterate_cb fs ?mp (s_pcap s) (s_pools s ?mp ! k) = Some (Inr (p, m))"
    and at': "loading fs Rs ?mp i (s_pcap s) (Suc (n + k)) p" and m: "pkt_data m = cyc (map snd (concat Rs)) (n + k)"
    by blast
  note frame = cb_frame(1) [OF cb section_from_pool [OF li i]]
  let ?s' = "s\<lparr>s_pcap := p, s_pools := (s_pools s)(?mp := (s_pools s ?mp)[k := m]), s_wk := WK_load i (Suc k)\<rparr>"
  have "pcap_reload_worker fs s = Some ?s'"
    using l assms(3,5) cb by (simp add: pcap_reload_worker_def run)
  moreover have "filled fs Rs pid i n (Suc k) ?s'"
    using assms(4,5) at' m
    by (simp add: filled_def loading_def take_Suc_conv_app_nth cyc_take_Suc)
  moreover have "sec_pkt_count (sections p j) = sec_pkt_count (sections (s_pcap s) j)" for j
    using no_load_frame(1) [OF frame, of j] no_load_frame(3) [OF frame] by (cases "j = i") auto
  then have "load_frame pid i s ?s'"
    using control_eqs [OF frame] no_load_frame(12) [OF frame] by (simp add: load_frame_def same_requests_def)
  ultimately show ?thesis by (intro exI [of _ ?s']) simp
qed

lemma load_rest:
  assumes "replay_inv pid s" and "data_inv fs Rs pid s" and "s_wk s = WK_load i k" and "filled fs Rs pid i n k s"
    and "k \<le> length (s_pools s (pcap_pool pid i))"
  shows "\<exists>s'. worker_runs fs s s' \<and> s_wk s' = WK_load i (length (s_pools s (pcap_pool pid i)))
    \<and> filled fs Rs pid i n (length (s_pools s (pcap_pool pid i))) s' \<and> load_frame pid i s s'
    \<and> length (s_pools s' (pcap_pool pid i)) = length (s_pools s (pcap_pool pid i))
    \<and> replay_inv pid s' \<and> data_inv fs Rs pid s'"
  using assms
proof (induction "length (s_pools s (pcap_pool pid i)) - k" arbitrary: s k)
  case 0
  then show ?case by (intro exI [of _ s]) (auto simp: load_frame_def same_requests_def)
next
  case (Suc x)
  then have "k < length (s_pools s (pcap_pool pid i))" by simp
  from load_buffer [OF Suc.prems(1-4) this] obtain s1 where
    1: "pcap_reload_worker fs s = Some s1" "s_wk s1 = WK_load i (Suc k)" "filled fs Rs pid i n (Suc k) s1"
      "load_frame pid i s s1" "length (s_pools s1 (pcap_pool pid i)) = length (s_pools s (pcap_pool pid i))"
    by blast
  have x: "x = length (s_pools s1 (pcap_pool pid i)) - Suc k" and le: "Suc k \<le> length (s_pools s1 (pcap_pool pid i))"
    using Suc.hyps(2) Suc.prems(5) 1(5) by simp_all
  from Suc.hyps(1) [OF x worker_step_inv [OF 1(1) Suc.prems(1)] worker_keeps_data [OF Suc.prems(1,2) 1(1)] 1(2,3) le]
  show ?case using 1 by (auto intro: converse_rtranclp_into_rtranclp load_frame_trans)
qed

text \<open>What a whole reload leaves alone, and where it ends.\<close>

definition reload_frame :: "nat \<Rightarrow> nat \<Rightarrow> sys \<Rightarrow> sys \<Rightarrow> bool" where
  "reload_frame pid i s s' \<longleftrightarrow> s_free s' = s_free s \<and> s_flying s' = s_flying s \<and> s_wire s' = s_wire s
     \<and> (\<forall>q. q \<noteq> pcap_pool pid i \<longrightarrow> s_pools s' q = s_pools s q)
     \<and> active_section_idx (s_pcap s') = active_section_idx (s_pcap s)
     \<and> pkt_index (s_pcap s') = pkt_index (s_pcap s)
     \<and> (\<forall>j. sec_pkt_count (sections (s_pcap s') j) = sec_pkt_count (sections (s_pcap s) j))"

definition resting :: "sys \<Rightarrow> bool" where
  "resting s \<longleftrightarrow> s_tx s = TX_start \<and> s_owner s = None \<and> s_wk s = WK_wait False
     \<and> reload_request (s_pcap s) = -1 \<and> s_exit s = None"

lemma resting_stuck: "resting s \<Longrightarrow> pcap_reload_worker fs s = None"
  by (simp add: resting_def pcap_reload_worker_def)

lemma load_done:
  assumes "s_wk s = WK_load i (length (s_pools s (pcap_pool pid i)))" and "s_exit s = None"
    and "sec_mp (sections (s_pcap s) i) = Some (pcap_pool pid i)" and "fp (s_pcap s) = Some st"
    and "s_owner s = None" and "s_tx s = TX_start" and "reload_request (s_pcap s) = -1"
    and "reader_at fs Rs n (s_pcap s)"
  shows "\<exists>s'. worker_runs fs s s' \<and> resting s' \<and> reload_frame pid i s s' \<and> reader_at fs Rs n (s_pcap s')
    \<and> s_pools s' = s_pools s"
proof -
  let ?p1 = "upd_section i (\<lambda>x. x\<lparr>file_offset_end := ftell st\<rparr>) (s_pcap s)"
  let ?s1 = "s\<lparr>s_pcap := ?p1, s_wk := WK_finish i\<rparr>"
  let ?p2 = "lock_section i 0 ?p1\<lparr>reload_in_progress := -1\<rparr>"
  let ?s2 = "?s1\<lparr>s_pcap := ?p2, s_wk := WK_lock\<rparr>"
  let ?s3 = "?s2\<lparr>s_owner := Some Worker, s_wk := WK_while\<rparr>"
  let ?s4 = "?s3\<lparr>s_owner := None, s_wk := WK_wait False\<rparr>"
  have 1: "pcap_reload_worker fs s = Some ?s1" using assms(1-4) by (simp add: pcap_reload_worker_def)
  have 2: "pcap_reload_worker fs ?s1 = Some ?s2"
    using assms(2,5,6) by (simp add: pcap_reload_worker_def broadcast_done_def)
  have 3: "pcap_reload_worker fs ?s2 = Some ?s3" using assms(2,5) by (simp add: pcap_reload_worker_def)
  have 4: "pcap_reload_worker fs ?s3 = Some ?s4"
    using assms(2,5,7) by (simp add: pcap_reload_worker_def lock_section_def sec_simps)
  have "worker_runs fs s ?s4"
    using 1 2 3 4 by (meson converse_rtranclp_into_rtranclp rtranclp.rtrancl_refl)
  moreover have "resting ?s4" using assms(2,6,7) by (simp add: resting_def lock_section_def sec_simps)
  moreover have "reload_frame pid i s ?s4" by (simp add: reload_frame_def lock_section_def sec_simps)
  moreover have "reader_at fs Rs n (s_pcap ?s4)" using assms(8) by (simp add: lock_section_def sec_simps)
  ultimately show ?thesis by (intro exI [of _ ?s4]) simp
qed

lemma reload_run:
  assumes "replay_inv pid s" and "data_inv fs Rs pid s" and "s_owner s = None" and "s_tx s = TX_start"
    and "reload_request (s_pcap s) = int i" and "loading_of (s_wk s) = -1" and "reader_at fs Rs n (s_pcap s)"
  shows "\<exists>s'. worker_runs fs s s' \<and> resting s' \<and> reload_frame pid i s s' \<and> replay_inv pid s' \<and> data_inv fs Rs pid s'
    \<and> map pkt_data (s_pools s' (pcap_pool pid i)) = cyc_take (map snd (concat Rs)) n (unat (sec_pkt_count (sections (s_pcap s) i)))
    \<and> reader_at fs Rs (n + unat (sec_pkt_count (sections (s_pcap s) i))) (s_pcap s')"
proof -
  have run: "s_exit s = None" using assms(2) by (simp add: data_inv_def)
  have wk: "s_wk s = WK_lock \<or> s_wk s = WK_wait True"
    using assms(1,3,5,6) by (cases "s_wk s") (auto simp: replay_inv_def mutex_inv_def request_inv_def ctl_inv_def)
  have i: "i < 2" using assms(1,5) by (auto simp: replay_inv_def request_inv_def ctl_inv_def)
  have li: "loaded_inv pid (s_pcap s) (s_pools s) (s_wk s)" using assms(1) by (simp add: replay_inv_def)
  note l = loaded_invD [OF li i]
  from assms(7) obtain st where st: "fp (s_pcap s) = Some st" by (auto simp: reader_at_def)
  let ?s1 = "s\<lparr>s_owner := Some Worker, s_wk := WK_while\<rparr>"
  let ?p2 = "(s_pcap s)\<lparr>reload_request := -1, reload_in_progress := int i\<rparr>"
  let ?s2 = "s\<lparr>s_pcap := ?p2, s_owner := None, s_wk := WK_begin i\<rparr>"
  let ?s3 = "s\<lparr>s_pcap := load_begin i st ?p2, s_owner := None, s_wk := WK_load i 0\<rparr>"
  have 1: "pcap_reload_worker fs s = Some ?s1" using wk assms(3) by (auto simp: pcap_reload_worker_def run)
  have 2: "pcap_reload_worker fs ?s1 = Some ?s2" using assms(5) by (simp add: pcap_reload_worker_def run)
  have 3: "pcap_reload_worker fs ?s2 = Some ?s3" using st l by (simp add: pcap_reload_worker_def run)
  have to3: "worker_runs fs s ?s3"
    using 1 2 3 by (meson converse_rtranclp_into_rtranclp rtranclp.rtrancl_refl)
  note i1 = worker_step_inv [OF 1 assms(1)] worker_keeps_data [OF assms(1,2) 1]
  note i2 = worker_step_inv [OF 2 i1(1)] worker_keeps_data [OF i1 2]
  note i3 = worker_step_inv [OF 3 i2(1)] worker_keeps_data [OF i2 3]
  have "filled fs Rs pid i n 0 ?s3"
    using assms(7) by (simp add: filled_def load_begin_def sec_simps)
  from load_rest [OF i3 _ this] obtain s4 where
    4: "worker_runs fs ?s3 s4" "s_wk s4 = WK_load i (length (s_pools s (pcap_pool pid i)))"
      "filled fs Rs pid i n (length (s_pools s (pcap_pool pid i))) s4" "load_frame pid i ?s3 s4"
      "length (s_pools s4 (pcap_pool pid i)) = length (s_pools s (pcap_pool pid i))"
      "replay_inv pid s4" "data_inv fs Rs pid s4"
    by auto
  have li4: "loaded_inv pid (s_pcap s4) (s_pools s4) (s_wk s4)" using 4(6) by (simp add: replay_inv_def)
  from 4(3) obtain st4 where st4: "fp (s_pcap s4) = Some st4" by (auto simp: filled_def reader_at_def)
  have fr: "s_tx s4 = TX_start" "s_owner s4 = None" "reload_request (s_pcap s4) = -1"
    using 4(4) assms(4) by (simp_all add: load_frame_def same_requests_def load_begin_def sec_simps)
  have wk4: "s_wk s4 = WK_load i (length (s_pools s4 (pcap_pool pid i)))" using 4(2,5) by simp
  have at4: "reader_at fs Rs (n + unat (sec_pkt_count (sections (s_pcap s) i))) (s_pcap s4)"
    using 4(3) l(3) by (simp add: filled_def)
  have run4: "s_exit s4 = None" using 4(7) by (simp add: data_inv_def)
  from load_done [OF wk4 run4 loaded_invD(1) [OF li4 i] st4 fr(2,1,3) at4] obtain s5 where
    5: "worker_runs fs s4 s5" "resting s5" "reload_frame pid i s4 s5"
      "reader_at fs Rs (n + unat (sec_pkt_count (sections (s_pcap s) i))) (s_pcap s5)" "s_pools s5 = s_pools s4"
    by blast
  have "worker_runs fs s s5" using to3 4(1) 5(1) by (meson rtranclp_trans)
  moreover have "replay_inv pid s5 \<and> data_inv fs Rs pid s5"
    using 5(1) 4(6,7) by (induction rule: rtranclp_induct) (auto intro: worker_step_inv worker_keeps_data)
  moreover have "reload_frame pid i s s5"
    using 4(4) 5(3) by (simp add: load_frame_def reload_frame_def same_requests_def load_begin_def sec_simps
        pcap_section_reset_def)
  moreover have "map pkt_data (s_pools s5 (pcap_pool pid i))
      = cyc_take (map snd (concat Rs)) n (unat (sec_pkt_count (sections (s_pcap s) i)))"
    using 4(3,5) 5(5) l(3) by (simp add: filled_def)
  ultimately show ?thesis using 5(2,4) by blast
qed

subsection \<open>The invariant of the stream\<close>

text \<open>
  Between the rounds: \<open>b\<close> packets were sent from the sections before the active one was switched to, and
  \<open>idx\<close> from the active one.
\<close>

abbreviation payloads :: "packet list list \<Rightarrow> u8 list list" where
  "payloads Rs \<equiv> map snd (concat Rs)"

definition stream_inv :: "fs \<Rightarrow> packet list list \<Rightarrow> nat \<Rightarrow> nat \<Rightarrow> nat \<Rightarrow> nat \<Rightarrow> sys \<Rightarrow> bool" where
  "stream_inv fs Rs pid burst b idx s \<longleftrightarrow>
     replay_inv pid s \<and> data_inv fs Rs pid s \<and> resting s \<and> s_flying s = []
     \<and> (let a = active_section_idx (s_pcap s);
            ca = unat (sec_pkt_count (sections (s_pcap s) a));
            co = unat (sec_pkt_count (sections (s_pcap s) (1 - a)))
        in burst dvd ca \<and> burst dvd co \<and> burst dvd idx \<and> idx \<le> ca
           \<and> pkt_index (s_pcap s) = of_nat idx
           \<and> s_free s (pcap_pool pid a) = [idx..<ca] @ [0..<idx]
           \<and> s_free s (pcap_pool pid (1 - a)) = [0..<co]
           \<and> map pkt_data (s_pools s (pcap_pool pid a)) = cyc_take (payloads Rs) b ca
           \<and> map pkt_data (s_pools s (pcap_pool pid (1 - a))) = cyc_take (payloads Rs) (b + ca) co
           \<and> reader_at fs Rs (b + ca + co) (s_pcap s)
           \<and> s_wire s = cyc_take (payloads Rs) 0 (b + idx))"

lemma map_nth_cyc_take:
  assumes "map f xs = cyc_take vs b c" and "m + n \<le> c"
  shows "map (\<lambda>k. f (xs ! k)) [m..<m + n] = cyc_take vs (b + m) n"
proof -
  have len: "length xs = c" using arg_cong [OF assms(1), of length] by simp
  have "map (\<lambda>k. f (xs ! k)) [m..<m + n] = take n (drop m (map f xs))"
    using assms(2) len by (intro nth_equalityI) simp_all
  also have "\<dots> = cyc_take vs (b + m) n"
    using assms(2) by (simp add: assms(1) cyc_take_def drop_map take_map drop_upt take_upt)
      (auto intro!: nth_equalityI simp: add.assoc)
  finally show ?thesis .
qed

lemma dvd_step: "burst dvd idx \<Longrightarrow> burst dvd c \<Longrightarrow> idx < c \<Longrightarrow> idx + burst \<le> c" for burst idx c :: nat
  by (metis dvd_diff_nat dvd_imp_le le_add_diff_inverse nat_add_left_cancel_le less_imp_le zero_less_diff)

text \<open>A round that goes on with the active section.\<close>

lemma round_send:
  assumes "replay_inv pid s" and "data_inv fs Rs pid s" and "resting s" and "s_flying s = []"
    and "pkt_index (s_pcap s) < sec_pkt_count (sections (s_pcap s) (active_section_idx (s_pcap s)))"
    and "s_free s (pcap_pool pid (active_section_idx (s_pcap s))) = xs" and "burst \<le> length xs"
  shows "\<exists>s'. calm_round fs burst s s' \<and> replay_inv pid s' \<and> data_inv fs Rs pid s' \<and> resting s'
    \<and> s_flying s' = [] \<and> s_pools s' = s_pools s
    \<and> s_pcap s' = (s_pcap s)\<lparr>pkt_index := pkt_index (s_pcap s) + of_nat burst\<rparr>
    \<and> s_free s' = (s_free s)(pcap_pool pid (active_section_idx (s_pcap s)) := drop burst xs @ take burst xs)
    \<and> s_wire s' = s_wire s @ map (\<lambda>k. pkt_data (s_pools s (pcap_pool pid (active_section_idx (s_pcap s))) ! k)) (take burst xs)"
proof -
  let ?p = "s_pcap s"
  let ?q = "pcap_pool pid (active_section_idx ?p)"
  have a: "active_section_idx ?p < 2" using assms(1) by (simp add: replay_inv_def request_inv_def ctl_inv_def)
  have li: "loaded_inv pid ?p (s_pools s) (WK_wait False)"
    using assms(1,3) by (simp add: replay_inv_def resting_def)
  note l = li [unfolded loaded_inv_def, rule_format, OF a]
  have mp: "l2p_get_pcap_mp ?p = Some ?q" using l a by (simp add: l2p_get_pcap_mp_def Let_def PCAP_NUM_SECTIONS_def)
  let ?s1 = "s\<lparr>s_mp := Some ?q, s_pcap := ?p\<lparr>pkt_index := pkt_index ?p + of_nat burst\<rparr>,
    s_free := (s_free s)(?q := drop burst xs), s_flying := map (Pair ?q) (take burst xs)\<rparr>"
  have start: "pktgen_send_pkts burst s = Some (s\<lparr>s_mp := Some ?q, s_tx := TX_send\<rparr>)"
    using assms(3,5) l mp by (simp add: pktgen_send_pkts_def resting_def Let_def word_le_nat_alt word_less_nat_alt)
  have send: "pktgen_send_pkts burst (s\<lparr>s_mp := Some ?q, s_tx := TX_send\<rparr>) = Some ?s1"
    using assms(3,4,6,7) by (cases s) (simp add: pktgen_send_pkts_def resting_def send_burst_def)
  have call: "tx_call 5 burst s = Some ?s1"
    using assms(3) by (simp add: numeral_eq_Suc start send) (simp add: resting_def)
  let ?s2 = "?s1\<lparr>s_flying := [], s_wire := s_wire ?s1 @ map (\<lambda>k. pkt_data (s_pools ?s1 ?q ! k)) (take burst xs),
     s_free := (s_free ?s1)(?q := s_free ?s1 ?q @ take burst xs)\<rparr>"
  have nic: "nic_run (length (s_flying ?s1)) ?s1 = Some ?s2"
    using nic_run_drains [of ?s1 ?q "take burst xs"] assms(3) by (simp add: resting_def)
  have rest: "resting ?s2" using assms(3) by (simp add: resting_def)
  have round: "calm_round fs burst s ?s2"
    unfolding calm_round_def using call nic resting_stuck [OF rest] by blast
  have "replay_inv pid ?s2" using assms(1)
    by (simp add: replay_inv_def request_inv_def) (simp add: loaded_inv_def)
  moreover have "data_inv fs Rs pid ?s2" using assms(2) by (simp add: data_inv_def)
  ultimately show ?thesis using round rest by (intro exI [of _ ?s2]) simp
qed

lemma round_inside:
  assumes inv: "stream_inv fs Rs pid burst b idx s"
    and less: "idx < unat (sec_pkt_count (sections (s_pcap s) (active_section_idx (s_pcap s))))" and "0 < burst"
  shows "\<exists>s'. calm_round fs burst s s' \<and> stream_inv fs Rs pid burst b (idx + burst) s'"
proof -
  let ?p = "s_pcap s"
  let ?a = "active_section_idx ?p"
  let ?ca = "unat (sec_pkt_count (sections ?p ?a))"
  let ?q = "pcap_pool pid ?a"
  from inv have st: "replay_inv pid s" "data_inv fs Rs pid s" "resting s" "s_flying s = []"
    and d: "burst dvd ?ca" "burst dvd idx" "pkt_index ?p = of_nat idx" "s_free s ?q = [idx..<?ca] @ [0..<idx]"
    "map pkt_data (s_pools s ?q) = cyc_take (payloads Rs) b ?ca" "s_wire s = cyc_take (payloads Rs) 0 (b + idx)"
    and e: "burst dvd unat (sec_pkt_count (sections ?p (1 - ?a)))"
    "s_free s (pcap_pool pid (1 - ?a)) = [0..<unat (sec_pkt_count (sections ?p (1 - ?a)))]"
    "map pkt_data (s_pools s (pcap_pool pid (1 - ?a)))
       = cyc_take (payloads Rs) (b + ?ca) (unat (sec_pkt_count (sections ?p (1 - ?a))))"
    "reader_at fs Rs (b + ?ca + unat (sec_pkt_count (sections ?p (1 - ?a)))) ?p"
    by (simp_all add: stream_inv_def Let_def)
  have a: "?a < 2" using st(1) by (simp add: replay_inv_def request_inv_def ctl_inv_def)
  have le: "idx + burst \<le> ?ca" by (rule dvd_step [OF d(2,1) less])
  have "unat (of_nat idx :: u32) = idx"
    using less unat_less_2p32 [of "sec_pkt_count (sections ?p ?a)"] by (simp add: unat_of_nat_small)
  then have i: "pkt_index ?p < sec_pkt_count (sections ?p ?a)" using less d(3) by (simp add: word_less_nat_alt)
  have split: "[idx..<?ca] = [idx..<idx + burst] @ [idx + burst..<?ca]"
    using le by (metis le_add1 le_add_diff_inverse upt_add_eq_append)
  have len: "burst \<le> length ([idx..<?ca] @ [0..<idx])" using le by simp
  have parts: "take burst ([idx..<?ca] @ [0..<idx]) = [idx..<idx + burst]"
    "drop burst ([idx..<?ca] @ [0..<idx]) = [idx + burst..<?ca] @ [0..<idx]"
    by (simp_all add: split)
  from round_send [OF st i d(4) len] obtain s' where
    round: "calm_round fs burst s s'" and s': "replay_inv pid s'" "data_inv fs Rs pid s'" "resting s'" "s_flying s' = []"
      "s_pools s' = s_pools s" "s_pcap s' = ?p\<lparr>pkt_index := pkt_index ?p + of_nat burst\<rparr>"
      "s_free s' = (s_free s)(?q := ([idx + burst..<?ca] @ [0..<idx]) @ [idx..<idx + burst])"
      "s_wire s' = s_wire s @ map (\<lambda>k. pkt_data (s_pools s ?q ! k)) [idx..<idx + burst]"
    unfolding parts by blast
  have 3: "s_wire s' = cyc_take (payloads Rs) 0 (b + (idx + burst))"
  proof -
    have "cyc_take (payloads Rs) 0 (b + (idx + burst))
        = cyc_take (payloads Rs) 0 (b + idx) @ cyc_take (payloads Rs) (b + idx) burst"
      using cyc_take_add [of "payloads Rs" 0 "b + idx" burst] unfolding add_0 add.assoc .
    then show ?thesis unfolding s'(8) d(6) map_nth_cyc_take [OF d(5) le] by (rule sym)
  qed
  have 4: "[0..<idx] @ [idx..<idx + burst] = [0..<idx + burst]"
    by (rule upt_add_eq_append [symmetric]) simp
  have ne: "1 - ?a \<noteq> ?a" using a by arith
  have f: "active_section_idx (s_pcap s') = ?a" "sections (s_pcap s') = sections ?p"
    "pkt_index (s_pcap s') = of_nat (idx + burst)"
    "s_free s' ?q = [idx + burst..<?ca] @ [0..<idx + burst]"
    "s_free s' (pcap_pool pid (1 - ?a)) = s_free s (pcap_pool pid (1 - ?a))"
    "reader_at fs Rs n (s_pcap s') = reader_at fs Rs n ?p" for n
    using ne by (simp_all add: s'(6,7) d(3) 4)
  have "stream_inv fs Rs pid burst b (idx + burst) s'"
    unfolding stream_inv_def Let_def f 3 s'(5)
    using e d(1,2,5) le s'(1-4) by simp
  with round show ?thesis by blast
qed

text \<open>A round that switches to the other section, which the reload thread then refills.\<close>

lemma round_switch:
  assumes inv: "stream_inv fs Rs pid burst b idx s"
    and full: "idx = unat (sec_pkt_count (sections (s_pcap s) (active_section_idx (s_pcap s))))" and "0 < burst"
  shows "\<exists>s'. calm_round fs burst s s' \<and> stream_inv fs Rs pid burst (b + idx) burst s'"
proof -
  let ?p = "s_pcap s"
  define a where "a = active_section_idx ?p"
  define e where "e = 1 - a"
  let ?ca = "unat (sec_pkt_count (sections ?p a))"
  let ?co = "unat (sec_pkt_count (sections ?p e))"
  let ?q = "pcap_pool pid e"
  from inv have st: "replay_inv pid s" "data_inv fs Rs pid s" "resting s" "s_flying s = []"
    and d: "burst dvd ?ca" "burst dvd ?co" "pkt_index ?p = of_nat idx" "s_free s (pcap_pool pid a) = [idx..<?ca] @ [0..<idx]"
    "s_free s ?q = [0..<?co]" "map pkt_data (s_pools s ?q) = cyc_take (payloads Rs) (b + ?ca) ?co"
    "reader_at fs Rs (b + ?ca + ?co) ?p" "s_wire s = cyc_take (payloads Rs) 0 (b + idx)"
    by (simp_all add: stream_inv_def Let_def a_def e_def)
  have idx: "idx = ?ca" using full by (simp add: a_def)
  have a: "a < 2" using st(1) by (simp add: replay_inv_def request_inv_def ctl_inv_def a_def)
  then have e: "e < 2" "e \<noteq> a" "1 - e = a" "next_section a = e"
    by (auto simp: e_def less_2_cases_iff)
  have li: "loaded_inv pid ?p (s_pools s) (WK_wait False)" using st(1,3) by (simp add: replay_inv_def resting_def)
  note la = li [unfolded loaded_inv_def, rule_format, OF a] and lo = li [unfolded loaded_inv_def, rule_format, OF e(1)]
  have i32: "of_nat idx = sec_pkt_count (sections ?p a)" using idx by simp
  have loaded: "sec_pkt_loaded (sections ?p a) = sec_pkt_count (sections ?p a)"
    "sec_pkt_loaded (sections ?p e) \<noteq> 0"
    using la lo by (auto simp: word_unat_eq_iff word_less_nat_alt)
  have run: "s_exit s = None" "s_owner s = None" "s_tx s = TX_start" "s_wk s = WK_wait False"
    using st(3) by (simp_all add: resting_def)
  have locked: "section_locked ?p e = 0"
    using st(1) run(4) e(1) by (auto simp: replay_inv_def request_inv_def ctl_inv_def)
  have le: "burst \<le> ?co" using d(2) lo by (intro dvd_imp_le) (simp_all add: word_less_nat_alt)
  let ?p1 = "(lock_section a 1 ?p)\<lparr>active_section_idx := e, pkt_index := 0, reload_request := int a\<rparr>"
  let ?s0 = "s\<lparr>s_pcap := ?p1, s_mp := Some ?q, s_wk := WK_wait True\<rparr>"
  let ?s1 = "?s0\<lparr>s_pcap := ?p1\<lparr>pkt_index := of_nat burst\<rparr>,
    s_free := (s_free s)(?q := [burst..<?co]), s_flying := map (Pair ?q) [0..<burst]\<rparr>"
  have mp: "l2p_get_pcap_mp ?p1 = Some ?q"
    using lo e by (simp add: l2p_get_pcap_mp_def Let_def PCAP_NUM_SECTIONS_def lock_section_def)
  obtain m where start: "pktgen_send_pkts burst s
      = Some (s\<lparr>s_mp := m, s_owner := Some Tx, s_tx := TX_while_locked a\<rparr>)"
    using run loaded la lo e a d(3) i32
    by (simp add: pktgen_send_pkts_def Let_def a_def [symmetric] PCAP_NUM_SECTIONS_def)
  have unlocked: "pktgen_send_pkts burst (s\<lparr>s_mp := m, s_owner := Some Tx, s_tx := TX_while_locked a\<rparr>)
      = Some (s\<lparr>s_mp := m, s_owner := Some Tx, s_tx := TX_switch a\<rparr>)"
    using run locked e by (simp add: pktgen_send_pkts_def)
  have switch: "pktgen_send_pkts burst (s\<lparr>s_mp := m, s_owner := Some Tx, s_tx := TX_switch a\<rparr>)
      = Some (?s0\<lparr>s_tx := TX_send\<rparr>)"
    using run e mp by (cases s) (simp add: pktgen_send_pkts_def Let_def signal_reload_def)
  have upt: "take burst [0..<?co] = [0..<burst]" "drop burst [0..<?co] = [burst..<?co]"
    using le by (simp_all add: take_upt)
  have send: "pktgen_send_pkts burst (?s0\<lparr>s_tx := TX_send\<rparr>) = Some ?s1"
    using run st(4) d(5) le upt by (cases s) (simp add: pktgen_send_pkts_def send_burst_def)
  have call: "tx_call 5 burst s = Some ?s1"
    using run by (simp add: numeral_eq_Suc start unlocked switch send)
  let ?s2 = "?s1\<lparr>s_flying := [], s_wire := s_wire ?s1 @ map (\<lambda>k. pkt_data (s_pools ?s1 ?q ! k)) [0..<burst],
     s_free := (s_free ?s1)(?q := s_free ?s1 ?q @ [0..<burst])\<rparr>"
  have nic: "nic_run (length (s_flying ?s1)) ?s1 = Some ?s2"
    using nic_run_drains [of ?s1 ?q "[0..<burst]"] run by simp
  have inv2: "replay_inv pid ?s2"
    using st(1) run ctl_inv_switch [of a "-1" "section_locked ?p" "WK_wait False"] st(3)
    by (simp add: replay_inv_def request_inv_def mutex_inv_def lock_section_def resting_def a_def e_def
        ctl_inv_def) (simp add: loaded_inv_def)
  have data2: "data_inv fs Rs pid ?s2" using st(2) by (simp add: data_inv_def lock_section_def)
  have at2: "reader_at fs Rs (b + ?ca + ?co) (s_pcap ?s2)" using d(7) by (simp add: lock_section_def)
  have "s_owner ?s2 = None" "s_tx ?s2 = TX_start" "reload_request (s_pcap ?s2) = int a" "loading_of (s_wk ?s2) = -1"
    using run by simp_all
  from reload_run [OF inv2 data2 this at2] obtain s' where
    s': "worker_runs fs ?s2 s'" "resting s'" "reload_frame pid a ?s2 s'" "replay_inv pid s'" "data_inv fs Rs pid s'"
      "map pkt_data (s_pools s' (pcap_pool pid a)) = cyc_take (payloads Rs) (b + ?ca + ?co) ?ca"
      "reader_at fs Rs (b + ?ca + ?co + ?ca) (s_pcap s')"
    by (auto simp: lock_section_def)
  have round: "calm_round fs burst s s'"
    unfolding calm_round_def using call nic s'(1) resting_stuck [OF s'(2)] by blast
  have wire: "s_wire s @ map (\<lambda>k. pkt_data (s_pools s ?q ! k)) [0..<burst]
      = cyc_take (payloads Rs) 0 (b + idx + burst)"
    using map_nth_cyc_take [OF d(6), of 0 burst] le cyc_take_add [of "payloads Rs" 0 "b + idx" burst]
    by (simp add: d(8) idx)
  have f: "active_section_idx (s_pcap s') = e" "pkt_index (s_pcap s') = of_nat burst" "s_flying s' = []"
    "s_free s' ?q = [burst..<?co] @ [0..<burst]" "s_free s' (pcap_pool pid a) = [0..<?ca]"
    "s_pools s' ?q = s_pools s ?q" "s_wire s' = cyc_take (payloads Rs) 0 (b + idx + burst)"
    "sec_pkt_count (sections (s_pcap s') j) = sec_pkt_count (sections ?p j)" for j
    using s'(3) e d(4) idx wire by (simp_all add: reload_frame_def lock_section_def)
  have "stream_inv fs Rs pid burst (b + idx) burst s'"
    unfolding stream_inv_def Let_def f e(3)
    using s'(2,4-7) d(1,2,6) le by (simp add: idx ac_simps)
  with round show ?thesis by blast
qed

subsection \<open>The stream\<close>

lemma start_rests:
  assumes "two_sections fs Rs pid p pools"
  shows "\<exists>s. worker_runs fs (replay_start p pools) s \<and> resting s \<and> replay_inv pid s \<and> data_inv fs Rs pid s
    \<and> s_pcap s = p \<and> s_pools s = pools \<and> s_flying s = [] \<and> s_wire s = [] \<and> s_free s = (\<lambda>q. [0..<length (pools q)])"
proof -
  let ?s0 = "replay_start p pools"
  let ?s1 = "?s0\<lparr>s_owner := Some Worker, s_wk := WK_while\<rparr>"
  let ?s2 = "?s0\<lparr>s_wk := WK_wait False\<rparr>"
  have r: "reload_request p = -1" using assms by (simp add: two_sections_def)
  have 1: "pcap_reload_worker fs ?s0 = Some ?s1" by (simp add: pcap_reload_worker_def replay_start_def)
  have 2: "pcap_reload_worker fs ?s1 = Some ?s2" by (simp add: pcap_reload_worker_def replay_start_def r)
  note i = start_inv [OF assms]
  note i1 = worker_step_inv [OF 1 i(1)] worker_keeps_data [OF i 1]
  note i2 = worker_step_inv [OF 2 i1(1)] worker_keeps_data [OF i1 2]
  have "worker_runs fs ?s0 ?s2"
    using 1 2 by (meson converse_rtranclp_into_rtranclp rtranclp.rtrancl_refl)
  then show ?thesis
    using i2 by (intro exI [of _ ?s2]) (simp add: resting_def replay_start_def r)
qed

lemma stream_start:
  assumes "two_sections fs Rs pid p pools" and "burst dvd count0 p" and "burst dvd count1 p"
  shows "\<exists>s. calm fs burst (replay_start p pools) 0 s \<and> stream_inv fs Rs pid burst 0 0 s"
proof -
  from start_rests [OF assms(1)] obtain s where
    s: "worker_runs fs (replay_start p pools) s" "resting s" "replay_inv pid s" "data_inv fs Rs pid s"
      "s_pcap s = p" "s_pools s = pools" "s_flying s = []" "s_wire s = []"
      "s_free s = (\<lambda>q. [0..<length (pools q)])" by blast
  have o: "opened_ok fs Rs pid p pools" and z: "active_section_idx p = 0" "pkt_index p = 0" "count1 p \<noteq> 0"
    using assms(1) by (simp_all add: two_sections_def)
  from o [unfolded opened_ok_def section_ok_def if_not_P [OF z(3)]]
  have len: "length (pools (pcap_pool pid 0)) = count0 p" "length (pools (pcap_pool pid 1)) = count1 p"
    and data: "map pkt_data (pools (pcap_pool pid 0)) = cyc_take (payloads Rs) 0 (count0 p)"
      "map pkt_data (pools (pcap_pool pid 1)) = cyc_take (payloads Rs) (count0 p) (count1 p)"
      "reader_at fs Rs (count0 p + count1 p) p"
    by (blast intro: sym)+
  have "stream_inv fs Rs pid burst 0 0 s"
    unfolding stream_inv_def Let_def s(5-9) z diff_zero len data(1,2)
    using s(2-4) assms(2,3) data(3) by simp
  moreover have "calm fs burst (replay_start p pools) 0 s"
    using s(1) resting_stuck [OF s(2)] by (rule calm.start)
  ultimately show ?thesis by blast
qed

lemma stream_runs:
  assumes "two_sections fs Rs pid p pools" and "0 < burst" and "burst dvd count0 p" and "burst dvd count1 p"
  shows "\<exists>s b idx. calm fs burst (replay_start p pools) n s \<and> stream_inv fs Rs pid burst b idx s
    \<and> b + idx = n * burst"
proof (induction n)
  case 0
  from stream_start [OF assms(1,3,4)] obtain s where
    "calm fs burst (replay_start p pools) 0 s" "stream_inv fs Rs pid burst 0 0 s" by blast
  then show ?case by (intro exI [of _ s] exI [of _ 0]) simp
next
  case (Suc n)
  then obtain s b idx where s: "calm fs burst (replay_start p pools) n s" "stream_inv fs Rs pid burst b idx s"
    "b + idx = n * burst" by blast
  let ?c = "unat (sec_pkt_count (sections (s_pcap s) (active_section_idx (s_pcap s))))"
  from s(2) have "idx \<le> ?c" by (simp add: stream_inv_def Let_def)
  then consider (inside) "idx < ?c" | (full) "idx = ?c" by linarith
  then show ?case
  proof cases
    case inside
    from round_inside [OF s(2) inside assms(2)] obtain s' where
      "calm_round fs burst s s'" "stream_inv fs Rs pid burst b (idx + burst) s'" by blast
    with s(1,3) show ?thesis
      by (intro exI [of _ s'] exI [of _ b] exI [of _ "idx + burst"]) (auto intro: calm.round)
  next
    case full
    from round_switch [OF s(2) full assms(2)] obtain s' where
      "calm_round fs burst s s'" "stream_inv fs Rs pid burst (b + idx) burst s'" by blast
    with s(1,3) show ?thesis
      by (intro exI [of _ s'] exI [of _ "b + idx"] exI [of _ burst]) (auto intro: calm.round)
  qed
qed

text \<open>
  C1 The replayed stream: a port with two sections whose packet counts are multiples of the burst sends,
  in \<open>n\<close> calls, exactly the first \<open>n * burst\<close> packets of the endless sequence that goes through all the
  records of all the source files in order, again and again: nothing is lost, repeated or reordered
  across the switches and the reloads, whenever the reload thread and the device keep up.
  Such a run exists for every number of calls.
\<close>

theorem replay_stream:
  assumes "two_sections fs Rs pid p pools" and "0 < burst" and "burst dvd count0 p" and "burst dvd count1 p"
  shows "(\<exists>s. calm fs burst (replay_start p pools) n s)
    \<and> (\<forall>s. calm fs burst (replay_start p pools) n s \<longrightarrow> s_wire s = cyc_take (map snd (concat Rs)) 0 (n * burst))"
proof -
  from stream_runs [OF assms] obtain s b idx where
    s: "calm fs burst (replay_start p pools) n s" "stream_inv fs Rs pid burst b idx s" "b + idx = n * burst" by blast
  have "s_wire s = cyc_take (map snd (concat Rs)) 0 (n * burst)"
    using s(2,3) by (simp add: stream_inv_def Let_def)
  with s(1) calm_unique [OF s(1)] show ?thesis by blast
qed

theorem replay_stream_witness:
  "\<exists>s. calm sample_fs 32 (replay_start (fst sample_two) (snd sample_two)) 100 s
     \<and> s_wire s = cyc_take [[1, 2, 3], [4], [5, 6]] 0 3200"
proof -
  have "map snd (concat [sample_packets]) = [[1, 2, 3], [4], [5, 6]]"
    by (simp add: sample_packets_def written_packet_def small_mbuf_def)
  then show ?thesis
    using replay_stream [OF sample_two(1), of 32 100] sample_two(2,3) by auto
qed

text \<open>
  Bursts that do not divide a section: with a burst of more than half of the first section (and less than all of
  it), the second call takes the packets that are left and then the first ones again, because the switch
  looks at the number of packets sent only between the calls. These packets are sent
  twice before the second section is reached.
\<close>

lemma odd_burst_repeats:
  assumes "two_sections fs Rs pid p pools" and "burst < count0 p" and "count0 p \<le> 2 * burst"
  shows "(\<exists>s. calm fs burst (replay_start p pools) 2 s)
    \<and> (\<forall>s. calm fs burst (replay_start p pools) 2 s \<longrightarrow>
          s_wire s = cyc_take (map snd (concat Rs)) 0 (count0 p)
                     @ cyc_take (map snd (concat Rs)) 0 (2 * burst - count0 p))"
proof -
  let ?q = "pcap_pool pid 0"
  let ?c = "count0 p"
  let ?xs = "[0..<?c]"
  from start_rests [OF assms(1)] obtain s where
    s: "worker_runs fs (replay_start p pools) s" "resting s" "replay_inv pid s" "data_inv fs Rs pid s"
      "s_pcap s = p" "s_pools s = pools" "s_flying s = []" "s_wire s = []"
      "s_free s = (\<lambda>q. [0..<length (pools q)])" by blast
  have p: "opened_ok fs Rs pid p pools" "active_section_idx p = 0" "pkt_index p = 0"
    using assms(1) by (simp_all add: two_sections_def)
  then have data: "map pkt_data (pools ?q) = cyc_take (payloads Rs) 0 ?c" and len: "length (pools ?q) = ?c"
    by (simp_all add: opened_ok_def section_ok_def)
  have calm0: "calm fs burst (replay_start p pools) 0 s"
    using s(1) resting_stuck [OF s(2)] by (rule calm.start)
  have b32: "unat (of_nat burst :: u32) = burst"
    using assms(2) unat_less_2p32 [of "sec_pkt_count (sections p 0)"] by (simp add: unat_of_nat_small)
  have i1: "pkt_index (s_pcap s) < sec_pkt_count (sections (s_pcap s) (active_section_idx (s_pcap s)))"
    using p assms(2) s(5) by (simp add: word_less_nat_alt)
  have "s_free s (pcap_pool pid (active_section_idx (s_pcap s))) = ?xs" using s(5,9) p len by simp
  from round_send [OF s(3,4,2,7) i1 this, of burst] obtain s1 where
    s1: "calm_round fs burst s s1" "replay_inv pid s1" "data_inv fs Rs pid s1" "resting s1" "s_flying s1 = []"
      "s_pools s1 = pools" "s_pcap s1 = p\<lparr>pkt_index := of_nat burst\<rparr>"
      "s_free s1 = (s_free s)(?q := drop burst ?xs @ take burst ?xs)"
      "s_wire s1 = map (\<lambda>k. pkt_data (pools ?q ! k)) (take burst ?xs)"
    unfolding s(5,6,8) p(2,3) using assms(2) by auto
  let ?ys = "drop burst ?xs @ take burst ?xs"
  have i2: "pkt_index (s_pcap s1) < sec_pkt_count (sections (s_pcap s1) (active_section_idx (s_pcap s1)))"
    using p assms(2) s1(7) b32 by (simp add: word_less_nat_alt)
  have "s_free s1 (pcap_pool pid (active_section_idx (s_pcap s1))) = ?ys" using s1(7,8) p by simp
  from round_send [OF s1(2,3,4,5) i2 this, of burst] obtain s2 where
    s2: "calm_round fs burst s1 s2"
      "s_wire s2 = s_wire s1 @ map (\<lambda>k. pkt_data (pools ?q ! k)) (take burst ?ys)"
    unfolding s1(6,7) using p(2) assms(2) by auto
  have two: "calm fs burst (replay_start p pools) 2 s2"
    using calm.round [OF calm.round [OF calm0 s1(1)] s2(1)] by (simp add: numeral_2_eq_2)
  have "take burst ?xs @ take burst ?ys = ?xs @ [0..<2 * burst - ?c]"
  proof -
    have "[0..<burst] @ [burst..<?c] = ?xs"
      using assms(2) by (metis le0 le_add_diff_inverse less_imp_le upt_add_eq_append)
    then show ?thesis using assms(2,3) by (simp add: take_upt mult_2)
  qed
  then have "s_wire s2 = map (\<lambda>k. pkt_data (pools ?q ! k)) (?xs @ [0..<2 * burst - ?c])"
    unfolding s2(2) s1(9) map_append [symmetric] by (rule arg_cong)
  also have "\<dots> = cyc_take (payloads Rs) 0 ?c @ cyc_take (payloads Rs) 0 (2 * burst - ?c)"
    using map_nth_cyc_take [OF data, of 0 ?c] map_nth_cyc_take [OF data, of 0 "2 * burst - ?c"] assms(2) by simp
  finally show ?thesis using two calm_unique [OF two] by blast
qed

lemma odd_burst_repeats_example:
  "\<exists>s. calm sample_fs 48 (replay_start (fst sample_two) (snd sample_two)) 2 s
     \<and> s_wire s = cyc_take [[1, 2, 3], [4], [5, 6]] 0 64 @ cyc_take [[1, 2, 3], [4], [5, 6]] 0 32"
proof -
  have "map snd (concat [sample_packets]) = [[1, 2, 3], [4], [5, 6]]"
    by (simp add: sample_packets_def written_packet_def small_mbuf_def)
  then show ?thesis
    using odd_burst_repeats [OF sample_two(1), of 48] sample_two(2) by auto
qed

end
