(* ===== verification/GapBuf.thy ===== *)
theory GapBuf
  imports Prelude
begin

text \<open>
  The gap buffer of the command line editor, \<open>lib/cli/cli_gapbuf.h\<close> and \<open>lib/cli/cli_gapbuf.c\<close>: an
  allocation with a gap in the middle, in which the text before the gap and the text after it stand.
  The pointers are offsets from \<open>buf\<close>. An access outside the allocation is the result \<open>None\<close>.
  The bytes that \<open>realloc\<close> adds are given by an argument \<open>junk\<close>; running out of memory, which
  ends the process there, and allocations of 4 GiB and more are left out. The second half states what
  the operations do to the text and the cursor, an interface with these laws, and the gap buffer as
  an instance of it.
\<close>

definition GB_DEFAULT_GAP_SIZE :: nat where "GB_DEFAULT_GAP_SIZE = 8"

record gapbuf =
  gb_mem :: "char list"
  gb_ebuf :: nat
  gb_point :: nat
  gb_gap :: nat
  gb_egap :: nat

subsection \<open>Memory\<close>

definition memmove :: "nat \<Rightarrow> nat \<Rightarrow> nat \<Rightarrow> char list \<Rightarrow> char list option" where
  "memmove d s n m =
     (if d + n \<le> length m \<and> s + n \<le> length m
      then Some (take d m @ take n (drop s m) @ drop (d + n) m) else None)"

definition realloc :: "(nat \<Rightarrow> char) \<Rightarrow> nat \<Rightarrow> char list \<Rightarrow> char list" where
  "realloc junk n m = take n m @ map junk [length m..<n]"

definition mem_at :: "nat \<Rightarrow> gapbuf \<Rightarrow> char option" where
  "mem_at i gb = (if i < length (gb_mem gb) then Some (gb_mem gb ! i) else None)"

text \<open>The difference of two addresses as an unsigned number of \<open>w\<close> bits.\<close>

definition pdiff :: "nat \<Rightarrow> nat \<Rightarrow> nat \<Rightarrow> nat" where
  "pdiff w a b = (if b \<le> a then a - b else 2 ^ w - (b - a))"

subsection \<open>The operations\<close>

definition gb_buf_size :: "gapbuf \<Rightarrow> nat" where "gb_buf_size gb = gb_ebuf gb"
definition gb_gap_size :: "gapbuf \<Rightarrow> nat" where "gb_gap_size gb = pdiff 32 (gb_egap gb) (gb_gap gb)"
definition gb_data_size :: "gapbuf \<Rightarrow> nat" where
  "gb_data_size gb = pdiff 32 (gb_ebuf gb) (gb_egap gb - gb_gap gb)"
definition gb_point_at_start :: "gapbuf \<Rightarrow> bool" where "gb_point_at_start gb \<longleftrightarrow> gb_point gb = 0"
definition gb_point_at_end :: "gapbuf \<Rightarrow> bool" where "gb_point_at_end gb \<longleftrightarrow> gb_ebuf gb = gb_point gb"
definition gb_point_at_gap :: "gapbuf \<Rightarrow> bool" where "gb_point_at_gap gb \<longleftrightarrow> gb_gap gb = gb_point gb"

definition gb_reset_buf :: "gapbuf \<Rightarrow> gapbuf" where
  "gb_reset_buf gb =
     (let sz = gb_buf_size gb
      in gb\<lparr>gb_mem := replicate sz (CHR '' '') @ drop sz (gb_mem gb), gb_point := 0, gb_gap := 0,
            gb_egap := sz, gb_ebuf := sz\<rparr>)"

definition gb_init_buf :: "nat \<Rightarrow> gapbuf \<Rightarrow> gapbuf" where
  "gb_init_buf sz gb = gb_reset_buf (gb\<lparr>gb_mem := replicate sz (CHR 0x00), gb_ebuf := sz\<rparr>)"

definition gb_create :: gapbuf where
  "gb_create = gb_init_buf GB_DEFAULT_GAP_SIZE
     \<lparr>gb_mem = [], gb_ebuf = 0, gb_point = 0, gb_gap = 0, gb_egap = 0\<rparr>"

definition gb_set_point :: "int \<Rightarrow> gapbuf \<Rightarrow> gapbuf option" where
  "gb_set_point idx gb =
     (if idx = -1 then Some (gb\<lparr>gb_point := gb_ebuf gb\<rparr>)
      else if idx < 0 then None
      else (let pt = nat idx
            in if pt > gb_gap gb then Some (gb\<lparr>gb_point := pt + (gb_egap gb - gb_gap gb)\<rparr>)
               else Some (gb\<lparr>gb_point := pt\<rparr>)))"

definition gb_point_offset :: "gapbuf \<Rightarrow> nat" where
  "gb_point_offset gb =
     (if gb_point gb > gb_egap gb then gb_point gb - (gb_egap gb - gb_gap gb) else gb_point gb)"

definition gb_eof :: "gapbuf \<Rightarrow> bool" where
  "gb_eof gb \<longleftrightarrow> (if gb_point gb = gb_gap gb then gb_egap gb = gb_ebuf gb else gb_point gb = gb_ebuf gb)"

definition gb_move_gap_to_point :: "gapbuf \<Rightarrow> gapbuf option" where
  "gb_move_gap_to_point gb =
     (if gb_point gb = gb_gap gb then Some gb
      else if gb_point gb = gb_egap gb then Some (gb\<lparr>gb_point := gb_gap gb\<rparr>)
      else if gb_point gb < gb_gap gb then
        (let cnt = gb_gap gb - gb_point gb in
         case memmove (gb_egap gb - cnt) (gb_point gb) cnt (gb_mem gb) of
           None \<Rightarrow> None
         | Some m \<Rightarrow> Some (gb\<lparr>gb_mem := m, gb_egap := gb_egap gb - cnt, gb_gap := gb_point gb\<rparr>))
      else if gb_point gb > gb_egap gb then
        (let cnt = gb_point gb - gb_egap gb in
         case memmove (gb_gap gb) (gb_egap gb) cnt (gb_mem gb) of
           None \<Rightarrow> None
         | Some m \<Rightarrow> Some (gb\<lparr>gb_mem := m, gb_gap := gb_gap gb + cnt, gb_egap := gb_point gb,
                              gb_point := gb_gap gb + cnt\<rparr>))
      else
        (let cnt = gb_point gb - gb_gap gb in
         case memmove (gb_gap gb) (gb_egap gb) cnt (gb_mem gb) of
           None \<Rightarrow> None
         | Some m \<Rightarrow> Some (gb\<lparr>gb_mem := m, gb_egap := gb_egap gb + cnt, gb_gap := gb_gap gb + cnt,
                              gb_point := gb_gap gb + cnt\<rparr>)))"

definition gb_expand_buf :: "(nat \<Rightarrow> char) \<Rightarrow> nat \<Rightarrow> gapbuf \<Rightarrow> gapbuf" where
  "gb_expand_buf junk extra gb =
     (if gb_ebuf gb + extra > gb_buf_size gb
      then gb\<lparr>gb_mem := realloc junk (gb_ebuf gb + extra + GB_DEFAULT_GAP_SIZE) (gb_mem gb)\<rparr> else gb)"

definition gb_expand_gap :: "(nat \<Rightarrow> char) \<Rightarrow> nat \<Rightarrow> gapbuf \<Rightarrow> gapbuf option" where
  "gb_expand_gap junk sz gb =
     (if sz > gb_gap_size gb then
        (let sz1 = sz + GB_DEFAULT_GAP_SIZE; g1 = gb_expand_buf junk sz1 gb in
         case memmove (gb_egap g1 + sz1) (gb_egap g1) (pdiff 64 (gb_ebuf g1) (gb_egap g1)) (gb_mem g1) of
           None \<Rightarrow> None
         | Some m \<Rightarrow> Some (g1\<lparr>gb_mem := m, gb_egap := gb_egap g1 + sz1, gb_ebuf := gb_ebuf g1 + sz1\<rparr>))
      else Some gb)"

definition gb_get :: "gapbuf \<Rightarrow> (char \<times> gapbuf) option" where
  "gb_get gb =
     (let g1 = (if gb_point gb = gb_gap gb then gb\<lparr>gb_point := gb_egap gb\<rparr> else gb)
      in map_option (\<lambda>c. (c, g1)) (mem_at (gb_point g1) g1))"

definition gb_get_prev :: "gapbuf \<Rightarrow> (char \<times> gapbuf) option" where
  "gb_get_prev gb =
     (let g1 = (if gb_point gb = gb_egap gb then gb\<lparr>gb_point := gb_gap gb\<rparr> else gb)
      in if gb_point g1 = 0 then
           (if gb_point g1 = gb_gap g1 then Some (CHR 0x00, g1)
            else map_option (\<lambda>c. (c, g1)) (mem_at (gb_point g1) g1))
         else map_option (\<lambda>c. (c, g1)) (mem_at (gb_point g1 - 1) g1))"

definition gb_get_next :: "gapbuf \<Rightarrow> (char \<times> gapbuf) option" where
  "gb_get_next gb =
     (let g1 = (if gb_point gb = gb_gap gb then gb\<lparr>gb_point := gb_egap gb\<rparr> else gb)
      in if gb_point g1 = gb_ebuf g1 then map_option (\<lambda>c. (c, g1)) (mem_at (gb_point g1) g1)
         else map_option (\<lambda>c. (c, g1)) (mem_at (gb_point g1 + 1) g1))"

definition gb_store :: "nat \<Rightarrow> char \<Rightarrow> gapbuf \<Rightarrow> gapbuf option" where
  "gb_store i c gb = (if i < length (gb_mem gb) then Some (gb\<lparr>gb_mem := (gb_mem gb)[i := c]\<rparr>) else None)"

definition gb_put :: "(nat \<Rightarrow> char) \<Rightarrow> char \<Rightarrow> gapbuf \<Rightarrow> gapbuf option" where
  "gb_put junk c gb =
     (let g1 = (if gb_point gb = gb_gap gb then gb\<lparr>gb_point := gb_egap gb\<rparr> else gb);
          g2 = (if gb_point g1 = gb_ebuf g1
                then (gb_expand_buf junk 1 g1)\<lparr>gb_ebuf := gb_ebuf g1 + 1\<rparr> else g1)
      in gb_store (gb_point g2) c g2)"

definition gb_getc :: "gapbuf \<Rightarrow> (char \<times> gapbuf) option" where
  "gb_getc gb =
     (if gb_point gb = gb_gap gb
      then map_option (\<lambda>c. (c, gb\<lparr>gb_point := gb_egap gb + 1\<rparr>)) (mem_at (gb_egap gb) gb)
      else map_option (\<lambda>c. (c, gb\<lparr>gb_point := gb_point gb + 1\<rparr>)) (mem_at (gb_point gb) gb))"

definition gb_getc_prev :: "gapbuf \<Rightarrow> (char \<times> gapbuf) option" where
  "gb_getc_prev gb =
     (let g1 = (if gb_point gb = gb_egap gb then gb\<lparr>gb_point := gb_gap gb\<rparr> else gb)
      in if gb_point g1 = 0 then None
         else map_option (\<lambda>c. (c, g1\<lparr>gb_point := gb_point g1 - 1\<rparr>)) (mem_at (gb_point g1 - 1) g1))"

definition gb_putc :: "(nat \<Rightarrow> char) \<Rightarrow> char \<Rightarrow> gapbuf \<Rightarrow> gapbuf option" where
  "gb_putc junk c gb =
     (case gb_move_gap_to_point gb of
        None \<Rightarrow> None
      | Some g1 \<Rightarrow>
          (let g2 = (if gb_point g1 = gb_ebuf g1
                     then (gb_expand_buf junk 1 g1)\<lparr>gb_ebuf := gb_ebuf g1 + 1\<rparr> else g1)
           in map_option (\<lambda>g3. g3\<lparr>gb_gap := gb_gap g3 + 1, gb_point := gb_point g3 + 1\<rparr>)
                (gb_store (gb_gap g2) c g2)))"

definition gb_insert :: "(nat \<Rightarrow> char) \<Rightarrow> char \<Rightarrow> gapbuf \<Rightarrow> gapbuf option" where
  "gb_insert junk c gb =
     (case (if gb_point gb \<noteq> gb_gap gb then gb_move_gap_to_point gb else Some gb) of
        None \<Rightarrow> None
      | Some g1 \<Rightarrow>
          (case (if gb_gap g1 = gb_egap g1 then gb_expand_gap junk 1 g1 else Some g1) of
             None \<Rightarrow> None
           | Some g2 \<Rightarrow> gb_putc junk c g2))"

definition gb_del :: "int \<Rightarrow> gapbuf \<Rightarrow> gapbuf option" where
  "gb_del cnt gb =
     map_option (\<lambda>g1. g1\<lparr>gb_egap := nat (int (gb_egap g1) + cnt)\<rparr>)
       (if gb_point gb \<noteq> gb_gap gb then gb_move_gap_to_point gb else Some gb)"

fun putc_loop :: "(nat \<Rightarrow> char) \<Rightarrow> string \<Rightarrow> gapbuf \<Rightarrow> gapbuf option" where
  "putc_loop junk [] gb = Some gb"
| "putc_loop junk (c # cs) gb = (case gb_putc junk c gb of None \<Rightarrow> None | Some g1 \<Rightarrow> putc_loop junk cs g1)"

definition gb_str_insert :: "(nat \<Rightarrow> char) \<Rightarrow> string \<Rightarrow> nat \<Rightarrow> gapbuf \<Rightarrow> (nat \<times> gapbuf) option" where
  "gb_str_insert junk str sz0 gb =
     (let sz = (if sz0 = 0 then length str else sz0) in
      if sz = 0 then Some (0, gb)
      else if sz > length str then None
      else case gb_move_gap_to_point gb of
        None \<Rightarrow> None
      | Some g1 \<Rightarrow>
          (case (if sz > gb_gap_size g1 then gb_expand_gap junk sz g1 else Some g1) of
             None \<Rightarrow> None
           | Some g2 \<Rightarrow> map_option (\<lambda>g3. (sz, g3)) (putc_loop junk (take sz str) g2)))"

definition gb_left_data_size :: "gapbuf \<Rightarrow> nat" where "gb_left_data_size gb = gb_gap gb"

definition gb_right_data_size :: "gapbuf \<Rightarrow> nat" where
  "gb_right_data_size gb = (if gb_eof gb then 0 else pdiff 32 (gb_ebuf gb) (gb_egap gb))"

definition gb_move_right :: "gapbuf \<Rightarrow> gapbuf" where
  "gb_move_right gb =
     (let g1 = (if gb_point gb = gb_gap gb then gb\<lparr>gb_point := gb_egap gb\<rparr> else gb)
      in g1\<lparr>gb_point := (if gb_point g1 + 1 > gb_ebuf g1 then gb_ebuf g1 else gb_point g1 + 1)\<rparr>)"

definition gb_move_left :: "gapbuf \<Rightarrow> gapbuf" where
  "gb_move_left gb =
     (let g1 = (if gb_point gb = gb_egap gb then gb\<lparr>gb_point := gb_gap gb\<rparr> else gb)
      in g1\<lparr>gb_point := (if gb_point g1 < 1 then 0 else gb_point g1 - 1)\<rparr>)"

text \<open>The bytes written to \<open>dst\<close>, the terminating zero included, and the number returned.\<close>

definition gb_copy_to_buf :: "nat \<Rightarrow> gapbuf \<Rightarrow> (char list \<times> nat) option" where
  "gb_copy_to_buf sz gb =
     (if sz = 0 then Some ([CHR 0x00], 0)
      else
        (let to_copy = min sz (gb_data_size gb); left_copy = min (gb_gap gb) to_copy;
             right_copy = min (pdiff 32 (gb_ebuf gb) (gb_egap gb)) (to_copy - left_copy)
         in if left_copy > length (gb_mem gb) \<or> (right_copy > 0 \<and> gb_egap gb + right_copy > length (gb_mem gb))
            then None
            else Some (take left_copy (gb_mem gb) @ take right_copy (drop (gb_egap gb) (gb_mem gb)) @ [CHR 0x00],
                       left_copy + right_copy)))"

subsection \<open>The text and the cursor\<close>

definition gb_ok :: "gapbuf \<Rightarrow> bool" where
  "gb_ok gb \<longleftrightarrow> gb_gap gb \<le> gb_egap gb \<and> gb_egap gb \<le> gb_ebuf gb \<and> gb_ebuf gb \<le> length (gb_mem gb)
     \<and> gb_point gb \<le> gb_ebuf gb \<and> (gb_point gb \<le> gb_gap gb \<or> gb_egap gb \<le> gb_point gb)"

definition gb_left :: "gapbuf \<Rightarrow> string" where "gb_left gb = take (gb_gap gb) (gb_mem gb)"
definition gb_right :: "gapbuf \<Rightarrow> string" where
  "gb_right gb = take (gb_ebuf gb - gb_egap gb) (drop (gb_egap gb) (gb_mem gb))"
definition gb_text :: "gapbuf \<Rightarrow> string" where "gb_text gb = gb_left gb @ gb_right gb"
definition gb_pos :: "gapbuf \<Rightarrow> nat" where
  "gb_pos gb = (if gb_point gb \<le> gb_gap gb then gb_point gb else gb_point gb - (gb_egap gb - gb_gap gb))"


lemma pdiff_le [simp]: "b \<le> a \<Longrightarrow> pdiff w a b = a - b"
  by (simp add: pdiff_def)

text \<open>The four parts of the allocation: the text before the gap, the gap, the text after it, the rest.\<close>

lemma gb_parts:
  assumes "gb_ok gb"
  obtains G T where "gb_mem gb = gb_left gb @ G @ gb_right gb @ T" and "gb_gap gb = length (gb_left gb)"
    and "gb_egap gb = length (gb_left gb) + length G"
    and "gb_ebuf gb = length (gb_left gb) + length G + length (gb_right gb)"
proof
  let ?G = "take (gb_egap gb - gb_gap gb) (drop (gb_gap gb) (gb_mem gb))"
  let ?T = "drop (gb_ebuf gb) (gb_mem gb)"
  have o: "gb_gap gb \<le> gb_egap gb" "gb_egap gb \<le> gb_ebuf gb" "gb_ebuf gb \<le> length (gb_mem gb)"
    using assms by (auto simp: gb_ok_def)
  have "gb_right gb @ ?T = drop (gb_egap gb) (gb_mem gb)"
    using o by (metis append_take_drop_id drop_drop gb_right_def le_add_diff_inverse2)
  moreover have "?G @ drop (gb_egap gb) (gb_mem gb) = drop (gb_gap gb) (gb_mem gb)"
    using o by (metis append_take_drop_id drop_drop le_add_diff_inverse2)
  ultimately show "gb_mem gb = gb_left gb @ ?G @ gb_right gb @ ?T"
    by (simp add: gb_left_def)
  show "gb_gap gb = length (gb_left gb)" "gb_egap gb = length (gb_left gb) + length ?G"
    "gb_ebuf gb = length (gb_left gb) + length ?G + length (gb_right gb)"
    using o by (auto simp: gb_left_def gb_right_def)
qed

lemma gb_of_parts:
  assumes "gb_mem gb = L @ G @ R @ T" and "gb_gap gb = length L" and "gb_egap gb = length L + length G"
    and "gb_ebuf gb = length L + length G + length R"
  shows "gb_left gb = L" and "gb_right gb = R"
    and "gb_ok gb \<longleftrightarrow> gb_point gb \<le> length L
           \<or> length L + length G \<le> gb_point gb \<and> gb_point gb \<le> length L + length G + length R"
  using assms by (auto simp: gb_left_def gb_right_def gb_ok_def)

lemma gb_pos_le: "gb_ok gb \<Longrightarrow> gb_pos gb \<le> length (gb_text gb)"
  by (rule gb_parts, assumption) (auto simp: gb_ok_def gb_pos_def gb_text_def)

lemma gb_move_gap:
  assumes ok: "gb_ok gb"
  obtains g1 where "gb_move_gap_to_point gb = Some g1" and "gb_ok g1" and "gb_point g1 = gb_gap g1"
    and "gb_left g1 = take (gb_pos gb) (gb_text gb)" and "gb_right g1 = drop (gb_pos gb) (gb_text gb)"
proof -
  obtain G T where m: "gb_mem gb = gb_left gb @ G @ gb_right gb @ T" and g: "gb_gap gb = length (gb_left gb)"
    and e: "gb_egap gb = length (gb_left gb) + length G"
    and b: "gb_ebuf gb = length (gb_left gb) + length G + length (gb_right gb)"
    using gb_parts [OF ok] by blast
  consider (at) "gb_point gb = gb_gap gb" | (at_end) "gb_point gb \<noteq> gb_gap gb" "gb_point gb = gb_egap gb"
    | (before) "gb_point gb < gb_gap gb" "gb_point gb \<noteq> gb_egap gb"
    | (after) "gb_egap gb < gb_point gb" "gb_gap gb < gb_point gb"
    using ok by (fastforce simp: gb_ok_def)
  then show thesis
  proof cases
    case at
    show thesis
      by (rule that [of gb]) (use at ok g in \<open>auto simp: gb_move_gap_to_point_def gb_pos_def gb_text_def\<close>)
  next
    case at_end
    let ?g = "gb\<lparr>gb_point := gb_gap gb\<rparr>"
    have mv: "gb_move_gap_to_point gb = Some ?g"
      using at_end by (simp add: gb_move_gap_to_point_def)
    have parts: "gb_left ?g = gb_left gb" "gb_right ?g = gb_right gb" "gb_ok ?g"
      using gb_of_parts [of ?g "gb_left gb" G "gb_right gb" T] m g e b by auto
    show thesis
      by (rule that [OF mv parts(3)]) (use parts at_end e g in \<open>auto simp: gb_pos_def gb_text_def\<close>)
  next
    case before
    obtain A B where L: "gb_left gb = A @ B" and A: "length A = gb_point gb" and B: "gb_gap gb - gb_point gb = length B"
    proof
      show "gb_left gb = take (gb_point gb) (gb_left gb) @ drop (gb_point gb) (gb_left gb)" by simp
      show "length (take (gb_point gb) (gb_left gb)) = gb_point gb" using before g by simp
      show "gb_gap gb - gb_point gb = length (drop (gb_point gb) (gb_left gb))" using g by simp
    qed
    obtain G' where G': "length G' = length G" "take (length G) (B @ G @ Z) = G'" for Z
      by (metis append.assoc length_append length_take le_add2 min_absorb2 take_append diff_is_0_eq' take_eq_Nil append_Nil2)
    let ?g = "gb\<lparr>gb_mem := A @ G' @ (B @ gb_right gb) @ T, gb_egap := gb_egap gb - length B, gb_gap := gb_point gb\<rparr>"
    have "memmove (gb_egap gb - length B) (gb_point gb) (length B) (gb_mem gb) = Some (A @ G' @ (B @ gb_right gb) @ T)"
      using m g e L A G'(2) by (simp add: memmove_def)
    then have mv: "gb_move_gap_to_point gb = Some ?g"
      using before B by (simp add: gb_move_gap_to_point_def Let_def)
    have parts: "gb_left ?g = A" "gb_right ?g = B @ gb_right gb" "gb_ok ?g"
      using gb_of_parts [of ?g A G' "B @ gb_right gb" T] e b L A G'(1) by auto
    show thesis
      by (rule that [OF mv parts(3)]) (use parts before L A g in \<open>auto simp: gb_pos_def gb_text_def\<close>)
  next
    case after
    obtain B C where R: "gb_right gb = B @ C" and B: "gb_point gb - gb_egap gb = length B"
    proof
      show "gb_right gb = take (gb_point gb - gb_egap gb) (gb_right gb) @ drop (gb_point gb - gb_egap gb) (gb_right gb)" by simp
      show "gb_point gb - gb_egap gb = length (take (gb_point gb - gb_egap gb) (gb_right gb))"
        using after ok e b by (auto simp: gb_ok_def)
    qed
    obtain X G' where G': "G @ B = X @ G'" "length X = length B" "length G' = length G"
    proof
      show "G @ B = take (length B) (G @ B) @ drop (length B) (G @ B)" by (simp only: append_take_drop_id)
    qed simp_all
    have m': "gb_mem gb = gb_left gb @ X @ G' @ C @ T"
      using m R G'(1) by (metis append.assoc)
    let ?g = "gb\<lparr>gb_mem := (gb_left gb @ B) @ G' @ C @ T, gb_gap := gb_gap gb + length B, gb_egap := gb_point gb,
                gb_point := gb_gap gb + length B\<rparr>"
    have "take (length B) (drop (gb_egap gb) (gb_mem gb)) = B" "gb_egap gb + length B \<le> length (gb_mem gb)"
      using m R e by simp_all
    moreover have "take (gb_gap gb) (gb_mem gb) = gb_left gb" "drop (gb_gap gb + length B) (gb_mem gb) = G' @ C @ T"
      "gb_gap gb + length B \<le> length (gb_mem gb)"
      using m' g G'(2) by simp_all
    ultimately have "memmove (gb_gap gb) (gb_egap gb) (length B) (gb_mem gb) = Some ((gb_left gb @ B) @ G' @ C @ T)"
      by (simp add: memmove_def)
    then have mv: "gb_move_gap_to_point gb = Some ?g"
      using after B by (simp add: gb_move_gap_to_point_def Let_def)
    have pt: "gb_point gb = length (gb_left gb) + length G + length B" using B after e by simp
    have parts: "gb_left ?g = gb_left gb @ B" "gb_right ?g = C" "gb_ok ?g"
      using gb_of_parts [of ?g "gb_left gb @ B" G' C T] e b g R pt G' by auto
    show thesis
      by (rule that [OF mv parts(3)]) (use parts after R g e pt in \<open>auto simp: gb_pos_def gb_text_def\<close>)
  qed
qed

text \<open>After a move of the gap the text is split at the cursor.\<close>

lemma gb_at_gap:
  assumes "gb_ok gb" "gb_point gb = gb_gap gb"
  shows "gb_move_gap_to_point gb = Some gb" and "gb_pos gb = length (gb_left gb)" and "gb_gap gb = length (gb_left gb)"
    and "gb_left gb = take (gb_pos gb) (gb_text gb)" and "gb_right gb = drop (gb_pos gb) (gb_text gb)"
proof -
  obtain G where "gb_gap gb = length (gb_left gb)" using gb_parts [OF assms(1)] by metis
  then show "gb_move_gap_to_point gb = Some gb" "gb_pos gb = length (gb_left gb)" "gb_gap gb = length (gb_left gb)"
    "gb_left gb = take (gb_pos gb) (gb_text gb)" "gb_right gb = drop (gb_pos gb) (gb_text gb)"
    using assms by (auto simp: gb_move_gap_to_point_def gb_pos_def gb_text_def)
qed

lemma gb_expand_gap_ok:
  assumes ok: "gb_ok gb" and at: "gb_point gb = gb_gap gb"
  obtains g1 where "gb_expand_gap junk sz gb = Some g1" and "gb_ok g1" and "gb_point g1 = gb_gap g1"
    and "gb_left g1 = gb_left gb" and "gb_right g1 = gb_right gb" and "sz \<le> gb_gap_size g1"
proof (cases "sz > gb_gap_size gb")
  case False
  then show thesis using that [of gb] ok at by (simp add: gb_expand_gap_def)
next
  case True
  obtain G T where m: "gb_mem gb = gb_left gb @ G @ gb_right gb @ T" and g: "gb_gap gb = length (gb_left gb)"
    and e: "gb_egap gb = length (gb_left gb) + length G"
    and b: "gb_ebuf gb = length (gb_left gb) + length G + length (gb_right gb)"
    using gb_parts [OF ok] by blast
  let ?n = "sz + GB_DEFAULT_GAP_SIZE"
  let ?m1 = "realloc junk (gb_ebuf gb + ?n + GB_DEFAULT_GAP_SIZE) (gb_mem gb)"
  obtain J where m1: "?m1 = gb_left gb @ G @ gb_right gb @ J" and J: "length J = ?n + GB_DEFAULT_GAP_SIZE"
  proof
    let ?k = "gb_ebuf gb + ?n + GB_DEFAULT_GAP_SIZE"
    let ?J = "take (?k - gb_ebuf gb) T @ map junk [length (gb_mem gb)..<?k]"
    show "?m1 = gb_left gb @ G @ gb_right gb @ ?J"
      using m b by (simp add: realloc_def)
    show "length ?J = ?n + GB_DEFAULT_GAP_SIZE" using m b by auto
  qed
  let ?G = "G @ take ?n (gb_right gb @ J)"
  let ?m2 = "gb_left gb @ ?G @ gb_right gb @ drop (?n + length (gb_right gb)) (gb_right gb @ J)"
  let ?g = "gb\<lparr>gb_mem := ?m2, gb_egap := gb_egap gb + ?n, gb_ebuf := gb_ebuf gb + ?n\<rparr>"
  have "memmove (gb_egap gb + ?n) (gb_egap gb) (length (gb_right gb)) ?m1 = Some ?m2"
    unfolding m1 using e J by (auto simp: memmove_def)
  then have ex: "gb_expand_gap junk sz gb = Some ?g"
    using True b e by (simp add: gb_expand_gap_def gb_expand_buf_def gb_buf_size_def Let_def GB_DEFAULT_GAP_SIZE_def)
  have parts: "gb_left ?g = gb_left gb" "gb_right ?g = gb_right gb" "gb_ok ?g"
    using gb_of_parts [of ?g "gb_left gb" ?G "gb_right gb"] e b g at J by auto
  show thesis
    by (rule that [OF ex parts(3)]) (use parts at e g in \<open>auto simp: gb_gap_size_def\<close>)
qed

text \<open>A byte put into a gap that has room.\<close>

lemma gb_putc_room:
  assumes ok: "gb_ok gb" and at: "gb_point gb = gb_gap gb" and room: "gb_gap_size gb > 0"
  obtains g1 where "gb_putc junk c gb = Some g1" and "gb_ok g1" and "gb_point g1 = gb_gap g1"
    and "gb_left g1 = gb_left gb @ [c]" and "gb_right g1 = gb_right gb" and "gb_gap_size g1 = gb_gap_size gb - 1"
proof -
  obtain G T where m: "gb_mem gb = gb_left gb @ G @ gb_right gb @ T" and g: "gb_gap gb = length (gb_left gb)"
    and e: "gb_egap gb = length (gb_left gb) + length G"
    and b: "gb_ebuf gb = length (gb_left gb) + length G + length (gb_right gb)"
    using gb_parts [OF ok] by blast
  have "length G > 0" using room e g ok by (simp add: gb_gap_size_def)
  then obtain x G' where G: "G = x # G'" by (cases G) auto
  let ?m = "gb_left gb @ c # G' @ gb_right gb @ T"
  let ?g = "gb\<lparr>gb_mem := ?m, gb_gap := gb_gap gb + 1, gb_point := gb_point gb + 1\<rparr>"
  have "gb_store (gb_gap gb) c gb = Some (gb\<lparr>gb_mem := ?m\<rparr>)"
    using m g G by (simp add: gb_store_def list_update_append)
  then have put: "gb_putc junk c gb = Some ?g"
    using at b g G gb_at_gap(1) [OF ok at] by (simp add: gb_putc_def Let_def)
  have parts: "gb_left ?g = gb_left gb @ [c]" "gb_right ?g = gb_right gb" "gb_ok ?g"
    using gb_of_parts [of ?g "gb_left gb @ [c]" G' "gb_right gb" T] e b g at G by auto
  show thesis
    by (rule that [OF put parts(3)]) (use parts at e g G in \<open>auto simp: gb_gap_size_def\<close>)
qed

subsection \<open>What the operations do to the text\<close>

lemma gb_sizes:
  assumes "gb_ok gb"
  shows "length (gb_left gb) = gb_gap gb" and "length (gb_right gb) = gb_ebuf gb - gb_egap gb"
    and "gb_gap gb \<le> gb_egap gb" and "gb_egap gb \<le> gb_ebuf gb"
  using assms by (auto simp: gb_left_def gb_right_def gb_ok_def)

lemma gb_split_text:
  assumes "gb_left g1 = take n t" "gb_right g1 = drop n t"
  shows "gb_text g1 = t"
  using assms by (simp add: gb_text_def)

lemma gb_insert_ok:
  assumes ok: "gb_ok gb"
  obtains g1 where "gb_insert junk c gb = Some g1" and "gb_ok g1" and "gb_pos g1 = Suc (gb_pos gb)"
    and "gb_text g1 = take (gb_pos gb) (gb_text gb) @ c # drop (gb_pos gb) (gb_text gb)"
proof -
  obtain g1 where g1: "gb_move_gap_to_point gb = Some g1" "gb_ok g1" "gb_point g1 = gb_gap g1"
    "gb_left g1 = take (gb_pos gb) (gb_text gb)" "gb_right g1 = drop (gb_pos gb) (gb_text gb)"
    using gb_move_gap [OF ok] .
  have mv: "(if gb_point gb \<noteq> gb_gap gb then gb_move_gap_to_point gb else Some gb) = Some g1"
    using g1(1) by (auto simp: gb_move_gap_to_point_def split: if_splits)
  obtain g2 where g2: "gb_expand_gap junk 1 g1 = Some g2" "gb_ok g2" "gb_point g2 = gb_gap g2"
    "gb_left g2 = gb_left g1" "gb_right g2 = gb_right g1" "1 \<le> gb_gap_size g2"
    using gb_expand_gap_ok [OF g1(2,3)] .
  have ex: "(if gb_gap g1 = gb_egap g1 then gb_expand_gap junk 1 g1 else Some g1) = Some g2"
    using g2(1) gb_sizes(3) [OF g1(2)] by (auto simp: gb_expand_gap_def gb_gap_size_def split: if_splits)
  obtain g3 where g3: "gb_putc junk c g2 = Some g3" "gb_ok g3" "gb_point g3 = gb_gap g3"
    "gb_left g3 = gb_left g2 @ [c]" "gb_right g3 = gb_right g2"
    using gb_putc_room [OF g2(2,3)] g2(6) by (metis One_nat_def Suc_le_lessD)
  have "gb_insert junk c gb = Some g3" by (simp add: gb_insert_def mv ex g3(1))
  moreover have "gb_pos g3 = Suc (gb_pos gb)"
    using gb_at_gap(2) [OF g3(2,3)] g3(4) g2(4) g1(4) gb_pos_le [OF ok] by simp
  ultimately show thesis
    using that g3(2,4,5) g2(4,5) g1(4,5) by (simp add: gb_text_def)
qed

lemma putc_loop_ok:
  assumes "gb_ok gb" and "gb_point gb = gb_gap gb" and "length cs \<le> gb_gap_size gb"
  shows "\<exists>g1. putc_loop junk cs gb = Some g1 \<and> gb_ok g1 \<and> gb_point g1 = gb_gap g1
           \<and> gb_left g1 = gb_left gb @ cs \<and> gb_right g1 = gb_right gb"
  using assms
proof (induction cs arbitrary: gb)
  case Nil
  then show ?case by simp
next
  case (Cons c cs)
  have "gb_gap_size gb > 0" using Cons.prems(3) by simp
  then obtain g1 where g1: "gb_putc junk c gb = Some g1" "gb_ok g1" "gb_point g1 = gb_gap g1"
    "gb_left g1 = gb_left gb @ [c]" "gb_right g1 = gb_right gb" "gb_gap_size g1 = gb_gap_size gb - 1"
    using gb_putc_room [OF Cons.prems(1,2)] by blast
  then show ?case using Cons.IH [OF g1(2,3)] Cons.prems(3) by simp
qed

lemma gb_str_insert_ok:
  assumes ok: "gb_ok gb" and n: "n = (if sz = 0 then length str else sz)" and le: "n \<le> length str"
  obtains g1 where "gb_str_insert junk str sz gb = Some (n, g1)" and "gb_ok g1" and "gb_pos g1 = gb_pos gb + n"
    and "gb_text g1 = take (gb_pos gb) (gb_text gb) @ take n str @ drop (gb_pos gb) (gb_text gb)"
proof (cases "n = 0")
  case True
  then show thesis using that [of gb] ok n by (simp add: gb_str_insert_def Let_def split: if_splits)
next
  case False
  obtain g1 where g1: "gb_move_gap_to_point gb = Some g1" "gb_ok g1" "gb_point g1 = gb_gap g1"
    "gb_left g1 = take (gb_pos gb) (gb_text gb)" "gb_right g1 = drop (gb_pos gb) (gb_text gb)"
    using gb_move_gap [OF ok] .
  obtain g2 where g2: "gb_expand_gap junk n g1 = Some g2" "gb_ok g2" "gb_point g2 = gb_gap g2"
    "gb_left g2 = gb_left g1" "gb_right g2 = gb_right g1" "n \<le> gb_gap_size g2"
    using gb_expand_gap_ok [OF g1(2,3)] .
  have ex: "(if n > gb_gap_size g1 then gb_expand_gap junk n g1 else Some g1) = Some g2"
    using g2(1) by (auto simp: gb_expand_gap_def)
  obtain g3 where g3: "putc_loop junk (take n str) g2 = Some g3" "gb_ok g3" "gb_point g3 = gb_gap g3"
    "gb_left g3 = gb_left g2 @ take n str" "gb_right g3 = gb_right g2"
    using putc_loop_ok [OF g2(2,3), of "take n str"] g2(6) le by auto
  have "gb_str_insert junk str sz gb = Some (n, g3)"
    unfolding gb_str_insert_def Let_def n [symmetric] using False le g1(1) ex g3(1) by simp
  moreover have "gb_pos g3 = gb_pos gb + n"
    using gb_at_gap(2) [OF g3(2,3)] g3(4) g2(4) g1(4) gb_pos_le [OF ok] le by simp
  ultimately show thesis
    using that g3(2,4,5) g2(4,5) g1(4,5) by (simp add: gb_text_def)
qed

lemma gb_del_ok:
  assumes ok: "gb_ok gb" and n: "gb_pos gb + n \<le> length (gb_text gb)"
  obtains g1 where "gb_del (int n) gb = Some g1" and "gb_ok g1" and "gb_pos g1 = gb_pos gb"
    and "gb_text g1 = take (gb_pos gb) (gb_text gb) @ drop (gb_pos gb + n) (gb_text gb)"
    and "gb_point g1 = gb_gap g1"
proof -
  obtain g1 where g1: "gb_move_gap_to_point gb = Some g1" "gb_ok g1" "gb_point g1 = gb_gap g1"
    "gb_left g1 = take (gb_pos gb) (gb_text gb)" "gb_right g1 = drop (gb_pos gb) (gb_text gb)"
    using gb_move_gap [OF ok] .
  have mv: "(if gb_point gb \<noteq> gb_gap gb then gb_move_gap_to_point gb else Some gb) = Some g1"
    using g1(1) by (auto simp: gb_move_gap_to_point_def split: if_splits)
  let ?g = "g1\<lparr>gb_egap := gb_egap g1 + n\<rparr>"
  have room: "gb_egap g1 + n \<le> gb_ebuf g1"
    using n g1(5) gb_sizes(2,4) [OF g1(2)] by simp
  have "gb_del (int n) gb = Some ?g" by (simp add: gb_del_def mv nat_add_distrib)
  moreover have ok1: "gb_ok ?g" using g1(2,3) room by (auto simp: gb_ok_def)
  moreover have "gb_left ?g = gb_left g1" by (simp add: gb_left_def)
  moreover have "gb_right ?g = drop n (gb_right g1)"
    using room by (simp add: gb_right_def drop_take add.commute)
  moreover have "gb_pos ?g = gb_pos gb"
    using gb_at_gap(2) [OF g1(2,3)] g1(4,3) gb_pos_le [OF ok] by (simp add: gb_pos_def)
  moreover have "gb_text ?g = take (gb_pos gb) (gb_text gb) @ drop (gb_pos gb + n) (gb_text gb)"
    unfolding gb_text_def [of ?g] calculation(3,4) g1(4,5) drop_drop by (simp only: add.commute)
  ultimately show thesis
    using that [of ?g] g1(3) by simp
qed

lemma gb_point_upd [simp]:
  "gb_left (gb\<lparr>gb_point := x\<rparr>) = gb_left gb" "gb_right (gb\<lparr>gb_point := x\<rparr>) = gb_right gb"
  "gb_text (gb\<lparr>gb_point := x\<rparr>) = gb_text gb"
  by (simp_all add: gb_left_def gb_right_def gb_text_def)

lemma length_gb_text: "gb_ok gb \<Longrightarrow> length (gb_text gb) = gb_gap gb + (gb_ebuf gb - gb_egap gb)"
  by (simp add: gb_text_def gb_sizes)

lemma mem_at_text:
  assumes "gb_ok gb"
  shows "i < gb_gap gb \<Longrightarrow> mem_at i gb = Some (gb_text gb ! i)"
    and "gb_egap gb \<le> i \<Longrightarrow> i < gb_ebuf gb \<Longrightarrow> mem_at i gb = Some (gb_text gb ! (i - (gb_egap gb - gb_gap gb)))"
proof -
  have "gb_gap gb \<le> gb_egap gb" "gb_egap gb \<le> gb_ebuf gb" "gb_ebuf gb \<le> length (gb_mem gb)"
    using assms by (auto simp: gb_ok_def)
  then show "i < gb_gap gb \<Longrightarrow> mem_at i gb = Some (gb_text gb ! i)"
    "gb_egap gb \<le> i \<Longrightarrow> i < gb_ebuf gb \<Longrightarrow> mem_at i gb = Some (gb_text gb ! (i - (gb_egap gb - gb_gap gb)))"
    by (auto simp: mem_at_def gb_text_def gb_left_def gb_right_def nth_append)
qed

lemma gb_eof_iff: "gb_ok gb \<Longrightarrow> gb_eof gb \<longleftrightarrow> gb_pos gb = length (gb_text gb)"
  by (auto simp: gb_eof_def gb_pos_def length_gb_text) (auto simp: gb_ok_def)

lemma gb_move_right_ok:
  assumes "gb_ok gb"
  shows "gb_ok (gb_move_right gb)" and "gb_text (gb_move_right gb) = gb_text gb"
    and "gb_pos (gb_move_right gb) = min (Suc (gb_pos gb)) (length (gb_text gb))"
  using assms by (auto simp: gb_move_right_def Let_def gb_ok_def gb_pos_def length_gb_text)

lemma gb_move_left_ok:
  assumes "gb_ok gb"
  shows "gb_ok (gb_move_left gb)" and "gb_text (gb_move_left gb) = gb_text gb"
    and "gb_pos (gb_move_left gb) = gb_pos gb - 1"
  using assms by (auto simp: gb_move_left_def Let_def gb_ok_def gb_pos_def)

lemma gb_set_point_ok:
  assumes "gb_ok gb" and "idx = -1 \<or> 0 \<le> idx \<and> nat idx \<le> length (gb_text gb)"
  obtains g1 where "gb_set_point idx gb = Some g1" and "gb_ok g1" and "gb_text g1 = gb_text gb"
    and "gb_pos g1 = (if idx = -1 then length (gb_text gb) else nat idx)"
proof -
  have o: "gb_gap gb \<le> gb_egap gb" "gb_egap gb \<le> gb_ebuf gb" "gb_ebuf gb \<le> length (gb_mem gb)"
    using assms(1) by (auto simp: gb_ok_def)
  let ?x = "if idx = -1 then gb_ebuf gb else if nat idx > gb_gap gb then nat idx + (gb_egap gb - gb_gap gb) else nat idx"
  let ?g = "gb\<lparr>gb_point := ?x\<rparr>"
  have "gb_set_point idx gb = Some ?g" using assms(2) by (auto simp: gb_set_point_def Let_def)
  moreover have "gb_ok ?g" using o assms(2) length_gb_text [OF assms(1)] by (auto simp: gb_ok_def)
  moreover have "gb_pos ?g = (if idx = -1 then length (gb_text gb) else nat idx)"
    using o by (auto simp: gb_pos_def length_gb_text [OF assms(1)])
  ultimately show thesis using that by simp
qed

lemma gb_data_size_ok: "gb_ok gb \<Longrightarrow> gb_data_size gb = length (gb_text gb)"
  by (auto simp: gb_data_size_def length_gb_text) (auto simp: gb_ok_def)

lemma gb_reset_ok:
  assumes "gb_ebuf gb \<le> length (gb_mem gb)"
  shows "gb_ok (gb_reset_buf gb)" and "gb_text (gb_reset_buf gb) = []" and "gb_pos (gb_reset_buf gb) = 0"
  using assms by (auto simp: gb_reset_buf_def Let_def gb_buf_size_def gb_ok_def gb_text_def gb_left_def gb_right_def gb_pos_def)

lemma gb_create_ok: "gb_ok gb_create" and gb_create_text: "gb_text gb_create = []" and gb_create_pos: "gb_pos gb_create = 0"
  by (simp_all add: gb_create_def gb_init_buf_def gb_reset_ok)

lemma gb_get_ok:
  assumes "gb_ok gb" "gb_pos gb < length (gb_text gb)"
  obtains g1 where "gb_get gb = Some (gb_text gb ! gb_pos gb, g1)" and "gb_ok g1" and "gb_text g1 = gb_text gb"
    and "gb_pos g1 = gb_pos gb"
proof -
  let ?g = "if gb_point gb = gb_gap gb then gb\<lparr>gb_point := gb_egap gb\<rparr> else gb"
  have "gb_ok ?g" "gb_text ?g = gb_text gb" "gb_pos ?g = gb_pos gb"
    using assms(1) by (auto simp: gb_ok_def gb_pos_def)
  moreover have "mem_at (gb_point ?g) ?g = Some (gb_text ?g ! gb_pos ?g)"
  proof (cases "gb_point gb < gb_gap gb")
    case True
    then show ?thesis using mem_at_text(1) [OF calculation(1)] by (simp add: gb_pos_def)
  next
    case False
    then have "gb_egap ?g \<le> gb_point ?g" "gb_point ?g < gb_ebuf ?g" "gb_pos ?g = gb_point ?g - (gb_egap ?g - gb_gap ?g)"
      using assms by (auto simp: gb_ok_def gb_pos_def length_gb_text)
    then show ?thesis using mem_at_text(2) [OF calculation(1)] by simp
  qed
  ultimately show thesis using that [of ?g] by (simp add: gb_get_def Let_def)
qed

lemma gb_copy_ok:
  assumes "gb_ok gb" "0 < sz"
  shows "gb_copy_to_buf sz gb = Some (take sz (gb_text gb) @ [CHR 0x00], min sz (length (gb_text gb)))"
proof -
  obtain G T where m: "gb_mem gb = gb_left gb @ G @ gb_right gb @ T" and g: "gb_gap gb = length (gb_left gb)"
    and e: "gb_egap gb = length (gb_left gb) + length G"
    and b: "gb_ebuf gb = length (gb_left gb) + length G + length (gb_right gb)"
    using gb_parts [OF assms(1)] by blast
  define l where "l = min (length (gb_left gb)) (min sz (length (gb_text gb)))"
  define r where "r = min (length (gb_right gb)) (min sz (length (gb_text gb)) - l)"
  have "take l (gb_mem gb) = take l (gb_left gb)" "take r (drop (gb_egap gb) (gb_mem gb)) = take r (gb_right gb)"
    using m e unfolding l_def r_def by simp_all
  moreover have "take sz (gb_text gb) = take l (gb_left gb) @ take r (gb_right gb)"
    by (auto simp: gb_text_def min_def l_def r_def)
  moreover have "l + r = min sz (length (gb_text gb))" by (auto simp: gb_text_def l_def r_def)
  moreover have "\<not> l > length (gb_mem gb)" "\<not> (r > 0 \<and> gb_egap gb + r > length (gb_mem gb))"
    using m e by (auto simp: l_def r_def)
  moreover have "min (gb_gap gb) (min sz (gb_data_size gb)) = l"
    by (simp add: l_def g gb_data_size_ok [OF assms(1)])
  moreover have "min (pdiff 32 (gb_ebuf gb) (gb_egap gb)) (min sz (gb_data_size gb) - l) = r"
    using e b by (simp add: r_def gb_data_size_ok [OF assms(1)])
  ultimately show ?thesis
    using assms(2) by (simp only: gb_copy_to_buf_def Let_def if_False append_assoc neq0_conv [symmetric] simp_thms)
qed

subsection \<open>The interface of a line buffer\<close>

text \<open>The commands a client gives, and what they do to a line with a cursor.\<close>

datatype line_cmd = Insert char | Insert_str string | Delete nat | Goto int | Go_right | Go_left

fun line_spec :: "line_cmd \<Rightarrow> string \<times> nat \<Rightarrow> (string \<times> nat) option" where
  "line_spec (Insert c) (t, p) = Some (take p t @ c # drop p t, Suc p)"
| "line_spec (Insert_str s) (t, p) = Some (take p t @ s @ drop p t, p + length s)"
| "line_spec (Delete n) (t, p) = (if p + n \<le> length t then Some (take p t @ drop (p + n) t, p) else None)"
| "line_spec (Goto i) (t, p) =
     (if i = -1 then Some (t, length t) else if 0 \<le> i \<and> nat i \<le> length t then Some (t, nat i) else None)"
| "line_spec Go_right (t, p) = Some (t, min (Suc p) (length t))"
| "line_spec Go_left (t, p) = Some (t, p - 1)"

fun run_cmds :: "('c \<Rightarrow> 's \<Rightarrow> 's option) \<Rightarrow> 'c list \<Rightarrow> 's \<Rightarrow> 's option" where
  "run_cmds f [] s = Some s"
| "run_cmds f (c # cs) s = (case f c s of None \<Rightarrow> None | Some s1 \<Rightarrow> run_cmds f cs s1)"

fun gb_cmd :: "(nat \<Rightarrow> char) \<Rightarrow> line_cmd \<Rightarrow> gapbuf \<Rightarrow> gapbuf option" where
  "gb_cmd junk (Insert c) gb = gb_insert junk c gb"
| "gb_cmd junk (Insert_str s) gb = map_option snd (gb_str_insert junk s 0 gb)"
| "gb_cmd junk (Delete n) gb = gb_del (int n) gb"
| "gb_cmd junk (Goto i) gb = gb_set_point i gb"
| "gb_cmd junk Go_right gb = Some (gb_move_right gb)"
| "gb_cmd junk Go_left gb = Some (gb_move_left gb)"

locale line_buffer =
  fixes valid :: "'b \<Rightarrow> bool" and line :: "'b \<Rightarrow> string" and cursor :: "'b \<Rightarrow> nat"
    and step :: "line_cmd \<Rightarrow> 'b \<Rightarrow> 'b option"
  assumes cursor_le: "valid b \<Longrightarrow> cursor b \<le> length (line b)"
    and step_spec: "valid b \<Longrightarrow> line_spec c (line b, cursor b) = Some (t, p)
      \<Longrightarrow> \<exists>b1. step c b = Some b1 \<and> valid b1 \<and> line b1 = t \<and> cursor b1 = p"
begin

lemma run_spec:
  "valid b \<Longrightarrow> run_cmds line_spec cs (line b, cursor b) = Some (t, p)
     \<Longrightarrow> \<exists>b1. run_cmds step cs b = Some b1 \<and> valid b1 \<and> line b1 = t \<and> cursor b1 = p"
proof (induction cs arbitrary: b)
  case Nil
  then show ?case by simp
next
  case (Cons c cs)
  from Cons.prems(2) obtain t1 p1 where 1: "line_spec c (line b, cursor b) = Some (t1, p1)"
    "run_cmds line_spec cs (t1, p1) = Some (t, p)"
    by (auto split: option.splits)
  obtain b1 where "step c b = Some b1" "valid b1" "line b1 = t1" "cursor b1 = p1"
    using step_spec [OF Cons.prems(1) 1(1)] by blast
  then show ?case using Cons.IH [of b1] 1(2) by simp
qed

text \<open>Typing leaves the typed string before the cursor; stepping back over it and deleting it undoes it.\<close>

lemma spec_typed:
  "p \<le> length t \<Longrightarrow> run_cmds line_spec (map Insert s) (t, p) = Some (take p t @ s @ drop p t, p + length s)"
  by (induction s arbitrary: t p) (auto simp: Suc_le_eq)

lemma spec_back:
  "n \<le> p \<Longrightarrow> run_cmds line_spec (replicate n Go_left) (t, p) = Some (t, p - n)"
  by (induction n arbitrary: p) auto

lemma run_append:
  "run_cmds f (as @ bs) s = (case run_cmds f as s of None \<Rightarrow> None | Some s1 \<Rightarrow> run_cmds f bs s1)"
  by (induction as arbitrary: s) (auto split: option.splits)

lemma typed:
  assumes "valid b"
  shows "\<exists>b1. run_cmds step (map Insert s) b = Some b1 \<and> valid b1
           \<and> line b1 = take (cursor b) (line b) @ s @ drop (cursor b) (line b) \<and> cursor b1 = cursor b + length s"
  by (rule run_spec [OF assms spec_typed [OF cursor_le [OF assms]]])

lemma typed_undone:
  assumes "valid b"
  shows "\<exists>b1. run_cmds step (map Insert s @ replicate (length s) Go_left @ [Delete (length s)]) b = Some b1 \<and> valid b1
           \<and> line b1 = line b \<and> cursor b1 = cursor b"
  by (rule run_spec [OF assms])
    (use cursor_le [OF assms] in \<open>simp add: run_append spec_typed spec_back\<close>)

end

lemma gb_cmd_refines:
  assumes ok: "gb_ok gb" and sp: "line_spec c (gb_text gb, gb_pos gb) = Some (t, p)"
  shows "\<exists>g1. gb_cmd junk c gb = Some g1 \<and> gb_ok g1 \<and> gb_text g1 = t \<and> gb_pos g1 = p"
proof (cases c)
  case (Insert x)
  then show ?thesis using gb_insert_ok [OF ok, of junk x] sp by (metis gb_cmd.simps(1) line_spec.simps(1) option.inject prod.inject)
next
  case (Insert_str x)
  obtain g1 where "gb_str_insert junk x 0 gb = Some (length x, g1)" "gb_ok g1" "gb_pos g1 = gb_pos gb + length x"
    "gb_text g1 = take (gb_pos gb) (gb_text gb) @ take (length x) x @ drop (gb_pos gb) (gb_text gb)"
    using gb_str_insert_ok [OF ok, of "length x" 0 x junk] by auto
  then show ?thesis using Insert_str sp by simp
next
  case (Delete n)
  have "gb_pos gb + n \<le> length (gb_text gb)" using sp Delete by (simp split: if_splits)
  then obtain g1 where "gb_del (int n) gb = Some g1" "gb_ok g1" "gb_pos g1 = gb_pos gb"
    "gb_text g1 = take (gb_pos gb) (gb_text gb) @ drop (gb_pos gb + n) (gb_text gb)"
    using gb_del_ok [OF ok] by metis
  then show ?thesis using sp Delete by (auto split: if_splits)
next
  case (Goto i)
  have "i = -1 \<or> 0 \<le> i \<and> nat i \<le> length (gb_text gb)" using sp Goto by (simp split: if_splits)
  then obtain g1 where "gb_set_point i gb = Some g1" "gb_ok g1" "gb_text g1 = gb_text gb"
    "gb_pos g1 = (if i = -1 then length (gb_text gb) else nat i)"
    using gb_set_point_ok [OF ok] by metis
  then show ?thesis using sp Goto by (auto split: if_splits)
qed (use sp gb_move_right_ok [OF ok] gb_move_left_ok [OF ok] in auto)

interpretation gbl: line_buffer gb_ok gb_text gb_pos "gb_cmd junk" for junk
  by unfold_locales (auto intro: gb_pos_le gb_cmd_refines)

text \<open>
  C20 Refinement: from every consistent gap buffer, every sequence of insertions, deletions and cursor
  moves that a plain line with a cursor allows runs without an access outside the allocation, whatever
  \<open>realloc\<close> leaves in the new bytes, keeps the buffer consistent, and ends with the text and the cursor
  of the plain line.
\<close>

theorem gapbuf_refines_line:
  assumes "gb_ok gb" and "run_cmds line_spec cs (gb_text gb, gb_pos gb) = Some (t, p)"
  shows "\<exists>g1. run_cmds (gb_cmd junk) cs gb = Some g1 \<and> gb_ok g1 \<and> gb_text g1 = t \<and> gb_pos g1 = p"
  using gbl.run_spec [OF assms] .

theorem gapbuf_refines_line_witness:
  "\<exists>g1. run_cmds (gb_cmd (\<lambda>_. CHR ''?'')) [Insert_str ''set 0 count'', Goto 3, Delete 2, Insert CHR ''.'', Go_left, Go_right]
      gb_create = Some g1 \<and> gb_ok g1 \<and> gb_text g1 = ''set. count'' \<and> gb_pos g1 = 4"
  by (rule gapbuf_refines_line [OF gb_create_ok]) (simp add: gb_create_text gb_create_pos)

text \<open>
  The copy that a command line is executed from: the first \<open>size\<close> characters of the text, a zero byte,
  and their number. With \<open>size\<close> not larger than the text it writes \<open>size + 1\<close> bytes.
\<close>

lemma gb_copy_spec:
  assumes "run_cmds (gb_cmd junk) (map Insert s) gb_create = Some gb" and "0 < sz"
  shows "gb_copy_to_buf sz gb = Some (take sz s @ [CHR 0x00], min sz (length s))
    \<and> (sz \<le> gb_data_size gb \<longrightarrow> length (take sz s @ [CHR 0x00]) = Suc sz)"
proof -
  have "gb_ok gb" "gb_text gb = s"
    using gbl.typed [OF gb_create_ok, of junk s] assms(1) by (auto simp: gb_create_text)
  then show ?thesis using gb_copy_ok [OF _ assms(2)] by (simp add: gb_data_size_ok)
qed

lemma gb_copy_spec_example:
  "\<exists>gb. run_cmds (gb_cmd (\<lambda>_. CHR ''?'')) (map Insert ''start all'') gb_create = Some gb
     \<and> gb_copy_to_buf 5 gb = Some (''start'' @ [CHR 0x00], 5)"
proof -
  obtain gb where "run_cmds (gb_cmd (\<lambda>_. CHR ''?'')) (map Insert ''start all'') gb_create = Some gb"
    using gbl.typed [OF gb_create_ok] by blast
  then show ?thesis using gb_copy_spec [of "\<lambda>_. CHR ''?''" "''start all''" gb 5] by auto
qed

text \<open>
  \<open>gb_point_offset\<close> is not always the position of the cursor: after \<open>ab\<close>, left, \<open>x\<close>, right and
  left the cursor stands before \<open>b\<close> at the end of the gap, and the offset counts the gap.
\<close>

lemma gb_point_offset_counts_gap:
  "\<exists>g1. run_cmds (gb_cmd junk) [Insert CHR ''a'', Insert CHR ''b'', Go_left, Insert CHR ''x'', Go_right, Go_left] gb_create = Some g1
     \<and> gb_ok g1 \<and> gb_text g1 = ''axb'' \<and> gb_pos g1 = 2 \<and> gb_point_offset g1 = 7"
proof -
  note d = gb_create_def gb_init_buf_def gb_reset_buf_def gb_buf_size_def GB_DEFAULT_GAP_SIZE_def gb_insert_def
    gb_putc_def gb_move_gap_to_point_def gb_store_def gb_move_left_def gb_move_right_def memmove_def gb_gap_size_def Let_def
  show ?thesis
    by (simp add: d numeral_eq_Suc gb_ok_def gb_text_def gb_left_def gb_right_def gb_pos_def gb_point_offset_def)
qed

end
