(* ===== verification/CliHistory.thy ===== *)
theory CliHistory
  imports Prelude
begin

text \<open>
  The history of the command line, \<open>lib/cli/cli_history.c\<close>: the entries stand in one of two circular
  queues, the history itself and the free entries. An entry is a number, a queue the list of its
  entries from the first to the last; the macros give the address of the queue head for the first
  and last entry of an empty queue. Using that address, or a null line, as an entry is \<open>None\<close>, and so
  is a step from a current entry that has left the history. Allocation of the lines succeeds; that
  of the entries is an argument.
\<close>

datatype hist_ptr = HNull | HNode nat | HHead

record hist =
  hist_mem :: bool
  nb_hist :: nat
  hd_hist :: "nat list"
  free_hist :: "nat list"
  hist_line :: "nat \<Rightarrow> string option"
  curr_hist :: hist_ptr
  hist_used :: nat

text \<open>The state the command line starts from.\<close>

definition hist_init :: hist where
  "hist_init = \<lparr>hist_mem = False, nb_hist = 0, hd_hist = [], free_hist = [], hist_line = (\<lambda>_. None), curr_hist = HNull,
                hist_used = 0\<rparr>"

definition cli_hist_alloc :: "hist \<Rightarrow> nat option \<times> hist" where
  "cli_hist_alloc h =
     (case free_hist h of [] \<Rightarrow> (None, h) | e # es \<Rightarrow> (Some e, h\<lparr>free_hist := es\<rparr>))"

definition cli_hist_free :: "nat \<Rightarrow> hist \<Rightarrow> hist" where
  "cli_hist_free e h = h\<lparr>hist_line := (hist_line h)(e := None), free_hist := free_hist h @ [e]\<rparr>"

definition append_line :: "nat \<Rightarrow> string \<Rightarrow> hist \<Rightarrow> hist" where
  "append_line e l h = h\<lparr>hist_line := (hist_line h)(e := Some l), hd_hist := hd_hist h @ [e]\<rparr>"

definition add_new_line :: "string \<Rightarrow> hist \<Rightarrow> hist option" where
  "add_new_line l h =
     (case cli_hist_alloc h of
        (Some e, h1) \<Rightarrow> Some (append_line e l h1)
      | (None, h1) \<Rightarrow> (case hd_hist h1 of [] \<Rightarrow> None | e # es \<Rightarrow> Some (append_line e l (h1\<lparr>hd_hist := es\<rparr>))))"

definition cli_history_add :: "string \<Rightarrow> hist \<Rightarrow> hist option" where
  "cli_history_add l h =
     (if \<not> hist_mem h then Some h
      else if hd_hist h \<noteq> []
        then (case hist_line h (last (hd_hist h)) of
                None \<Rightarrow> None
              | Some l0 \<Rightarrow> if l0 = l then Some h else add_new_line l h)
      else add_new_line l h)"

definition cli_history_del :: "hist \<Rightarrow> hist" where
  "cli_history_del h =
     (if \<not> hist_mem h then h
      else if hd_hist h \<noteq> [] then h\<lparr>hd_hist := butlast (hd_hist h)\<rparr> else h)"

definition cli_history_line :: "int \<Rightarrow> hist \<Rightarrow> string option" where
  "cli_history_line n h =
     (if \<not> hist_mem h then None
      else if 0 \<le> n \<and> nat n < length (hd_hist h) then hist_line h (hd_hist h ! nat n) else None)"

fun index_of :: "nat \<Rightarrow> nat list \<Rightarrow> nat option" where
  "index_of e [] = None"
| "index_of e (x # xs) = (if e = x then Some 0 else map_option Suc (index_of e xs))"

text \<open>The result is the line, \<open>None\<close> for the null pointer, with the new state.\<close>

definition cli_history_prev :: "hist \<Rightarrow> (string option \<times> hist) option" where
  "cli_history_prev h =
     (if \<not> hist_mem h \<or> hd_hist h = [] then Some (None, h)
      else case curr_hist h of
        HNull \<Rightarrow> let e = last (hd_hist h) in Some (hist_line h e, h\<lparr>curr_hist := HNode e\<rparr>)
      | HHead \<Rightarrow> None
      | HNode e \<Rightarrow>
          if e = hd (hd_hist h) then Some (hist_line h e, h)
          else (case index_of e (hd_hist h) of
                  None \<Rightarrow> None
                | Some 0 \<Rightarrow> let e1 = last (hd_hist h) in Some (hist_line h e1, h\<lparr>curr_hist := HNode e1\<rparr>)
                | Some (Suc i) \<Rightarrow> let e1 = hd_hist h ! i in Some (hist_line h e1, h\<lparr>curr_hist := HNode e1\<rparr>)))"

definition cli_history_next :: "hist \<Rightarrow> (string option \<times> hist) option" where
  "cli_history_next h =
     (if \<not> hist_mem h \<or> hd_hist h = [] then Some (None, h)
      else case curr_hist h of
        HNull \<Rightarrow> Some (None, h)
      | HHead \<Rightarrow> None
      | HNode e \<Rightarrow>
          if e = last (hd_hist h) then Some (Some [], h)
          else (case index_of e (hd_hist h) of
                  None \<Rightarrow> None
                | Some i \<Rightarrow>
                    let e1 = (if Suc i = length (hd_hist h) then hd (hd_hist h) else hd_hist h ! Suc i)
                    in Some (hist_line h e1, h\<lparr>curr_hist := HNode e1\<rparr>)))"

fun clear_loop :: "nat list \<Rightarrow> hist \<Rightarrow> hist" where
  "clear_loop [] h = h"
| "clear_loop (e # es) h = clear_loop es (cli_hist_free e (h\<lparr>hd_hist := es\<rparr>))"

definition cli_history_clear :: "hist \<Rightarrow> hist" where
  "cli_history_clear h = (if \<not> hist_mem h then h else clear_loop (hd_hist h) h)"

definition cli_history_delete :: "hist \<Rightarrow> hist" where
  "cli_history_delete h = (cli_history_clear h)\<lparr>hd_hist := [], hist_mem := False, nb_hist := 0\<rparr>"

text \<open>\<open>mem\<close> tells whether the entries can be allocated.\<close>

definition cli_set_history :: "bool \<Rightarrow> nat \<Rightarrow> hist \<Rightarrow> int \<times> hist" where
  "cli_set_history mem n h =
     (if n = 0 then (0, cli_history_delete h)
      else if hist_mem h \<and> n = nb_hist h then (0, h)
      else
        (let h1 = (if hist_mem h then cli_history_delete h else h)\<lparr>nb_hist := n\<rparr>
         in if mem
            then (0, h1\<lparr>hist_mem := True, free_hist := free_hist h1 @ [hist_used h1..<hist_used h1 + n],
                        hist_used := hist_used h1 + n\<rparr>)
            else (-1, h1\<lparr>hist_mem := False\<rparr>)))"

definition cli_history_reset :: "hist \<Rightarrow> hist" where
  "cli_history_reset h = h\<lparr>curr_hist := (case hd_hist h of [] \<Rightarrow> HHead | e # _ \<Rightarrow> HNode e)\<rparr>"

subsection \<open>The lines of the history\<close>

definition hist_ok :: "hist \<Rightarrow> bool" where
  "hist_ok h \<longleftrightarrow> distinct (hd_hist h @ free_hist h) \<and> (\<forall>e \<in> set (hd_hist h). hist_line h e \<noteq> None)
     \<and> (\<forall>e \<in> set (hd_hist h @ free_hist h). e < hist_used h)"

definition hist_lines :: "hist \<Rightarrow> string list" where
  "hist_lines h = map (\<lambda>e. the (hist_line h e)) (hd_hist h)"

definition hist_cap :: "hist \<Rightarrow> nat" where
  "hist_cap h = length (hd_hist h) + length (free_hist h)"

lemma hist_init_ok: "hist_ok hist_init"
  by (simp add: hist_ok_def hist_init_def)

lemma last_line:
  "hist_ok h \<Longrightarrow> hd_hist h \<noteq> [] \<Longrightarrow> hist_line h (last (hd_hist h)) = Some (last (hist_lines h))"
  by (auto simp: hist_ok_def hist_lines_def last_map)

lemma append_line_ok:
  assumes "hist_ok h" and "e \<notin> set (hd_hist h @ free_hist h)" and "e < hist_used h"
  shows "hist_ok (append_line e l h)" and "hist_lines (append_line e l h) = hist_lines h @ [l]"
    and "hist_cap (append_line e l h) = Suc (hist_cap h)"
  using assms by (auto simp: hist_ok_def append_line_def hist_lines_def hist_cap_def)

text \<open>A new line goes to the end; without a free entry the oldest line makes room.\<close>

lemma add_new_line_ok:
  assumes ok: "hist_ok h" and cap: "0 < hist_cap h"
  obtains h1 where "add_new_line l h = Some h1" and "hist_ok h1" and "hist_cap h1 = hist_cap h" and "hist_mem h1 = hist_mem h"
    and "hist_lines h1 = drop (Suc (length (hist_lines h)) - hist_cap h) (hist_lines h @ [l])"
proof (cases "free_hist h")
  case (Cons e es)
  have "hist_ok (h\<lparr>free_hist := es\<rparr>)" "e \<notin> set (hd_hist h @ es)" "e < hist_used h"
    using ok Cons by (auto simp: hist_ok_def)
  then have "hist_ok (append_line e l (h\<lparr>free_hist := es\<rparr>))"
    "hist_lines (append_line e l (h\<lparr>free_hist := es\<rparr>)) = hist_lines h @ [l]"
    "hist_cap (append_line e l (h\<lparr>free_hist := es\<rparr>)) = hist_cap h"
    using append_line_ok [of "h\<lparr>free_hist := es\<rparr>" e l] Cons by (auto simp: hist_lines_def hist_cap_def)
  moreover have "Suc (length (hist_lines h)) - hist_cap h = 0" using Cons by (simp add: hist_lines_def hist_cap_def)
  ultimately show thesis
    using that Cons by (simp add: add_new_line_def cli_hist_alloc_def append_line_def)
next
  case Nil
  then obtain e es where hd: "hd_hist h = e # es" using cap by (cases "hd_hist h") (auto simp: hist_cap_def)
  have "hist_ok (h\<lparr>hd_hist := es\<rparr>)" "e \<notin> set (es @ free_hist h)" "e < hist_used h"
    using ok hd by (auto simp: hist_ok_def)
  then have "hist_ok (append_line e l (h\<lparr>hd_hist := es\<rparr>))"
    "hist_lines (append_line e l (h\<lparr>hd_hist := es\<rparr>)) = tl (hist_lines h) @ [l]"
    "hist_cap (append_line e l (h\<lparr>hd_hist := es\<rparr>)) = hist_cap h"
    using append_line_ok [of "h\<lparr>hd_hist := es\<rparr>" e l] hd by (auto simp: hist_lines_def hist_cap_def)
  moreover have "drop (Suc (length (hist_lines h)) - hist_cap h) (hist_lines h @ [l]) = tl (hist_lines h) @ [l]"
    using Nil hd by (simp add: hist_lines_def hist_cap_def)
  ultimately show thesis
    using that [of "append_line e l (h\<lparr>hd_hist := es\<rparr>)"] Nil hd
    by (simp add: add_new_line_def cli_hist_alloc_def append_line_def)
qed

lemma cli_history_add_ok:
  assumes ok: "hist_ok h" and cap: "0 < hist_cap h" and mem: "hist_mem h"
  obtains h1 where "cli_history_add l h = Some h1" and "hist_ok h1" and "hist_cap h1 = hist_cap h" and "hist_mem h1"
    and "hist_lines h1 = (if hist_lines h \<noteq> [] \<and> last (hist_lines h) = l then hist_lines h
           else drop (Suc (length (hist_lines h)) - hist_cap h) (hist_lines h @ [l]))"
proof -
  have e: "hist_lines h = [] \<longleftrightarrow> hd_hist h = []" by (simp add: hist_lines_def)
  obtain h1 where "add_new_line l h = Some h1" "hist_ok h1" "hist_cap h1 = hist_cap h" "hist_mem h1"
    "hist_lines h1 = drop (Suc (length (hist_lines h)) - hist_cap h) (hist_lines h @ [l])"
    using add_new_line_ok [OF ok cap] mem by metis
  moreover have "cli_history_add l h = (if hist_lines h \<noteq> [] \<and> last (hist_lines h) = l then Some h else add_new_line l h)"
    using mem e last_line [OF ok] by (auto simp: cli_history_add_def)
  ultimately show thesis
    using that ok mem by (metis (full_types))
qed

fun add_lines :: "string list \<Rightarrow> hist \<Rightarrow> hist option" where
  "add_lines [] h = Some h"
| "add_lines (l # ls) h = (case cli_history_add l h of None \<Rightarrow> None | Some h1 \<Rightarrow> add_lines ls h1)"

lemma remdups_adj_snoc:
  "remdups_adj (xs @ [x]) = (if xs \<noteq> [] \<and> last xs = x then remdups_adj xs else remdups_adj xs @ [x])"
  by (induction xs rule: remdups_adj.induct) auto

lemma add_lines_snoc:
  "add_lines (ls @ [l]) h = (case add_lines ls h of None \<Rightarrow> None | Some h1 \<Rightarrow> cli_history_add l h1)"
  by (induction ls arbitrary: h) (auto split: option.splits)

lemma last_drop_remdups:
  "0 < n \<Longrightarrow> xs \<noteq> [] \<Longrightarrow> last (drop (length (remdups_adj xs) - n) (remdups_adj xs)) = last xs"
  by (simp add: last_drop last_remdups_adj)

lemma add_lines_spec:
  assumes ok: "hist_ok h" and mem: "hist_mem h" and hd0: "hd_hist h = []" and n: "0 < hist_cap h"
  shows "\<exists>h1. add_lines ls h = Some h1 \<and> hist_ok h1 \<and> hist_mem h1 \<and> hist_cap h1 = hist_cap h
    \<and> hist_lines h1 = drop (length (remdups_adj ls) - hist_cap h) (remdups_adj ls)"
proof (induction ls rule: rev_induct)
  case Nil
  then show ?case using ok mem hd0 by (simp add: hist_lines_def)
next
  case (snoc l ls)
  then obtain h1 where h1: "add_lines ls h = Some h1" "hist_ok h1" "hist_mem h1" "hist_cap h1 = hist_cap h"
    "hist_lines h1 = drop (length (remdups_adj ls) - hist_cap h) (remdups_adj ls)" by blast
  obtain h2 where h2: "cli_history_add l h1 = Some h2" "hist_ok h2" "hist_cap h2 = hist_cap h1" "hist_mem h2"
    "hist_lines h2 = (if hist_lines h1 \<noteq> [] \<and> last (hist_lines h1) = l then hist_lines h1
        else drop (Suc (length (hist_lines h1)) - hist_cap h1) (hist_lines h1 @ [l]))"
    using cli_history_add_ok [OF h1(2) _ h1(3)] n h1(4) by metis
  let ?r = "remdups_adj ls"
  have e: "hist_lines h1 = [] \<longleftrightarrow> ls = []" using h1(5) n remdups_adj_Nil_iff [of ls] by (metis diff_less drop_eq_Nil drop_Nil leD length_greater_0_conv)
  have l: "ls \<noteq> [] \<Longrightarrow> last (hist_lines h1) = last ls" using last_drop_remdups [OF n] h1(5) by simp
  have "hist_lines h2 = drop (length (remdups_adj (ls @ [l])) - hist_cap h) (remdups_adj (ls @ [l]))"
  proof (cases "ls \<noteq> [] \<and> last ls = l")
    case True
    then show ?thesis using h2(5) h1(5) e l by (simp add: remdups_adj_snoc)
  next
    case False
    have "hist_lines h2 = drop (Suc (length (hist_lines h1)) - hist_cap h) (hist_lines h1 @ [l])"
      using h2(5) h1(4) e l False by auto
    also have "\<dots> = drop (length (?r @ [l]) - hist_cap h) (?r @ [l])"
      using h1(5) n by (cases "length ?r < hist_cap h") (auto simp: Suc_diff_le)
    finally show ?thesis using False by (simp only: remdups_adj_snoc if_False)
  qed
  then show ?case using h1(1,4) h2 by (simp add: add_lines_snoc)
qed

subsection \<open>What the history keeps\<close>

lemma set_history_fresh:
  assumes "0 < n"
  defines "h \<equiv> snd (cli_set_history True n hist_init)"
  shows "hist_ok h" "hist_mem h" "hd_hist h = []" "hist_cap h = n" "nb_hist h = n" "curr_hist h = HNull"
  using assms by (simp_all add: cli_set_history_def hist_init_def hist_ok_def hist_cap_def)

text \<open>
  C24 A history set up for \<open>n\<close> lines holds, after any lines have been added, the last \<open>n\<close> of them
  without immediate repetitions, oldest first.
\<close>

theorem history_keeps_last:
  assumes "0 < n" and "cli_set_history True n hist_init = (0, h0)"
  shows "\<exists>h. add_lines ls h0 = Some h
    \<and> hist_lines h = drop (length (remdups_adj ls) - n) (remdups_adj ls)
    \<and> (\<forall>i. 0 \<le> i \<longrightarrow> nat i < length (hist_lines h) \<longrightarrow> cli_history_line i h = Some (hist_lines h ! nat i))"
proof -
  note f = set_history_fresh [OF assms(1), unfolded assms(2) snd_conv]
  have n: "0 < hist_cap h0" using f(4) assms(1) by simp
  from add_lines_spec [OF f(1-3) n, of ls] obtain h where h: "add_lines ls h0 = Some h" "hist_ok h" "hist_mem h"
    "hist_lines h = drop (length (remdups_adj ls) - n) (remdups_adj ls)"
    using f(4) by auto
  have "cli_history_line i h = Some (hist_lines h ! nat i)" if "0 \<le> i" "nat i < length (hist_lines h)" for i
    using that h(2,3) by (auto simp: cli_history_line_def hist_lines_def hist_ok_def)
  then show ?thesis using h by blast
qed

theorem history_keeps_last_witness:
  "\<exists>h. add_lines [''a'', ''b'', ''b'', ''c''] (snd (cli_set_history True 2 hist_init)) = Some h
     \<and> hist_lines h = [''b'', ''c'']"
  using history_keeps_last [of 2 "snd (cli_set_history True 2 hist_init)" "[''a'', ''b'', ''b'', ''c'']"]
  by (auto simp: cli_set_history_def hist_init_def)

text \<open>The up key pressed again and again.\<close>

fun prev_times :: "nat \<Rightarrow> hist \<Rightarrow> (string option list \<times> hist) option" where
  "prev_times 0 h = Some ([], h)"
| "prev_times (Suc n) h =
     (case cli_history_prev h of
        None \<Rightarrow> None
      | Some (l, h1) \<Rightarrow> map_option (\<lambda>(ls, h2). (l # ls, h2)) (prev_times n h1))"

lemma index_of_nth: "distinct xs \<Longrightarrow> i < length xs \<Longrightarrow> index_of (xs ! i) xs = Some i"
proof (induction xs arbitrary: i)
  case (Cons x xs)
  then show ?case by (cases i) auto
qed simp

lemma hist_line_nth: "hist_ok h \<Longrightarrow> i < length (hd_hist h) \<Longrightarrow> hist_line h (hd_hist h ! i) = Some (hist_lines h ! i)"
  by (auto simp: hist_ok_def hist_lines_def)

lemma hist_ok_curr [simp]: "hist_ok (h\<lparr>curr_hist := c\<rparr>) = hist_ok h" "hist_lines (h\<lparr>curr_hist := c\<rparr>) = hist_lines h"
  by (simp_all add: hist_ok_def hist_lines_def)

lemma prev_step:
  assumes "hist_ok h" "hist_mem h" "i < length (hd_hist h)" "curr_hist h = HNode (hd_hist h ! i)"
  shows "cli_history_prev h = Some (Some (hist_lines h ! (i - 1)), h\<lparr>curr_hist := HNode (hd_hist h ! (i - 1))\<rparr>)"
proof (cases i)
  case 0
  then show ?thesis
    using assms hist_line_nth [OF assms(1), of 0] by (cases "hd_hist h") (auto simp: cli_history_prev_def)
next
  case (Suc j)
  have "distinct (hd_hist h)" using assms(1) by (simp add: hist_ok_def)
  then have "hd_hist h ! Suc j \<noteq> hd (hd_hist h)" "index_of (hd_hist h ! Suc j) (hd_hist h) = Some (Suc j)"
    using assms(3) Suc by (auto simp: index_of_nth hd_conv_nth nth_eq_iff_index_eq simp flip: length_greater_0_conv)
  then show ?thesis
    using assms Suc hist_line_nth [OF assms(1), of j] by (auto simp: cli_history_prev_def Let_def)
qed

lemma prev_walk:
  assumes "hist_ok h" "hist_mem h" "i < length (hd_hist h)" "curr_hist h = HNode (hd_hist h ! i)"
  shows "\<exists>h1. prev_times k h = Some (map (\<lambda>j. Some (hist_lines h ! (i - Suc j))) [0..<k], h1)"
  using assms
proof (induction k arbitrary: h i)
  case (Suc k)
  let ?h = "h\<lparr>curr_hist := HNode (hd_hist h ! (i - 1))\<rparr>"
  obtain h1 where "prev_times k ?h = Some (map (\<lambda>j. Some (hist_lines h ! (i - 1 - Suc j))) [0..<k], h1)"
    using Suc.IH [of ?h "i - 1"] Suc.prems less_imp_diff_less [OF Suc.prems(3), of 1] by auto
  then show ?case
    by (simp add: prev_step [OF Suc.prems] upt_conv_Cons map_Suc_upt [symmetric] comp_def del: upt_Suc)
qed simp

text \<open>
  Walking back: after a command the up key shows the lines of the history from the last one to the
  first one, and then stays on the first.
\<close>

lemma history_walk_back:
  assumes "hist_ok h" and "hist_mem h" and "hd_hist h \<noteq> []" and "curr_hist h = HNull"
  shows "\<exists>h1. prev_times k h = Some (map (\<lambda>j. Some (hist_lines h ! (length (hist_lines h) - Suc j))) [0..<k], h1)"
proof (cases k)
  case (Suc n)
  let ?i = "length (hd_hist h) - 1"
  let ?h = "h\<lparr>curr_hist := HNode (last (hd_hist h))\<rparr>"
  have l: "last (hd_hist h) = hd_hist h ! ?i" "length (hist_lines h) = length (hd_hist h)"
    using assms(3) by (simp_all add: last_conv_nth hist_lines_def)
  have p: "cli_history_prev h = Some (Some (hist_lines h ! ?i), ?h)"
    using assms hist_line_nth [OF assms(1), of ?i] l by (simp add: cli_history_prev_def)
  obtain h1 where "prev_times n ?h = Some (map (\<lambda>j. Some (hist_lines ?h ! (?i - Suc j))) [0..<n], h1)"
    using prev_walk [of ?h ?i n] assms l by auto
  then show ?thesis
    using Suc l p by (simp add: upt_conv_Cons map_Suc_upt [symmetric] comp_def del: upt_Suc)
qed simp

lemma history_walk_back_example:
  "\<exists>h h1. add_lines [''a'', ''b''] (snd (cli_set_history True 4 hist_init)) = Some h
     \<and> prev_times 3 h = Some ([Some ''b'', Some ''a'', Some ''a''], h1)"
proof -
  obtain h where h: "add_lines [''a'', ''b''] (snd (cli_set_history True 4 hist_init)) = Some h"
    "hist_ok h" "hist_mem h" "hist_lines h = [''a'', ''b'']" "curr_hist h = HNull" "hd_hist h = [0, 1]"
    by (simp add: cli_set_history_def hist_init_def cli_history_add_def add_new_line_def cli_hist_alloc_def append_line_def
        hist_ok_def hist_lines_def upt_rec numeral_eq_Suc)
  then show ?thesis using history_walk_back [of h 3] by (auto simp: upt_rec numeral_eq_Suc)
qed

text \<open>
  An alias is a line of its own: \<open>cli_execute\<close> adds it, finds the alias, deletes it and executes the
  replacement, which is added in turn.
\<close>

definition alias_history :: "string \<Rightarrow> string \<Rightarrow> hist \<Rightarrow> hist option" where
  "alias_history a b h =
     (case cli_history_add a h of None \<Rightarrow> None | Some h1 \<Rightarrow> cli_history_add b (cli_history_del h1))"

fun alias_times :: "nat \<Rightarrow> string \<Rightarrow> string \<Rightarrow> hist \<Rightarrow> hist option" where
  "alias_times 0 a b h = Some h"
| "alias_times (Suc n) a b h = (case alias_history a b h of None \<Rightarrow> None | Some h1 \<Rightarrow> alias_times n a b h1)"

lemma del_ok:
  assumes "hist_ok h" "hist_mem h" "hd_hist h \<noteq> []"
  shows "hist_ok (cli_history_del h)" "hist_mem (cli_history_del h)" "hist_lines (cli_history_del h) = butlast (hist_lines h)"
    "Suc (hist_cap (cli_history_del h)) = hist_cap h"
  using assms by (auto simp: cli_history_del_def hist_ok_def hist_lines_def hist_cap_def map_butlast distinct_butlast
      dest: in_set_butlastD)

lemma last_kept: "0 < n \<Longrightarrow> last (drop (Suc (length r) - n) (r @ [b])) = b"
  by (subst last_drop) auto

lemma alias_step:
  assumes ok: "hist_ok h" "hist_mem h" and cap: "Suc 0 < hist_cap h" and ab: "a \<noteq> b"
    and last: "hist_lines h = [] \<or> last (hist_lines h) \<noteq> a"
  obtains h1 where "alias_history a b h = Some h1" and "hist_ok h1" and "hist_mem h1" and "Suc (hist_cap h1) = hist_cap h"
    and "hist_lines h1 = [] \<or> last (hist_lines h1) \<noteq> a"
proof -
  obtain h1 where h1: "cli_history_add a h = Some h1" "hist_ok h1" "hist_cap h1 = hist_cap h" "hist_mem h1"
    "hist_lines h1 = drop (Suc (length (hist_lines h)) - hist_cap h) (hist_lines h @ [a])"
    using cli_history_add_ok [OF ok(1) _ ok(2), of a] cap last by (metis Suc_lessD)
  have ne: "hist_lines h1 \<noteq> []" using h1(5) cap by auto
  then have ne': "hd_hist h1 \<noteq> []" by (simp add: hist_lines_def)
  note d = del_ok [OF h1(2,4) ne']
  have "0 < hist_cap (cli_history_del h1)" using d(4) h1(3) cap by simp
  then obtain h2 where h2: "cli_history_add b (cli_history_del h1) = Some h2" "hist_ok h2"
    "hist_cap h2 = hist_cap (cli_history_del h1)" "hist_mem h2"
    "hist_lines h2 = (if hist_lines (cli_history_del h1) \<noteq> [] \<and> last (hist_lines (cli_history_del h1)) = b
       then hist_lines (cli_history_del h1)
       else drop (Suc (length (hist_lines (cli_history_del h1))) - hist_cap (cli_history_del h1))
              (hist_lines (cli_history_del h1) @ [b]))"
    using cli_history_add_ok [OF d(1) _ d(2), of b] by blast
  have "hist_lines h2 = [] \<or> last (hist_lines h2) \<noteq> a"
    using h2(5) ab last_kept [OF \<open>0 < hist_cap (cli_history_del h1)\<close>] by (metis (no_types))
  then show thesis using that [of h2] h1(1,3) h2 d(4) by (simp add: alias_history_def)
qed

lemma alias_last:
  assumes ok: "hist_ok h" "hist_mem h" and cap: "hist_cap h = Suc 0" and ab: "a \<noteq> b"
    and last: "hist_lines h = [] \<or> last (hist_lines h) \<noteq> a"
  shows "alias_history a b h = None"
proof -
  obtain h1 where h1: "cli_history_add a h = Some h1" "hist_ok h1" "hist_cap h1 = hist_cap h" "hist_mem h1"
    "hist_lines h1 = drop (Suc (length (hist_lines h)) - hist_cap h) (hist_lines h @ [a])"
    using cli_history_add_ok [OF ok(1) _ ok(2), of a] cap last by (metis zero_less_Suc)
  have "hd_hist h1 \<noteq> []" using h1(5) cap by (auto simp: hist_lines_def)
  then have "hist_cap (cli_history_del h1) = 0" "hist_mem (cli_history_del h1)"
    using del_ok [OF h1(2,4)] h1(3) cap by auto
  then have "cli_history_add b (cli_history_del h1) = None"
    by (simp add: cli_history_add_def hist_cap_def add_new_line_def cli_hist_alloc_def)
  then show ?thesis using h1(1) by (simp add: alias_history_def)
qed

lemma clear_loop_ok:
  "hd_hist h = es \<Longrightarrow> hd_hist (clear_loop es h) = [] \<and> free_hist (clear_loop es h) = free_hist h @ es
     \<and> hist_used (clear_loop es h) = hist_used h"
  by (induction es arbitrary: h) (simp_all add: cli_hist_free_def)

lemma add_lines_nb: "add_lines ls h = Some h1 \<Longrightarrow> nb_hist h1 = nb_hist h"
  by (induction ls arbitrary: h)
    (auto simp: cli_history_add_def add_new_line_def cli_hist_alloc_def append_line_def split: option.splits if_splits list.splits)

text \<open>
  Every alias that is executed costs one entry of the history, because \<open>cli_history_del\<close> does not
  give it back: with a history of \<open>n\<close> lines the \<open>n\<close>-th alias adds its replacement with no entry
  left and takes the address of the empty queue for an entry.
\<close>

lemma aliases_use_up_history:
  assumes "0 < n" and "cli_set_history True n hist_init = (0, h0)" and "a \<noteq> b"
  shows "(\<exists>h. alias_times (n - 1) a b h0 = Some h) \<and> alias_times n a b h0 = None"
proof -
  note f = set_history_fresh [OF assms(1), unfolded assms(2) snd_conv]
  have go: "(\<exists>h1. alias_times m a b h = Some h1) \<and> alias_times (Suc m) a b h = None"
    if "hist_ok h" "hist_mem h" "hist_cap h = Suc m" "hist_lines h = [] \<or> last (hist_lines h) \<noteq> a" for m h
    using that
  proof (induction m arbitrary: h)
    case 0
    then show ?case using alias_last [OF 0(1-3) assms(3) 0(4)] by simp
  next
    case (Suc m)
    have "Suc 0 < hist_cap h" using Suc.prems(3) by simp
    from alias_step [OF Suc.prems(1,2) this assms(3) Suc.prems(4)] obtain h1 where
      h1: "alias_history a b h = Some h1" "hist_ok h1" "hist_mem h1" "Suc (hist_cap h1) = hist_cap h"
        "hist_lines h1 = [] \<or> last (hist_lines h1) \<noteq> a" .
    have "(\<exists>h2. alias_times m a b h1 = Some h2) \<and> alias_times (Suc m) a b h1 = None"
      by (rule Suc.IH) (use h1 Suc.prems(3) in auto)
    then show ?case unfolding alias_times.simps(2) [of _ _ _ h] h1(1) by simp
  qed
  have "hist_lines h0 = []" using f(3) by (simp add: hist_lines_def)
  then show ?thesis using go [OF f(1,2), of "n - 1"] f(4) assms(1) by simp
qed

lemma aliases_use_up_history_example:
  "alias_times 128 ''q'' ''quit'' (snd (cli_set_history True 128 hist_init)) = None"
  using aliases_use_up_history [of 128 "snd (cli_set_history True 128 hist_init)" "''q''" "''quit''"]
  by (simp add: cli_set_history_def hist_init_def)

text \<open>
  A change of the number of lines keeps the entries of the earlier one: the new history of \<open>m\<close>
  lines has room for \<open>n + m\<close>.
\<close>

lemma resized_history_keeps_entries:
  assumes "0 < n" and "0 < m" and "m \<noteq> n" and "cli_set_history True n hist_init = (0, h0)"
    and "add_lines ls h0 = Some h1" and "cli_set_history True m h1 = (0, h2)"
  shows "nb_hist h2 = m \<and> hist_lines h2 = [] \<and> hist_cap h2 = n + m \<and> hist_ok h2"
proof -
  note f = set_history_fresh [OF assms(1), unfolded assms(4) snd_conv]
  have "0 < hist_cap h0" using f(4) assms(1) by simp
  from add_lines_spec [OF f(1-3) this, of ls] have h1: "hist_ok h1" "hist_mem h1" "hist_cap h1 = n"
    using assms(5) f(4) by auto
  have nb: "nb_hist h1 = n" using add_lines_nb [OF assms(5)] f(5) by simp
  let ?d = "cli_history_delete h1"
  have d: "hd_hist ?d = []" "free_hist ?d = free_hist h1 @ hd_hist h1" "hist_used ?d = hist_used h1"
    using h1(2) by (simp_all add: cli_history_delete_def cli_history_clear_def clear_loop_ok)
  have "h2 = ?d\<lparr>nb_hist := m, hist_mem := True, free_hist := free_hist ?d @ [hist_used ?d..<hist_used ?d + m],
      hist_used := hist_used ?d + m\<rparr>"
    using assms(2,3,6) h1(2) nb by (simp add: cli_set_history_def Let_def split: if_splits)
  then have h2: "nb_hist h2 = m" "hd_hist h2 = []" "hist_used h2 = hist_used h1 + m"
    "free_hist h2 = free_hist h1 @ hd_hist h1 @ [hist_used h1..<hist_used h1 + m]"
    using d by simp_all
  have used: "e < hist_used h1" if "e \<in> set (hd_hist h1) \<union> set (free_hist h1)" for e
    using that h1(1) by (auto simp: hist_ok_def)
  have "set (hd_hist h1) \<union> set (free_hist h1) \<subseteq> {..<hist_used h1}" using used by auto
  then have "(set (hd_hist h1) \<union> set (free_hist h1)) \<inter> {hist_used h1..<hist_used h1 + m} = {}" by force
  then have "distinct (free_hist h2)" using h1(1) h2(4) by (auto simp: hist_ok_def)
  moreover have "\<forall>e \<in> set (free_hist h2). e < hist_used h2" using used h2 by (auto intro: trans_less_add1)
  ultimately show ?thesis
    using h2 h1(3) by (simp add: hist_lines_def hist_cap_def hist_ok_def)
qed

lemma resized_history_keeps_entries_example:
  "\<exists>h1. add_lines [''a''] (snd (cli_set_history True 2 hist_init)) = Some h1
     \<and> hist_cap (snd (cli_set_history True 3 h1)) = 5"
proof -
  let ?h0 = "snd (cli_set_history True 2 hist_init)"
  have n: "(0::nat) < 2" by simp
  note f = set_history_fresh [OF n]
  obtain h1 where h1: "add_lines [''a''] ?h0 = Some h1" "hist_mem h1"
    using add_lines_spec [OF f(1-3), of "[''a'']"] f(4) by (auto simp del: add_lines.simps)
  have "cli_set_history True 2 hist_init = (0, ?h0)" "cli_set_history True 3 h1 = (0, snd (cli_set_history True 3 h1))"
    using h1(2) by (simp_all add: cli_set_history_def Let_def)
  then show ?thesis using resized_history_keeps_entries [of 2 3 ?h0 "[''a'']" h1] h1 by auto
qed

end
