(* ===== verification/LineEdit.thy ===== *)
theory LineEdit
  imports GapBuf CliHistory
begin

text \<open>
  The line editor of the command line: the recognition of the key sequences and the keys of
  \<open>lib/cli/cli_vt100.c\<close>, and the input loop of \<open>lib/cli/cli_input.c\<close>, over the gap buffer and the
  history. What is written to the screen, and the flags that only steer it, are left out. The execution
  of a command, the completion and what \<open>realloc\<close> leaves in new bytes are arguments. A use of memory
  that has been freed is the result \<open>None\<close>.
\<close>

subsection \<open>Key sequences\<close>

definition VT100_BUF_SIZE :: nat where "VT100_BUF_SIZE = 8"
definition VT100_INITIALIZE :: int where "VT100_INITIALIZE = -1"
definition VT100_DONE :: int where "VT100_DONE = -1"
definition VT100_CONTINUE :: int where "VT100_CONTINUE = -2"
definition VT100_MAX_KEYS :: int where "VT100_MAX_KEYS = 27"

datatype vt100_parse_state = VT100_INIT | VT100_ESCAPE | VT100_ESCAPE_CSI

record cli_vt100 =
  bufpos :: int
  vt_buf :: "char list"
  vt_state :: vt100_parse_state

definition vt100_setup :: cli_vt100 where
  "vt100_setup = \<lparr>bufpos = -1, vt_buf = replicate VT100_BUF_SIZE (CHR 0x00), vt_state = VT100_INIT\<rparr>"

definition vt100_cmd_list :: "string list" where
  "vt100_cmd_list =
     [''Invalid'', [CHR 0x1b, CHR ''['', CHR ''A''], [CHR 0x1b, CHR ''['', CHR ''B''],
      [CHR 0x1b, CHR ''['', CHR ''C''], [CHR 0x1b, CHR ''['', CHR ''D''], [CHR 0x7f], [CHR 0x0a],
      [CHR 0x01], [CHR 0x05], [CHR 0x0b], [CHR 0x19], [CHR 0x03], [CHR 0x06], [CHR 0x02],
      [CHR 0x1b, CHR ''['', CHR ''3'', CHR ''~''], [CHR 0x09], [CHR 0x04], [CHR 0x0c], [CHR 0x0d],
      [CHR 0x1b, CHR 0x7f], [CHR 0x1b, CHR ''b''], [CHR 0x1b, CHR ''f''], [CHR 0x17], [CHR 0x10],
      [CHR 0x0e], [CHR 0x1b, CHR ''d''], [CHR 0x18]]"

fun find_cmd_from :: "int \<Rightarrow> string list \<Rightarrow> string \<Rightarrow> int" where
  "find_cmd_from i [] s = VT100_DONE"
| "find_cmd_from i (c # cs) s = (if s = c then i else find_cmd_from (i + 1) cs s)"

definition vt100_find_cmd :: "char list \<Rightarrow> nat \<Rightarrow> int" where
  "vt100_find_cmd buf sz = find_cmd_from 0 vt100_cmd_list (take sz buf)"

abbreviation char_code :: "char \<Rightarrow> nat" where "char_code c \<equiv> of_char c"

definition vt100_parse_input :: "char \<Rightarrow> cli_vt100 \<Rightarrow> int \<times> cli_vt100" where
  "vt100_parse_input c vt0 =
     (let vt1 = (if bufpos vt0 = VT100_INITIALIZE \<or> bufpos vt0 \<ge> int VT100_BUF_SIZE
                 then vt0\<lparr>vt_state := VT100_INIT, bufpos := 0\<rparr> else vt0);
          vt = vt1\<lparr>vt_buf := (vt_buf vt1)[nat (bufpos vt1) := c], bufpos := bufpos vt1 + 1\<rparr>;
          sz = nat (bufpos vt)
      in case vt_state vt of
           VT100_INIT \<Rightarrow>
             if c = CHR 0x1b then (VT100_CONTINUE, vt\<lparr>vt_state := VT100_ESCAPE\<rparr>)
             else (vt100_find_cmd (vt_buf vt) sz, vt\<lparr>bufpos := VT100_INITIALIZE\<rparr>)
         | VT100_ESCAPE \<Rightarrow>
             if c = CHR ''['' then (VT100_CONTINUE, vt\<lparr>vt_state := VT100_ESCAPE_CSI\<rparr>)
             else if 48 \<le> char_code c \<and> char_code c \<le> 0x7f
               then (vt100_find_cmd (vt_buf vt) sz, vt\<lparr>bufpos := VT100_INITIALIZE\<rparr>)
             else (VT100_CONTINUE, vt)
         | VT100_ESCAPE_CSI \<Rightarrow>
             if 64 \<le> char_code c \<and> char_code c \<le> 126
               then (vt100_find_cmd (vt_buf vt) sz, vt\<lparr>bufpos := VT100_INITIALIZE\<rparr>)
             else (VT100_CONTINUE, vt))"

subsection \<open>The keys\<close>

datatype kill_ptr = KNull | KStr string | KFreed

record cli_line =
  cl_gb :: gapbuf
  cl_hist :: hist
  cl_kill :: kill_ptr
  cl_vt :: cli_vt100
  cl_quit :: bool

definition show_line :: "(nat \<Rightarrow> char) \<Rightarrow> string option \<Rightarrow> cli_line \<Rightarrow> cli_line option" where
  "show_line junk l cli =
     (case l of
        None \<Rightarrow> Some cli
      | Some s \<Rightarrow>
          (case gb_str_insert junk s 0 (gb_reset_buf (cl_gb cli)) of
             None \<Rightarrow> None
           | Some (n, g) \<Rightarrow> map_option (\<lambda>g1. cli\<lparr>cl_gb := g1\<rparr>) (gb_set_point (int n) g)))"

definition key_up_arr :: "(nat \<Rightarrow> char) \<Rightarrow> cli_line \<Rightarrow> cli_line option" where
  "key_up_arr junk cli =
     (case cli_history_prev (cl_hist cli) of None \<Rightarrow> None | Some (l, h) \<Rightarrow> show_line junk l (cli\<lparr>cl_hist := h\<rparr>))"

definition key_down_arr :: "(nat \<Rightarrow> char) \<Rightarrow> cli_line \<Rightarrow> cli_line option" where
  "key_down_arr junk cli =
     (case cli_history_next (cl_hist cli) of None \<Rightarrow> None | Some (l, h) \<Rightarrow> show_line junk l (cli\<lparr>cl_hist := h\<rparr>))"

definition key_right_arr :: "gapbuf \<Rightarrow> gapbuf" where
  "key_right_arr gb = (if \<not> gb_eof gb then gb_move_right gb else gb)"

definition key_left_arr :: "gapbuf \<Rightarrow> gapbuf" where
  "key_left_arr gb = (if \<not> gb_point_at_start gb then gb_move_left gb else gb)"

definition key_backspace :: "gapbuf \<Rightarrow> gapbuf option" where
  "key_backspace gb = (if \<not> gb_point_at_start gb then gb_del 1 (gb_move_left gb) else Some gb)"

definition key_suppr :: "gapbuf \<Rightarrow> gapbuf option" where
  "key_suppr gb = (if \<not> gb_point_at_start gb then gb_del 1 (gb_move_left gb) else Some gb)"

definition key_return :: "(cli_line \<Rightarrow> cli_line option) \<Rightarrow> cli_line \<Rightarrow> cli_line option" where
  "key_return exec cli =
     map_option (\<lambda>c. c\<lparr>cl_gb := gb_reset_buf (cl_gb c), cl_hist := (cl_hist c)\<lparr>curr_hist := HNull\<rparr>\<rparr>) (exec cli)"

definition key_ctrl_a :: "gapbuf \<Rightarrow> gapbuf option" where "key_ctrl_a gb = gb_set_point 0 gb"
definition key_ctrl_e :: "gapbuf \<Rightarrow> gapbuf option" where "key_ctrl_e gb = gb_set_point (-1) gb"

definition free_kill :: "kill_ptr \<Rightarrow> kill_ptr option" where
  "free_kill k = (case k of KNull \<Rightarrow> Some KNull | KStr _ \<Rightarrow> Some KFreed | KFreed \<Rightarrow> None)"

definition to_int32 :: "nat \<Rightarrow> int" where
  "to_int32 n = (if n < 2 ^ 31 then int n else int n - 2 ^ 32)"

definition strndup :: "nat \<Rightarrow> nat \<Rightarrow> char list \<Rightarrow> string option" where
  "strndup from n m = (if from + n \<le> length m then Some (takeWhile (\<lambda>c. c \<noteq> CHR 0x00) (take n (drop from m))) else None)"

definition key_ctrl_k :: "cli_line \<Rightarrow> cli_line option" where
  "key_ctrl_k cli =
     (case gb_move_gap_to_point (cl_gb cli) of
        None \<Rightarrow> None
      | Some g \<Rightarrow>
          (case free_kill (cl_kill cli) of
             None \<Rightarrow> None
           | Some k \<Rightarrow>
               let n = gb_right_data_size g in
               case (if n > 0 then map_option KStr (strndup (gb_egap g) n (gb_mem g)) else Some k) of
                 None \<Rightarrow> None
               | Some k1 \<Rightarrow> map_option (\<lambda>g1. cli\<lparr>cl_gb := g1, cl_kill := k1\<rparr>) (gb_del (to_int32 (gb_right_data_size g)) g)))"

definition key_ctrl_y :: "(nat \<Rightarrow> char) \<Rightarrow> cli_line \<Rightarrow> cli_line option" where
  "key_ctrl_y junk cli =
     (case cl_kill cli of
        KNull \<Rightarrow> Some cli
      | KFreed \<Rightarrow> None
      | KStr s \<Rightarrow> map_option (\<lambda>(n, g). cli\<lparr>cl_gb := g\<rparr>) (gb_str_insert junk s (length s) (cl_gb cli)))"

definition key_ctrl_c :: "cli_line \<Rightarrow> cli_line" where
  "key_ctrl_c cli = cli\<lparr>cl_gb := gb_reset_buf (cl_gb cli), cl_hist := (cl_hist cli)\<lparr>curr_hist := HNull\<rparr>\<rparr>"

text \<open>The loops of the word keys; a loop that does not end, and a read outside the buffer, is \<open>None\<close>.\<close>

partial_function (option) key_word_left :: "gapbuf \<Rightarrow> gapbuf option" where
  "key_word_left gb =
     (case gb_get_prev (key_left_arr gb) of
        None \<Rightarrow> None
      | Some (c, g) \<Rightarrow>
          if c = CHR '' '' then Some g else if gb_point_at_start g then Some g else key_word_left g)"

partial_function (option) key_word_right :: "gapbuf \<Rightarrow> gapbuf option" where
  "key_word_right gb =
     (if gb_point_at_end gb then Some gb
      else case gb_get (key_right_arr gb) of
        None \<Rightarrow> None
      | Some (c, g) \<Rightarrow> if c = CHR '' '' then Some g else key_word_right g)"

definition key_ctrl_x :: "cli_line \<Rightarrow> cli_line" where "key_ctrl_x cli = cli\<lparr>cl_quit := True\<rparr>"

definition on_gb :: "(gapbuf \<Rightarrow> gapbuf option) \<Rightarrow> cli_line \<Rightarrow> cli_line option" where
  "on_gb f cli = map_option (\<lambda>g. cli\<lparr>cl_gb := g\<rparr>) (f (cl_gb cli))"

text \<open>
  The functions of the table, in its order; \<open>exec\<close> stands for \<open>cli_execute\<close> and \<open>tab\<close> for
  \<open>cli_auto_complete\<close>. The entries that only print, or do nothing, keep the state.
\<close>

definition vt100_do_cmd ::
  "(cli_line \<Rightarrow> cli_line option) \<Rightarrow> (cli_line \<Rightarrow> cli_line option) \<Rightarrow> (nat \<Rightarrow> char) \<Rightarrow> int \<Rightarrow> cli_line \<Rightarrow> cli_line option" where
  "vt100_do_cmd exec tab junk idx cli =
     (if idx = 1 \<or> idx = 23 then key_up_arr junk cli
      else if idx = 2 \<or> idx = 24 then key_down_arr junk cli
      else if idx = 3 \<or> idx = 12 then on_gb (\<lambda>g. Some (key_right_arr g)) cli
      else if idx = 4 \<or> idx = 13 then on_gb (\<lambda>g. Some (key_left_arr g)) cli
      else if idx = 5 then on_gb key_backspace cli
      else if idx = 6 \<or> idx = 18 then key_return exec cli
      else if idx = 7 then on_gb key_ctrl_a cli
      else if idx = 8 then on_gb key_ctrl_e cli
      else if idx = 9 then key_ctrl_k cli
      else if idx = 10 then key_ctrl_y junk cli
      else if idx = 11 then Some (key_ctrl_c cli)
      else if idx = 14 then on_gb key_suppr cli
      else if idx = 15 then tab cli
      else if idx = 20 then on_gb key_word_left cli
      else if idx = 21 then on_gb key_word_right cli
      else if idx = 26 then Some (key_ctrl_x cli)
      else Some cli)"

definition handle_input_display :: "(nat \<Rightarrow> char) \<Rightarrow> char \<Rightarrow> cli_line \<Rightarrow> cli_line option" where
  "handle_input_display junk c cli =
     (if 32 \<le> char_code c \<and> char_code c \<le> 126 then on_gb (gb_insert junk c) cli else Some cli)"

fun cli_input ::
  "(cli_line \<Rightarrow> cli_line option) \<Rightarrow> (cli_line \<Rightarrow> cli_line option) \<Rightarrow> (nat \<Rightarrow> char) \<Rightarrow> string \<Rightarrow> cli_line \<Rightarrow> cli_line option" where
  "cli_input exec tab junk [] cli = Some cli"
| "cli_input exec tab junk (c # cs) cli =
     (let (ret, vt) = vt100_parse_input c (cl_vt cli); cli1 = cli\<lparr>cl_vt := vt\<rparr> in
      case (if ret > 0
            then (case vt100_do_cmd exec tab junk ret cli1 of
                    None \<Rightarrow> None | Some cli2 \<Rightarrow> handle_input_display junk (CHR 0x00) cli2)
            else if ret = VT100_DONE then handle_input_display junk c cli1
            else Some cli1) of
        None \<Rightarrow> None
      | Some cli3 \<Rightarrow> cli_input exec tab junk cs cli3)"

definition cli_start_state :: cli_line where
  "cli_start_state = \<lparr>cl_gb = gb_create, cl_hist = snd (cli_set_history True 128 hist_init), cl_kill = KNull,
     cl_vt = vt100_setup, cl_quit = False\<rparr>"

subsection \<open>Lemmas on the parser\<close>

definition vt_ok :: "cli_vt100 \<Rightarrow> bool" where
  "vt_ok vt \<longleftrightarrow> -1 \<le> bufpos vt \<and> bufpos vt \<le> 8 \<and> length (vt_buf vt) = VT100_BUF_SIZE"

definition vt_idle :: "cli_vt100 \<Rightarrow> bool" where
  "vt_idle vt \<longleftrightarrow> bufpos vt = -1 \<and> length (vt_buf vt) = VT100_BUF_SIZE"

fun parse_seq :: "string \<Rightarrow> cli_vt100 \<Rightarrow> int list \<times> cli_vt100" where
  "parse_seq [] vt = ([], vt)"
| "parse_seq (c # cs) vt =
     (let (r, vt1) = vt100_parse_input c vt; (rs, vt2) = parse_seq cs vt1 in (r # rs, vt2))"

lemma find_cmd_range: "find_cmd_from i cs s = -1 \<or> i \<le> find_cmd_from i cs s \<and> find_cmd_from i cs s < i + int (length cs)"
proof (induction cs arbitrary: i)
  case (Cons c cs)
  show ?case using Cons.IH [of "i + 1"] by auto
qed (simp add: VT100_DONE_def)

lemma find_cmd_bounds: "-1 \<le> vt100_find_cmd buf n" "vt100_find_cmd buf n < VT100_MAX_KEYS"
  using find_cmd_range [of 0 vt100_cmd_list "take n buf"]
  by (auto simp: vt100_find_cmd_def vt100_cmd_list_def VT100_MAX_KEYS_def)

lemma parse_input_ok:
  assumes "vt_ok vt"
  shows "vt_ok (snd (vt100_parse_input c vt))" and "-2 \<le> fst (vt100_parse_input c vt)"
    and "fst (vt100_parse_input c vt) < VT100_MAX_KEYS"
  using assms find_cmd_bounds
  by (auto simp: vt100_parse_input_def Let_def vt_ok_def VT100_INITIALIZE_def VT100_CONTINUE_def VT100_MAX_KEYS_def
      VT100_BUF_SIZE_def split: vt100_parse_state.splits intro: order_trans [OF _ find_cmd_bounds(1)])

lemma parse_printable:
  assumes "vt_idle vt" and "32 \<le> char_code c" and "char_code c \<le> (126::nat)"
  shows "fst (vt100_parse_input c vt) = VT100_DONE" and "vt_idle (snd (vt100_parse_input c vt))"
proof -
  obtain x xs where b: "vt_buf vt = x # xs" using assms(1) by (cases "vt_buf vt") (auto simp: vt_idle_def VT100_BUF_SIZE_def)
  have n7f: "c \<noteq> CHR 0x7f" using assms(3) by auto
  have n0a: "c \<noteq> CHR 0x0a" using assms(2) by auto
  have n01: "c \<noteq> CHR 0x01" using assms(2) by auto
  have n05: "c \<noteq> CHR 0x05" using assms(2) by auto
  have n0b: "c \<noteq> CHR 0x0b" using assms(2) by auto
  have n19: "c \<noteq> CHR 0x19" using assms(2) by auto
  have n03: "c \<noteq> CHR 0x03" using assms(2) by auto
  have n06: "c \<noteq> CHR 0x06" using assms(2) by auto
  have n02: "c \<noteq> CHR 0x02" using assms(2) by auto
  have n09: "c \<noteq> CHR 0x09" using assms(2) by auto
  have n04: "c \<noteq> CHR 0x04" using assms(2) by auto
  have n0c: "c \<noteq> CHR 0x0c" using assms(2) by auto
  have n0d: "c \<noteq> CHR 0x0d" using assms(2) by auto
  have n17: "c \<noteq> CHR 0x17" using assms(2) by auto
  have n10: "c \<noteq> CHR 0x10" using assms(2) by auto
  have n0e: "c \<noteq> CHR 0x0e" using assms(2) by auto
  have n18: "c \<noteq> CHR 0x18" using assms(2) by auto
  have n1b: "c \<noteq> CHR 0x1b" using assms(2) by auto
  have "find_cmd_from 0 vt100_cmd_list [c] = VT100_DONE"
    by (simp add: vt100_cmd_list_def n7f n0a n01 n05 n0b n19 n03 n06 n02 n09 n04 n0c n0d n17 n10 n0e n18)
  with n1b show "fst (vt100_parse_input c vt) = VT100_DONE" "vt_idle (snd (vt100_parse_input c vt))"
    using assms(1) b by (auto simp: vt100_parse_input_def Let_def vt_idle_def VT100_INITIALIZE_def vt100_find_cmd_def)
qed

text \<open>
  Every key sequence of the table is recognised: from a parser between two keys its last byte, and no
  earlier one, gives the number of the key, and the parser is between two keys again.
\<close>

lemma vt100_keys_decode:
  assumes "vt_idle vt" and "0 < i" and "i < 27"
  shows "fst (parse_seq (vt100_cmd_list ! i) vt) = replicate (length (vt100_cmd_list ! i) - 1) VT100_CONTINUE @ [int i]
    \<and> vt_idle (snd (parse_seq (vt100_cmd_list ! i) vt))"
proof -
  obtain a0 a1 a2 a3 a4 a5 a6 a7 where "vt_buf vt = [a0, a1, a2, a3, a4, a5, a6, a7]"
    using assms(1) by (auto simp: vt_idle_def VT100_BUF_SIZE_def numeral_eq_Suc length_Suc_conv)
  then obtain st where vt: "vt = \<lparr>bufpos = -1, vt_buf = [a0, a1, a2, a3, a4, a5, a6, a7], vt_state = st\<rparr>"
    using assms(1) by (cases vt) (auto simp: vt_idle_def)
  have "i \<in> {1, 2, 3, 4, 5, 6, 7, 8, 9, 10, 11, 12, 13, 14, 15, 16, 17, 18, 19, 20, 21, 22, 23, 24, 25, 26}"
    using assms(2,3) by simp presburger
  then show ?thesis
    by (elim insertE; simp add: vt vt100_cmd_list_def vt100_parse_input_def Let_def VT100_INITIALIZE_def VT100_BUF_SIZE_def
        VT100_CONTINUE_def vt100_find_cmd_def vt_idle_def)
qed

lemma vt100_keys_decode_example:
  "fst (parse_seq [CHR 0x1b, CHR ''['', CHR ''3'', CHR ''~''] vt100_setup) = [-2, -2, -2, 14]"
  using vt100_keys_decode [of vt100_setup 14]
  by (simp add: vt_idle_def vt100_setup_def vt100_cmd_list_def VT100_BUF_SIZE_def VT100_CONTINUE_def numeral_eq_Suc)

text \<open>
  On any input the parser stays within its buffer of eight bytes: the position it stores the next
  byte at is inside, and what it returns is an index of the table, \<open>VT100_DONE\<close> or \<open>VT100_CONTINUE\<close>.
\<close>

lemma vt100_parser_in_bounds:
  assumes "vt_ok vt"
  shows "vt_ok (snd (parse_seq cs vt)) \<and> list_all (\<lambda>r. -2 \<le> r \<and> r < VT100_MAX_KEYS) (fst (parse_seq cs vt))
    \<and> (bufpos (snd (parse_seq cs vt)) = VT100_INITIALIZE \<or> bufpos (snd (parse_seq cs vt)) \<ge> int VT100_BUF_SIZE
       \<or> nat (bufpos (snd (parse_seq cs vt))) < length (vt_buf (snd (parse_seq cs vt))))"
proof -
  have "vt_ok (snd (parse_seq cs vt)) \<and> list_all (\<lambda>r. -2 \<le> r \<and> r < VT100_MAX_KEYS) (fst (parse_seq cs vt))"
    using assms
  proof (induction cs arbitrary: vt)
    case (Cons c cs)
    then show ?case using parse_input_ok [OF Cons.prems, of c] Cons.IH by (auto simp: case_prod_beta Let_def)
  qed simp
  then show ?thesis by (auto simp: vt_ok_def VT100_INITIALIZE_def VT100_BUF_SIZE_def)
qed

lemma vt100_parser_in_bounds_example:
  "vt_ok (snd (parse_seq (replicate 20 (CHR 0x1b)) vt100_setup))"
  using vt100_parser_in_bounds [of vt100_setup "replicate 20 (CHR 0x1b)"]
  by (simp add: vt_ok_def vt100_setup_def VT100_BUF_SIZE_def)

text \<open>
  Typing: printable characters typed into a consistent line are inserted at the cursor, in order,
  whatever \<open>cli_execute\<close> and the completion do.
\<close>

lemma typing_inserts:
  assumes "gb_ok (cl_gb cli)" and "vt_idle (cl_vt cli)" and "\<forall>c \<in> set s. 32 \<le> char_code c \<and> char_code c \<le> (126::nat)"
  shows "\<exists>cli1. cli_input exec tab junk s cli = Some cli1 \<and> gb_ok (cl_gb cli1) \<and> vt_idle (cl_vt cli1)
    \<and> gb_text (cl_gb cli1) = take (gb_pos (cl_gb cli)) (gb_text (cl_gb cli)) @ s @ drop (gb_pos (cl_gb cli)) (gb_text (cl_gb cli))
    \<and> gb_pos (cl_gb cli1) = gb_pos (cl_gb cli) + length s"
  using assms
proof (induction s arbitrary: cli)
  case Nil
  then show ?case by simp
next
  case (Cons c cs)
  have c: "32 \<le> char_code c" "char_code c \<le> (126::nat)" using Cons.prems(3) by auto
  obtain r vt where p: "vt100_parse_input c (cl_vt cli) = (r, vt)" by (cases "vt100_parse_input c (cl_vt cli)")
  have r: "r = VT100_DONE" "vt_idle vt" using parse_printable [OF Cons.prems(2) c] p by simp_all
  obtain g1 where g1: "gb_insert junk c (cl_gb cli) = Some g1" "gb_ok g1" "gb_pos g1 = Suc (gb_pos (cl_gb cli))"
    "gb_text g1 = take (gb_pos (cl_gb cli)) (gb_text (cl_gb cli)) @ c # drop (gb_pos (cl_gb cli)) (gb_text (cl_gb cli))"
    using gb_insert_ok [OF Cons.prems(1)] .
  let ?c = "cli\<lparr>cl_vt := vt, cl_gb := g1\<rparr>"
  have step: "cli_input exec tab junk (c # cs) cli = cli_input exec tab junk cs ?c"
    using c g1(1) p r(1) by (simp add: handle_input_display_def on_gb_def VT100_DONE_def)
  obtain cli1 where "cli_input exec tab junk cs ?c = Some cli1" "gb_ok (cl_gb cli1)" "vt_idle (cl_vt cli1)"
    "gb_text (cl_gb cli1) = take (gb_pos g1) (gb_text g1) @ cs @ drop (gb_pos g1) (gb_text g1)"
    "gb_pos (cl_gb cli1) = gb_pos g1 + length cs"
    using Cons.IH [of ?c] g1(2) r(2) Cons.prems(3) by auto
  then show ?case
    unfolding step using g1(3,4) gb_pos_le [OF Cons.prems(1)] by (simp add: Suc_diff_le)
qed

lemma typing_inserts_example:
  "\<exists>cli1. cli_input Some Some (\<lambda>_. CHR ''?'') ''start 0'' cli_start_state = Some cli1 \<and> gb_text (cl_gb cli1) = ''start 0''"
  using typing_inserts [of cli_start_state "''start 0''" Some Some "\<lambda>_. CHR ''?''"]
  by (auto simp: cli_start_state_def gb_create_ok gb_create_text gb_create_pos vt_idle_def vt100_setup_def)

subsection \<open>The keys on the text\<close>

lemma key_right_ok:
  assumes "gb_ok gb"
  shows "gb_ok (key_right_arr gb)" "gb_text (key_right_arr gb) = gb_text gb"
    "gb_pos (key_right_arr gb) = min (Suc (gb_pos gb)) (length (gb_text gb))"
  using assms gb_move_right_ok [OF assms] gb_eof_iff [OF assms] by (auto simp: key_right_arr_def)

lemma key_left_ok:
  assumes "gb_ok gb"
  shows "gb_ok (key_left_arr gb)" "gb_text (key_left_arr gb) = gb_text gb" "gb_pos (key_left_arr gb) = gb_pos gb - 1"
  using assms gb_move_left_ok [OF assms] by (auto simp: key_left_arr_def gb_point_at_start_def gb_pos_def)

text \<open>
  The cursor keys and the deleting keys: right and left move the cursor within the line, backspace and
  the delete sequence remove the character before a cursor that is not at the start of the line, and
  control-a and control-e go to its ends.
\<close>

lemma edit_keys_correct:
  assumes "gb_ok gb"
  shows "gb_ok (key_right_arr gb) \<and> gb_text (key_right_arr gb) = gb_text gb
      \<and> gb_pos (key_right_arr gb) = min (gb_pos gb + 1) (length (gb_text gb))
    \<and> gb_ok (key_left_arr gb) \<and> gb_text (key_left_arr gb) = gb_text gb \<and> gb_pos (key_left_arr gb) = gb_pos gb - 1
    \<and> (0 < gb_pos gb \<longrightarrow> (\<exists>g1. key_backspace gb = Some g1 \<and> key_suppr gb = Some g1 \<and> gb_ok g1 \<and> gb_pos g1 = gb_pos gb - 1
           \<and> gb_text g1 = take (gb_pos gb - 1) (gb_text gb) @ drop (gb_pos gb) (gb_text gb)))
    \<and> (\<exists>g1. key_ctrl_a gb = Some g1 \<and> gb_ok g1 \<and> gb_text g1 = gb_text gb \<and> gb_pos g1 = 0)
    \<and> (\<exists>g1. key_ctrl_e gb = Some g1 \<and> gb_ok g1 \<and> gb_text g1 = gb_text gb \<and> gb_pos g1 = length (gb_text gb))"
proof -
  have bs: "\<exists>g1. key_backspace gb = Some g1 \<and> key_suppr gb = Some g1 \<and> gb_ok g1 \<and> gb_pos g1 = gb_pos gb - 1
      \<and> gb_text g1 = take (gb_pos gb - 1) (gb_text gb) @ drop (gb_pos gb) (gb_text gb)" if "0 < gb_pos gb"
  proof -
    have "\<not> gb_point_at_start gb" using that by (auto simp: gb_point_at_start_def gb_pos_def split: if_splits)
    moreover have "gb_pos (gb_move_left gb) + 1 \<le> length (gb_text (gb_move_left gb))"
      using gb_move_left_ok [OF assms] gb_pos_le [OF assms] that by simp
    then obtain g1 where "gb_del (int 1) (gb_move_left gb) = Some g1" "gb_ok g1" "gb_pos g1 = gb_pos (gb_move_left gb)"
      "gb_text g1 = take (gb_pos (gb_move_left gb)) (gb_text (gb_move_left gb))
         @ drop (gb_pos (gb_move_left gb) + 1) (gb_text (gb_move_left gb))"
      using gb_del_ok [OF gb_move_left_ok(1) [OF assms], of 1] by blast
    ultimately show ?thesis
      using that gb_move_left_ok [OF assms] by (simp add: key_backspace_def key_suppr_def)
  qed
  obtain a where a: "gb_set_point 0 gb = Some a" "gb_ok a" "gb_text a = gb_text gb" "gb_pos a = 0"
    using gb_set_point_ok [OF assms, of 0] by auto
  obtain e where e: "gb_set_point (-1) gb = Some e" "gb_ok e" "gb_text e = gb_text gb" "gb_pos e = length (gb_text gb)"
    using gb_set_point_ok [OF assms, of "-1"] by auto
  show ?thesis
    using key_right_ok [OF assms] key_left_ok [OF assms] bs a e by (simp add: key_ctrl_a_def key_ctrl_e_def)
qed

lemma edit_keys_correct_example: "\<exists>g1. key_ctrl_e gb_create = Some g1 \<and> gb_pos g1 = 0"
  using edit_keys_correct [OF gb_create_ok] gb_create_text by auto

lemma key_ctrl_k_ok:
  assumes ok: "gb_ok (cl_gb cli)" and kill: "cl_kill cli \<noteq> KFreed" and nul: "CHR 0x00 \<notin> set (gb_text (cl_gb cli))"
    and pos: "gb_pos (cl_gb cli) < length (gb_text (cl_gb cli))" and sz: "length (gb_text (cl_gb cli)) < 2 ^ 31"
  obtains g1 where "key_ctrl_k cli = Some (cli\<lparr>cl_gb := g1, cl_kill := KStr (drop (gb_pos (cl_gb cli)) (gb_text (cl_gb cli)))\<rparr>)"
    and "gb_ok g1" and "gb_text g1 = take (gb_pos (cl_gb cli)) (gb_text (cl_gb cli))" and "gb_pos g1 = gb_pos (cl_gb cli)"
proof -
  let ?gb = "cl_gb cli" let ?p = "gb_pos (cl_gb cli)" let ?t = "gb_text (cl_gb cli)"
  obtain g where g: "gb_move_gap_to_point ?gb = Some g" "gb_ok g" "gb_point g = gb_gap g"
    "gb_left g = take ?p ?t" "gb_right g = drop ?p ?t"
    using gb_move_gap [OF ok] .
  have t: "gb_text g = ?t" "gb_pos g = ?p"
    using gb_at_gap(2) [OF g(2,3)] g(4) pos gb_split_text [OF g(4,5)] by simp_all
  have r: "gb_right_data_size g = length ?t - ?p" "gb_ebuf g - gb_egap g = length ?t - ?p"
    using gb_eof_iff [OF g(2)] gb_sizes [OF g(2)] t pos g(5) by (simp_all add: gb_right_data_size_def)
  obtain k where k: "free_kill (cl_kill cli) = Some k" using kill by (cases "cl_kill cli") (auto simp: free_kill_def)
  have "take (length ?t - ?p) (drop (gb_egap g) (gb_mem g)) = drop ?p ?t"
    using g(5) r(2) by (simp add: gb_right_def)
  moreover have "takeWhile (\<lambda>c. c \<noteq> CHR 0x00) (drop ?p ?t) = drop ?p ?t"
    using nul by (intro takeWhile_eq_all_conv [THEN iffD2] ballI) (metis in_set_dropD)
  moreover have "gb_egap g + (length ?t - ?p) \<le> length (gb_mem g)"
    using g(2) r(2) by (auto simp: gb_ok_def)
  ultimately have dup: "strndup (gb_egap g) (length ?t - ?p) (gb_mem g) = Some (drop ?p ?t)"
    by (simp add: strndup_def)
  obtain g1 where g1: "gb_del (int (length ?t - ?p)) g = Some g1" "gb_ok g1" "gb_pos g1 = ?p" "gb_text g1 = take ?p ?t"
    using gb_del_ok [OF g(2), of "length ?t - ?p"] t pos by auto
  have "to_int32 (length ?t - ?p) = int (length ?t - ?p)" using sz by (simp add: to_int32_def)
  then have "key_ctrl_k cli = Some (cli\<lparr>cl_gb := g1, cl_kill := KStr (drop ?p ?t)\<rparr>)"
    using g(1) k dup g1(1) pos r(1) by (simp add: key_ctrl_k_def Let_def)
  then show thesis using that g1 by simp
qed

text \<open>
  Kill and yank: control-k cuts the rest of the line, keeps it, and control-y puts it back.
\<close>

lemma kill_yank_roundtrip:
  assumes "gb_ok (cl_gb cli)" and "cl_kill cli \<noteq> KFreed" and "CHR 0x00 \<notin> set (gb_text (cl_gb cli))"
    and "gb_pos (cl_gb cli) < length (gb_text (cl_gb cli))" and "length (gb_text (cl_gb cli)) < 2 ^ 31"
  shows "\<exists>cli1 cli2. key_ctrl_k cli = Some cli1 \<and> gb_text (cl_gb cli1) = take (gb_pos (cl_gb cli)) (gb_text (cl_gb cli))
    \<and> cl_kill cli1 = KStr (drop (gb_pos (cl_gb cli)) (gb_text (cl_gb cli)))
    \<and> key_ctrl_y junk cli1 = Some cli2 \<and> gb_ok (cl_gb cli2) \<and> gb_text (cl_gb cli2) = gb_text (cl_gb cli)
    \<and> gb_pos (cl_gb cli2) = length (gb_text (cl_gb cli))"
proof -
  let ?p = "gb_pos (cl_gb cli)" let ?t = "gb_text (cl_gb cli)"
  obtain g1 where g1: "key_ctrl_k cli = Some (cli\<lparr>cl_gb := g1, cl_kill := KStr (drop ?p ?t)\<rparr>)"
    "gb_ok g1" "gb_text g1 = take ?p ?t" "gb_pos g1 = ?p"
    using key_ctrl_k_ok [OF assms] .
  obtain g2 where "gb_str_insert junk (drop ?p ?t) (length ?t - ?p) g1 = Some (length ?t - ?p, g2)" "gb_ok g2"
    "gb_pos g2 = gb_pos g1 + (length ?t - ?p)"
    "gb_text g2 = take (gb_pos g1) (gb_text g1) @ take (length ?t - ?p) (drop ?p ?t) @ drop (gb_pos g1) (gb_text g1)"
    using gb_str_insert_ok [OF g1(2), of "length ?t - ?p" "length ?t - ?p" "drop ?p ?t" junk] assms(4) by auto
  then show ?thesis using g1 assms(4) by (simp add: key_ctrl_y_def)
qed

text \<open>A line to try the keys on.\<close>

definition sample_line :: "string \<Rightarrow> nat \<Rightarrow> cli_line" where
  "sample_line t p = cli_start_state\<lparr>cl_gb := \<lparr>gb_mem = take p t @ [CHR '' '', CHR '' ''] @ drop p t, gb_ebuf = length t + 2,
     gb_point = p, gb_gap = p, gb_egap = p + 2\<rparr>\<rparr>"

lemma sample_line_ok:
  assumes "p \<le> length t"
  shows "gb_ok (cl_gb (sample_line t p))" "gb_text (cl_gb (sample_line t p)) = t" "gb_pos (cl_gb (sample_line t p)) = p"
    "cl_kill (sample_line t p) = KNull"
  using assms by (auto simp: sample_line_def gb_ok_def gb_text_def gb_left_def gb_right_def gb_pos_def cli_start_state_def)

lemma kill_yank_roundtrip_example:
  "\<exists>cli1. key_ctrl_k (sample_line ''set all'' 4) = Some cli1 \<and> cl_kill cli1 = KStr ''all''"
  using kill_yank_roundtrip [of "sample_line ''set all'' 4"] by (auto simp: sample_line_ok)

text \<open>
  The killed text is freed before it is known that there is something to kill, and the pointer is
  kept: control-k with nothing right of the cursor after a first kill leaves it dangling, and the next
  control-k frees it again and control-y reads it.
\<close>

lemma kill_frees_twice:
  assumes "gb_ok (cl_gb cli)" and "cl_kill cli = KStr k" and "gb_pos (cl_gb cli) = length (gb_text (cl_gb cli))"
  shows "\<exists>cli1. key_ctrl_k cli = Some cli1 \<and> gb_text (cl_gb cli1) = gb_text (cl_gb cli)
    \<and> key_ctrl_k cli1 = None \<and> key_ctrl_y junk cli1 = None"
proof -
  obtain g where g: "gb_move_gap_to_point (cl_gb cli) = Some g" "gb_ok g" "gb_point g = gb_gap g"
    "gb_left g = gb_text (cl_gb cli)" "gb_right g = []"
    using gb_move_gap [OF assms(1)] assms(3) by auto
  have t: "gb_text g = gb_text (cl_gb cli)" "gb_pos g = length (gb_text g)"
    using gb_at_gap(2) [OF g(2,3)] g(4,5) by (simp_all add: gb_text_def)
  have 0: "gb_right_data_size g = 0" using gb_eof_iff [OF g(2)] t by (simp add: gb_right_data_size_def)
  have "gb_del 0 g = Some g" using g(3) by (simp add: gb_del_def)
  then have k: "key_ctrl_k cli = Some (cli\<lparr>cl_gb := g, cl_kill := KFreed\<rparr>)"
    using g(1) 0 assms(2) by (simp add: key_ctrl_k_def free_kill_def to_int32_def)
  show ?thesis
    using k t gb_at_gap(1) [OF g(2,3)] by (simp add: key_ctrl_k_def [of "cli\<lparr>cl_gb := g, cl_kill := KFreed\<rparr>"] free_kill_def key_ctrl_y_def)
qed

lemma kill_frees_twice_example:
  "\<exists>cli1. key_ctrl_k ((sample_line ''set'' 3)\<lparr>cl_kill := KStr ''all''\<rparr>) = Some cli1 \<and> key_ctrl_k cli1 = None"
  using kill_frees_twice [of "(sample_line ''set'' 3)\<lparr>cl_kill := KStr ''all''\<rparr>" "''all''"] by (auto simp: sample_line_ok)

text \<open>
  Control-e and backspace on an empty line: the cursor stands at the end of the gap, which is not the
  start of the buffer, so the backspace deletes behind the end of the text. The gap then ends behind the
  buffer, the number of characters is \<open>2\<^sup>32 - 1\<close>, and the copy that executes the line reads outside it.
\<close>

lemma backspace_breaks_empty_line:
  "\<exists>cli1. cli_input exec tab junk [CHR 0x05, CHR 0x7f] cli_start_state = Some cli1
    \<and> gb_egap (cl_gb cli1) = Suc (gb_ebuf (cl_gb cli1)) \<and> gb_data_size (cl_gb cli1) = 2 ^ 32 - 1
    \<and> (\<forall>n. gb_copy_to_buf (Suc n) (cl_gb cli1) = None)"
proof -
  let ?b = "\<lparr>gb_mem = replicate 8 (CHR '' ''), gb_ebuf = 8, gb_point = 0, gb_gap = 0, gb_egap = 8\<rparr>"
  have b: "gb_create = ?b"
    by (simp add: gb_create_def gb_init_buf_def gb_reset_buf_def gb_buf_size_def GB_DEFAULT_GAP_SIZE_def Let_def)
  have e: "key_ctrl_e ?b = Some (?b\<lparr>gb_point := 8\<rparr>)"
    by (simp add: key_ctrl_e_def gb_set_point_def)
  have k: "key_backspace (?b\<lparr>gb_point := 8\<rparr>) = Some (?b\<lparr>gb_egap := 9\<rparr>)"
    by (simp add: key_backspace_def gb_point_at_start_def gb_move_left_def gb_del_def)
  have size: "gb_data_size (?b\<lparr>gb_egap := 9\<rparr>) = 2 ^ 32 - 1"
    by (simp add: gb_data_size_def pdiff_def)
  have copy: "gb_copy_to_buf sz (?b\<lparr>gb_egap := 9\<rparr>) = None" if "0 < sz" for sz
    using that by (simp add: gb_copy_to_buf_def gb_data_size_def pdiff_def Let_def)
  obtain vt1 where v1: "vt100_parse_input (CHR 0x05) vt100_setup = (8, vt1)" "vt_idle vt1"
    by (simp add: vt100_parse_input_def vt100_setup_def VT100_INITIALIZE_def VT100_BUF_SIZE_def vt100_find_cmd_def
        vt100_cmd_list_def vt_idle_def numeral_eq_Suc)
  obtain vt2 where v2: "vt100_parse_input (CHR 0x7f) vt1 = (5, vt2)"
  proof -
    obtain x xs where "vt_buf vt1 = x # xs" using v1(2) by (cases "vt_buf vt1") (auto simp: vt_idle_def VT100_BUF_SIZE_def)
    then have "fst (vt100_parse_input (CHR 0x7f) vt1) = 5"
      using v1(2) by (simp add: vt100_parse_input_def VT100_INITIALIZE_def vt100_find_cmd_def vt100_cmd_list_def vt_idle_def Let_def)
    then show thesis using that by (cases "vt100_parse_input (CHR 0x7f) vt1") simp
  qed
  have "cli_input exec tab junk [CHR 0x05, CHR 0x7f] cli_start_state =
      Some (cli_start_state\<lparr>cl_vt := vt2, cl_gb := ?b\<lparr>gb_egap := 9\<rparr>\<rparr>)"
    using v1(1) v2 e k by (simp add: cli_start_state_def b vt100_do_cmd_def on_gb_def handle_input_display_def)
  then show ?thesis using size copy by simp
qed

subsection \<open>The word keys\<close>

lemma gb_get_prev_ok:
  assumes ok: "gb_ok gb"
  obtains c g where "gb_get_prev gb = Some (c, g)" and "gb_ok g" and "gb_text g = gb_text gb" and "gb_pos g = gb_pos gb"
    and "0 < gb_pos gb \<Longrightarrow> c = gb_text gb ! (gb_pos gb - 1)" and "gb_point g = 0 \<longleftrightarrow> gb_pos gb = 0"
    and "gb_mem g = gb_mem gb" and "gb_ebuf g = gb_ebuf gb"
proof -
  let ?g = "if gb_point gb = gb_egap gb then gb\<lparr>gb_point := gb_gap gb\<rparr> else gb"
  have g: "gb_ok ?g" "gb_text ?g = gb_text gb" "gb_pos ?g = gb_pos gb" "gb_mem ?g = gb_mem gb" "gb_ebuf ?g = gb_ebuf gb"
    using ok by (auto simp: gb_ok_def gb_pos_def)
  have z: "gb_point ?g = 0 \<longleftrightarrow> gb_pos gb = 0"
    using ok by (auto simp: gb_ok_def gb_pos_def)
  show thesis
  proof (cases "gb_pos gb = 0")
    case True
    obtain c where "gb_get_prev gb = Some (c, ?g)"
    proof (cases "gb_gap ?g = 0")
      case False
      then have "mem_at 0 ?g = Some (gb_text ?g ! 0)" using mem_at_text(1) [OF g(1), of 0] by simp
      then have "gb_get_prev gb = Some (gb_text ?g ! 0, ?g)" using True z False by (simp add: gb_get_prev_def Let_def)
      then show ?thesis by (rule that)
    next
      case G: True
      then have "gb_get_prev gb = Some (CHR 0x00, ?g)" using True z by (simp add: gb_get_prev_def Let_def)
      then show ?thesis by (rule that)
    qed
    then show thesis using True by (intro that [of c ?g] g z) simp_all
  next
    case False
    have "mem_at (gb_point ?g - 1) ?g = Some (gb_text ?g ! (gb_pos ?g - 1))"
    proof (cases "gb_point ?g \<le> gb_gap ?g")
      case True
      then show ?thesis using mem_at_text(1) [OF g(1), of "gb_point ?g - 1"] z False by (simp add: gb_pos_def)
    next
      case False
      then have "gb_egap ?g \<le> gb_point ?g - 1" "gb_point ?g - 1 < gb_ebuf ?g"
        "gb_pos ?g - 1 = gb_point ?g - 1 - (gb_egap ?g - gb_gap ?g)"
        using g(1) by (auto simp: gb_ok_def gb_pos_def split: if_splits)
      then show ?thesis using mem_at_text(2) [OF g(1), of "gb_point ?g - 1"] by simp
    qed
    then have "gb_get_prev gb = Some (gb_text gb ! (gb_pos gb - 1), ?g)"
      using z False g(2,3) by (simp add: gb_get_prev_def Let_def)
    then show thesis by (intro that [of "gb_text gb ! (gb_pos gb - 1)" ?g] g z) simp_all
  qed
qed

text \<open>
  The word-left key always ends: the cursor goes left to the start of the line or to the nearest
  position, at least one to the left, that has a space before it.
\<close>

lemma word_left_returns:
  assumes "gb_ok gb"
  shows "\<exists>g. key_word_left gb = Some g \<and> gb_ok g \<and> gb_text g = gb_text gb
    \<and> (gb_pos g < gb_pos gb \<or> gb_pos gb = 0 \<and> gb_pos g = 0) \<and> (gb_pos g = 0 \<or> gb_text gb ! (gb_pos g - 1) = CHR '' '')
    \<and> (\<forall>i. gb_pos g \<le> i \<and> Suc i < gb_pos gb \<longrightarrow> gb_text gb ! i \<noteq> CHR '' '')"
  using assms
proof (induction "gb_pos gb" arbitrary: gb rule: less_induct)
  case less
  obtain c g where g: "gb_get_prev (key_left_arr gb) = Some (c, g)" "gb_ok g" "gb_text g = gb_text gb" "gb_pos g = gb_pos gb - 1"
    "0 < gb_pos gb - 1 \<Longrightarrow> c = gb_text gb ! (gb_pos gb - 1 - 1)" "gb_point g = 0 \<longleftrightarrow> gb_pos gb - 1 = 0"
    using gb_get_prev_ok [OF key_left_ok(1) [OF less.prems]] key_left_ok [OF less.prems] by metis
  show ?case
  proof (cases "c = CHR '' '' \<or> gb_pos gb - 1 = 0")
    case True
    then have "key_word_left gb = Some g"
      using g(1,6) by (subst key_word_left.simps) (auto simp: gb_point_at_start_def)
    then show ?thesis using g True by auto
  next
    case False
    then have step: "key_word_left gb = key_word_left g"
      using g(1,6) by (subst key_word_left.simps) (simp add: gb_point_at_start_def)
    obtain g1 where g1: "key_word_left g = Some g1" "gb_ok g1" "gb_text g1 = gb_text g" "gb_pos g1 < gb_pos g \<or> gb_pos g = 0 \<and> gb_pos g1 = 0"
      "gb_pos g1 = 0 \<or> gb_text g ! (gb_pos g1 - 1) = CHR '' ''"
      "\<And>i. gb_pos g1 \<le> i \<and> Suc i < gb_pos g \<Longrightarrow> gb_text g ! i \<noteq> CHR '' ''"
      using less.hyps [OF _ g(2)] False g(4) by auto
    have "gb_text gb ! i \<noteq> CHR '' ''" if "gb_pos g1 \<le> i \<and> Suc i < gb_pos gb" for i
    proof (cases "Suc i < gb_pos g")
      case False
      then have "i = gb_pos gb - 1 - 1" using that g(4) by linarith
      then show ?thesis using g(5) \<open>\<not> (c = CHR '' '' \<or> gb_pos gb - 1 = 0)\<close> by simp
    qed (use g1(6) g(3) that in auto)
    then show ?thesis unfolding step using g1 g(3,4) False by auto
  qed
qed

lemma word_left_returns_example:
  "\<exists>g. key_word_left (cl_gb (sample_line ''set 0 size'' 8)) = Some g \<and> gb_text g = ''set 0 size''"
  using word_left_returns [of "cl_gb (sample_line ''set 0 size'' 8)"] by (auto simp: sample_line_ok)

lemma gb_get_any:
  assumes ok: "gb_ok gb" and slack: "gb_ebuf gb < length (gb_mem gb)"
  obtains c g where "gb_get gb = Some (c, g)" and "gb_ok g" and "gb_text g = gb_text gb" and "gb_pos g = gb_pos gb"
    and "gb_pos gb < length (gb_text gb) \<Longrightarrow> c = gb_text gb ! gb_pos gb"
    and "gb_pos gb = length (gb_text gb) \<Longrightarrow> gb_point g = gb_ebuf g" and "gb_mem g = gb_mem gb" and "gb_ebuf g = gb_ebuf gb"
proof -
  let ?g = "if gb_point gb = gb_gap gb then gb\<lparr>gb_point := gb_egap gb\<rparr> else gb"
  have g: "gb_ok ?g" "gb_text ?g = gb_text gb" "gb_pos ?g = gb_pos gb" "gb_mem ?g = gb_mem gb" "gb_ebuf ?g = gb_ebuf gb"
    using ok by (auto simp: gb_ok_def gb_pos_def)
  have "gb_point ?g < length (gb_mem ?g)" using g(1,4,5) slack by (auto simp: gb_ok_def split: if_splits)
  then have get: "gb_get gb = Some (gb_mem gb ! gb_point ?g, ?g)"
    using g(4) by (simp add: gb_get_def Let_def mem_at_def)
  have c: "gb_mem gb ! gb_point ?g = gb_text gb ! gb_pos gb" if "gb_pos gb < length (gb_text gb)"
    using gb_get_ok [OF ok that] get by (metis option.inject prod.inject)
  have e: "gb_point ?g = gb_ebuf ?g" if "gb_pos gb = length (gb_text gb)"
    using gb_eof_iff [OF ok] that by (auto simp: gb_eof_def split: if_splits)
  show thesis by (rule that [OF get g(1-3) c e g(4,5)])
qed

text \<open>
  C25 In a buffer whose allocation goes on after its end the word-right key ends: the cursor goes right to
  the end of the line or to the nearest space, at least one to the right. A fresh buffer ends where its allocation
  ends; there the key reads the byte behind it.
\<close>

theorem word_right_returns:
  assumes "gb_ok gb" and "gb_ebuf gb < length (gb_mem gb)"
  shows "\<exists>g. key_word_right gb = Some g \<and> gb_ok g \<and> gb_text g = gb_text gb
    \<and> (gb_pos gb < gb_pos g \<or> gb_pos g = gb_pos gb \<and> gb_pos gb = length (gb_text gb))
    \<and> (gb_pos g = length (gb_text gb) \<or> gb_text gb ! gb_pos g = CHR '' '')
    \<and> (\<forall>i. gb_pos gb < i \<and> i < gb_pos g \<longrightarrow> gb_text gb ! i \<noteq> CHR '' '')"
  using assms
proof (induction "length (gb_text gb) - gb_pos gb" arbitrary: gb rule: less_induct)
  case less
  have slack: "gb_ebuf (key_right_arr gb) < length (gb_mem (key_right_arr gb))"
    using less.prems(2) by (simp add: key_right_arr_def gb_move_right_def Let_def)
  obtain c g where g: "gb_get (key_right_arr gb) = Some (c, g)" "gb_ok g" "gb_text g = gb_text gb"
    "gb_pos g = min (Suc (gb_pos gb)) (length (gb_text gb))"
    "gb_pos g < length (gb_text gb) \<Longrightarrow> c = gb_text gb ! gb_pos g"
    "gb_pos g = length (gb_text gb) \<Longrightarrow> gb_point g = gb_ebuf g" "gb_ebuf g < length (gb_mem g)"
    using gb_get_any [OF key_right_ok(1) [OF less.prems(1)] slack] key_right_ok [OF less.prems(1)] slack by metis
  have le: "gb_pos gb \<le> length (gb_text gb)" by (rule gb_pos_le [OF less.prems(1)])
  consider (at_end) "gb_point_at_end gb" | (stop) "\<not> gb_point_at_end gb" "c = CHR '' ''"
    | (last) "\<not> gb_point_at_end gb" "c \<noteq> CHR '' ''" "gb_pos g = length (gb_text gb)"
    | (go) "\<not> gb_point_at_end gb" "c \<noteq> CHR '' ''" "gb_pos g < length (gb_text gb)"
    using gb_pos_le [OF g(2)] g(3) by fastforce
  then show ?case
  proof cases
    case at_end
    then have "key_word_right gb = Some gb" by (subst key_word_right.simps) simp
    moreover have "gb_pos gb = length (gb_text gb)"
      using at_end gb_eof_iff [OF less.prems(1)] less.prems(1)
      by (auto simp: gb_point_at_end_def gb_eof_def gb_ok_def split: if_splits)
    ultimately show ?thesis using less.prems(1) by auto
  next
    case stop
    then have "key_word_right gb = Some g" using g(1) by (subst key_word_right.simps) simp
    then show ?thesis using g stop le
      by (cases "Suc (gb_pos gb) < length (gb_text gb)") (auto simp: min_def split: if_splits)
  next
    case last
    then have "key_word_right gb = key_word_right g" using g(1) by (subst key_word_right.simps) simp
    also have "\<dots> = Some g" using g(6) last(3) by (subst key_word_right.simps) (simp add: gb_point_at_end_def)
    finally show ?thesis using g last le by auto
  next
    case go
    then have step: "key_word_right gb = key_word_right g" using g(1) by (subst key_word_right.simps) simp
    have p: "gb_pos g = Suc (gb_pos gb)" using g(4) go(3) by (simp add: min_def split: if_splits)
    have "length (gb_text g) - gb_pos g < length (gb_text gb) - gb_pos gb" using p g(3) go(3) by simp
    from less.hyps [OF this g(2,7)] obtain g1 where g1: "key_word_right g = Some g1" "gb_ok g1" "gb_text g1 = gb_text g"
      "gb_pos g < gb_pos g1 \<or> gb_pos g1 = gb_pos g \<and> gb_pos g = length (gb_text g)"
      "gb_pos g1 = length (gb_text g) \<or> gb_text g ! gb_pos g1 = CHR '' ''"
      "\<And>i. gb_pos g < i \<and> i < gb_pos g1 \<Longrightarrow> gb_text g ! i \<noteq> CHR '' ''" by blast
    have "gb_text gb ! i \<noteq> CHR '' ''" if "gb_pos gb < i \<and> i < gb_pos g1" for i
    proof (cases "i = gb_pos g")
      case True
      then show ?thesis using g(5) go by simp
    qed (use g1(6) g(3) p that in auto)
    then show ?thesis unfolding step using g1 g(3) p go(3) by auto
  qed
qed

theorem word_right_returns_witness:
  "\<exists>g. key_word_right ((cl_gb (sample_line ''set 0'' 0))\<lparr>gb_mem := gb_mem (cl_gb (sample_line ''set 0'' 0)) @ ''  ''\<rparr>) = Some g
     \<and> gb_text g = ''set 0''"
  using word_right_returns [of "(cl_gb (sample_line ''set 0'' 0))\<lparr>gb_mem := gb_mem (cl_gb (sample_line ''set 0'' 0)) @ ''  ''\<rparr>"]
  by (auto simp: sample_line_def gb_ok_def gb_text_def gb_left_def gb_right_def)

text \<open>
  In the first allocation, which ends where the buffer ends, the word-right key with the cursor at the
  end of the line reads the byte behind the allocation.
\<close>

lemma word_right_reads_past:
  assumes "gb_ok gb" and "gb_ebuf gb = length (gb_mem gb)" and "gb_pos gb = length (gb_text gb)" and "gb_point gb = gb_gap gb"
    and "gb_gap gb < gb_egap gb"
  shows "key_word_right gb = None"
proof -
  have eof: "gb_eof gb" using gb_eof_iff [OF assms(1)] assms(3) by simp
  then have e: "gb_egap gb = gb_ebuf gb" using assms(4) by (simp add: gb_eof_def)
  have "gb_get (key_right_arr gb) = None"
    using eof e assms(2,4) by (simp add: key_right_arr_def gb_get_def mem_at_def)
  moreover have "\<not> gb_point_at_end gb" using e assms(4,5) by (simp add: gb_point_at_end_def)
  ultimately show ?thesis by (subst key_word_right.simps) simp
qed

lemma word_right_reads_past_example: "key_word_right gb_create = None"
  by (rule word_right_reads_past)
    (simp_all add: gb_create_ok gb_create_text gb_create_pos,
     simp_all add: gb_create_def gb_init_buf_def gb_reset_buf_def gb_buf_size_def GB_DEFAULT_GAP_SIZE_def Let_def)

end
