(* ===== verification/Inet.thy ===== *)
theory Inet
  imports Prelude
begin

text \<open>
  The address helpers of \<open>lib/common/pg_inet.h\<close>: MAC addresses as numbers and back, netmasks as prefix
  lengths and back, and the arithmetic on IPv6 addresses, which are arrays of sixteen bytes in
  network order.
\<close>

subsection \<open>MAC addresses\<close>

definition inet_mtoh64 :: "u8 list \<Rightarrow> u64" where
  "inet_mtoh64 eaddr = push_bit 0 (ucast (eaddr ! 5)) + push_bit 8 (ucast (eaddr ! 4))
     + push_bit 16 (ucast (eaddr ! 3)) + push_bit 24 (ucast (eaddr ! 2))
     + push_bit 32 (ucast (eaddr ! 1)) + push_bit 40 (ucast (eaddr ! 0))"

definition inet_h64tom :: "u64 \<Rightarrow> u8 list" where
  "inet_h64tom value = [ucast (drop_bit 40 value AND 0xFF), ucast (drop_bit 32 value AND 0xFF),
     ucast (drop_bit 24 value AND 0xFF), ucast (drop_bit 16 value AND 0xFF),
     ucast (drop_bit 8 value AND 0xFF), ucast (drop_bit 0 value AND 0xFF)]"

text \<open>Big-endian values of byte strings.\<close>

fun be_val :: "u8 list \<Rightarrow> nat" where
  "be_val [] = 0"
| "be_val (b # bs) = unat b * 256 ^ length bs + be_val bs"

lemma unat_u8_less: "unat x < 256" for x :: u8
  using unsigned_less [where ?'a = nat, of x] by simp

lemma be_val_less: "be_val bs < 256 ^ length bs"
proof (induction bs)
  case (Cons b bs)
  have "unat b * 256 ^ length bs + be_val bs < (unat b + 1) * 256 ^ length bs"
    using Cons by simp
  also have "\<dots> \<le> 256 * 256 ^ length bs"
    by (rule mult_le_mono1) (use unat_u8_less [of b] in linarith)
  finally show ?case by simp
qed simp

lemma be_val_append: "be_val (xs @ ys) = be_val xs * 256 ^ length ys + be_val ys"
  by (induction xs) (simp_all add: power_add algebra_simps)

lemma be_val_inj: "length xs = length ys \<Longrightarrow> be_val xs = be_val ys \<Longrightarrow> xs = ys"
proof (induction xs ys rule: list_induct2)
  case (Cons x xs y ys)
  have head: "(unat b * 256 ^ length bs + be_val bs) div 256 ^ length bs = unat b" for b :: u8 and bs
    using be_val_less [of bs] by (simp add: div_add1_eq)
  have "unat x = unat y"
    using head [of x xs] head [of y ys] Cons.hyps Cons.prems by (simp del: div_mult_self3)
  with Cons show ?case by (simp add: word_unat_eq_iff)
qed simp

lemma unat_mtoh64:
  assumes "length eaddr = 6"
  shows "unat (inet_mtoh64 eaddr) = be_val eaddr"
proof -
  obtain a b c d e f where m: "eaddr = [a, b, c, d, e, f]"
    using assms by (auto simp: numeral_eq_Suc length_Suc_conv)
  have p: "unat (push_bit n (ucast x :: u64)) = unat x * 2 ^ n" if "n \<le> 40" for n and x :: u8
  proof -
    have "unat x * 2 ^ n < 256 * 2 ^ n" using unat_u8_less [of x] by simp
    also have "\<dots> \<le> 256 * 2 ^ 40" using that by (intro mult_le_mono2 power_increasing) simp_all
    finally have "unat x * 2 ^ n < 2 ^ 64" by simp
    then show ?thesis
      using order_less_trans [OF unat_u8_less [of x]]
      by (simp add: unsigned_push_bit_eq unsigned_ucast_eq take_bit_eq_mod) (simp add: push_bit_nat_def)
  qed
  note l = unat_u8_less [of a] unat_u8_less [of b] unat_u8_less [of c] unat_u8_less [of d]
    unat_u8_less [of e] unat_u8_less [of f]
  show ?thesis
    using l p [of 0 f] by (simp add: m inet_mtoh64_def unat_word_ariths p)
qed

lemma h64tom_byte: "(ucast (drop_bit n v AND 0xFF) :: u8) = ucast (drop_bit n v)" for v :: u64
proof (rule bit_word_eqI)
  fix k assume "k < LENGTH(8)"
  then have "bit (0xFF :: u64) k" by (auto simp: bit_numeral_rec less_Suc_eq numeral_eq_Suc)
  then show "bit (ucast (drop_bit n v AND 0xFF) :: u8) k = bit (ucast (drop_bit n v) :: u8) k"
    by (simp add: bit_simps)
qed

lemma mtoh64_bits: "inet_mtoh64 [a, b, c, d, e, f] = ucast f OR push_bit 8 (ucast e) OR push_bit 16 (ucast d)
   OR push_bit 24 (ucast c) OR push_bit 32 (ucast b) OR push_bit 40 (ucast a)"
proof -
  have disj: "a + b = a OR b" if "\<And>n. n < 64 \<Longrightarrow> \<not> bit a n \<or> \<not> bit b n" for a b :: u64
    using that by (intro disjunctive_add_eq_or bit_word_eqI) (simp add: bit_simps)
  show ?thesis unfolding inet_mtoh64_def
    by (subst disj, force simp: bit_simps)+ (simp add: or.assoc)
qed

lemma mtoh64_h64tom: "inet_mtoh64 (inet_h64tom v) = take_bit 48 v"
  unfolding inet_h64tom_def h64tom_byte mtoh64_bits
proof (rule bit_word_eqI)
  fix n assume "n < LENGTH(64)"
  then consider "n < 8" | "8 \<le> n" "n < 16" | "16 \<le> n" "n < 24" | "24 \<le> n" "n < 32"
    | "32 \<le> n" "n < 40" | "40 \<le> n" "n < 48" | "48 \<le> n" "n < 64" by fastforce
  then show "bit (ucast (ucast (drop_bit 0 v) :: u8) OR push_bit 8 (ucast (ucast (drop_bit 8 v) :: u8))
      OR push_bit 16 (ucast (ucast (drop_bit 16 v) :: u8)) OR push_bit 24 (ucast (ucast (drop_bit 24 v) :: u8))
      OR push_bit 32 (ucast (ucast (drop_bit 32 v) :: u8)) OR push_bit 40 (ucast (ucast (drop_bit 40 v) :: u8)) :: u64) n
      = bit (take_bit 48 v) n"
    by cases (auto simp: bit_simps not_le)
qed

text \<open>
  MAC addresses as numbers: the value of an address is its six bytes read as one big-endian number, an
  address survives the conversion and back, and a number comes back modulo 2 to the 48.
\<close>

lemma mac_roundtrip:
  assumes "length eaddr = 6"
  shows "unat (inet_mtoh64 eaddr) = be_val eaddr \<and> inet_h64tom (inet_mtoh64 eaddr) = eaddr
    \<and> inet_mtoh64 (inet_h64tom v) = take_bit 48 v"
proof (intro conjI)
  show "unat (inet_mtoh64 eaddr) = be_val eaddr" by (rule unat_mtoh64 [OF assms])
  obtain a b c d e f where m: "eaddr = [a, b, c, d, e, f]"
    using assms by (auto simp: numeral_eq_Suc length_Suc_conv)
  show "inet_h64tom (inet_mtoh64 eaddr) = eaddr"
    unfolding m inet_h64tom_def h64tom_byte mtoh64_bits
    by (auto intro!: bit_word_eqI simp: bit_simps)
  show "inet_mtoh64 (inet_h64tom v) = take_bit 48 v" by (rule mtoh64_h64tom)
qed

lemma mac_roundtrip_example:
  "unat (inet_mtoh64 [0x3c, 0xfd, 0xfe, 0, 0, 1]) = 0x3cfdfe000001
   \<and> inet_h64tom (inet_mtoh64 [0x3c, 0xfd, 0xfe, 0, 0, 1]) = [0x3c, 0xfd, 0xfe, 0, 0, 1]"
  using mac_roundtrip [of "[0x3c, 0xfd, 0xfe, 0, 0, 1]" 0] by simp

subsection \<open>IPv6 addresses\<close>

definition inet6AddrIsUnspecified :: "u8 list \<Rightarrow> bool" where
  "inet6AddrIsUnspecified a \<longleftrightarrow> get_le32 a = 0 \<and> get_le32 (drop 4 a) = 0
     \<and> get_le32 (drop 8 a) = 0 \<and> get_le32 (drop 12 a) = 0"

text \<open>The loop of \<open>inet6AddrAdd\<close>, from the last byte; \<open>n\<close> is its running sum.\<close>

fun add_loop :: "u16 \<Rightarrow> (u8 \<times> u8) list \<Rightarrow> u8 list" where
  "add_loop n [] = []"
| "add_loop n ((x, y) # r) =
     (let n' = ucast x + ucast y + drop_bit 8 n in add_loop n' r @ [ucast (n' AND 0xFF)])"

definition inet6AddrAdd :: "u8 list \<Rightarrow> u8 list \<Rightarrow> u8 list" where
  "inet6AddrAdd addr1 addr2 = add_loop 0 (rev (zip addr1 addr2))"

text \<open>\<open>memcmp\<close>, of which only the sign counts.\<close>

fun memcmp :: "u8 list \<Rightarrow> u8 list \<Rightarrow> int" where
  "memcmp (x # xs) (y # ys) = (if x = y then memcmp xs ys else if x < y then -1 else 1)"
| "memcmp _ _ = 0"

lemma memcmp_value:
  "length xs = length ys \<Longrightarrow> (memcmp xs ys < 0 \<longleftrightarrow> be_val xs < be_val ys) \<and> (memcmp xs ys > 0 \<longleftrightarrow> be_val ys < be_val xs)"
proof (induction xs ys rule: list_induct2)
  case (Cons x xs y ys)
  have less: "unat a * B + u < unat b * B + v" if "a < b" "u < B" for a b :: u8 and u v B :: nat
  proof -
    have "Suc (unat a) * B \<le> unat b * B" using that(1) by (intro mult_le_mono1) (simp add: word_less_nat_alt)
    with that(2) show ?thesis by simp
  qed
  show ?case
    using Cons less [of x y "be_val xs" "256 ^ length ys" "be_val ys"] less [of y x "be_val ys" "256 ^ length ys" "be_val xs"]
      be_val_less [of xs] be_val_less [of ys]
    by (cases x y rule: linorder_cases) auto
qed simp

lemma unspecified_iff:
  assumes "length a = 16"
  shows "inet6AddrIsUnspecified a \<longleftrightarrow> a = replicate 16 0"
proof
  assume z: "inet6AddrIsUnspecified a"
  have zero: "take 4 l = replicate 4 0" if "get_le32 l = 0" "4 \<le> length l" for l
  proof -
    from that(2) obtain w x y v r where l: "l = w # x # y # v # r"
      by (auto simp: numeral_eq_Suc Suc_le_length_iff)
    show ?thesis using that(1) put_get_le32 [of w x y v] by (simp add: l put_le32_def) (simp add: numeral_eq_Suc)
  qed
  have "a = take 4 a @ take 4 (drop 4 a) @ take 4 (drop 8 a) @ take 4 (drop 12 a)"
    using assms append_take_drop_id [of 4 "drop 4 a"] append_take_drop_id [of 4 "drop 8 a"] by simp
  also have "\<dots> = replicate 16 0"
    using z assms zero [of a] zero [of "drop 4 a"] zero [of "drop 8 a"] zero [of "drop 12 a"]
    by (simp add: inet6AddrIsUnspecified_def del: take_all_iff) (simp add: numeral_eq_Suc)
  finally show "a = replicate 16 0" .
qed (simp add: inet6AddrIsUnspecified_def numeral_eq_Suc)

lemma length_add_loop [simp]: "length (add_loop n ps) = length ps"
  by (induction n ps rule: add_loop.induct) (simp_all add: Let_def)

lemma length_inet6AddrAdd [simp]: "length (inet6AddrAdd a b) = min (length a) (length b)"
  by (simp add: inet6AddrAdd_def)

lemma u16_carry:
  fixes x y :: u8 and n :: u16
  assumes "unat n < 512"
  shows "unat (ucast x + ucast y + drop_bit 8 n) = unat x + unat y + unat n div 256"
proof -
  have "unat (drop_bit 8 n) = unat n div 256" 
    using assms by (simp add: unsigned_drop_bit_eq take_bit_nat_eq_self) (simp add: drop_bit_eq_div)
  moreover have "unat (ucast b :: u16) = unat b" for b :: u8
    using unat_u8_less [of b] by (simp add: unsigned_ucast_eq take_bit_eq_mod)
  ultimately show ?thesis
    using assms unat_u8_less [of x] unat_u8_less [of y] by (simp add: unat_word_ariths)
qed

lemma unat_low_byte: "unat (ucast (n AND 0xFF) :: u8) = unat n mod 256" for n :: u16
proof -
  have "n AND 0xFF = take_bit 8 n" by (simp add: take_bit_eq_mask mask_eq_exp_minus_1)
  then show ?thesis by (simp add: unsigned_ucast_eq unsigned_take_bit_eq) (simp add: take_bit_eq_mod)
qed

lemma carry_out: "(x + m div 256) mod k * 256 + m mod 256 = (256 * x + m) mod (256 * k)" for x m k :: nat
  by (simp add: mod_mult2_eq)

lemma add_loop_value:
  assumes "unat n < 512"
  shows "be_val (add_loop n ps)
    = (be_val (rev (map fst ps)) + be_val (rev (map snd ps)) + unat n div 256) mod 256 ^ length ps"
  using assms
proof (induction n ps rule: add_loop.induct)
  case (1 n)
  then show ?case by simp
next
  case (2 n x y r)
  let ?n = "ucast x + ucast y + drop_bit 8 n"
  let ?a = "be_val (rev (map fst r))" and ?b = "be_val (rev (map snd r))"
  have s: "unat ?n = unat x + unat y + unat n div 256" by (rule u16_carry [OF 2(2)])
  have "unat ?n < 512" using s 2(2) unat_u8_less [of x] unat_u8_less [of y] by simp
  from 2(1) [OF refl this] have ih: "be_val (add_loop ?n r) = (?a + ?b + unat ?n div 256) mod 256 ^ length r" .
  have "be_val (add_loop n ((x, y) # r)) = (?a + ?b + unat ?n div 256) mod 256 ^ length r * 256 + unat ?n mod 256"
    by (simp add: Let_def be_val_append ih unat_low_byte)
  also have "\<dots> = (256 * (?a + ?b) + unat ?n) mod (256 * 256 ^ length r)"
    by (rule carry_out)
  also have "256 * (?a + ?b) + unat ?n
      = be_val (rev (map fst ((x, y) # r))) + be_val (rev (map snd ((x, y) # r))) + unat n div 256"
    by (simp add: s be_val_append)
  finally show ?case by simp
qed

lemma be_val_replicate_0 [simp]: "be_val (replicate n 0) = 0"
  by (induction n) simp_all

lemma unspecified_value: "length a = 16 \<Longrightarrow> inet6AddrIsUnspecified a \<longleftrightarrow> be_val a = 0"
  using unspecified_iff be_val_inj [of a "replicate 16 0"] be_val_replicate_0 [of 16] length_replicate by metis

text \<open>
  C17 The addition of IPv6 addresses: the byte loop with its carry adds the addresses as numbers in network
  order, modulo 2 to the 128, and the byte comparison that the range code uses compares these numbers.
\<close>

theorem ipv6_arithmetic:
  assumes "length a = 16" and "length b = 16"
  shows "be_val (inet6AddrAdd a b) = (be_val a + be_val b) mod 2 ^ 128
    \<and> (memcmp a b < 0 \<longleftrightarrow> be_val a < be_val b) \<and> (memcmp a b > 0 \<longleftrightarrow> be_val a > be_val b)
    \<and> (inet6AddrIsUnspecified a \<longleftrightarrow> be_val a = 0)"
proof (intro conjI)
  have "map fst (zip a b) = a" "map snd (zip a b) = b" using assms by simp_all
  then show "be_val (inet6AddrAdd a b) = (be_val a + be_val b) mod 2 ^ 128"
    using add_loop_value [of 0 "rev (zip a b)"] assms by (simp add: inet6AddrAdd_def rev_map [symmetric])
  show "memcmp a b < 0 \<longleftrightarrow> be_val a < be_val b" "memcmp a b > 0 \<longleftrightarrow> be_val a > be_val b"
    using memcmp_value [of a b] assms by simp_all
  show "inet6AddrIsUnspecified a \<longleftrightarrow> be_val a = 0"
    by (rule unspecified_value [OF assms(1)])
qed

theorem ipv6_arithmetic_witness:
  "be_val (inet6AddrAdd [0xFF, 0xFF, 0xFF, 0xFF, 0xFF, 0xFF, 0xFF, 0xFF, 0xFF, 0xFF, 0xFF, 0xFF, 0xFF, 0xFF, 0xFF, 0xFF]
     [0, 0, 0, 0, 0, 0, 0, 0, 0, 0, 0, 0, 0, 0, 0, 2]) = 1"
  using ipv6_arithmetic [of "[0xFF, 0xFF, 0xFF, 0xFF, 0xFF, 0xFF, 0xFF, 0xFF, 0xFF, 0xFF, 0xFF, 0xFF, 0xFF, 0xFF, 0xFF, 0xFF]"
    "[0, 0, 0, 0, 0, 0, 0, 0, 0, 0, 0, 0, 0, 0, 0, 2]"] by simp

subsection \<open>Netmasks\<close>

definition mask_size :: "u32 \<Rightarrow> nat" where
  "mask_size m = (if m = 0 then 0 else if m = 0xFF000000 then 8 else if m = 0xFFFF0000 then 16
     else if m = 0xFFFFFF00 then 24 else if m = 0xFFFFFFFF then 32
     else length (takeWhile (\<lambda>i. m AND push_bit (31 - i) 1 \<noteq> 0) [0..<32]))"

definition size_to_mask :: "nat \<Rightarrow> u32" where
  "size_to_mask n = (if n = 0 then 0 else if n = 8 then 0xFF000000 else if n = 16 then 0xFFFF0000
     else if n = 24 then 0xFFFFFF00 else if n = 32 then 0xFFFFFFFF
     else fold (\<lambda>i m. m OR push_bit (31 - i) 1) [0..<n] 0)"

lemma mask_test: "m AND 2 ^ k \<noteq> 0 \<longleftrightarrow> bit m k" for m :: u32
  by (simp add: bit_iff_and_push_bit_not_eq_0)

lemma mask_loop_bits:
  "n \<le> 32 \<Longrightarrow> bit (fold (\<lambda>i m. m OR 2 ^ (31 - i)) [0..<n] (0 :: u32)) k \<longleftrightarrow> k < 32 \<and> 32 - n \<le> k"
  by (induction n) (auto simp: bit_simps)

lemma size_to_mask_loop: "n \<le> 32 \<Longrightarrow> size_to_mask n = fold (\<lambda>i m. m OR push_bit (31 - i) 1) [0..<n] 0"
  by (simp add: size_to_mask_def upt_rec)

lemma mask_size_loop: "mask_size m = length (takeWhile (\<lambda>i. bit m (31 - i)) [0..<32])"
proof -
  have "takeWhile (\<lambda>i. m AND push_bit (31 - i) 1 \<noteq> 0) [0..<32] = takeWhile (\<lambda>i. bit m (31 - i)) [0..<32]"
    by (rule takeWhile_cong) (simp_all add: mask_test)
  then show ?thesis by (auto simp: mask_size_def upt_rec bit_numeral_rec)
qed

text \<open>
  Netmasks: the mask of a prefix length has exactly the top bits set, the shortcuts for whole bytes agree
  with the loop, and the prefix length of the mask is the length it was made from.
\<close>

lemma netmask_roundtrip:
  assumes "n \<le> 32"
  shows "mask_size (size_to_mask n) = n \<and> (\<forall>k. bit (size_to_mask n) k \<longleftrightarrow> k < 32 \<and> 32 - n \<le> k)"
proof -
  have b: "bit (size_to_mask n) k \<longleftrightarrow> k < 32 \<and> 32 - n \<le> k" for k
    using assms by (simp add: size_to_mask_loop mask_loop_bits)
  have "takeWhile (\<lambda>i. bit (size_to_mask n) (31 - i)) [0..<32] = takeWhile (\<lambda>i. i < n) [0..<32]"
    by (rule takeWhile_cong) (use assms in \<open>auto simp: b\<close>)
  also have "\<dots> = takeWhile (\<lambda>i. i < n) ([0..<n] @ [n..<32])"
    using assms by (metis le0 le_add_diff_inverse upt_add_eq_append)
  also have "takeWhile (\<lambda>i. i < n) ([0..<n] @ [n..<32]) = [0..<n]"
    by (subst takeWhile_append2) (auto simp: upt_rec [of n])
  finally have "mask_size (size_to_mask n) = n" by (simp only: mask_size_loop length_upt diff_zero)
  with b show ?thesis by blast
qed

lemma netmask_roundtrip_example: "mask_size (size_to_mask 20) = 20"
  using netmask_roundtrip [of 20] by simp

end
