(* ===== verification/PortCfg.thy ===== *)
theory PortCfg
  imports Inet
begin

text \<open>
  The configuration of a port: the packet templates of \<open>app/pktgen-seq.h\<close>, the ranges of
  \<open>app/pktgen-range.h\<close>, the part of \<open>port_info_t\<close> of \<open>app/pktgen-port-cfg.h\<close> that the transmit
  code and the commands share, the flags of a port and the counter of the packets still to send.
\<close>

subsection \<open>Constants\<close>

definition PG_IPPROTO_ICMP :: u16 where "PG_IPPROTO_ICMP = 1"
definition PG_IPPROTO_TCP :: u16 where "PG_IPPROTO_TCP = 6"
definition PG_IPPROTO_UDP :: u16 where "PG_IPPROTO_UDP = 17"
definition PG_IPPROTO_L4_GTPU_PORT :: u16 where "PG_IPPROTO_L4_GTPU_PORT = 2152"
definition RTE_ETHER_TYPE_IPV4 :: u16 where "RTE_ETHER_TYPE_IPV4 = 0x0800"
definition RTE_ETHER_TYPE_ARP :: u16 where "RTE_ETHER_TYPE_ARP = 0x0806"
definition RTE_ETHER_TYPE_IPV6 :: u16 where "RTE_ETHER_TYPE_IPV6 = 0x86DD"

definition NUM_SEQ_PKTS :: nat where "NUM_SEQ_PKTS = 16"
definition SINGLE_PKT :: nat where "SINGLE_PKT = 16"
definition SPECIAL_PKT :: nat where "SPECIAL_PKT = 17"
definition RANGE_PKT :: nat where "RANGE_PKT = 18"
definition LATENCY_PKT :: nat where "LATENCY_PKT = 19"
definition NUM_TOTAL_PKTS :: nat where "NUM_TOTAL_PKTS = 20"

definition MIN_VLAN_ID :: u16 where "MIN_VLAN_ID = 1"
definition MAX_VLAN_ID :: u16 where "MAX_VLAN_ID = 4095"
definition MIN_COS :: u8 where "MIN_COS = 0"
definition MAX_COS :: u8 where "MAX_COS = 7"
definition MIN_TOS :: u8 where "MIN_TOS = 0"
definition MAX_TOS :: u8 where "MAX_TOS = 255"
definition MIN_v6_PKT_SIZE :: u16 where "MIN_v6_PKT_SIZE = 78"
definition MAX_TCP_SEQ_NUMBER :: u32 where "MAX_TCP_SEQ_NUMBER = 0xFFFFFFFF div 8"
definition MAX_TCP_ACK_NUMBER :: u32 where "MAX_TCP_ACK_NUMBER = 0xFFFFFFFF div 8"
definition RTE_ETHER_CRC_LEN :: u16 where "RTE_ETHER_CRC_LEN = 4"
definition RTE_ETHER_MIN_LEN :: u16 where "RTE_ETHER_MIN_LEN = 64"
definition RTE_ETHER_MAX_LEN :: u16 where "RTE_ETHER_MAX_LEN = 1518"
definition RTE_ETHER_MAX_JUMBO_FRAME_LEN :: u16 where "RTE_ETHER_MAX_JUMBO_FRAME_LEN = 0x3F00"
definition JUMBO_PKTS_FLAG :: u32 where "JUMBO_PKTS_FLAG = push_bit 13 1"

lemmas pkt_consts = PG_IPPROTO_ICMP_def PG_IPPROTO_TCP_def PG_IPPROTO_UDP_def PG_IPPROTO_L4_GTPU_PORT_def
  RTE_ETHER_TYPE_IPV4_def RTE_ETHER_TYPE_ARP_def RTE_ETHER_TYPE_IPV6_def
  NUM_SEQ_PKTS_def SINGLE_PKT_def SPECIAL_PKT_def RANGE_PKT_def LATENCY_PKT_def NUM_TOTAL_PKTS_def
  MIN_VLAN_ID_def MAX_VLAN_ID_def MIN_COS_def MAX_COS_def MIN_TOS_def MAX_TOS_def MIN_v6_PKT_SIZE_def
  MAX_TCP_SEQ_NUMBER_def MAX_TCP_ACK_NUMBER_def
  RTE_ETHER_CRC_LEN_def RTE_ETHER_MIN_LEN_def RTE_ETHER_MAX_LEN_def RTE_ETHER_MAX_JUMBO_FRAME_LEN_def

subsection \<open>Packet templates\<close>

text \<open>
  \<open>cmdline_ipaddr\<close> of DPDK: the union of the two kinds of address is its sixteen bytes, of which an
  IPv4 address is the first four, read by a little-endian host.
\<close>

record cmdline_ipaddr =
  ip_family :: u8
  ip_addr :: "u8 list"
  ip_prefixlen :: u32

definition ipv4_of :: "u8 list \<Rightarrow> u32" where "ipv4_of bs = get_le32 bs"
definition with_ipv4 :: "u32 \<Rightarrow> u8 list \<Rightarrow> u8 list" where "with_ipv4 v bs = put_le32 v @ drop 4 bs"

lemma ipv4_of_with [simp]: "ipv4_of (with_ipv4 v bs) = v"
  by (simp add: ipv4_of_def with_ipv4_def bytes_simps)

lemma length_with_ipv4 [simp]: "4 \<le> length bs \<Longrightarrow> length (with_ipv4 v bs) = length bs"
  by (simp add: with_ipv4_def bytes_simps)

text \<open>
  \<open>pkt_seq_t\<close>; \<open>tos\<close> and \<open>traffic_class\<close>, and \<open>ttl\<close> and \<open>hop_limits\<close>, are each one byte of a union.
\<close>

record pkt_seq =
  eth_dst_addr :: "u8 list"
  eth_src_addr :: "u8 list"
  ip_src_addr :: cmdline_ipaddr
  ip_dst_addr :: cmdline_ipaddr
  ip_mask :: u32
  pk_sport :: u16
  pk_dport :: u16
  ethType :: u16
  ipProto :: u16
  pk_vlanid :: u16
  pk_cos :: u8
  pk_tos :: u8
  ether_hdr_size :: u16
  pk_tcp_seq :: u32
  pk_tcp_ack :: u32
  pk_tcp_flags :: u16
  pk_mpls_entry :: u32
  qinq_outerid :: u16
  qinq_innerid :: u16
  pk_gre_key :: u32
  pk_size :: u16
  seq_enabled :: u8
  pk_ttl :: u8
  pk_gtpu_teid :: u32
  pk_vni_flags :: u16
  pk_group_id :: u16
  pk_vxlan_id :: u32
  pk_ol_flags :: u64

subsection \<open>Ranges\<close>

text \<open>
  The four members of \<open>range_info_t\<close> that belong to one field of a packet: \<open>x\<close>, \<open>x_min\<close>,
  \<open>x_max\<close> and \<open>x_inc\<close>, the last of its own width.
\<close>

record ('v, 'i) span =
  sp_start :: 'v
  sp_min :: 'v
  sp_max :: 'v
  sp_inc :: 'i

record range_info =
  r_src_ip :: "(u8 list, u8 list) span"
  r_dst_ip :: "(u8 list, u8 list) span"
  r_src_port :: "(u16, u16) span"
  r_dst_port :: "(u16, u16) span"
  r_vlan_id :: "(u16, u16) span"
  r_tcp_seq :: "(u32, u16) span"
  r_tcp_ack :: "(u32, u16) span"
  r_tos :: "(u8, u16) span"
  r_cos :: "(u8, u16) span"
  r_pkt_size :: "(u16, u16) span"
  r_src_mac :: "(u64, u64) span"
  r_dst_mac :: "(u64, u64) span"
  r_ttl :: "(u8, u8) span"
  r_ip_proto :: u16
  r_tcp_flags :: u8
  r_gtpu_teid :: "(u32, u32) span"
  r_vxlan_gid :: "(u32, u32) span"
  r_vxlan_vid :: "(u32, u32) span"
  r_vni_flags :: u32

subsection \<open>The port\<close>

record port_info =
  p_pid :: u16
  port_flags :: u64
  transmit_count :: u64
  current_tx_count :: u64
  tx_cycles :: u64
  seq_pkt :: "pkt_seq list"
  p_range :: range_info
  rx_burst :: u16
  tx_burst :: u16
  seqIdx :: u16
  seqCnt :: u16
  prime_cnt :: u16
  p_vlanid :: u16
  p_cos :: u8
  p_tos :: u8
  p_vni_flags :: u16

definition upd_pkt :: "nat \<Rightarrow> (pkt_seq \<Rightarrow> pkt_seq) \<Rightarrow> port_info \<Rightarrow> port_info" where
  "upd_pkt i f pinfo = pinfo\<lparr>seq_pkt := (seq_pkt pinfo)[i := f (seq_pkt pinfo ! i)]\<rparr>"

definition upd_range :: "(range_info \<Rightarrow> range_info) \<Rightarrow> port_info \<Rightarrow> port_info" where
  "upd_range f pinfo = pinfo\<lparr>p_range := f (p_range pinfo)\<rparr>"

subsection \<open>Port flags\<close>

definition SEND_SINGLE_PKTS :: u64 where "SEND_SINGLE_PKTS = push_bit 12 1"
definition SEND_PCAP_PKTS :: u64 where "SEND_PCAP_PKTS = push_bit 13 1"
definition SEND_RANGE_PKTS :: u64 where "SEND_RANGE_PKTS = push_bit 14 1"
definition SEND_SEQ_PKTS :: u64 where "SEND_SEQ_PKTS = push_bit 15 1"
definition SENDING_PACKETS :: u64 where "SENDING_PACKETS = push_bit 30 1"
definition SEND_FOREVER :: u64 where "SEND_FOREVER = push_bit 31 1"
definition SEND_LATENCY_PKTS :: u64 where "SEND_LATENCY_PKTS = push_bit 23 1"

definition EXCLUSIVE_MODES :: u64 where
  "EXCLUSIVE_MODES = SEND_SINGLE_PKTS OR SEND_PCAP_PKTS OR SEND_RANGE_PKTS OR SEND_SEQ_PKTS"

text \<open>The compare and set loops of these functions, which end with the flags set or cleared.\<close>

definition pktgen_set_port_flags :: "u64 \<Rightarrow> port_info \<Rightarrow> port_info" where
  "pktgen_set_port_flags fl pinfo = pinfo\<lparr>port_flags := port_flags pinfo OR fl\<rparr>"

definition pktgen_clr_port_flags :: "u64 \<Rightarrow> port_info \<Rightarrow> port_info" where
  "pktgen_clr_port_flags fl pinfo = pinfo\<lparr>port_flags := port_flags pinfo AND NOT fl\<rparr>"

definition pktgen_tst_port_flags :: "u64 \<Rightarrow> port_info \<Rightarrow> bool" where
  "pktgen_tst_port_flags fl pinfo \<longleftrightarrow> port_flags pinfo AND fl \<noteq> 0"

end
