(* ===== verification/PktRange.thy ===== *)
theory PktRange
  imports PortCfg
begin

text \<open>
  Range mode, \<open>app/pktgen-range.c\<close>: the default ranges of a port and the step that moves every field
  of the rg packet to its next value, and the commands of \<open>app/pktgen-cmds.c\<close> that set the
  ranges.
\<close>

subsection \<open>One step\<close>

text \<open>
  The code adds the increment and then corrects the value, with two tests one after the other
  (\<open>step_ifs\<close>) or with the second in the \<open>else\<close> of the first (\<open>step_else\<close>).
\<close>

definition step_ifs :: "'w::len word \<Rightarrow> 'w word \<Rightarrow> 'w word \<Rightarrow> 'w word \<Rightarrow> 'w word" where
  "step_ifs v inc lo hi =
     (let p = v + inc; q = (if p < lo then hi else p) in if q > hi then lo else q)"

definition step_else :: "'w::len word \<Rightarrow> 'w word \<Rightarrow> 'w word \<Rightarrow> 'w word \<Rightarrow> 'w word" where
  "step_else v inc lo hi =
     (let p = v + inc in if p < lo then hi else if p > hi then lo else p)"

lemma step_ifs_else: "step_ifs v inc lo hi = step_else v inc lo hi"
  by (simp add: step_ifs_def step_else_def Let_def)

lemma step_else_bounds: "lo \<le> hi \<Longrightarrow> lo \<le> step_else v inc lo hi \<and> step_else v inc lo hi \<le> hi"
  by (auto simp: step_else_def Let_def)

text \<open>The function-local \<open>static\<close> marks of the fields that skip the first increment.\<close>

record range_statics =
  min_vlan_set :: bool
  min_cos_set :: bool
  min_tos_set :: bool
  min_vlan_set6 :: bool
  min_cos_set6 :: bool
  min_traffic_class_set :: bool

definition first_value :: "'w::len word \<Rightarrow> 'w word \<Rightarrow> bool \<Rightarrow> u32 \<times> bool" where
  "first_value v least mark = (if v = least \<and> \<not> mark then (0, True) else (ucast v, mark))"

subsection \<open>The fields\<close>

definition range_tcp :: "range_info \<Rightarrow> pkt_seq \<Rightarrow> pkt_seq" where
  "range_tcp rg pkt =
     (let sq = r_tcp_seq rg; ak = r_tcp_ack rg;
          pkt1 = pkt\<lparr>pk_tcp_seq := (if sp_inc sq \<noteq> 0
                   then step_ifs (pk_tcp_seq pkt) (ucast (sp_inc sq)) (sp_min sq) (sp_max sq)
                   else sp_start sq)\<rparr>
      in pkt1\<lparr>pk_tcp_ack := (if sp_inc ak \<noteq> 0
                   then step_ifs (pk_tcp_ack pkt1) (ucast (sp_inc ak)) (sp_min ak) (sp_max ak)
                   else sp_start ak)\<rparr>)"

definition range_gtpu :: "range_info \<Rightarrow> pkt_seq \<Rightarrow> pkt_seq" where
  "range_gtpu rg pkt =
     (if pk_dport pkt = PG_IPPROTO_L4_GTPU_PORT then
        (let te = r_gtpu_teid rg in
         pkt\<lparr>pk_gtpu_teid := (if sp_inc te \<noteq> 0
               then step_ifs (pk_gtpu_teid pkt) (sp_inc te) (sp_min te) (sp_max te)
               else sp_start te)\<rparr>)
      else pkt)"

definition range_ports4 :: "range_info \<Rightarrow> pkt_seq \<Rightarrow> pkt_seq" where
  "range_ports4 rg pkt =
     (let sp = r_src_port rg; dp = r_dst_port rg
      in pkt\<lparr>pk_sport := (if sp_inc sp \<noteq> 0
               then ucast (step_ifs (ucast (pk_sport pkt) :: u32) (ucast (sp_inc sp))
                                    (ucast (sp_min sp)) (ucast (sp_max sp)))
               else sp_start sp),
             pk_dport := (if sp_inc dp \<noteq> 0
               then ucast (step_ifs (ucast (pk_dport pkt) :: u32) (ucast (sp_inc dp))
                                    (ucast (sp_min dp)) (ucast (sp_max dp)))
               else sp_start dp)\<rparr>)"

definition range_ttl :: "range_info \<Rightarrow> pkt_seq \<Rightarrow> pkt_seq" where
  "range_ttl rg pkt =
     (let t = r_ttl rg
      in pkt\<lparr>pk_ttl := (if sp_inc t \<noteq> 0
               then ucast (step_ifs (ucast (pk_ttl pkt) :: u16) (ucast (sp_inc t))
                                    (ucast (sp_min t)) (ucast (sp_max t)))
               else sp_start t)\<rparr>)"

text \<open>An IPv4 address of the packet; the range holds the addresses in the same union.\<close>

definition step_ipv4 :: "(u8 list, u8 list) span \<Rightarrow> u8 list \<Rightarrow> u8 list" where
  "step_ipv4 sp a =
     (if ipv4_of (sp_inc sp) \<noteq> 0
      then with_ipv4 (step_else (ipv4_of a) (ipv4_of (sp_inc sp)) (ipv4_of (sp_min sp)) (ipv4_of (sp_max sp))) a
      else with_ipv4 (ipv4_of (sp_start sp)) a)"

definition range_addrs4 :: "range_info \<Rightarrow> pkt_seq \<Rightarrow> pkt_seq" where
  "range_addrs4 rg pkt =
     pkt\<lparr>ip_src_addr := (ip_src_addr pkt)\<lparr>ip_addr := step_ipv4 (r_src_ip rg) (ip_addr (ip_src_addr pkt))\<rparr>,
         ip_dst_addr := (ip_dst_addr pkt)\<lparr>ip_addr := step_ipv4 (r_dst_ip rg) (ip_addr (ip_dst_addr pkt))\<rparr>\<rparr>"

text \<open>The tags: the VLAN id, the priority and the type of service, with their marks.\<close>

definition step_vlan :: "(u16, u16) span \<Rightarrow> bool \<Rightarrow> u16 \<Rightarrow> u16 \<times> bool" where
  "step_vlan sp mark v =
     (if sp_inc sp \<noteq> 0
      then (let (p, mark') = first_value v MIN_VLAN_ID mark
            in (ucast (step_else p (ucast (sp_inc sp)) (ucast (sp_min sp)) (ucast (sp_max sp))), mark'))
      else (sp_start sp, mark))"

definition step_u8 :: "u8 \<Rightarrow> (u8, u16) span \<Rightarrow> bool \<Rightarrow> u8 \<Rightarrow> u8 \<times> bool" where
  "step_u8 least sp mark v =
     (if sp_inc sp \<noteq> 0
      then (let (p, mark') = first_value v least mark
            in (ucast (step_else p (ucast (sp_inc sp)) (ucast (sp_min sp)) (ucast (sp_max sp))), mark'))
      else (sp_start sp, mark))"

definition range_tags4 :: "range_info \<Rightarrow> range_statics \<times> pkt_seq \<Rightarrow> range_statics \<times> pkt_seq" where
  "range_tags4 rg = (\<lambda>(st, pkt).
     let (v, mv) = step_vlan (r_vlan_id rg) (min_vlan_set st) (pk_vlanid pkt);
         (c, mc) = step_u8 MIN_COS (r_cos rg) (min_cos_set st) (pk_cos pkt);
         (t, mt) = step_u8 MIN_TOS (r_tos rg) (min_tos_set st) (pk_tos pkt)
     in (st\<lparr>min_vlan_set := mv, min_cos_set := mc, min_tos_set := mt\<rparr>,
         pkt\<lparr>pk_vlanid := v, pk_cos := c, pk_tos := t\<rparr>))"

definition range_tags6 :: "range_info \<Rightarrow> range_statics \<times> pkt_seq \<Rightarrow> range_statics \<times> pkt_seq" where
  "range_tags6 rg = (\<lambda>(st, pkt).
     let (v, mv) = step_vlan (r_vlan_id rg) (min_vlan_set6 st) (pk_vlanid pkt);
         (c, mc) = step_u8 MIN_COS (r_cos rg) (min_cos_set6 st) (pk_cos pkt);
         (t, mt) = step_u8 MIN_TOS (r_tos rg) (min_traffic_class_set st) (pk_tos pkt)
     in (st\<lparr>min_vlan_set6 := mv, min_cos_set6 := mc, min_traffic_class_set := mt\<rparr>,
         pkt\<lparr>pk_vlanid := v, pk_cos := c, pk_tos := t\<rparr>))"

definition step_size :: "(u16, u16) span \<Rightarrow> u16 \<Rightarrow> u16" where
  "step_size sp v =
     (if sp_inc sp \<noteq> 0
      then ucast (step_else (ucast v :: u32) (ucast (sp_inc sp)) (ucast (sp_min sp)) (ucast (sp_max sp)))
      else sp_start sp)"

definition step_mac :: "(u64, u64) span \<Rightarrow> u8 list \<Rightarrow> u8 list" where
  "step_mac sp a =
     (if sp_inc sp \<noteq> 0
      then inet_h64tom (step_else (inet_mtoh64 a) (sp_inc sp) (sp_min sp) (sp_max sp))
      else inet_h64tom (sp_start sp))"

definition range_size_mac4 :: "range_info \<Rightarrow> pkt_seq \<Rightarrow> pkt_seq" where
  "range_size_mac4 rg pkt =
     pkt\<lparr>pk_size := step_size (r_pkt_size rg) (pk_size pkt),
         eth_src_addr := step_mac (r_src_mac rg) (eth_src_addr pkt),
         eth_dst_addr := step_mac (r_dst_mac rg) (eth_dst_addr pkt)\<rparr>"

text \<open>As the code has it: the VNI is stepped by the increment of the group and stored as the group.\<close>

definition range_vxlan :: "range_info \<Rightarrow> pkt_seq \<Rightarrow> pkt_seq" where
  "range_vxlan rg pkt =
     (let g = r_vxlan_gid rg; v = r_vxlan_vid rg;
          pkt1 = pkt\<lparr>pk_group_id := (if sp_inc g \<noteq> 0
                   then ucast (step_else (ucast (pk_group_id pkt) :: u32) (sp_inc g) (sp_min g) (sp_max g))
                   else ucast (sp_start g))\<rparr>
      in if sp_inc v \<noteq> 0
         then pkt1\<lparr>pk_group_id := ucast (step_else (pk_vxlan_id pkt1) (sp_inc g) (sp_min v) (sp_max v))\<rparr>
         else pkt1\<lparr>pk_vxlan_id := sp_start v\<rparr>)"

definition range_ports6 :: "range_info \<Rightarrow> pkt_seq \<Rightarrow> pkt_seq" where
  "range_ports6 rg pkt =
     (let sp = r_src_port rg; dp = r_dst_port rg; h = r_ttl rg
      in pkt\<lparr>pk_sport := (if sp_inc sp \<noteq> 0
               then step_ifs (pk_sport pkt) (sp_inc sp) (sp_min sp) (sp_max sp) else sp_start sp),
             pk_dport := (if sp_inc dp \<noteq> 0
               then step_ifs (pk_dport pkt) (sp_inc dp) (sp_min dp) (sp_max dp) else sp_start dp),
             pk_ttl := (if sp_inc h \<noteq> 0
               then step_ifs (pk_ttl pkt) (sp_inc h) (sp_min h) (sp_max h) else sp_start h)\<rparr>)"

text \<open>An IPv6 address starts again from the least one on both sides.\<close>

definition step_ipv6 :: "(u8 list, u8 list) span \<Rightarrow> u8 list \<Rightarrow> u8 list" where
  "step_ipv6 sp a =
     (if \<not> inet6AddrIsUnspecified (sp_inc sp)
      then (let p = inet6AddrAdd a (sp_inc sp)
            in if memcmp p (sp_min sp) < 0 then sp_min sp
               else if memcmp p (sp_max sp) > 0 then sp_min sp else p)
      else sp_start sp)"

definition range_addrs6 :: "range_info \<Rightarrow> pkt_seq \<Rightarrow> pkt_seq" where
  "range_addrs6 rg pkt =
     pkt\<lparr>ip_src_addr := (ip_src_addr pkt)\<lparr>ip_addr := step_ipv6 (r_src_ip rg) (ip_addr (ip_src_addr pkt))\<rparr>,
         ip_dst_addr := (ip_dst_addr pkt)\<lparr>ip_addr := step_ipv6 (r_dst_ip rg) (ip_addr (ip_dst_addr pkt))\<rparr>\<rparr>"

definition range_size_mac6 :: "range_info \<Rightarrow> pkt_seq \<Rightarrow> pkt_seq" where
  "range_size_mac6 rg pkt =
     pkt\<lparr>pk_size := step_size (r_pkt_size rg) (pk_size pkt),
         eth_src_addr := step_mac (r_src_mac rg) (eth_src_addr pkt),
         eth_dst_addr := step_mac (r_dst_mac rg) (eth_dst_addr pkt)\<rparr>"

text \<open>The whole step; packets of other types are only logged.\<close>

definition pktgen_range_ctor :: "range_info \<Rightarrow> range_statics \<times> pkt_seq \<Rightarrow> range_statics \<times> pkt_seq" where
  "pktgen_range_ctor rg = (\<lambda>(st, pkt).
     let pkt1 = (if ipProto pkt = PG_IPPROTO_TCP then range_tcp rg pkt else pkt)
     in if ethType pkt1 = RTE_ETHER_TYPE_IPV4 then
          if ipProto pkt1 = PG_IPPROTO_TCP \<or> ipProto pkt1 = PG_IPPROTO_UDP then
            (let pkt2 = range_addrs4 rg (range_ttl rg (range_ports4 rg (range_gtpu rg pkt1)));
                 (st3, pkt3) = range_tags4 rg (st, pkt2)
             in (st3, range_vxlan rg (range_size_mac4 rg pkt3)))
          else (st, pkt1)
        else if ethType pkt1 = RTE_ETHER_TYPE_IPV6 then
          if ipProto pkt1 = PG_IPPROTO_UDP \<or> ipProto pkt1 = PG_IPPROTO_TCP then
            (let (st3, pkt3) = range_tags6 rg (st, range_addrs6 rg (range_ports6 rg pkt1))
             in (st3, range_size_mac6 rg pkt3))
          else (st, pkt1)
        else (st, pkt1))"

subsection \<open>Every field stays in its range\<close>

text \<open>
  A field obeys its range: without an increment it is the start value, whatever the limits are; with one, and with limits
  that are in order, it lies between them. This is asked of every field by itself.
\<close>

definition in_span :: "('w::len word, 'i) span \<Rightarrow> 'w word \<Rightarrow> bool" where
  "in_span sp v \<longleftrightarrow> sp_min sp \<le> v \<and> v \<le> sp_max sp"

definition obeys :: "('w::len word, 'i::len word) span \<Rightarrow> 'w word \<Rightarrow> bool" where
  "obeys sp v \<longleftrightarrow> (if sp_inc sp = 0 then v = sp_start sp else sp_min sp \<le> sp_max sp \<longrightarrow> in_span sp v)"

abbreviation span_ok :: "('w::len word, 'i) span \<Rightarrow> bool" where
  "span_ok sp \<equiv> in_span sp (sp_start sp)"

lemma unat_ucast_up:
  fixes x :: "'a::len word"
  assumes le: "LENGTH('a) \<le> LENGTH('b::len)"
  shows "unat (ucast x :: 'b word) = unat x"
proof -
  have "unat x < 2 ^ LENGTH('a)" by (rule unsigned_less)
  also have "\<dots> \<le> 2 ^ LENGTH('b)" using le by (rule power_increasing) simp
  finally show ?thesis by (simp add: unsigned_ucast_eq take_bit_nat_eq_self)
qed

lemma narrow_bounds:
  fixes lo hi :: "'a::len word" and r :: "'b::len word"
  assumes "LENGTH('a) \<le> LENGTH('b)" and "ucast lo \<le> r" and "r \<le> ucast hi"
  shows "lo \<le> ucast r \<and> ucast r \<le> hi"
proof -
  have b: "unat lo \<le> unat r" "unat r \<le> unat hi"
    using assms(2,3) by (simp_all add: word_le_nat_alt unat_ucast_up [OF assms(1)])
  have "unat r < 2 ^ LENGTH('a)" by (rule le_less_trans [OF b(2) unsigned_less])
  then have "unat (ucast r :: 'a word) = unat r"
    by (simp add: unsigned_ucast_eq take_bit_nat_eq_self)
  with b show ?thesis by (simp add: word_le_nat_alt)
qed

lemma step_narrow:
  fixes lo hi :: "'a::len word" and v inc :: "'b::len word"
  assumes "LENGTH('a) \<le> LENGTH('b)" and "lo \<le> hi"
  shows "lo \<le> ucast (step_else v inc (ucast lo) (ucast hi)) \<and> ucast (step_else v inc (ucast lo) (ucast hi)) \<le> hi"
proof -
  have "(ucast lo :: 'b word) \<le> ucast hi"
    using assms by (simp add: word_le_nat_alt unat_ucast_up)
  from step_else_bounds [OF this] show ?thesis
    by (intro narrow_bounds) (simp_all add: assms(1))
qed

lemma in_span_le: "in_span sp v \<Longrightarrow> sp_min sp \<le> sp_max sp"
  by (auto simp: in_span_def)

named_theorems span_rules "a field of the packet after a step is in its range"

lemma obeys_wide [span_rules]:
  "obeys sp (if sp_inc sp \<noteq> 0 then step_ifs v w (sp_min sp) (sp_max sp) else sp_start sp)"
  using step_else_bounds [of "sp_min sp" "sp_max sp"] by (simp add: obeys_def in_span_def step_ifs_else)

lemma obeys_narrow [span_rules]:
  fixes sp :: "('a::len word, 'i::len word) span" and v :: "'b::len word"
  assumes "LENGTH('a) \<le> LENGTH('b)"
  shows "obeys sp (if sp_inc sp \<noteq> 0 then ucast (step_ifs v w (ucast (sp_min sp)) (ucast (sp_max sp))) else sp_start sp)"
  using step_narrow [OF assms, of "sp_min sp" "sp_max sp" v w] by (simp add: obeys_def in_span_def step_ifs_else)

lemma obeys_size [span_rules]: "obeys sp (step_size sp v)"
  using step_narrow [where 'a = 16 and 'b = 32, of "sp_min sp" "sp_max sp"] by (simp add: obeys_def in_span_def step_size_def)

lemma obeys_vlan [span_rules]: "obeys sp (fst (step_vlan sp mark v))"
  using step_narrow [where 'a = 16 and 'b = 32, of "sp_min sp" "sp_max sp"]
  by (simp add: obeys_def in_span_def step_vlan_def split: prod.split)

lemma obeys_u8 [span_rules]: "obeys sp (fst (step_u8 least sp mark v))"
  using step_narrow [where 'a = 8 and 'b = 32, of "sp_min sp" "sp_max sp"]
  by (simp add: obeys_def in_span_def step_u8_def split: prod.split)

text \<open>Addresses, by their value.\<close>

definition ip4_obeys :: "(u8 list, u8 list) span \<Rightarrow> u8 list \<Rightarrow> bool" where
  "ip4_obeys sp a \<longleftrightarrow>
     (if ipv4_of (sp_inc sp) = 0 then ipv4_of a = ipv4_of (sp_start sp)
      else ipv4_of (sp_min sp) \<le> ipv4_of (sp_max sp) \<longrightarrow> ipv4_of (sp_min sp) \<le> ipv4_of a \<and> ipv4_of a \<le> ipv4_of (sp_max sp))"

definition ip6_obeys :: "(u8 list, u8 list) span \<Rightarrow> u8 list \<Rightarrow> bool" where
  "ip6_obeys sp a \<longleftrightarrow>
     (if be_val (sp_inc sp) = 0 then a = sp_start sp
      else be_val (sp_min sp) \<le> be_val (sp_max sp) \<longrightarrow> be_val (sp_min sp) \<le> be_val a \<and> be_val a \<le> be_val (sp_max sp))"

definition mac_obeys :: "(u64, u64) span \<Rightarrow> u8 list \<Rightarrow> bool" where
  "mac_obeys sp a \<longleftrightarrow> length a = 6 \<and>
     (if sp_inc sp = 0 then be_val a = unat (sp_start sp) mod 2 ^ 48
      else sp_min sp \<le> sp_max sp \<and> unat (sp_max sp) < 2 ^ 48 \<longrightarrow> unat (sp_min sp) \<le> be_val a \<and> be_val a \<le> unat (sp_max sp))"

definition span6 :: "(u8 list, u8 list) span \<Rightarrow> bool" where
  "span6 sp \<longleftrightarrow> length (sp_inc sp) = 16 \<and> length (sp_min sp) = 16 \<and> length (sp_max sp) = 16"

lemma step_ipv4_obeys [span_rules]: "ip4_obeys sp (step_ipv4 sp a)"
  using step_else_bounds [of "ipv4_of (sp_min sp)" "ipv4_of (sp_max sp)"] by (simp add: ip4_obeys_def step_ipv4_def)

lemma be_val_h64tom: "be_val (inet_h64tom v) = unat v mod 2 ^ 48"
proof -
  have "unat (inet_mtoh64 (inet_h64tom v)) = unat v mod 2 ^ 48"
    using mtoh64_h64tom [of v] by (simp add: take_bit_eq_mod unat_mod)
  then show ?thesis using unat_mtoh64 [of "inet_h64tom v"] by (simp add: inet_h64tom_def)
qed

lemma step_mac_obeys [span_rules]: "mac_obeys sp (step_mac sp a)"
proof -
  let ?v = "step_else (inet_mtoh64 a) (sp_inc sp) (sp_min sp) (sp_max sp)"
  have "sp_min sp \<le> sp_max sp \<Longrightarrow> unat (sp_min sp) \<le> unat ?v \<and> unat ?v \<le> unat (sp_max sp)"
    using step_else_bounds [of "sp_min sp" "sp_max sp"] by (simp add: word_le_nat_alt)
  moreover have "length (inet_h64tom v) = 6" for v by (simp add: inet_h64tom_def)
  ultimately show ?thesis by (auto simp: mac_obeys_def step_mac_def be_val_h64tom)
qed

lemma step_ipv6_obeys [span_rules]:
  assumes "span6 sp" and "length a = 16"
  shows "ip6_obeys sp (step_ipv6 sp a)"
proof -
  let ?p = "inet6AddrAdd a (sp_inc sp)"
  have l: "length ?p = 16" "length (sp_min sp) = 16" "length (sp_max sp) = 16" "length (sp_inc sp) = 16"
    using assms by (simp_all add: span6_def)
  have "(memcmp ?p (sp_min sp) < 0 \<longleftrightarrow> be_val ?p < be_val (sp_min sp))"
    "(memcmp ?p (sp_max sp) > 0 \<longleftrightarrow> be_val (sp_max sp) < be_val ?p)"
    using memcmp_value l by simp_all
  moreover have "inet6AddrIsUnspecified (sp_inc sp) \<longleftrightarrow> be_val (sp_inc sp) = 0" using l(4) by (rule unspecified_value)
  ultimately show ?thesis by (auto simp: step_ipv6_def ip6_obeys_def Let_def)
qed

text \<open>
  What one step makes of a packet: the fields that both protocols step, those of IPv4 with the tunnel identifiers, and the
  addresses of IPv6. The tunnel identifier of GTP-U is stepped when the packet went to its port before. The group and the
  network identifier of VXLAN obey their ranges when the network identifier has no increment; with one it stays as it was,
  and the group identifier is overwritten.
\<close>

definition in_ranges :: "range_info \<Rightarrow> pkt_seq \<Rightarrow> bool" where
  "in_ranges rg pkt \<longleftrightarrow> obeys (r_src_port rg) (pk_sport pkt) \<and> obeys (r_dst_port rg) (pk_dport pkt)
     \<and> obeys (r_vlan_id rg) (pk_vlanid pkt) \<and> obeys (r_tos rg) (pk_tos pkt) \<and> obeys (r_cos rg) (pk_cos pkt)
     \<and> obeys (r_pkt_size rg) (pk_size pkt) \<and> mac_obeys (r_src_mac rg) (eth_src_addr pkt)
     \<and> mac_obeys (r_dst_mac rg) (eth_dst_addr pkt) \<and> obeys (r_ttl rg) (pk_ttl pkt)
     \<and> (ipProto pkt = PG_IPPROTO_TCP \<longrightarrow> obeys (r_tcp_seq rg) (pk_tcp_seq pkt) \<and> obeys (r_tcp_ack rg) (pk_tcp_ack pkt))"

definition group_obeys :: "(u32, u32) span \<Rightarrow> u16 \<Rightarrow> bool" where
  "group_obeys sp g \<longleftrightarrow> (if sp_inc sp = 0 then g = ucast (sp_start sp)
     else sp_min sp \<le> sp_max sp \<and> sp_max sp < 0x10000 \<longrightarrow> in_span sp (ucast g))"

definition in_ranges4 :: "range_info \<Rightarrow> pkt_seq \<Rightarrow> pkt_seq \<Rightarrow> bool" where
  "in_ranges4 rg before pkt \<longleftrightarrow> in_ranges rg pkt
     \<and> ip4_obeys (r_src_ip rg) (ip_addr (ip_src_addr pkt)) \<and> ip4_obeys (r_dst_ip rg) (ip_addr (ip_dst_addr pkt))
     \<and> (if pk_dport before = PG_IPPROTO_L4_GTPU_PORT then obeys (r_gtpu_teid rg) (pk_gtpu_teid pkt)
        else pk_gtpu_teid pkt = pk_gtpu_teid before)
     \<and> (if sp_inc (r_vxlan_vid rg) = 0
        then pk_vxlan_id pkt = sp_start (r_vxlan_vid rg) \<and> group_obeys (r_vxlan_gid rg) (pk_group_id pkt)
        else pk_vxlan_id pkt = pk_vxlan_id before)"

definition in_ranges6 :: "range_info \<Rightarrow> pkt_seq \<Rightarrow> bool" where
  "in_ranges6 rg pkt \<longleftrightarrow> in_ranges rg pkt
     \<and> ip6_obeys (r_src_ip rg) (ip_addr (ip_src_addr pkt)) \<and> ip6_obeys (r_dst_ip rg) (ip_addr (ip_dst_addr pkt))"

subsection \<open>The step, field by field\<close>

lemma range_tcp_frame [simp]:
  "eth_dst_addr (range_tcp rg pkt) = eth_dst_addr pkt"
  "eth_src_addr (range_tcp rg pkt) = eth_src_addr pkt"
  "ip_src_addr (range_tcp rg pkt) = ip_src_addr pkt"
  "ip_dst_addr (range_tcp rg pkt) = ip_dst_addr pkt"
  "pk_sport (range_tcp rg pkt) = pk_sport pkt"
  "pk_dport (range_tcp rg pkt) = pk_dport pkt"
  "ethType (range_tcp rg pkt) = ethType pkt"
  "ipProto (range_tcp rg pkt) = ipProto pkt"
  "pk_vlanid (range_tcp rg pkt) = pk_vlanid pkt"
  "pk_cos (range_tcp rg pkt) = pk_cos pkt"
  "pk_tos (range_tcp rg pkt) = pk_tos pkt"
  "pk_size (range_tcp rg pkt) = pk_size pkt"
  "pk_ttl (range_tcp rg pkt) = pk_ttl pkt"
  "pk_gtpu_teid (range_tcp rg pkt) = pk_gtpu_teid pkt"
  "pk_group_id (range_tcp rg pkt) = pk_group_id pkt"
  "pk_vxlan_id (range_tcp rg pkt) = pk_vxlan_id pkt"
  by (simp_all add: range_tcp_def Let_def)

lemma range_gtpu_frame [simp]:
  "eth_dst_addr (range_gtpu rg pkt) = eth_dst_addr pkt"
  "eth_src_addr (range_gtpu rg pkt) = eth_src_addr pkt"
  "ip_src_addr (range_gtpu rg pkt) = ip_src_addr pkt"
  "ip_dst_addr (range_gtpu rg pkt) = ip_dst_addr pkt"
  "pk_sport (range_gtpu rg pkt) = pk_sport pkt"
  "pk_dport (range_gtpu rg pkt) = pk_dport pkt"
  "ethType (range_gtpu rg pkt) = ethType pkt"
  "ipProto (range_gtpu rg pkt) = ipProto pkt"
  "pk_vlanid (range_gtpu rg pkt) = pk_vlanid pkt"
  "pk_cos (range_gtpu rg pkt) = pk_cos pkt"
  "pk_tos (range_gtpu rg pkt) = pk_tos pkt"
  "pk_tcp_seq (range_gtpu rg pkt) = pk_tcp_seq pkt"
  "pk_tcp_ack (range_gtpu rg pkt) = pk_tcp_ack pkt"
  "pk_size (range_gtpu rg pkt) = pk_size pkt"
  "pk_ttl (range_gtpu rg pkt) = pk_ttl pkt"
  "pk_group_id (range_gtpu rg pkt) = pk_group_id pkt"
  "pk_vxlan_id (range_gtpu rg pkt) = pk_vxlan_id pkt"
  by (simp_all add: range_gtpu_def Let_def)

lemma range_ports4_frame [simp]:
  "eth_dst_addr (range_ports4 rg pkt) = eth_dst_addr pkt"
  "eth_src_addr (range_ports4 rg pkt) = eth_src_addr pkt"
  "ip_src_addr (range_ports4 rg pkt) = ip_src_addr pkt"
  "ip_dst_addr (range_ports4 rg pkt) = ip_dst_addr pkt"
  "ethType (range_ports4 rg pkt) = ethType pkt"
  "ipProto (range_ports4 rg pkt) = ipProto pkt"
  "pk_vlanid (range_ports4 rg pkt) = pk_vlanid pkt"
  "pk_cos (range_ports4 rg pkt) = pk_cos pkt"
  "pk_tos (range_ports4 rg pkt) = pk_tos pkt"
  "pk_tcp_seq (range_ports4 rg pkt) = pk_tcp_seq pkt"
  "pk_tcp_ack (range_ports4 rg pkt) = pk_tcp_ack pkt"
  "pk_size (range_ports4 rg pkt) = pk_size pkt"
  "pk_ttl (range_ports4 rg pkt) = pk_ttl pkt"
  "pk_gtpu_teid (range_ports4 rg pkt) = pk_gtpu_teid pkt"
  "pk_group_id (range_ports4 rg pkt) = pk_group_id pkt"
  "pk_vxlan_id (range_ports4 rg pkt) = pk_vxlan_id pkt"
  by (simp_all add: range_ports4_def Let_def)

lemma range_ttl_frame [simp]:
  "eth_dst_addr (range_ttl rg pkt) = eth_dst_addr pkt"
  "eth_src_addr (range_ttl rg pkt) = eth_src_addr pkt"
  "ip_src_addr (range_ttl rg pkt) = ip_src_addr pkt"
  "ip_dst_addr (range_ttl rg pkt) = ip_dst_addr pkt"
  "pk_sport (range_ttl rg pkt) = pk_sport pkt"
  "pk_dport (range_ttl rg pkt) = pk_dport pkt"
  "ethType (range_ttl rg pkt) = ethType pkt"
  "ipProto (range_ttl rg pkt) = ipProto pkt"
  "pk_vlanid (range_ttl rg pkt) = pk_vlanid pkt"
  "pk_cos (range_ttl rg pkt) = pk_cos pkt"
  "pk_tos (range_ttl rg pkt) = pk_tos pkt"
  "pk_tcp_seq (range_ttl rg pkt) = pk_tcp_seq pkt"
  "pk_tcp_ack (range_ttl rg pkt) = pk_tcp_ack pkt"
  "pk_size (range_ttl rg pkt) = pk_size pkt"
  "pk_gtpu_teid (range_ttl rg pkt) = pk_gtpu_teid pkt"
  "pk_group_id (range_ttl rg pkt) = pk_group_id pkt"
  "pk_vxlan_id (range_ttl rg pkt) = pk_vxlan_id pkt"
  by (simp_all add: range_ttl_def Let_def)

lemma range_addrs4_frame [simp]:
  "eth_dst_addr (range_addrs4 rg pkt) = eth_dst_addr pkt"
  "eth_src_addr (range_addrs4 rg pkt) = eth_src_addr pkt"
  "pk_sport (range_addrs4 rg pkt) = pk_sport pkt"
  "pk_dport (range_addrs4 rg pkt) = pk_dport pkt"
  "ethType (range_addrs4 rg pkt) = ethType pkt"
  "ipProto (range_addrs4 rg pkt) = ipProto pkt"
  "pk_vlanid (range_addrs4 rg pkt) = pk_vlanid pkt"
  "pk_cos (range_addrs4 rg pkt) = pk_cos pkt"
  "pk_tos (range_addrs4 rg pkt) = pk_tos pkt"
  "pk_tcp_seq (range_addrs4 rg pkt) = pk_tcp_seq pkt"
  "pk_tcp_ack (range_addrs4 rg pkt) = pk_tcp_ack pkt"
  "pk_size (range_addrs4 rg pkt) = pk_size pkt"
  "pk_ttl (range_addrs4 rg pkt) = pk_ttl pkt"
  "pk_gtpu_teid (range_addrs4 rg pkt) = pk_gtpu_teid pkt"
  "pk_group_id (range_addrs4 rg pkt) = pk_group_id pkt"
  "pk_vxlan_id (range_addrs4 rg pkt) = pk_vxlan_id pkt"
  by (simp_all add: range_addrs4_def Let_def)

lemma range_addrs6_frame [simp]:
  "eth_dst_addr (range_addrs6 rg pkt) = eth_dst_addr pkt"
  "eth_src_addr (range_addrs6 rg pkt) = eth_src_addr pkt"
  "pk_sport (range_addrs6 rg pkt) = pk_sport pkt"
  "pk_dport (range_addrs6 rg pkt) = pk_dport pkt"
  "ethType (range_addrs6 rg pkt) = ethType pkt"
  "ipProto (range_addrs6 rg pkt) = ipProto pkt"
  "pk_vlanid (range_addrs6 rg pkt) = pk_vlanid pkt"
  "pk_cos (range_addrs6 rg pkt) = pk_cos pkt"
  "pk_tos (range_addrs6 rg pkt) = pk_tos pkt"
  "pk_tcp_seq (range_addrs6 rg pkt) = pk_tcp_seq pkt"
  "pk_tcp_ack (range_addrs6 rg pkt) = pk_tcp_ack pkt"
  "pk_size (range_addrs6 rg pkt) = pk_size pkt"
  "pk_ttl (range_addrs6 rg pkt) = pk_ttl pkt"
  "pk_gtpu_teid (range_addrs6 rg pkt) = pk_gtpu_teid pkt"
  "pk_group_id (range_addrs6 rg pkt) = pk_group_id pkt"
  "pk_vxlan_id (range_addrs6 rg pkt) = pk_vxlan_id pkt"
  by (simp_all add: range_addrs6_def Let_def)

lemma range_ports6_frame [simp]:
  "eth_dst_addr (range_ports6 rg pkt) = eth_dst_addr pkt"
  "eth_src_addr (range_ports6 rg pkt) = eth_src_addr pkt"
  "ip_src_addr (range_ports6 rg pkt) = ip_src_addr pkt"
  "ip_dst_addr (range_ports6 rg pkt) = ip_dst_addr pkt"
  "ethType (range_ports6 rg pkt) = ethType pkt"
  "ipProto (range_ports6 rg pkt) = ipProto pkt"
  "pk_vlanid (range_ports6 rg pkt) = pk_vlanid pkt"
  "pk_cos (range_ports6 rg pkt) = pk_cos pkt"
  "pk_tos (range_ports6 rg pkt) = pk_tos pkt"
  "pk_tcp_seq (range_ports6 rg pkt) = pk_tcp_seq pkt"
  "pk_tcp_ack (range_ports6 rg pkt) = pk_tcp_ack pkt"
  "pk_size (range_ports6 rg pkt) = pk_size pkt"
  "pk_gtpu_teid (range_ports6 rg pkt) = pk_gtpu_teid pkt"
  "pk_group_id (range_ports6 rg pkt) = pk_group_id pkt"
  "pk_vxlan_id (range_ports6 rg pkt) = pk_vxlan_id pkt"
  by (simp_all add: range_ports6_def Let_def)

lemma range_size_mac4_frame [simp]:
  "ip_src_addr (range_size_mac4 rg pkt) = ip_src_addr pkt"
  "ip_dst_addr (range_size_mac4 rg pkt) = ip_dst_addr pkt"
  "pk_sport (range_size_mac4 rg pkt) = pk_sport pkt"
  "pk_dport (range_size_mac4 rg pkt) = pk_dport pkt"
  "ethType (range_size_mac4 rg pkt) = ethType pkt"
  "ipProto (range_size_mac4 rg pkt) = ipProto pkt"
  "pk_vlanid (range_size_mac4 rg pkt) = pk_vlanid pkt"
  "pk_cos (range_size_mac4 rg pkt) = pk_cos pkt"
  "pk_tos (range_size_mac4 rg pkt) = pk_tos pkt"
  "pk_tcp_seq (range_size_mac4 rg pkt) = pk_tcp_seq pkt"
  "pk_tcp_ack (range_size_mac4 rg pkt) = pk_tcp_ack pkt"
  "pk_ttl (range_size_mac4 rg pkt) = pk_ttl pkt"
  "pk_gtpu_teid (range_size_mac4 rg pkt) = pk_gtpu_teid pkt"
  "pk_group_id (range_size_mac4 rg pkt) = pk_group_id pkt"
  "pk_vxlan_id (range_size_mac4 rg pkt) = pk_vxlan_id pkt"
  by (simp_all add: range_size_mac4_def Let_def)

lemma range_size_mac6_frame [simp]:
  "ip_src_addr (range_size_mac6 rg pkt) = ip_src_addr pkt"
  "ip_dst_addr (range_size_mac6 rg pkt) = ip_dst_addr pkt"
  "pk_sport (range_size_mac6 rg pkt) = pk_sport pkt"
  "pk_dport (range_size_mac6 rg pkt) = pk_dport pkt"
  "ethType (range_size_mac6 rg pkt) = ethType pkt"
  "ipProto (range_size_mac6 rg pkt) = ipProto pkt"
  "pk_vlanid (range_size_mac6 rg pkt) = pk_vlanid pkt"
  "pk_cos (range_size_mac6 rg pkt) = pk_cos pkt"
  "pk_tos (range_size_mac6 rg pkt) = pk_tos pkt"
  "pk_tcp_seq (range_size_mac6 rg pkt) = pk_tcp_seq pkt"
  "pk_tcp_ack (range_size_mac6 rg pkt) = pk_tcp_ack pkt"
  "pk_ttl (range_size_mac6 rg pkt) = pk_ttl pkt"
  "pk_gtpu_teid (range_size_mac6 rg pkt) = pk_gtpu_teid pkt"
  "pk_group_id (range_size_mac6 rg pkt) = pk_group_id pkt"
  "pk_vxlan_id (range_size_mac6 rg pkt) = pk_vxlan_id pkt"
  by (simp_all add: range_size_mac6_def Let_def)

lemma range_vxlan_frame [simp]:
  "eth_dst_addr (range_vxlan rg pkt) = eth_dst_addr pkt"
  "eth_src_addr (range_vxlan rg pkt) = eth_src_addr pkt"
  "ip_src_addr (range_vxlan rg pkt) = ip_src_addr pkt"
  "ip_dst_addr (range_vxlan rg pkt) = ip_dst_addr pkt"
  "pk_sport (range_vxlan rg pkt) = pk_sport pkt"
  "pk_dport (range_vxlan rg pkt) = pk_dport pkt"
  "ethType (range_vxlan rg pkt) = ethType pkt"
  "ipProto (range_vxlan rg pkt) = ipProto pkt"
  "pk_vlanid (range_vxlan rg pkt) = pk_vlanid pkt"
  "pk_cos (range_vxlan rg pkt) = pk_cos pkt"
  "pk_tos (range_vxlan rg pkt) = pk_tos pkt"
  "pk_tcp_seq (range_vxlan rg pkt) = pk_tcp_seq pkt"
  "pk_tcp_ack (range_vxlan rg pkt) = pk_tcp_ack pkt"
  "pk_size (range_vxlan rg pkt) = pk_size pkt"
  "pk_ttl (range_vxlan rg pkt) = pk_ttl pkt"
  "pk_gtpu_teid (range_vxlan rg pkt) = pk_gtpu_teid pkt"
  by (simp_all add: range_vxlan_def Let_def)

lemma range_tags4_snd [simp]:
  "snd (range_tags4 rg (st, pkt)) = pkt\<lparr>pk_vlanid := fst (step_vlan (r_vlan_id rg) (min_vlan_set st) (pk_vlanid pkt)),
     pk_cos := fst (step_u8 MIN_COS (r_cos rg) (min_cos_set st) (pk_cos pkt)),
     pk_tos := fst (step_u8 MIN_TOS (r_tos rg) (min_tos_set st) (pk_tos pkt))\<rparr>"
  by (simp add: range_tags4_def Let_def split_beta)

lemma range_tags6_snd [simp]:
  "snd (range_tags6 rg (st, pkt)) = pkt\<lparr>pk_vlanid := fst (step_vlan (r_vlan_id rg) (min_vlan_set6 st) (pk_vlanid pkt)),
     pk_cos := fst (step_u8 MIN_COS (r_cos rg) (min_cos_set6 st) (pk_cos pkt)),
     pk_tos := fst (step_u8 MIN_TOS (r_tos rg) (min_traffic_class_set st) (pk_tos pkt))\<rparr>"
  by (simp add: range_tags6_def Let_def split_beta)

abbreviation tcp_stage :: "range_info \<Rightarrow> pkt_seq \<Rightarrow> pkt_seq" where
  "tcp_stage rg pkt \<equiv> if ipProto pkt = PG_IPPROTO_TCP then range_tcp rg pkt else pkt"

lemma tcp_stage_frame:
  "ethType (tcp_stage rg pkt) = ethType pkt" "ipProto (tcp_stage rg pkt) = ipProto pkt"
  "pk_sport (tcp_stage rg pkt) = pk_sport pkt" "pk_dport (tcp_stage rg pkt) = pk_dport pkt"
  "pk_group_id (tcp_stage rg pkt) = pk_group_id pkt" "pk_vxlan_id (tcp_stage rg pkt) = pk_vxlan_id pkt"
  "ip_src_addr (tcp_stage rg pkt) = ip_src_addr pkt" "ip_dst_addr (tcp_stage rg pkt) = ip_dst_addr pkt"
  by simp_all

abbreviation l4_pkt :: "pkt_seq \<Rightarrow> bool" where
  "l4_pkt pkt \<equiv> ipProto pkt = PG_IPPROTO_TCP \<or> ipProto pkt = PG_IPPROTO_UDP"

lemma ctor4:
  assumes "ethType pkt = RTE_ETHER_TYPE_IPV4" and "l4_pkt pkt"
  shows "snd (pktgen_range_ctor rg (st, pkt)) =
    range_vxlan rg (range_size_mac4 rg (snd (range_tags4 rg (st,
      range_addrs4 rg (range_ttl rg (range_ports4 rg (range_gtpu rg (tcp_stage rg pkt))))))))"
  using assms by (auto simp: pktgen_range_ctor_def Let_def split_beta)

lemma ctor6:
  assumes "ethType pkt = RTE_ETHER_TYPE_IPV6" and "l4_pkt pkt"
  shows "snd (pktgen_range_ctor rg (st, pkt)) =
    range_size_mac6 rg (snd (range_tags6 rg (st, range_addrs6 rg (range_ports6 rg (tcp_stage rg pkt)))))"
  using assms by (auto simp: pktgen_range_ctor_def Let_def split_beta pkt_consts)

lemma ctor_keeps_type [simp]:
  "ethType (snd (pktgen_range_ctor rg (st, pkt))) = ethType pkt"
  "ipProto (snd (pktgen_range_ctor rg (st, pkt))) = ipProto pkt"
  by (simp_all add: pktgen_range_ctor_def Let_def split_beta)

lemma obeys_ports [span_rules]:
  "obeys sp (if sp_inc sp \<noteq> 0 then ucast (step_ifs (v :: u32) w (ucast (sp_min sp)) (ucast (sp_max sp))) else sp_start sp)"
  for sp :: "(u16, u16) span"
  by (rule obeys_narrow) simp

lemma obeys_ttl [span_rules]:
  "obeys sp (if sp_inc sp \<noteq> 0 then ucast (step_ifs (v :: u16) w (ucast (sp_min sp)) (ucast (sp_max sp))) else sp_start sp)"
  for sp :: "(u8, u8) span"
  by (rule obeys_narrow) simp

lemma tcp_stage_in:
  assumes "ipProto pkt = PG_IPPROTO_TCP"
  shows "obeys (r_tcp_seq rg) (pk_tcp_seq (tcp_stage rg pkt)) \<and> obeys (r_tcp_ack rg) (pk_tcp_ack (tcp_stage rg pkt))"
  using assms obeys_wide [of "r_tcp_seq rg"] obeys_wide [of "r_tcp_ack rg"] by (simp add: range_tcp_def Let_def)

lemma ctor4_fields:
  assumes "ethType pkt = RTE_ETHER_TYPE_IPV4" and "l4_pkt pkt"
  shows "pk_sport (snd (pktgen_range_ctor rg (st, pkt))) = pk_sport (range_ports4 rg pkt)"
    "pk_dport (snd (pktgen_range_ctor rg (st, pkt))) = pk_dport (range_ports4 rg pkt)"
    "pk_ttl (snd (pktgen_range_ctor rg (st, pkt))) = pk_ttl (range_ttl rg pkt)"
    "pk_size (snd (pktgen_range_ctor rg (st, pkt))) = step_size (r_pkt_size rg) (pk_size pkt)"
    "eth_src_addr (snd (pktgen_range_ctor rg (st, pkt))) = step_mac (r_src_mac rg) (eth_src_addr pkt)"
    "eth_dst_addr (snd (pktgen_range_ctor rg (st, pkt))) = step_mac (r_dst_mac rg) (eth_dst_addr pkt)"
    "pk_vlanid (snd (pktgen_range_ctor rg (st, pkt))) = fst (step_vlan (r_vlan_id rg) (min_vlan_set st) (pk_vlanid pkt))"
    "pk_cos (snd (pktgen_range_ctor rg (st, pkt))) = fst (step_u8 MIN_COS (r_cos rg) (min_cos_set st) (pk_cos pkt))"
    "pk_tos (snd (pktgen_range_ctor rg (st, pkt))) = fst (step_u8 MIN_TOS (r_tos rg) (min_tos_set st) (pk_tos pkt))"
    "pk_tcp_seq (snd (pktgen_range_ctor rg (st, pkt))) = pk_tcp_seq (tcp_stage rg pkt)"
    "pk_tcp_ack (snd (pktgen_range_ctor rg (st, pkt))) = pk_tcp_ack (tcp_stage rg pkt)"
    "ip_addr (ip_src_addr (snd (pktgen_range_ctor rg (st, pkt)))) = step_ipv4 (r_src_ip rg) (ip_addr (ip_src_addr pkt))"
    "ip_addr (ip_dst_addr (snd (pktgen_range_ctor rg (st, pkt)))) = step_ipv4 (r_dst_ip rg) (ip_addr (ip_dst_addr pkt))"
    "pk_gtpu_teid (snd (pktgen_range_ctor rg (st, pkt))) = pk_gtpu_teid (range_gtpu rg pkt)"
    "pk_group_id (snd (pktgen_range_ctor rg (st, pkt))) = pk_group_id (range_vxlan rg pkt)"
    "pk_vxlan_id (snd (pktgen_range_ctor rg (st, pkt))) = pk_vxlan_id (range_vxlan rg pkt)"
  unfolding ctor4 [OF assms]
  by (simp_all add: range_ports4_def range_ttl_def range_size_mac4_def range_addrs4_def range_gtpu_def range_vxlan_def range_tcp_def Let_def)

lemma gtpu_obeys: "pk_dport pkt = PG_IPPROTO_L4_GTPU_PORT \<Longrightarrow> obeys (r_gtpu_teid rg) (pk_gtpu_teid (range_gtpu rg pkt))"
  using obeys_wide [of "r_gtpu_teid rg"] by (simp add: range_gtpu_def Let_def)

lemma vxlan_obeys: "sp_inc (r_vxlan_vid rg) = 0 \<Longrightarrow> group_obeys (r_vxlan_gid rg) (pk_group_id (range_vxlan rg pkt))"
proof -
  assume "sp_inc (r_vxlan_vid rg) = 0"
  let ?g = "r_vxlan_gid rg"
  let ?v = "step_else (ucast (pk_group_id pkt)) (sp_inc ?g) (sp_min ?g) (sp_max ?g)"
  have narrow: "ucast (ucast w :: u16) = w" if "w \<le> m" "m < 0x10000" for w m :: u32
  proof -
    have "unat w < 2 ^ 16" using that by (simp add: word_le_nat_alt word_less_nat_alt)
    then have "unat (ucast w :: u16) = unat w" by (simp add: unsigned_ucast_eq take_bit_nat_eq_self)
    moreover have "unat (ucast (ucast w :: u16) :: u32) = unat (ucast w :: u16)" by (rule unat_ucast_up) simp
    ultimately have "unat (ucast (ucast w :: u16) :: u32) = unat w" by (rule trans [rotated])
    then show ?thesis by (rule word_unat_eq_iff [THEN iffD2])
  qed
  have "in_span ?g (ucast (ucast ?v :: u16))" if "sp_min ?g \<le> sp_max ?g" "sp_max ?g < 0x10000"
  proof -
    have b: "sp_min ?g \<le> ?v \<and> ?v \<le> sp_max ?g" using step_else_bounds [OF that(1)] .
    then have "ucast (ucast ?v :: u16) = ?v" using that(2) narrow by blast
    then show ?thesis using b by (simp only: in_span_def)
  qed
  then show ?thesis using \<open>sp_inc (r_vxlan_vid rg) = 0\<close> by (simp add: group_obeys_def range_vxlan_def Let_def)
qed

lemma range_in_bounds4:
  assumes "ethType pkt = RTE_ETHER_TYPE_IPV4" and "l4_pkt pkt"
  shows "in_ranges4 rg pkt (snd (pktgen_range_ctor rg (st, pkt)))"
proof -
  have "in_ranges rg (snd (pktgen_range_ctor rg (st, pkt)))"
    using tcp_stage_in [of pkt]
    unfolding in_ranges_def ctor4_fields [OF assms] ctor_keeps_type
    by (simp add: range_ports4_def range_ttl_def Let_def span_rules del: if_split)
  moreover have "pk_gtpu_teid (range_gtpu rg pkt) = pk_gtpu_teid pkt" if "pk_dport pkt \<noteq> PG_IPPROTO_L4_GTPU_PORT"
    using that by (simp add: range_gtpu_def)
  moreover have "pk_vxlan_id (range_vxlan rg pkt) = (if sp_inc (r_vxlan_vid rg) = 0 then sp_start (r_vxlan_vid rg) else pk_vxlan_id pkt)"
    by (simp add: range_vxlan_def Let_def)
  ultimately show ?thesis
    unfolding in_ranges4_def ctor4_fields [OF assms] using gtpu_obeys vxlan_obeys by (simp add: span_rules)
qed

lemma ctor6_fields:
  assumes "ethType pkt = RTE_ETHER_TYPE_IPV6" and "l4_pkt pkt"
  shows "pk_sport (snd (pktgen_range_ctor rg (st, pkt))) = pk_sport (range_ports6 rg pkt)"
    "pk_dport (snd (pktgen_range_ctor rg (st, pkt))) = pk_dport (range_ports6 rg pkt)"
    "pk_ttl (snd (pktgen_range_ctor rg (st, pkt))) = pk_ttl (range_ports6 rg pkt)"
    "pk_size (snd (pktgen_range_ctor rg (st, pkt))) = step_size (r_pkt_size rg) (pk_size pkt)"
    "eth_src_addr (snd (pktgen_range_ctor rg (st, pkt))) = step_mac (r_src_mac rg) (eth_src_addr pkt)"
    "eth_dst_addr (snd (pktgen_range_ctor rg (st, pkt))) = step_mac (r_dst_mac rg) (eth_dst_addr pkt)"
    "pk_vlanid (snd (pktgen_range_ctor rg (st, pkt))) = fst (step_vlan (r_vlan_id rg) (min_vlan_set6 st) (pk_vlanid pkt))"
    "pk_cos (snd (pktgen_range_ctor rg (st, pkt))) = fst (step_u8 MIN_COS (r_cos rg) (min_cos_set6 st) (pk_cos pkt))"
    "pk_tos (snd (pktgen_range_ctor rg (st, pkt))) = fst (step_u8 MIN_TOS (r_tos rg) (min_traffic_class_set st) (pk_tos pkt))"
    "pk_tcp_seq (snd (pktgen_range_ctor rg (st, pkt))) = pk_tcp_seq (tcp_stage rg pkt)"
    "pk_tcp_ack (snd (pktgen_range_ctor rg (st, pkt))) = pk_tcp_ack (tcp_stage rg pkt)"
    "ip_addr (ip_src_addr (snd (pktgen_range_ctor rg (st, pkt)))) = step_ipv6 (r_src_ip rg) (ip_addr (ip_src_addr pkt))"
    "ip_addr (ip_dst_addr (snd (pktgen_range_ctor rg (st, pkt)))) = step_ipv6 (r_dst_ip rg) (ip_addr (ip_dst_addr pkt))"
  unfolding ctor6 [OF assms]
  by (simp_all add: range_ports6_def range_size_mac6_def range_addrs6_def Let_def)

lemma range_in_bounds6:
  assumes "ethType pkt = RTE_ETHER_TYPE_IPV6" and "l4_pkt pkt" and "span6 (r_src_ip rg)" "span6 (r_dst_ip rg)"
    and "length (ip_addr (ip_src_addr pkt)) = 16" "length (ip_addr (ip_dst_addr pkt)) = 16"
  shows "in_ranges6 rg (snd (pktgen_range_ctor rg (st, pkt)))"
  using tcp_stage_in [of pkt] assms(3-6)
  unfolding in_ranges6_def in_ranges_def ctor6_fields [OF assms(1,2)] ctor_keeps_type
  by (simp add: range_ports6_def Let_def span_rules del: if_split)

text \<open>
  C21 Range mode obeys the ranges: one step leaves every field of a TCP or UDP packet that it steps at the start of its
  range, when that has no increment, and between its limits, when it has one and the limits are in order; every field by
  itself, whatever the packet held before and however the addition wraps around: the ports, the VLAN id, the priority and
  type of service, the packet size, the time to live, the MAC addresses as numbers, the TCP numbers of a TCP packet, the
  IPv4 or IPv6 addresses, and for IPv4 the tunnel identifier of GTP-U when the packet before went to the GTP-U port and the
  group and network identifier of VXLAN. The exception is a VXLAN network identifier with an increment: it is not stepped,
  and its steps overwrite the group identifier, for which the theorem then says nothing.
\<close>

theorem range_stays_in_bounds:
  assumes "l4_pkt pkt" and "(st', pkt') = pktgen_range_ctor rg (st, pkt)"
  shows "(ethType pkt = RTE_ETHER_TYPE_IPV4 \<longrightarrow> in_ranges4 rg pkt pkt')
    \<and> (ethType pkt = RTE_ETHER_TYPE_IPV6 \<and> span6 (r_src_ip rg) \<and> span6 (r_dst_ip rg)
        \<and> length (ip_addr (ip_src_addr pkt)) = 16 \<and> length (ip_addr (ip_dst_addr pkt)) = 16 \<longrightarrow> in_ranges6 rg pkt')"
proof -
  have p: "pkt' = snd (pktgen_range_ctor rg (st, pkt))" using assms(2) by (metis snd_conv)
  show ?thesis unfolding p using range_in_bounds4 [OF _ assms(1)] range_in_bounds6 [OF _ assms(1)] by blast
qed

text \<open>A packet and ranges to try the step on.\<close>

definition sample_ip :: "u8 list \<Rightarrow> cmdline_ipaddr" where
  "sample_ip a = \<lparr>ip_family = 0, ip_addr = a, ip_prefixlen = 0\<rparr>"

definition sample_pkt :: pkt_seq where
  "sample_pkt = \<lparr>eth_dst_addr = replicate 6 0, eth_src_addr = replicate 6 0,
     ip_src_addr = sample_ip (replicate 16 0), ip_dst_addr = sample_ip (replicate 16 0), ip_mask = 0,
     pk_sport = 10, pk_dport = 5678, ethType = 0x0800, ipProto = 17, pk_vlanid = 1, pk_cos = 0, pk_tos = 0,
     ether_hdr_size = 14, pk_tcp_seq = 0, pk_tcp_ack = 0, pk_tcp_flags = 0, pk_mpls_entry = 0, qinq_outerid = 0,
     qinq_innerid = 0, pk_gre_key = 0, pk_size = 60, seq_enabled = 0, pk_ttl = 64, pk_gtpu_teid = 0,
     pk_vni_flags = 0, pk_group_id = 0, pk_vxlan_id = 0, pk_ol_flags = 0\<rparr>"

definition fixed :: "'v \<Rightarrow> 'i \<Rightarrow> ('v, 'i) span" where
  "fixed v z = \<lparr>sp_start = v, sp_min = v, sp_max = v, sp_inc = z\<rparr>"

definition sample_range :: range_info where
  "sample_range = \<lparr>r_src_ip = fixed (replicate 16 0) (replicate 16 0), r_dst_ip = fixed (replicate 16 0) (replicate 16 0),
     r_src_port = \<lparr>sp_start = 10, sp_min = 10, sp_max = 20, sp_inc = 3\<rparr>, r_dst_port = fixed 5678 0,
     r_vlan_id = \<lparr>sp_start = 1, sp_min = 1, sp_max = 4095, sp_inc = 1\<rparr>, r_tcp_seq = fixed 0 0, r_tcp_ack = fixed 0 0,
     r_tos = fixed 0 0, r_cos = fixed 0 0, r_pkt_size = fixed 60 0, r_src_mac = \<lparr>sp_start = 0x020304050607, sp_min = 0, sp_max = 0, sp_inc = 0\<rparr>, r_dst_mac = fixed 0 0,
     r_ttl = fixed 64 0, r_ip_proto = 17, r_tcp_flags = 0, r_gtpu_teid = fixed 0 0, r_vxlan_gid = fixed 0 0,
     r_vxlan_vid = fixed 7 1, r_vni_flags = 0\<rparr>"

lemma sample_ok: "l4_pkt sample_pkt" "ethType sample_pkt = RTE_ETHER_TYPE_IPV4"
  by (simp_all add: sample_pkt_def pkt_consts)

text \<open>The limits of the MAC addresses are zero and their start is not, as the setup of the ranges leaves them.\<close>

theorem range_stays_in_bounds_witness:
  "in_ranges4 sample_range sample_pkt (snd (pktgen_range_ctor sample_range
     (\<lparr>min_vlan_set = False, min_cos_set = False, min_tos_set = False, min_vlan_set6 = False,
       min_cos_set6 = False, min_traffic_class_set = False\<rparr>, sample_pkt)))"
  using range_stays_in_bounds [OF sample_ok(1) prod.collapse] sample_ok(2) by blast

subsection \<open>The sequence of values\<close>

text \<open>Iterated, a step by \<open>d\<close> that does not overflow runs through \<open>lo\<close>, \<open>lo + d\<close>, ... and starts again.\<close>

lemma sweep_nat:
  fixes lo hi d :: nat
  assumes "lo \<le> hi" and "0 < d"
  shows "((\<lambda>x. if x + d > hi then lo else x + d) ^^ n) lo = lo + d * (n mod ((hi - lo) div d + 1))"
proof (induction n)
  case (Suc n)
  let ?k = "(hi - lo) div d + 1"
  let ?m = "n mod ?k"
  have over: "lo + d * ?m + d > hi \<longleftrightarrow> ?k \<le> Suc ?m"
  proof -
    have "lo + d * ?m + d > hi \<longleftrightarrow> hi - lo < d * Suc ?m" using assms(1) by auto
    also have "\<dots> \<longleftrightarrow> (hi - lo) div d < Suc ?m" using assms(2) by (simp add: div_less_iff_less_mult mult.commute)
    finally show ?thesis by auto
  qed
  have "?m < ?k" by simp
  then consider "Suc ?m = ?k" | "Suc ?m < ?k" by linarith
  then show ?case
  proof cases
    case 1
    with over Suc show ?thesis by (simp add: mod_Suc)
  next
    case 2
    with over have "\<not> lo + d * ?m + d > hi" by simp
    with 2 Suc show ?thesis by (simp add: mod_Suc)
  qed
qed simp

text \<open>The step of a 16-bit port computed in 32 bits, by its value.\<close>

lemma port_step_nat:
  fixes sp :: "(u16, u16) span" and v :: u16
  assumes "in_span sp v" and "sp_inc sp \<noteq> 0"
  shows "unat (if sp_inc sp \<noteq> 0 then ucast (step_ifs (ucast v :: u32) (ucast (sp_inc sp)) (ucast (sp_min sp)) (ucast (sp_max sp)))
      else sp_start sp)
    = (if unat v + unat (sp_inc sp) > unat (sp_max sp) then unat (sp_min sp) else unat v + unat (sp_inc sp))"
proof -
  let ?up = "ucast :: u16 \<Rightarrow> u32"
  have u: "unat (?up x) = unat x" for x by (rule unat_ucast_up) simp
  have l: "unat x < 65536" for x :: u16 using unsigned_less [where ?'a = nat, of x] by simp
  have s: "unat (?up v + ?up (sp_inc sp)) = unat v + unat (sp_inc sp)"
    using l [of v] l [of "sp_inc sp"] by (subst unat_add_no_wrap) (simp_all add: u)
  have d: "unat (ucast x :: u16) = unat x" if "unat x < 65536" for x :: u32
    using that by (simp add: unsigned_ucast_eq take_bit_nat_eq_self)
  have "unat (sp_min sp) \<le> unat v" using assms(1) by (simp add: in_span_def word_le_nat_alt)
  then have ge: "\<not> ?up v + ?up (sp_inc sp) < ?up (sp_min sp)" by (simp add: word_less_nat_alt u s)
  show ?thesis
  proof (cases "unat v + unat (sp_inc sp) > unat (sp_max sp)")
    case True
    then have "?up v + ?up (sp_inc sp) > ?up (sp_max sp)" by (simp add: word_less_nat_alt u s)
    then show ?thesis using ge True assms(2) d [of "?up (sp_min sp)"] l [of "sp_min sp"]
      by (simp add: step_ifs_def Let_def u)
  next
    case False
    then have n: "\<not> ?up v + ?up (sp_inc sp) > ?up (sp_max sp)" by (simp add: word_less_nat_alt u s)
    have "unat (?up v + ?up (sp_inc sp)) < 65536" using False l [of "sp_max sp"] by (simp add: s)
    from d [OF this] show ?thesis using ge n False assms(2) by (simp add: step_ifs_def Let_def s)
  qed
qed

lemma steps_keep_type:
  "ethType (snd ((pktgen_range_ctor rg ^^ n) (st, pkt))) = ethType pkt
   \<and> ipProto (snd ((pktgen_range_ctor rg ^^ n) (st, pkt))) = ipProto pkt"
proof (induction n)
  case (Suc n)
  then show ?case by (cases "(pktgen_range_ctor rg ^^ n) (st, pkt)") simp
qed simp

lemma port_sweep:
  fixes get :: "pkt_seq \<Rightarrow> u16" and sp :: "(u16, u16) span"
  assumes "sp_min sp \<le> sp_max sp" and "sp_inc sp \<noteq> 0" and "get pkt = sp_min sp"
    and step: "\<And>st p. ethType p = ethType pkt \<Longrightarrow> ipProto p = ipProto pkt \<Longrightarrow>
      get (snd (pktgen_range_ctor rg (st, p))) = (if sp_inc sp \<noteq> 0
        then ucast (step_ifs (ucast (get p) :: u32) (ucast (sp_inc sp)) (ucast (sp_min sp)) (ucast (sp_max sp)))
        else sp_start sp)"
  shows "unat (get (snd ((pktgen_range_ctor rg ^^ n) (st, pkt)))) = unat (sp_min sp)
    + unat (sp_inc sp) * (n mod ((unat (sp_max sp) - unat (sp_min sp)) div unat (sp_inc sp) + 1))"
proof -
  let ?g = "\<lambda>x. if x + unat (sp_inc sp) > unat (sp_max sp) then unat (sp_min sp) else x + unat (sp_inc sp)"
  have "in_span sp (get (snd ((pktgen_range_ctor rg ^^ n) (st, pkt))))
    \<and> unat (get (snd ((pktgen_range_ctor rg ^^ n) (st, pkt)))) = (?g ^^ n) (unat (sp_min sp))"
  proof (induction n)
    case 0
    then show ?case using assms(1,3) by (simp add: in_span_def)
  next
    case (Suc n)
    obtain st1 p1 where 1: "(pktgen_range_ctor rg ^^ n) (st, pkt) = (st1, p1)" by (cases "(pktgen_range_ctor rg ^^ n) (st, pkt)")
    have t: "ethType p1 = ethType pkt" "ipProto p1 = ipProto pkt" using steps_keep_type [of n rg st pkt] 1 by simp_all
    have ih: "in_span sp (get p1)" "unat (get p1) = (?g ^^ n) (unat (sp_min sp))" using Suc 1 by simp_all
    have "in_span sp (get (snd (pktgen_range_ctor rg (st1, p1))))"
      unfolding step [OF t] using assms(1,2) step_narrow [where 'a = 16 and 'b = 32, of "sp_min sp" "sp_max sp"]
      by (simp add: in_span_def step_ifs_else)
    moreover have "unat (get (snd (pktgen_range_ctor rg (st1, p1)))) = ?g (unat (get p1))"
      unfolding step [OF t] by (rule port_step_nat [OF ih(1) assms(2)])
    ultimately show ?case using 1 ih(2) by simp
  qed
  moreover have "0 < unat (sp_inc sp)" using assms(2) by (simp add: unat_gt_0)
  ultimately show ?thesis
    using sweep_nat [of "unat (sp_min sp)" "unat (sp_max sp)" "unat (sp_inc sp)" n] assms(1)
    by (simp add: word_le_nat_alt)
qed

text \<open>
  The sweep of the ports: from the minimum, the source and the destination port of an IPv4 packet
  run through the minimum, the minimum plus the increment, and so on up to the maximum, and then start
  again, for any number of packets; the period is \<open>(max - min) div inc + 1\<close>.
\<close>

lemma range_port_sweep:
  assumes "ethType pkt = RTE_ETHER_TYPE_IPV4" and "l4_pkt pkt"
    and "span_ok (r_src_port rg)" and "sp_inc (r_src_port rg) \<noteq> 0" and "pk_sport pkt = sp_min (r_src_port rg)"
    and "span_ok (r_dst_port rg)" and "sp_inc (r_dst_port rg) \<noteq> 0" and "pk_dport pkt = sp_min (r_dst_port rg)"
  shows "unat (pk_sport (snd ((pktgen_range_ctor rg ^^ n) (st, pkt)))) = unat (sp_min (r_src_port rg))
      + unat (sp_inc (r_src_port rg)) * (n mod ((unat (sp_max (r_src_port rg)) - unat (sp_min (r_src_port rg)))
          div unat (sp_inc (r_src_port rg)) + 1))
    \<and> unat (pk_dport (snd ((pktgen_range_ctor rg ^^ n) (st, pkt)))) = unat (sp_min (r_dst_port rg))
      + unat (sp_inc (r_dst_port rg)) * (n mod ((unat (sp_max (r_dst_port rg)) - unat (sp_min (r_dst_port rg)))
          div unat (sp_inc (r_dst_port rg)) + 1))"
proof (intro conjI port_sweep assms(4,5,7,8))
  show "sp_min (r_src_port rg) \<le> sp_max (r_src_port rg)" "sp_min (r_dst_port rg) \<le> sp_max (r_dst_port rg)"
    using assms(3,6) by (simp_all add: in_span_le)
qed (use assms(1,2) in \<open>simp_all add: ctor4_fields(1,2) range_ports4_def Let_def\<close>)

lemma range_port_sweep_example:
  "unat (pk_sport (snd ((pktgen_range_ctor (sample_range\<lparr>r_dst_port := \<lparr>sp_start = 5678, sp_min = 5678, sp_max = 5679, sp_inc = 1\<rparr>\<rparr>) ^^ 1000)
     (\<lparr>min_vlan_set = False, min_cos_set = False, min_tos_set = False, min_vlan_set6 = False,
       min_cos_set6 = False, min_traffic_class_set = False\<rparr>, sample_pkt)))) = 10"
  using range_port_sweep [of sample_pkt "sample_range\<lparr>r_dst_port := \<lparr>sp_start = 5678, sp_min = 5678, sp_max = 5679, sp_inc = 1\<rparr>\<rparr>" 1000
    "\<lparr>min_vlan_set = False, min_cos_set = False, min_tos_set = False, min_vlan_set6 = False,
       min_cos_set6 = False, min_traffic_class_set = False\<rparr>"]
  by (simp add: sample_pkt_def sample_range_def in_span_def pkt_consts)

text \<open>
  The VXLAN network identifier never moves: with an increment for it, the step leaves the identifier of
  an IPv4 packet as it was, and puts a value stepped by the increment of the group id into the group id instead.
\<close>

lemma vxlan_vid_lost:
  assumes "ethType pkt = RTE_ETHER_TYPE_IPV4" and "l4_pkt pkt" and "sp_inc (r_vxlan_vid rg) \<noteq> 0"
  shows "pk_vxlan_id (snd ((pktgen_range_ctor rg ^^ n) (st, pkt))) = pk_vxlan_id pkt
    \<and> (0 < n \<longrightarrow> pk_group_id (snd ((pktgen_range_ctor rg ^^ n) (st, pkt)))
          = ucast (step_else (pk_vxlan_id pkt) (sp_inc (r_vxlan_gid rg)) (sp_min (r_vxlan_vid rg)) (sp_max (r_vxlan_vid rg))))"
proof (induction n)
  case (Suc n)
  obtain st1 p1 where 1: "(pktgen_range_ctor rg ^^ n) (st, pkt) = (st1, p1)" by (cases "(pktgen_range_ctor rg ^^ n) (st, pkt)")
  have t: "ethType p1 = RTE_ETHER_TYPE_IPV4" "l4_pkt p1" using steps_keep_type [of n rg st pkt] 1 assms by simp_all
  show ?case using Suc 1 assms(3) by (simp add: ctor4 [OF t] range_vxlan_def Let_def)
qed simp

lemma vxlan_vid_lost_example:
  "pk_vxlan_id (snd ((pktgen_range_ctor sample_range ^^ 50)
     (\<lparr>min_vlan_set = False, min_cos_set = False, min_tos_set = False, min_vlan_set6 = False,
       min_cos_set6 = False, min_traffic_class_set = False\<rparr>, sample_pkt))) = 0"
  using vxlan_vid_lost [of sample_pkt sample_range 50]
  by (simp add: sample_ok fixed_def) (simp add: sample_pkt_def sample_range_def fixed_def pkt_consts)

end
