(* ===== verification/NetCksum.thy ===== *)
theory NetCksum
  imports Inet
begin

text \<open>
  The Internet checksum as DPDK computes it (\<open>lib/net/rte_cksum.h\<close>, \<open>rte_ip4.h\<close>, \<open>rte_ip6.h\<close>) over a
  packet that is a list of bytes. A header is given by its offset; reading behind the end of the
  buffer is the result \<open>None\<close>. The lemmas reduce the checksums to sums modulo 65535.
\<close>

subsection \<open>Bytes of a packet\<close>

definition htonl :: "u32 \<Rightarrow> u32" where "htonl x = ntohl x"
definition htons :: "u16 \<Rightarrow> u16" where "htons x = ntohs x"

definition be16 :: "u16 \<Rightarrow> u8 list" where "be16 x = put_le16 (htons x)"
definition be32 :: "u32 \<Rightarrow> u8 list" where "be32 x = put_le32 (htonl x)"

definition rd8 :: "nat \<Rightarrow> u8 list \<Rightarrow> u8" where "rd8 i m = m ! i"
definition rd_be16 :: "nat \<Rightarrow> u8 list \<Rightarrow> u16" where "rd_be16 i m = ntohs (get_le16 (drop i m))"
definition rd_be32 :: "nat \<Rightarrow> u8 list \<Rightarrow> u32" where "rd_be32 i m = ntohl (get_le32 (drop i m))"

text \<open>Bytes stored at an offset.\<close>

definition wr :: "nat \<Rightarrow> u8 list \<Rightarrow> u8 list \<Rightarrow> u8 list" where
  "wr i bs m = take i m @ bs @ drop (i + length bs) m"

lemma length_wr [simp]: "i + length bs \<le> length m \<Longrightarrow> length (wr i bs m) = length m"
  by (simp add: wr_def)

lemma length_be [simp]: "length (be16 x) = 2" "length (be32 y) = 4"
  by (simp_all add: be16_def be32_def bytes_simps)

lemma wr_append2: "length xs \<le> i \<Longrightarrow> wr i bs (xs @ ys) = xs @ wr (i - length xs) bs ys"
  by (simp add: wr_def)

lemma wr_append1: "i + length bs \<le> length xs \<Longrightarrow> wr i bs (xs @ ys) = wr i bs xs @ ys"
  by (simp add: wr_def)

lemma wr_0: "wr 0 bs m = bs @ drop (length bs) m"
  by (simp add: wr_def)

lemma get_le16_take: "get_le16 (xs @ ys) = get_le16 xs" if "2 \<le> length xs"
  using that by (cases xs rule: get_le16.cases) auto

lemma get_put_le16' [simp]: "get_le16 (put_le16 x) = x"
  using get_put_le16 [of x "[]"] by simp

lemma get_put_le32' [simp]: "get_le32 (put_le32 x) = x"
  using get_put_le32 [of x "[]"] by simp

lemma rd_be16_be16 [simp]: "rd_be16 0 (be16 x @ ys) = x"
  by (simp add: rd_be16_def be16_def htons_def bytes_simps)

lemma rd_be32_be32 [simp]: "rd_be32 0 (be32 x @ ys) = x"
  by (simp add: rd_be32_def be32_def htonl_def bytes_simps)

subsection \<open>\<open>rte_cksum.h\<close>\<close>

fun raw_cksum_sum :: "u8 list \<Rightarrow> u32 \<Rightarrow> u32" where
  "raw_cksum_sum (a # b # bs) s = raw_cksum_sum bs (s + ucast (get_le16 [a, b]))"
| "raw_cksum_sum [a] s = s + ucast (get_le16 [a, 0])"
| "raw_cksum_sum [] s = s"

definition fold16 :: "u32 \<Rightarrow> u32" where
  "fold16 s = drop_bit 16 (s AND 0xffff0000) + (s AND 0xffff)"

definition raw_cksum_reduce :: "u32 \<Rightarrow> u16" where
  "raw_cksum_reduce s = ucast (fold16 (fold16 s))"

definition rte_raw_cksum :: "u8 list \<Rightarrow> u16" where
  "rte_raw_cksum bs = raw_cksum_reduce (raw_cksum_sum bs 0)"

definition raw_cksum_at :: "nat \<Rightarrow> nat \<Rightarrow> u8 list \<Rightarrow> u16 option" where
  "raw_cksum_at i n m = (if i + n \<le> length m then Some (rte_raw_cksum (take n (drop i m))) else None)"

subsection \<open>\<open>rte_ip4.h\<close>\<close>

definition rte_ipv4_hdr_len :: "nat \<Rightarrow> u8 list \<Rightarrow> nat" where
  "rte_ipv4_hdr_len ip m = unat ((rd8 ip m AND 0x0f) * 4)"

definition rte_ipv4_cksum :: "nat \<Rightarrow> u8 list \<Rightarrow> u16 option" where
  "rte_ipv4_cksum ip m = map_option NOT (raw_cksum_at ip (rte_ipv4_hdr_len ip m) m)"

text \<open>The pseudo header; the segmentation flags of the second argument are never given.\<close>

definition ipv4_psd_header :: "nat \<Rightarrow> u8 list \<Rightarrow> u8 list" where
  "ipv4_psd_header ip m =
     take 4 (drop (ip + 12) m) @ take 4 (drop (ip + 16) m) @ [0, rd8 (ip + 9) m]
     @ be16 (rd_be16 (ip + 2) m - of_nat (rte_ipv4_hdr_len ip m))"

definition rte_ipv4_phdr_cksum :: "nat \<Rightarrow> u8 list \<Rightarrow> u16" where
  "rte_ipv4_phdr_cksum ip m = rte_raw_cksum (ipv4_psd_header ip m)"

definition ipv4_udptcp_cksum :: "nat \<Rightarrow> nat \<Rightarrow> u8 list \<Rightarrow> u16 option" where
  "ipv4_udptcp_cksum ip l4 m =
     (let hlen = rte_ipv4_hdr_len ip m; l3_len = unat (rd_be16 (ip + 2) m) in
      if l3_len < hlen then Some 0
      else map_option (\<lambda>c. ucast (fold16 (ucast c + ucast (rte_ipv4_phdr_cksum ip m)))) (raw_cksum_at l4 (l3_len - hlen) m))"

definition rte_ipv4_udptcp_cksum :: "nat \<Rightarrow> nat \<Rightarrow> u8 list \<Rightarrow> u16 option" where
  "rte_ipv4_udptcp_cksum ip l4 m =
     map_option (\<lambda>c. if NOT c = 0 \<and> rd8 (ip + 9) m = 17 then 0xffff else NOT c) (ipv4_udptcp_cksum ip l4 m)"

definition rte_ipv4_udptcp_cksum_verify :: "nat \<Rightarrow> nat \<Rightarrow> u8 list \<Rightarrow> int option" where
  "rte_ipv4_udptcp_cksum_verify ip l4 m = map_option (\<lambda>c. if c \<noteq> 0xffff then -1 else 0) (ipv4_udptcp_cksum ip l4 m)"

subsection \<open>\<open>rte_ip6.h\<close>\<close>

definition rte_ipv6_phdr_cksum :: "nat \<Rightarrow> u8 list \<Rightarrow> u16" where
  "rte_ipv6_phdr_cksum ip m =
     (let s = raw_cksum_sum (take 32 (drop (ip + 8) m)) 0
      in raw_cksum_reduce (raw_cksum_sum (take 2 (drop (ip + 4) m) @ [0, 0, 0, 0, 0, rd8 (ip + 6) m]) s))"

definition ipv6_udptcp_cksum :: "nat \<Rightarrow> nat \<Rightarrow> u8 list \<Rightarrow> u16 option" where
  "ipv6_udptcp_cksum ip l4 m =
     map_option (\<lambda>c. ucast (fold16 (ucast c + ucast (rte_ipv6_phdr_cksum ip m))))
       (raw_cksum_at l4 (unat (rd_be16 (ip + 4) m)) m)"

definition rte_ipv6_udptcp_cksum :: "nat \<Rightarrow> nat \<Rightarrow> u8 list \<Rightarrow> u16 option" where
  "rte_ipv6_udptcp_cksum ip l4 m =
     map_option (\<lambda>c. if NOT c = 0 \<and> rd8 (ip + 6) m = 17 then 0xffff else NOT c) (ipv6_udptcp_cksum ip l4 m)"

subsection \<open>Checksums are sums modulo 65535\<close>

fun osum :: "u8 list \<Rightarrow> nat" where
  "osum (a # b # bs) = unat a + 256 * unat b + osum bs"
| "osum [a] = unat a"
| "osum [] = 0"

lemma unat_get_le16: "unat (get_le16 [a, b]) = unat a + 256 * unat b"
proof -
  have "(ucast a :: u16) AND push_bit 8 (ucast b) = 0"
    by (rule bit_word_eqI) (auto simp: bit_simps)
  then have "get_le16 [a, b] = (ucast a :: u16) + push_bit 8 (ucast b)"
    by (simp add: disjunctive_add_eq_or)
  moreover have "unat (push_bit 8 (ucast b) :: u16) = 256 * unat b"
    using unat_u8_less [of b]
    by (subst unsigned_push_bit_eq) (simp add: unsigned_ucast_eq take_bit_nat_eq_self push_bit_eq_mult)
  moreover have "unat (ucast a :: u16) = unat a"
    using unat_u8_less [of a] by (simp add: unsigned_ucast_eq take_bit_nat_eq_self)
  ultimately show ?thesis
    using unat_u8_less [of a] unat_u8_less [of b] unat_add_no_wrap [of "ucast a :: u16" "push_bit 8 (ucast b)"] by simp
qed

lemma osum_le: "osum bs \<le> 65535 * ((length bs + 1) div 2)"
proof (induction bs rule: osum.induct)
  case (1 a b bs)
  then show ?case using unat_u8_less [of a] unat_u8_less [of b] by simp
next
  case (2 a)
  then show ?case using unat_u8_less [of a] by simp
qed simp

lemma osum_append: "even (length xs) \<Longrightarrow> osum (xs @ ys) = osum xs + osum ys"
  by (induction xs rule: osum.induct) auto

lemma osum_put_le16 [simp]: "osum (put_le16 c) = unat c"
  using unat_get_le16 [of "ucast c" "ucast (drop_bit 8 c)"] get_put_le16' [of c] by (simp add: put_le16_def)

lemma unat_raw_cksum_sum: "unat s + osum bs < 2 ^ 32 \<Longrightarrow> unat (raw_cksum_sum bs s) = unat s + osum bs"
proof (induction bs s rule: raw_cksum_sum.induct)
  case (1 a b bs s)
  have "unat (ucast (get_le16 [a, b]) :: u32) = unat a + 256 * unat b"
    using unat_get_le16 [of a b] unat_u8_less [of a] unat_u8_less [of b]
    by (subst unsigned_ucast_eq) (simp add: take_bit_nat_eq_self)
  then show ?case using 1 by (simp add: unat_add_no_wrap del: get_le16.simps)
next
  case (2 a s)
  have "unat (ucast (get_le16 [a, 0]) :: u32) = unat a"
    using unat_get_le16 [of a 0] unat_u8_less [of a]
    by (subst unsigned_ucast_eq) (simp add: take_bit_nat_eq_self)
  then show ?case using 2 by (simp add: unat_add_no_wrap del: get_le16.simps)
qed simp

lemma unat_fold16: "unat (fold16 s) = unat s div 65536 + unat s mod 65536"
proof -
  have "s AND 0xffff = take_bit 16 s" by (simp add: take_bit_eq_mask mask_eq_decr_exp)
  then have lo: "unat (s AND 0xffff) = unat s mod 65536"
    by (simp add: take_bit_eq_mod unat_mod)
  have q: "unat s div 65536 < 65536"
    by (rule less_mult_imp_div_less) (use unat_less_2p32 [of s] in simp)
  have "(drop_bit 16 0xffff0000 :: u32) = 0xffff"
    by (rule word_unat_eq_iff [THEN iffD2]) (simp add: unat_drop_bit_eq drop_bit_eq_div)
  then have "drop_bit 16 (s AND 0xffff0000) = take_bit 16 (drop_bit 16 s)"
    by (simp only: drop_bit_and) (simp add: take_bit_eq_mask mask_eq_decr_exp)
  then have hi: "unat (drop_bit 16 (s AND 0xffff0000)) = unat s div 65536"
    using q by (simp add: take_bit_eq_mod unat_mod unat_div drop_bit_eq_div)
  show ?thesis
    unfolding fold16_def using q hi lo by (subst unat_add_no_wrap) (simp_all add: add_less_mono)
qed

text \<open>One's complement: the value modulo 65535, zero only for zero.\<close>

lemma fold16_nat:
  fixes s :: nat
  shows "(s div 65536 + s mod 65536) mod 65535 = s mod 65535" and "s div 65536 + s mod 65536 = 0 \<longleftrightarrow> s = 0"
proof -
  have e: "65536 * (s div 65536) + s mod 65536 = s" by (rule mult_div_mod_eq)
  then have "s = 65535 * (s div 65536) + (s div 65536 + s mod 65536)" by linarith
  then show "(s div 65536 + s mod 65536) mod 65535 = s mod 65535" by (metis mod_mult_self4)
  show "s div 65536 + s mod 65536 = 0 \<longleftrightarrow> s = 0" using e by auto
qed

definition cong1 :: "nat \<Rightarrow> nat \<Rightarrow> bool" where
  "cong1 c s \<longleftrightarrow> c \<le> 65535 \<and> c mod 65535 = s mod 65535 \<and> (c = 0 \<longleftrightarrow> s = 0)"

lemma cong1_fold2:
  assumes "s \<le> 131070"
  shows "unat (ucast (fold16 (of_nat s)) :: u16) = s div 65536 + s mod 65536" and "cong1 (s div 65536 + s mod 65536) s"
proof -
  have le: "s div 65536 + s mod 65536 \<le> 65535"
  proof (cases "s < 65536")
    case False
    then have "s div 65536 = 1" "s mod 65536 = s - 65536" using assms by (simp_all add: mod_if div_if)
    then show ?thesis using assms by simp
  qed simp
  then show "cong1 (s div 65536 + s mod 65536) s" using fold16_nat [of s] by (simp add: cong1_def)
  have "unat (of_nat s :: u32) = s" using assms by (simp add: unat_of_nat_small)
  then show "unat (ucast (fold16 (of_nat s)) :: u16) = s div 65536 + s mod 65536"
    using le by (simp add: unat_fold16 unsigned_ucast_eq take_bit_nat_eq_self)
qed

lemma reduce_cong: "cong1 (unat (raw_cksum_reduce s)) (unat s)"
proof -
  have "unat s div 65536 < 65536"
    by (rule less_mult_imp_div_less) (use unat_less_2p32 [of s] in simp)
  moreover have "unat s mod 65536 \<le> 65535" using mod_less_divisor [of 65536 "unat s"] by linarith
  ultimately have "unat (fold16 s) \<le> 131070" unfolding unat_fold16 by linarith
  from cong1_fold2 [OF this] have r: "unat (raw_cksum_reduce s) = unat (fold16 s) div 65536 + unat (fold16 s) mod 65536"
    and c: "cong1 (unat (fold16 s) div 65536 + unat (fold16 s) mod 65536) (unat (fold16 s))"
    by (simp_all add: raw_cksum_reduce_def)
  have "unat (fold16 s) mod 65535 = unat s mod 65535" "unat (fold16 s) = 0 \<longleftrightarrow> unat s = 0"
    unfolding unat_fold16 by (rule fold16_nat)+
  then show ?thesis using c unfolding r cong1_def by metis
qed

lemma raw_cksum_cong:
  assumes "length bs < 65536"
  shows "cong1 (unat (rte_raw_cksum bs)) (osum bs)"
proof -
  have "(length bs + 1) div 2 \<le> 32768" using assms by simp
  then have "65535 * ((length bs + 1) div 2) \<le> 65535 * 32768" by (rule mult_le_mono2)
  then have "osum bs \<le> 65535 * 32768" using osum_le [of bs] by (rule order_trans [rotated])
  then show ?thesis
    using unat_raw_cksum_sum [of 0 bs] reduce_cong [of "raw_cksum_sum bs 0"] by (simp add: rte_raw_cksum_def)
qed

lemma unat_not_u16: "unat (NOT c) = 65535 - unat c" for c :: u16
proof -
  have "NOT c = 0xffff - c" by (simp add: not_eq_complement)
  moreover have "c \<le> 0xffff" using unsigned_less [where ?'a = nat, of c] by (simp add: word_le_nat_alt)
  ultimately show ?thesis using unat_sub [of c "0xffff"] by simp
qed


text \<open>A header whose checksum field, at an even offset, is the complement of the checksum with a zero field.\<close>

lemma cksum_field_valid:
  assumes "even (length xs)" and "length xs + length ys + 2 < 65536"
  shows "rte_raw_cksum (xs @ put_le16 (NOT (rte_raw_cksum (xs @ [0, 0] @ ys))) @ ys) = 0xffff"
proof -
  let ?r = "unat (rte_raw_cksum (xs @ [0, 0] @ ys))"
  let ?h = "xs @ put_le16 (NOT (rte_raw_cksum (xs @ [0, 0] @ ys))) @ ys"
  have r: "cong1 ?r (osum xs + osum ys)"
    using raw_cksum_cong [of "xs @ [0, 0] @ ys"] assms by (simp add: osum_append)
  have s: "osum ?h = osum xs + osum ys + (65535 - ?r)"
    using assms(1) by (simp add: osum_append bytes_simps unat_not_u16)
  have "(osum xs + osum ys + (65535 - ?r)) mod 65535 = (?r + (65535 - ?r)) mod 65535"
    using r by (intro mod_add_cong) (simp_all add: cong1_def)
  also have "\<dots> = 0" using r by (simp add: cong1_def)
  finally have z: "osum ?h mod 65535 = 0" by (simp only: s)
  have "osum ?h \<noteq> 0" using r unfolding s cong1_def by (cases "?r = 65535") auto
  moreover have "cong1 (unat (rte_raw_cksum ?h)) (osum ?h)"
    using assms(2) by (intro raw_cksum_cong) (simp add: bytes_simps)
  ultimately have "unat (rte_raw_cksum ?h) = 65535"
    using z by (auto simp: cong1_def elim!: dvdE simp flip: dvd_eq_mod_eq_0)
  then show ?thesis by (simp add: word_unat_eq_iff)
qed

text \<open>The sum of two checksums, folded once: the check of a segment together with its pseudo header.\<close>

lemma fold_two:
  fixes a b :: u16
  shows "unat (ucast (fold16 (ucast a + ucast b)) :: u16) = (unat a + unat b) div 65536 + (unat a + unat b) mod 65536"
    and "cong1 (unat (ucast (fold16 (ucast a + ucast b)) :: u16)) (unat a + unat b)"
proof -
  have ab: "unat a < 65536" "unat b < 65536"
    using unsigned_less [where ?'a = nat, of a] unsigned_less [where ?'a = nat, of b] by simp_all
  have "(ucast a + ucast b :: u32) = of_nat (unat a + unat b)" by simp
  then show 1: "unat (ucast (fold16 (ucast a + ucast b)) :: u16) = (unat a + unat b) div 65536 + (unat a + unat b) mod 65536"
    using cong1_fold2(1) [of "unat a + unat b"] ab by simp
  show "cong1 (unat (ucast (fold16 (ucast a + ucast b)) :: u16)) (unat a + unat b)"
    unfolding 1 by (rule cong1_fold2(2)) (use ab in simp)
qed

lemma cong1_add:
  assumes "cong1 a s" "cong1 b t"
  shows "(a + b) mod 65535 = (s + t) mod 65535" and "a + b = 0 \<longleftrightarrow> s + t = 0"
  using assms by (auto simp: cong1_def intro: mod_add_cong)

lemma segment_cksum_valid:
  assumes ev: "even (length xs)" and len: "length xs + length ys + 2 < 65536"
    and c: "c = NOT (ucast (fold16 (ucast (rte_raw_cksum (xs @ [0, 0] @ ys)) + ucast (rte_raw_cksum p))) :: u16)"
    and c': "c' = c \<or> c = 0 \<and> c' = 0xffff"
    and p: "length p < 65536" "0 < osum p"
  shows "ucast (fold16 (ucast (rte_raw_cksum (xs @ put_le16 c' @ ys)) + ucast (rte_raw_cksum p))) = (0xffff :: u16)"
proof -
  define s where "s = osum xs + osum ys + osum p"
  let ?f = "ucast (fold16 (ucast (rte_raw_cksum (xs @ [0, 0] @ ys)) + ucast (rte_raw_cksum p))) :: u16"
  let ?h = "xs @ put_le16 c' @ ys"
  have P: "cong1 (unat (rte_raw_cksum p)) (osum p)" by (rule raw_cksum_cong [OF p(1)])
  have "cong1 (unat (rte_raw_cksum (xs @ [0, 0] @ ys))) (osum xs + osum ys)"
    using raw_cksum_cong [of "xs @ [0, 0] @ ys"] ev len by (simp add: osum_append)
  from cong1_add [OF this P] fold_two(2) [of "rte_raw_cksum (xs @ [0, 0] @ ys)" "rte_raw_cksum p"]
  have f: "cong1 (unat ?f) s" by (simp add: cong1_def s_def)
  have cm: "(unat c' + unat ?f) mod 65535 = 0"
    using c c' f by (auto simp: unat_not_u16 cong1_def word_unat_eq_iff)
  have h: "osum ?h = osum xs + osum ys + unat c'" using ev by (simp add: osum_append bytes_simps)
  have H: "cong1 (unat (rte_raw_cksum ?h)) (osum ?h)"
    using len by (intro raw_cksum_cong) (simp add: bytes_simps)
  let ?g = "ucast (fold16 (ucast (rte_raw_cksum ?h) + ucast (rte_raw_cksum p))) :: u16"
  have g: "cong1 (unat ?g) (osum ?h + osum p)"
    using cong1_add [OF H P] fold_two(2) [of "rte_raw_cksum ?h" "rte_raw_cksum p"] by (simp add: cong1_def)
  have "(s + unat c') mod 65535 = (unat ?f + unat c') mod 65535"
    using f by (intro mod_add_cong) (simp_all add: cong1_def)
  then have "(osum ?h + osum p) mod 65535 = 0" using cm by (simp add: h s_def add_ac)
  then have "unat ?g = 65535"
    using g p(2) by (auto simp: cong1_def elim!: dvdE simp flip: dvd_eq_mod_eq_0)
  then show ?thesis by (simp add: word_unat_eq_iff)
qed

text \<open>Written without the complement, the checksum makes a header valid only when it is all ones.\<close>

lemma cksum_field_plain:
  assumes "even (length xs)" and "length xs + length ys + 2 < 65536" and r: "r = rte_raw_cksum (xs @ [0, 0] @ ys)"
  shows "rte_raw_cksum (xs @ put_le16 r @ ys) = 0xffff \<longleftrightarrow> r = 0xffff"
proof -
  have c: "cong1 (unat r) (osum xs + osum ys)"
    unfolding r using raw_cksum_cong [of "xs @ [0, 0] @ ys"] assms(1,2) by (simp add: osum_append)
  let ?h = "xs @ put_le16 r @ ys"
  have s: "osum ?h = osum xs + osum ys + unat r" using assms(1) by (simp add: osum_append bytes_simps)
  have h: "cong1 (unat (rte_raw_cksum ?h)) (osum ?h)" using assms(2) by (intro raw_cksum_cong) (simp add: bytes_simps)
  have "osum ?h mod 65535 = (unat r + unat r) mod 65535"
    unfolding s using c by (intro mod_add_cong) (simp_all add: cong1_def)
  then have m: "unat (rte_raw_cksum ?h) mod 65535 = (unat r + unat r) mod 65535" using h by (simp add: cong1_def)
  have le: "unat r \<le> 65535" using c by (simp add: cong1_def)
  have "unat (rte_raw_cksum ?h) = 65535 \<longleftrightarrow> unat r = 65535"
  proof
    assume v: "unat (rte_raw_cksum ?h) = 65535"
    then have "65535 dvd 2 * unat r" using m by (simp add: mod_eq_0_iff_dvd flip: mult_2)
    then have "65535 dvd unat r" by (subst (asm) coprime_dvd_mult_right_iff) simp_all
    then have "unat r = 0 \<or> unat r = 65535" using le by (auto elim!: dvdE)
    moreover have "unat r \<noteq> 0" using v h c s by (auto simp: cong1_def)
    ultimately show "unat r = 65535" by blast
  next
    assume v: "unat r = 65535"
    then have "unat (rte_raw_cksum ?h) mod 65535 = 0" using m by simp
    moreover have "unat (rte_raw_cksum ?h) \<noteq> 0" "unat (rte_raw_cksum ?h) \<le> 65535" using v h s by (simp_all add: cong1_def)
    ultimately show "unat (rte_raw_cksum ?h) = 65535" by (auto simp: mod_eq_0_iff_dvd elim!: dvdE)
  qed
  then show ?thesis by (simp add: word_unat_eq_iff)
qed

end
