(* ===== verification/PktBuild.thy ===== *)
theory PktBuild
  imports PortCfg NetCksum
begin

text \<open>
  The construction of packets: \<open>pktgen_packet_ctor\<close> of \<open>app/pktgen.c\<close> and the constructors of the
  headers it calls (\<open>app/pktgen-ether.c\<close>, \<open>pktgen-gre.c\<close>, \<open>pktgen-ipv4.c\<close>, \<open>pktgen-ipv6.c\<close>,
  \<open>pktgen-tcp.c\<close>, \<open>pktgen-udp.c\<close>, \<open>pktgen-gtpu.c\<close>). The memory of a packet, \<open>pkt->hdr\<close>, is a list of
  bytes, a header an offset into it. The fill at the start checks that the memory has the size
  \<open>pktsz\<close>, which all headers are within; the checksums check their own reads. The random numbers, the
  clock and the capabilities of the device are given.
\<close>

subsection \<open>Flags and constants\<close>

definition PROCESS_INPUT_PKTS :: u64 where "PROCESS_INPUT_PKTS = push_bit 4 1"
definition SEND_VLAN_ID :: u64 where "SEND_VLAN_ID = push_bit 17 1"
definition SEND_MPLS_LABEL :: u64 where "SEND_MPLS_LABEL = push_bit 18 1"
definition SEND_Q_IN_Q_IDS :: u64 where "SEND_Q_IN_Q_IDS = push_bit 19 1"
definition SEND_GRE_IPv4_HEADER :: u64 where "SEND_GRE_IPv4_HEADER = push_bit 20 1"
definition SEND_GRE_ETHER_HEADER :: u64 where "SEND_GRE_ETHER_HEADER = push_bit 21 1"
definition SEND_VXLAN_PACKETS :: u64 where "SEND_VXLAN_PACKETS = push_bit 22 1"
definition RANDOMIZE_SRC_IP :: u64 where "RANDOMIZE_SRC_IP = push_bit 32 1"
definition RANDOMIZE_SRC_PT :: u64 where "RANDOMIZE_SRC_PT = push_bit 33 1"

definition VXLAN_PORT_ID :: u16 where "VXLAN_PORT_ID = 4789"
definition DEFAULT_WND_SIZE :: u16 where "DEFAULT_WND_SIZE = 8192"
definition TSTAMP_MAGIC :: u32 where "TSTAMP_MAGIC = 0xf00dcafe"
definition RTE_ETHER_TYPE_VLAN :: u16 where "RTE_ETHER_TYPE_VLAN = 0x8100"
definition ETHER_TYPE_MPLS_UNICAST :: u16 where "ETHER_TYPE_MPLS_UNICAST = 0x8847"
definition ETHER_TYPE_Q_IN_Q :: u16 where "ETHER_TYPE_Q_IN_Q = 0x88A8"
definition ETHER_TYPE_TRANSP_ETH_BR :: u16 where "ETHER_TYPE_TRANSP_ETH_BR = 0x6558"
definition ICMP4_ECHO :: int where "ICMP4_ECHO = 8"
definition ICMP4_TIMESTAMP :: int where "ICMP4_TIMESTAMP = 13"
definition GTPu_VERSION :: u8 where "GTPu_VERSION = 0x20"
definition GTPu_PT_FLAG :: u8 where "GTPu_PT_FLAG = 0x10"
definition GTPu_E_FLAG :: u8 where "GTPu_E_FLAG = 0x04"
definition GTPu_S_FLAG :: u8 where "GTPu_S_FLAG = 0x02"
definition GTPu_PN_FLAG :: u8 where "GTPu_PN_FLAG = 0x01"

datatype fill_t = ZERO_FILL_PATTERN | ABC_FILL_PATTERN | USER_FILL_PATTERN | NO_FILL_PATTERN

text \<open>What a constructor finds: the settings of the port and the process, the device, clock and random numbers.\<close>

record build_env =
  be_fill :: fill_t
  be_user_pattern :: "u8 list"
  be_jumbo :: bool
  be_ipv4_offload :: bool
  be_tcp_offload :: bool
  be_udp_offload :: bool
  be_requires_phdr :: bool
  be_entropy :: u16
  be_time :: u64
  be_rnd_ip :: u32
  be_rnd_pt :: u32

text \<open>What it changes: the port with its templates, the memory of the packets and two counters.\<close>

record build =
  b_pinfo :: port_info
  b_hdr :: "u8 list list"
  b_ident :: u16
  b_next_index :: u32

definition set_hdr :: "nat \<Rightarrow> u8 list \<Rightarrow> build \<Rightarrow> build" where
  "set_hdr i m b = b\<lparr>b_hdr := (b_hdr b)[i := m]\<rparr>"

definition src_ipv4 :: "pkt_seq \<Rightarrow> u32" where "src_ipv4 pkt = ipv4_of (ip_addr (ip_src_addr pkt))"
definition dst_ipv4 :: "pkt_seq \<Rightarrow> u32" where "dst_ipv4 pkt = ipv4_of (ip_addr (ip_dst_addr pkt))"

subsection \<open>Fill pattern and time stamp\<close>

definition abc_pattern :: "u8 list" where
  "abc_pattern = map of_nat ([97..<123] @ [48..<54])"

definition pktgen_fill_pattern :: "u16 \<Rightarrow> fill_t \<Rightarrow> u8 list \<Rightarrow> u8 list \<Rightarrow> u8 list option" where
  "pktgen_fill_pattern len ty user m =
     (if ty \<noteq> NO_FILL_PATTERN \<and> unat len > length m then None
      else Some (case ty of
        USER_FILL_PATTERN \<Rightarrow> wr 0 (map (\<lambda>i. user ! (i mod 16)) [0..<unat len]) m
      | NO_FILL_PATTERN \<Rightarrow> m
      | ZERO_FILL_PATTERN \<Rightarrow> wr 0 (replicate (unat len) 0) m
      | ABC_FILL_PATTERN \<Rightarrow> wr 0 (map (\<lambda>i. abc_pattern ! (i mod 32)) [0..<unat len]) m))"

text \<open>\<open>pktgen_tstamp_pointer\<close>: behind the Ethernet, IPv4 and UDP headers, at the next multiple of eight.\<close>

definition pktgen_tstamp_pointer :: nat where
  "pktgen_tstamp_pointer = (14 + 20 + 8 + 8) div 8 * 8"

definition put_le64 :: "u64 \<Rightarrow> u8 list" where
  "put_le64 x = put_le32 (ucast x) @ put_le32 (ucast (drop_bit 32 x))"

definition tstamp_bytes :: "u32 \<Rightarrow> u64 \<Rightarrow> u8 list" where
  "tstamp_bytes index ts = put_le32 TSTAMP_MAGIC @ put_le32 index @ put_le64 ts"

subsection \<open>Link layer\<close>

text \<open>The result is the offset of the next header, the template and the memory.\<close>

definition pktgen_ether_hdr_ctor :: "port_info \<Rightarrow> pkt_seq \<Rightarrow> u8 list \<Rightarrow> nat \<times> pkt_seq \<times> u8 list" where
  "pktgen_ether_hdr_ctor pinfo pkt m =
     (let m1 = wr 0 (eth_dst_addr pkt) (wr 6 (eth_src_addr pkt) m) in
      if pktgen_tst_port_flags SEND_VLAN_ID pinfo then
        (let vlan_id = pk_vlanid pkt OR push_bit 13 (ucast (pk_cos pkt))
         in (18, pkt\<lparr>ether_hdr_size := 18\<rparr>,
             wr 12 (be16 RTE_ETHER_TYPE_VLAN @ be16 vlan_id @ be16 (ethType pkt)) m1))
      else if pktgen_tst_port_flags SEND_MPLS_LABEL pinfo then
        (18, pkt\<lparr>ether_hdr_size := 18\<rparr>,
         wr 12 (be16 ETHER_TYPE_MPLS_UNICAST @ be32 (pk_mpls_entry pkt OR push_bit 8 1)) m1)
      else if pktgen_tst_port_flags SEND_Q_IN_Q_IDS pinfo then
        (22, pkt\<lparr>ether_hdr_size := 22\<rparr>,
         wr 12 (be16 ETHER_TYPE_Q_IN_Q @ be16 (qinq_outerid pkt) @ be16 RTE_ETHER_TYPE_VLAN @ be16 (qinq_innerid pkt)
                @ be16 (ethType pkt)) m1)
      else (14, pkt\<lparr>ether_hdr_size := 14\<rparr>, wr 12 (be16 (ethType pkt)) m1))"

text \<open>The outer IPv4 header and the GRE header with its key, which both GRE constructors write.\<close>

definition gre_headers :: "u16 \<Rightarrow> pkt_seq \<Rightarrow> u16 \<Rightarrow> nat \<Rightarrow> u8 list \<Rightarrow> u8 list" where
  "gre_headers ty pkt ident l3 m =
     (let ip = [0x45, 0] @ be16 (pk_size pkt - ether_hdr_size pkt) @ be16 ident @ [0, 0] @ [64, 47] @ [0, 0]
               @ be32 (push_bit 24 10 OR push_bit 16 10 OR push_bit 8 1 OR 1)
               @ be32 (push_bit 24 10 OR push_bit 16 10 OR push_bit 8 1 OR 2);
          cksum = NOT (rte_raw_cksum ip)
      in wr l3 (take 10 ip @ put_le16 cksum @ drop 12 ip @ [0x20, 0] @ be16 ty @ be32 (pk_gre_key pkt)) m)"

definition pktgen_gre_hdr_ctor :: "pkt_seq \<Rightarrow> u16 \<Rightarrow> nat \<Rightarrow> u8 list \<Rightarrow> nat \<times> pkt_seq \<times> u8 list \<times> u16" where
  "pktgen_gre_hdr_ctor pkt ident l3 m =
     (let ident1 = ident + 27; m1 = wr l3 (replicate 36 0) m
      in (l3 + 28, pkt\<lparr>ether_hdr_size := ether_hdr_size pkt + 28\<rparr>,
          gre_headers RTE_ETHER_TYPE_IPV4 pkt ident1 l3 m1, ident1))"

definition pktgen_gre_ether_hdr_ctor :: "pkt_seq \<Rightarrow> u16 \<Rightarrow> nat \<Rightarrow> u8 list \<Rightarrow> nat \<times> pkt_seq \<times> u8 list \<times> u16" where
  "pktgen_gre_ether_hdr_ctor pkt ident l3 m =
     (let ident1 = ident + 27; m1 = wr l3 (replicate 50 0) m;
          m2 = gre_headers ETHER_TYPE_TRANSP_ETH_BR pkt ident1 l3 m1
      in (l3 + 42, pkt\<lparr>ether_hdr_size := ether_hdr_size pkt + 42\<rparr>,
          wr (l3 + 28) (eth_dst_addr pkt @ eth_src_addr pkt @ be16 RTE_ETHER_TYPE_IPV4) m2, ident1))"

subsection \<open>Network layer\<close>

definition ipv4_hdr :: "pkt_seq \<Rightarrow> u16 \<Rightarrow> u8 list" where
  "ipv4_hdr pkt ident =
     [0x45, pk_tos pkt] @ be16 (pk_size pkt - ether_hdr_size pkt) @ be16 ident @ [0, 0]
     @ [pk_ttl pkt, ucast (ipProto pkt)] @ [0, 0] @ be32 (src_ipv4 pkt) @ be32 (dst_ipv4 pkt)"

definition pktgen_ipv4_ctor :: "pkt_seq \<Rightarrow> u16 \<Rightarrow> nat \<Rightarrow> bool \<Rightarrow> u8 list \<Rightarrow> (u8 list \<times> u16) option" where
  "pktgen_ipv4_ctor pkt ident ip cksum_offload m =
     (let ident1 = ident + 27; m1 = wr ip (ipv4_hdr pkt ident1) m in
      if cksum_offload then Some (m1, ident1)
      else map_option (\<lambda>c. (wr (ip + 10) (put_le16 c) m1, ident1)) (rte_ipv4_cksum ip m1))"

definition pktgen_ipv6_ctor :: "pkt_seq \<Rightarrow> nat \<Rightarrow> u8 list \<Rightarrow> u8 list" where
  "pktgen_ipv6_ctor pkt ip m =
     wr ip (put_le32 (htonl (push_bit 28 6) OR htonl (push_bit 20 (ucast (pk_tos pkt))))
       @ be16 (pk_size pkt - (ether_hdr_size pkt + 40)) @ [ucast (ipProto pkt), pk_ttl pkt]
       @ ip_addr (ip_src_addr pkt) @ ip_addr (ip_dst_addr pkt)) m"

subsection \<open>Transport layer\<close>

text \<open>The fields of the IPv4 header that the checksum of the transport header reads.\<close>

definition ipv4_partial :: "pkt_seq \<Rightarrow> nat \<Rightarrow> u8 list \<Rightarrow> u8 list" where
  "ipv4_partial pkt ip m =
     (let m1 = wr (ip + 12) (be32 (src_ipv4 pkt)) m; m2 = wr (ip + 16) (be32 (dst_ipv4 pkt)) m1;
          m3 = wr ip [0x45] m2; m4 = wr (ip + 2) (be16 (pk_size pkt - ether_hdr_size pkt)) m3
      in wr (ip + 9) [ucast (ipProto pkt)] m4)"

definition ipv6_partial :: "pkt_seq \<Rightarrow> nat \<Rightarrow> u8 list \<Rightarrow> u8 list" where
  "ipv6_partial pkt ip m =
     (let m1 = wr (ip + 24) (ip_addr (ip_dst_addr pkt)) m; m2 = wr (ip + 8) (ip_addr (ip_src_addr pkt)) m1;
          m3 = wr (ip + 4) (be16 (pk_size pkt - (ether_hdr_size pkt + 40))) m2
      in wr (ip + 6) [ucast (ipProto pkt)] m3)"

definition tcp_hdr :: "pkt_seq \<Rightarrow> u8 list" where
  "tcp_hdr pkt =
     be16 (pk_sport pkt) @ be16 (pk_dport pkt) @ be32 (pk_tcp_seq pkt) @ be32 (pk_tcp_ack pkt)
     @ [0x50, ucast (pk_tcp_flags pkt)] @ be16 DEFAULT_WND_SIZE @ [0, 0] @ [0, 0]"

definition pktgen_tcp_hdr_ctor :: "pkt_seq \<Rightarrow> nat \<Rightarrow> u16 \<Rightarrow> bool \<Rightarrow> bool \<Rightarrow> u8 list \<Rightarrow> u8 list option" where
  "pktgen_tcp_hdr_ctor pkt ip ty cksum_offload requires_phdr m =
     (if ty = RTE_ETHER_TYPE_IPV4 then
        (let tcp = ip + 20; m1 = wr tcp (tcp_hdr pkt) (ipv4_partial pkt ip m) in
         if \<not> cksum_offload then map_option (\<lambda>c. wr (tcp + 16) (put_le16 c) m1) (rte_ipv4_udptcp_cksum ip tcp m1)
         else if requires_phdr then Some (wr (tcp + 16) (put_le16 (rte_ipv4_phdr_cksum ip m1)) m1)
         else Some m1)
      else
        (let tcp = ip + 40; m1 = wr tcp (tcp_hdr pkt) (ipv6_partial pkt ip m) in
         if \<not> cksum_offload then map_option (\<lambda>c. wr (tcp + 16) (put_le16 c) m1) (rte_ipv6_udptcp_cksum ip tcp m1)
         else Some m1))"

definition udp_hdr :: "pkt_seq \<Rightarrow> u16 \<Rightarrow> u8 list" where
  "udp_hdr pkt tlen = be16 (pk_sport pkt) @ be16 (pk_dport pkt) @ be16 tlen @ [0, 0]"

definition vxlan_hdr :: "pkt_seq \<Rightarrow> u8 list" where
  "vxlan_hdr pkt = be16 (pk_vni_flags pkt) @ be16 (pk_group_id pkt) @ put_le32 (push_bit 8 (htonl (pk_vxlan_id pkt)))"

definition udp_nonzero :: "u16 \<Rightarrow> u16" where "udp_nonzero c = (if c = 0 then 0xFFFF else c)"

definition pktgen_udp_hdr_ctor :: "pkt_seq \<Rightarrow> nat \<Rightarrow> u16 \<Rightarrow> bool \<Rightarrow> bool \<Rightarrow> u8 list \<Rightarrow> u8 list option" where
  "pktgen_udp_hdr_ctor pkt ip ty cksum_offload requires_phdr m =
     (if ty = RTE_ETHER_TYPE_IPV4 then
        (let udp = ip + 20; tlen = pk_size pkt - (ether_hdr_size pkt + 20);
             m1 = wr udp (udp_hdr pkt tlen) (ipv4_partial pkt ip m);
             m2 = (if pk_dport pkt = VXLAN_PORT_ID then wr (udp + 8) (vxlan_hdr pkt) m1 else m1) in
         if \<not> cksum_offload
           then map_option (\<lambda>c. wr (udp + 6) (put_le16 (udp_nonzero c)) m2) (rte_ipv4_udptcp_cksum ip udp m2)
         else if requires_phdr then Some (wr (udp + 6) (put_le16 (rte_ipv4_phdr_cksum ip m2)) m2)
         else Some m2)
      else
        (let udp = ip + 40; tlen = pk_size pkt - (ether_hdr_size pkt + 40);
             m1 = wr udp (udp_hdr pkt tlen) (ipv6_partial pkt ip m) in
         if \<not> cksum_offload
           then map_option (\<lambda>c. wr (udp + 6) (put_le16 (udp_nonzero c)) m1) (rte_ipv6_udptcp_cksum ip udp m1)
         else Some m1))"

text \<open>The total length is written last, over what the optional fields added to it.\<close>

definition pktgen_gtpu_hdr_ctor :: "pkt_seq \<Rightarrow> nat \<Rightarrow> u16 \<Rightarrow> u8 \<Rightarrow> u16 \<Rightarrow> u8 \<Rightarrow> u8 \<Rightarrow> u8 list \<Rightarrow> u8 list" where
  "pktgen_gtpu_hdr_ctor pkt ip proto flags seq_no npdu_no next_ext m =
     (let l4 = (if proto = PG_IPPROTO_UDP then 8 else 20); g = ip + 20 + l4;
          m1 = wr g ([flags, 0xff, 0, 0] @ be32 (pk_gtpu_teid pkt)) m;
          (p2, m2) = (if rd8 g m1 AND GTPu_S_FLAG \<noteq> 0 then (g + 2, wr g (put_le16 seq_no) m1) else (g, m1));
          (p3, m3) = (if rd8 g m2 AND GTPu_PN_FLAG \<noteq> 0 then (p2 + 1, wr p2 [npdu_no] m2) else (p2, m2));
          m4 = (if rd8 g m3 AND GTPu_E_FLAG \<noteq> 0 then wr p3 [next_ext] m3 else m3)
      in wr (g + 2) (be16 (pk_size pkt - (of_nat l4 + 8 + ether_hdr_size pkt))) m4)"

subsection \<open>ICMP and ARP\<close>

definition icmp_ctor :: "pkt_seq \<Rightarrow> nat \<Rightarrow> int \<Rightarrow> u8 list \<Rightarrow> u8 list option" where
  "icmp_ctor pkt ip ty m =
     (let tlen = pk_size pkt - (ether_hdr_size pkt + 20); icmp = ip + 20 + 8;
          m1 = wr (ip + 12) (be32 (src_ipv4 pkt)) m; m2 = wr (ip + 16) (be32 (dst_ipv4 pkt)) m1;
          m3 = wr (ip + 2) (be16 tlen) m2; m4 = wr (ip + 9) [ucast (ipProto pkt)] m3;
          m5 = wr (icmp + 1) [0] m4;
          m6 = (if ty = -1 \<or> ty = ICMP4_TIMESTAMP
                then wr icmp (put_le16 0x1234 @ put_le16 0x5678 @ put_le32 0x80004321 @ replicate 8 0)
                       (wr icmp [of_int ICMP4_TIMESTAMP] m5)
                else if ty = ICMP4_ECHO
                then wr icmp (put_le16 0x1234 @ put_le16 0x5678 @ replicate 4 0) (wr icmp [of_int ICMP4_ECHO] m5)
                else m5);
          m7 = wr (icmp + 2) [0, 0] m6
      in map_option (\<lambda>c. wr (icmp + 2) (put_le16 (udp_nonzero c)) m7) (raw_cksum_at icmp (unat tlen) m7))"

definition arp_ctor :: "pkt_seq \<Rightarrow> nat \<Rightarrow> u8 list \<Rightarrow> u8 list" where
  "arp_ctor pkt arp m =
     (let m1 = wr arp (be16 1 @ be16 RTE_ETHER_TYPE_IPV4 @ [6, 4] @ be16 2) m;
          m2 = wr (arp + 8) (eth_src_addr pkt) m1; m3 = wr (arp + 8) (be32 (src_ipv4 pkt)) m2;
          m4 = wr (arp + 18) (eth_dst_addr pkt) m3
      in wr (arp + 8 + 16) (be32 (dst_ipv4 pkt)) m4)"

subsection \<open>The packet\<close>

definition put_entropy :: "u16 \<Rightarrow> nat \<Rightarrow> u8 list \<Rightarrow> u8 list" where
  "put_entropy e l4 m = (if e \<noteq> 0 then wr l4 (be16 e) m else m)"

text \<open>IPv4: the transport header, then the IPv4 header over what the transport header left there.\<close>

definition ipv4_packet ::
  "build_env \<Rightarrow> port_info \<Rightarrow> u16 \<Rightarrow> int \<Rightarrow> nat \<Rightarrow> u16 \<Rightarrow> pkt_seq \<Rightarrow> u8 list \<Rightarrow> (pkt_seq \<times> u8 list \<times> u16) option" where
  "ipv4_packet env pinfo entropy ty l3 ident pkt m =
     (let finish = (\<lambda>p m1. map_option (\<lambda>(m2, i). (p, m2, i)) (pktgen_ipv4_ctor p ident l3 (be_ipv4_offload env) m1));
          gtpu = (\<lambda>m0. pktgen_gtpu_hdr_ctor pkt l3 (ipProto pkt) (GTPu_VERSION OR GTPu_PT_FLAG) 0 0 0 m0) in
      if ipProto pkt = PG_IPPROTO_TCP then
        (if pk_dport pkt \<noteq> PG_IPPROTO_L4_GTPU_PORT then
           (case pktgen_tcp_hdr_ctor pkt l3 RTE_ETHER_TYPE_IPV4 (be_tcp_offload env) (be_requires_phdr env) m of
              None \<Rightarrow> None | Some m1 \<Rightarrow> finish pkt m1)
         else
           (case pktgen_tcp_hdr_ctor pkt l3 RTE_ETHER_TYPE_IPV4 (be_tcp_offload env) (be_requires_phdr env) (gtpu m) of
              None \<Rightarrow> None | Some m1 \<Rightarrow> finish pkt (put_entropy entropy (l3 + 20) m1)))
      else if ipProto pkt = PG_IPPROTO_UDP then
        (if pktgen_tst_port_flags SEND_VXLAN_PACKETS pinfo then
           (let pkt1 = pkt\<lparr>pk_dport := VXLAN_PORT_ID\<rparr> in
            case pktgen_udp_hdr_ctor pkt1 l3 RTE_ETHER_TYPE_IPV4 (be_udp_offload env) (be_requires_phdr env) m of
              None \<Rightarrow> None | Some m1 \<Rightarrow> finish pkt1 m1)
         else if pk_dport pkt \<noteq> PG_IPPROTO_L4_GTPU_PORT then
           (case pktgen_udp_hdr_ctor pkt l3 RTE_ETHER_TYPE_IPV4 (be_udp_offload env) (be_requires_phdr env) m of
              None \<Rightarrow> None | Some m1 \<Rightarrow> finish pkt m1)
         else
           (case pktgen_udp_hdr_ctor pkt l3 RTE_ETHER_TYPE_IPV4 (be_udp_offload env) (be_requires_phdr env) (gtpu m) of
              None \<Rightarrow> None | Some m1 \<Rightarrow> finish pkt (put_entropy entropy (l3 + 20) m1)))
      else if ipProto pkt = PG_IPPROTO_ICMP then
        (case icmp_ctor pkt l3 ty m of None \<Rightarrow> None | Some m1 \<Rightarrow> finish pkt m1)
      else Some (pkt, m, ident))"

definition ipv6_packet :: "build_env \<Rightarrow> u16 \<Rightarrow> nat \<Rightarrow> pkt_seq \<Rightarrow> u8 list \<Rightarrow> u8 list option" where
  "ipv6_packet env entropy l3 pkt m =
     (if ipProto pkt = PG_IPPROTO_TCP then
        map_option (\<lambda>m1. pktgen_ipv6_ctor pkt l3 (put_entropy entropy (l3 + 40) m1))
          (pktgen_tcp_hdr_ctor pkt l3 RTE_ETHER_TYPE_IPV6 (be_tcp_offload env) (be_requires_phdr env) m)
      else if ipProto pkt = PG_IPPROTO_UDP then
        map_option (\<lambda>m1. pktgen_ipv6_ctor pkt l3 (put_entropy entropy (l3 + 40) m1))
          (pktgen_udp_hdr_ctor pkt l3 RTE_ETHER_TYPE_IPV6 (be_udp_offload env) (be_requires_phdr env) m)
      else Some m)"

text \<open>The source address and port at random, for single packets of a port that does not answer.\<close>

definition randomize :: "build_env \<Rightarrow> port_info \<Rightarrow> pkt_seq \<Rightarrow> pkt_seq" where
  "randomize env pinfo pkt =
     (if pktgen_tst_port_flags SEND_SINGLE_PKTS pinfo \<and> \<not> pktgen_tst_port_flags PROCESS_INPUT_PKTS pinfo then
        (let pkt1 = (if pktgen_tst_port_flags RANDOMIZE_SRC_IP pinfo
                     then pkt\<lparr>ip_src_addr := (ip_src_addr pkt)\<lparr>ip_addr := with_ipv4 (be_rnd_ip env) (ip_addr (ip_src_addr pkt))\<rparr>\<rparr>
                     else pkt)
         in if pktgen_tst_port_flags RANDOMIZE_SRC_PT pinfo
            then pkt1\<lparr>pk_sport := ucast (be_rnd_pt env mod 65535 + 1)\<rparr> else pkt1)
      else pkt)"

definition link_layer :: "port_info \<Rightarrow> u16 \<Rightarrow> pkt_seq \<Rightarrow> u8 list \<Rightarrow> nat \<times> pkt_seq \<times> u8 list \<times> u16" where
  "link_layer pinfo ident pkt m =
     (if pktgen_tst_port_flags SEND_GRE_IPv4_HEADER pinfo then pktgen_gre_hdr_ctor pkt ident 14 m
      else if pktgen_tst_port_flags SEND_GRE_ETHER_HEADER pinfo then pktgen_gre_ether_hdr_ctor pkt ident 14 m
      else (let (l3, p, m1) = pktgen_ether_hdr_ctor pinfo pkt m in (l3, p, m1, ident)))"

definition pktgen_packet_ctor :: "build_env \<Rightarrow> nat \<Rightarrow> int \<Rightarrow> build \<Rightarrow> build option" where
  "pktgen_packet_ctor env seq_idx ty b =
     (let pinfo = b_pinfo b; pkt = seq_pkt pinfo ! seq_idx;
          pktsz = (if be_jumbo env then RTE_ETHER_MAX_JUMBO_FRAME_LEN else RTE_ETHER_MAX_LEN) in
      case pktgen_fill_pattern pktsz (be_fill env) (be_user_pattern env) (b_hdr b ! seq_idx) of
        None \<Rightarrow> None
      | Some m0 \<Rightarrow>
          (let index = b_next_index b; lat = (seq_idx = LATENCY_PKT);
               m1 = (if lat then wr pktgen_tstamp_pointer (tstamp_bytes index (be_time env)) m0 else m0);
               next1 = (if lat then index + 1 else index);
               entropy = (if lat \<and> be_entropy env \<noteq> 0 then pk_sport pkt + ucast (index mod ucast (be_entropy env)) else 0);
               (l3, pkt2, m2, ident2) = link_layer pinfo (b_ident b) (randomize env pinfo pkt) m1
           in map_option (\<lambda>(p, m, i). set_hdr seq_idx m (b\<lparr>b_pinfo := upd_pkt seq_idx (\<lambda>_. p) pinfo, b_ident := i, b_next_index := next1\<rparr>))
                (if ethType pkt2 = RTE_ETHER_TYPE_IPV4 then ipv4_packet env pinfo entropy ty l3 ident2 pkt2 m2
                 else if ethType pkt2 = RTE_ETHER_TYPE_IPV6
                   then map_option (\<lambda>m3. (pkt2, m3, ident2)) (ipv6_packet env entropy l3 pkt2 m2)
                 else if ethType pkt2 = RTE_ETHER_TYPE_ARP then Some (pkt2, arp_ctor pkt2 l3 m2, ident2)
                 else Some (pkt2, m2, ident2))))"

end
