(* ===== verification/PktCheck.thy ===== *)
theory PktCheck
  imports PktBuild
begin

text \<open>
  What the packets of \<open>PktBuild\<close> look like on the wire: the layout of their headers, their lengths
  and their checksums, as a receiver reads them.
\<close>

subsection \<open>The layout of an IPv4 packet\<close>

definition ip4 :: "u8 \<Rightarrow> u16 \<Rightarrow> u8 list \<Rightarrow> u8 \<Rightarrow> u8 list \<Rightarrow> u32 \<Rightarrow> u32 \<Rightarrow> u8 list" where
  "ip4 tos tlen mid pr ck s d = [0x45, tos] @ be16 tlen @ mid @ [pr] @ ck @ be32 s @ be32 d"

lemma length_ip4: "length mid = 5 \<Longrightarrow> length ck = 2 \<Longrightarrow> length (ip4 tos tlen mid pr ck s d) = 20"
  by (simp add: ip4_def)

lemma list5E: "length xs = 5 \<Longrightarrow> (\<And>a b c d e. xs = [a, b, c, d, e] \<Longrightarrow> P) \<Longrightarrow> P"
  by (auto simp: numeral_eq_Suc length_Suc_conv)

lemma list2E: "length xs = 2 \<Longrightarrow> (\<And>a b. xs = [a, b] \<Longrightarrow> P) \<Longrightarrow> P"
  by (auto simp: numeral_eq_Suc length_Suc_conv)

lemma list4E: "length xs = 4 \<Longrightarrow> (\<And>a b c d. xs = [a, b, c, d] \<Longrightarrow> P) \<Longrightarrow> P"
  by (auto simp: numeral_eq_Suc length_Suc_conv)

lemma ip4_reads:
  assumes "length E = ip" "length mid = 5" "length ck = 2"
  shows "rte_ipv4_hdr_len ip (E @ ip4 tos tlen mid pr ck s d @ L) = 20"
    and "rd_be16 (ip + 2) (E @ ip4 tos tlen mid pr ck s d @ L) = tlen"
    and "rd8 (ip + 9) (E @ ip4 tos tlen mid pr ck s d @ L) = pr"
    and "rd_be32 (ip + 12) (E @ ip4 tos tlen mid pr ck s d @ L) = s"
    and "rd_be32 (ip + 16) (E @ ip4 tos tlen mid pr ck s d @ L) = d"
    and "ipv4_psd_header ip (E @ ip4 tos tlen mid pr ck s d @ L) = be32 s @ be32 d @ [0, pr] @ be16 (tlen - 20)"
    and "drop (ip + 20) (E @ ip4 tos tlen mid pr ck s d @ L) = L"
    and "take 20 (drop ip (E @ ip4 tos tlen mid pr ck s d @ L)) = ip4 tos tlen mid pr ck s d"
proof -
  let ?m = "E @ ip4 tos tlen mid pr ck s d @ L"
  note l = length_ip4 [OF assms(2,3)]
  have d: "drop (ip + n) ?m = drop n (ip4 tos tlen mid pr ck s d @ L)" for n
    using assms(1) by simp
  have n: "?m ! (ip + n) = (ip4 tos tlen mid pr ck s d @ L) ! n" for n
    using assms(1) by (simp add: nth_append)
  have d2: "drop 2 (ip4 tos tlen mid pr ck s d @ L) = be16 tlen @ (mid @ [pr] @ ck @ be32 s @ be32 d @ L)"
    by (simp add: ip4_def)
  have d12: "drop 12 (ip4 tos tlen mid pr ck s d @ L) = be32 s @ be32 d @ L"
    using assms(2,3) by (simp add: ip4_def)
  have d16: "drop 16 (ip4 tos tlen mid pr ck s d @ L) = be32 d @ L"
    using assms(2,3) by (simp add: ip4_def)
  show h: "rte_ipv4_hdr_len ip ?m = 20"
    using n [of 0] by (simp add: rte_ipv4_hdr_len_def rd8_def ip4_def)
  show t: "rd_be16 (ip + 2) ?m = tlen"
    unfolding rd_be16_def d d2 using rd_be16_be16 [of tlen] by (simp add: rd_be16_def)
  show p: "rd8 (ip + 9) ?m = pr"
    unfolding rd8_def n by (rule list5E [OF assms(2)]) (simp add: ip4_def nth_append)
  show "rd_be32 (ip + 12) ?m = s"
    unfolding rd_be32_def d d12 using rd_be32_be32 [of s] by (simp add: rd_be32_def)
  show "rd_be32 (ip + 16) ?m = d"
    unfolding rd_be32_def d d16 using rd_be32_be32 [of d] by (simp add: rd_be32_def)
  show "ipv4_psd_header ip ?m = be32 s @ be32 d @ [0, pr] @ be16 (tlen - 20)"
    unfolding ipv4_psd_header_def h t p d d12 d16 by simp
  show "drop (ip + 20) ?m = L" unfolding d using l by simp
  show "take 20 (drop ip ?m) = ip4 tos tlen mid pr ck s d" using assms(1) l by simp
qed

lemma ip4_udptcp:
  assumes "length E = ip" "length mid = 5" "length ck = 2" and "20 \<le> unat tlen" and "unat tlen - 20 \<le> length L"
  shows "ipv4_udptcp_cksum ip (ip + 20) (E @ ip4 tos tlen mid pr ck s d @ L) =
    Some (ucast (fold16 (ucast (rte_raw_cksum (take (unat tlen - 20) L))
      + ucast (rte_raw_cksum (be32 s @ be32 d @ [0, pr] @ be16 (tlen - 20))))))"
  unfolding ipv4_udptcp_cksum_def Let_def ip4_reads [OF assms(1-3)] raw_cksum_at_def rte_ipv4_phdr_cksum_def
  using assms length_ip4 [OF assms(2,3)] by (simp add: not_less)

text \<open>The checksum of a transport header, valid under every IPv4 header with the same addresses, protocol and length.\<close>

lemma l4_cksum_valid:
  assumes E: "length E = ip" "length mid = 5" "length ck = 2" "length E' = ip'" "length mid' = 5" "length ck' = 2"
    and ev: "even (length xs)" and tlen: "length xs + 22 \<le> unat tlen" "unat tlen - 20 \<le> length xs + 2 + length ys" and pr: "pr \<noteq> 0"
    and c: "rte_ipv4_udptcp_cksum ip (ip + 20) (E @ ip4 tos tlen mid pr ck s d @ xs @ [0, 0] @ ys) = Some c"
    and c': "c' = c \<or> c' = udp_nonzero c"
  shows "rte_ipv4_udptcp_cksum_verify ip' (ip' + 20) (E' @ ip4 tos' tlen mid' pr ck' s d @ xs @ put_le16 c' @ ys) = Some 0"
proof -
  let ?n = "unat tlen - 20" and ?p = "be32 s @ be32 d @ [0, pr] @ be16 (tlen - 20)" and ?ys = "take (unat tlen - 22 - length xs) ys"
  define f where "f = (ucast (fold16 (ucast (rte_raw_cksum (xs @ [0, 0] @ ?ys)) + ucast (rte_raw_cksum ?p))) :: u16)"
  have t: "take ?n (xs @ [0, 0] @ ys) = xs @ [0, 0] @ ?ys" "take ?n (xs @ put_le16 c' @ ys) = xs @ put_le16 c' @ ?ys"
  proof -
    have n: "?n = length xs + (2 + (unat tlen - 22 - length xs))" using tlen(1) by simp
    show "take ?n (xs @ [0, 0] @ ys) = xs @ [0, 0] @ ?ys" "take ?n (xs @ put_le16 c' @ ys) = xs @ put_le16 c' @ ?ys"
      unfolding n by (simp_all add: bytes_simps)
  qed
  have "ipv4_udptcp_cksum ip (ip + 20) (E @ ip4 tos tlen mid pr ck s d @ xs @ [0, 0] @ ys) = Some f"
    unfolding f_def t(1) [symmetric] by (rule ip4_udptcp [OF E(1-3)]) (use tlen in simp_all)
  then have "c = (if NOT f = 0 \<and> pr = 17 then 0xffff else NOT f)"
    using c unfolding rte_ipv4_udptcp_cksum_def ip4_reads [OF E(1-3)] by simp
  then have c2: "c' = NOT f \<or> NOT f = 0 \<and> c' = 0xffff"
    using c' by (auto simp: udp_nonzero_def split: if_splits)
  have "unat tlen < 65536" using unsigned_less [where ?'a = nat, of tlen] by simp
  then have len: "length xs + length ?ys + 2 < 65536" using tlen by simp
  have p: "length ?p < 65536" "0 < osum ?p"
  proof -
    have "0 < osum [0, pr]" using pr by (simp add: unat_gt_0)
    then show "0 < osum ?p" by (simp add: osum_append)
  qed simp
  have "ipv4_udptcp_cksum ip' (ip' + 20) (E' @ ip4 tos' tlen mid' pr ck' s d @ xs @ put_le16 c' @ ys) = Some 0xffff"
    unfolding segment_cksum_valid [OF ev len arg_cong [OF f_def, of NOT] c2 p, symmetric] t(2) [symmetric]
    by (rule ip4_udptcp [OF E(4-6)]) (use tlen in \<open>simp_all add: bytes_simps\<close>)
  then show ?thesis by (simp add: rte_ipv4_udptcp_cksum_verify_def)
qed

text \<open>The IPv4 header itself.\<close>

lemma ipv4_hdr_ip4:
  "ipv4_hdr pkt ident = ip4 (pk_tos pkt) (pk_size pkt - ether_hdr_size pkt) (be16 ident @ [0, 0, pk_ttl pkt]) (ucast (ipProto pkt)) [0, 0]
     (src_ipv4 pkt) (dst_ipv4 pkt)"
  by (simp add: ipv4_hdr_def ip4_def)

lemma ip4_ctor:
  assumes "length E = ip" "length I = 20"
  shows "\<exists>ck. length ck = 2 \<and> pktgen_ipv4_ctor pkt ident ip off (E @ I @ L) =
      Some (E @ ip4 (pk_tos pkt) (pk_size pkt - ether_hdr_size pkt) (be16 (ident + 27) @ [0, 0, pk_ttl pkt]) (ucast (ipProto pkt)) ck
              (src_ipv4 pkt) (dst_ipv4 pkt) @ L, ident + 27)
    \<and> (\<not> off \<longrightarrow> rte_raw_cksum (ip4 (pk_tos pkt) (pk_size pkt - ether_hdr_size pkt) (be16 (ident + 27) @ [0, 0, pk_ttl pkt])
              (ucast (ipProto pkt)) ck (src_ipv4 pkt) (dst_ipv4 pkt)) = 0xffff)"
proof -
  let ?h = "\<lambda>ck. ip4 (pk_tos pkt) (pk_size pkt - ether_hdr_size pkt) (be16 (ident + 27) @ [0, 0, pk_ttl pkt]) (ucast (ipProto pkt)) ck
              (src_ipv4 pkt) (dst_ipv4 pkt)"
  have l: "length (?h [0, 0]) = 20" by (simp add: length_ip4)
  have w: "wr ip (?h [0, 0]) (E @ I @ L) = E @ ?h [0, 0] @ L"
    using assms l by (simp add: wr_append2 wr_def)
  show ?thesis
  proof (cases off)
    case True
    then show ?thesis
      by (intro exI [of _ "[0, 0]"]) (simp add: pktgen_ipv4_ctor_def Let_def ipv4_hdr_ip4 w)
  next
    case False
    define xs where "xs = [0x45, pk_tos pkt] @ be16 (pk_size pkt - ether_hdr_size pkt) @ be16 (ident + 27) @ [0, 0, pk_ttl pkt] @ [ucast (ipProto pkt)]"
    define ys where "ys = be32 (src_ipv4 pkt) @ be32 (dst_ipv4 pkt)"
    have h: "?h ck = xs @ ck @ ys" for ck by (simp add: ip4_def xs_def ys_def)
    have xl: "length xs = 10" "length ys = 8" by (simp_all add: xs_def ys_def)
    let ?c = "NOT (rte_raw_cksum (?h [0, 0]))"
    have "rte_ipv4_cksum ip (E @ ?h [0, 0] @ L) = Some ?c"
      using ip4_reads(1,8) [OF assms(1), of "be16 (ident + 27) @ [0, 0, pk_ttl pkt]" "[0, 0]"] assms(1) l
      by (simp add: rte_ipv4_cksum_def raw_cksum_at_def)
    moreover have "wr (ip + 10) (put_le16 ?c) (E @ ?h [0, 0] @ L) = E @ ?h (put_le16 ?c) @ L"
      using assms(1) xl by (simp add: h wr_append2 wr_def bytes_simps)
    ultimately have "pktgen_ipv4_ctor pkt ident ip off (E @ I @ L) = Some (E @ ?h (put_le16 ?c) @ L, ident + 27)"
      using False by (simp add: pktgen_ipv4_ctor_def Let_def ipv4_hdr_ip4 w)
    moreover have "rte_raw_cksum (?h (put_le16 ?c)) = 0xffff"
      using cksum_field_valid [of xs ys] xl unfolding h by simp
    ultimately show ?thesis by (intro exI [of _ "put_le16 ?c"]) (simp add: bytes_simps)
  qed
qed

lemma list20E:
  assumes "length xs = 20"
  obtains a b c d e f g h i j k l m n p q r s t u where "xs = [a, b, c, d, e, f, g, h, i, j, k, l, m, n, p, q, r, s, t, u]"
  using assms by (auto simp: numeral_eq_Suc length_Suc_conv)

lemma ipv4_partial_ip4:
  assumes "length E = ip" "length I = 20"
  obtains tos mid ck where "length mid = 5" and "length ck = 2"
    and "\<And>L. ipv4_partial pkt ip (E @ I @ L) =
      E @ ip4 tos (pk_size pkt - ether_hdr_size pkt) mid (ucast (ipProto pkt)) ck (src_ipv4 pkt) (dst_ipv4 pkt) @ L"
proof -
  obtain a b c d e f g h i j k l m n p q r s t u where I: "I = [a, b, c, d, e, f, g, h, i, j, k, l, m, n, p, q, r, s, t, u]"
    using list20E [OF assms(2)] by metis
  obtain x0 x1 x2 x3 where x: "be32 (src_ipv4 pkt) = [x0, x1, x2, x3]" using list4E [of "be32 (src_ipv4 pkt)"] by (metis length_be(2))
  obtain y0 y1 y2 y3 where y: "be32 (dst_ipv4 pkt) = [y0, y1, y2, y3]" using list4E [of "be32 (dst_ipv4 pkt)"] by (metis length_be(2))
  obtain z0 z1 where z: "be16 (pk_size pkt - ether_hdr_size pkt) = [z0, z1]"
    using list2E [of "be16 (pk_size pkt - ether_hdr_size pkt)"] by (metis length_be(1))
  show thesis
    by (rule that [of "[e, f, g, h, i]" "[k, l]" b])
      (use assms(1) in \<open>simp_all add: ipv4_partial_def Let_def ip4_def I x y z wr_append2 wr_def\<close>)
qed

definition tcp_front :: "pkt_seq \<Rightarrow> u8 list" where
  "tcp_front pkt = be16 (pk_sport pkt) @ be16 (pk_dport pkt) @ be32 (pk_tcp_seq pkt) @ be32 (pk_tcp_ack pkt)
     @ [0x50, ucast (pk_tcp_flags pkt)] @ be16 DEFAULT_WND_SIZE"

definition udp_front :: "pkt_seq \<Rightarrow> u8 list" where
  "udp_front pkt = be16 (pk_sport pkt) @ be16 (pk_dport pkt) @ be16 (pk_size pkt - (ether_hdr_size pkt + 20))"

lemma length_front [simp]: "length (tcp_front pkt) = 16" "length (udp_front pkt) = 6"
  by (simp_all add: tcp_front_def udp_front_def)

lemma cksum_Some:
  assumes "length E = ip" "length mid = 5" "length ck = 2" "20 \<le> unat tlen" "unat tlen - 20 \<le> length L"
  obtains c where "rte_ipv4_udptcp_cksum ip (ip + 20) (E @ ip4 tos tlen mid pr ck s d @ L) = Some c"
  using ip4_udptcp [OF assms] by (auto simp: rte_ipv4_udptcp_cksum_def)

text \<open>The transport headers that the constructors leave, with the fields of the IPv4 header before them.\<close>

lemma tcp4_ctor:
  assumes E: "length E = ip" "length I = 20" "length T = 20"
    and size: "40 \<le> unat (pk_size pkt - ether_hdr_size pkt)" "unat (pk_size pkt - ether_hdr_size pkt) \<le> 40 + length R"
  obtains tos mid ck c where "length mid = 5" and "length ck = 2"
    and "pktgen_tcp_hdr_ctor pkt ip RTE_ETHER_TYPE_IPV4 False phdr (E @ I @ T @ R) =
      Some (E @ ip4 tos (pk_size pkt - ether_hdr_size pkt) mid (ucast (ipProto pkt)) ck (src_ipv4 pkt) (dst_ipv4 pkt)
              @ tcp_front pkt @ put_le16 c @ [0, 0] @ R)"
    and "rte_ipv4_udptcp_cksum ip (ip + 20)
      (E @ ip4 tos (pk_size pkt - ether_hdr_size pkt) mid (ucast (ipProto pkt)) ck (src_ipv4 pkt) (dst_ipv4 pkt)
        @ tcp_front pkt @ [0, 0] @ [0, 0] @ R) = Some c"
proof -
  obtain tos mid ck where h: "length mid = 5" "length ck = 2"
    and part: "\<And>L. ipv4_partial pkt ip (E @ I @ L) =
      E @ ip4 tos (pk_size pkt - ether_hdr_size pkt) mid (ucast (ipProto pkt)) ck (src_ipv4 pkt) (dst_ipv4 pkt) @ L"
    using ipv4_partial_ip4 [OF E(1,2)] by metis
  let ?h = "ip4 tos (pk_size pkt - ether_hdr_size pkt) mid (ucast (ipProto pkt)) ck (src_ipv4 pkt) (dst_ipv4 pkt)"
  have l: "length ?h = 20" by (rule length_ip4 [OF h])
  have hd: "tcp_hdr pkt = tcp_front pkt @ [0, 0] @ [0, 0]" by (simp add: tcp_hdr_def tcp_front_def)
  have m1: "wr (ip + 20) (tcp_hdr pkt) (ipv4_partial pkt ip (E @ I @ T @ R)) = E @ ?h @ tcp_front pkt @ [0, 0] @ [0, 0] @ R"
    unfolding part hd using E l by (simp add: wr_append2 wr_def)
  obtain c where c: "rte_ipv4_udptcp_cksum ip (ip + 20) (E @ ?h @ tcp_front pkt @ [0, 0] @ [0, 0] @ R) = Some c"
    by (rule cksum_Some [OF E(1) h, of "pk_size pkt - ether_hdr_size pkt" "tcp_front pkt @ [0, 0] @ [0, 0] @ R"])
      (use size in auto)
  have w: "wr (ip + 20 + 16) (put_le16 c) (E @ ?h @ tcp_front pkt @ [0, 0] @ [0, 0] @ R)
      = E @ ?h @ tcp_front pkt @ put_le16 c @ [0, 0] @ R"
    using E l by (simp add: wr_append2 wr_def bytes_simps)
  have "pktgen_tcp_hdr_ctor pkt ip RTE_ETHER_TYPE_IPV4 False phdr (E @ I @ T @ R) =
      Some (E @ ?h @ tcp_front pkt @ put_le16 c @ [0, 0] @ R)"
    by (simp only: pktgen_tcp_hdr_ctor_def Let_def m1 c w if_True if_False not_False_eq_True option.map simp_thms)
  then show thesis using that h c by blast
qed

lemma udp4_ctor:
  assumes E: "length E = ip" "length I = 20" "length T = 20"
    and size: "40 \<le> unat (pk_size pkt - ether_hdr_size pkt)" "unat (pk_size pkt - ether_hdr_size pkt) \<le> 40 + length R"
  obtains tos mid ck c V where "length mid = 5" and "length ck = 2" and "length V = 12"
    and "pktgen_udp_hdr_ctor pkt ip RTE_ETHER_TYPE_IPV4 False phdr (E @ I @ T @ R) =
      Some (E @ ip4 tos (pk_size pkt - ether_hdr_size pkt) mid (ucast (ipProto pkt)) ck (src_ipv4 pkt) (dst_ipv4 pkt)
              @ udp_front pkt @ put_le16 (udp_nonzero c) @ V @ R)"
    and "rte_ipv4_udptcp_cksum ip (ip + 20)
      (E @ ip4 tos (pk_size pkt - ether_hdr_size pkt) mid (ucast (ipProto pkt)) ck (src_ipv4 pkt) (dst_ipv4 pkt)
        @ udp_front pkt @ [0, 0] @ V @ R) = Some c"
proof -
  obtain tos mid ck where h: "length mid = 5" "length ck = 2"
    and part: "\<And>L. ipv4_partial pkt ip (E @ I @ L) =
      E @ ip4 tos (pk_size pkt - ether_hdr_size pkt) mid (ucast (ipProto pkt)) ck (src_ipv4 pkt) (dst_ipv4 pkt) @ L"
    using ipv4_partial_ip4 [OF E(1,2)] by metis
  let ?h = "ip4 tos (pk_size pkt - ether_hdr_size pkt) mid (ucast (ipProto pkt)) ck (src_ipv4 pkt) (dst_ipv4 pkt)"
  define V where "V = (if pk_dport pkt = VXLAN_PORT_ID then vxlan_hdr pkt @ drop 16 T else drop 8 T)"
  have l: "length ?h = 20" by (rule length_ip4 [OF h])
  have vl: "length (vxlan_hdr pkt) = 8" "length V = 12" using E by (simp_all add: V_def vxlan_hdr_def bytes_simps)
  have m1: "wr (ip + 20) (udp_hdr pkt (pk_size pkt - (ether_hdr_size pkt + 20))) (ipv4_partial pkt ip (E @ I @ T @ R))
      = E @ ?h @ udp_front pkt @ [0, 0] @ drop 8 T @ R"
    unfolding part udp_hdr_def udp_front_def using E l by (simp add: wr_append2 wr_def)
  have v: "(if pk_dport pkt = VXLAN_PORT_ID then wr (ip + 20 + 8) (vxlan_hdr pkt) (E @ ?h @ udp_front pkt @ [0, 0] @ drop 8 T @ R)
      else E @ ?h @ udp_front pkt @ [0, 0] @ drop 8 T @ R) = E @ ?h @ udp_front pkt @ [0, 0] @ V @ R"
    using E l vl by (simp add: V_def wr_append2 wr_def)
  obtain c where c: "rte_ipv4_udptcp_cksum ip (ip + 20) (E @ ?h @ udp_front pkt @ [0, 0] @ V @ R) = Some c"
    by (rule cksum_Some [OF E(1) h, of "pk_size pkt - ether_hdr_size pkt" "udp_front pkt @ [0, 0] @ V @ R"])
      (use size vl in auto)
  have w: "wr (ip + 20 + 6) (put_le16 (udp_nonzero c)) (E @ ?h @ udp_front pkt @ [0, 0] @ V @ R)
      = E @ ?h @ udp_front pkt @ put_le16 (udp_nonzero c) @ V @ R"
    using E l by (simp add: wr_append2 wr_def bytes_simps)
  have "pktgen_udp_hdr_ctor pkt ip RTE_ETHER_TYPE_IPV4 False phdr (E @ I @ T @ R) =
      Some (E @ ?h @ udp_front pkt @ put_le16 (udp_nonzero c) @ V @ R)"
    by (simp only: pktgen_udp_hdr_ctor_def Let_def m1 v c w if_True if_False not_False_eq_True option.map simp_thms)
  then show thesis using that h c vl by blast
qed

subsection \<open>Complete packets\<close>

definition wf_pkt :: "pkt_seq \<Rightarrow> bool" where
  "wf_pkt pkt \<longleftrightarrow> length (eth_dst_addr pkt) = 6 \<and> length (eth_src_addr pkt) = 6
     \<and> length (ip_addr (ip_src_addr pkt)) = 16 \<and> length (ip_addr (ip_dst_addr pkt)) = 16"

lemma wf_randomize: "wf_pkt pkt \<Longrightarrow> wf_pkt (randomize env pinfo pkt)"
  by (simp add: wf_pkt_def randomize_def Let_def)

lemma ether_hdr_layout:
  assumes "wf_pkt pkt" "22 \<le> length m"
  obtains l3 E where "pktgen_ether_hdr_ctor pinfo pkt m = (l3, pkt\<lparr>ether_hdr_size := of_nat l3\<rparr>, E @ drop l3 m)"
    and "length E = l3" and "14 \<le> l3" and "l3 \<le> 22" and "take 12 E = eth_dst_addr pkt @ eth_src_addr pkt"
proof -
  let ?a = "eth_dst_addr pkt @ eth_src_addr pkt"
  have a: "length ?a = 12" "length (eth_dst_addr pkt) = 6" "length (eth_src_addr pkt) = 6" using assms(1) by (simp_all add: wf_pkt_def)
  have m1: "wr 0 (eth_dst_addr pkt) (wr 6 (eth_src_addr pkt) m) = ?a @ drop 12 m"
    using a assms(2) by (simp add: wr_def)
  have w: "wr 12 bs (?a @ drop 12 m) = (?a @ bs) @ drop (12 + length bs) m" for bs
    using a by (simp add: wr_append2 wr_def add.commute)
  have "\<exists>bs. pktgen_ether_hdr_ctor pinfo pkt m =
      (12 + length bs, pkt\<lparr>ether_hdr_size := of_nat (12 + length bs)\<rparr>, (?a @ bs) @ drop (12 + length bs) m)
      \<and> 2 \<le> length bs \<and> length bs \<le> 10"
  proof -
    consider (vlan) "pktgen_tst_port_flags SEND_VLAN_ID pinfo"
      | (mpls) "\<not> pktgen_tst_port_flags SEND_VLAN_ID pinfo" "pktgen_tst_port_flags SEND_MPLS_LABEL pinfo"
      | (qinq) "\<not> pktgen_tst_port_flags SEND_VLAN_ID pinfo" "\<not> pktgen_tst_port_flags SEND_MPLS_LABEL pinfo"
          "pktgen_tst_port_flags SEND_Q_IN_Q_IDS pinfo"
      | (plain) "\<not> pktgen_tst_port_flags SEND_VLAN_ID pinfo" "\<not> pktgen_tst_port_flags SEND_MPLS_LABEL pinfo"
          "\<not> pktgen_tst_port_flags SEND_Q_IN_Q_IDS pinfo" by blast
    then show ?thesis
    proof cases
      case vlan
      then show ?thesis
        by (intro exI [of _ "be16 RTE_ETHER_TYPE_VLAN @ be16 (pk_vlanid pkt OR push_bit 13 (ucast (pk_cos pkt))) @ be16 (ethType pkt)"])
          (simp only: pktgen_ether_hdr_ctor_def Let_def m1 w if_True, simp)
    next
      case mpls
      then show ?thesis
        by (intro exI [of _ "be16 ETHER_TYPE_MPLS_UNICAST @ be32 (pk_mpls_entry pkt OR push_bit 8 1)"])
          (simp only: pktgen_ether_hdr_ctor_def Let_def m1 w if_True if_False, simp)
    next
      case qinq
      then show ?thesis
        by (intro exI [of _ "be16 ETHER_TYPE_Q_IN_Q @ be16 (qinq_outerid pkt) @ be16 RTE_ETHER_TYPE_VLAN @ be16 (qinq_innerid pkt)
                @ be16 (ethType pkt)"])
          (simp only: pktgen_ether_hdr_ctor_def Let_def m1 w if_True if_False, simp)
    next
      case plain
      then show ?thesis
        by (intro exI [of _ "be16 (ethType pkt)"])
          (simp only: pktgen_ether_hdr_ctor_def Let_def m1 w if_True if_False, simp)
    qed
  qed
  then obtain bs where bs: "pktgen_ether_hdr_ctor pinfo pkt m =
      (12 + length bs, pkt\<lparr>ether_hdr_size := of_nat (12 + length bs)\<rparr>, (?a @ bs) @ drop (12 + length bs) m)"
      "2 \<le> length bs" "length bs \<le> 10" by blast
  show thesis by (rule that [OF bs(1)]) (use bs(2,3) a in auto)
qed

text \<open>The length of the link layer header: with a VLAN or MPLS tag, with two tags, without.\<close>

definition link_len :: "port_info \<Rightarrow> nat" where
  "link_len pinfo = (if pktgen_tst_port_flags SEND_VLAN_ID pinfo \<or> pktgen_tst_port_flags SEND_MPLS_LABEL pinfo then 18
     else if pktgen_tst_port_flags SEND_Q_IN_Q_IDS pinfo then 22 else 14)"

lemma link_len_bounds: "14 \<le> link_len pinfo" "link_len pinfo \<le> 22" by (simp_all add: link_len_def)

lemma ether_hdr_link_len: "fst (pktgen_ether_hdr_ctor pinfo pkt m) = link_len pinfo"
  by (simp add: pktgen_ether_hdr_ctor_def link_len_def Let_def)

text \<open>What a receiver checks of an IPv4 packet with a TCP or UDP header, against the template it was built from.\<close>

definition valid_ipv4_packet :: "pkt_seq \<Rightarrow> nat \<Rightarrow> u8 list \<Rightarrow> bool" where
  "valid_ipv4_packet p l3 m \<longleftrightarrow>
     rte_ipv4_hdr_len l3 m = 20 \<and> rte_raw_cksum (take 20 (drop l3 m)) = 0xffff
     \<and> rte_ipv4_udptcp_cksum_verify l3 (l3 + 20) m = Some 0
     \<and> unat (rd_be16 (l3 + 2) m) = unat (pk_size p) - l3 \<and> rd8 (l3 + 9) m = ucast (ipProto p)
     \<and> rd_be32 (l3 + 12) m = src_ipv4 p \<and> rd_be32 (l3 + 16) m = dst_ipv4 p
     \<and> rd_be16 (l3 + 20) m = pk_sport p \<and> rd_be16 (l3 + 22) m = pk_dport p"

lemma valid_ipv4I:
  assumes E: "length E = ip" "length mid = 5" "length ck = 2"
    and t: "tlen = pk_size p - of_nat ip" "ip \<le> unat (pk_size p)"
    and ok: "rte_raw_cksum (ip4 tos tlen mid (ucast (ipProto p)) ck (src_ipv4 p) (dst_ipv4 p)) = 0xffff"
    and v: "rte_ipv4_udptcp_cksum_verify ip (ip + 20) (E @ ip4 tos tlen mid (ucast (ipProto p)) ck (src_ipv4 p) (dst_ipv4 p) @ L) = Some 0"
    and L: "L = be16 (pk_sport p) @ be16 (pk_dport p) @ L'"
  shows "valid_ipv4_packet p ip (E @ ip4 tos tlen mid (ucast (ipProto p)) ck (src_ipv4 p) (dst_ipv4 p) @ L)"
proof -
  let ?m = "E @ ip4 tos tlen mid (ucast (ipProto p)) ck (src_ipv4 p) (dst_ipv4 p) @ L"
  note r = ip4_reads [OF E, where L = L]
  have "unat (of_nat ip :: u16) = ip"
    using t(2) unsigned_less [where ?'a = nat, of "pk_size p"] by (simp add: unat_of_nat_small)
  then have n: "unat tlen = unat (pk_size p) - ip"
    using t by (simp add: unat_sub word_le_nat_alt)
  have d20: "drop (ip + 20) ?m = be16 (pk_sport p) @ be16 (pk_dport p) @ L'" unfolding r(7) by (rule L)
  have "drop 2 (drop (ip + 20) ?m) = be16 (pk_dport p) @ L'" unfolding d20 by simp
  moreover have "2 + (ip + 20) = ip + 22" by simp
  ultimately have d22: "drop (ip + 22) ?m = be16 (pk_dport p) @ L'" by (simp only: drop_drop)
  have "rd_be16 (ip + 20) ?m = pk_sport p" "rd_be16 (ip + 22) ?m = pk_dport p"
    using rd_be16_be16 [of "pk_sport p"] rd_be16_be16 [of "pk_dport p"] unfolding rd_be16_def d20 d22 by simp_all
  then show ?thesis
    unfolding valid_ipv4_packet_def r using ok v n by simp
qed

lemma ipv4_packet_valid:
  assumes E: "length E = ip" and X: "length X = 20" and T: "length T = 20" and R: "unat (pk_size pkt) \<le> ip + 40 + length R"
    and size: "ip + 40 \<le> unat (pk_size pkt)" "ether_hdr_size pkt = of_nat ip"
    and off: "\<not> be_ipv4_offload env" "\<not> be_tcp_offload env" "\<not> be_udp_offload env"
    and proto: "ipProto pkt = PG_IPPROTO_TCP \<or> ipProto pkt = PG_IPPROTO_UDP" and port: "pk_dport pkt \<noteq> PG_IPPROTO_L4_GTPU_PORT"
  shows "\<exists>p H i. ipv4_packet env pinfo entropy ty ip ident pkt (E @ X @ T @ R) = Some (p, E @ H @ R, i) \<and> length H = 40
    \<and> valid_ipv4_packet p ip (E @ H @ R) \<and> p = pkt\<lparr>pk_dport := pk_dport p\<rparr>
    \<and> (pktgen_tst_port_flags SEND_VXLAN_PACKETS pinfo \<or> p = pkt)
    \<and> pk_dport p = (if ipProto pkt = PG_IPPROTO_UDP \<and> pktgen_tst_port_flags SEND_VXLAN_PACKETS pinfo then VXLAN_PORT_ID else pk_dport pkt)"
proof -
  define p where "p = (if ipProto pkt = PG_IPPROTO_UDP \<and> pktgen_tst_port_flags SEND_VXLAN_PACKETS pinfo
    then pkt\<lparr>pk_dport := VXLAN_PORT_ID\<rparr> else pkt)"
  have pp: "ipProto p = ipProto pkt" "pk_size p = pk_size pkt" "ether_hdr_size p = of_nat ip" "p = pkt\<lparr>pk_dport := pk_dport p\<rparr>"
    "pktgen_tst_port_flags SEND_VXLAN_PACKETS pinfo \<or> p = pkt"
    using size by (simp_all add: p_def)
  have dp: "pk_dport p = (if ipProto pkt = PG_IPPROTO_UDP \<and> pktgen_tst_port_flags SEND_VXLAN_PACKETS pinfo then VXLAN_PORT_ID else pk_dport pkt)"
    by (simp add: p_def)
  let ?t = "pk_size p - ether_hdr_size p"
  have ip: "unat (of_nat ip :: u16) = ip"
    using size(1) unsigned_less [where ?'a = nat, of "pk_size pkt"] by (simp add: unat_of_nat_small)
  then have t: "unat ?t = unat (pk_size pkt) - ip" using size pp by (simp add: unat_sub word_le_nat_alt)
  have s: "40 \<le> unat ?t" "unat ?t \<le> 40 + length R" using t size R by simp_all
  have pr: "(ucast (ipProto p) :: u8) \<noteq> 0" using proto pp by (auto simp: PG_IPPROTO_TCP_def PG_IPPROTO_UDP_def)
  have "\<exists>tos mid ck xs c c' V. length mid = 5 \<and> length ck = 2 \<and> length xs + 2 + length V = 20 \<and> even (length xs)
      \<and> (if ipProto p = PG_IPPROTO_TCP then pktgen_tcp_hdr_ctor p ip RTE_ETHER_TYPE_IPV4 False (be_requires_phdr env) (E @ X @ T @ R)
         else pktgen_udp_hdr_ctor p ip RTE_ETHER_TYPE_IPV4 False (be_requires_phdr env) (E @ X @ T @ R))
        = Some (E @ ip4 tos ?t mid (ucast (ipProto p)) ck (src_ipv4 p) (dst_ipv4 p) @ xs @ put_le16 c' @ V @ R)
      \<and> rte_ipv4_udptcp_cksum ip (ip + 20)
          (E @ ip4 tos ?t mid (ucast (ipProto p)) ck (src_ipv4 p) (dst_ipv4 p) @ xs @ [0, 0] @ V @ R) = Some c
      \<and> (c' = c \<or> c' = udp_nonzero c) \<and> (\<exists>ys. xs = be16 (pk_sport p) @ be16 (pk_dport p) @ ys)"
  proof (cases "ipProto p = PG_IPPROTO_TCP")
    case True
    obtain tos mid ck c where "length mid = 5" "length ck = 2"
      "pktgen_tcp_hdr_ctor p ip RTE_ETHER_TYPE_IPV4 False (be_requires_phdr env) (E @ X @ T @ R) =
        Some (E @ ip4 tos ?t mid (ucast (ipProto p)) ck (src_ipv4 p) (dst_ipv4 p) @ tcp_front p @ put_le16 c @ [0, 0] @ R)"
      "rte_ipv4_udptcp_cksum ip (ip + 20)
        (E @ ip4 tos ?t mid (ucast (ipProto p)) ck (src_ipv4 p) (dst_ipv4 p) @ tcp_front p @ [0, 0] @ [0, 0] @ R) = Some c"
      using tcp4_ctor [OF E X T s] by metis
    then show ?thesis using True
      by (intro exI [of _ tos] exI [of _ mid] exI [of _ ck] exI [of _ "tcp_front p"] exI [of _ c] exI [of _ "[0, 0]"])
        (auto simp: tcp_front_def [of p])
  next
    case False
    obtain tos mid ck c V where "length mid = 5" "length ck = 2" "length V = 12"
      "pktgen_udp_hdr_ctor p ip RTE_ETHER_TYPE_IPV4 False (be_requires_phdr env) (E @ X @ T @ R) =
        Some (E @ ip4 tos ?t mid (ucast (ipProto p)) ck (src_ipv4 p) (dst_ipv4 p) @ udp_front p @ put_le16 (udp_nonzero c) @ V @ R)"
      "rte_ipv4_udptcp_cksum ip (ip + 20)
        (E @ ip4 tos ?t mid (ucast (ipProto p)) ck (src_ipv4 p) (dst_ipv4 p) @ udp_front p @ [0, 0] @ V @ R) = Some c"
      using udp4_ctor [OF E X T s] by metis
    then show ?thesis using False
      by (intro exI [of _ tos] exI [of _ mid] exI [of _ ck] exI [of _ "udp_front p"] exI [of _ c] exI [of _ "udp_nonzero c"] exI [of _ V])
        (auto simp: udp_front_def [of p])
  qed
  then obtain tos mid ck xs c c' V ys where h: "length mid = 5" "length ck = 2" "length xs + 2 + length V = 20" "even (length xs)"
    and m1: "(if ipProto p = PG_IPPROTO_TCP then pktgen_tcp_hdr_ctor p ip RTE_ETHER_TYPE_IPV4 False (be_requires_phdr env) (E @ X @ T @ R)
         else pktgen_udp_hdr_ctor p ip RTE_ETHER_TYPE_IPV4 False (be_requires_phdr env) (E @ X @ T @ R))
        = Some (E @ ip4 tos ?t mid (ucast (ipProto p)) ck (src_ipv4 p) (dst_ipv4 p) @ xs @ put_le16 c' @ V @ R)"
    and c: "rte_ipv4_udptcp_cksum ip (ip + 20)
          (E @ ip4 tos ?t mid (ucast (ipProto p)) ck (src_ipv4 p) (dst_ipv4 p) @ xs @ [0, 0] @ V @ R) = Some c"
    and c': "c' = c \<or> c' = udp_nonzero c" and xs: "xs = be16 (pk_sport p) @ be16 (pk_dport p) @ ys"
    by blast
  obtain ck2 where k: "length ck2 = 2"
    and fin: "pktgen_ipv4_ctor p ident ip False (E @ ip4 tos ?t mid (ucast (ipProto p)) ck (src_ipv4 p) (dst_ipv4 p) @ xs @ put_le16 c' @ V @ R)
      = Some (E @ ip4 (pk_tos p) ?t (be16 (ident + 27) @ [0, 0, pk_ttl p]) (ucast (ipProto p)) ck2 (src_ipv4 p) (dst_ipv4 p)
               @ xs @ put_le16 c' @ V @ R, ident + 27)"
    and ok: "rte_raw_cksum (ip4 (pk_tos p) ?t (be16 (ident + 27) @ [0, 0, pk_ttl p]) (ucast (ipProto p)) ck2 (src_ipv4 p) (dst_ipv4 p)) = 0xffff"
    using ip4_ctor [OF E length_ip4 [OF h(1,2)], where off = False] by metis
  let ?mid = "be16 (ident + 27) @ [0, 0, pk_ttl p]"
  let ?h = "ip4 (pk_tos p) ?t ?mid (ucast (ipProto p)) ck2 (src_ipv4 p) (dst_ipv4 p)"
  let ?H = "?h @ xs @ put_le16 c' @ V"
  have l: "length ?mid = 5" by simp
  have v: "rte_ipv4_udptcp_cksum_verify ip (ip + 20) (E @ ?h @ xs @ put_le16 c' @ V @ R) = Some 0"
    by (rule l4_cksum_valid [OF E h(1,2) E l k h(4) _ _ pr c c']) (use s h(3) in auto)
  have val: "valid_ipv4_packet p ip (E @ ?h @ xs @ put_le16 c' @ V @ R)"
    by (rule valid_ipv4I [OF E l k _ _ ok v, where L' = "ys @ put_le16 c' @ V @ R"]) (use pp size(1) xs in auto)
  have "ipv4_packet env pinfo entropy ty ip ident pkt (E @ X @ T @ R) = Some (p, E @ ?H @ R, ident + 27)"
  proof (cases "ipProto pkt = PG_IPPROTO_TCP")
    case True
    then have "p = pkt" by (simp add: p_def PG_IPPROTO_TCP_def PG_IPPROTO_UDP_def)
    then show ?thesis using True port off m1 fin by (simp add: ipv4_packet_def Let_def)
  next
    case False
    then have u: "ipProto pkt = PG_IPPROTO_UDP" using proto by simp
    show ?thesis
    proof (cases "pktgen_tst_port_flags SEND_VXLAN_PACKETS pinfo")
      case True
      then have "pkt\<lparr>pk_dport := VXLAN_PORT_ID\<rparr> = p" using u by (simp add: p_def)
      then show ?thesis using True False u off m1 fin pp by (simp add: ipv4_packet_def Let_def)
    next
      case nov: False
      then have "p = pkt" by (simp add: p_def)
      then show ?thesis using nov False u port off m1 fin by (simp add: ipv4_packet_def Let_def)
    qed
  qed
  moreover have "length ?H = 40" using h(3) length_ip4 [OF l k] by (simp add: bytes_simps)
  ultimately show ?thesis using val pp(4,5) by (intro exI conjI) (assumption | rule dp | simp)+
qed

lemma packet_built:
  assumes i: "i < length (seq_pkt (b_pinfo b))" "i < length (b_hdr b)" "i \<noteq> LATENCY_PKT"
    and pkt: "pkt = seq_pkt (b_pinfo b) ! i" "wf_pkt pkt" "ethType pkt = RTE_ETHER_TYPE_IPV4"
      "ipProto pkt = PG_IPPROTO_TCP \<or> ipProto pkt = PG_IPPROTO_UDP" "pk_dport pkt \<noteq> PG_IPPROTO_L4_GTPU_PORT"
    and gre: "\<not> pktgen_tst_port_flags SEND_GRE_IPv4_HEADER (b_pinfo b)" "\<not> pktgen_tst_port_flags SEND_GRE_ETHER_HEADER (b_pinfo b)"
    and off: "\<not> be_ipv4_offload env" "\<not> be_tcp_offload env" "\<not> be_udp_offload env"
    and fill: "pktgen_fill_pattern (if be_jumbo env then RTE_ETHER_MAX_JUMBO_FRAME_LEN else RTE_ETHER_MAX_LEN)
      (be_fill env) (be_user_pattern env) (b_hdr b ! i) = Some m0"
    and size: "link_len (b_pinfo b) + 40 \<le> unat (pk_size pkt)" "unat (pk_size pkt) \<le> length m0"
  shows "\<exists>l3 p m n. pktgen_packet_ctor env i ty b = Some (set_hdr i m (b\<lparr>b_pinfo := upd_pkt i (\<lambda>_. p) (b_pinfo b), b_ident := n\<rparr>))
    \<and> 14 \<le> l3 \<and> l3 \<le> 22 \<and> length m = length m0 \<and> take 12 m = eth_dst_addr pkt @ eth_src_addr pkt
    \<and> valid_ipv4_packet p l3 m \<and> drop (l3 + 40) m = drop (l3 + 40) m0
    \<and> p = (randomize env (b_pinfo b) pkt)\<lparr>ether_hdr_size := of_nat l3, pk_dport := pk_dport p\<rparr>
    \<and> (pktgen_tst_port_flags SEND_VXLAN_PACKETS (b_pinfo b) \<or> pk_dport p = pk_dport pkt)
    \<and> pk_dport p = (if ipProto pkt = PG_IPPROTO_UDP \<and> pktgen_tst_port_flags SEND_VXLAN_PACKETS (b_pinfo b) then VXLAN_PORT_ID else pk_dport pkt)
    \<and> l3 = link_len (b_pinfo b)"
proof -
  let ?r = "randomize env (b_pinfo b) pkt"
  have r: "wf_pkt ?r" "ethType ?r = ethType pkt" "ipProto ?r = ipProto pkt" "pk_dport ?r = pk_dport pkt" "pk_size ?r = pk_size pkt"
    "eth_dst_addr ?r = eth_dst_addr pkt" "eth_src_addr ?r = eth_src_addr pkt"
    using wf_randomize [OF pkt(2)] by (simp_all add: randomize_def Let_def)
  have "22 \<le> length m0" using size link_len_bounds(1) [of "b_pinfo b"] by linarith
  from ether_hdr_layout [OF r(1) this, of "b_pinfo b"] obtain l3 E where
    l: "pktgen_ether_hdr_ctor (b_pinfo b) ?r m0 = (l3, ?r\<lparr>ether_hdr_size := of_nat l3\<rparr>, E @ drop l3 m0)"
    and E: "length E = l3" "14 \<le> l3" "l3 \<le> 22" and mac: "take 12 E = eth_dst_addr ?r @ eth_src_addr ?r" .
  have ll: "l3 = link_len (b_pinfo b)" using ether_hdr_link_len [of "b_pinfo b" ?r m0] l by simp
  let ?q = "?r\<lparr>ether_hdr_size := of_nat l3\<rparr>"
  let ?X = "take 20 (drop l3 m0)" and ?T = "take 20 (drop (l3 + 20) m0)" and ?R = "drop (l3 + 40) m0"
  have big: "l3 + 40 \<le> length m0" using size ll by linarith
  have m: "drop l3 m0 = ?X @ ?T @ ?R"
  proof -
    have "drop l3 m0 = ?X @ drop 20 (drop l3 m0)" "drop (l3 + 20) m0 = ?T @ drop 20 (drop (l3 + 20) m0)"
      by (simp_all only: append_take_drop_id)
    moreover have "20 + l3 = l3 + 20" "20 + (l3 + 20) = l3 + 40" by simp_all
    ultimately show ?thesis unfolding drop_drop by metis
  qed
  obtain p H n where P: "ipv4_packet env (b_pinfo b) 0 ty l3 (b_ident b) ?q (E @ ?X @ ?T @ ?R) = Some (p, E @ H @ ?R, n)"
    "length H = 40" "valid_ipv4_packet p l3 (E @ H @ ?R)" "p = ?q\<lparr>pk_dport := pk_dport p\<rparr>"
    "pktgen_tst_port_flags SEND_VXLAN_PACKETS (b_pinfo b) \<or> p = ?q"
    "pk_dport p = (if ipProto ?q = PG_IPPROTO_UDP \<and> pktgen_tst_port_flags SEND_VXLAN_PACKETS (b_pinfo b) then VXLAN_PORT_ID else pk_dport ?q)"
    using ipv4_packet_valid [OF E(1), of ?X ?T ?q ?R env "b_pinfo b" 0 ty "b_ident b"] off big size [folded ll] E(3) pkt(4,5) r by auto
  let ?b = "set_hdr i (E @ H @ ?R) (b\<lparr>b_pinfo := upd_pkt i (\<lambda>_. p) (b_pinfo b), b_ident := n, b_next_index := b_next_index b\<rparr>)"
  have ctor: "pktgen_packet_ctor env i ty b = Some ?b"
    unfolding pktgen_packet_ctor_def Let_def fill pkt(1) [symmetric]
    using i(3) gre l m P(1) pkt(3) r(2) by (simp add: link_layer_def)
  show ?thesis
    by (rule exI [of _ l3], rule exI [of _ p], rule exI [of _ "E @ H @ ?R"], rule exI [of _ n])
      (use ctor E mac P(2-6) r(2-4,6,7) big ll in auto)
qed

text \<open>
  C10 Packets on the wire: without hardware offload and without a GRE header, a TCP or UDP packet over IPv4 that
  has room for its headers and is not for the GTP-U port (2152), plain or with a VLAN, MPLS or Q-in-Q tag, carries the MAC and IP addresses, the
  protocol and the ports of the given template, a valid IPv4 header checksum, a transport checksum that the receiver's check
  accepts, the length of the template, and the fill pattern as its payload. The source address and port are random only if the
  port sends single packets, does not answer, and has the flag for it; with VXLAN a UDP packet goes to the VXLAN port.
\<close>

theorem packet_on_wire:
  assumes i: "i < length (seq_pkt (b_pinfo b))" "i < length (b_hdr b)" "i \<noteq> LATENCY_PKT"
    and pkt: "pkt = seq_pkt (b_pinfo b) ! i" "wf_pkt pkt" "ethType pkt = RTE_ETHER_TYPE_IPV4"
      "ipProto pkt = PG_IPPROTO_TCP \<or> ipProto pkt = PG_IPPROTO_UDP" "pk_dport pkt \<noteq> PG_IPPROTO_L4_GTPU_PORT"
    and gre: "\<not> pktgen_tst_port_flags SEND_GRE_IPv4_HEADER (b_pinfo b)" "\<not> pktgen_tst_port_flags SEND_GRE_ETHER_HEADER (b_pinfo b)"
    and off: "\<not> be_ipv4_offload env" "\<not> be_tcp_offload env" "\<not> be_udp_offload env"
    and fill: "pktgen_fill_pattern (if be_jumbo env then RTE_ETHER_MAX_JUMBO_FRAME_LEN else RTE_ETHER_MAX_LEN)
      (be_fill env) (be_user_pattern env) (b_hdr b ! i) = Some m0"
    and size: "link_len (b_pinfo b) + 40 \<le> unat (pk_size pkt)" "unat (pk_size pkt) \<le> length m0"
  shows "\<exists>b'. pktgen_packet_ctor env i ty b = Some b'
    \<and> (let p = seq_pkt (b_pinfo b') ! i; m = b_hdr b' ! i; l3 = unat (ether_hdr_size p);
           rnd = (\<lambda>fl. pktgen_tst_port_flags SEND_SINGLE_PKTS (b_pinfo b) \<and> \<not> pktgen_tst_port_flags PROCESS_INPUT_PKTS (b_pinfo b)
                        \<and> pktgen_tst_port_flags fl (b_pinfo b))
       in l3 = link_len (b_pinfo b) \<and> length m = length m0 \<and> take 12 m = eth_dst_addr pkt @ eth_src_addr pkt
          \<and> valid_ipv4_packet p l3 m \<and> pk_size p = pk_size pkt \<and> drop (l3 + 40) m = drop (l3 + 40) m0
          \<and> unat (rd_be16 (l3 + 2) m) = unat (pk_size pkt) - l3 \<and> rd8 (l3 + 9) m = ucast (ipProto pkt)
          \<and> rd_be32 (l3 + 12) m = (if rnd RANDOMIZE_SRC_IP then be_rnd_ip env else src_ipv4 pkt)
          \<and> rd_be32 (l3 + 16) m = dst_ipv4 pkt
          \<and> rd_be16 (l3 + 20) m = (if rnd RANDOMIZE_SRC_PT then ucast (be_rnd_pt env mod 65535 + 1) else pk_sport pkt)
          \<and> rd_be16 (l3 + 22) m = (if ipProto pkt = PG_IPPROTO_UDP \<and> pktgen_tst_port_flags SEND_VXLAN_PACKETS (b_pinfo b)
                                    then VXLAN_PORT_ID else pk_dport pkt))"
proof -
  obtain l3 p m n where c: "pktgen_packet_ctor env i ty b = Some (set_hdr i m (b\<lparr>b_pinfo := upd_pkt i (\<lambda>_. p) (b_pinfo b), b_ident := n\<rparr>))"
    and l3: "14 \<le> l3" "l3 \<le> 22" and m: "length m = length m0" "take 12 m = eth_dst_addr pkt @ eth_src_addr pkt"
      "valid_ipv4_packet p l3 m" "drop (l3 + 40) m = drop (l3 + 40) m0"
    and p: "p = (randomize env (b_pinfo b) pkt)\<lparr>ether_hdr_size := of_nat l3, pk_dport := pk_dport p\<rparr>"
    and dport: "pk_dport p = (if ipProto pkt = PG_IPPROTO_UDP \<and> pktgen_tst_port_flags SEND_VXLAN_PACKETS (b_pinfo b)
      then VXLAN_PORT_ID else pk_dport pkt)"
    and ll: "l3 = link_len (b_pinfo b)"
    using packet_built [OF assms, of ty] that by (elim exE conjE) blast
  have f: "pk_size p = pk_size pkt" "ether_hdr_size p = of_nat l3" "ipProto p = ipProto pkt" "dst_ipv4 p = dst_ipv4 pkt"
    by (subst p, simp add: randomize_def dst_ipv4_def Let_def)+
  have src: "src_ipv4 p = (if (pktgen_tst_port_flags SEND_SINGLE_PKTS (b_pinfo b) \<and> \<not> pktgen_tst_port_flags PROCESS_INPUT_PKTS (b_pinfo b)
      \<and> pktgen_tst_port_flags RANDOMIZE_SRC_IP (b_pinfo b)) then be_rnd_ip env else src_ipv4 pkt)"
    by (subst p) (simp add: randomize_def src_ipv4_def Let_def)
  have sport: "pk_sport p = (if (pktgen_tst_port_flags SEND_SINGLE_PKTS (b_pinfo b) \<and> \<not> pktgen_tst_port_flags PROCESS_INPUT_PKTS (b_pinfo b)
      \<and> pktgen_tst_port_flags RANDOMIZE_SRC_PT (b_pinfo b)) then ucast (be_rnd_pt env mod 65535 + 1) else pk_sport pkt)"
    by (subst p) (simp add: randomize_def Let_def)
  have l: "unat (of_nat l3 :: u16) = l3" using l3(2) by (simp add: unat_of_nat_small)
  have b: "seq_pkt (b_pinfo (set_hdr i m (b\<lparr>b_pinfo := upd_pkt i (\<lambda>_. p) (b_pinfo b), b_ident := n\<rparr>))) ! i = p"
    "b_hdr (set_hdr i m (b\<lparr>b_pinfo := upd_pkt i (\<lambda>_. p) (b_pinfo b), b_ident := n\<rparr>)) ! i = m"
    using i(1,2) by (simp_all add: set_hdr_def upd_pkt_def)
  note v = m(3) [unfolded valid_ipv4_packet_def, unfolded f src sport dport]
  show ?thesis
    unfolding c Let_def
    by (intro exI conjI, rule refl, unfold b f(2) l) (use l3 m f v ll in \<open>simp_all only: simp_thms\<close>)
qed

text \<open>A port with one template to try the constructors on.\<close>

definition tcp_template :: "u16 \<Rightarrow> pkt_seq" where
  "tcp_template proto = \<lparr>eth_dst_addr = [0, 1, 2, 3, 4, 5], eth_src_addr = [0, 1, 2, 3, 4, 6],
     ip_src_addr = \<lparr>ip_family = 2, ip_addr = with_ipv4 0xC0A80001 (replicate 16 0), ip_prefixlen = 24\<rparr>,
     ip_dst_addr = \<lparr>ip_family = 2, ip_addr = with_ipv4 0xC0A80101 (replicate 16 0), ip_prefixlen = 24\<rparr>,
     ip_mask = 0xFFFFFF00, pk_sport = 1234, pk_dport = 5678, ethType = RTE_ETHER_TYPE_IPV4, ipProto = proto,
     pk_vlanid = 1, pk_cos = 0, pk_tos = 0, ether_hdr_size = 14, pk_tcp_seq = 305419896, pk_tcp_ack = 305419920,
     pk_tcp_flags = 16, pk_mpls_entry = 0, qinq_outerid = 0, qinq_innerid = 0, pk_gre_key = 0, pk_size = 64,
     seq_enabled = 1, pk_ttl = 64, pk_gtpu_teid = 0, pk_vni_flags = 0, pk_group_id = 0, pk_vxlan_id = 0, pk_ol_flags = 0\<rparr>"

definition tcp_build :: "pkt_seq \<Rightarrow> u64 \<Rightarrow> build" where
  "tcp_build pkt flags = \<lparr>b_pinfo = \<lparr>p_pid = 0, port_flags = flags, transmit_count = 0, current_tx_count = 0, tx_cycles = 0,
       seq_pkt = replicate 20 pkt, p_range = undefined, rx_burst = 64, tx_burst = 32, seqIdx = 0, seqCnt = 0,
       prime_cnt = 1, p_vlanid = 1, p_cos = 0, p_tos = 0, p_vni_flags = 0\<rparr>,
     b_hdr = replicate 20 (replicate 1518 0), b_ident = 0, b_next_index = 0\<rparr>"

definition plain_env :: build_env where
  "plain_env = \<lparr>be_fill = NO_FILL_PATTERN, be_user_pattern = [], be_jumbo = False, be_ipv4_offload = False,
     be_tcp_offload = False, be_udp_offload = False, be_requires_phdr = False, be_entropy = 0, be_time = 0,
     be_rnd_ip = 0, be_rnd_pt = 0\<rparr>"

theorem packet_on_wire_witness:
  "\<exists>b'. pktgen_packet_ctor plain_env 16 (-1) (tcp_build (tcp_template PG_IPPROTO_TCP) 0) = Some b'
    \<and> valid_ipv4_packet (seq_pkt (b_pinfo b') ! 16) (unat (ether_hdr_size (seq_pkt (b_pinfo b') ! 16))) (b_hdr b' ! 16)"
  using packet_on_wire [of 16 "tcp_build (tcp_template PG_IPPROTO_TCP) 0" "tcp_template PG_IPPROTO_TCP" plain_env "replicate 1518 0" "-1"]
  by (auto simp: tcp_build_def plain_env_def tcp_template_def wf_pkt_def pktgen_fill_pattern_def pktgen_tst_port_flags_def
      PG_IPPROTO_TCP_def PG_IPPROTO_L4_GTPU_PORT_def LATENCY_PKT_def link_len_def bytes_simps with_ipv4_def Let_def)

subsection \<open>Packets that are not what they should be\<close>

lemma wr_take: "n \<le> i \<Longrightarrow> i \<le> length m \<Longrightarrow> take n (wr i bs m) = take n m"
  by (simp add: wr_def min_absorb1)

lemma wr_drop: "i + length bs \<le> n \<Longrightarrow> i + length bs \<le> length m \<Longrightarrow> drop n (wr i bs m) = drop n m"
  by (simp add: wr_def)

lemma wr_window:
  assumes "i + length bs \<le> length m" "j + n \<le> i \<or> i + length bs \<le> j"
  shows "take n (drop j (wr i bs m)) = take n (drop j m)"
  using assms(2)
proof
  assume "j + n \<le> i"
  then have "take n (drop j (wr i bs m)) = drop j (take (n + j) (wr i bs m))" by (simp add: take_drop)
  also have "\<dots> = drop j (take (n + j) m)" using assms(1) \<open>j + n \<le> i\<close> by (simp add: wr_take add.commute)
  finally show ?thesis by (simp add: take_drop)
next
  assume "i + length bs \<le> j"
  then show ?thesis using assms(1) by (simp add: wr_drop)
qed

lemma wr_at: "i + length bs \<le> length m \<Longrightarrow> take (length bs) (drop i (wr i bs m)) = bs"
  by (simp add: wr_def)

lemma icmp_id:
  "put_le16 0x1234 = [52, 18]" "put_le16 0x5678 = [120, 86]" "put_le32 0x80004321 = [33, 67, 0, 128]"
  by code_simp+

lemma cksum_put:
  "x = map_option (\<lambda>c. wr i (put_le16 (f c)) m) r \<Longrightarrow> x = Some m' \<Longrightarrow> \<exists>c. m' = wr i (put_le16 c) m"
  by (cases r) auto

lemma icmp_ctor_bytes:
  assumes ty: "ty = -1 \<or> ty = ICMP4_TIMESTAMP \<or> ty = ICMP4_ECHO" and len: "ip + 60 \<le> length m"
    and m1: "icmp_ctor pkt ip ty m = Some m1"
  shows "length m1 = length m \<and> take 8 (drop (ip + 20) m1) = take 8 (drop (ip + 20) m) \<and> take 1 (drop (ip + 28) m1) = [52]"
proof -
  let ?i = "ip + 20 + 8" and ?t = "pk_size pkt - (ether_hdr_size pkt + 20)"
  let ?m = "\<lambda>x. wr ?i [x] (wr (?i + 1) [0] (wr (ip + 9) [ucast (ipProto pkt)]
      (wr (ip + 2) (be16 ?t) (wr (ip + 16) (be32 (dst_ipv4 pkt)) (wr (ip + 12) (be32 (src_ipv4 pkt)) m)))))"
  let ?n = "\<lambda>bs x. wr (?i + 2) [0, 0] (wr ?i bs (?m x))"
  have M: "length (?m x) = length m" "take 8 (drop (ip + 20) (?m x)) = take 8 (drop (ip + 20) m)" for x
    using len by (simp_all add: wr_window)
  have "\<exists>bs x c. m1 = wr (?i + 2) (put_le16 c) (?n bs x) \<and> length bs \<le> 16 \<and> take 1 bs = [52] \<and> 2 < length bs"
  proof (cases "ty = ICMP4_ECHO")
    case True
    let ?bs = "put_le16 0x1234 @ put_le16 0x5678 @ replicate 4 0"
    have n: "(ty = -1 \<or> ty = ICMP4_TIMESTAMP) = False" "(ty = ICMP4_ECHO) = True"
      using True by (simp_all add: ICMP4_ECHO_def ICMP4_TIMESTAMP_def)
    have "icmp_ctor pkt ip ty m = map_option (\<lambda>c. wr (?i + 2) (put_le16 (udp_nonzero c)) (?n ?bs (of_int ICMP4_ECHO)))
        (raw_cksum_at ?i (unat ?t) (?n ?bs (of_int ICMP4_ECHO)))"
      unfolding icmp_ctor_def Let_def n if_True if_False by (rule refl)
    then have "\<exists>c. m1 = wr (?i + 2) (put_le16 c) (?n ?bs (of_int ICMP4_ECHO))"
      by (rule cksum_put [OF _ m1])
    then obtain c where "m1 = wr (?i + 2) (put_le16 c) (?n ?bs (of_int ICMP4_ECHO))" by blast
    moreover have "length ?bs \<le> 16" "take 1 ?bs = [52]" "2 < length ?bs" by (simp_all only: icmp_id) simp_all
    ultimately show ?thesis by blast
  next
    case False
    let ?bs = "put_le16 0x1234 @ put_le16 0x5678 @ put_le32 0x80004321 @ replicate 8 0"
    have n: "(ty = -1 \<or> ty = ICMP4_TIMESTAMP) = True" using False ty by blast
    have "icmp_ctor pkt ip ty m = map_option (\<lambda>c. wr (?i + 2) (put_le16 (udp_nonzero c)) (?n ?bs (of_int ICMP4_TIMESTAMP)))
        (raw_cksum_at ?i (unat ?t) (?n ?bs (of_int ICMP4_TIMESTAMP)))"
      unfolding icmp_ctor_def Let_def n if_True if_False by (rule refl)
    then have "\<exists>c. m1 = wr (?i + 2) (put_le16 c) (?n ?bs (of_int ICMP4_TIMESTAMP))"
      by (rule cksum_put [OF _ m1])
    then obtain c where "m1 = wr (?i + 2) (put_le16 c) (?n ?bs (of_int ICMP4_TIMESTAMP))" by blast
    moreover have "length ?bs \<le> 16" "take 1 ?bs = [52]" "2 < length ?bs" by (simp_all only: icmp_id) simp_all
    ultimately show ?thesis by blast
  qed
  then obtain bs x c where c: "m1 = wr (?i + 2) (put_le16 c) (?n bs x)" and bs: "length bs \<le> 16" "take 1 bs = [52]" "2 < length bs"
    by blast
  have "length (wr ?i bs (?m x)) = length m" using bs len M(1) [of x] by simp
  moreover have "take 8 (drop (ip + 20) (wr ?i bs (?m x))) = take 8 (drop (ip + 20) m)"
    using bs len M [of x] by (subst wr_window) simp_all
  moreover have "take 1 (drop (ip + 28) (wr ?i bs (?m x))) = [52]"
    using bs len M(1) [of x] by (simp add: wr_def)
  ultimately show ?thesis
    unfolding c using len by (simp add: wr_window bytes_simps)
qed

lemma take_drop3: "take i m @ take n (drop i m) @ drop (i + n) m = m"
  by (metis append_take_drop_id drop_drop add.commute)

lemma raw_cksum_at_None: "(raw_cksum_at i n m = None) = (\<not> i + n \<le> length m)"
  by (simp add: raw_cksum_at_def)

lemma icmp_ctor_returns:
  assumes "ip + 28 + unat (pk_size pkt - (ether_hdr_size pkt + 20)) \<le> length m" and "ip + 60 \<le> length m"
  shows "icmp_ctor pkt ip ty m \<noteq> None"
  unfolding icmp_ctor_def Let_def option.map_disc_iff raw_cksum_at_None
  using assms by (simp add: bytes_simps)

text \<open>
  An ICMP packet is none: the bytes behind the IPv4 header, where the ICMP header belongs, are those of the
  fill pattern, and the type that is written, eight bytes further on, is overwritten by the identifier:
  it is 52, neither an echo request (8) nor a time stamp (13).
\<close>

lemma icmp_packet_malformed:
  assumes "ipProto pkt = PG_IPPROTO_ICMP" and "ty = -1 \<or> ty = ICMP4_TIMESTAMP \<or> ty = ICMP4_ECHO" and "ip + 60 \<le> length m"
    and "ip + 28 + unat (pk_size pkt - (ether_hdr_size pkt + 20)) \<le> length m"
  shows "\<exists>p m' i. ipv4_packet env pinfo entropy ty ip ident pkt m = Some (p, m', i)
    \<and> take 8 (drop (ip + 20) m') = take 8 (drop (ip + 20) m) \<and> rd8 (ip + 28) m' = 52"
proof -
  obtain m1 where 1: "icmp_ctor pkt ip ty m = Some m1" using icmp_ctor_returns [OF assms(4,3)] by blast
  have m1: "length m1 = length m \<and> take 8 (drop (ip + 20) m1) = take 8 (drop (ip + 20) m) \<and> take 1 (drop (ip + 28) m1) = [52]"
    using 1 icmp_ctor_bytes [OF assms(2,3)] by blast
  have "length (take ip m1) = ip" "length (take 20 (drop ip m1)) = 20" using m1 assms(3) by simp_all
  from ip4_ctor [OF this, of pkt ident "be_ipv4_offload env" "drop (ip + 20) m1"]
  obtain m' i where 2: "pktgen_ipv4_ctor pkt ident ip (be_ipv4_offload env) m1 = Some (m', i)"
    unfolding take_drop3 by blast
  have "take n (drop j m') = take n (drop j m1)" if "ip + 20 \<le> j" for n j
    using 2 m1 assms(3) that
    by (auto simp: pktgen_ipv4_ctor_def Let_def wr_window ipv4_hdr_ip4 length_ip4 bytes_simps split: if_splits option.splits)
  then have t: "take 8 (drop (ip + 20) m') = take 8 (drop (ip + 20) m)" "take 1 (drop (ip + 28) m') = [52]"
    using m1 by simp_all
  from t(2) have "rd8 (ip + 28) m' = 52"
    by (cases "drop (ip + 28) m'") (auto simp: rd8_def nth_via_drop)
  moreover have "ipv4_packet env pinfo entropy ty ip ident pkt m = Some (pkt, m', i)"
    using assms(1) 1 2 by (simp add: ipv4_packet_def Let_def PG_IPPROTO_ICMP_def PG_IPPROTO_TCP_def PG_IPPROTO_UDP_def)
  ultimately show ?thesis using t(1) by simp
qed

lemma icmp_packet_malformed_example:
  "\<exists>p m' i. ipv4_packet plain_env (b_pinfo (tcp_build (tcp_template PG_IPPROTO_ICMP) 0)) 0 ICMP4_ECHO 14 0
     (tcp_template PG_IPPROTO_ICMP) (replicate 128 0) = Some (p, m', i) \<and> rd8 (14 + 28) m' = 52"
  using icmp_packet_malformed [of "tcp_template PG_IPPROTO_ICMP" ICMP4_ECHO 14 "replicate 128 0" plain_env
    "b_pinfo (tcp_build (tcp_template PG_IPPROTO_ICMP) 0)" 0 0]
  by (auto simp: tcp_template_def)

subsection \<open>GRE\<close>

text \<open>What is written from an offset on leaves the bytes before it.\<close>

definition keeps :: "nat \<Rightarrow> u8 list \<Rightarrow> u8 list \<Rightarrow> bool" where
  "keeps n m m' = (n \<le> length m' \<and> take n m' = take n m)"

lemma keeps_refl [simp]: "n \<le> length m \<Longrightarrow> keeps n m m"
  by (simp add: keeps_def)

lemma keeps_wr [simp]: "keeps n m m' \<Longrightarrow> n \<le> i \<Longrightarrow> keeps n m (wr i bs m')"
  by (auto simp: keeps_def wr_def min_def)

lemma keeps_ipv4_partial [simp]: "keeps n m m' \<Longrightarrow> n \<le> ip \<Longrightarrow> keeps n m (ipv4_partial pkt ip m')"
  by (simp add: ipv4_partial_def Let_def)

lemma keeps_ipv6_partial [simp]: "keeps n m m' \<Longrightarrow> n \<le> ip \<Longrightarrow> keeps n m (ipv6_partial pkt ip m')"
  by (simp add: ipv6_partial_def Let_def)

lemma keeps_tcp: "keeps n m m' \<Longrightarrow> n \<le> ip \<Longrightarrow> pktgen_tcp_hdr_ctor pkt ip ty o1 o2 m' = Some m'' \<Longrightarrow> keeps n m m''"
  by (auto simp: pktgen_tcp_hdr_ctor_def Let_def split: if_splits)

lemma keeps_udp: "keeps n m m' \<Longrightarrow> n \<le> ip \<Longrightarrow> pktgen_udp_hdr_ctor pkt ip ty o1 o2 m' = Some m'' \<Longrightarrow> keeps n m m''"
  by (auto simp: pktgen_udp_hdr_ctor_def Let_def split: if_splits)

lemma keeps_ipv4: "keeps n m m' \<Longrightarrow> n \<le> ip \<Longrightarrow> pktgen_ipv4_ctor pkt ident ip off m' = Some (m'', i) \<Longrightarrow> keeps n m m''"
  by (auto simp: pktgen_ipv4_ctor_def Let_def split: if_splits)

lemma keeps_gtpu [simp]: "keeps n m m' \<Longrightarrow> n \<le> ip \<Longrightarrow> keeps n m (pktgen_gtpu_hdr_ctor pkt ip pr fl sq np ne m')"
  by (simp add: pktgen_gtpu_hdr_ctor_def Let_def)

lemma keeps_icmp: "keeps n m m' \<Longrightarrow> n \<le> ip \<Longrightarrow> icmp_ctor pkt ip ty m' = Some m'' \<Longrightarrow> keeps n m m''"
  by (auto simp: icmp_ctor_def Let_def split: if_splits)

lemma keeps_arp [simp]: "keeps n m m' \<Longrightarrow> n \<le> ip \<Longrightarrow> keeps n m (arp_ctor pkt ip m')"
  by (simp add: arp_ctor_def Let_def)

lemma keeps_entropy [simp]: "keeps n m m' \<Longrightarrow> n \<le> i \<Longrightarrow> keeps n m (put_entropy e i m')"
  by (simp add: put_entropy_def)

lemma keeps_finish:
  "pktgen_ipv4_ctor p ident ip off m1 = Some (m2, i) \<Longrightarrow> n \<le> ip \<Longrightarrow> keeps n m m1 \<longrightarrow> keeps n m m2"
  using keeps_ipv4 [of n m m1 ip p ident off] by simp

lemma keeps_ipv4_packet:
  assumes "ipv4_packet env pinfo en ty ip ident pkt m1 = Some (p, m2, i)" "keeps n m m1" "n \<le> ip"
  shows "keeps n m m2 \<and> ether_hdr_size p = ether_hdr_size pkt"
proof -
  note k = assms(2,3) and g = keeps_gtpu [OF assms(2,3)]
  note d = keeps_tcp [OF k] keeps_udp [OF k] keeps_icmp [OF k] keeps_tcp [OF g k(2)] keeps_udp [OF g k(2)]
    keeps_finish [OF _ k(2), where m = m]
  from assms show ?thesis
    unfolding ipv4_packet_def Let_def by (auto split: if_split_asm option.split_asm dest!: d)
qed

lemma keeps_ipv6_packet:
  assumes "ipv6_packet env en ip pkt m1 = Some m2" "keeps n m m1" "n \<le> ip"
  shows "keeps n m m2"
proof -
  note d = keeps_tcp [OF assms(2,3)] keeps_udp [OF assms(2,3)]
  from assms show ?thesis by (auto simp: ipv6_packet_def pktgen_ipv6_ctor_def split: if_split_asm dest!: d)
qed

lemma keeps_gre: "keeps n m m' \<Longrightarrow> n \<le> l3 \<Longrightarrow> keeps n m (gre_headers ty pkt ident l3 m')"
  by (simp add: gre_headers_def Let_def)

lemma gre_link_layer:
  assumes "pktgen_tst_port_flags SEND_GRE_IPv4_HEADER pinfo \<or> pktgen_tst_port_flags SEND_GRE_ETHER_HEADER pinfo" "keeps 14 m m1"
    and "link_layer pinfo ident pkt m1 = (l3, p, m2, ident')"
  shows "keeps 14 m m2 \<and> 14 \<le> l3
    \<and> p = pkt\<lparr>ether_hdr_size := ether_hdr_size pkt + (if pktgen_tst_port_flags SEND_GRE_IPv4_HEADER pinfo then 28 else 42)\<rparr>"
  using assms
  by (auto simp: link_layer_def pktgen_gre_hdr_ctor_def pktgen_gre_ether_hdr_ctor_def Let_def intro!: keeps_wr keeps_gre split: if_splits)

text \<open>
  With a GRE tunnel no Ethernet header is built: the first 14 bytes of the packet, where it belongs, are
  those of the fill pattern, and each construction adds the tunnel's 28 or 42 bytes to the header size of the
  template once more, which shortens the lengths in the headers.
\<close>

lemma gre_packet_no_ethernet:
  assumes i: "i < length (seq_pkt (b_pinfo b))" "i < length (b_hdr b)"
    and gre: "pktgen_tst_port_flags SEND_GRE_IPv4_HEADER (b_pinfo b) \<or> pktgen_tst_port_flags SEND_GRE_ETHER_HEADER (b_pinfo b)"
    and fill: "pktgen_fill_pattern (if be_jumbo env then RTE_ETHER_MAX_JUMBO_FRAME_LEN else RTE_ETHER_MAX_LEN)
      (be_fill env) (be_user_pattern env) (b_hdr b ! i) = Some m0" and len: "14 \<le> length m0"
    and ctor: "pktgen_packet_ctor env i ty b = Some b'"
  shows "take 14 (b_hdr b' ! i) = take 14 m0
    \<and> ether_hdr_size (seq_pkt (b_pinfo b') ! i) = ether_hdr_size (seq_pkt (b_pinfo b) ! i)
        + (if pktgen_tst_port_flags SEND_GRE_IPv4_HEADER (b_pinfo b) then 28 else 42)"
proof -
  let ?pkt = "seq_pkt (b_pinfo b) ! i"
  define m1 where "m1 = (if i = LATENCY_PKT then wr pktgen_tstamp_pointer (tstamp_bytes (b_next_index b) (be_time env)) m0 else m0)"
  obtain l3 p m2 id2 where l: "link_layer (b_pinfo b) (b_ident b) (randomize env (b_pinfo b) ?pkt) m1 = (l3, p, m2, id2)"
    by (metis prod_cases4)
  have "keeps 14 m0 m1" using len by (simp add: m1_def pktgen_tstamp_pointer_def)
  from gre_link_layer [OF gre this l] have k: "keeps 14 m0 m2" "14 \<le> l3"
    and p: "ether_hdr_size p = ether_hdr_size (randomize env (b_pinfo b) ?pkt)
      + (if pktgen_tst_port_flags SEND_GRE_IPv4_HEADER (b_pinfo b) then 28 else 42)" by simp_all
  note d = keeps_ipv4_packet [OF _ k] keeps_ipv6_packet [OF _ k]
  have r: "ether_hdr_size (randomize env (b_pinfo b) ?pkt) = ether_hdr_size ?pkt"
    by (simp add: randomize_def Let_def)
  obtain p3 m3 where 3: "b_hdr b' = (b_hdr b)[i := m3]" "b_pinfo b' = upd_pkt i (\<lambda>_. p3) (b_pinfo b)"
    and "keeps 14 m0 m3" "ether_hdr_size p3 = ether_hdr_size p"
    using ctor unfolding pktgen_packet_ctor_def Let_def fill option.case m1_def [symmetric] l
    using k by (auto simp: set_hdr_def split: if_split_asm dest!: d)
  then show ?thesis
    using i p r by (simp add: keeps_def upd_pkt_def)
qed

lemma offload_returns:
  assumes "pktgen_fill_pattern (if be_jumbo env then RTE_ETHER_MAX_JUMBO_FRAME_LEN else RTE_ETHER_MAX_LEN)
      (be_fill env) (be_user_pattern env) (b_hdr b ! i) = Some m0"
    and "ipProto (seq_pkt (b_pinfo b) ! i) = PG_IPPROTO_TCP" "be_ipv4_offload env" "be_tcp_offload env"
    and "ethType (seq_pkt (b_pinfo b) ! i) = RTE_ETHER_TYPE_IPV4"
  shows "\<exists>b'. pktgen_packet_ctor env i ty b = Some b'"
proof -
  let ?pkt = "seq_pkt (b_pinfo b) ! i"
  define m1 where "m1 = (if i = LATENCY_PKT then wr pktgen_tstamp_pointer (tstamp_bytes (b_next_index b) (be_time env)) m0 else m0)"
  obtain l3 p m2 id2 where l: "link_layer (b_pinfo b) (b_ident b) (randomize env (b_pinfo b) ?pkt) m1 = (l3, p, m2, id2)"
    by (metis prod_cases4)
  then have "ethType p = ethType ?pkt" "ipProto p = ipProto ?pkt"
    by (auto simp: link_layer_def pktgen_gre_hdr_ctor_def pktgen_gre_ether_hdr_ctor_def pktgen_ether_hdr_ctor_def randomize_def
        Let_def split: if_split_asm)
  then show ?thesis
    unfolding pktgen_packet_ctor_def Let_def assms(1) option.case m1_def [symmetric] l
    using assms(2-5)
    by (auto simp: ipv4_packet_def pktgen_tcp_hdr_ctor_def pktgen_ipv4_ctor_def Let_def)
qed

lemma gre_packet_no_ethernet_example:
  "\<exists>b'. pktgen_packet_ctor (plain_env\<lparr>be_ipv4_offload := True, be_tcp_offload := True\<rparr>) 2 (-1)
       (tcp_build (tcp_template PG_IPPROTO_TCP) SEND_GRE_IPv4_HEADER) = Some b'
    \<and> take 14 (b_hdr b' ! 2) = replicate 14 0 \<and> ether_hdr_size (seq_pkt (b_pinfo b') ! 2) = 42"
proof -
  let ?env = "plain_env\<lparr>be_ipv4_offload := True, be_tcp_offload := True\<rparr>"
  let ?b = "tcp_build (tcp_template PG_IPPROTO_TCP) SEND_GRE_IPv4_HEADER"
  have f: "pktgen_fill_pattern (if be_jumbo ?env then RTE_ETHER_MAX_JUMBO_FRAME_LEN else RTE_ETHER_MAX_LEN)
      (be_fill ?env) (be_user_pattern ?env) (b_hdr ?b ! 2) = Some (replicate 1518 0)"
    by (simp add: pktgen_fill_pattern_def plain_env_def tcp_build_def nth_replicate)
  have g: "pktgen_tst_port_flags SEND_GRE_IPv4_HEADER (b_pinfo ?b)"
    by (simp add: pktgen_tst_port_flags_def tcp_build_def SEND_GRE_IPv4_HEADER_def)
  have i: "2 < length (seq_pkt (b_pinfo ?b))" "2 < length (b_hdr ?b)" by (simp_all add: tcp_build_def)
  have p: "seq_pkt (b_pinfo ?b) ! 2 = tcp_template PG_IPPROTO_TCP" by (simp add: tcp_build_def nth_replicate)
  have t: "ipProto (tcp_template PG_IPPROTO_TCP) = PG_IPPROTO_TCP" "ethType (tcp_template PG_IPPROTO_TCP) = RTE_ETHER_TYPE_IPV4"
    "ether_hdr_size (tcp_template PG_IPPROTO_TCP) = 14"
    by (simp_all add: tcp_template_def)
  obtain b' where b: "pktgen_packet_ctor ?env 2 (-1) ?b = Some b'"
    using offload_returns [OF f] t by (auto simp: p)
  from gre_packet_no_ethernet [OF i _ f _ b] g b show ?thesis by (simp add: p t)
qed

end
