(* ===== verification/PktSetup.thy ===== *)
theory PktSetup
  imports PktRange PktCheck PcapLoad L2pTable
begin

text \<open>
  Filling the transmit pools of a port: \<open>mempool_setup_cb\<close> and \<open>pktgen_setup_packets\<close> of
  \<open>app/pktgen.c\<close>. Every buffer of a pool gets a copy of a packet: of the single template, of the next
  template of the sequence, or of the next packet of the range. What the clock, the random numbers and
  the device say may differ from call to call; \<open>envs n\<close> is what the \<open>n\<close>-th call finds.
\<close>

subsection \<open>The code\<close>

definition SEND_RANDOM_PKTS :: u64 where "SEND_RANDOM_PKTS = push_bit 16 1"
definition SETUP_TRANSMIT_PKTS :: u64 where "SETUP_TRANSMIT_PKTS = push_bit 28 1"
definition RTE_MBUF_F_TX_TCP_CKSUM :: u64 where "RTE_MBUF_F_TX_TCP_CKSUM = push_bit 52 1"
definition RTE_MBUF_F_TX_UDP_CKSUM :: u64 where "RTE_MBUF_F_TX_UDP_CKSUM = push_bit 52 3"
definition RTE_MBUF_F_TX_IP_CKSUM :: u64 where "RTE_MBUF_F_TX_IP_CKSUM = push_bit 54 1"
definition RTE_MBUF_F_TX_IPV4 :: u64 where "RTE_MBUF_F_TX_IPV4 = push_bit 55 1"
definition RTE_MBUF_F_TX_IPV6 :: u64 where "RTE_MBUF_F_TX_IPV6 = push_bit 56 1"
definition FIRST_SEQ_PKT :: nat where "FIRST_SEQ_PKT = 0"

text \<open>The buffer with the header lengths for the offloads, bit fields of 7 and 9 bits.\<close>

record tx_mbuf = mbuf +
  m_l2_len :: nat
  m_l3_len :: nat

record pool_setup =
  s_build :: build
  s_statics :: range_statics
  s_calls :: nat

text \<open>Which template is used: its index, and the port after the sequence index or the range moved on.\<close>

definition next_template :: "nat \<Rightarrow> range_statics \<Rightarrow> port_info \<Rightarrow> nat \<times> range_statics \<times> port_info" where
  "next_template seq_idx st pinfo =
     (let (idx, pinfo1) =
        (if pktgen_tst_port_flags SEND_SEQ_PKTS pinfo
         then (unat (seqIdx pinfo),
               pinfo\<lparr>seqIdx := (if seqIdx pinfo + 1 \<ge> seqCnt pinfo then 0 else seqIdx pinfo + 1)\<rparr>)
         else (seq_idx, pinfo))
      in if idx = RANGE_PKT
         then (let (st1, p) = pktgen_range_ctor (p_range pinfo1) (st, seq_pkt pinfo1 ! idx)
               in (idx, st1, upd_pkt idx (\<lambda>_. p) pinfo1))
         else (idx, st, pinfo1))"

definition tx_ol_flags :: "build_env \<Rightarrow> pkt_seq \<Rightarrow> u64" where
  "tx_ol_flags env pkt =
     (let fl = (if ethType pkt = RTE_ETHER_TYPE_IPV4 then
                  (if be_ipv4_offload env then RTE_MBUF_F_TX_IP_CKSUM OR RTE_MBUF_F_TX_IPV4 else pk_ol_flags pkt)
                else if ethType pkt = RTE_ETHER_TYPE_IPV6 then RTE_MBUF_F_TX_IP_CKSUM OR RTE_MBUF_F_TX_IPV6
                else pk_ol_flags pkt)
      in if ipProto pkt = PG_IPPROTO_UDP then (if be_udp_offload env then fl OR RTE_MBUF_F_TX_UDP_CKSUM else fl)
         else if ipProto pkt = PG_IPPROTO_TCP then (if be_tcp_offload env then fl OR RTE_MBUF_F_TX_TCP_CKSUM else fl)
         else fl)"

datatype setup_error = Exit_invalid_l2p_port | Exit_invalid_tx_mempool

definition mempool_setup_cb ::
  "(nat \<Rightarrow> build_env) \<Rightarrow> nat \<Rightarrow> pool_setup \<Rightarrow> tx_mbuf \<Rightarrow> (setup_error + pool_setup \<times> tx_mbuf) option" where
  "mempool_setup_cb envs seq_idx s m =
     (let env = envs (s_calls s);
          (idx, st, pinfo) = next_template seq_idx (s_statics s) (b_pinfo (s_build s)) in
      case pktgen_packet_ctor env idx (-1) ((s_build s)\<lparr>b_pinfo := pinfo\<rparr>) of
        None \<Rightarrow> None
      | Some b \<Rightarrow>
          (let pkt = seq_pkt (b_pinfo b) ! idx; hdr = b_hdr b ! idx; fl = tx_ol_flags env pkt in
           if length hdr < unat (pk_size pkt) then None
           else case mtod_write (take (unat (pk_size pkt)) hdr) m of
             None \<Rightarrow> None
           | Some m1 \<Rightarrow>
               Some (Inr (\<lparr>s_build = b\<lparr>b_pinfo := upd_pkt idx (\<lambda>p. p\<lparr>pk_ol_flags := fl\<rparr>) (b_pinfo b)\<rparr>,
                           s_statics = st, s_calls = Suc (s_calls s)\<rparr>,
                          m1\<lparr>m_pkt_len := ucast (pk_size pkt), m_data_len := pk_size pkt,
                             m_l2_len := unat (ether_hdr_size pkt) mod 128, m_l3_len := 20, m_ol_flags := fl\<rparr>))))"

fun setup_queues ::
  "(nat \<Rightarrow> build_env) \<Rightarrow> l2p \<Rightarrow> nat \<Rightarrow> nat \<Rightarrow> nat list \<Rightarrow> pool_setup \<Rightarrow> (nat \<Rightarrow> tx_mbuf list)
   \<Rightarrow> (setup_error + pool_setup \<times> (nat \<Rightarrow> tx_mbuf list)) option" where
  "setup_queues envs t pid idx [] s pools = Some (Inr (s, pools))"
| "setup_queues envs t pid idx (q # qs) s pools =
     (case l2p_get_tx_mp t pid q of
        None \<Rightarrow> Some (Inl Exit_invalid_tx_mempool)
      | Some mp \<Rightarrow>
          (case rte_mempool_obj_iter (mempool_setup_cb envs idx) s (pools mp) of
             None \<Rightarrow> None
           | Some (Inl e) \<Rightarrow> Some (Inl e)
           | Some (Inr (s1, ms)) \<Rightarrow> setup_queues envs t pid idx qs s1 (pools(mp := ms))))"

definition setup_idx :: "port_info \<Rightarrow> nat" where
  "setup_idx pinfo =
     (if pktgen_tst_port_flags SEND_RANGE_PKTS pinfo then RANGE_PKT
      else if pktgen_tst_port_flags SEND_SEQ_PKTS pinfo then FIRST_SEQ_PKT
      else SINGLE_PKT)"

text \<open>The port is the one \<open>l2p_get_port_pinfo\<close> gives for \<open>pid\<close>.\<close>

definition pktgen_setup_packets ::
  "(nat \<Rightarrow> build_env) \<Rightarrow> l2p \<Rightarrow> nat \<Rightarrow> pool_setup \<Rightarrow> (nat \<Rightarrow> tx_mbuf list)
   \<Rightarrow> (setup_error + pool_setup \<times> (nat \<Rightarrow> tx_mbuf list)) option" where
  "pktgen_setup_packets envs t pid s pools =
     (let pinfo = b_pinfo (s_build s) in
      if l2p_get_port t pid = None then Some (Inl Exit_invalid_l2p_port)
      else if pktgen_tst_port_flags SETUP_TRANSMIT_PKTS pinfo then
        (let pinfo1 = pktgen_clr_port_flags SETUP_TRANSMIT_PKTS pinfo;
             s1 = s\<lparr>s_build := (s_build s)\<lparr>b_pinfo := pinfo1\<rparr>\<rparr> in
         if \<not> pktgen_tst_port_flags SEND_PCAP_PKTS pinfo1
         then setup_queues envs t pid (setup_idx pinfo1) [0..<l2p_get_txcnt t pid] s1 pools
         else Some (Inr (s1, pools)))
      else Some (Inr (s, pools)))"

subsection \<open>Call-backs that make one thing after the other\<close>

text \<open>\<open>at n s\<close>: the next thing is number \<open>n\<close>; \<open>made n m\<close>: the buffer holds thing number \<open>n\<close>.\<close>

locale serial_filler =
  fixes cb :: "'s \<Rightarrow> 'm \<Rightarrow> ('e + 's \<times> 'm) option"
    and at :: "nat \<Rightarrow> 's \<Rightarrow> bool"
    and fits :: "'m \<Rightarrow> bool"
    and made :: "nat \<Rightarrow> 'm \<Rightarrow> bool"
  assumes step: "at n s \<Longrightarrow> fits m \<Longrightarrow> \<exists>s' m'. cb s m = Some (Inr (s', m')) \<and> at (Suc n) s' \<and> made n m'"
begin

lemma iter:
  "at n s \<Longrightarrow> list_all fits ms \<Longrightarrow>
   \<exists>s' ms'. rte_mempool_obj_iter cb s ms = Some (Inr (s', ms')) \<and> at (n + length ms) s'
     \<and> length ms' = length ms \<and> (\<forall>j < length ms. made (n + j) (ms' ! j))"
proof (induction ms arbitrary: n s)
  case Nil
  then show ?case by simp
next
  case (Cons m ms)
  then have "fits m" "list_all fits ms" by simp_all
  from step [OF Cons.prems(1) this(1)] obtain s1 m1 where
    1: "cb s m = Some (Inr (s1, m1))" "at (Suc n) s1" "made n m1" by blast
  from Cons.IH [OF 1(2) \<open>list_all fits ms\<close>] obtain s2 ms2 where
    2: "rte_mempool_obj_iter cb s1 ms = Some (Inr (s2, ms2))" "at (Suc n + length ms) s2"
      "length ms2 = length ms" "\<forall>j < length ms. made (Suc n + j) (ms2 ! j)" by blast
  have "made (n + j) ((m1 # ms2) ! j)" if "j < length (m # ms)" for j
    using that 1(3) 2(4) by (cases j) auto
  with 1(1) 2 show ?case by (intro exI [of _ s2] exI [of _ "m1 # ms2"]) auto
qed

end

text \<open>The pools of the transmit queues of a port: they are there, different, and their buffers large enough.\<close>

definition tx_pools :: "l2p \<Rightarrow> nat \<Rightarrow> nat list" where
  "tx_pools t pid = map (\<lambda>q. the (l2p_get_tx_mp t pid q)) [0..<l2p_get_txcnt t pid]"

definition pools_ok :: "(tx_mbuf \<Rightarrow> bool) \<Rightarrow> l2p \<Rightarrow> nat \<Rightarrow> (nat \<Rightarrow> tx_mbuf list) \<Rightarrow> bool" where
  "pools_ok fits t pid pools \<longleftrightarrow> l2p_get_port t pid \<noteq> None \<and> distinct (tx_pools t pid)
     \<and> list_all (\<lambda>q. l2p_get_tx_mp t pid q \<noteq> None) [0..<l2p_get_txcnt t pid]
     \<and> list_all (\<lambda>mp. list_all fits (pools mp)) (tx_pools t pid)"

definition tx_buffers :: "l2p \<Rightarrow> nat \<Rightarrow> (nat \<Rightarrow> tx_mbuf list) \<Rightarrow> tx_mbuf list" where
  "tx_buffers t pid pools = concat (map pools (tx_pools t pid))"

definition setup_begun :: "pool_setup \<Rightarrow> pool_setup" where
  "setup_begun s = s\<lparr>s_build := (s_build s)\<lparr>b_pinfo := pktgen_clr_port_flags SETUP_TRANSMIT_PKTS (b_pinfo (s_build s))\<rparr>\<rparr>"

text \<open>The queues of a port are filled one after the other: their buffers in a row hold the things in a row.\<close>

locale pool_filler = serial_filler "mempool_setup_cb envs idx" at fits made
  for envs idx at fits made
begin

lemma queues:
  assumes "at n s" and "\<And>q. q \<in> set qs \<Longrightarrow> l2p_get_tx_mp t pid q = Some (mp q)" and "distinct (map mp qs)"
    and "\<And>q. q \<in> set qs \<Longrightarrow> list_all fits (pools (mp q))"
  shows "\<exists>s' pools'. setup_queues envs t pid idx qs s pools = Some (Inr (s', pools'))
    \<and> (\<forall>x. x \<notin> mp ` set qs \<longrightarrow> pools' x = pools x)
    \<and> map (\<lambda>q. length (pools' (mp q))) qs = map (\<lambda>q. length (pools (mp q))) qs
    \<and> (\<forall>j < length (concat (map (\<lambda>q. pools' (mp q)) qs)). made (n + j) (concat (map (\<lambda>q. pools' (mp q)) qs) ! j))"
  using assms
proof (induction qs arbitrary: n s pools)
  case Nil
  then show ?case by simp
next
  case (Cons q qs)
  obtain s1 ms where 1: "rte_mempool_obj_iter (mempool_setup_cb envs idx) s (pools (mp q)) = Some (Inr (s1, ms))"
    "at (n + length ms) s1" "length ms = length (pools (mp q))" "\<forall>j < length ms. made (n + j) (ms ! j)"
    using iter [OF Cons.prems(1) Cons.prems(4) [of q]] by auto
  define p1 where "p1 = pools(mp q := ms)"
  have nq: "mp r \<noteq> mp q" if "r \<in> set qs" for r using Cons.prems(3) that by (metis distinct.simps(2) image_eqI list.simps(9) set_map)
  then have p1: "p1 (mp r) = pools (mp r)" if "r \<in> set qs" for r using that by (simp add: p1_def)
  have ih: "l2p_get_tx_mp t pid r = Some (mp r)" "list_all fits (p1 (mp r))" if "r \<in> set qs" for r
    using Cons.prems(2,4) that p1 by simp_all
  have "distinct (map mp qs)" using Cons.prems(3) by simp
  from Cons.IH [where pools = p1, OF 1(2) ih(1) this ih(2)] obtain s2 p2 where 2: "setup_queues envs t pid idx qs s1 p1 = Some (Inr (s2, p2))"
    "\<forall>x. x \<notin> mp ` set qs \<longrightarrow> p2 x = p1 x" "map (\<lambda>q. length (p2 (mp q))) qs = map (\<lambda>q. length (p1 (mp q))) qs"
    "\<forall>j < length (concat (map (\<lambda>q. p2 (mp q)) qs)). made (n + length ms + j) (concat (map (\<lambda>q. p2 (mp q)) qs) ! j)"
    by blast
  have q: "p2 (mp q) = ms" using 2(2) Cons.prems(3) by (simp add: p1_def)
  have "made (n + j) ((ms @ concat (map (\<lambda>q. p2 (mp q)) qs)) ! j)" if "j < length ms + length (concat (map (\<lambda>q. p2 (mp q)) qs))" for j
    using that 1(4) 2(4) [rule_format, of "j - length ms"] by (cases "j < length ms") (auto simp: nth_append)
  moreover have "map (\<lambda>r. length (p2 (mp r))) qs = map (\<lambda>r. length (pools (mp r))) qs" using 2(3) p1 by simp
  moreover have "setup_queues envs t pid idx (q # qs) s pools = Some (Inr (s2, p2))"
    using 1(1) 2(1) Cons.prems(2) [of q] by (simp add: p1_def)
  moreover have "\<forall>x. x \<notin> mp ` set (q # qs) \<longrightarrow> p2 x = pools x" using 2(2) by (simp add: p1_def)
  ultimately show ?case using q 1(3) by (intro exI [of _ s2] exI [of _ p2]) (simp del: setup_queues.simps)
qed

lemma port:
  assumes "at n (setup_begun s)" and "pools_ok fits t pid pools" and "pktgen_tst_port_flags SETUP_TRANSMIT_PKTS (b_pinfo (s_build s))"
    and "\<not> pktgen_tst_port_flags SEND_PCAP_PKTS (b_pinfo (s_build (setup_begun s)))" and "setup_idx (b_pinfo (s_build (setup_begun s))) = idx"
  shows "\<exists>s' pools'. pktgen_setup_packets envs t pid s pools = Some (Inr (s', pools'))
    \<and> length (tx_buffers t pid pools') = length (tx_buffers t pid pools)
    \<and> (\<forall>j < length (tx_buffers t pid pools). made (n + j) (tx_buffers t pid pools' ! j))"
proof -
  let ?mp = "\<lambda>q. the (l2p_get_tx_mp t pid q)" and ?qs = "[0..<l2p_get_txcnt t pid]"
  have q: "l2p_get_tx_mp t pid q = Some (?mp q)" "list_all fits (pools (?mp q))" if "q \<in> set ?qs" for q
    using assms(2) that by (auto simp: pools_ok_def tx_pools_def list_all_iff)
  have "distinct (map ?mp ?qs)" using assms(2) by (simp add: pools_ok_def tx_pools_def)
  from queues [where mp = ?mp and qs = ?qs and pools = pools, OF assms(1) q(1) this q(2)] obtain s' p' where 1: "setup_queues envs t pid idx ?qs (setup_begun s) pools = Some (Inr (s', p'))"
    "map (\<lambda>q. length (p' (?mp q))) ?qs = map (\<lambda>q. length (pools (?mp q))) ?qs"
    "\<forall>j < length (concat (map (\<lambda>q. p' (?mp q)) ?qs)). made (n + j) (concat (map (\<lambda>q. p' (?mp q)) ?qs) ! j)"
    by blast
  have l: "length (tx_buffers t pid p') = length (tx_buffers t pid pools)"
    using 1(2) by (simp add: tx_buffers_def tx_pools_def length_concat comp_def del: map_eq_conv)
  moreover have "\<forall>j < length (tx_buffers t pid p'). made (n + j) (tx_buffers t pid p' ! j)"
    using 1(3) by (simp add: tx_buffers_def tx_pools_def comp_def)
  moreover have "pktgen_setup_packets envs t pid s pools = Some (Inr (s', p'))"
    using 1(1) assms(2-5) by (auto simp: pktgen_setup_packets_def pools_ok_def setup_begun_def Let_def)
  ultimately show ?thesis by auto
qed

end

subsection \<open>A valid packet ends with its length\<close>

lemma get_le32_append: "4 \<le> length xs \<Longrightarrow> get_le32 (xs @ ys) = get_le32 xs"
  by (cases xs rule: get_le32.cases) auto

lemma reads_append:
  "i < length xs \<Longrightarrow> rd8 i (xs @ ys) = rd8 i xs"
  "i + 2 \<le> length xs \<Longrightarrow> rd_be16 i (xs @ ys) = rd_be16 i xs"
  "i + 4 \<le> length xs \<Longrightarrow> rd_be32 i (xs @ ys) = rd_be32 i xs"
  "i + n \<le> length xs \<Longrightarrow> take n (drop i (xs @ ys)) = take n (drop i xs)"
  "i + n \<le> length xs \<Longrightarrow> raw_cksum_at i n (xs @ ys) = raw_cksum_at i n xs"
  by (simp_all add: rd8_def nth_append rd_be16_def get_le16_take rd_be32_def get_le32_append raw_cksum_at_def)

lemma valid_ipv4_append:
  assumes v: "valid_ipv4_packet p l3 (xs @ ys)" and size: "unat (pk_size p) \<le> length xs" "l3 + 40 \<le> unat (pk_size p)"
  shows "valid_ipv4_packet p l3 xs"
proof -
  have h: "rte_ipv4_hdr_len l3 (xs @ ys) = rte_ipv4_hdr_len l3 xs"
    using size by (simp add: rte_ipv4_hdr_len_def reads_append)
  have l: "rd_be16 (l3 + 2) (xs @ ys) = rd_be16 (l3 + 2) xs" using size by (simp add: reads_append)
  have n: "rte_ipv4_hdr_len l3 xs = 20" "unat (rd_be16 (l3 + 2) xs) = unat (pk_size p) - l3"
    using v h l by (simp_all add: valid_ipv4_packet_def)
  have psd: "ipv4_psd_header l3 (xs @ ys) = ipv4_psd_header l3 xs"
    using size by (simp add: ipv4_psd_header_def h l reads_append)
  have "ipv4_udptcp_cksum l3 (l3 + 20) (xs @ ys) = ipv4_udptcp_cksum l3 (l3 + 20) xs"
    unfolding ipv4_udptcp_cksum_def Let_def h l psd rte_ipv4_phdr_cksum_def n using size by (simp add: reads_append(5))
  with v size h l show ?thesis
    by (simp add: valid_ipv4_packet_def rte_ipv4_udptcp_cksum_verify_def reads_append)
qed

subsection \<open>One buffer\<close>

text \<open>
  A port whose packets are neither tunnelled nor changed at random, and a template that the constructor takes: TCP or UDP over
  IPv4, not for the GTP-U port, with room for a link layer header of \<open>l\<close> bytes and the two others.
\<close>

definition plain_port :: "port_info \<Rightarrow> bool" where
  "plain_port pinfo \<longleftrightarrow> (\<forall>fl \<in> {SEND_GRE_IPv4_HEADER, SEND_GRE_ETHER_HEADER, SEND_VXLAN_PACKETS, RANDOMIZE_SRC_IP, RANDOMIZE_SRC_PT}.
     \<not> pktgen_tst_port_flags fl pinfo)"

definition sendable :: "nat \<Rightarrow> nat \<Rightarrow> pkt_seq \<Rightarrow> bool" where
  "sendable l room pkt \<longleftrightarrow> wf_pkt pkt \<and> ethType pkt = RTE_ETHER_TYPE_IPV4
     \<and> (ipProto pkt = PG_IPPROTO_TCP \<or> ipProto pkt = PG_IPPROTO_UDP) \<and> pk_dport pkt \<noteq> PG_IPPROTO_L4_GTPU_PORT
     \<and> l + 40 \<le> unat (pk_size pkt) \<and> unat (pk_size pkt) \<le> room"

text \<open>No hardware checksums, and memory of the templates that the fill pattern fits into.\<close>

definition plain_device :: "nat \<Rightarrow> build_env \<Rightarrow> bool" where
  "plain_device room env \<longleftrightarrow> \<not> be_ipv4_offload env \<and> \<not> be_tcp_offload env \<and> \<not> be_udp_offload env
     \<and> (be_fill env \<noteq> NO_FILL_PATTERN \<longrightarrow>
          unat (if be_jumbo env then RTE_ETHER_MAX_JUMBO_FRAME_LEN else RTE_ETHER_MAX_LEN) \<le> room)"

definition hdr_rooms :: "nat \<Rightarrow> u8 list list \<Rightarrow> bool" where
  "hdr_rooms room hs \<longleftrightarrow> length hs = NUM_TOTAL_PKTS \<and> list_all (\<lambda>h. length h = room) hs"

text \<open>The buffer holds a valid packet of a template: nothing of the template differs but the size of the link layer header.\<close>

definition holds_packet :: "pkt_seq \<Rightarrow> tx_mbuf \<Rightarrow> bool" where
  "holds_packet pkt m \<longleftrightarrow> (\<exists>l3 \<in> {14..22}. valid_ipv4_packet (pkt\<lparr>ether_hdr_size := of_nat l3\<rparr>) l3 (pkt_data m)
     \<and> take 12 (pkt_data m) = eth_dst_addr pkt @ eth_src_addr pkt
     \<and> length (pkt_data m) = unat (pk_size pkt) \<and> m_data_len m = pk_size pkt \<and> m_l2_len m = l3)"

lemma fill_returns:
  assumes "plain_device room env" "length h = room"
  obtains m0 where "pktgen_fill_pattern (if be_jumbo env then RTE_ETHER_MAX_JUMBO_FRAME_LEN else RTE_ETHER_MAX_LEN)
      (be_fill env) (be_user_pattern env) h = Some m0" "length m0 = room"
  using assms that unfolding plain_device_def pktgen_fill_pattern_def
  by (cases "be_fill env") (auto simp del: map_append)

lemma plain_randomize: "plain_port pinfo \<Longrightarrow> randomize env pinfo pkt = pkt"
  by (simp add: plain_port_def randomize_def Let_def)

text \<open>The call-back copies the packet the constructor builds.\<close>

lemma setup_cb_holds:
  assumes t: "next_template seq_idx (s_statics s) (b_pinfo (s_build s)) = (i, st, pinfo)"
    and i: "i < length (seq_pkt pinfo)" "i < NUM_TOTAL_PKTS" "i \<noteq> LATENCY_PKT"
    and port: "plain_port pinfo" and dev: "plain_device room (envs (s_calls s))"
    and hdr: "hdr_rooms room (b_hdr (s_build s))" and pkt: "sendable (link_len pinfo) room (seq_pkt pinfo ! i)"
    and m: "unat (pk_size (seq_pkt pinfo ! i)) \<le> length (m_data m)"
  shows "\<exists>s' m' e. mempool_setup_cb envs seq_idx s m = Some (Inr (s', m'))
    \<and> b_pinfo (s_build s') = upd_pkt i (\<lambda>p. p\<lparr>ether_hdr_size := e\<rparr>) pinfo \<and> s_statics s' = st
    \<and> hdr_rooms room (b_hdr (s_build s')) \<and> holds_packet (seq_pkt pinfo ! i) m'"
proof -
  let ?b = "(s_build s)\<lparr>b_pinfo := pinfo\<rparr>" and ?pkt = "seq_pkt pinfo ! i" and ?env = "envs (s_calls s)"
  have h: "i < length (b_hdr ?b)" "length (b_hdr ?b ! i) = room"
    using hdr i(2) by (simp_all add: hdr_rooms_def list_all_length)
  obtain m0 where fill: "pktgen_fill_pattern (if be_jumbo ?env then RTE_ETHER_MAX_JUMBO_FRAME_LEN else RTE_ETHER_MAX_LEN)
      (be_fill ?env) (be_user_pattern ?env) (b_hdr ?b ! i) = Some m0" and m0: "length m0 = room"
    using fill_returns [OF dev h(2)] .
  note p = pkt [unfolded sendable_def]
  have "\<exists>l3 p hd n. pktgen_packet_ctor ?env i (-1) ?b
        = Some (set_hdr i hd (?b\<lparr>b_pinfo := upd_pkt i (\<lambda>_. p) (b_pinfo ?b), b_ident := n\<rparr>))
      \<and> 14 \<le> l3 \<and> l3 \<le> 22 \<and> length hd = length m0 \<and> take 12 hd = eth_dst_addr ?pkt @ eth_src_addr ?pkt
      \<and> valid_ipv4_packet p l3 hd \<and> drop (l3 + 40) hd = drop (l3 + 40) m0
      \<and> p = (randomize ?env (b_pinfo ?b) ?pkt)\<lparr>ether_hdr_size := of_nat l3, pk_dport := pk_dport p\<rparr>
      \<and> (pktgen_tst_port_flags SEND_VXLAN_PACKETS (b_pinfo ?b) \<or> pk_dport p = pk_dport ?pkt)
      \<and> pk_dport p = (if ipProto ?pkt = PG_IPPROTO_UDP \<and> pktgen_tst_port_flags SEND_VXLAN_PACKETS (b_pinfo ?b) then VXLAN_PORT_ID else pk_dport ?pkt)
      \<and> l3 = link_len (b_pinfo ?b)"
    by (rule packet_built) (use i h fill m0 p port dev in \<open>auto simp: plain_port_def plain_device_def\<close>)
  then obtain l3 q hd n where c: "pktgen_packet_ctor ?env i (-1) ?b = Some (set_hdr i hd (?b\<lparr>b_pinfo := upd_pkt i (\<lambda>_. q) pinfo, b_ident := n\<rparr>))"
    and l3: "14 \<le> l3" "l3 \<le> 22" and hd: "length hd = room" "take 12 hd = eth_dst_addr ?pkt @ eth_src_addr ?pkt" "valid_ipv4_packet q l3 hd"
    and q: "q = ?pkt\<lparr>ether_hdr_size := of_nat l3\<rparr>" and ll: "l3 = link_len pinfo"
    using port plain_randomize [OF port] m0 by (auto simp: plain_port_def)
  let ?n = "unat (pk_size ?pkt)"
  have sz: "l3 + 40 \<le> ?n" "?n \<le> room" using p ll by simp_all
  have v: "valid_ipv4_packet q l3 (take ?n hd)"
    by (rule valid_ipv4_append [where ys = "drop ?n hd"]) (use hd sz l3 q in auto)
  let ?m = "m\<lparr>m_data := take ?n hd @ drop ?n (m_data m), m_pkt_len := ucast (pk_size ?pkt), m_data_len := pk_size ?pkt,
    m_l2_len := l3, m_l3_len := 20, m_ol_flags := pk_ol_flags ?pkt\<rparr>"
  let ?s = "\<lparr>s_build = (?b\<lparr>b_pinfo := upd_pkt i (\<lambda>_. q) pinfo, b_hdr := (b_hdr ?b)[i := hd], b_ident := n\<rparr>),
    s_statics = st, s_calls = Suc (s_calls s)\<rparr>"
  have e: "unat (of_nat l3 :: u16) = l3" using l3(2) by (simp add: unat_of_nat_small)
  have fl: "tx_ol_flags ?env q = pk_ol_flags ?pkt"
    using dev p by (auto simp: tx_ol_flags_def q plain_device_def Let_def)
  have w: "mtod_write (take ?n hd) m = Some (m\<lparr>m_data := take ?n hd @ drop ?n (m_data m)\<rparr>)"
    using m sz hd(1) by (simp add: mtod_write_def min_absorb2)
  have same: "upd_pkt i (\<lambda>p. p\<lparr>pk_ol_flags := pk_ol_flags ?pkt\<rparr>) (upd_pkt i (\<lambda>_. q) pinfo) = upd_pkt i (\<lambda>_. q) pinfo"
    using i(1) by (simp add: upd_pkt_def q)
  have "mempool_setup_cb envs seq_idx s m = Some (Inr (?s, ?m))"
    unfolding mempool_setup_cb_def t Let_def prod.case c option.case
    using i(1) h(1) sz hd(1) l3 by (simp add: set_hdr_def upd_pkt_def q fl [unfolded q] w e)
  moreover have "holds_packet ?pkt ?m"
    unfolding holds_packet_def using l3 v hd sz by (intro bexI [of _ l3]) (simp_all add: q unat_ucast_up min_absorb2)
  moreover have "hdr_rooms room ((b_hdr ?b)[i := hd])"
    using hdr hd(1) h(1) by (auto simp: hdr_rooms_def list_all_length nth_list_update)
  ultimately show ?thesis
    by (intro exI [of _ ?s] exI [of _ ?m] exI [of _ "of_nat l3"]) (simp add: q upd_pkt_def)
qed

lemma holds_packet_size [simp]: "holds_packet (pkt\<lparr>ether_hdr_size := e\<rparr>) m = holds_packet pkt m"
  by (simp add: holds_packet_def)

lemma sendable_size [simp]: "sendable l room (pkt\<lparr>ether_hdr_size := e\<rparr>) = sendable l room pkt"
  by (simp add: sendable_def wf_pkt_def)

subsection \<open>Sequences\<close>

text \<open>The port after some packets: the sequence index moved, the templates have the link layer sizes of their packets.\<close>

definition sizes_only :: "pkt_seq list \<Rightarrow> pkt_seq list \<Rightarrow> bool" where
  "sizes_only ts0 ts \<longleftrightarrow> list_all2 (\<lambda>t0 t. \<exists>e. t = t0\<lparr>ether_hdr_size := e\<rparr>) ts0 ts"

lemma sizes_only_refl: "sizes_only ts ts"
proof -
  have "t = t\<lparr>ether_hdr_size := ether_hdr_size t\<rparr>" for t :: pkt_seq by simp
  then show ?thesis unfolding sizes_only_def by (intro list_all2_all_nthI) blast+
qed

lemma sizes_only_upd:
  assumes "sizes_only ts0 ts" "i < length ts"
  shows "sizes_only ts0 (ts[i := (ts ! i)\<lparr>ether_hdr_size := e\<rparr>])"
  using assms by (fastforce simp: sizes_only_def list_all2_conv_all_nth nth_list_update)

lemma sizes_only_nth:
  assumes "sizes_only ts0 ts" "i < length ts0"
  obtains e where "ts ! i = (ts0 ! i)\<lparr>ether_hdr_size := e\<rparr>"
  using assms by (auto simp: sizes_only_def list_all2_conv_all_nth)

definition seq_ok :: "nat \<Rightarrow> port_info \<Rightarrow> bool" where
  "seq_ok room p0 \<longleftrightarrow> plain_port p0 \<and> pktgen_tst_port_flags SEND_SEQ_PKTS p0 \<and> length (seq_pkt p0) = NUM_TOTAL_PKTS
     \<and> unat (seqCnt p0) \<le> NUM_SEQ_PKTS \<and> seqIdx p0 < seqCnt p0
     \<and> list_all (sendable (link_len p0) room) (take (unat (seqCnt p0)) (seq_pkt p0))"

definition seq_at :: "nat \<Rightarrow> port_info \<Rightarrow> nat \<Rightarrow> pool_setup \<Rightarrow> bool" where
  "seq_at room p0 n s \<longleftrightarrow> hdr_rooms room (b_hdr (s_build s))
     \<and> (\<exists>ts k. b_pinfo (s_build s) = p0\<lparr>seq_pkt := ts, seqIdx := k\<rparr> \<and> sizes_only (seq_pkt p0) ts
          \<and> unat k = (unat (seqIdx p0) + n) mod unat (seqCnt p0))"

lemma plain_port_frame [simp]:
  "plain_port (p\<lparr>seq_pkt := ts\<rparr>) = plain_port p" "plain_port (p\<lparr>seqIdx := k\<rparr>) = plain_port p"
  "link_len (p\<lparr>seq_pkt := ts\<rparr>) = link_len p" "link_len (p\<lparr>seqIdx := k\<rparr>) = link_len p"
  by (simp_all add: plain_port_def link_len_def pktgen_tst_port_flags_def)

lemma tst_frame [simp]:
  "pktgen_tst_port_flags fl (p\<lparr>seq_pkt := ts\<rparr>) = pktgen_tst_port_flags fl p"
  "pktgen_tst_port_flags fl (p\<lparr>seqIdx := k\<rparr>) = pktgen_tst_port_flags fl p"
  by (simp_all add: pktgen_tst_port_flags_def)

lemma seq_cb_step:
  assumes ok: "seq_ok room p0" and dev: "\<And>k. plain_device room (envs k)" and at: "seq_at room p0 n s" and m: "room \<le> length (m_data m)"
  shows "\<exists>s' m'. mempool_setup_cb envs idx s m = Some (Inr (s', m')) \<and> seq_at room p0 (Suc n) s'
    \<and> holds_packet (cyc (take (unat (seqCnt p0)) (seq_pkt p0)) (unat (seqIdx p0) + n)) m'"
proof -
  let ?c = "unat (seqCnt p0)"
  let ?i = "(unat (seqIdx p0) + n) mod ?c"
  obtain ts k where p: "b_pinfo (s_build s) = p0\<lparr>seq_pkt := ts, seqIdx := k\<rparr>" and ts: "sizes_only (seq_pkt p0) ts" and k: "unat k = ?i"
    using at by (auto simp: seq_at_def)
  have c: "0 < ?c" "?c \<le> 16" "length (seq_pkt p0) = 20" "length ts = 20"
    using ok ts by (auto simp: seq_ok_def sizes_only_def NUM_SEQ_PKTS_def NUM_TOTAL_PKTS_def word_less_nat_alt dest: list_all2_lengthD)
  have i: "?i < ?c" using c(1) by simp
  then have ne: "?i \<noteq> 18" using c(2) by linarith
  define k' where "k' = (if k + 1 \<ge> seqCnt p0 then 0 else k + 1)"
  have k': "unat k' = Suc ?i mod ?c"
  proof -
    have "unat (k + 1) = Suc ?i" using k i c(2) by (simp add: unat_word_ariths)
    then show ?thesis using i by (auto simp: k'_def word_le_nat_alt mod_Suc)
  qed
  let ?q = "p0\<lparr>seq_pkt := ts, seqIdx := k'\<rparr>"
  have t: "next_template idx (s_statics s) (b_pinfo (s_build s)) = (?i, s_statics s, ?q)"
    using ok ne by (simp add: p next_template_def seq_ok_def k k'_def RANGE_PKT_def)
  obtain e where e: "ts ! ?i = (seq_pkt p0 ! ?i)\<lparr>ether_hdr_size := e\<rparr>"
    using sizes_only_nth [OF ts, of ?i] i c by auto
  have send: "sendable (link_len p0) room (seq_pkt p0 ! ?i)" using ok i c by (auto simp: seq_ok_def list_all_length)
  then have "unat (pk_size (seq_pkt p0 ! ?i)) \<le> length (m_data m)" using m by (simp add: sendable_def)
  then obtain s' m' e' where cb: "mempool_setup_cb envs idx s m = Some (Inr (s', m'))"
    and s': "b_pinfo (s_build s') = upd_pkt ?i (\<lambda>p. p\<lparr>ether_hdr_size := e'\<rparr>) ?q" "hdr_rooms room (b_hdr (s_build s'))"
    and m': "holds_packet (seq_pkt ?q ! ?i) m'"
    using setup_cb_holds [where envs = envs and room = room and m = m, OF t _ _ _ _ dev] at send i c ok
    by (auto simp: seq_at_def seq_ok_def NUM_TOTAL_PKTS_def LATENCY_PKT_def e)
  have "seq_at room p0 (Suc n) s'"
    unfolding seq_at_def using s' k' c i sizes_only_upd [OF ts, of ?i e']
    by (intro conjI exI [of _ "ts[?i := (ts ! ?i)\<lparr>ether_hdr_size := e'\<rparr>]"] exI [of _ k']) (simp_all add: upd_pkt_def mod_Suc_eq)
  moreover have "holds_packet (cyc (take ?c (seq_pkt p0)) (unat (seqIdx p0) + n)) m'"
    using m' i c by (simp add: cyc_def e min_absorb2)
  ultimately show ?thesis using cb by blast
qed

interpretation seq_filler: serial_filler "mempool_setup_cb envs idx"
    "\<lambda>n s. seq_ok room p0 \<and> (\<forall>k. plain_device room (envs k)) \<and> seq_at room p0 n s"
    "\<lambda>m. room \<le> length (m_data m)"
    "\<lambda>n. holds_packet (cyc (take (unat (seqCnt p0)) (seq_pkt p0)) (unat (seqIdx p0) + n))" for envs idx room p0
  by unfold_locales (blast dest: seq_cb_step)

subsection \<open>Ranges\<close>

text \<open>The step of a range does not look at the size of the link layer header.\<close>

lemma stage_size:
  "range_tcp rg (pkt\<lparr>ether_hdr_size := e\<rparr>) = (range_tcp rg pkt)\<lparr>ether_hdr_size := e\<rparr>"
  "range_gtpu rg (pkt\<lparr>ether_hdr_size := e\<rparr>) = (range_gtpu rg pkt)\<lparr>ether_hdr_size := e\<rparr>"
  "range_ports4 rg (pkt\<lparr>ether_hdr_size := e\<rparr>) = (range_ports4 rg pkt)\<lparr>ether_hdr_size := e\<rparr>"
  "range_ttl rg (pkt\<lparr>ether_hdr_size := e\<rparr>) = (range_ttl rg pkt)\<lparr>ether_hdr_size := e\<rparr>"
  "range_addrs4 rg (pkt\<lparr>ether_hdr_size := e\<rparr>) = (range_addrs4 rg pkt)\<lparr>ether_hdr_size := e\<rparr>"
  "range_size_mac4 rg (pkt\<lparr>ether_hdr_size := e\<rparr>) = (range_size_mac4 rg pkt)\<lparr>ether_hdr_size := e\<rparr>"
  "range_vxlan rg (pkt\<lparr>ether_hdr_size := e\<rparr>) = (range_vxlan rg pkt)\<lparr>ether_hdr_size := e\<rparr>"
  "range_ports6 rg (pkt\<lparr>ether_hdr_size := e\<rparr>) = (range_ports6 rg pkt)\<lparr>ether_hdr_size := e\<rparr>"
  "range_addrs6 rg (pkt\<lparr>ether_hdr_size := e\<rparr>) = (range_addrs6 rg pkt)\<lparr>ether_hdr_size := e\<rparr>"
  "range_size_mac6 rg (pkt\<lparr>ether_hdr_size := e\<rparr>) = (range_size_mac6 rg pkt)\<lparr>ether_hdr_size := e\<rparr>"
  "range_tags4 rg (st, pkt\<lparr>ether_hdr_size := e\<rparr>) = apsnd (\<lambda>p. p\<lparr>ether_hdr_size := e\<rparr>) (range_tags4 rg (st, pkt))"
  "range_tags6 rg (st, pkt\<lparr>ether_hdr_size := e\<rparr>) = apsnd (\<lambda>p. p\<lparr>ether_hdr_size := e\<rparr>) (range_tags6 rg (st, pkt))"
  by (simp_all add: range_tcp_def range_gtpu_def range_ports4_def range_ttl_def range_addrs4_def range_tags4_def
      range_size_mac4_def range_vxlan_def range_ports6_def range_addrs6_def range_tags6_def range_size_mac6_def Let_def split_beta)

lemma range_ctor_size:
  "pktgen_range_ctor rg (st, pkt\<lparr>ether_hdr_size := e\<rparr>) = apsnd (\<lambda>p. p\<lparr>ether_hdr_size := e\<rparr>) (pktgen_range_ctor rg (st, pkt))"
  by (simp add: pktgen_range_ctor_def Let_def stage_size split_beta del: range_tags4_snd range_tags6_snd)

text \<open>
  Ranges all of whose packets the constructor takes: a template of TCP or UDP over IPv4, packet sizes with room for the
  headers and within the buffers, and destination ports without that of GTP-U. Nothing is asked of the other ranges.
\<close>

definition size_range_ok :: "nat \<Rightarrow> nat \<Rightarrow> (u16, u16) span \<Rightarrow> bool" where
  "size_range_ok l room sp \<longleftrightarrow>
     (if sp_inc sp = 0 then l + 40 \<le> unat (sp_start sp) \<and> unat (sp_start sp) \<le> room
      else sp_min sp \<le> sp_max sp \<and> l + 40 \<le> unat (sp_min sp) \<and> unat (sp_max sp) \<le> room)"

definition no_gtpu_port :: "(u16, u16) span \<Rightarrow> bool" where
  "no_gtpu_port sp \<longleftrightarrow>
     (if sp_inc sp = 0 then sp_start sp \<noteq> PG_IPPROTO_L4_GTPU_PORT
      else sp_min sp \<le> sp_max sp \<and> \<not> in_span sp PG_IPPROTO_L4_GTPU_PORT)"

definition range_ok :: "nat \<Rightarrow> nat \<Rightarrow> range_info \<Rightarrow> pkt_seq \<Rightarrow> bool" where
  "range_ok l room rg pkt \<longleftrightarrow> wf_pkt pkt \<and> ethType pkt = RTE_ETHER_TYPE_IPV4 \<and> l4_pkt pkt
     \<and> size_range_ok l room (r_pkt_size rg) \<and> no_gtpu_port (r_dst_port rg)"

lemma length_step_mac: "length (step_mac sp a) = 6"
  by (simp add: step_mac_def inet_h64tom_def)

lemma range_step_sendable:
  assumes "range_ok l room rg pkt"
  shows "sendable l room (snd (pktgen_range_ctor rg (st, pkt))) \<and> range_ok l room rg (snd (pktgen_range_ctor rg (st, pkt)))"
proof -
  let ?q = "snd (pktgen_range_ctor rg (st, pkt))"
  have a: "wf_pkt pkt" "ethType pkt = RTE_ETHER_TYPE_IPV4" "l4_pkt pkt" "size_range_ok l room (r_pkt_size rg)" "no_gtpu_port (r_dst_port rg)"
    using assms by (simp_all add: range_ok_def)
  have r: "obeys (r_dst_port rg) (pk_dport ?q)" "obeys (r_pkt_size rg) (pk_size ?q)"
    using range_in_bounds4 [OF a(2,3), of rg st] by (simp_all add: in_ranges4_def in_ranges_def)
  have "l + 40 \<le> unat (pk_size ?q) \<and> unat (pk_size ?q) \<le> room"
    using a(4) r(2) by (auto simp: size_range_ok_def obeys_def in_span_def word_le_nat_alt split: if_splits)
  moreover have "pk_dport ?q \<noteq> PG_IPPROTO_L4_GTPU_PORT"
    using a(5) r(1) by (auto simp: no_gtpu_port_def obeys_def split: if_splits)
  moreover have "wf_pkt ?q"
    using a(1) unfolding wf_pkt_def ctor4_fields [OF a(2,3)] by (simp add: length_step_mac step_ipv4_def)
  ultimately show ?thesis using a by (simp add: sendable_def range_ok_def)
qed

lemma range_steps_sendable:
  assumes "range_ok l room rg pkt"
  shows "range_ok l room rg (snd ((pktgen_range_ctor rg ^^ n) (st, pkt)))"
proof (induction n)
  case (Suc n)
  then show ?case using range_step_sendable by (metis funpow.simps(2) o_apply prod.collapse)
qed (use assms in simp)

lemma range_steps_obey:
  assumes "range_ok l room rg pkt"
  shows "in_ranges4 rg (snd ((pktgen_range_ctor rg ^^ j) (st, pkt))) (snd ((pktgen_range_ctor rg ^^ Suc j) (st, pkt)))"
proof -
  obtain st1 q where q: "(pktgen_range_ctor rg ^^ j) (st, pkt) = (st1, q)" by fastforce
  have "range_ok l room rg q" using range_steps_sendable [OF assms, of j st] q by simp
  then show ?thesis using range_in_bounds4 [of q rg st1] by (simp add: q range_ok_def)
qed

definition range_at :: "nat \<Rightarrow> port_info \<Rightarrow> range_statics \<Rightarrow> nat \<Rightarrow> pool_setup \<Rightarrow> bool" where
  "range_at room p0 st0 n s \<longleftrightarrow> hdr_rooms room (b_hdr (s_build s))
     \<and> (let q = (pktgen_range_ctor (p_range p0) ^^ n) (st0, seq_pkt p0 ! RANGE_PKT) in
        s_statics s = fst q
        \<and> (\<exists>e. b_pinfo (s_build s) = p0\<lparr>seq_pkt := (seq_pkt p0)[RANGE_PKT := (snd q)\<lparr>ether_hdr_size := e\<rparr>]\<rparr>))"

definition range_port_ok :: "nat \<Rightarrow> port_info \<Rightarrow> bool" where
  "range_port_ok room p0 \<longleftrightarrow> plain_port p0 \<and> \<not> pktgen_tst_port_flags SEND_SEQ_PKTS p0 \<and> length (seq_pkt p0) = NUM_TOTAL_PKTS
     \<and> range_ok (link_len p0) room (p_range p0) (seq_pkt p0 ! RANGE_PKT)"

lemma range_cb_step:
  assumes ok: "range_port_ok room p0" and dev: "\<And>k. plain_device room (envs k)" and at: "range_at room p0 st0 n s"
    and m: "room \<le> length (m_data m)"
  shows "\<exists>s' m'. mempool_setup_cb envs RANGE_PKT s m = Some (Inr (s', m')) \<and> range_at room p0 st0 (Suc n) s'
    \<and> holds_packet (snd ((pktgen_range_ctor (p_range p0) ^^ Suc n) (st0, seq_pkt p0 ! RANGE_PKT))) m'"
proof -
  let ?f = "pktgen_range_ctor (p_range p0)"
  obtain st1 q1 where q1: "(?f ^^ n) (st0, seq_pkt p0 ! RANGE_PKT) = (st1, q1)" by fastforce
  obtain st2 q2 where q2: "?f (st1, q1) = (st2, q2)" by fastforce
  have l: "length (seq_pkt p0) = 20" "RANGE_PKT < length (seq_pkt p0)" using ok by (simp_all add: range_port_ok_def pkt_consts)
  obtain e where st: "s_statics s = st1"
    and p: "b_pinfo (s_build s) = p0\<lparr>seq_pkt := (seq_pkt p0)[RANGE_PKT := q1\<lparr>ether_hdr_size := e\<rparr>]\<rparr>"
    using at q1 by (auto simp: range_at_def Let_def)
  let ?q = "p0\<lparr>seq_pkt := (seq_pkt p0)[RANGE_PKT := q2\<lparr>ether_hdr_size := e\<rparr>]\<rparr>"
  have t: "next_template RANGE_PKT (s_statics s) (b_pinfo (s_build s)) = (RANGE_PKT, st2, ?q)"
    using ok l by (simp add: next_template_def p st range_port_ok_def range_ctor_size q2 upd_pkt_def)
  have "range_ok (link_len p0) room (p_range p0) q1"
    using range_steps_sendable [of "link_len p0" room "p_range p0" "seq_pkt p0 ! RANGE_PKT" n st0] ok q1 by (simp add: range_port_ok_def)
  then have send: "sendable (link_len p0) room q2" using range_step_sendable [of "link_len p0" room "p_range p0" q1 st1] q2 by simp
  then have "unat (pk_size q2) \<le> length (m_data m)" using m by (simp add: sendable_def)
  then obtain s' m' e' where cb: "mempool_setup_cb envs RANGE_PKT s m = Some (Inr (s', m'))"
    and s': "b_pinfo (s_build s') = upd_pkt RANGE_PKT (\<lambda>p. p\<lparr>ether_hdr_size := e'\<rparr>) ?q" "s_statics s' = st2"
      "hdr_rooms room (b_hdr (s_build s'))"
    and m': "holds_packet (seq_pkt ?q ! RANGE_PKT) m'"
    using setup_cb_holds [where envs = envs and room = room and m = m, OF t _ _ _ _ dev] at send l ok
    by (auto simp: range_at_def range_port_ok_def pkt_consts)
  have s: "(?f ^^ Suc n) (st0, seq_pkt p0 ! RANGE_PKT) = (st2, q2)" using q1 q2 by simp
  have "range_at room p0 st0 (Suc n) s'"
    unfolding range_at_def Let_def s using s' l by (intro conjI exI [of _ e']) (simp_all add: upd_pkt_def)
  moreover have "holds_packet q2 m'" using m' l by simp
  ultimately show ?thesis using cb by (simp only: s) auto
qed

interpretation range_filler: serial_filler "mempool_setup_cb envs RANGE_PKT"
    "\<lambda>n s. range_port_ok room p0 \<and> (\<forall>k. plain_device room (envs k)) \<and> range_at room p0 st0 n s"
    "\<lambda>m. room \<le> length (m_data m)"
    "\<lambda>n. holds_packet (snd ((pktgen_range_ctor (p_range p0) ^^ Suc n) (st0, seq_pkt p0 ! RANGE_PKT)))" for envs room p0 st0
  by unfold_locales (blast dest: range_cb_step)

subsection \<open>The pools of a port\<close>

interpretation seq_pools: pool_filler envs idx
    "\<lambda>n s. seq_ok room p0 \<and> (\<forall>k. plain_device room (envs k)) \<and> seq_at room p0 n s"
    "\<lambda>m. room \<le> length (m_data m)"
    "\<lambda>n. holds_packet (cyc (take (unat (seqCnt p0)) (seq_pkt p0)) (unat (seqIdx p0) + n))" for envs idx room p0
  by (rule pool_filler.intro) unfold_locales

interpretation range_pools: pool_filler envs RANGE_PKT
    "\<lambda>n s. range_port_ok room p0 \<and> (\<forall>k. plain_device room (envs k)) \<and> range_at room p0 st0 n s"
    "\<lambda>m. room \<le> length (m_data m)"
    "\<lambda>n. holds_packet (snd ((pktgen_range_ctor (p_range p0) ^^ Suc n) (st0, seq_pkt p0 ! RANGE_PKT)))" for envs room p0 st0
  by (rule pool_filler.intro) unfold_locales

lemma tst_clr: "fl AND g = 0 \<Longrightarrow> pktgen_tst_port_flags fl (pktgen_clr_port_flags g p) = pktgen_tst_port_flags fl p"
proof -
  assume "fl AND g = 0"
  then have "(x AND NOT g) AND fl = x AND fl" for x
    by (metis (no_types, opaque_lifting) and.assoc and.commute and.right_neutral bit.conj_cancel_right
        bit.conj_disj_distrib2 bit.disj_cancel_right or.left_neutral or.right_neutral)
  then show ?thesis by (simp add: pktgen_tst_port_flags_def pktgen_clr_port_flags_def)
qed

lemma setup_flags:
  "pktgen_tst_port_flags SEND_PCAP_PKTS (pktgen_clr_port_flags SETUP_TRANSMIT_PKTS p) = pktgen_tst_port_flags SEND_PCAP_PKTS p"
  "pktgen_tst_port_flags SEND_SEQ_PKTS (pktgen_clr_port_flags SETUP_TRANSMIT_PKTS p) = pktgen_tst_port_flags SEND_SEQ_PKTS p"
  "pktgen_tst_port_flags SEND_RANGE_PKTS (pktgen_clr_port_flags SETUP_TRANSMIT_PKTS p) = pktgen_tst_port_flags SEND_RANGE_PKTS p"
  "plain_port (pktgen_clr_port_flags SETUP_TRANSMIT_PKTS p) = plain_port p"
  "link_len (pktgen_clr_port_flags SETUP_TRANSMIT_PKTS p) = link_len p"
  by (simp_all add: plain_port_def link_len_def tst_clr SEND_VLAN_ID_def SEND_MPLS_LABEL_def SEND_Q_IN_Q_IDS_def SETUP_TRANSMIT_PKTS_def SEND_PCAP_PKTS_def SEND_SEQ_PKTS_def SEND_RANGE_PKTS_def
      SEND_GRE_IPv4_HEADER_def SEND_GRE_ETHER_HEADER_def SEND_VXLAN_PACKETS_def RANDOMIZE_SRC_IP_def RANDOMIZE_SRC_PT_def)

text \<open>
  C11 Sequence mode: after the setup of a port the buffers of its transmit queues, one queue after the other,
  hold valid packets of the templates of the sequence in turn, starting with the current one, each with the
  addresses and the length of its template. The templates are TCP or UDP over IPv4 with room for their headers and not for
  the GTP-U port (\<open>sendable\<close>), the port has no GRE, no VXLAN and no random sources (\<open>plain_port\<close>), and the device no
  checksum offload (\<open>plain_device\<close>).
\<close>

theorem sequence_setup:
  assumes "pools_ok (\<lambda>m. room \<le> length (m_data m)) t pid pools"
    and "pktgen_tst_port_flags SETUP_TRANSMIT_PKTS p" and "\<not> pktgen_tst_port_flags SEND_PCAP_PKTS p"
    and "p = b_pinfo (s_build s)" and "seq_ok room p" and "\<And>k. plain_device room (envs k)" and "hdr_rooms room (b_hdr (s_build s))"
  shows "\<exists>s' pools'. pktgen_setup_packets envs t pid s pools = Some (Inr (s', pools'))
    \<and> length (tx_buffers t pid pools') = length (tx_buffers t pid pools)
    \<and> (\<forall>j < length (tx_buffers t pid pools).
         holds_packet (cyc (take (unat (seqCnt p)) (seq_pkt p)) (unat (seqIdx p) + j)) (tx_buffers t pid pools' ! j))"
proof -
  let ?p0 = "pktgen_clr_port_flags SETUP_TRANSMIT_PKTS p"
  have frame: "seqCnt ?p0 = seqCnt p" "seqIdx ?p0 = seqIdx p" "seq_pkt ?p0 = seq_pkt p" by (simp_all add: pktgen_clr_port_flags_def)
  have ok: "seq_ok room ?p0" using assms(5) by (simp add: seq_ok_def setup_flags frame)
  have "unat (seqIdx p) < unat (seqCnt p)" using assms(5) by (simp add: seq_ok_def word_less_nat_alt)
  then have "seq_at room ?p0 0 (setup_begun s)"
    unfolding seq_at_def frame using assms(4,7)
    by (intro conjI exI [of _ "seq_pkt p"] exI [of _ "seqIdx p"]) (simp_all add: setup_begun_def sizes_only_refl pktgen_clr_port_flags_def)
  then have at: "seq_ok room ?p0 \<and> (\<forall>k. plain_device room (envs k)) \<and> seq_at room ?p0 0 (setup_begun s)"
    using ok assms(6) by blast
  have fl: "pktgen_tst_port_flags SETUP_TRANSMIT_PKTS (b_pinfo (s_build s))"
    "\<not> pktgen_tst_port_flags SEND_PCAP_PKTS (b_pinfo (s_build (setup_begun s)))"
    using assms(2-4) by (simp_all add: setup_begun_def setup_flags)
  show ?thesis using seq_pools.port [OF at assms(1) fl refl] unfolding frame by (simp only: add_0)
qed

text \<open>
  C12 Range mode: after the setup of a port in range mode the buffers of its transmit queues, one queue after the other,
  hold valid packets of the steps of the range in turn, and every step obeys the range of every field it steps (\<open>in_ranges4\<close>: addresses, ports, tags, size, time to live, TCP numbers, tunnel identifiers). This is for a template of TCP or
  UDP over IPv4 without GRE, VXLAN and random sources (\<open>plain_port\<close>), a device without checksum offload (\<open>plain_device\<close>),
  packet sizes that have room for the headers and fit the buffers, and destination ports without that of GTP-U (2152).
\<close>

theorem range_setup_fills:
  assumes "pools_ok (\<lambda>m. room \<le> length (m_data m)) t pid pools"
    and "pktgen_tst_port_flags SETUP_TRANSMIT_PKTS p" and "\<not> pktgen_tst_port_flags SEND_PCAP_PKTS p" and "pktgen_tst_port_flags SEND_RANGE_PKTS p"
    and "p = b_pinfo (s_build s)" and "range_port_ok room p" and "\<And>k. plain_device room (envs k)" and "hdr_rooms room (b_hdr (s_build s))"
  shows "\<exists>s' pools'. pktgen_setup_packets envs t pid s pools = Some (Inr (s', pools'))
    \<and> length (tx_buffers t pid pools') = length (tx_buffers t pid pools)
    \<and> (\<forall>j < length (tx_buffers t pid pools). \<exists>pkt.
         pkt = snd ((pktgen_range_ctor (p_range p) ^^ Suc j) (s_statics s, seq_pkt p ! RANGE_PKT))
         \<and> holds_packet pkt (tx_buffers t pid pools' ! j)
         \<and> in_ranges4 (p_range p) (snd ((pktgen_range_ctor (p_range p) ^^ j) (s_statics s, seq_pkt p ! RANGE_PKT))) pkt)"
proof -
  let ?p0 = "pktgen_clr_port_flags SETUP_TRANSMIT_PKTS p"
  have frame: "p_range ?p0 = p_range p" "seq_pkt ?p0 = seq_pkt p" by (simp_all add: pktgen_clr_port_flags_def)
  have ok: "range_port_ok room ?p0" using assms(6) by (simp add: range_port_ok_def setup_flags frame)
  have idx: "setup_idx ?p0 = RANGE_PKT" using assms(4) by (simp add: setup_idx_def setup_flags)
  have "range_at room ?p0 (s_statics s) 0 (setup_begun s)"
    unfolding range_at_def frame Let_def using assms(5,6,8)
    by (intro conjI exI [of _ "ether_hdr_size (seq_pkt p ! RANGE_PKT)"])
      (simp_all add: setup_begun_def pktgen_clr_port_flags_def)
  then have at: "range_port_ok room ?p0 \<and> (\<forall>k. plain_device room (envs k)) \<and> range_at room ?p0 (s_statics s) 0 (setup_begun s)"
    using ok assms(7) by blast
  have fl: "pktgen_tst_port_flags SETUP_TRANSMIT_PKTS (b_pinfo (s_build s))"
    "\<not> pktgen_tst_port_flags SEND_PCAP_PKTS (b_pinfo (s_build (setup_begun s)))" "setup_idx (b_pinfo (s_build (setup_begun s))) = RANGE_PKT"
    using assms(2,3,5) idx by (simp_all add: setup_begun_def setup_flags)
  from range_pools.port [OF at assms(1) fl] obtain s' pools' where
    r: "pktgen_setup_packets envs t pid s pools = Some (Inr (s', pools'))"
    "length (tx_buffers t pid pools') = length (tx_buffers t pid pools)"
    "\<forall>j < length (tx_buffers t pid pools). holds_packet (snd ((pktgen_range_ctor (p_range p) ^^ Suc j)
        (s_statics s, seq_pkt p ! RANGE_PKT))) (tx_buffers t pid pools' ! j)"
    unfolding frame by (auto simp only: add_0)
  have "in_ranges4 (p_range p) (snd ((pktgen_range_ctor (p_range p) ^^ j) (s_statics s, seq_pkt p ! RANGE_PKT)))
      (snd ((pktgen_range_ctor (p_range p) ^^ Suc j) (s_statics s, seq_pkt p ! RANGE_PKT)))" for j
    by (rule range_steps_obey [of "link_len p" room]) (use assms(6) in \<open>simp add: range_port_ok_def\<close>)
  with r show ?thesis by blast
qed

text \<open>A port with two queues, a sequence of two templates and a range to try the setup on.\<close>

definition demo_l2p :: l2p where
  "demo_l2p = l2p_zero\<lparr>ports := (\<lambda>i. (ports l2p_zero i)\<lparr>num_tx_qids := 2, tx_mp := (\<lambda>q. Some (Suc q))\<rparr>)\<rparr>"

definition demo_setup :: "u64 \<Rightarrow> pool_setup" where
  "demo_setup fl = (let b = tcp_build (tcp_template PG_IPPROTO_TCP) (SETUP_TRANSMIT_PKTS OR fl) in
     \<lparr>s_build = b\<lparr>b_pinfo := (b_pinfo b)\<lparr>seq_pkt := (seq_pkt (b_pinfo b))[1 := tcp_template PG_IPPROTO_UDP], seqCnt := 2,
        p_range := sample_range\<lparr>r_pkt_size := fixed 60 0\<rparr>\<rparr>\<rparr>,
      s_statics = \<lparr>min_vlan_set = False, min_cos_set = False, min_tos_set = False, min_vlan_set6 = False,
        min_cos_set6 = False, min_traffic_class_set = False\<rparr>,
      s_calls = 0\<rparr>)"

definition demo_pools :: "nat \<Rightarrow> tx_mbuf list" where
  "demo_pools = (\<lambda>_. replicate 3 \<lparr>m_data = replicate 2048 0, m_pool = None, m_next = None, m_data_len = 0, m_pkt_len = 0,
     m_port = 0, m_ol_flags = 0, m_l2_len = 0, m_l3_len = 0\<rparr>)"

lemma demo_ok:
  "pools_ok (\<lambda>m. 1518 \<le> length (m_data m)) demo_l2p 0 demo_pools" "plain_device 1518 plain_env"
  "hdr_rooms 1518 (b_hdr (s_build (demo_setup fl)))" "length (tx_buffers demo_l2p 0 demo_pools) = 6"
  by (simp_all add: pools_ok_def tx_pools_def tx_buffers_def demo_l2p_def l2p_zero_def demo_pools_def demo_setup_def tcp_build_def Let_def
      l2p_get_port_def l2p_get_tx_mp_def l2p_get_txcnt_def l2p_limits plain_device_def plain_env_def hdr_rooms_def NUM_TOTAL_PKTS_def
      upt_conv_Cons) (simp_all add: list_all_length)

lemma demo_template:
  "wf_pkt (tcp_template pr)" "ethType (tcp_template pr) = RTE_ETHER_TYPE_IPV4" "ipProto (tcp_template pr) = pr"
  "pk_dport (tcp_template pr) = 5678" "pk_size (tcp_template pr) = 64"
  by (simp_all add: tcp_template_def wf_pkt_def with_ipv4_def bytes_simps)

lemma demo_port:
  "b_pinfo (s_build (demo_setup fl)) = (b_pinfo (tcp_build (tcp_template PG_IPPROTO_TCP) (SETUP_TRANSMIT_PKTS OR fl)))\<lparr>
     seq_pkt := [tcp_template PG_IPPROTO_TCP, tcp_template PG_IPPROTO_UDP] @ replicate 18 (tcp_template PG_IPPROTO_TCP), seqCnt := 2,
     p_range := sample_range\<lparr>r_pkt_size := fixed 60 0\<rparr>\<rparr>"
  by (simp add: demo_setup_def Let_def tcp_build_def numeral_eq_Suc)

lemma demo_seq_ok: "seq_ok 1518 (b_pinfo (s_build (demo_setup SEND_SEQ_PKTS)))"
  unfolding demo_port
  by (simp add: seq_ok_def plain_port_def link_len_def pktgen_tst_port_flags_def tcp_build_def sendable_def demo_template pkt_consts
      SEND_VLAN_ID_def SEND_MPLS_LABEL_def SEND_Q_IN_Q_IDS_def
      SETUP_TRANSMIT_PKTS_def SEND_SEQ_PKTS_def SEND_GRE_IPv4_HEADER_def SEND_GRE_ETHER_HEADER_def SEND_VXLAN_PACKETS_def
      RANDOMIZE_SRC_IP_def RANDOMIZE_SRC_PT_def)

lemma demo_flags:
  "pktgen_tst_port_flags SETUP_TRANSMIT_PKTS (b_pinfo (s_build (demo_setup fl)))"
  "\<not> pktgen_tst_port_flags SEND_PCAP_PKTS (b_pinfo (s_build (demo_setup SEND_SEQ_PKTS)))"
  "\<not> pktgen_tst_port_flags SEND_PCAP_PKTS (b_pinfo (s_build (demo_setup SEND_RANGE_PKTS)))"
  "pktgen_tst_port_flags SEND_RANGE_PKTS (b_pinfo (s_build (demo_setup SEND_RANGE_PKTS)))"
  unfolding demo_port
  by (simp_all add: pktgen_tst_port_flags_def tcp_build_def SETUP_TRANSMIT_PKTS_def SEND_SEQ_PKTS_def SEND_PCAP_PKTS_def SEND_RANGE_PKTS_def
      bit.conj_disj_distrib2)

theorem sequence_setup_witness:
  "\<exists>s' pools'. pktgen_setup_packets (\<lambda>_. plain_env) demo_l2p 0 (demo_setup SEND_SEQ_PKTS) demo_pools = Some (Inr (s', pools'))
     \<and> holds_packet (tcp_template PG_IPPROTO_UDP) (tx_buffers demo_l2p 0 pools' ! 3)"
proof -
  have "cyc (take (unat (seqCnt (b_pinfo (s_build (demo_setup SEND_SEQ_PKTS))))) (seq_pkt (b_pinfo (s_build (demo_setup SEND_SEQ_PKTS)))))
      (unat (seqIdx (b_pinfo (s_build (demo_setup SEND_SEQ_PKTS)))) + 3) = tcp_template PG_IPPROTO_UDP"
    unfolding demo_port by (simp add: cyc_def tcp_build_def) (simp add: numeral_eq_Suc mod_Suc)
  moreover have "3 < length (tx_buffers demo_l2p 0 demo_pools)" by (simp add: demo_ok(4))
  ultimately show ?thesis
    using sequence_setup [OF demo_ok(1) demo_flags(1,2) refl demo_seq_ok demo_ok(2,3)] by metis
qed

lemma demo_range_ok: "range_port_ok 1518 (b_pinfo (s_build (demo_setup SEND_RANGE_PKTS)))"
proof -
  have "range_ok 14 1518 (sample_range\<lparr>r_pkt_size := fixed 60 0\<rparr>) (tcp_template PG_IPPROTO_TCP)"
    by (simp add: range_ok_def demo_template size_range_ok_def no_gtpu_port_def sample_range_def fixed_def PG_IPPROTO_L4_GTPU_PORT_def)
  then show ?thesis unfolding demo_port
    by (simp add: range_port_ok_def plain_port_def link_len_def pktgen_tst_port_flags_def tcp_build_def pkt_consts nth_append
        SEND_VLAN_ID_def SEND_MPLS_LABEL_def SEND_Q_IN_Q_IDS_def
        SETUP_TRANSMIT_PKTS_def SEND_SEQ_PKTS_def SEND_RANGE_PKTS_def SEND_GRE_IPv4_HEADER_def SEND_GRE_ETHER_HEADER_def
        SEND_VXLAN_PACKETS_def RANDOMIZE_SRC_IP_def RANDOMIZE_SRC_PT_def)
qed

theorem range_setup_fills_witness:
  "\<exists>s' pools'. pktgen_setup_packets (\<lambda>_. plain_env) demo_l2p 0 (demo_setup SEND_RANGE_PKTS) demo_pools = Some (Inr (s', pools'))
     \<and> length (tx_buffers demo_l2p 0 pools') = 6
     \<and> (\<exists>pkt. holds_packet pkt (tx_buffers demo_l2p 0 pools' ! 0) \<and> in_ranges (sample_range\<lparr>r_pkt_size := fixed 60 0\<rparr>) pkt)"
proof -
  have rg: "p_range (b_pinfo (s_build (demo_setup SEND_RANGE_PKTS))) = sample_range\<lparr>r_pkt_size := fixed 60 0\<rparr>" by (simp add: demo_port)
  have "(0 :: nat) < length (tx_buffers demo_l2p 0 demo_pools)" by (simp add: demo_ok(4))
  then show ?thesis
    using range_setup_fills [OF demo_ok(1) demo_flags(1,3,4) refl demo_range_ok demo_ok(2,3)] demo_ok(4)
    unfolding rg in_ranges4_def by metis
qed

end
