(* ===== verification/PktAnswer.thy ===== *)
theory PktAnswer
  imports PktSetup
begin

text \<open>
  Packets the generator answers and the requests it sends on its own: \<open>pktgen_packet_classify\<close> and
  \<open>pktgen_send_special\<close> of \<open>app/pktgen.c\<close>, \<open>app/pktgen-arp.c\<close>, \<open>app/pktgen-ipv4.c\<close> and
  \<open>app/pktgen-vlan.c\<close>. A received packet is the memory of its buffer from the start of the packet and the
  length of its data; what is sent is added to a list. \<open>None\<close> is a read outside the buffer.
\<close>

subsection \<open>Constants and state\<close>

definition SEND_ARP_REQUEST :: u64 where "SEND_ARP_REQUEST = push_bit 0 1"
definition SEND_GRATUITOUS_ARP :: u64 where "SEND_GRATUITOUS_ARP = push_bit 1 1"
definition ICMP_ECHO_ENABLE_FLAG :: u64 where "ICMP_ECHO_ENABLE_FLAG = push_bit 2 1"
definition SEND_PING4_REQUEST :: u64 where "SEND_PING4_REQUEST = push_bit 8 1"
definition SEND_PING6_REQUEST :: u64 where "SEND_PING6_REQUEST = push_bit 9 1"
definition SEND_ARP_PING_REQUESTS :: u64 where
  "SEND_ARP_PING_REQUESTS = SEND_ARP_REQUEST OR SEND_GRATUITOUS_ARP OR SEND_PING4_REQUEST OR SEND_PING6_REQUEST"
definition ARP_REQUEST :: u16 where "ARP_REQUEST = 1"
definition ARP_REPLY :: u16 where "ARP_REPLY = 2"
definition ETH_HW_TYPE :: u16 where "ETH_HW_TYPE = 1"
definition GRATUITOUS_ARP :: nat where "GRATUITOUS_ARP = 5"
definition ICMP4_ECHO_REPLY :: u8 where "ICMP4_ECHO_REPLY = 0"
definition INADDR_BROADCAST :: u32 where "INADDR_BROADCAST = 0xFFFFFFFF"

text \<open>
  What the environment gives: whether ARP requests set the destination (\<open>MAC_FROM_ARP_FLAG\<close>), the memory
  of a buffer from the special pool (\<open>None\<close> when it is empty), and what the constructor of packets finds.
\<close>

record answer_env =
  ae_mac_from_arp :: bool
  ae_fresh :: "u8 list option"
  ae_build :: "nat \<Rightarrow> build_env"

datatype fault = Null_pointer

type_synonym answer = "(fault + build \<times> u8 list list) option"

text \<open>The bytes of two fields change places.\<close>

definition swap_at :: "nat \<Rightarrow> nat \<Rightarrow> nat \<Rightarrow> u8 list \<Rightarrow> u8 list" where
  "swap_at n i j m = wr i (take n (drop j m)) (wr j (take n (drop i m)) m)"

subsection \<open>Which template an address belongs to\<close>

fun first_match :: "(nat \<Rightarrow> bool) \<Rightarrow> nat list \<Rightarrow> int" where
  "first_match p [] = -1"
| "first_match p (i # is) = (if p i then int i else first_match p is)"

definition pktgen_find_matching_ipsrc :: "port_info \<Rightarrow> u32 \<Rightarrow> int" where
  "pktgen_find_matching_ipsrc pinfo addr0 =
     (let addr = ntohl addr0;
          ret = first_match (\<lambda>i. addr = src_ipv4 (seq_pkt pinfo ! i)) [0..<unat (seqCnt pinfo)];
          single = seq_pkt pinfo ! SINGLE_PKT;
          mask = size_to_mask (unat (ip_prefixlen (ip_src_addr single)))
      in if ret = -1 \<or> addr AND mask = dst_ipv4 single * mask then int SINGLE_PKT else ret)"

definition pktgen_find_matching_ipdst :: "port_info \<Rightarrow> u32 \<Rightarrow> int" where
  "pktgen_find_matching_ipdst pinfo addr0 =
     (let addr = ntohl addr0;
          ret = first_match (\<lambda>i. addr = dst_ipv4 (seq_pkt pinfo ! i)) [0..<unat (seqCnt pinfo)];
          ret1 = (if ret = -1 \<and> addr = dst_ipv4 (seq_pkt pinfo ! SINGLE_PKT) then int SINGLE_PKT else ret)
      in if ret1 = -1 \<and> addr = dst_ipv4 (seq_pkt pinfo ! RANGE_PKT) then int RANGE_PKT else ret1)"

subsection \<open>ARP\<close>

definition pktgen_send_arp :: "answer_env \<Rightarrow> nat \<Rightarrow> nat \<Rightarrow> build \<Rightarrow> build \<times> u8 list list" where
  "pktgen_send_arp env ty seq_idx b =
     (let pkt = seq_pkt (b_pinfo b) ! seq_idx in
      case ae_fresh env of
        None \<Rightarrow> (b, [])
      | Some m0 \<Rightarrow>
          (let m1 = wr 0 (replicate 6 0xFF @ eth_src_addr pkt @ be16 RTE_ETHER_TYPE_ARP @ replicate 28 0) m0;
               m2 = wr (14 + 8) (eth_src_addr pkt @ be32 (src_ipv4 pkt)) m1;
               m3 = (if ty = GRATUITOUS_ARP
                     then wr (14 + 18) (eth_src_addr pkt @ be32 (src_ipv4 pkt)) m2
                     else wr (14 + 18) (replicate 6 0 @ be32 (dst_ipv4 pkt)) m2);
               m4 = wr 14 (be16 ETH_HW_TYPE @ be16 RTE_ETHER_TYPE_IPV4 @ [6, 4] @ be16 ARP_REQUEST) m3
           in (b, [take 60 m4])))"

text \<open>The packets of the sequence are constructed again when the destination has changed.\<close>

fun rebuild_seq :: "(nat \<Rightarrow> build_env) \<Rightarrow> nat list \<Rightarrow> build \<Rightarrow> build option" where
  "rebuild_seq envs [] b = Some b"
| "rebuild_seq envs (i # is) b =
     (case pktgen_packet_ctor (envs i) i (-1) b of None \<Rightarrow> None | Some b1 \<Rightarrow> rebuild_seq envs is b1)"

definition set_dst_mac :: "nat \<Rightarrow> u8 list \<Rightarrow> build \<Rightarrow> build" where
  "set_dst_mac i a b = b\<lparr>b_pinfo := upd_pkt i (\<lambda>p. p\<lparr>eth_dst_addr := a\<rparr>) (b_pinfo b)\<rparr>"

text \<open>The reply, made in a copy of the request.\<close>

definition arp_reply :: "pkt_seq \<Rightarrow> u8 list \<Rightarrow> u8 list" where
  "arp_reply pkt m =
     (let arp = 14; m1 = swap_at 6 (arp + 8) (arp + 18) m; m2 = swap_at 4 (arp + 24) (arp + 14) m1;
          m3 = wr (arp + 6) (be16 ARP_REPLY) m2; m4 = swap_at 6 0 6 m3
      in wr 6 (eth_src_addr pkt) (wr (arp + 8) (eth_src_addr pkt) m4))"

definition pktgen_process_arp :: "answer_env \<Rightarrow> bool \<Rightarrow> u16 \<Rightarrow> u8 list \<Rightarrow> build \<Rightarrow> answer" where
  "pktgen_process_arp env vlan data_len m b =
     (let arp = (if vlan then 18 else 14); pinfo = b_pinfo b;
          sip = get_le32 (drop (arp + 14) m); tip = get_le32 (drop (arp + 24) m) in
      if length m < arp + 28 then None
      else if rd_be16 (arp + 6) m = ARP_REQUEST then
        (if tip = sip then
           (if pktgen_find_matching_ipdst pinfo sip \<ge> 0 then Some (Inl Null_pointer) else Some (Inr (b, [])))
         else
           (let idx = pktgen_find_matching_ipsrc pinfo tip in
            if idx \<ge> 0 then
              (case ae_fresh env of
                 None \<Rightarrow> Some (Inr (b, []))
               | Some m0 \<Rightarrow>
                   (let m1 = wr 0 (take (unat data_len) m) m0;
                        b1 = (if ae_mac_from_arp env
                              then rebuild_seq (ae_build env) [0..<unat (seqCnt pinfo)]
                                     (set_dst_mac (nat idx) (take 6 (drop (14 + 8) m1)) b)
                              else Some b)
                    in map_option (\<lambda>b2. Inr (b2, [take (unat data_len) (arp_reply (seq_pkt (b_pinfo b2) ! nat idx) m1)])) b1))
            else Some (Inr (b, []))))
      else if rd_be16 (arp + 6) m = ARP_REPLY then
        (let idx = pktgen_find_matching_ipsrc pinfo tip in
         if idx \<ge> 0 then
           Some (Inr (if dst_ipv4 (seq_pkt pinfo ! nat idx) = ntohl sip
                      then set_dst_mac (nat idx) (take 6 (drop (arp + 8) m)) b else b, []))
         else Some (Inr (b, [])))
      else Some (Inr (b, [])))"

subsection \<open>Ping\<close>

text \<open>The length of the ICMP message, a subtraction of \<open>size_t\<close>.\<close>

definition icmp_len :: "u16 \<Rightarrow> nat" where
  "icmp_len data_len = unat ((ucast data_len :: u64) - 14 - 20)"

definition ping_reply :: "nat \<Rightarrow> u16 \<Rightarrow> u16 \<Rightarrow> u8 list \<Rightarrow> u8 list" where
  "ping_reply ip data_len cksum m =
     (let m1 = wr (ip + 20 + 2) (put_le16 cksum) m; m2 = swap_at 4 (ip + 12) (ip + 16) m1;
          m3 = wr (ip + 4) (be16 (rd_be16 (ip + 4) m2 + data_len)) m2; m4 = wr (ip + 10) [0, 0] m3;
          m5 = wr (ip + 10) (put_le16 (NOT (rte_raw_cksum (take 20 (drop ip m4))))) m4
      in swap_at 6 0 6 m5)"

definition pktgen_process_ping4 :: "bool \<Rightarrow> u16 \<Rightarrow> u8 list \<Rightarrow> build \<Rightarrow> answer" where
  "pktgen_process_ping4 vlan data_len m b =
     (let ip = (if vlan then 18 else 14); pinfo = b_pinfo b; icmp = ip + 20 in
      if length m < icmp + 8 then None
      else if pktgen_tst_port_flags ICMP_ECHO_ENABLE_FLAG pinfo \<and> rd8 (ip + 9) m = ucast PG_IPPROTO_ICMP then
        (case raw_cksum_at icmp (icmp_len data_len) m of
           None \<Rightarrow> None
         | Some s \<Rightarrow>
             if NOT s \<noteq> 0 then Some (Inr (b, []))
             else if int (unat (rd8 icmp m)) = ICMP4_ECHO then
               (if rd_be32 (ip + 16) m = INADDR_BROADCAST then Some (Inr (b, []))
                else if pktgen_find_matching_ipsrc pinfo (get_le32 (drop (ip + 16) m)) = -1 then Some (Inr (b, []))
                else
                  (let m1 = wr icmp [ICMP4_ECHO_REPLY] m; m2 = wr (icmp + 2) [0, 0] m1 in
                   map_option (\<lambda>c. Inr (b, [take (unat data_len) (ping_reply ip data_len c m2)]))
                     (raw_cksum_at icmp (icmp_len data_len) m2)))
             else Some (Inr (b, [])))
      else Some (Inr (b, [])))"

text \<open>
  The special template becomes a copy of the given one, its memory included, in which the packet is built;
  the memory of both is the same from then on.
\<close>

definition pktgen_send_ping4 :: "answer_env \<Rightarrow> nat \<Rightarrow> build \<Rightarrow> (build \<times> u8 list list) option" where
  "pktgen_send_ping4 env seq_idx b =
     (case ae_fresh env of
        None \<Rightarrow> Some (b, [])
      | Some m0 \<Rightarrow>
          (let b1 = set_hdr SPECIAL_PKT (b_hdr b ! seq_idx) (b\<lparr>b_pinfo := upd_pkt SPECIAL_PKT (\<lambda>_. seq_pkt (b_pinfo b) ! seq_idx) (b_pinfo b)\<rparr>) in
           case pktgen_packet_ctor (ae_build env seq_idx) SPECIAL_PKT ICMP4_ECHO b1 of
             None \<Rightarrow> None
           | Some b2 \<Rightarrow>
               (let pkt = seq_pkt (b_pinfo b2) ! SPECIAL_PKT; hd = b_hdr b2 ! SPECIAL_PKT; n = unat (pk_size pkt) in
                if length hd < n \<or> length m0 < n then None
                else Some (set_hdr seq_idx hd b2, [take n (wr 0 (take n hd) m0)]))))"

subsection \<open>Classification\<close>

definition pktgen_packet_type :: "u8 list \<Rightarrow> u16" where
  "pktgen_packet_type m = rd_be16 12 m"

definition pktgen_process_vlan :: "answer_env \<Rightarrow> u16 \<Rightarrow> u8 list \<Rightarrow> build \<Rightarrow> answer" where
  "pktgen_process_vlan env data_len m b =
     (let ty = rd_be16 16 m in
      if ty = RTE_ETHER_TYPE_ARP then pktgen_process_arp env True data_len m b
      else if ty = RTE_ETHER_TYPE_IPV4 then pktgen_process_ping4 True data_len m b
      else Some (Inr (b, [])))"

definition pktgen_packet_classify :: "answer_env \<Rightarrow> u16 \<Rightarrow> u8 list \<Rightarrow> build \<Rightarrow> answer" where
  "pktgen_packet_classify env data_len m b =
     (if pktgen_tst_port_flags PROCESS_INPUT_PKTS (b_pinfo b) then
        (let ty = pktgen_packet_type m in
         if ty = RTE_ETHER_TYPE_ARP then pktgen_process_arp env False data_len m b
         else if ty = RTE_ETHER_TYPE_IPV4 then pktgen_process_ping4 False data_len m b
         else if ty = RTE_ETHER_TYPE_VLAN then pktgen_process_vlan env data_len m b
         else Some (Inr (b, [])))
      else Some (Inr (b, [])))"

text \<open>One packet after the other, each with its own environment.\<close>

fun pktgen_packet_classify_bulk :: "(answer_env \<times> u16 \<times> u8 list) list \<Rightarrow> build \<Rightarrow> answer" where
  "pktgen_packet_classify_bulk [] b = Some (Inr (b, []))"
| "pktgen_packet_classify_bulk ((env, n, m) # ps) b =
     (case pktgen_packet_classify env n m b of
        None \<Rightarrow> None
      | Some (Inl e) \<Rightarrow> Some (Inl e)
      | Some (Inr (b1, out)) \<Rightarrow>
          (case pktgen_packet_classify_bulk ps b1 of
             None \<Rightarrow> None
           | Some (Inl e) \<Rightarrow> Some (Inl e)
           | Some (Inr (b2, outs)) \<Rightarrow> Some (Inr (b2, out @ outs))))"

subsection \<open>Requests\<close>

definition special_of :: "(nat \<Rightarrow> answer_env) \<Rightarrow> nat \<Rightarrow> build \<Rightarrow> (build \<times> u8 list list) option" where
  "special_of envs i b =
     (let (b1, out1) = (if pktgen_tst_port_flags SEND_GRATUITOUS_ARP (b_pinfo b) then pktgen_send_arp (envs (2 * i)) GRATUITOUS_ARP i b
                        else if pktgen_tst_port_flags SEND_ARP_REQUEST (b_pinfo b) then pktgen_send_arp (envs (2 * i)) 0 i b
                        else (b, []))
      in if pktgen_tst_port_flags SEND_PING4_REQUEST (b_pinfo b1)
         then map_option (\<lambda>(b2, out2). (b2, out1 @ out2)) (pktgen_send_ping4 (envs (2 * i + 1)) i b1)
         else Some (b1, out1))"

fun special_loop :: "(nat \<Rightarrow> answer_env) \<Rightarrow> nat list \<Rightarrow> build \<Rightarrow> (build \<times> u8 list list) option" where
  "special_loop envs [] b = Some (b, [])"
| "special_loop envs (i # is) b =
     (case special_of envs i b of
        None \<Rightarrow> None
      | Some (b1, out) \<Rightarrow> map_option (\<lambda>(b2, outs). (b2, out @ outs)) (special_loop envs is b1))"

definition pktgen_send_special :: "(nat \<Rightarrow> answer_env) \<Rightarrow> build \<Rightarrow> (build \<times> u8 list list) option" where
  "pktgen_send_special envs b =
     (if \<not> pktgen_tst_port_flags SEND_ARP_PING_REQUESTS (b_pinfo b) then Some (b, [])
      else map_option (\<lambda>(b1, out). (b1\<lparr>b_pinfo := pktgen_clr_port_flags SEND_ARP_PING_REQUESTS (b_pinfo b1)\<rparr>, out))
             (special_loop envs ([0..<unat (seqCnt (b_pinfo b))] @ [SINGLE_PKT]) b))"

subsection \<open>Addresses\<close>

lemma first_match_range: "first_match p is = -1 \<or> (\<exists>i \<in> set is. first_match p is = int i \<and> p i)"
  by (induction "is") auto

lemma first_match_found: "i < n \<Longrightarrow> p i \<Longrightarrow> \<exists>j \<le> i. p j \<and> first_match p [0..<n] = int j"
proof (induction n)
  case (Suc n)
  have app: "first_match p (xs @ ys) = (if first_match p xs = -1 then first_match p ys else first_match p xs)" for xs ys
    by (induction xs) auto
  show ?case
  proof (cases "i < n")
    case True
    then show ?thesis using Suc by (auto simp: app)
  next
    case False
    then have "i = n" using Suc.prems(1) by simp
    moreover have "first_match p [0..<n] = -1 \<or> (\<exists>j < n. first_match p [0..<n] = int j \<and> p j)"
      using first_match_range [of p "[0..<n]"] by auto
    ultimately show ?thesis using Suc.prems(2) by (auto simp: app intro: less_imp_le)
  qed
qed simp

text \<open>The search for a source address never fails.\<close>

lemma ipsrc_found: "0 \<le> pktgen_find_matching_ipsrc pinfo a"
  using first_match_range [of "\<lambda>i. ntohl a = src_ipv4 (seq_pkt pinfo ! i)" "[0..<unat (seqCnt pinfo)]"]
  by (auto simp: pktgen_find_matching_ipsrc_def Let_def)

subsection \<open>Replies\<close>

lemma swap_length [simp]: "i + n \<le> length m \<Longrightarrow> j + n \<le> length m \<Longrightarrow> length (swap_at n i j m) = length m"
  by (simp add: swap_at_def)

lemma swap_window:
  assumes "i + n \<le> length m" "j + n \<le> length m"
  shows "k + l \<le> i \<or> i + n \<le> k \<Longrightarrow> k + l \<le> j \<or> j + n \<le> k \<Longrightarrow> take l (drop k (swap_at n i j m)) = take l (drop k m)"
    and "take n (drop i (swap_at n i j m)) = take n (drop j m)"
    and "i + n \<le> j \<or> j + n \<le> i \<Longrightarrow> take n (drop j (swap_at n i j m)) = take n (drop i m)"
  using assms wr_at [of i "take n (drop j m)"] wr_at [of j "take n (drop i m)"]
  by (auto simp: swap_at_def wr_window)

lemma swap_window_0:
  assumes "n \<le> length m" "j + n \<le> length m"
  shows "take n (swap_at n 0 j m) = take n (drop j m)"
  using swap_window(2) [of 0 n m j] assms by simp

lemma swap_window_far:
  assumes "i + n \<le> length m" "j + n \<le> length m" "l \<le> i" "l \<le> j"
  shows "take l (swap_at n i j m) = take l m"
  using swap_window(1) [of i n m j 0 l] assms by simp

text \<open>The fields of a reply.\<close>

lemma arp_reply_fields:
  assumes "42 \<le> length m" "length (eth_src_addr pkt) = 6"
  shows "length (arp_reply pkt m) = length m"
    "take 6 (arp_reply pkt m) = take 6 (drop 6 m)" "take 6 (drop 6 (arp_reply pkt m)) = eth_src_addr pkt"
    "take 8 (drop 12 (arp_reply pkt m)) = take 8 (drop 12 m)" "take 2 (drop 20 (arp_reply pkt m)) = be16 ARP_REPLY"
    "take 6 (drop 22 (arp_reply pkt m)) = eth_src_addr pkt" "take 4 (drop 28 (arp_reply pkt m)) = take 4 (drop 38 m)"
    "take 6 (drop 32 (arp_reply pkt m)) = take 6 (drop 22 m)" "take 4 (drop 38 (arp_reply pkt m)) = take 4 (drop 28 m)"
  using assms wr_at [of 6 "eth_src_addr pkt"] wr_at [of 22 "eth_src_addr pkt"] wr_at [of 20 "be16 ARP_REPLY"]
  by (simp_all add: arp_reply_def Let_def wr_window wr_take swap_window swap_window_0 swap_window_far)

lemma take_add_drop: "take (i + j) (drop k m) = take i (drop k m) @ take j (drop (k + i) m)"
  by (simp add: take_add add.commute)

lemma arp_reply_made:
  assumes m: "42 \<le> length m" "42 \<le> unat n" "unat n \<le> length m" and fresh: "ae_fresh env = Some m0" "unat n \<le> length m0"
    and req: "rd_be16 20 m = ARP_REQUEST" "rd_be32 38 m \<noteq> rd_be32 28 m" and mac: "\<not> ae_mac_from_arp env"
    and src: "src = eth_src_addr (seq_pkt (b_pinfo b) ! nat (pktgen_find_matching_ipsrc (b_pinfo b) (get_le32 (drop 38 m))))" "length src = 6"
  shows "\<exists>r. pktgen_process_arp env False n m b = Some (Inr (b, [r])) \<and> length r = unat n
    \<and> take 12 r = take 6 (drop 6 m) @ src \<and> take 8 (drop 12 r) = take 8 (drop 12 m) \<and> take 2 (drop 20 r) = be16 ARP_REPLY
    \<and> take 10 (drop 22 r) = src @ take 4 (drop 38 m)
    \<and> take 10 (drop 32 r) = take 6 (drop 22 m) @ take 4 (drop 28 m)"
proof -
  define k where "k = unat n"
  let ?pkt = "seq_pkt (b_pinfo b) ! nat (pktgen_find_matching_ipsrc (b_pinfo b) (get_le32 (drop 38 m)))"
  let ?m1 = "take k m @ drop k m0" and ?r = "arp_reply ?pkt (take k m @ drop k m0)"
  have k: "42 \<le> k" "k \<le> length m" "k \<le> length m0" using m fresh by (simp_all add: k_def)
  have w: "take l (drop j ?m1) = take l (drop j m)" if "j + l \<le> 42" for j l
    using that k by (simp add: drop_take min_absorb1 min_absorb2)
  have l: "42 \<le> length ?m1" "length (eth_src_addr ?pkt) = 6" using k src by simp_all
  note f = arp_reply_fields [OF l]
  have t: "take j (drop i (take k ?r)) = take j (drop i ?r)" if "i + j \<le> 42" for i j
    using that k(1) by (simp add: drop_take min_absorb1 min_absorb2)
  have e: "pktgen_process_arp env False n m b = Some (Inr (b, [take k ?r]))"
    using m fresh req mac ipsrc_found [of "b_pinfo b" "get_le32 (drop 38 m)"] k
    by (simp add: pktgen_process_arp_def Let_def rd_be32_def wr_0 k_def [symmetric] min_absorb1 min_absorb2)
  have "take 12 (take k ?r) = take 6 (drop 6 m) @ src"
    using take_add_drop [of 6 6 0 "take k ?r"] t [of 0 6] t [of 6 6] f(2,3) w [of 6 6] src(1) by simp
  moreover have "take 10 (drop 22 (take k ?r)) = src @ take 4 (drop 38 m)"
    using take_add_drop [of 6 4 22 "take k ?r"] t [of 22 6] t [of 28 4] f(6,7) w [of 38 4] src(1) by simp
  moreover have "take 10 (drop 32 (take k ?r)) = take 6 (drop 22 m) @ take 4 (drop 28 m)"
    using take_add_drop [of 6 4 32 "take k ?r"] t [of 32 6] t [of 38 4] f(8,9) w [of 22 6] w [of 28 4] by simp
  moreover have "take 8 (drop 12 (take k ?r)) = take 8 (drop 12 m)" "take 2 (drop 20 (take k ?r)) = be16 ARP_REPLY"
    using t [of 12 8] t [of 20 2] f(4,5) w [of 12 8] by simp_all
  moreover have "length (take k ?r) = unat n" using f(1) k by (simp add: k_def)
  ultimately show ?thesis using e by blast
qed

text \<open>The destination is found when one of the templates has it.\<close>

definition sends_to :: "port_info \<Rightarrow> u32 \<Rightarrow> bool" where
  "sends_to pinfo addr = (\<exists>i. (i < unat (seqCnt pinfo) \<or> i = SINGLE_PKT \<or> i = RANGE_PKT) \<and> dst_ipv4 (seq_pkt pinfo ! i) = addr)"

lemma ipdst_found_iff: "0 \<le> pktgen_find_matching_ipdst pinfo a \<longleftrightarrow> sends_to pinfo (ntohl a)"
proof -
  define r where "r = first_match (\<lambda>i. ntohl a = dst_ipv4 (seq_pkt pinfo ! i)) [0..<unat (seqCnt pinfo)]"
  have "r = -1 \<or> (\<exists>i < unat (seqCnt pinfo). r = int i \<and> ntohl a = dst_ipv4 (seq_pkt pinfo ! i))"
    using first_match_range [of "\<lambda>i. ntohl a = dst_ipv4 (seq_pkt pinfo ! i)" "[0..<unat (seqCnt pinfo)]"] by (auto simp: r_def)
  moreover have "0 \<le> r" if "dst_ipv4 (seq_pkt pinfo ! i) = ntohl a" "i < unat (seqCnt pinfo)" for i
    using first_match_found [of i "unat (seqCnt pinfo)" "\<lambda>i. ntohl a = dst_ipv4 (seq_pkt pinfo ! i)"] that by (auto simp: r_def)
  ultimately show ?thesis
    unfolding pktgen_find_matching_ipdst_def sends_to_def Let_def r_def [symmetric] by (auto split: if_splits)
qed

text \<open>The template a reply is taken from: one with the asked address, or that of the single packet.\<close>

definition answers_for :: "port_info \<Rightarrow> u32 \<Rightarrow> nat \<Rightarrow> bool" where
  "answers_for pinfo addr i \<longleftrightarrow> i = SINGLE_PKT \<or> i < unat (seqCnt pinfo) \<and> src_ipv4 (seq_pkt pinfo ! i) = addr"

lemma ipsrc_answers: "answers_for pinfo (ntohl a) (nat (pktgen_find_matching_ipsrc pinfo a))"
  using first_match_range [of "\<lambda>i. ntohl a = src_ipv4 (seq_pkt pinfo ! i)" "[0..<unat (seqCnt pinfo)]"]
  by (auto simp: pktgen_find_matching_ipsrc_def answers_for_def Let_def)

text \<open>
  C13 What an untagged ARP request of at least 42 bytes leads to, with input packets processed and \<open>MAC_FROM_ARP\<close>
  off. A request that asks for another address than the sender's is answered, whatever the address is, when the pool has
  a buffer that takes it: the reply goes to the asking station, comes from the MAC address of a template that
  has the asked address or else of the single packet, names the asked address with that MAC address, and the asking
  station as target; without a buffer nothing is sent. A
  gratuitous request, which asks for the sender's own address, is never answered: it is ignored, or, when the port
  sends to that address, it ends the process at a null pointer. Requests with a VLAN tag are not covered.
\<close>

theorem arp_reply_sent:
  assumes "42 \<le> unat n" "unat n \<le> length m" and "\<forall>m0. ae_fresh env = Some m0 \<longrightarrow> unat n \<le> length m0"
    and "pktgen_tst_port_flags PROCESS_INPUT_PKTS (b_pinfo b)" "pktgen_packet_type m = RTE_ETHER_TYPE_ARP" "rd_be16 20 m = ARP_REQUEST"
    and "\<not> ae_mac_from_arp env"
    and "\<forall>i. answers_for (b_pinfo b) (rd_be32 38 m) i \<longrightarrow> length (eth_src_addr (seq_pkt (b_pinfo b) ! i)) = 6"
  shows "if rd_be32 38 m = rd_be32 28 m
    then pktgen_packet_classify env n m b = Some (if sends_to (b_pinfo b) (rd_be32 28 m) then Inl Null_pointer else Inr (b, []))
    else if ae_fresh env = None then pktgen_packet_classify env n m b = Some (Inr (b, []))
    else \<exists>r i src. pktgen_packet_classify env n m b = Some (Inr (b, [r])) \<and> length r = unat n
      \<and> answers_for (b_pinfo b) (rd_be32 38 m) i \<and> src = eth_src_addr (seq_pkt (b_pinfo b) ! i)
      \<and> take 12 r = take 6 (drop 6 m) @ src \<and> take 8 (drop 12 r) = take 8 (drop 12 m) \<and> take 2 (drop 20 r) = be16 ARP_REPLY
      \<and> take 10 (drop 22 r) = src @ take 4 (drop 38 m)
      \<and> take 10 (drop 32 r) = take 6 (drop 22 m) @ take 4 (drop 28 m)"
proof -
  have c: "pktgen_packet_classify env n m b = pktgen_process_arp env False n m b"
    using assms(4,5) by (simp add: pktgen_packet_classify_def)
  have m: "42 \<le> length m" using assms(1,2) by simp
  consider (own) "rd_be32 38 m = rd_be32 28 m" | (empty) "rd_be32 38 m \<noteq> rd_be32 28 m" "ae_fresh env = None"
    | (answer) m0 where "rd_be32 38 m \<noteq> rd_be32 28 m" "ae_fresh env = Some m0" by fastforce
  then show ?thesis
  proof cases
    case own
    then have "get_le32 (drop 38 m) = get_le32 (drop 28 m)" by (simp add: rd_be32_def)
    then show ?thesis using own m assms(6) ipdst_found_iff [of "b_pinfo b" "get_le32 (drop 28 m)"]
      by (simp add: c pktgen_process_arp_def rd_be32_def Let_def)
  next
    case empty
    then have "get_le32 (drop 38 m) \<noteq> get_le32 (drop 28 m)" by (simp add: rd_be32_def)
    then show ?thesis using empty m assms(6) by (simp add: c pktgen_process_arp_def Let_def)
  next
    case answer
    let ?i = "nat (pktgen_find_matching_ipsrc (b_pinfo b) (get_le32 (drop 38 m)))"
    have i: "answers_for (b_pinfo b) (rd_be32 38 m) ?i" unfolding rd_be32_def by (rule ipsrc_answers)
    then have l: "length (eth_src_addr (seq_pkt (b_pinfo b) ! ?i)) = 6" using assms(8) by simp
    show ?thesis unfolding c using arp_reply_made [OF m assms(1,2) answer(2) _ assms(6) answer(1) assms(7) refl l] assms(3) answer i by auto
  qed
qed

text \<open>A request to try: 60 bytes, sender 10.0.0.9 with MAC 02:...:09, asking for 10.0.0.1.\<close>

definition sample_arp :: "u8 list \<Rightarrow> u8 list" where
  "sample_arp tip = replicate 6 0xFF @ [2, 0, 0, 0, 0, 9] @ be16 RTE_ETHER_TYPE_ARP @ be16 1 @ be16 0x0800 @ [6, 4] @ be16 1
     @ [2, 0, 0, 0, 0, 9] @ [10, 0, 0, 9] @ replicate 6 0 @ tip @ replicate 18 0"

definition sample_ip' :: "u32 \<Rightarrow> cmdline_ipaddr" where
  "sample_ip' a = \<lparr>ip_family = 2, ip_addr = with_ipv4 a (replicate 16 0), ip_prefixlen = 24\<rparr>"

lemma sample_arp_reads:
  "length (sample_arp [10, 0, 0, 1]) = 60" "rd_be16 20 (sample_arp [10, 0, 0, 1]) = ARP_REQUEST"
  "pktgen_packet_type (sample_arp [10, 0, 0, 1]) = RTE_ETHER_TYPE_ARP"
  "rd_be32 38 (sample_arp [10, 0, 0, 1]) \<noteq> rd_be32 28 (sample_arp [10, 0, 0, 1])"
  "take 6 (drop 6 (sample_arp [10, 0, 0, 1])) = [2, 0, 0, 0, 0, 9]"
  by code_simp+

lemma sample_garp_reads:
  "length (sample_arp [10, 0, 0, 9]) = 60" "rd_be16 20 (sample_arp [10, 0, 0, 9]) = ARP_REQUEST"
  "pktgen_packet_type (sample_arp [10, 0, 0, 9]) = RTE_ETHER_TYPE_ARP"
  "take 4 (drop 38 (sample_arp [10, 0, 0, 9])) = take 4 (drop 28 (sample_arp [10, 0, 0, 9]))"
  "rd_be32 28 (sample_arp [10, 0, 0, 9]) = 0x0A000009"
  by code_simp+

definition sample_env :: answer_env where
  "sample_env = \<lparr>ae_mac_from_arp = False, ae_fresh = Some (replicate 2048 0), ae_build = (\<lambda>_. plain_env)\<rparr>"

theorem arp_reply_sent_witness:
  "\<exists>r. pktgen_packet_classify sample_env 60 (sample_arp [10, 0, 0, 1]) (tcp_build (tcp_template PG_IPPROTO_TCP) PROCESS_INPUT_PKTS)
       = Some (Inr (tcp_build (tcp_template PG_IPPROTO_TCP) PROCESS_INPUT_PKTS, [r]))
     \<and> take 12 r = [2, 0, 0, 0, 0, 9] @ eth_src_addr (tcp_template PG_IPPROTO_TCP)"
proof -
  have f: "ae_fresh sample_env = Some (replicate 2048 0)" "\<not> ae_mac_from_arp sample_env" by (simp_all add: sample_env_def)
  let ?b = "tcp_build (tcp_template PG_IPPROTO_TCP) PROCESS_INPUT_PKTS"
  have on: "pktgen_tst_port_flags PROCESS_INPUT_PKTS (b_pinfo ?b)"
    by (simp add: pktgen_tst_port_flags_def tcp_build_def PROCESS_INPUT_PKTS_def)
  have i: "seq_pkt (b_pinfo ?b) ! i = tcp_template PG_IPPROTO_TCP" if "answers_for (b_pinfo ?b) x i" for x i
    using that by (auto simp: answers_for_def tcp_build_def Let_def SINGLE_PKT_def nth_replicate)
  have src: "length (eth_src_addr (tcp_template PG_IPPROTO_TCP)) = 6" by (simp add: tcp_template_def)
  show ?thesis
    using arp_reply_sent [of 60 "sample_arp [10, 0, 0, 1]" sample_env ?b]
      sample_arp_reads f on i src by fastforce
qed

text \<open>
  A gratuitous ARP request from an address the port sends to ends the process: the handler copies the
  new MAC address through a template pointer that is still null.
\<close>

lemma garp_writes_to_null:
  assumes "42 \<le> length m" and "pktgen_tst_port_flags PROCESS_INPUT_PKTS (b_pinfo b)"
    and "pktgen_packet_type m = RTE_ETHER_TYPE_ARP" and "rd_be16 20 m = ARP_REQUEST" and "take 4 (drop 38 m) = take 4 (drop 28 m)"
    and "i < unat (seqCnt (b_pinfo b)) \<or> i = SINGLE_PKT \<or> i = RANGE_PKT" and "rd_be32 28 m = dst_ipv4 (seq_pkt (b_pinfo b) ! i)"
  shows "pktgen_packet_classify env n m b = Some (Inl Null_pointer)"
proof -
  have "get_le32 xs = get_le32 (take 4 xs)" for xs by (cases xs rule: get_le32.cases) auto
  then have eq: "get_le32 (drop 38 m) = get_le32 (drop 28 m)" using assms(5) by metis
  have "0 \<le> pktgen_find_matching_ipdst (b_pinfo b) (get_le32 (drop 28 m))"
    unfolding ipdst_found_iff sends_to_def using assms(6,7) by (auto simp: rd_be32_def)
  with assms(1-4) eq show ?thesis
    by (simp add: pktgen_packet_classify_def pktgen_process_arp_def Let_def)
qed

lemma garp_writes_to_null_example:
  "pktgen_packet_classify sample_env 60 (sample_arp [10, 0, 0, 9])
     (tcp_build (tcp_template PG_IPPROTO_TCP\<lparr>ip_dst_addr := sample_ip' 0x0A000009\<rparr>) PROCESS_INPUT_PKTS) = Some (Inl Null_pointer)"
proof -
  let ?b = "tcp_build (tcp_template PG_IPPROTO_TCP\<lparr>ip_dst_addr := sample_ip' 0x0A000009\<rparr>) PROCESS_INPUT_PKTS"
  have "pktgen_tst_port_flags PROCESS_INPUT_PKTS (b_pinfo ?b)"
    by (simp add: pktgen_tst_port_flags_def tcp_build_def PROCESS_INPUT_PKTS_def)
  moreover have "dst_ipv4 (seq_pkt (b_pinfo ?b) ! SINGLE_PKT) = 0x0A000009"
    by (simp add: tcp_build_def SINGLE_PKT_def nth_replicate dst_ipv4_def sample_ip'_def)
  ultimately show ?thesis
    using garp_writes_to_null [of "sample_arp [10, 0, 0, 9]" ?b SINGLE_PKT sample_env 60] sample_garp_reads by simp
qed

subsection \<open>Ping\<close>

lemma wr_mid:
  assumes "a \<le> n" "a + length bs \<le> n" "k + n \<le> length m"
  shows "take n (drop k (wr (k + a) bs m)) = take a (drop k m) @ bs @ drop (a + length bs) (take n (drop k m))"
proof -
  have m: "m = take k m @ take n (drop k m) @ drop (k + n) m" by (simp only: take_drop3)
  have "wr (k + a) bs (take k m @ take n (drop k m) @ drop (k + n) m) = take k m @ wr a bs (take n (drop k m)) @ drop (k + n) m"
    using assms by (simp add: wr_append2 wr_append1 min_absorb2 wr_def)
  then show ?thesis using m assms by (simp add: wr_def min_absorb1 min_absorb2)
qed

lemma swap_drop: "i + n \<le> k \<Longrightarrow> j + n \<le> k \<Longrightarrow> k \<le> length m \<Longrightarrow> drop k (swap_at n i j m) = drop k m"
  by (simp add: swap_at_def wr_drop)

lemma ping_reply_fields:
  assumes "42 \<le> length m"
  shows "length (ping_reply 14 n c m) = length m"
    "drop 34 (ping_reply 14 n c m) = drop 34 (wr 36 (put_le16 c) m)"
    "take 6 (ping_reply 14 n c m) = take 6 (drop 6 m)" "take 6 (drop 6 (ping_reply 14 n c m)) = take 6 m"
    "take 4 (drop 26 (ping_reply 14 n c m)) = take 4 (drop 30 m)" "take 4 (drop 30 (ping_reply 14 n c m)) = take 4 (drop 26 m)"
  using assms swap_window(3) [of 0 6 _ 6]
  by (simp_all add: ping_reply_def Let_def bytes_simps wr_drop swap_drop wr_window wr_take swap_window swap_window_0 swap_window_far)

lemma ping_reply_header:
  assumes "42 \<le> length m"
  shows "rte_raw_cksum (take 20 (drop 14 (ping_reply 14 n c m))) = 0xffff"
proof -
  define m3 where "m3 = wr 18 (be16 (rd_be16 18 (swap_at 4 26 30 (wr 36 (put_le16 c) m)) + n)) (swap_at 4 26 30 (wr 36 (put_le16 c) m))"
  define h where "h = take 20 (drop 14 (wr 24 [0, 0] m3))"
  have l: "length m3 = length m" using assms by (simp add: m3_def bytes_simps)
  have h: "h = take 10 (drop 14 m3) @ [0, 0] @ drop 12 (take 20 (drop 14 m3))"
    unfolding h_def using wr_mid [of 10 20 "[0, 0]" 14 m3] l assms by simp
  have "take 20 (drop 14 (ping_reply 14 n c m)) = take 20 (drop 14 (wr 24 (put_le16 (NOT (rte_raw_cksum h))) (wr 24 [0, 0] m3)))"
    using assms l by (simp add: ping_reply_def Let_def m3_def [symmetric] h_def [symmetric] swap_window bytes_simps)
  also have "\<dots> = take 10 (drop 14 m3) @ put_le16 (NOT (rte_raw_cksum h)) @ drop 12 (take 20 (drop 14 m3))"
    using wr_mid [of 10 20 "put_le16 (NOT (rte_raw_cksum h))" 14 "wr 24 [0, 0] m3"] l assms
    by (simp add: bytes_simps h_def [symmetric]) (simp add: h min_absorb1 min_absorb2 wr_window)
  also have "rte_raw_cksum \<dots> = 0xffff"
    unfolding h using l assms by (intro cksum_field_valid) simp_all
  finally show ?thesis .
qed

lemma drop_wr:
  assumes "k + a + length bs \<le> length m"
  shows "drop k (wr (k + a) bs m) = take a (drop k m) @ bs @ drop (k + a + length bs) m"
  using assms by (simp add: wr_def drop_take)

text \<open>
  C26 A valid ping gets a reply with the addresses swapped, a valid IPv4 header and the same message, but
  the message checksum is stored without the complement: a receiver accepts the reply only if the field
  happens to be all ones.
\<close>

theorem ping_reply_rejected:
  assumes n: "42 \<le> unat n" "unat n \<le> length m"
    and req: "pktgen_tst_port_flags ICMP_ECHO_ENABLE_FLAG (b_pinfo b)" "rd8 23 m = 1" "rd8 34 m = 8"
      "rte_raw_cksum (take (unat n - 34) (drop 34 m)) = 0xffff" "rd_be32 30 m \<noteq> INADDR_BROADCAST"
  shows "\<exists>r. pktgen_process_ping4 False n m b = Some (Inr (b, [r])) \<and> length r = unat n
    \<and> take 12 r = take 6 (drop 6 m) @ take 6 m \<and> take 8 (drop 26 r) = take 4 (drop 30 m) @ take 4 (drop 26 m)
    \<and> rte_raw_cksum (take 20 (drop 14 r)) = 0xffff
    \<and> rd8 34 r = ICMP4_ECHO_REPLY \<and> drop 38 r = drop 38 (take (unat n) m)
    \<and> (rte_raw_cksum (drop 34 r) = 0xffff \<longleftrightarrow> take 2 (drop 36 r) = [0xff, 0xff])"
proof -
  define N where "N = unat n"
  define L where "L = N - 34"
  define m2 where "m2 = wr 36 [0, 0] (wr 34 [ICMP4_ECHO_REPLY] m)"
  define c where "c = rte_raw_cksum (take L (drop 34 m2))"
  let ?M = "ping_reply 14 n c m2"
  have N: "42 \<le> N" "N \<le> length m" "8 \<le> L" "34 + L = N" "N < 65536"
    using n unsigned_less [where ?'a = nat, of n] by (simp_all add: N_def L_def)
  obtain K where K: "L = Suc (Suc (Suc (Suc K)))" "N - 34 = Suc (Suc (Suc (Suc K)))" "N - 38 = K"
    using N that [of "N - 38"] by simp
  have len: "icmp_len n = L"
  proof -
    have "unat (ucast n :: u64) = N" by (simp add: N_def unat_ucast_up)
    then show ?thesis using N by (simp add: icmp_len_def L_def unat_sub word_le_nat_alt)
  qed
  have l2: "length m2 = length m" using N by (simp add: m2_def)
  have sum: "raw_cksum_at 34 L m2 = Some c" "raw_cksum_at 34 L m = Some 0xffff"
    using N l2 req(4) by (simp_all add: raw_cksum_at_def c_def L_def N_def)
  have echo: "int (unat (rd8 34 m)) = ICMP4_ECHO" "rd8 23 m = ucast PG_IPPROTO_ICMP"
    using req(2,3) by (simp_all add: ICMP4_ECHO_def PG_IPPROTO_ICMP_def)
  have e: "pktgen_process_ping4 False n m b = Some (Inr (b, [take N ?M]))"
    unfolding pktgen_process_ping4_def Let_def
    using N req(1,5) echo len sum ipsrc_found [of "b_pinfo b" "get_le32 (drop 30 m)"]
    by (simp add: m2_def [symmetric] N_def [symmetric])
  have k: "42 \<le> length m2" using N l2 by simp
  note f = ping_reply_fields [OF k, of n c]
  have "drop 34 (wr 34 [ICMP4_ECHO_REPLY] m) = 0 # m ! 35 # drop 36 m"
    using N drop_wr [of 34 0 "[ICMP4_ECHO_REPLY]" m] Cons_nth_drop_Suc [of 35 m]
    by (simp add: ICMP4_ECHO_REPLY_def)
  then have d34: "drop 34 m2 = [0, m ! 35] @ [0, 0] @ drop 38 m"
    using N drop_wr [of 34 2 "[0, 0]" "wr 34 [ICMP4_ECHO_REPLY] m"] by (simp add: m2_def wr_drop)
  have "drop 34 ?M = take 2 (drop 34 m2) @ put_le16 c @ drop 38 m2"
    unfolding f(2) using N l2 drop_wr [of 34 2 "put_le16 c" m2] by (simp add: bytes_simps)
  moreover have "drop 38 m2 = drop 38 m" using N by (simp add: m2_def wr_drop)
  ultimately have r34: "drop 34 ?M = [0, m ! 35] @ put_le16 c @ drop 38 m" by (simp add: d34)
  have t: "take j (drop i (take N ?M)) = take j (drop i ?M)" if "i + j \<le> 42" for i j
    using that N(1) by (simp add: drop_take min_absorb1)
  have m2: "take j (drop i m2) = take j (drop i m)" if "i + j \<le> 34" for i j
    using that N by (simp add: m2_def wr_window)
  have "take 12 (take N ?M) = take 6 (drop 6 m) @ take 6 m"
    using take_add_drop [of 6 6 0 "take N ?M"] t [of 0 6] t [of 6 6] f(3,4) m2 [of 6 6] m2 [of 0 6] by simp
  moreover have "take 8 (drop 26 (take N ?M)) = take 4 (drop 30 m) @ take 4 (drop 26 m)"
    using take_add_drop [of 4 4 26 "take N ?M"] t [of 26 4] t [of 30 4] f(5,6) m2 [of 26 4] m2 [of 30 4] by simp
  moreover have "rte_raw_cksum (take 20 (drop 14 (take N ?M))) = 0xffff" using t [of 14 20] ping_reply_header [OF k, of n c] by simp
  moreover have R: "drop 34 (take N ?M) = [0, m ! 35] @ put_le16 c @ drop 38 (take N m)"
    by (simp add: drop_take r34 K put_le16_def)
  moreover have "rd8 34 (take N ?M) = ICMP4_ECHO_REPLY" "drop 38 (take N ?M) = drop 38 (take N m)" "take 2 (drop 36 (take N ?M)) = put_le16 c"
  proof -
    have x: "drop i (take N ?M) = drop (i - 34) ([0, m ! 35] @ put_le16 c @ drop 38 (take N m))" if "34 \<le> i" for i
      using that unfolding R [symmetric] by simp
    show "drop 38 (take N ?M) = drop 38 (take N m)" "take 2 (drop 36 (take N ?M)) = put_le16 c"
      using x [of 38] x [of 36] by (simp_all add: bytes_simps put_le16_def)
    show "rd8 34 (take N ?M) = ICMP4_ECHO_REPLY"
      using nth_via_drop [of 34 "take N ?M"] R by (simp add: rd8_def ICMP4_ECHO_REPLY_def)
  qed
  moreover have "rte_raw_cksum (drop 34 (take N ?M)) = 0xffff \<longleftrightarrow> put_le16 c = [0xff, 0xff]"
  proof -
    have "c = rte_raw_cksum ([0, m ! 35] @ [0, 0] @ drop 38 (take N m))"
      unfolding c_def d34 by (simp add: drop_take K)
    then have "rte_raw_cksum (drop 34 (take N ?M)) = 0xffff \<longleftrightarrow> c = 0xffff"
      unfolding R using N by (intro cksum_field_plain) simp_all
    also have "\<dots> \<longleftrightarrow> put_le16 c = [0xff, 0xff]"
    proof -
      have "put_le16 0xffff = [0xff, 0xff]" by code_simp
      then show ?thesis by (metis get_put_le16')
    qed
    finally show ?thesis .
  qed
  moreover have "length (take N ?M) = unat n" using f(1) N l2 by (simp add: N_def)
  ultimately show ?thesis using e by (simp add: N_def)
qed

definition sample_ping :: "u8 list" where
  "sample_ping = replicate 12 0 @ be16 RTE_ETHER_TYPE_IPV4 @ [0x45, 0, 0, 28, 0, 0, 0, 0, 64, 1, 0, 0] @ [10, 0, 0, 9] @ [10, 0, 0, 1]
     @ [8, 0, 0xf7, 0xfd, 0, 1, 0, 1]"

theorem ping_reply_rejected_witness:
  "\<exists>r. pktgen_process_ping4 False 42 sample_ping (tcp_build (tcp_template PG_IPPROTO_TCP) ICMP_ECHO_ENABLE_FLAG)
      = Some (Inr (tcp_build (tcp_template PG_IPPROTO_TCP) ICMP_ECHO_ENABLE_FLAG, [r])) \<and> rte_raw_cksum (take 20 (drop 14 r)) = 0xffff"
proof -
  have "pktgen_tst_port_flags ICMP_ECHO_ENABLE_FLAG (b_pinfo (tcp_build (tcp_template PG_IPPROTO_TCP) ICMP_ECHO_ENABLE_FLAG))"
    by (simp add: pktgen_tst_port_flags_def tcp_build_def ICMP_ECHO_ENABLE_FLAG_def)
  moreover have "rd8 23 sample_ping = 1" "rd8 34 sample_ping = 8" "rd_be32 30 sample_ping \<noteq> INADDR_BROADCAST"
    "rte_raw_cksum (take (unat (42 :: u16) - 34) (drop 34 sample_ping)) = 0xffff" "length sample_ping = 42"
    by code_simp+
  ultimately show ?thesis using ping_reply_rejected [of 42 sample_ping] by auto
qed

end
