(* ===== verification/HashMap.thy ===== *)
theory HashMap
  imports Prelude
begin

text \<open>
  The hash map of \<open>lib/hmap/hmap.c\<close> and \<open>lib/hmap/hmap_helper.h\<close>: a table of slots with open addressing,
  linear probing and growth by a fixed step. Strings are lists of characters, a null pointer is \<open>None\<close>,
  values are the 64 bits of the union. The lookup of a slot gives its index. An access outside the table, a
  division by a capacity of zero and a null pointer given to \<open>strdup\<close> are the result \<open>None\<close>. Memory is an
  argument: \<open>mem n\<close> tells whether the \<open>n\<close>-th allocation succeeds; the operations that allocate take and return
  the number of allocations. The mutexes and the list of all maps are left out.
\<close>

subsection \<open>Types of values\<close>

datatype hmap_type =
    HMAP_EMPTY_TYPE | HMAP_STR_TYPE | HMAP_U64_TYPE | HMAP_U32_TYPE | HMAP_U16_TYPE | HMAP_U8_TYPE
  | HMAP_I64_TYPE | HMAP_I32_TYPE | HMAP_I16_TYPE | HMAP_I8_TYPE | HMAP_DOUBLE_TYPE | HMAP_POINTER_TYPE
  | HMAP_STR_ARRAY_TYPE | HMAP_U64_ARRAY_TYPE | HMAP_U32_ARRAY_TYPE | HMAP_U16_ARRAY_TYPE | HMAP_U8_ARRAY_TYPE
  | HMAP_I64_ARRAY_TYPE | HMAP_I32_ARRAY_TYPE | HMAP_I16_ARRAY_TYPE | HMAP_I8_ARRAY_TYPE
  | HMAP_DOUBLE_ARRAY_TYPE | HMAP_PTR_ARRAY_TYPE

text \<open>The constants of the enumeration are compared as numbers.\<close>

primrec type_num :: "hmap_type \<Rightarrow> nat" where
  "type_num HMAP_EMPTY_TYPE = 0" | "type_num HMAP_STR_TYPE = 1" | "type_num HMAP_U64_TYPE = 2"
| "type_num HMAP_U32_TYPE = 3" | "type_num HMAP_U16_TYPE = 4" | "type_num HMAP_U8_TYPE = 5"
| "type_num HMAP_I64_TYPE = 6" | "type_num HMAP_I32_TYPE = 7" | "type_num HMAP_I16_TYPE = 8"
| "type_num HMAP_I8_TYPE = 9" | "type_num HMAP_DOUBLE_TYPE = 10" | "type_num HMAP_POINTER_TYPE = 11"
| "type_num HMAP_STR_ARRAY_TYPE = 12" | "type_num HMAP_U64_ARRAY_TYPE = 13" | "type_num HMAP_U32_ARRAY_TYPE = 14"
| "type_num HMAP_U16_ARRAY_TYPE = 15" | "type_num HMAP_U8_ARRAY_TYPE = 16" | "type_num HMAP_I64_ARRAY_TYPE = 17"
| "type_num HMAP_I32_ARRAY_TYPE = 18" | "type_num HMAP_I16_ARRAY_TYPE = 19" | "type_num HMAP_I8_ARRAY_TYPE = 20"
| "type_num HMAP_DOUBLE_ARRAY_TYPE = 21" | "type_num HMAP_PTR_ARRAY_TYPE = 22"

lemma type_num_inj: "type_num s = type_num t \<Longrightarrow> s = t"
  by (cases s; cases t) simp_all

instantiation hmap_type :: linorder
begin

definition less_eq_hmap_type :: "hmap_type \<Rightarrow> hmap_type \<Rightarrow> bool" where
  "less_eq_hmap_type s t \<longleftrightarrow> type_num s \<le> type_num t"

definition less_hmap_type :: "hmap_type \<Rightarrow> hmap_type \<Rightarrow> bool" where
  "less_hmap_type s t \<longleftrightarrow> type_num s < type_num t"

instance
  by standard (auto simp: less_eq_hmap_type_def less_hmap_type_def intro: type_num_inj)

end

subsection \<open>The table\<close>

definition HMAP_MAX_NAME_SIZE :: nat where "HMAP_MAX_NAME_SIZE = 32"
definition HMAP_STARTING_CAPACITY :: u32 where "HMAP_STARTING_CAPACITY = 32"
definition HMAP_DEFAULT_CAPACITY :: u32 where "HMAP_DEFAULT_CAPACITY = 1024"
definition HMAP_USE_DEFAULT_CAPACITY :: u32 where "HMAP_USE_DEFAULT_CAPACITY = 0"

record hmap_kvp =
  kv_type :: hmap_type
  kv_count :: u32
  kv_prefix :: "string option"
  kv_key :: "string option"
  kv_v :: u64

record hmap_funcs =
  hash_fn :: "string option \<Rightarrow> string \<Rightarrow> u32"
  cmp_fn :: "hmap_kvp \<Rightarrow> string option \<Rightarrow> string \<Rightarrow> bool"
  free_fn :: "hmap_kvp option \<Rightarrow> hmap_kvp option"

record hmap =
  hm_capacity :: u32
  hm_max_capacity :: u32
  hm_curr_capacity :: u32
  hm_fns :: hmap_funcs
  hm_map :: "hmap_kvp list"
  hm_alloc_count :: u64

text \<open>What \<open>calloc\<close> gives.\<close>

definition zero_kvp :: hmap_kvp where
  "zero_kvp = \<lparr>kv_type = HMAP_EMPTY_TYPE, kv_count = 0, kv_prefix = None, kv_key = None, kv_v = 0\<rparr>"

subsection \<open>The default functions\<close>

definition hash_step :: "char \<Rightarrow> u32 \<Rightarrow> u32" where
  "hash_step c hash =
     (let h1 = hash + scast (of_char c :: u8); h2 = h1 + push_bit 10 h1 in h2 XOR drop_bit 6 h2)"

fun hash_prefix :: "string \<Rightarrow> u32 \<Rightarrow> u32" where
  "hash_prefix [] hash = hash"
| "hash_prefix (c # cs) hash = hash_prefix cs (hash_step c hash)"

text \<open>The loop over the key goes on while the index is less than the character.\<close>

fun hash_key :: "int \<Rightarrow> string \<Rightarrow> u32 \<Rightarrow> u32" where
  "hash_key i [] hash = hash"
| "hash_key i (c # cs) hash =
     (if i < sint (of_char c :: u8) then hash_key (i + 1) cs (hash_step c hash) else hash)"

definition hmap_hash :: "string option \<Rightarrow> string \<Rightarrow> u32" where
  "hmap_hash prefix key =
     (let h0 = (case prefix of None \<Rightarrow> 0 | Some p \<Rightarrow> hash_prefix p 0);
          h1 = hash_key 0 key h0; h2 = h1 + push_bit 3 h1; h3 = h2 XOR drop_bit 11 h2
      in h3 + push_bit 15 h3)"

definition hmap_cmp :: "hmap_kvp \<Rightarrow> string option \<Rightarrow> string \<Rightarrow> bool" where
  "hmap_cmp kvp prefix key \<longleftrightarrow>
     (case (prefix, kv_prefix kvp) of
        (Some p, Some q) \<Rightarrow> if p \<noteq> q then False else Some key = kv_key kvp
      | (None, None) \<Rightarrow> Some key = kv_key kvp
      | _ \<Rightarrow> False)"

definition hmap_free :: "hmap_kvp option \<Rightarrow> hmap_kvp option" where
  "hmap_free kvp =
     map_option (\<lambda>k. k\<lparr>kv_key := None, kv_prefix := None, kv_v := 0, kv_count := 0, kv_type := HMAP_EMPTY_TYPE\<rparr>) kvp"

definition default_funcs :: hmap_funcs where
  "default_funcs = \<lparr>hash_fn = hmap_hash, cmp_fn = hmap_cmp, free_fn = hmap_free\<rparr>"

text \<open>Each member that is a null pointer is replaced by the default function.\<close>

definition hmap_set_funcs ::
  "(string option \<Rightarrow> string \<Rightarrow> u32) option \<Rightarrow> (hmap_kvp \<Rightarrow> string option \<Rightarrow> string \<Rightarrow> bool) option
   \<Rightarrow> (hmap_kvp option \<Rightarrow> hmap_kvp option) option \<Rightarrow> hmap \<Rightarrow> hmap" where
  "hmap_set_funcs h c f m =
     m\<lparr>hm_fns := \<lparr>hash_fn = (case h of None \<Rightarrow> hmap_hash | Some x \<Rightarrow> x), cmp_fn = (case c of None \<Rightarrow> hmap_cmp | Some x \<Rightarrow> x),
                   free_fn = (case f of None \<Rightarrow> hmap_free | Some x \<Rightarrow> x)\<rparr>\<rparr>"

subsection \<open>The operations\<close>

definition hmap_create :: "(nat \<Rightarrow> bool) \<Rightarrow> nat \<Rightarrow> string option \<Rightarrow> u32 \<Rightarrow> nat \<times> hmap option" where
  "hmap_create mem n name max_capacity =
     (let nm = (case name of None \<Rightarrow> ''HMAP'' | Some s \<Rightarrow> s) in
      if HMAP_MAX_NAME_SIZE \<le> length nm then (n, None)
      else if \<not> mem n then (Suc n, None)
      else
        (let max1 = (if max_capacity = HMAP_USE_DEFAULT_CAPACITY then HMAP_DEFAULT_CAPACITY else max_capacity);
             max2 = (if max1 < HMAP_STARTING_CAPACITY then HMAP_STARTING_CAPACITY else max1);
             cap = (if max2 div 4 = 0 then HMAP_STARTING_CAPACITY else max2 div 4) in
         if \<not> mem (Suc n) then (Suc (Suc n), None)
         else (Suc (Suc n),
               Some (hmap_set_funcs None None None
                 \<lparr>hm_capacity = cap, hm_max_capacity = max2, hm_curr_capacity = 0, hm_fns = default_funcs,
                   hm_map = replicate (unat cap) zero_kvp, hm_alloc_count = 1\<rparr>))))"

definition hmap_get_hash :: "hmap \<Rightarrow> string option \<Rightarrow> string \<Rightarrow> u32 option" where
  "hmap_get_hash h prefix key =
     (if hm_capacity h = 0 then None else Some (hash_fn (hm_fns h) prefix key mod hm_capacity h))"

text \<open>The loop of the lookups and of the insertion: the first slot from \<open>hash\<close> on that satisfies \<open>p\<close>.\<close>

fun probe :: "(hmap_kvp \<Rightarrow> bool) \<Rightarrow> u32 \<Rightarrow> hmap_kvp list \<Rightarrow> nat \<Rightarrow> u32 \<Rightarrow> nat option option" where
  "probe p cap m 0 hash = Some None"
| "probe p cap m (Suc k) hash =
     (if length m \<le> unat hash then None
      else if p (m ! unat hash) then Some (Some (unat hash))
      else probe p cap m k ((hash + 1) mod cap))"

definition hmap_kvp_lookup :: "hmap \<Rightarrow> string option \<Rightarrow> string \<Rightarrow> nat option option" where
  "hmap_kvp_lookup h prefix key =
     (case hmap_get_hash h prefix key of
        None \<Rightarrow> None
      | Some hash \<Rightarrow>
          probe (\<lambda>kvp. kv_key kvp \<noteq> None \<and> cmp_fn (hm_fns h) kvp prefix key) (hm_capacity h) (hm_map h) (unat (hm_capacity h)) hash)"

definition hmap_lookup :: "hmap \<Rightarrow> string option \<Rightarrow> string \<Rightarrow> (int \<times> u64 option) option" where
  "hmap_lookup h prefix key =
     (case hmap_get_hash h prefix key of
        None \<Rightarrow> None
      | Some hash \<Rightarrow>
          map_option (\<lambda>r. case r of None \<Rightarrow> (-1, None) | Some i \<Rightarrow> (0, Some (kv_v (hm_map h ! i))))
            (probe (\<lambda>kvp. kv_key kvp \<noteq> None \<and> cmp_fn (hm_fns h) kvp prefix key) (hm_capacity h) (hm_map h) (unat (hm_capacity h)) hash))"

definition hmap_kvp_update :: "u64 option \<Rightarrow> hmap_kvp \<Rightarrow> int \<times> hmap_kvp" where
  "hmap_kvp_update val kvp =
     (case val of
        None \<Rightarrow> (-1, kvp)
      | Some v \<Rightarrow> (let k1 = kvp\<lparr>kv_v := v\<rparr> in (0, if kv_type k1 < HMAP_STR_ARRAY_TYPE then k1\<lparr>kv_count := 0\<rparr> else k1)))"

text \<open>An empty slot is filled: the key and the prefix are copied, and given back when memory ends.\<close>

definition fill_slot ::
  "(nat \<Rightarrow> bool) \<Rightarrow> nat \<Rightarrow> hmap \<Rightarrow> hmap_type \<Rightarrow> string option \<Rightarrow> string \<Rightarrow> u64 option \<Rightarrow> nat \<Rightarrow> (nat \<times> hmap \<times> int) option" where
  "fill_slot mem n h ty prefix key val i =
     (let k0 = hm_map h ! i; put = (\<lambda>k. h\<lparr>hm_map := (hm_map h)[i := k]\<rparr>) in
      if \<not> mem n then Some (Suc n, put (k0\<lparr>kv_key := None\<rparr>), -1)
      else
        (let k1 = k0\<lparr>kv_key := Some key\<rparr>; n1 = (if prefix = None then Suc n else Suc (Suc n)) in
         if prefix \<noteq> None \<and> \<not> mem (Suc n) then Some (n1, put (k1\<lparr>kv_prefix := None, kv_key := None\<rparr>), -1)
         else
           (let k2 = (if prefix = None then k1 else k1\<lparr>kv_prefix := prefix\<rparr>);
                (r, k3) = hmap_kvp_update val (k2\<lparr>kv_type := ty\<rparr>) in
            if r \<noteq> 0 then map_option (\<lambda>k4. (n1, put k4, -1)) (free_fn (hm_fns h) (Some k3))
            else Some (n1, (put k3)\<lparr>hm_curr_capacity := hm_curr_capacity h + 1\<rparr>, 0))))"

definition add_value ::
  "(nat \<Rightarrow> bool) \<Rightarrow> nat \<Rightarrow> hmap \<Rightarrow> hmap_type \<Rightarrow> string option \<Rightarrow> string \<Rightarrow> u64 option \<Rightarrow> (nat \<times> hmap \<times> int) option" where
  "add_value mem n h ty prefix key val =
     (case hmap_get_hash h prefix key of
        None \<Rightarrow> None
      | Some hash \<Rightarrow>
          (case probe (\<lambda>kvp. kv_type kvp = HMAP_EMPTY_TYPE) (hm_capacity h) (hm_map h) (unat (hm_capacity h)) hash of
             None \<Rightarrow> None
           | Some None \<Rightarrow> Some (n, h, -1)
           | Some (Some i) \<Rightarrow> fill_slot mem n h ty prefix key val i))"

text \<open>The entries of the old table are added to the new one.\<close>

fun add_old :: "(nat \<Rightarrow> bool) \<Rightarrow> nat \<Rightarrow> hmap_kvp list \<Rightarrow> hmap \<Rightarrow> (nat \<times> hmap \<times> int) option" where
  "add_old mem n [] h = Some (n, h, 0)"
| "add_old mem n (kvp # kvps) h =
     (if kv_type kvp = HMAP_EMPTY_TYPE then add_old mem n kvps h
      else case kv_key kvp of
        None \<Rightarrow> None
      | Some key \<Rightarrow>
          (case add_value mem n h (kv_type kvp) (kv_prefix kvp) key (Some (kv_v kvp)) of
             None \<Rightarrow> None
           | Some (n1, h1, r) \<Rightarrow> if r \<noteq> 0 then Some (n1, h1, r) else add_old mem n1 kvps h1))"

definition hmap_update_capacity :: "(nat \<Rightarrow> bool) \<Rightarrow> nat \<Rightarrow> hmap \<Rightarrow> (nat \<times> hmap \<times> int) option" where
  "hmap_update_capacity mem n h =
     (if hm_curr_capacity h \<ge> hm_capacity h - HMAP_STARTING_CAPACITY div 4
         \<and> hm_capacity h + HMAP_STARTING_CAPACITY \<le> hm_max_capacity h
      then
        (let cap = hm_capacity h + HMAP_STARTING_CAPACITY in
         if \<not> mem n then Some (Suc n, h, -1)
         else
           (case add_old mem (Suc n) (hm_map h)
                   (h\<lparr>hm_capacity := cap, hm_alloc_count := hm_alloc_count h + 1, hm_map := replicate (unat cap) zero_kvp,
                      hm_curr_capacity := 0\<rparr>) of
              None \<Rightarrow> None
            | Some (n1, h1, r) \<Rightarrow>
                if r \<noteq> 0 then Some (n1, h1\<lparr>hm_map := hm_map h, hm_capacity := hm_capacity h\<rparr>, -1)
                else Some (n1, h1, 0)))
      else Some (n, h, 0))"

definition grow_and_add ::
  "(nat \<Rightarrow> bool) \<Rightarrow> nat \<Rightarrow> hmap \<Rightarrow> hmap_type \<Rightarrow> string option \<Rightarrow> string \<Rightarrow> u64 option \<Rightarrow> (nat \<times> hmap \<times> int) option" where
  "grow_and_add mem n h ty prefix key val =
     (case hmap_update_capacity mem n h of
        None \<Rightarrow> None
      | Some (n1, h1, r) \<Rightarrow> if r = 0 then add_value mem n1 h1 ty prefix key val else Some (n1, h1, r))"

definition hmap_add ::
  "(nat \<Rightarrow> bool) \<Rightarrow> nat \<Rightarrow> hmap \<Rightarrow> hmap_type \<Rightarrow> string option \<Rightarrow> string \<Rightarrow> u64 option \<Rightarrow> (nat \<times> hmap \<times> int) option" where
  "hmap_add mem n h ty prefix key val =
     (case hmap_kvp_lookup h prefix key of
        None \<Rightarrow> None
      | Some (Some i) \<Rightarrow> Some (n, h, -1)
      | Some None \<Rightarrow> grow_and_add mem n h ty prefix key val)"

definition hmap_update ::
  "(nat \<Rightarrow> bool) \<Rightarrow> nat \<Rightarrow> hmap \<Rightarrow> hmap_type \<Rightarrow> string option \<Rightarrow> string \<Rightarrow> u64 option \<Rightarrow> (nat \<times> hmap \<times> int) option" where
  "hmap_update mem n h ty prefix key val =
     (case hmap_kvp_lookup h prefix key of
        None \<Rightarrow> None
      | Some (Some i) \<Rightarrow>
          (if kv_type (hm_map h ! i) \<noteq> ty then Some (n, h, -1)
           else (let (r, k) = hmap_kvp_update val (hm_map h ! i) in Some (n, h\<lparr>hm_map := (hm_map h)[i := k]\<rparr>, r)))
      | Some None \<Rightarrow> grow_and_add mem n h ty prefix key val)"

text \<open>A missing entry is a null pointer for the free function, and is counted all the same.\<close>

definition hmap_del :: "hmap \<Rightarrow> string option \<Rightarrow> string \<Rightarrow> (hmap \<times> int) option" where
  "hmap_del h prefix key =
     (case hmap_kvp_lookup h prefix key of
        None \<Rightarrow> None
      | Some None \<Rightarrow>
          (if free_fn (hm_fns h) None = None then Some (h\<lparr>hm_curr_capacity := hm_curr_capacity h - 1\<rparr>, 0) else None)
      | Some (Some i) \<Rightarrow>
          map_option (\<lambda>k. (h\<lparr>hm_map := (hm_map h)[i := k], hm_curr_capacity := hm_curr_capacity h - 1\<rparr>, 0))
            (free_fn (hm_fns h) (Some (hm_map h ! i))))"

definition hmap_count :: "hmap \<Rightarrow> u32" where "hmap_count h = hm_curr_capacity h"

text \<open>The next entry from index \<open>i\<close> on: its slot, and the index to go on from.\<close>

function iterate_from :: "hmap \<Rightarrow> nat \<Rightarrow> (nat \<times> nat) option" where
  "iterate_from h i =
     (if i < unat (hm_capacity h)
      then (if kv_key (hm_map h ! i) = None then iterate_from h (Suc i) else Some (i, Suc i))
      else None)"
  by auto
termination by (relation "measure (\<lambda>(h, i). unat (hm_capacity h) - i)") auto

declare iterate_from.simps [simp del]

text \<open>What a loop that calls \<open>hmap_iterate\<close> until it returns zero sees.\<close>

function iterate_all :: "hmap \<Rightarrow> nat \<Rightarrow> nat list" where
  "iterate_all h i = (case iterate_from h i of None \<Rightarrow> [] | Some (j, i') \<Rightarrow> if i < i' \<and> i' \<le> unat (hm_capacity h) then j # iterate_all h i' else [])"
  by auto
termination by (relation "measure (\<lambda>(h, i). unat (hm_capacity h) - i)") auto

declare iterate_all.simps [simp del]


subsection \<open>The contents as a partial map\<close>

definition used :: "hmap_kvp \<Rightarrow> bool" where "used kvp \<longleftrightarrow> kv_key kvp \<noteq> None"
definition key_of :: "hmap_kvp \<Rightarrow> string option \<times> string" where "key_of kvp = (kv_prefix kvp, the (kv_key kvp))"

definition assoc :: "hmap_kvp list \<Rightarrow> ((string option \<times> string) \<times> (hmap_type \<times> u64)) list" where
  "assoc m = map (\<lambda>k. (key_of k, kv_type k, kv_v k)) (filter used m)"

definition hmap_abs :: "hmap \<Rightarrow> (string option \<times> string \<rightharpoonup> hmap_type \<times> u64)" where
  "hmap_abs h = map_of (assoc (hm_map h))"

definition slot_ok :: "hmap_kvp \<Rightarrow> bool" where
  "slot_ok kvp \<longleftrightarrow> (if used kvp then kv_type kvp \<noteq> HMAP_EMPTY_TYPE else kvp = zero_kvp)"

definition slots_ok :: "hmap_kvp list \<Rightarrow> bool" where
  "slots_ok m \<longleftrightarrow> list_all slot_ok m \<and> distinct (map fst (assoc m))"

definition table_ok :: "hmap_funcs \<Rightarrow> hmap \<Rightarrow> bool" where
  "table_ok fns h \<longleftrightarrow> length (hm_map h) = unat (hm_capacity h) \<and> 8 \<le> hm_capacity h \<and> hm_capacity h \<le> hm_max_capacity h
     \<and> unat (hm_max_capacity h) + 32 < 2 ^ 32 \<and> hm_fns h = fns \<and> slots_ok (hm_map h)"

definition entries :: "hmap \<Rightarrow> nat" where "entries h = length (assoc (hm_map h))"

definition count_ok :: "hmap \<Rightarrow> bool" where "count_ok h \<longleftrightarrow> unat (hm_curr_capacity h) = entries h"

text \<open>Only the slots and the count differ.\<close>

definition same_frame :: "hmap \<Rightarrow> hmap \<Rightarrow> bool" where
  "same_frame h h' \<longleftrightarrow> hm_capacity h' = hm_capacity h \<and> hm_max_capacity h' = hm_max_capacity h \<and> hm_fns h' = hm_fns h
     \<and> hm_alloc_count h' = hm_alloc_count h"

text \<open>The maximum stays, and the table has grown by one step at most.\<close>

definition grows :: "hmap \<Rightarrow> hmap \<Rightarrow> bool" where
  "grows h h' \<longleftrightarrow> hm_max_capacity h' = hm_max_capacity h
     \<and> (hm_capacity h' = hm_capacity h \<or> unat (hm_capacity h') = unat (hm_capacity h) + 32)"

lemma assoc_simps [simp]:
  "assoc [] = []" "assoc (xs @ ys) = assoc xs @ assoc ys"
  "used k \<Longrightarrow> assoc (k # xs) = (key_of k, kv_type k, kv_v k) # assoc xs" "\<not> used k \<Longrightarrow> assoc (k # xs) = assoc xs"
  by (simp_all add: assoc_def)

lemma zero_unused [simp]: "\<not> used zero_kvp" "kv_type zero_kvp = HMAP_EMPTY_TYPE" "assoc (replicate n zero_kvp) = []"
  by (simp_all add: zero_kvp_def used_def assoc_def)

lemma slot_ok_zero [simp]: "slot_ok zero_kvp"
  by (simp add: slot_ok_def)

lemma assoc_le_length: "length (assoc m) \<le> length m"
  by (simp add: assoc_def)

lemma assoc_update:
  assumes "i < length m"
  shows "assoc (m[i := k]) = assoc (take i m) @ assoc [k] @ assoc (drop (Suc i) m)"
    "assoc m = assoc (take i m) @ assoc [m ! i] @ assoc (drop (Suc i) m)"
proof -
  have "m[i := k] = take i m @ [k] @ drop (Suc i) m" using assms by (simp add: upd_conv_take_nth_drop)
  then show "assoc (m[i := k]) = assoc (take i m) @ assoc [k] @ assoc (drop (Suc i) m)" by (simp only: assoc_simps(2))
  have "m = take i m @ [m ! i] @ drop (Suc i) m" using id_take_nth_drop [OF assms] by simp
  then show "assoc m = assoc (take i m) @ assoc [m ! i] @ assoc (drop (Suc i) m)" by (metis assoc_simps(2))
qed

lemma map_of_middle: "distinct (map fst (xs @ (k, v) # ys)) \<Longrightarrow> map_of (xs @ (k, v) # ys) = (map_of (xs @ ys))(k \<mapsto> v)"
proof -
  assume "distinct (map fst (xs @ (k, v) # ys))"
  then have "map_of xs k = None" by (auto simp: map_of_eq_None_iff)
  then show ?thesis by (auto simp: map_add_def split: option.splits)
qed

lemma slot_empty: "slot_ok k \<Longrightarrow> kv_type k = HMAP_EMPTY_TYPE \<longleftrightarrow> \<not> used k"
  by (auto simp: slot_ok_def)

lemma slots_ok_nth: "slots_ok m \<Longrightarrow> i < length m \<Longrightarrow> slot_ok (m ! i)"
  by (simp add: slots_ok_def list_all_length)

lemma list_all_update: "list_all P m \<Longrightarrow> P k \<Longrightarrow> list_all P (m[i := k])"
  by (cases "i < length m") (auto simp: list_all_length nth_list_update)

lemma fill_slots:
  assumes "slots_ok m" "i < length m" "\<not> used (m ! i)" "used k" "slot_ok k" "key_of k \<notin> fst ` set (assoc m)"
  shows "slots_ok (m[i := k])" "map_of (assoc (m[i := k])) = (map_of (assoc m))(key_of k \<mapsto> (kv_type k, kv_v k))"
    "length (assoc (m[i := k])) = Suc (length (assoc m))"
proof -
  note a = assoc_update(1) [OF assms(2), of k] assoc_update(2) [OF assms(2)]
  have d: "distinct (map fst (assoc (m[i := k])))"
    using assms(1,3,4,6) unfolding slots_ok_def a(1) by (subst (asm) (1 2) a(2)) auto
  then show "slots_ok (m[i := k])" using assms(1,5) by (simp add: slots_ok_def list_all_update)
  show "map_of (assoc (m[i := k])) = (map_of (assoc m))(key_of k \<mapsto> (kv_type k, kv_v k))"
    using d assms(3,4) map_of_middle [of "assoc (take i m)" "key_of k" "(kv_type k, kv_v k)" "assoc (drop (Suc i) m)"]
    unfolding a(1) by (subst a(2)) simp
  show "length (assoc (m[i := k])) = Suc (length (assoc m))"
    using assms(3,4) unfolding a(1) by (subst a(2)) simp
qed

lemma free_slots:
  assumes "slots_ok m" "i < length m" "used (m ! i)"
  shows "slots_ok (m[i := zero_kvp])" "map_of (assoc (m[i := zero_kvp])) = (map_of (assoc m))(key_of (m ! i) := None)"
    "Suc (length (assoc (m[i := zero_kvp]))) = length (assoc m)"
proof -
  note a = assoc_update(1) [OF assms(2), of zero_kvp] assoc_update(2) [OF assms(2)]
  have e: "distinct (map fst (assoc (take i m) @ (key_of (m ! i), kv_type (m ! i), kv_v (m ! i)) # assoc (drop (Suc i) m)))"
    using assms(1,3) by (simp add: slots_ok_def a(2))
  then have "distinct (map fst (assoc (m[i := zero_kvp])))" unfolding a(1) by auto
  then show "slots_ok (m[i := zero_kvp])" using assms(1) by (simp add: slots_ok_def list_all_update)
  have n: "map_of (assoc (take i m) @ assoc (drop (Suc i) m)) (key_of (m ! i)) = None"
    using e by (auto simp: map_of_eq_None_iff)
  show "map_of (assoc (m[i := zero_kvp])) = (map_of (assoc m))(key_of (m ! i) := None)"
    using map_of_middle [OF e] n assms(3) unfolding a(1) by (subst a(2)) (auto simp: fun_eq_iff)
  show "Suc (length (assoc (m[i := zero_kvp]))) = length (assoc m)"
    using assms(3) unfolding a(1) by (subst a(2)) simp
qed

lemma replace_slots:
  assumes "slots_ok m" "i < length m" "used (m ! i)" "kv_key k = kv_key (m ! i)" "kv_prefix k = kv_prefix (m ! i)" "kv_type k = kv_type (m ! i)"
  shows "slots_ok (m[i := k])" "map_of (assoc (m[i := k])) = (map_of (assoc m))(key_of k \<mapsto> (kv_type k, kv_v k))"
    "length (assoc (m[i := k])) = length (assoc m)"
proof -
  note a = assoc_update(1) [OF assms(2), of k] assoc_update(2) [OF assms(2)]
  have k: "used k" "key_of k = key_of (m ! i)" "slot_ok k"
    using assms(3-6) slots_ok_nth [OF assms(1,2)] by (simp_all add: used_def key_of_def slot_ok_def)
  have e: "distinct (map fst (assoc (take i m) @ (key_of k, kv_type (m ! i), kv_v (m ! i)) # assoc (drop (Suc i) m)))"
    "distinct (map fst (assoc (take i m) @ (key_of k, kv_type k, kv_v k) # assoc (drop (Suc i) m)))"
    using assms(1,3) k by (simp_all add: slots_ok_def a(2))
  then show "slots_ok (m[i := k])" using assms(1) k by (simp add: slots_ok_def list_all_update a(1))
  show "map_of (assoc (m[i := k])) = (map_of (assoc m))(key_of k \<mapsto> (kv_type k, kv_v k))"
    using map_of_middle [OF e(1)] map_of_middle [OF e(2)] k assms(3) unfolding a(1) by (subst a(2)) simp
  show "length (assoc (m[i := k])) = length (assoc m)" using k assms(3) unfolding a(1) by (subst a(2)) simp
qed

subsection \<open>Probing\<close>

lemma next_slot: "hash < cap \<Longrightarrow> unat ((hash + 1) mod cap) = Suc (unat hash) mod unat cap" for hash :: u32
proof -
  assume "hash < cap"
  then have "unat hash + 1 < 2 ^ LENGTH(32)" using unat_less_2p32 [of cap] by (simp add: word_less_nat_alt)
  from unat_inc_no_wrap [OF this] show ?thesis by (simp add: unat_mod)
qed

lemma probe_cases:
  assumes "length m = unat cap" "hash < cap"
  shows "probe p cap m k hash = Some None \<and> (\<forall>j < k. \<not> p (m ! ((unat hash + j) mod unat cap)))
    \<or> (\<exists>i < length m. probe p cap m k hash = Some (Some i) \<and> p (m ! i))"
  using assms(2)
proof (induction k arbitrary: hash)
  case 0
  then show ?case by simp
next
  case (Suc k)
  have lt: "unat hash < length m" using Suc.prems assms(1) by (simp add: word_less_nat_alt)
  show ?case
  proof (cases "p (m ! unat hash)")
    case True
    then show ?thesis using lt by auto
  next
    case False
    let ?h = "(hash + 1) mod cap"
    have "0 < cap" using Suc.prems by (metis word_not_simps(1) word_neq_0_conv)
    then have "?h < cap" by (rule word_mod_less_divisor)
    from Suc.IH [OF this] have *: "probe p cap m k ?h = Some None \<and> (\<forall>j < k. \<not> p (m ! ((unat ?h + j) mod unat cap)))
      \<or> (\<exists>i < length m. probe p cap m k ?h = Some (Some i) \<and> p (m ! i))" .
    have e: "probe p cap m (Suc k) hash = probe p cap m k ?h" using lt False by simp
    have u: "(unat ?h + j) mod unat cap = (unat hash + Suc j) mod unat cap" for j
      unfolding next_slot [OF Suc.prems] by (simp add: mod_add_left_eq)
    have "\<not> p (m ! ((unat hash + j) mod unat cap))" if "j < Suc k" "\<forall>j < k. \<not> p (m ! ((unat ?h + j) mod unat cap))" for j
      using that False lt assms(1) u by (cases j) auto
    then show ?thesis using * unfolding e by blast
  qed
qed

lemma probe_all:
  assumes "length m = unat cap" "hash < cap"
  shows "probe p cap m (unat cap) hash = Some None \<and> (\<forall>i < length m. \<not> p (m ! i))
    \<or> (\<exists>i < length m. probe p cap m (unat cap) hash = Some (Some i) \<and> p (m ! i))"
proof -
  have "\<exists>j < unat cap. (unat hash + j) mod unat cap = i" if "i < unat cap" for i
  proof (cases "unat hash \<le> i")
    case True
    then show ?thesis using that by (intro exI [of _ "i - unat hash"]) simp
  next
    case False
    then show ?thesis using that assms(2) by (intro exI [of _ "unat cap - unat hash + i"]) (simp add: word_less_nat_alt)
  qed
  then show ?thesis using probe_cases [OF assms, of p "unat cap"] assms(1) by metis
qed

subsection \<open>Call-backs\<close>

text \<open>What the operations rely on. The hash function may be any.\<close>

locale hmap_callbacks =
  fixes fns :: hmap_funcs
  assumes cmp: "kv_key kvp \<noteq> None \<Longrightarrow> cmp_fn fns kvp p k \<longleftrightarrow> kv_prefix kvp = p \<and> kv_key kvp = Some k"
    and free_null: "free_fn fns None = None"
    and free_slot: "free_fn fns (Some kvp) = Some zero_kvp"
begin

lemma table_okD:
  assumes "table_ok fns h"
  shows "length (hm_map h) = unat (hm_capacity h)" "8 \<le> hm_capacity h" "hm_capacity h \<le> hm_max_capacity h"
    "unat (hm_max_capacity h) + 32 < 2 ^ 32" "hm_fns h = fns" "slots_ok (hm_map h)"
  using assms by (simp_all add: table_ok_def)

lemma get_hash:
  assumes "table_ok fns h"
  shows "\<exists>hash < hm_capacity h. hmap_get_hash h p k = Some hash"
proof -
  have "hm_capacity h \<noteq> 0" using table_okD(2) [OF assms] by auto
  then show ?thesis by (auto simp: hmap_get_hash_def word_neq_0_conv intro: word_mod_less_divisor)
qed

lemma matches: "table_ok fns h \<Longrightarrow> kv_key kvp \<noteq> None \<and> cmp_fn (hm_fns h) kvp p k \<longleftrightarrow> used kvp \<and> key_of kvp = (p, k)"
  using cmp by (auto simp: table_okD(5) used_def key_of_def)

lemma abs_slot:
  assumes "table_ok fns h" "i < length (hm_map h)" "used (hm_map h ! i)"
  shows "hmap_abs h (key_of (hm_map h ! i)) = Some (kv_type (hm_map h ! i), kv_v (hm_map h ! i))"
proof -
  have "(key_of (hm_map h ! i), kv_type (hm_map h ! i), kv_v (hm_map h ! i)) \<in> set (assoc (hm_map h))"
    using assms(2,3) by (force simp: assoc_def)
  then show ?thesis using table_okD(6) [OF assms(1)] by (simp add: hmap_abs_def slots_ok_def)
qed

lemma abs_none: "\<forall>i < length (hm_map h). \<not> (used (hm_map h ! i) \<and> key_of (hm_map h ! i) = pk) \<Longrightarrow> hmap_abs h pk = None"
  by (auto simp: hmap_abs_def map_of_eq_None_iff assoc_def in_set_conv_nth)

lemma lookup_cases:
  assumes "table_ok fns h"
  shows "hmap_kvp_lookup h p k = Some None \<and> hmap_abs h (p, k) = None
    \<or> (\<exists>i < length (hm_map h). hmap_kvp_lookup h p k = Some (Some i) \<and> used (hm_map h ! i) \<and> key_of (hm_map h ! i) = (p, k)
         \<and> hmap_abs h (p, k) = Some (kv_type (hm_map h ! i), kv_v (hm_map h ! i)))"
proof -
  obtain hash where hash: "hash < hm_capacity h" "hmap_get_hash h p k = Some hash" using get_hash [OF assms] by blast
  note m = matches [OF assms]
  let ?P = "\<lambda>kvp. used kvp \<and> key_of kvp = (p, k)"
  have e: "hmap_kvp_lookup h p k = probe ?P (hm_capacity h) (hm_map h) (unat (hm_capacity h)) hash"
    unfolding hmap_kvp_lookup_def hash(2) by (simp only: matches [OF assms] option.case)
  show ?thesis using probe_all [OF table_okD(1) [OF assms] hash(1), of ?P] unfolding e [symmetric]
  proof (elim disjE conjE exE)
    assume "hmap_kvp_lookup h p k = Some None" "\<forall>i < length (hm_map h). \<not> ?P (hm_map h ! i)"
    then show ?thesis using abs_none [of h "(p, k)"] by simp
  next
    fix i assume i: "i < length (hm_map h)" "hmap_kvp_lookup h p k = Some (Some i)" "used (hm_map h ! i)" "key_of (hm_map h ! i) = (p, k)"
    then show ?thesis using abs_slot [OF assms i(1,3)] by (intro disjI2 exI [of _ i]) simp
  qed
qed

lemma lookup_value:
  assumes "table_ok fns h"
  shows "hmap_lookup h p k = Some (case hmap_abs h (p, k) of None \<Rightarrow> (-1, None) | Some (ty, v) \<Rightarrow> (0, Some v))"
proof -
  have "hmap_lookup h p k = map_option (\<lambda>r. case r of None \<Rightarrow> (-1, None) | Some i \<Rightarrow> (0, Some (kv_v (hm_map h ! i)))) (hmap_kvp_lookup h p k)"
    by (simp add: hmap_lookup_def hmap_kvp_lookup_def split: option.splits)
  then show ?thesis using lookup_cases [OF assms, of p k] by auto
qed

lemma fill_slot_cases:
  assumes ok: "table_ok fns h" and i: "i < length (hm_map h)" "\<not> used (hm_map h ! i)" and new: "hmap_abs h (p, k) = None" and ty: "ty \<noteq> HMAP_EMPTY_TYPE"
  shows "\<exists>n' h' r. fill_slot mem n h ty p k val i = Some (n', h', r) \<and> n < n'
    \<and> (r = -1 \<and> h' = h \<and> (val = None \<or> (\<exists>j \<ge> n. \<not> mem j))
       \<or> r = 0 \<and> table_ok fns h' \<and> (\<exists>v. val = Some v \<and> hmap_abs h' = (hmap_abs h)((p, k) \<mapsto> (ty, v))) \<and> entries h' = Suc (entries h)
          \<and> same_frame h h' \<and> hm_curr_capacity h' = hm_curr_capacity h + 1)"
proof -
  note o = table_okD [OF ok]
  have "slot_ok (hm_map h ! i)" using o(6) i(1) by (rule slots_ok_nth)
  then have z: "hm_map h ! i = zero_kvp" using i(2) by (simp add: slot_ok_def)
  have same: "(hm_map h)[i := zero_kvp] = hm_map h" using z by (metis list_update_id)
  show ?thesis
  proof (cases "mem n \<and> (p \<noteq> None \<longrightarrow> mem (Suc n)) \<and> val \<noteq> None")
    case False
    have "zero_kvp\<lparr>kv_key := None\<rparr> = zero_kvp" "zero_kvp\<lparr>kv_key := None, kv_prefix := None\<rparr> = zero_kvp" by (simp_all add: zero_kvp_def)
    moreover have "val = None \<or> (\<exists>j \<ge> n. \<not> mem j)" using False by (metis le_refl le_SucI)
    ultimately show ?thesis using False
      by (auto simp: fill_slot_def z same Let_def hmap_kvp_update_def free_slot o(5) split: option.splits)
  next
    case True
    then obtain v where v: "val = Some v" by blast
    define kvp where "kvp = \<lparr>kv_type = ty, kv_count = 0, kv_prefix = p, kv_key = Some k, kv_v = v\<rparr>"
    have kvp: "used kvp" "slot_ok kvp" "key_of kvp = (p, k)" using ty by (simp_all add: kvp_def used_def slot_ok_def key_of_def)
    have "key_of kvp \<notin> fst ` set (assoc (hm_map h))" using new by (simp add: kvp(3) hmap_abs_def map_of_eq_None_iff)
    note f = fill_slots [OF o(6) i kvp(1,2) this]
    define h' where "h' = h\<lparr>hm_map := (hm_map h)[i := kvp], hm_curr_capacity := hm_curr_capacity h + 1\<rparr>"
    have "fill_slot mem n h ty p k val i = Some (if p = None then Suc n else Suc (Suc n), h', 0)"
      using True by (auto simp: fill_slot_def z Let_def hmap_kvp_update_def v h'_def kvp_def zero_kvp_def)
    moreover have "table_ok fns h'" using ok f(1) by (simp add: table_ok_def h'_def)
    moreover have "hmap_abs h' = (hmap_abs h)((p, k) \<mapsto> (ty, v))" using f(2) by (simp add: hmap_abs_def h'_def kvp(3)) (simp add: kvp_def)
    moreover have "entries h' = Suc (entries h)" using f(3) by (simp add: entries_def h'_def)
    moreover have "same_frame h h'" "hm_curr_capacity h' = hm_curr_capacity h + 1" by (simp_all add: h'_def same_frame_def)
    ultimately show ?thesis using v by (intro exI [of _ "if p = None then Suc n else Suc (Suc n)"] exI [of _ h'] exI [of _ 0]) auto
  qed
qed

lemma add_value_cases:
  assumes ok: "table_ok fns h" and new: "hmap_abs h (p, k) = None" and ty: "ty \<noteq> HMAP_EMPTY_TYPE"
  shows "\<exists>n' h' r. add_value mem n h ty p k val = Some (n', h', r) \<and> n \<le> n'
    \<and> (r = -1 \<and> h' = h \<and> (val = None \<or> (\<exists>j \<ge> n. \<not> mem j) \<or> entries h = unat (hm_capacity h))
       \<or> r = 0 \<and> table_ok fns h' \<and> (\<exists>v. val = Some v \<and> hmap_abs h' = (hmap_abs h)((p, k) \<mapsto> (ty, v))) \<and> entries h' = Suc (entries h)
          \<and> same_frame h h' \<and> hm_curr_capacity h' = hm_curr_capacity h + 1)"
proof -
  note o = table_okD [OF ok]
  obtain hash where hash: "hash < hm_capacity h" "hmap_get_hash h p k = Some hash" using get_hash [OF ok] by blast
  let ?P = "\<lambda>kvp. kv_type kvp = HMAP_EMPTY_TYPE"
  have e: "?P (hm_map h ! i) \<longleftrightarrow> \<not> used (hm_map h ! i)" if "i < length (hm_map h)" for i
    using slots_ok_nth [OF o(6) that] by (rule slot_empty)
  have "(probe ?P (hm_capacity h) (hm_map h) (unat (hm_capacity h)) hash = Some None \<and> (\<forall>i < length (hm_map h). used (hm_map h ! i)))
    \<or> (\<exists>i < length (hm_map h). probe ?P (hm_capacity h) (hm_map h) (unat (hm_capacity h)) hash = Some (Some i) \<and> \<not> used (hm_map h ! i))"
    using probe_all [OF o(1) hash(1), of ?P] e by auto
  then show ?thesis
  proof (elim disjE conjE exE)
    assume p: "probe ?P (hm_capacity h) (hm_map h) (unat (hm_capacity h)) hash = Some None" and all: "\<forall>i < length (hm_map h). used (hm_map h ! i)"
    have "filter used (hm_map h) = hm_map h" using all by (simp add: filter_id_conv all_set_conv_all_nth)
    then have "entries h = unat (hm_capacity h)" using o(1) by (simp add: entries_def assoc_def)
    then show ?thesis using p hash by (simp add: add_value_def)
  next
    fix i assume i: "i < length (hm_map h)" "probe ?P (hm_capacity h) (hm_map h) (unat (hm_capacity h)) hash = Some (Some i)" "\<not> used (hm_map h ! i)"
    have "add_value mem n h ty p k val = fill_slot mem n h ty p k val i" using hash i(2) by (simp add: add_value_def)
    then show ?thesis using fill_slot_cases [OF ok i(1,3) new ty, of mem n val] by (metis less_imp_le)
  qed
qed

lemma add_old_cases:
  "table_ok fns h \<Longrightarrow> list_all slot_ok kvps \<Longrightarrow> distinct (map fst (assoc kvps)) \<Longrightarrow> (\<forall>pk \<in> fst ` set (assoc kvps). hmap_abs h pk = None)
   \<Longrightarrow> entries h + length (assoc kvps) \<le> unat (hm_capacity h)
   \<Longrightarrow> \<exists>n' h' r. add_old mem n kvps h = Some (n', h', r) \<and> n \<le> n' \<and> same_frame h h'
     \<and> (r = -1 \<and> (\<exists>j \<ge> n. \<not> mem j)
        \<or> r = 0 \<and> table_ok fns h' \<and> hmap_abs h' = hmap_abs h ++ map_of (assoc kvps) \<and> entries h' = entries h + length (assoc kvps)
          \<and> hm_curr_capacity h' = hm_curr_capacity h + of_nat (length (assoc kvps)))"
proof (induction kvps arbitrary: n h)
  case Nil
  then show ?case by (simp add: same_frame_def)
next
  case (Cons kvp kvps)
  show ?case
  proof (cases "used kvp")
    case False
    then have "kv_type kvp = HMAP_EMPTY_TYPE" using Cons.prems(2) slot_empty by simp
    then show ?thesis using Cons.IH [of h n] Cons.prems False by simp
  next
    case True
    then obtain k where k: "kv_key kvp = Some k" by (auto simp: used_def)
    have ty: "kv_type kvp \<noteq> HMAP_EMPTY_TYPE" using Cons.prems(2) True slot_empty by simp
    have key: "key_of kvp = (kv_prefix kvp, k)" by (simp add: key_of_def k)
    have "hmap_abs h (kv_prefix kvp, k) = None" using Cons.prems(4) True key by simp
    from add_value_cases [OF Cons.prems(1) this ty, of mem n "Some (kv_v kvp)"] obtain n1 h1 r1 where
      a: "add_value mem n h (kv_type kvp) (kv_prefix kvp) k (Some (kv_v kvp)) = Some (n1, h1, r1)" "n \<le> n1" and
      r: "r1 = -1 \<and> h1 = h \<and> ((\<exists>j \<ge> n. \<not> mem j) \<or> entries h = unat (hm_capacity h))
        \<or> r1 = 0 \<and> table_ok fns h1 \<and> hmap_abs h1 = (hmap_abs h)(key_of kvp \<mapsto> (kv_type kvp, kv_v kvp)) \<and> entries h1 = Suc (entries h)
          \<and> same_frame h h1 \<and> hm_curr_capacity h1 = hm_curr_capacity h + 1"
      by (auto simp: key)
    have room: "entries h < unat (hm_capacity h)" using Cons.prems(5) True by simp
    from r show ?thesis
    proof (elim disjE)
      assume "r1 = -1 \<and> h1 = h \<and> ((\<exists>j \<ge> n. \<not> mem j) \<or> entries h = unat (hm_capacity h))"
      then show ?thesis using room a ty k by (auto simp: same_frame_def)
    next
      assume b: "r1 = 0 \<and> table_ok fns h1 \<and> hmap_abs h1 = (hmap_abs h)(key_of kvp \<mapsto> (kv_type kvp, kv_v kvp)) \<and> entries h1 = Suc (entries h)
          \<and> same_frame h h1 \<and> hm_curr_capacity h1 = hm_curr_capacity h + 1"
      then have f: "hm_capacity h1 = hm_capacity h" "hm_curr_capacity h1 = hm_curr_capacity h + 1" by (simp_all add: same_frame_def)
      have nk: "key_of kvp \<notin> fst ` set (assoc kvps)" "distinct (map fst (assoc kvps))" using Cons.prems(3) True by simp_all
      have new: "hmap_abs h1 pk = None" if "pk \<in> fst ` set (assoc kvps)" for pk
      proof -
        have sub: "fst ` set (assoc kvps) \<subseteq> fst ` set (assoc (kvp # kvps))" using True by auto
        have "pk \<noteq> key_of kvp" using that nk(1) by metis
        moreover have "hmap_abs h pk = None" by (rule bspec [OF Cons.prems(4) subsetD [OF sub that]])
        ultimately show ?thesis using b by simp
      qed
      have new': "\<forall>pk \<in> fst ` set (assoc kvps). hmap_abs h1 pk = None" by (rule ballI, rule new)
      have ok1: "table_ok fns h1" and ls: "list_all slot_ok kvps" using b Cons.prems(2) by simp_all
      have room1: "entries h1 + length (assoc kvps) \<le> unat (hm_capacity h1)" using Cons.prems(5) True b f by simp
      from Cons.IH [OF ok1 ls nk(2) new' room1, of n1] obtain n2 h2 r2 where c: "add_old mem n1 kvps h1 = Some (n2, h2, r2)" "n1 \<le> n2"
        "same_frame h1 h2"
        "r2 = -1 \<and> (\<exists>j \<ge> n1. \<not> mem j)
        \<or> r2 = 0 \<and> table_ok fns h2 \<and> hmap_abs h2 = hmap_abs h1 ++ map_of (assoc kvps) \<and> entries h2 = entries h1 + length (assoc kvps)
          \<and> hm_curr_capacity h2 = hm_curr_capacity h1 + of_nat (length (assoc kvps))"
        by blast
      have m: "(hmap_abs h)(key_of kvp \<mapsto> w) ++ map_of (assoc kvps) = hmap_abs h ++ map_of ((key_of kvp, w) # assoc kvps)" for w
        using nk(1) by (simp add: map_add_upd_left dom_map_of_conv_image_fst)
      have "same_frame h h2" using b c(3) by (simp add: same_frame_def)
      moreover have "r2 = -1 \<and> (\<exists>j \<ge> n. \<not> mem j)
        \<or> r2 = 0 \<and> table_ok fns h2 \<and> hmap_abs h2 = hmap_abs h ++ map_of (assoc (kvp # kvps)) \<and> entries h2 = entries h + length (assoc (kvp # kvps))
          \<and> hm_curr_capacity h2 = hm_curr_capacity h + of_nat (length (assoc (kvp # kvps)))"
        using c(4) b f(2) a(2) True m by (auto intro: order_trans)
      ultimately show ?thesis using a b c(1,2) ty k by (intro exI [of _ n2] exI [of _ h2] exI [of _ r2]) auto
    qed
  qed
qed

text \<open>The table can grow.\<close>

lemma growth_step:
  assumes "table_ok fns h" "hm_capacity h + HMAP_STARTING_CAPACITY \<le> hm_max_capacity h"
  shows "unat (hm_capacity h + HMAP_STARTING_CAPACITY) = unat (hm_capacity h) + 32"
    "table_ok fns (h\<lparr>hm_capacity := hm_capacity h + HMAP_STARTING_CAPACITY, hm_alloc_count := a,
       hm_map := replicate (unat (hm_capacity h + HMAP_STARTING_CAPACITY)) zero_kvp, hm_curr_capacity := 0\<rparr>)"
proof -
  note o = table_okD [OF assms(1)]
  have "unat (hm_capacity h) + 32 < 2 ^ 32" using o(3,4) by (simp add: word_le_nat_alt)
  then show u: "unat (hm_capacity h + HMAP_STARTING_CAPACITY) = unat (hm_capacity h) + 32"
    by (subst unat_add_no_wrap) (simp_all add: HMAP_STARTING_CAPACITY_def)
  have "8 \<le> hm_capacity h + HMAP_STARTING_CAPACITY" using u o(2) by (simp add: word_le_nat_alt)
  then show "table_ok fns (h\<lparr>hm_capacity := hm_capacity h + HMAP_STARTING_CAPACITY, hm_alloc_count := a,
       hm_map := replicate (unat (hm_capacity h + HMAP_STARTING_CAPACITY)) zero_kvp, hm_curr_capacity := 0\<rparr>)"
    using o assms(2) by (simp add: table_ok_def slots_ok_def list_all_length)
qed

lemma entries_le: "table_ok fns h \<Longrightarrow> entries h \<le> unat (hm_capacity h)"
  using assoc_le_length [of "hm_map h"] by (simp add: table_ok_def entries_def)

lemma update_capacity_cases:
  assumes ok: "table_ok fns h"
  shows "\<exists>n' h' r. hmap_update_capacity mem n h = Some (n', h', r) \<and> n \<le> n' \<and> table_ok fns h' \<and> hmap_abs h' = hmap_abs h
    \<and> entries h' = entries h \<and> grows h h'
    \<and> (r = -1 \<and> (\<exists>j \<ge> n. \<not> mem j)
       \<or> r = 0 \<and> count_ok h' \<and> unat (hm_capacity h') = unat (hm_capacity h) + 32
       \<or> r = 0 \<and> h' = h \<and> (hm_curr_capacity h < hm_capacity h - 8 \<or> hm_max_capacity h < hm_capacity h + 32))"
proof (cases "hm_curr_capacity h \<ge> hm_capacity h - HMAP_STARTING_CAPACITY div 4
         \<and> hm_capacity h + HMAP_STARTING_CAPACITY \<le> hm_max_capacity h")
  case False
  then show ?thesis using ok by (auto simp: hmap_update_capacity_def HMAP_STARTING_CAPACITY_def not_le grows_def)
next
  case True
  then have lim: "hm_capacity h + HMAP_STARTING_CAPACITY \<le> hm_max_capacity h" by simp
  define h0 where "h0 = h\<lparr>hm_capacity := hm_capacity h + HMAP_STARTING_CAPACITY, hm_alloc_count := hm_alloc_count h + 1,
       hm_map := replicate (unat (hm_capacity h + HMAP_STARTING_CAPACITY)) zero_kvp, hm_curr_capacity := 0\<rparr>"
  note o = table_okD [OF ok]
  note g = growth_step [OF ok lim]
  have e0: "entries h0 = 0" "hmap_abs h0 = Map.empty" by (simp_all add: h0_def entries_def hmap_abs_def)
  have a: "list_all slot_ok (hm_map h)" "distinct (map fst (assoc (hm_map h)))" using o(6) by (simp_all add: slots_ok_def)
  have room: "entries h0 + length (assoc (hm_map h)) \<le> unat (hm_capacity h0)"
    using entries_le [OF ok] g(1) e0 by (simp add: h0_def entries_def)
  have ok0: "table_ok fns h0" unfolding h0_def by (rule g(2))
  show ?thesis
  proof (cases "mem n")
    case False
    then show ?thesis using True ok by (auto simp: hmap_update_capacity_def grows_def)
  next
    case mem: True
    obtain n1 h1 r where c: "add_old mem (Suc n) (hm_map h) h0 = Some (n1, h1, r)" "Suc n \<le> n1" "same_frame h0 h1"
      and r: "r = -1 \<and> (\<exists>j \<ge> Suc n. \<not> mem j)
        \<or> r = 0 \<and> table_ok fns h1 \<and> hmap_abs h1 = map_of (assoc (hm_map h)) \<and> entries h1 = length (assoc (hm_map h))
          \<and> hm_curr_capacity h1 = of_nat (length (assoc (hm_map h)))"
      using add_old_cases [OF ok0 a _ room, of mem "Suc n"] e0 by (auto simp: h0_def)
    have f: "hm_capacity h1 = hm_capacity h + HMAP_STARTING_CAPACITY" "hm_max_capacity h1 = hm_max_capacity h" "hm_fns h1 = hm_fns h"
      using c(3) by (simp_all add: same_frame_def h0_def)
    have e: "hmap_update_capacity mem n h = (if r \<noteq> 0 then Some (n1, h1\<lparr>hm_map := hm_map h, hm_capacity := hm_capacity h\<rparr>, -1) else Some (n1, h1, 0))"
      using True mem c(1) by (simp add: hmap_update_capacity_def h0_def Let_def)
    from r show ?thesis
    proof (elim disjE)
      assume b: "r = -1 \<and> (\<exists>j \<ge> Suc n. \<not> mem j)"
      let ?h = "h1\<lparr>hm_map := hm_map h, hm_capacity := hm_capacity h\<rparr>"
      have "table_ok fns ?h" using ok f by (simp add: table_ok_def)
      moreover have "hmap_abs ?h = hmap_abs h" "entries ?h = entries h" by (simp_all add: hmap_abs_def entries_def)
      ultimately show ?thesis using b c(2) f e by (auto simp: grows_def intro: Suc_leD)
    next
      assume b: "r = 0 \<and> table_ok fns h1 \<and> hmap_abs h1 = map_of (assoc (hm_map h)) \<and> entries h1 = length (assoc (hm_map h))
          \<and> hm_curr_capacity h1 = of_nat (length (assoc (hm_map h)))"
      have "length (assoc (hm_map h)) < 2 ^ 32" using entries_le [OF ok] unat_less_2p32 [of "hm_capacity h"] by (simp add: entries_def)
      then have "count_ok h1" using b by (simp add: count_ok_def unat_of_nat_small)
      then show ?thesis using b c(2) f g(1) e by (auto simp: hmap_abs_def entries_def grows_def intro: Suc_leD)
    qed
  qed
qed

text \<open>What the operations do to the contents and the count.\<close>

lemma grow_and_add_cases:
  assumes ok: "table_ok fns h" and new: "hmap_abs h (p, k) = None" and ty: "ty \<noteq> HMAP_EMPTY_TYPE"
  shows "\<exists>n' h' r. grow_and_add mem n h ty p k val = Some (n', h', r) \<and> table_ok fns h' \<and> grows h h'
    \<and> (r = -1 \<and> hmap_abs h' = hmap_abs h \<and> entries h' = entries h
         \<and> (val = None \<or> (\<exists>j \<ge> n. \<not> mem j)
            \<or> entries h = unat (hm_capacity h) \<and> (hm_curr_capacity h < hm_capacity h - 8 \<or> hm_max_capacity h < hm_capacity h + 32))
       \<or> r = 0 \<and> (\<exists>v. val = Some v \<and> hmap_abs h' = (hmap_abs h)((p, k) \<mapsto> (ty, v))) \<and> entries h' = Suc (entries h))
    \<and> (count_ok h \<and> (\<forall>j \<ge> n. mem j) \<longrightarrow> count_ok h')"
proof -
  obtain n1 h1 r1 where u: "hmap_update_capacity mem n h = Some (n1, h1, r1)" "n \<le> n1" "table_ok fns h1" "hmap_abs h1 = hmap_abs h"
    "entries h1 = entries h" "grows h h1" and
    r1: "r1 = -1 \<and> (\<exists>j \<ge> n. \<not> mem j)
       \<or> r1 = 0 \<and> count_ok h1 \<and> unat (hm_capacity h1) = unat (hm_capacity h) + 32
       \<or> r1 = 0 \<and> h1 = h \<and> (hm_curr_capacity h < hm_capacity h - 8 \<or> hm_max_capacity h < hm_capacity h + 32)"
    using update_capacity_cases [OF ok, of mem n] by blast
  show ?thesis
  proof (cases "r1 = 0")
    case False
    then have "r1 = -1" "\<exists>j \<ge> n. \<not> mem j" using r1 by simp_all
    then show ?thesis using u by (auto simp: grow_and_add_def)
  next
    case True
    have "hmap_abs h1 (p, k) = None" using u(4) new by simp
    from add_value_cases [OF u(3) this ty, of mem n1 val] obtain n2 h2 r2 where
      a: "add_value mem n1 h1 ty p k val = Some (n2, h2, r2)" and
      r2: "r2 = -1 \<and> h2 = h1 \<and> (val = None \<or> (\<exists>j \<ge> n1. \<not> mem j) \<or> entries h1 = unat (hm_capacity h1))
       \<or> r2 = 0 \<and> table_ok fns h2 \<and> (\<exists>v. val = Some v \<and> hmap_abs h2 = (hmap_abs h1)((p, k) \<mapsto> (ty, v))) \<and> entries h2 = Suc (entries h1)
          \<and> same_frame h1 h2 \<and> hm_curr_capacity h2 = hm_curr_capacity h1 + 1" by blast
    have e: "grow_and_add mem n h ty p k val = Some (n2, h2, r2)" using u(1) True a by (simp add: grow_and_add_def)
    have c1: "count_ok h \<longrightarrow> count_ok h1" using r1 True by auto
    have full: "entries h1 = unat (hm_capacity h1) \<Longrightarrow>
      entries h = unat (hm_capacity h) \<and> (hm_curr_capacity h < hm_capacity h - 8 \<or> hm_max_capacity h < hm_capacity h + 32)"
      using r1 True u(5) entries_le [OF ok] by auto
    have mono: "(\<exists>j \<ge> n1. \<not> mem j) \<Longrightarrow> (\<exists>j \<ge> n. \<not> mem j)" using u(2) order_trans by blast
    from r2 show ?thesis
    proof (elim disjE)
      assume b: "r2 = -1 \<and> h2 = h1 \<and> (val = None \<or> (\<exists>j \<ge> n1. \<not> mem j) \<or> entries h1 = unat (hm_capacity h1))"
      then have "val = None \<or> (\<exists>j \<ge> n. \<not> mem j) \<or> entries h = unat (hm_capacity h)
          \<and> (hm_curr_capacity h < hm_capacity h - 8 \<or> hm_max_capacity h < hm_capacity h + 32)" using mono full by blast
      then show ?thesis using e u c1 b by simp
    next
      assume b: "r2 = 0 \<and> table_ok fns h2 \<and> (\<exists>v. val = Some v \<and> hmap_abs h2 = (hmap_abs h1)((p, k) \<mapsto> (ty, v))) \<and> entries h2 = Suc (entries h1)
          \<and> same_frame h1 h2 \<and> hm_curr_capacity h2 = hm_curr_capacity h1 + 1"
      then have "table_ok fns h2" by blast
      from entries_le [OF this] have "entries h2 < 2 ^ 32" using unat_less_2p32 [of "hm_capacity h2"] by simp
      then have "count_ok h1 \<longrightarrow> count_ok h2" using b unat_inc_no_wrap [of "hm_curr_capacity h1"] by (auto simp: count_ok_def)
      then show ?thesis using e u c1 b by (auto simp: same_frame_def grows_def)
    qed
  qed
qed

lemma add_cases:
  assumes ok: "table_ok fns h" and ty: "ty \<noteq> HMAP_EMPTY_TYPE"
  shows "\<exists>n' h' r. hmap_add mem n h ty p k val = Some (n', h', r) \<and> table_ok fns h' \<and> grows h h'
    \<and> (r = -1 \<and> hmap_abs h' = hmap_abs h \<and> entries h' = entries h
         \<and> (hmap_abs h (p, k) \<noteq> None \<or> val = None \<or> (\<exists>j \<ge> n. \<not> mem j)
            \<or> entries h = unat (hm_capacity h) \<and> (hm_curr_capacity h < hm_capacity h - 8 \<or> hm_max_capacity h < hm_capacity h + 32))
       \<or> r = 0 \<and> hmap_abs h (p, k) = None \<and> (\<exists>v. val = Some v \<and> hmap_abs h' = (hmap_abs h)((p, k) \<mapsto> (ty, v))) \<and> entries h' = Suc (entries h))
    \<and> (count_ok h \<and> (\<forall>j \<ge> n. mem j) \<longrightarrow> count_ok h')"
  using lookup_cases [OF ok, of p k]
proof (elim disjE conjE exE)
  assume "hmap_kvp_lookup h p k = Some None" and n: "hmap_abs h (p, k) = None"
  then have "hmap_add mem n h ty p k val = grow_and_add mem n h ty p k val" by (simp add: hmap_add_def)
  then show ?thesis using grow_and_add_cases [OF ok n ty, of mem n val] n by metis
next
  fix i assume "hmap_kvp_lookup h p k = Some (Some i)" "hmap_abs h (p, k) = Some (kv_type (hm_map h ! i), kv_v (hm_map h ! i))"
  then show ?thesis using ok by (simp add: hmap_add_def grows_def)
qed

lemma update_cases:
  assumes ok: "table_ok fns h" and ty: "ty \<noteq> HMAP_EMPTY_TYPE"
  shows "\<exists>n' h' r. hmap_update mem n h ty p k val = Some (n', h', r) \<and> table_ok fns h' \<and> grows h h'
    \<and> (r = -1 \<and> hmap_abs h' = hmap_abs h
       \<or> r = 0 \<and> (case hmap_abs h (p, k) of None \<Rightarrow> True | Some (ty', _) \<Rightarrow> ty' = ty)
          \<and> (\<exists>v. val = Some v \<and> hmap_abs h' = (hmap_abs h)((p, k) \<mapsto> (ty, v))))
    \<and> (count_ok h \<and> (\<forall>j \<ge> n. mem j) \<longrightarrow> count_ok h')"
  using lookup_cases [OF ok, of p k]
proof (elim disjE conjE exE)
  assume "hmap_kvp_lookup h p k = Some None" and n: "hmap_abs h (p, k) = None"
  then have "hmap_update mem n h ty p k val = grow_and_add mem n h ty p k val" by (simp add: hmap_update_def)
  then show ?thesis using grow_and_add_cases [OF ok n ty, of mem n val] n by fastforce
next
  fix i assume i: "i < length (hm_map h)" "hmap_kvp_lookup h p k = Some (Some i)" "used (hm_map h ! i)" "key_of (hm_map h ! i) = (p, k)"
    and a: "hmap_abs h (p, k) = Some (kv_type (hm_map h ! i), kv_v (hm_map h ! i))"
  show ?thesis
  proof (cases "kv_type (hm_map h ! i) = ty \<and> val \<noteq> None")
    case False
    have "(hm_map h)[i := hm_map h ! i] = hm_map h" by simp
    then show ?thesis using False i(2) ok by (auto simp: hmap_update_def hmap_kvp_update_def grows_def)
  next
    case True
    then obtain v where v: "val = Some v" by blast
    define kvp where "kvp = snd (hmap_kvp_update val (hm_map h ! i))"
    have kvp: "kv_key kvp = kv_key (hm_map h ! i)" "kv_prefix kvp = kv_prefix (hm_map h ! i)" "kv_type kvp = kv_type (hm_map h ! i)"
      "kv_v kvp = v" by (simp_all add: kvp_def hmap_kvp_update_def v Let_def)
    note f = replace_slots [OF table_okD(6) [OF ok] i(1,3) kvp(1,2,3)]
    define h' where "h' = h\<lparr>hm_map := (hm_map h)[i := kvp]\<rparr>"
    have "key_of kvp = (p, k)" using i(4) kvp by (simp add: key_of_def)
    then have "hmap_abs h' = (hmap_abs h)((p, k) \<mapsto> (ty, v))" using f(2) True kvp by (simp add: hmap_abs_def h'_def)
    moreover have "table_ok fns h'" using f(1) ok by (simp add: table_ok_def h'_def)
    moreover have "count_ok h \<longrightarrow> count_ok h'" using f(3) by (simp add: count_ok_def entries_def h'_def)
    moreover have "grows h h'" by (simp add: grows_def h'_def)
    moreover have "hmap_update mem n h ty p k val = Some (n, h', 0)"
      using True i(2) by (simp add: hmap_update_def h'_def kvp_def v hmap_kvp_update_def Let_def)
    ultimately show ?thesis using v True a by (intro exI [of _ n] exI [of _ h'] exI [of _ 0]) simp
  qed
qed

lemma del_cases:
  assumes ok: "table_ok fns h"
  shows "\<exists>h'. hmap_del h p k = Some (h', 0) \<and> table_ok fns h' \<and> grows h h' \<and> hmap_abs h' = (hmap_abs h)((p, k) := None)
    \<and> hm_curr_capacity h' = hm_curr_capacity h - 1 \<and> (if hmap_abs h (p, k) = None then hm_map h' = hm_map h else Suc (entries h') = entries h)"
  using lookup_cases [OF ok, of p k]
proof (elim disjE conjE exE)
  assume n: "hmap_kvp_lookup h p k = Some None" "hmap_abs h (p, k) = None"
  let ?h = "h\<lparr>hm_curr_capacity := hm_curr_capacity h - 1\<rparr>"
  have "hmap_abs ?h = hmap_abs h" "table_ok fns ?h" "grows h ?h" using ok by (simp_all add: hmap_abs_def table_ok_def grows_def)
  moreover have "(hmap_abs h)((p, k) := None) = hmap_abs h" using n(2) by (rule fun_upd_idem)
  ultimately show ?thesis using n table_okD(5) [OF ok] free_null by (intro exI [of _ ?h]) (simp add: hmap_del_def)
next
  fix i assume i: "i < length (hm_map h)" "hmap_kvp_lookup h p k = Some (Some i)" "used (hm_map h ! i)" "key_of (hm_map h ! i) = (p, k)"
    and a: "hmap_abs h (p, k) = Some (kv_type (hm_map h ! i), kv_v (hm_map h ! i))"
  note f = free_slots [OF table_okD(6) [OF ok] i(1,3)]
  define h' where "h' = h\<lparr>hm_map := (hm_map h)[i := zero_kvp], hm_curr_capacity := hm_curr_capacity h - 1\<rparr>"
  have "hmap_abs h' = (hmap_abs h)((p, k) := None)" using f(2) by (simp add: hmap_abs_def h'_def i(4))
  moreover have "table_ok fns h'" using f(1) ok by (simp add: table_ok_def h'_def)
  moreover have "Suc (entries h') = entries h" using f(3) by (simp add: entries_def h'_def)
  moreover have "grows h h'" by (simp add: grows_def h'_def)
  moreover have "hmap_del h p k = Some (h', 0)" using i(2) free_slot by (simp add: hmap_del_def table_okD(5) [OF ok] h'_def)
  moreover have "hm_curr_capacity h' = hm_curr_capacity h - 1" by (simp add: h'_def)
  ultimately show ?thesis using a by (intro exI [of _ h']) simp
qed

end

interpretation default: hmap_callbacks default_funcs
proof unfold_locales
  show "cmp_fn default_funcs kvp p k \<longleftrightarrow> kv_prefix kvp = p \<and> kv_key kvp = Some k" if "kv_key kvp \<noteq> None" for kvp p k
    using that by (auto simp: default_funcs_def hmap_cmp_def split: option.splits)
qed (simp_all add: default_funcs_def hmap_free_def zero_kvp_def)

end
