(* ===== verification/HashMapUse.thy ===== *)
theory HashMapUse
  imports HashMap
begin

text \<open>
  What the users of the hash map of \<open>lib/hmap\<close> rely on: the interface of a partial map whose operations may
  refuse, the hash map as an instance of it, values of machine integer types, arrays, and the iteration that
  the listing of a map uses.
\<close>

subsection \<open>Operations and their effect on a partial map\<close>

datatype ('k, 't, 'v) map_op = Add 'k 't 'v | Update 'k 't 'v | Delete 'k

fun map_effect :: "('k, 't, 'v) map_op \<Rightarrow> int \<Rightarrow> ('k \<rightharpoonup> 't \<times> 'v) \<Rightarrow> ('k \<rightharpoonup> 't \<times> 'v)" where
  "map_effect (Add k t v) r m = (if r = 0 then m(k \<mapsto> (t, v)) else m)"
| "map_effect (Update k t v) r m = (if r = 0 then m(k \<mapsto> (t, v)) else m)"
| "map_effect (Delete k) r m = m(k := None)"

text \<open>Which results an operation may have. Adding never succeeds for a present key.\<close>

fun map_allows :: "('k, 't, 'v) map_op \<Rightarrow> int \<Rightarrow> ('k \<rightharpoonup> 't \<times> 'v) \<Rightarrow> bool" where
  "map_allows (Add k t v) r m \<longleftrightarrow> r = -1 \<or> r = 0 \<and> m k = None"
| "map_allows (Update k t v) r m \<longleftrightarrow> r = -1 \<or> r = 0 \<and> (case m k of None \<Rightarrow> True | Some (t', _) \<Rightarrow> t' = t)"
| "map_allows (Delete k) r m \<longleftrightarrow> r = 0"

fun map_replay :: "('k, 't, 'v) map_op list \<Rightarrow> int list \<Rightarrow> ('k \<rightharpoonup> 't \<times> 'v) \<Rightarrow> ('k \<rightharpoonup> 't \<times> 'v)" where
  "map_replay (op # ops) (r # rs) m = map_replay ops rs (map_effect op r m)"
| "map_replay _ _ m = m"

fun map_allows_all :: "('k, 't, 'v) map_op list \<Rightarrow> int list \<Rightarrow> ('k \<rightharpoonup> 't \<times> 'v) \<Rightarrow> bool" where
  "map_allows_all (op # ops) (r # rs) m \<longleftrightarrow> map_allows op r m \<and> map_allows_all ops rs (map_effect op r m)"
| "map_allows_all [] [] m \<longleftrightarrow> True"
| "map_allows_all _ _ m \<longleftrightarrow> False"

fun run_ops :: "('op \<Rightarrow> 's \<Rightarrow> ('s \<times> int) option) \<Rightarrow> 'op list \<Rightarrow> 's \<Rightarrow> ('s \<times> int list) option" where
  "run_ops step [] s = Some (s, [])"
| "run_ops step (op # ops) s =
     (case step op s of None \<Rightarrow> None | Some (s1, r) \<Rightarrow> map_option (\<lambda>(s2, rs). (s2, r # rs)) (run_ops step ops s1))"

text \<open>A store that implements the interface, and what its users get.\<close>

locale map_store =
  fixes step :: "('k, 't, 'v) map_op \<Rightarrow> 's \<Rightarrow> ('s \<times> int) option"
    and inv :: "'s \<Rightarrow> bool"
    and contents :: "'s \<Rightarrow> ('k \<rightharpoonup> 't \<times> 'v)"
    and valid :: "('k, 't, 'v) map_op \<Rightarrow> bool"
  assumes step: "inv s \<Longrightarrow> valid op \<Longrightarrow>
    \<exists>s' r. step op s = Some (s', r) \<and> inv s' \<and> contents s' = map_effect op r (contents s) \<and> map_allows op r (contents s)"
begin

lemma run:
  "inv s \<Longrightarrow> list_all valid ops \<Longrightarrow>
   \<exists>s' rs. run_ops step ops s = Some (s', rs) \<and> inv s' \<and> contents s' = map_replay ops rs (contents s)
     \<and> map_allows_all ops rs (contents s)"
proof (induction ops arbitrary: s)
  case Nil
  then show ?case by simp
next
  case (Cons op ops)
  then obtain s1 r where 1: "step op s = Some (s1, r)" "inv s1" "contents s1 = map_effect op r (contents s)" "map_allows op r (contents s)"
    using step [of s op] by auto
  obtain s2 rs where "run_ops step ops s1 = Some (s2, rs)" "inv s2" "contents s2 = map_replay ops rs (contents s1)"
    "map_allows_all ops rs (contents s1)" using Cons.IH [OF 1(2)] Cons.prems(2) by auto
  then show ?case using 1 by (intro exI [of _ s2] exI [of _ "r # rs"]) simp
qed

end

subsection \<open>The hash map as such a store\<close>

type_synonym hmap_op = "(string option \<times> string, hmap_type, u64) map_op"

fun hmap_step :: "(nat \<Rightarrow> bool) \<Rightarrow> hmap_op \<Rightarrow> nat \<times> hmap \<Rightarrow> ((nat \<times> hmap) \<times> int) option" where
  "hmap_step mem (Add pk ty v) (n, h) = map_option (\<lambda>(n', h', r). ((n', h'), r)) (hmap_add mem n h ty (fst pk) (snd pk) (Some v))"
| "hmap_step mem (Update pk ty v) (n, h) = map_option (\<lambda>(n', h', r). ((n', h'), r)) (hmap_update mem n h ty (fst pk) (snd pk) (Some v))"
| "hmap_step mem (Delete pk) (n, h) = map_option (\<lambda>(h', r). ((n, h'), r)) (hmap_del h (fst pk) (snd pk))"

fun typed_op :: "hmap_op \<Rightarrow> bool" where
  "typed_op (Add pk ty v) \<longleftrightarrow> ty \<noteq> HMAP_EMPTY_TYPE"
| "typed_op (Update pk ty v) \<longleftrightarrow> ty \<noteq> HMAP_EMPTY_TYPE"
| "typed_op (Delete pk) \<longleftrightarrow> True"

text \<open>The capacity moves in steps of 32 from a quarter of the maximum.\<close>

definition capacity_step :: "u32 \<Rightarrow> hmap \<Rightarrow> bool" where
  "capacity_step m h \<longleftrightarrow> hm_max_capacity h = m \<and> unat (hm_capacity h) mod 32 = unat (m div 4) mod 32"

lemma capacity_step_grows: "capacity_step m h \<Longrightarrow> grows h h' \<Longrightarrow> capacity_step m h'"
  by (auto simp: capacity_step_def grows_def)

lemma hmap_step_ok:
  assumes "table_ok default_funcs (snd s)" "typed_op op"
  shows "\<exists>s' r. hmap_step mem op s = Some (s', r) \<and> table_ok default_funcs (snd s') \<and> grows (snd s) (snd s')
    \<and> hmap_abs (snd s') = map_effect op r (hmap_abs (snd s)) \<and> map_allows op r (hmap_abs (snd s))"
proof (cases op)
  case (Add pk ty v)
  then have "ty \<noteq> HMAP_EMPTY_TYPE" using assms(2) by simp
  from default.add_cases [OF assms(1) this, of mem "fst s" "fst pk" "snd pk" "Some v"] obtain n' h' r where
    "hmap_add mem (fst s) (snd s) ty (fst pk) (snd pk) (Some v) = Some (n', h', r)" "table_ok default_funcs h'" "grows (snd s) h'"
    "r = -1 \<and> hmap_abs h' = hmap_abs (snd s) \<or> r = 0 \<and> hmap_abs (snd s) pk = None \<and> hmap_abs h' = (hmap_abs (snd s))(pk \<mapsto> (ty, v))"
    unfolding prod.collapse option.inject by blast
  then show ?thesis unfolding Add by (cases s) (intro exI [of _ "(n', h')"] exI [of _ r], auto)
next
  case (Update pk ty v)
  then have "ty \<noteq> HMAP_EMPTY_TYPE" using assms(2) by simp
  from default.update_cases [OF assms(1) this, of mem "fst s" "fst pk" "snd pk" "Some v"] obtain n' h' r where
    "hmap_update mem (fst s) (snd s) ty (fst pk) (snd pk) (Some v) = Some (n', h', r)" "table_ok default_funcs h'" "grows (snd s) h'"
    "r = -1 \<and> hmap_abs h' = hmap_abs (snd s)
     \<or> r = 0 \<and> (case hmap_abs (snd s) pk of None \<Rightarrow> True | Some (ty', _) \<Rightarrow> ty' = ty) \<and> hmap_abs h' = (hmap_abs (snd s))(pk \<mapsto> (ty, v))"
    unfolding prod.collapse option.inject by blast
  then show ?thesis unfolding Update by (cases s) (intro exI [of _ "(n', h')"] exI [of _ r], auto)
next
  case (Delete pk)
  from default.del_cases [OF assms(1), of "fst pk" "snd pk"] obtain h' where
    "hmap_del (snd s) (fst pk) (snd pk) = Some (h', 0)" "table_ok default_funcs h'" "grows (snd s) h'" "hmap_abs h' = (hmap_abs (snd s))(pk := None)"
    unfolding prod.collapse by blast
  then show ?thesis unfolding Delete by (cases s) (intro exI [of _ "(fst s, h')"] exI [of _ 0], auto)
qed

interpretation hash: map_store "hmap_step mem" "\<lambda>s. table_ok default_funcs (snd s) \<and> capacity_step m (snd s)" "\<lambda>s. hmap_abs (snd s)" typed_op
  for mem m
  using hmap_step_ok capacity_step_grows by unfold_locales meson

lemma created:
  assumes "hmap_create mem n name mx = (n', Some h)" "mx < 0xFFFFFFE0"
  shows "table_ok default_funcs h" "hmap_abs h = Map.empty" "count_ok h" "entries h = 0" "capacity_step (hm_max_capacity h) h"
    "hm_max_capacity h = (if mx = 0 then 1024 else max mx 32)" "unat (hm_capacity h) = unat (hm_max_capacity h) div 4"
proof -
  define m where "m = (if mx = 0 then 1024 else max mx 32)"
  have m: "32 \<le> unat m" "unat m < 0xFFFFFFE0" using assms(2) by (auto simp: m_def max_def word_less_nat_alt word_le_nat_alt)
  have m2: "(let max1 = (if mx = HMAP_USE_DEFAULT_CAPACITY then HMAP_DEFAULT_CAPACITY else mx)
             in if max1 < HMAP_STARTING_CAPACITY then HMAP_STARTING_CAPACITY else max1) = m"
    by (auto simp: m_def HMAP_USE_DEFAULT_CAPACITY_def HMAP_DEFAULT_CAPACITY_def HMAP_STARTING_CAPACITY_def max_def)
  have d: "unat (m div 4) = unat m div 4" by (simp add: unat_div)
  have nz: "m div 4 \<noteq> 0"
  proof
    assume "m div 4 = 0"
    then have "unat m div 4 = 0" using d by simp
    then show False using m(1) by simp
  qed
  have h: "h = hmap_set_funcs None None None \<lparr>hm_capacity = m div 4, hm_max_capacity = m, hm_curr_capacity = 0, hm_fns = default_funcs,
                   hm_map = replicate (unat (m div 4)) zero_kvp, hm_alloc_count = 1\<rparr>"
    using assms(1) nz unfolding hmap_create_def Let_def m2 [unfolded Let_def] by (auto split: if_splits)
  show "hm_max_capacity h = (if mx = 0 then 1024 else max mx 32)" "unat (hm_capacity h) = unat (hm_max_capacity h) div 4"
    "hmap_abs h = Map.empty" "count_ok h" "entries h = 0" "capacity_step (hm_max_capacity h) h"
    using d by (simp_all add: h hmap_set_funcs_def m_def hmap_abs_def count_ok_def entries_def capacity_step_def)
  show "table_ok default_funcs h"
    using d m by (simp add: h hmap_set_funcs_def table_ok_def default_funcs_def slots_ok_def list_all_length word_le_nat_alt)
qed

subsection \<open>Values of integer types, arrays\<close>

text \<open>The functions for the types of integers differ in the tag and the width: a value, also a signed one, is
  extended with zeros, and a value that is read is cut to its width.\<close>

definition hmap_add_int ::
  "(nat \<Rightarrow> bool) \<Rightarrow> nat \<Rightarrow> hmap \<Rightarrow> hmap_type \<Rightarrow> string option \<Rightarrow> string \<Rightarrow> 'w::len word \<Rightarrow> (nat \<times> hmap \<times> int) option" where
  "hmap_add_int mem n h ty prefix key val = hmap_add mem n h ty prefix key (Some (ucast val))"

definition hmap_update_int ::
  "(nat \<Rightarrow> bool) \<Rightarrow> nat \<Rightarrow> hmap \<Rightarrow> hmap_type \<Rightarrow> string option \<Rightarrow> string \<Rightarrow> 'w::len word \<Rightarrow> (nat \<times> hmap \<times> int) option" where
  "hmap_update_int mem n h ty prefix key val = hmap_update mem n h ty prefix key (Some (ucast val))"

definition get_kvp :: "hmap \<Rightarrow> string option \<Rightarrow> string \<Rightarrow> hmap_type \<Rightarrow> nat option option" where
  "get_kvp h prefix key ty =
     map_option (\<lambda>r. case r of None \<Rightarrow> None | Some i \<Rightarrow> if kv_type (hm_map h ! i) \<noteq> ty then None else Some i) (hmap_kvp_lookup h prefix key)"

definition hmap_get_int :: "hmap \<Rightarrow> hmap_type \<Rightarrow> string option \<Rightarrow> string \<Rightarrow> (int \<times> 'w::len word option) option" where
  "hmap_get_int h ty prefix key =
     map_option (\<lambda>r. case r of None \<Rightarrow> (-1, None) | Some i \<Rightarrow> (0, Some (ucast (kv_v (hm_map h ! i))))) (get_kvp h prefix key ty)"

text \<open>Arrays are pointers; their number of elements is set after the entry has been added.\<close>

definition set_array_count :: "string option \<Rightarrow> string \<Rightarrow> u32 \<Rightarrow> (nat \<times> hmap \<times> int) option \<Rightarrow> (nat \<times> hmap \<times> int) option" where
  "set_array_count prefix key cnt res =
     (case res of
        None \<Rightarrow> None
      | Some (n1, h1, r) \<Rightarrow>
          (if r = 0
           then map_option (\<lambda>i. case i of None \<Rightarrow> (n1, h1, r)
                              | Some i \<Rightarrow> (n1, h1\<lparr>hm_map := (hm_map h1)[i := (hm_map h1 ! i)\<lparr>kv_count := cnt\<rparr>]\<rparr>, r))
                  (hmap_kvp_lookup h1 prefix key)
           else Some (n1, h1, r)))"

definition hmap_add_array ::
  "(nat \<Rightarrow> bool) \<Rightarrow> nat \<Rightarrow> hmap \<Rightarrow> hmap_type \<Rightarrow> string option \<Rightarrow> string \<Rightarrow> u64 \<Rightarrow> u32 \<Rightarrow> (nat \<times> hmap \<times> int) option" where
  "hmap_add_array mem n h ty prefix key val cnt = set_array_count prefix key cnt (hmap_add mem n h ty prefix key (Some val))"

definition hmap_update_array ::
  "(nat \<Rightarrow> bool) \<Rightarrow> nat \<Rightarrow> hmap \<Rightarrow> hmap_type \<Rightarrow> string option \<Rightarrow> string \<Rightarrow> u64 \<Rightarrow> u32 \<Rightarrow> (nat \<times> hmap \<times> int) option" where
  "hmap_update_array mem n h ty prefix key val cnt = set_array_count prefix key cnt (hmap_update mem n h ty prefix key (Some val))"

lemma get_kvp_abs:
  assumes "table_ok default_funcs h"
  shows "\<exists>r. get_kvp h p k ty = Some r
    \<and> (case r of None \<Rightarrow> (case hmap_abs h (p, k) of None \<Rightarrow> True | Some (ty', v) \<Rightarrow> ty' \<noteq> ty)
        | Some i \<Rightarrow> hmap_abs h (p, k) = Some (ty, kv_v (hm_map h ! i)))"
  using default.lookup_cases [OF assms, of p k] by (auto simp: get_kvp_def)

lemma get_int_abs:
  assumes "table_ok default_funcs h"
  shows "hmap_get_int h ty p k
    = Some (case hmap_abs h (p, k) of None \<Rightarrow> (-1, None) | Some (ty', v) \<Rightarrow> if ty' = ty then (0, Some (ucast v)) else (-1, None))"
  using get_kvp_abs [OF assms, of p k ty] by (auto simp: hmap_get_int_def split: option.splits)

lemma fill_slot_counts:
  assumes "fill_slot mem n h ty p k (Some v) i = Some (n', h', r)" "kv_count (hm_map h ! i) = 0" "\<forall>x \<in> set (hm_map h). kv_count x = 0"
  shows "\<forall>x \<in> set (hm_map h'). kv_count x = 0"
  using assms set_update_subset_insert [of "hm_map h" i]
  by (fastforce simp: fill_slot_def Let_def hmap_kvp_update_def split: if_splits prod.splits)

lemma probe_in: "probe q cap m k hash = Some (Some i) \<Longrightarrow> i < length m \<and> q (m ! i)"
  by (induction q cap m k hash rule: probe.induct) (auto split: if_splits)

lemma add_value_counts:
  assumes "add_value mem n h ty p k (Some v) = Some (n', h', r)" "\<forall>x \<in> set (hm_map h). kv_count x = 0"
  shows "\<forall>x \<in> set (hm_map h'). kv_count x = 0"
  using assms probe_in fill_slot_counts
  by (fastforce simp: add_value_def split: option.splits)

lemma add_old_counts:
  "add_old mem n kvps h = Some (n', h', r) \<Longrightarrow> \<forall>x \<in> set (hm_map h). kv_count x = 0 \<Longrightarrow> \<forall>x \<in> set (hm_map h'). kv_count x = 0"
proof (induction mem n kvps h rule: add_old.induct)
  case (1 mem n h)
  then show ?case by simp
next
  case (2 mem n kvp kvps h)
  show ?case
  proof (cases "kv_type kvp = HMAP_EMPTY_TYPE")
    case True
    then show ?thesis using 2 by simp
  next
    case False
    then obtain k n1 h1 r1 where k: "kv_key kvp = Some k"
      "add_value mem n h (kv_type kvp) (kv_prefix kvp) k (Some (kv_v kvp)) = Some (n1, h1, r1)"
      using 2(3) by (auto split: option.splits)
    have "\<forall>x \<in> set (hm_map h1). kv_count x = 0" using add_value_counts [OF k(2) 2(4)] .
    then show ?thesis using 2(2) [OF False k(1) k(2) refl refl] 2(3) False k by (auto split: if_splits)
  qed
qed

lemma update_capacity_counts:
  assumes "table_ok default_funcs h" "hmap_update_capacity mem n h = Some (n', h', 0)" "hm_capacity h' \<noteq> hm_capacity h"
  shows "\<forall>x \<in> set (hm_map h'). kv_count x = 0"
proof -
  have "\<forall>x \<in> set (hm_map h'). kv_count x = 0" if
    "add_old mem (Suc n) (hm_map h) (h\<lparr>hm_capacity := c, hm_alloc_count := a, hm_map := replicate l zero_kvp, hm_curr_capacity := 0\<rparr>) = Some (n', h', 0)"
    for c a l
    using add_old_counts [OF that] by (simp add: zero_kvp_def)
  then show ?thesis using assms(2,3) by (auto simp: hmap_update_capacity_def Let_def split: if_splits option.splits)
qed

subsection \<open>Iteration\<close>

text \<open>The sorted listing allocates room for as many entries as the map counts and stores every entry it finds;
  the count is an \<open>int\<close> there, and a negative one is too much memory, so that nothing is listed. A store behind
  the array is \<open>None\<close>.\<close>

fun list_store :: "nat \<Rightarrow> nat \<Rightarrow> 'a list \<Rightarrow> 'a list \<Rightarrow> 'a list option" where
  "list_store sz i [] acc = Some acc"
| "list_store sz i (x # xs) acc = (if i < sz then list_store sz (Suc i) xs (acc @ [x]) else None)"

definition hmap_list_kvps :: "hmap \<Rightarrow> nat list option" where
  "hmap_list_kvps h =
     (if 2 ^ 31 \<le> unat (hmap_count h) then Some [] else list_store (unat (hmap_count h)) 0 (iterate_all h 0) [])"

lemma list_store_room: "list_store sz i xs acc = (if i + length xs \<le> max i sz then Some (acc @ xs) else None)"
  by (induction sz i xs acc rule: list_store.induct) (auto simp: max_def)

lemma iterate_from_next:
  "iterate_from h i = (case filter (\<lambda>j. kv_key (hm_map h ! j) \<noteq> None) [i..<unat (hm_capacity h)] of [] \<Rightarrow> None | j # _ \<Rightarrow> Some (j, Suc j))"
proof (induction h i rule: iterate_from.induct)
  case (1 h i)
  show ?case
  proof (cases "i < unat (hm_capacity h)")
    case True
    then show ?thesis using 1 by (subst iterate_from.simps) (simp add: upt_conv_Cons)
  next
    case False
    then show ?thesis by (subst iterate_from.simps) simp
  qed
qed

lemma filter_upt_tail: "filter q [i..<n] = j # js \<Longrightarrow> i \<le> j \<and> j < n \<and> js = filter q [Suc j..<n]"
proof (induction "n - i" arbitrary: i)
  case 0
  then show ?case by simp
next
  case (Suc d)
  then have "i < n" by simp
  then have u: "[i..<n] = i # [Suc i..<n]" by (rule upt_conv_Cons)
  show ?case
  proof (cases "q i")
    case True
    then show ?thesis using Suc.prems \<open>i < n\<close> unfolding u by auto
  next
    case False
    then show ?thesis using Suc.hyps(1) [of "Suc i"] Suc.hyps(2) Suc.prems unfolding u by force
  qed
qed

lemma iterate_all_filter: "iterate_all h i = filter (\<lambda>j. kv_key (hm_map h ! j) \<noteq> None) [i..<unat (hm_capacity h)]"
proof (induction h i rule: iterate_all.induct)
  case (1 h i)
  show ?case
  proof (cases "filter (\<lambda>j. kv_key (hm_map h ! j) \<noteq> None) [i..<unat (hm_capacity h)]")
    case Nil
    then have "iterate_from h i = None" by (simp add: iterate_from_next)
    then show ?thesis unfolding Nil by (subst iterate_all.simps) simp
  next
    case (Cons j js)
    note t = filter_upt_tail [OF Cons]
    have f: "iterate_from h i = Some (j, Suc j)" using Cons by (simp add: iterate_from_next)
    have "iterate_all h (Suc j) = js" using 1 [OF f refl] t by simp
    then show ?thesis unfolding Cons using f t by (subst iterate_all.simps) simp
  qed
qed

lemma iterate_entries:
  assumes "length (hm_map h) = unat (hm_capacity h)"
  shows "map (\<lambda>i. (key_of (hm_map h ! i), kv_type (hm_map h ! i), kv_v (hm_map h ! i))) (iterate_all h 0) = assoc (hm_map h)"
proof -
  have "map (\<lambda>i. hm_map h ! i) [0..<length (hm_map h)] = hm_map h" by (rule map_nth)
  then have "filter used (hm_map h) = map (\<lambda>i. hm_map h ! i) (filter (\<lambda>i. used (hm_map h ! i)) [0..<length (hm_map h)])"
    by (metis (no_types, lifting) filter_map comp_def filter_cong)
  then show ?thesis by (simp add: iterate_all_filter assoc_def assms used_def [abs_def] comp_def)
qed

subsection \<open>Properties\<close>

text \<open>
  C22 Whatever is added, updated and deleted, the hash map holds what a partial map from pairs of prefix and key
  would hold after the operations that were accepted, whichever allocations fail; no operation leaves the table,
  a present key is never added again, and a lookup gives the last value stored under its key.
\<close>

theorem hmap_refines_map:
  assumes "hmap_create mem n name mx = (n0, Some h)" "mx < 0xFFFFFFE0" "list_all typed_op ops"
  shows "\<exists>s rs. run_ops (hmap_step mem) ops (n0, h) = Some (s, rs) \<and> hmap_abs (snd s) = map_replay ops rs Map.empty
    \<and> map_allows_all ops rs Map.empty
    \<and> (\<forall>p k. hmap_lookup (snd s) p k
         = Some (case map_replay ops rs Map.empty (p, k) of None \<Rightarrow> (-1, None) | Some (ty, v) \<Rightarrow> (0, Some v)))"
proof -
  note c = created [OF assms(1,2)]
  obtain s rs where r: "run_ops (hmap_step mem) ops (n0, h) = Some (s, rs)" "table_ok default_funcs (snd s)"
    "hmap_abs (snd s) = map_replay ops rs Map.empty" "map_allows_all ops rs Map.empty"
    using hash.run [where mem = mem and s = "(n0, h)" and m = "hm_max_capacity h", OF _ assms(3)] c(1,2,5) by auto
  show ?thesis using r default.lookup_value [OF r(2)] by (intro exI [of _ s] exI [of _ rs]) simp
qed

lemma last_step:
  fixes a :: nat
  assumes "a mod 32 = q mod 32" "a \<le> m" "q \<le> m"
  shows "a \<le> m - (m - q) mod 32"
proof (cases "a \<le> q")
  case True
  moreover have "(m - q) mod 32 \<le> m - q" by simp
  ultimately show ?thesis using assms(3) by linarith
next
  case False
  then have "32 dvd a - q" using assms(1) by (simp add: mod_eq_dvd_iff_nat)
  then obtain t where "a - q = 32 * t" by blast
  then have "m - q = 32 * t + (m - a)" using False assms(2) by simp
  then have "(m - q) mod 32 \<le> m - a" by simp
  then show ?thesis using assms(2) by linarith
qed

text \<open>
  A hash map made for m entries never holds more than m - ((m - m div 4) mod 32) of them: it starts with a
  quarter of the maximum and grows by 32 while that is allowed. A map for 32 entries holds eight.
\<close>

lemma hmap_capacity_bound:
  assumes "hmap_create mem n name mx = (n0, Some h)" "mx < 0xFFFFFFE0" "list_all typed_op ops"
    and "run_ops (hmap_step mem) ops (n0, h) = Some (s, rs)" and "m = unat (hm_max_capacity h)"
  shows "entries (snd s) \<le> m - (m - m div 4) mod 32"
proof -
  note c = created [OF assms(1,2)]
  have r: "table_ok default_funcs (snd s)" "capacity_step (hm_max_capacity h) (snd s)"
    using hash.run [where mem = mem and s = "(n0, h)" and m = "hm_max_capacity h", OF _ assms(3)] c(1,2,5) assms(4) by auto
  let ?c = "unat (hm_capacity (snd s))"
  have e: "entries (snd s) \<le> ?c" by (rule default.entries_le [OF r(1)])
  have le: "?c \<le> m" using default.table_okD(3) [OF r(1)] r(2) assms(5) by (simp add: capacity_step_def word_le_nat_alt)
  have "?c mod 32 = (m div 4) mod 32" using r(2) assms(5) by (simp add: capacity_step_def unat_div)
  then have "?c \<le> m - (m - m div 4) mod 32" using le by (intro last_step) simp_all
  then show ?thesis using e by simp
qed

text \<open>
  C23 With memory and a right count, adding succeeds exactly if the key is not there and the table is not full at
  its largest size; the table stays well formed and the count right.
\<close>

theorem hmap_add_iff:
  assumes "table_ok default_funcs h" "count_ok h" "\<forall>j \<ge> n. mem j" "ty \<noteq> HMAP_EMPTY_TYPE"
  shows "\<exists>n' h' r. hmap_add mem n h ty p k (Some v) = Some (n', h', r) \<and> table_ok default_funcs h' \<and> count_ok h'
    \<and> (r = 0 \<longleftrightarrow> hmap_abs h (p, k) = None \<and> \<not> (hmap_count h = hm_capacity h \<and> hm_max_capacity h < hm_capacity h + 32))
    \<and> hmap_abs h' = (if r = 0 then (hmap_abs h)((p, k) \<mapsto> (ty, v)) else hmap_abs h)"
proof -
  obtain n' h' r where a: "hmap_add mem n h ty p k (Some v) = Some (n', h', r)" "table_ok default_funcs h'" "grows h h'" "count_ok h'" and
    r: "r = -1 \<and> hmap_abs h' = hmap_abs h \<and> (hmap_abs h (p, k) \<noteq> None
          \<or> entries h = unat (hm_capacity h) \<and> (hm_curr_capacity h < hm_capacity h - 8 \<or> hm_max_capacity h < hm_capacity h + 32))
       \<or> r = 0 \<and> hmap_abs h (p, k) = None \<and> hmap_abs h' = (hmap_abs h)((p, k) \<mapsto> (ty, v)) \<and> entries h' = Suc (entries h)"
    using default.add_cases [OF assms(1,4), of mem n p k "Some v"] assms(2,3) by auto
  note o = default.table_okD [OF assms(1)]
  have cnt: "entries h = unat (hm_capacity h) \<longleftrightarrow> hmap_count h = hm_capacity h"
    using assms(2) by (auto simp: count_ok_def hmap_count_def word_unat_eq_iff)
  have "\<not> hm_curr_capacity h < hm_capacity h - 8" if "hm_curr_capacity h = hm_capacity h"
    using that o(2) by (simp add: word_less_nat_alt unat_sub word_le_nat_alt)
  then have full: "entries h = unat (hm_capacity h) \<and> (hm_curr_capacity h < hm_capacity h - 8 \<or> hm_max_capacity h < hm_capacity h + 32)
      \<longleftrightarrow> hmap_count h = hm_capacity h \<and> hm_max_capacity h < hm_capacity h + 32"
    unfolding cnt by (auto simp: hmap_count_def)
  have "\<not> (hmap_count h = hm_capacity h \<and> hm_max_capacity h < hm_capacity h + 32)" if "entries h' = Suc (entries h)"
  proof
    assume f: "hmap_count h = hm_capacity h \<and> hm_max_capacity h < hm_capacity h + 32"
    have u: "unat (hm_capacity h) + 32 < 2 ^ 32" using o(3,4) by (simp add: word_le_nat_alt)
    then have "unat (hm_capacity h + 32) = unat (hm_capacity h) + 32" by (subst unat_add_no_wrap) simp_all
    then have "unat (hm_max_capacity h) < unat (hm_capacity h) + 32" using f by (simp add: word_less_nat_alt)
    then have "hm_capacity h' = hm_capacity h" using a(3) default.table_okD(3) [OF a(2)] by (auto simp: grows_def word_le_nat_alt)
    then show False using default.entries_le [OF a(2)] that f cnt by simp
  qed
  then show ?thesis using a r full by (intro exI [of _ n'] exI [of _ h'] exI [of _ r]) auto
qed

text \<open>
  Deleting a key that is not there reports success and lowers the count all the same; the sorted listing of a
  map with entries then writes past the array it has allocated by the count.
\<close>

lemma hmap_delete_missing:
  assumes "table_ok default_funcs h" "count_ok h" "hmap_abs h (p, k) = None"
  shows "\<exists>h'. hmap_del h p k = Some (h', 0) \<and> hmap_abs h' = hmap_abs h \<and> hmap_count h' = hmap_count h - 1
    \<and> (hmap_count h \<noteq> 0 \<and> hmap_count h < 0x80000000 \<longrightarrow> hmap_list_kvps h \<noteq> None \<and> hmap_list_kvps h' = None)"
proof -
  obtain h' where h': "hmap_del h p k = Some (h', 0)" "table_ok default_funcs h'" "hmap_abs h' = (hmap_abs h)((p, k) := None)"
    "hm_curr_capacity h' = hm_curr_capacity h - 1" "hm_map h' = hm_map h"
    using default.del_cases [OF assms(1), of p k] assms(3) by auto
  have l: "length (iterate_all g 0) = entries g" if "table_ok default_funcs g" for g
    using arg_cong [OF iterate_entries [OF default.table_okD(1) [OF that]], of length] by (simp add: entries_def)
  have "entries h' = entries h" by (simp add: entries_def h'(5))
  moreover have "hmap_count h \<noteq> 0 \<longrightarrow> unat (hmap_count h') < entries h"
  proof
    assume that: "hmap_count h \<noteq> 0"
    have "unat (hm_curr_capacity h - 1) = unat (hm_curr_capacity h) - 1"
      using that by (simp add: hmap_count_def unat_minus_one)
    moreover have "unat (hm_curr_capacity h) \<noteq> 0" using that by (simp add: hmap_count_def unat_eq_0)
    ultimately show "unat (hmap_count h') < entries h" using assms(2) h'(4) by (simp add: count_ok_def hmap_count_def)
  qed
  moreover have "(hmap_abs h)((p, k) := None) = hmap_abs h" using assms(3) by (rule fun_upd_idem)
  ultimately show ?thesis
    using h' assms(2) l [OF assms(1)] l [OF h'(2)]
    by (intro exI [of _ h']) (auto simp: hmap_list_kvps_def list_store_room hmap_count_def count_ok_def word_less_nat_alt)
qed

text \<open>
  When the table grows, the number of elements of every array in the map is lost: all counts are zero.
\<close>

lemma hmap_growth_drops_counts:
  assumes "table_ok default_funcs h" "hmap_update_capacity mem n h = Some (n', h', 0)" "hm_capacity h' \<noteq> hm_capacity h"
  shows "hmap_abs h' = hmap_abs h \<and> (\<forall>i < length (hm_map h'). kv_count (hm_map h' ! i) = 0)"
  using update_capacity_counts [OF assms] default.update_capacity_cases [OF assms(1), of mem n] assms(2) by auto

text \<open>
  An integer of any width is read back as it was added or updated, under its type and no other.
\<close>

lemma hmap_typed_roundtrip:
  fixes x :: "'w::len word"
  assumes "table_ok default_funcs h" "ty \<noteq> HMAP_EMPTY_TYPE" "LENGTH('w) \<le> 64"
    and "hmap_add_int mem n h ty p k x = Some (n', h', 0) \<or> hmap_update_int mem n h ty p k x = Some (n', h', 0)"
  shows "hmap_get_int h' ty' p k = Some (if ty' = ty then (0, Some x) else (-1, None))"
proof -
  have "table_ok default_funcs h' \<and> hmap_abs h' = (hmap_abs h)((p, k) \<mapsto> (ty, ucast x))"
    using default.add_cases [OF assms(1,2), of mem n p k "Some (ucast x)"] default.update_cases [OF assms(1,2), of mem n p k "Some (ucast x)"]
      assms(4) unfolding hmap_add_int_def hmap_update_int_def by (elim disjE) (simp_all del: fun_upd_apply)
  moreover have "(ucast (ucast x :: u64) :: 'w word) = x"
    using assms(3) by (auto intro!: bit_word_eqI simp: bit_simps)
  ultimately show ?thesis by (simp add: get_int_abs)
qed

text \<open>
  The iteration meets every entry of the map exactly once.
\<close>

lemma hmap_iterate_complete:
  assumes "table_ok default_funcs h"
  shows "distinct (map (\<lambda>i. key_of (hm_map h ! i)) (iterate_all h 0))
    \<and> map_of (map (\<lambda>i. (key_of (hm_map h ! i), kv_type (hm_map h ! i), kv_v (hm_map h ! i))) (iterate_all h 0)) = hmap_abs h"
proof -
  note e = iterate_entries [OF default.table_okD(1) [OF assms]]
  have "map (\<lambda>i. key_of (hm_map h ! i)) (iterate_all h 0) = map fst (assoc (hm_map h))"
    unfolding e [symmetric] by simp
  then show ?thesis using default.table_okD(6) [OF assms] unfolding e by (simp add: slots_ok_def hmap_abs_def)
qed

subsection \<open>Examples\<close>

definition sample_map :: "u32 \<Rightarrow> hmap" where
  "sample_map mx = the (snd (hmap_create (\<lambda>_. True) 0 None mx))"

lemma sample_created: "hmap_create (\<lambda>_. True) 0 None mx = (2, Some (sample_map mx))"
  by (simp add: sample_map_def hmap_create_def HMAP_MAX_NAME_SIZE_def Let_def)

lemma sample_map_ok:
  assumes "mx < 0xFFFFFFE0"
  shows "table_ok default_funcs (sample_map mx)" "hmap_abs (sample_map mx) = Map.empty" "count_ok (sample_map mx)" "entries (sample_map mx) = 0"
  using created [OF sample_created assms] by simp_all

definition sample_ops :: "hmap_op list" where
  "sample_ops = [Add (None, ''a'') HMAP_U16_TYPE 7, Add (None, ''a'') HMAP_U16_TYPE 8, Update (None, ''a'') HMAP_U16_TYPE 9, Delete (Some ''x'', ''a'')]"

theorem hmap_refines_map_witness:
  "\<exists>s rs. run_ops (hmap_step (\<lambda>_. True)) sample_ops (2, sample_map 32) = Some (s, rs)
    \<and> hmap_abs (snd s) = map_replay sample_ops rs Map.empty"
  using hmap_refines_map [OF sample_created, of 32 sample_ops] by (auto simp: sample_ops_def)

lemma sample_ops_run:
  "snd (the (run_ops (hmap_step (\<lambda>_. True)) sample_ops (2, sample_map 32))) = [0, -1, 0, 0]"
  by code_simp

text \<open>The ninth key does not fit into a map for 32 entries.\<close>

definition nine_keys :: "hmap_op list" where
  "nine_keys = map (\<lambda>c. Add (None, [c]) HMAP_U16_TYPE 7) ''abcdefghi''"

lemma nine_keys_run:
  "snd (the (run_ops (hmap_step (\<lambda>_. True)) nine_keys (2, sample_map 32))) = replicate 8 0 @ [-1]"
  "\<not> Option.is_none (run_ops (hmap_step (\<lambda>_. True)) nine_keys (2, sample_map 32))" "hm_max_capacity (sample_map 32) = 32"
  by code_simp+

lemma hmap_capacity_bound_example:
  "\<exists>s. run_ops (hmap_step (\<lambda>_. True)) nine_keys (2, sample_map 32) = Some (s, replicate 8 0 @ [-1]) \<and> entries (snd s) \<le> 8"
proof -
  obtain s where s: "run_ops (hmap_step (\<lambda>_. True)) nine_keys (2, sample_map 32) = Some (s, replicate 8 0 @ [-1])"
    using nine_keys_run(1,2) by (auto simp: Option.is_none_def)
  have "list_all typed_op nine_keys" by (simp add: nine_keys_def)
  from hmap_capacity_bound [OF sample_created _ this s refl] show ?thesis using s by (simp add: nine_keys_run(3))
qed

theorem hmap_add_iff_witness:
  "\<exists>n' h'. hmap_add (\<lambda>_. True) 2 (sample_map 32) HMAP_STR_TYPE (Some ''p'') ''k'' (Some 5) = Some (n', h', 0)"
proof -
  have "hmap_count (sample_map 32) \<noteq> hm_capacity (sample_map 32)" by code_simp
  then show ?thesis
    using hmap_add_iff [OF sample_map_ok(1,3), of 32 2 "\<lambda>_. True" HMAP_STR_TYPE "Some ''p''" "''k''" 5] sample_map_ok(2) [of 32] by auto
qed

text \<open>A map with an array of five elements and two numbers.\<close>

definition array_map :: "nat \<times> hmap" where
  "array_map = (case hmap_add_array (\<lambda>_. True) 2 (sample_map 44) HMAP_U16_ARRAY_TYPE None ''arr'' 4096 5 of Some (n, h, r) \<Rightarrow> (n, h))"

definition two_more :: "hmap_op list" where
  "two_more = [Add (None, ''b'') HMAP_U16_TYPE 1, Add (None, ''c'') HMAP_U16_TYPE 2]"

definition full_map :: "nat \<times> hmap" where
  "full_map = fst (the (run_ops (hmap_step (\<lambda>_. True)) two_more array_map))"

lemma add_array_ok:
  assumes "table_ok default_funcs h" "ty \<noteq> HMAP_EMPTY_TYPE" "hmap_add_array mem n h ty p k v c = Some (n', h', r)"
  shows "table_ok default_funcs h'"
proof -
  obtain n1 h1 r1 where a: "hmap_add mem n h ty p k (Some v) = Some (n1, h1, r1)" "table_ok default_funcs h1"
    using default.add_cases [OF assms(1,2), of mem n p k "Some v"] by blast
  have "slots_ok ((hm_map h1)[i := (hm_map h1 ! i)\<lparr>kv_count := c\<rparr>])" if "i < length (hm_map h1)" "used (hm_map h1 ! i)" for i
    using that default.table_okD(6) [OF a(2)] by (intro replace_slots) simp_all
  then show ?thesis using a assms(3) default.lookup_cases [OF a(2), of p k]
    by (auto simp: hmap_add_array_def set_array_count_def table_ok_def split: if_splits)
qed

lemma array_map_ok: "table_ok default_funcs (snd array_map)"
proof -
  obtain n h r where a: "hmap_add_array (\<lambda>_. True) 2 (sample_map 44) HMAP_U16_ARRAY_TYPE None ''arr'' 4096 5 = Some (n, h, r)"
  proof -
    have "\<not> Option.is_none (hmap_add_array (\<lambda>_. True) 2 (sample_map 44) HMAP_U16_ARRAY_TYPE None ''arr'' 4096 5)" by code_simp
    then show ?thesis using that by (auto simp: Option.is_none_def)
  qed
  have "table_ok default_funcs h" using add_array_ok [OF sample_map_ok(1) _ a] by simp
  then show ?thesis by (simp add: array_map_def a)
qed

lemma full_map_ok: "table_ok default_funcs (snd full_map)"
proof -
  have "capacity_step 44 (snd array_map)" by code_simp
  moreover have "list_all typed_op two_more" by (simp add: two_more_def)
  ultimately obtain s rs where "run_ops (hmap_step (\<lambda>_. True)) two_more array_map = Some (s, rs)" "table_ok default_funcs (snd s)"
    using hash.run [where mem = "\<lambda>_. True" and s = array_map and m = 44 and ops = two_more] array_map_ok by blast
  then show ?thesis by (simp add: full_map_def)
qed

lemma hmap_growth_drops_counts_example:
  "\<exists>n' h'. hmap_update_capacity (\<lambda>_. True) (fst full_map) (snd full_map) = Some (n', h', 0)
     \<and> list_ex (\<lambda>x. kv_count x = 5) (hm_map (snd full_map)) \<and> hmap_abs h' = hmap_abs (snd full_map)
     \<and> (\<forall>i < length (hm_map h'). kv_count (hm_map h' ! i) = 0)"
proof -
  have e: "map_option (\<lambda>(n', h', r). (hm_capacity h', r)) (hmap_update_capacity (\<lambda>_. True) (fst full_map) (snd full_map)) = Some (43, 0)"
    "hm_capacity (snd full_map) = 11" "list_ex (\<lambda>x. kv_count x = 5) (hm_map (snd full_map))" by code_simp+
  then obtain n' h' where h': "hmap_update_capacity (\<lambda>_. True) (fst full_map) (snd full_map) = Some (n', h', 0)" "hm_capacity h' = 43" by auto
  show ?thesis using hmap_growth_drops_counts [OF full_map_ok h'(1)] h' e by auto
qed

lemma hmap_delete_missing_example:
  "\<exists>h'. hmap_del (snd full_map) (Some ''x'') ''a'' = Some (h', 0) \<and> hmap_list_kvps h' = None"
proof -
  have "count_ok (snd full_map)" "hmap_count (snd full_map) \<noteq> 0" "hmap_count (snd full_map) < 0x80000000" "hmap_abs (snd full_map) (Some ''x'', ''a'') = None" by code_simp+
  then show ?thesis using hmap_delete_missing [OF full_map_ok] by blast
qed

lemma room_add:
  assumes "table_ok default_funcs h" "ty \<noteq> HMAP_EMPTY_TYPE" "hmap_abs h (p, k) = None" "entries h < unat (hm_capacity h)"
  shows "\<exists>n' h'. hmap_add (\<lambda>_. True) n h ty p k (Some v) = Some (n', h', 0)"
proof -
  obtain n' h' r where a: "hmap_add (\<lambda>_. True) n h ty p k (Some v) = Some (n', h', r)" and
    "r = -1 \<and> entries h = unat (hm_capacity h) \<or> r = 0"
    using default.add_cases [OF assms(1,2), of "\<lambda>_. True" n p k "Some v"] assms(3) by blast
  then have "r = 0" using assms(4) by simp
  then show ?thesis using a by simp
qed

lemma hmap_typed_roundtrip_example:
  "\<exists>n' h'. hmap_add_int (\<lambda>_. True) 2 (sample_map 32) HMAP_I8_TYPE None ''k'' (-3 :: u8) = Some (n', h', 0)
     \<and> hmap_get_int h' HMAP_I8_TYPE None ''k'' = Some (0, Some (-3 :: u8))"
proof -
  have c: "unat (hm_capacity (sample_map 32)) = 8" by code_simp
  obtain n' h' where a: "hmap_add_int (\<lambda>_. True) 2 (sample_map 32) HMAP_I8_TYPE None ''k'' (-3 :: u8) = Some (n', h', 0)"
    using room_add [OF sample_map_ok(1), of 32 HMAP_I8_TYPE None "''k''" 2 "ucast (-3 :: u8)"] sample_map_ok(2,4) [of 32] c unfolding hmap_add_int_def by auto
  show ?thesis using hmap_typed_roundtrip [OF sample_map_ok(1), of 32 HMAP_I8_TYPE "\<lambda>_. True" 2 None "''k''" "-3 :: u8" n' h' HMAP_I8_TYPE] a by simp
qed

lemma hmap_iterate_complete_example:
  "length (iterate_all (snd full_map) 0) = 3 \<and> distinct (map (\<lambda>i. key_of (hm_map (snd full_map) ! i)) (iterate_all (snd full_map) 0))"
proof -
  have "entries (snd full_map) = 3" by code_simp
  then have "length (iterate_all (snd full_map) 0) = 3"
    using arg_cong [OF iterate_entries [OF default.table_okD(1) [OF full_map_ok]], of length] by (simp add: entries_def)
  then show ?thesis using hmap_iterate_complete [OF full_map_ok] by blast
qed

subsection \<open>The hash of long keys\<close>

text \<open>The loop over the key ends where the index reaches the character, so that the tail of a long key does not
  count; the table does not depend on it.\<close>

lemma hash_key_stops: "127 \<le> i \<Longrightarrow> hash_key i cs h = h"
proof (cases cs)
  case (Cons c cs')
  assume "127 \<le> i"
  moreover have "sint (of_char c :: u8) < 128" using sint_lt [of "of_char c :: u8"] by simp
  ultimately show ?thesis using Cons by simp
qed simp

end
