(* ===== verification/Latency.thy ===== *)
theory Latency
  imports PktCheck L2pTable Complex_Main "HOL-Library.Multiset"
begin

text \<open>
  The measurement of latency: the probes a port injects and recognises (\<open>pktgen_tstamp_check\<close>,
  \<open>latency_ring_insert\<close> of \<open>app/pktgen.c\<close>), their statistics with the percentiles of the latency page
  (\<open>app/pktgen-latency.c\<close>), the sampler and the commands that set them up (\<open>app/pktgen-cmds.c\<close>,
  \<open>_latency_defaults\<close> of \<open>app/pktgen-port-cfg.c\<close>). The counters are the words of the code; the two
  positions of the ring, of type \<open>int\<close> in C, are natural numbers.
\<close>

definition RING_SIZE :: nat where "RING_SIZE = 1024"
definition MAX_LATENCY_ENTRIES :: nat where "MAX_LATENCY_ENTRIES = 50108"
definition DEFAULT_JITTER_THRESHOLD :: u64 where "DEFAULT_JITTER_THRESHOLD = 50"
definition DEFAULT_LATENCY_RATE :: u32 where "DEFAULT_LATENCY_RATE = 10000"
definition MAX_LATENCY_RATE :: u32 where "MAX_LATENCY_RATE = 1000000"
definition DEFAULT_LATENCY_ENTROPY :: u16 where "DEFAULT_LATENCY_ENTROPY = 0"
definition LATENCY_PKT_SIZE :: u16 where "LATENCY_PKT_SIZE = RTE_ETHER_MIN_LEN"
definition LATENCY_DPORT :: u16 where "LATENCY_DPORT = 1028"
definition SAMPLING_LATENCIES :: u64 where "SAMPLING_LATENCIES = push_bit 6 1"
definition Billion :: u64 where "Billion = 1000000000"

lemmas latency_consts = RING_SIZE_def MAX_LATENCY_ENTRIES_def DEFAULT_JITTER_THRESHOLD_def DEFAULT_LATENCY_RATE_def
  MAX_LATENCY_RATE_def DEFAULT_LATENCY_ENTROPY_def LATENCY_PKT_SIZE_def LATENCY_DPORT_def

datatype latsampler = LATSAMPLER_UNSPEC | LATSAMPLER_SIMPLE | LATSAMPLER_POISSON

record latency_ring =
  ring_data :: "u64 list"
  ring_head :: nat
  ring_count :: nat

record latsamp_stats =
  ls_data :: "u64 list"
  ls_idx :: u32
  ls_num_samples :: u32
  ls_next :: u64

record latency =
  latency_rate_us :: u64
  jitter_threshold_us :: u64
  jitter_threshold_cycles :: u64
  latency_rate_cycles :: u64
  latency_timo_cycles :: u64
  latency_entropy :: u16
  jitter_count :: u64
  num_latency_pkts :: u64
  num_latency_tx_pkts :: u64
  num_skipped :: u64
  running_cycles :: u64
  prev_cycles :: u64
  min_cycles :: u64
  avg_cycles :: u64
  max_cycles :: u64
  next_index :: u32
  expect_index :: u32
  tail_latencies :: latency_ring

record latsampler_setup =
  latsamp_type :: latsampler
  latsamp_rate :: u32
  latsamp_num_samples :: u32
  latsamp_outfile :: string

subsection \<open>Setting up\<close>

definition empty_ring :: latency_ring where
  "empty_ring = \<lparr>ring_data = replicate RING_SIZE 0, ring_head = 0, ring_count = 0\<rparr>"

definition latency_set_rate :: "u64 \<Rightarrow> u32 \<Rightarrow> latency \<Rightarrow> latency" where
  "latency_set_rate timer_hz v lat =
     (let v1 = (if v = 0 then DEFAULT_LATENCY_RATE else v);
          v2 = (if v1 > MAX_LATENCY_RATE then MAX_LATENCY_RATE else v1)
      in lat\<lparr>latency_rate_us := ucast v2,
             latency_rate_cycles := timer_hz div (ucast MAX_LATENCY_RATE div ucast v2)\<rparr>)"

definition latency_set_entropy :: "u16 \<Rightarrow> latency \<Rightarrow> latency" where
  "latency_set_entropy v lat = lat\<lparr>latency_entropy := v\<rparr>"

definition single_set_jitter :: "u64 \<Rightarrow> u64 \<Rightarrow> latency \<Rightarrow> latency" where
  "single_set_jitter timer_hz threshold lat =
     (let us_per_tick = timer_hz div 1000000
      in lat\<lparr>jitter_threshold_us := threshold, jitter_count := 0, jitter_threshold_cycles := threshold * us_per_tick\<rparr>)"

definition latency_defaults :: "u64 \<Rightarrow> latency \<Rightarrow> latency" where
  "latency_defaults timer_hz lat =
     (let ticks = timer_hz div 1000000
      in lat\<lparr>jitter_threshold_us := DEFAULT_JITTER_THRESHOLD, latency_rate_us := ucast DEFAULT_LATENCY_RATE,
             latency_entropy := DEFAULT_LATENCY_ENTROPY,
             latency_rate_cycles := timer_hz div (ucast MAX_LATENCY_RATE div ucast DEFAULT_LATENCY_RATE),
             jitter_threshold_cycles := DEFAULT_JITTER_THRESHOLD * ticks\<rparr>)"

text \<open>The members from the marker \<open>stats\<close> on, which \<open>pktgen_clear_stats\<close> sets to zero.\<close>

definition clear_latency_stats :: "latency \<Rightarrow> latency" where
  "clear_latency_stats lat =
     lat\<lparr>jitter_count := 0, num_latency_pkts := 0, num_latency_tx_pkts := 0, num_skipped := 0, running_cycles := 0,
         prev_cycles := 0, min_cycles := 0, avg_cycles := 0, max_cycles := 0, next_index := 0, expect_index := 0,
         tail_latencies := empty_ring\<rparr>"

text \<open>The copy of the template takes the pointer to the header with it; the bytes of the headers are not part of it here.\<close>

definition pktgen_latency_setup :: "port_info \<Rightarrow> port_info" where
  "pktgen_latency_setup pinfo =
     upd_pkt LATENCY_PKT (\<lambda>_. (seq_pkt pinfo ! SINGLE_PKT)\<lparr>pk_size := LATENCY_PKT_SIZE, ipProto := PG_IPPROTO_UDP,
        ethType := RTE_ETHER_TYPE_IPV4, pk_dport := LATENCY_DPORT\<rparr>) pinfo"

definition enable_latency :: "bool \<Rightarrow> port_info \<Rightarrow> port_info" where
  "enable_latency on pinfo =
     (if on then pktgen_set_port_flags SEND_LATENCY_PKTS (pktgen_latency_setup pinfo)
      else pktgen_clr_port_flags SEND_LATENCY_PKTS pinfo)"

subsection \<open>The ring of the last latencies\<close>

definition latency_ring_insert :: "latency_ring \<Rightarrow> u64 \<Rightarrow> latency_ring" where
  "latency_ring_insert ring v =
     ring\<lparr>ring_data := (ring_data ring)[ring_head ring := v],
          ring_head := (ring_head ring + 1) mod RING_SIZE,
          ring_count := (if ring_count ring < RING_SIZE then ring_count ring + 1 else ring_count ring)\<rparr>"

definition cmp_uint64_asc :: "u64 \<Rightarrow> u64 \<Rightarrow> int" where
  "cmp_uint64_asc va vb = (if va < vb then -1 else if va > vb then 1 else 0)"

text \<open>\<open>qsort\<close> with this comparison, as insertion of one element after the other.\<close>

fun insert_cmp :: "('a \<Rightarrow> 'a \<Rightarrow> int) \<Rightarrow> 'a \<Rightarrow> 'a list \<Rightarrow> 'a list" where
  "insert_cmp cmp x [] = [x]"
| "insert_cmp cmp x (y # ys) = (if cmp x y \<le> 0 then x # y # ys else y # insert_cmp cmp x ys)"

definition qsort :: "('a \<Rightarrow> 'a \<Rightarrow> int) \<Rightarrow> 'a list \<Rightarrow> 'a list" where
  "qsort cmp xs = foldr (insert_cmp cmp) xs []"

text \<open>
  Numbers of type \<open>double\<close> are rationals, and \<open>fl\<close> rounds the exact result of an operation to a double; a
  conversion to an integer cuts the fraction off.
\<close>

definition latency_ring_percentile :: "(rat \<Rightarrow> rat) \<Rightarrow> latency_ring \<Rightarrow> rat \<Rightarrow> u64" where
  "latency_ring_percentile fl ring q =
     (if ring_count ring = 0 then 0
      else let tmp = qsort cmp_uint64_asc (take (ring_count ring) (ring_data ring));
               pos = fl (q * of_nat (ring_count ring - 1));
               idx = nat \<lfloor>pos\<rfloor>;
               part = fl (pos - of_nat idx)
           in if idx + 1 < ring_count ring
              then tmp ! idx + of_int \<lfloor>fl (fl (of_nat (unat (tmp ! (idx + 1) - tmp ! idx))) * part)\<rfloor>
              else tmp ! idx)"

subsection \<open>Checking received packets\<close>

definition get_le64 :: "u8 list \<Rightarrow> u64" where
  "get_le64 bs = ucast (get_le32 bs) OR push_bit 32 (ucast (get_le32 (drop 4 bs)))"

text \<open>What a packet with the magic number of a probe does to the statistics; the latency when it is measured.\<close>

definition probe_received :: "u32 \<Rightarrow> u64 \<Rightarrow> latency \<Rightarrow> u64 option \<times> latency" where
  "probe_received index cycles lat =
     (if index \<noteq> expect_index lat
      then (None, lat\<lparr>expect_index := index + 1, num_skipped := num_skipped lat + 1\<rparr>)
      else
        (let jitter = (if cycles > prev_cycles lat then cycles - prev_cycles lat else prev_cycles lat - cycles)
         in (Some cycles,
             lat\<lparr>expect_index := expect_index lat + 1,
                 num_latency_pkts := num_latency_pkts lat + 1,
                 running_cycles := running_cycles lat + cycles,
                 tail_latencies := latency_ring_insert (tail_latencies lat) cycles,
                 min_cycles := (if min_cycles lat = 0 \<or> cycles < min_cycles lat then cycles else min_cycles lat),
                 max_cycles := (if max_cycles lat = 0 \<or> cycles > max_cycles lat then cycles else max_cycles lat),
                 jitter_count := (if jitter > jitter_threshold_cycles lat then jitter_count lat + 1 else jitter_count lat),
                 prev_cycles := cycles\<rparr>)))"

text \<open>
  The sampler of a queue: \<open>hz\<close> is the frequency of the time stamp counter and \<open>poisson\<close> the next time that the
  floating point computation with a random number gives. No value for a store beyond the array.
\<close>

definition latency_sample ::
  "latsampler_setup \<Rightarrow> u64 \<Rightarrow> (u64 \<Rightarrow> u64) \<Rightarrow> u64 \<Rightarrow> u64 \<Rightarrow> latsamp_stats \<Rightarrow> latsamp_stats option" where
  "latency_sample ls hz poisson cycles now stats =
     (if ls_next stats = 0 \<or> now \<ge> ls_next stats then
        (if ls_idx stats < ls_num_samples stats \<and> unat (ls_idx stats) \<ge> length (ls_data stats) then None
         else let stats1 = (if ls_idx stats < ls_num_samples stats
                then stats\<lparr>ls_data := (ls_data stats)[unat (ls_idx stats) := cycles * Billion div hz], ls_idx := ls_idx stats + 1\<rparr>
                else stats)
              in Some (stats1\<lparr>ls_next := (if latsamp_type ls = LATSAMPLER_POISSON then poisson now
                                        else (now + hz) div ucast (latsamp_rate ls))\<rparr>))
      else Some stats)"

text \<open>
  A received packet is its memory with the two readings of the clock made for it: when it is checked
  and when it is sampled. The cookie is cleared in the memory of a probe.
\<close>

type_synonym received = "u8 list \<times> u64 \<times> u64"

fun pktgen_tstamp_check ::
  "bool \<Rightarrow> latsampler_setup \<Rightarrow> u64 \<Rightarrow> (u64 \<Rightarrow> u64) \<Rightarrow> received list \<Rightarrow> latency \<times> latsamp_stats
   \<Rightarrow> (u8 list list \<times> latency \<times> latsamp_stats) option" where
  "pktgen_tstamp_check sampling ls hz poisson [] (lat, stats) = Some ([], lat, stats)"
| "pktgen_tstamp_check sampling ls hz poisson ((m, t1, t2) # ps) (lat, stats) =
     (if length m < pktgen_tstamp_pointer + 16 then None
      else let ts = drop pktgen_tstamp_pointer m in
        if get_le32 ts \<noteq> TSTAMP_MAGIC then
          map_option (\<lambda>(ms, r). (m # ms, r)) (pktgen_tstamp_check sampling ls hz poisson ps (lat, stats))
        else
          (let cycles = t1 - get_le64 (drop 8 ts);
               m1 = wr pktgen_tstamp_pointer (put_le32 0) m;
               (taken, lat1) = probe_received (get_le32 (drop 4 ts)) cycles lat
           in case (if taken = None \<or> \<not> sampling then Some stats else latency_sample ls hz poisson cycles t2 stats) of
                None \<Rightarrow> None
              | Some stats1 \<Rightarrow>
                  map_option (\<lambda>(ms, r). (m1 # ms, r)) (pktgen_tstamp_check sampling ls hz poisson ps (lat1, stats1))))"

subsection \<open>The sampler\<close>

text \<open>The commands that end with the construction of a packet act on all that a constructor changes.\<close>

definition with_pinfo :: "(port_info \<Rightarrow> port_info) \<Rightarrow> build \<Rightarrow> build" where
  "with_pinfo f b = b\<lparr>b_pinfo := f (b_pinfo b)\<rparr>"

text \<open>The queues of the port get an equal share of the samples; nothing happens where the code only reports an error.\<close>

definition pktgen_start_latency_sampler ::
  "build_env \<Rightarrow> l2p \<Rightarrow> latsampler_setup \<Rightarrow> build \<Rightarrow> latsamp_stats list \<Rightarrow> (build \<times> latsamp_stats list) option" where
  "pktgen_start_latency_sampler env t ls b stats =
     (let pinfo = b_pinfo b; rxq = l2p_get_rxcnt t (unat (p_pid pinfo)) in
      if pktgen_tst_port_flags SAMPLING_LATENCIES pinfo then Some (b, stats)
      else if latsamp_rate ls = 0 \<or> latsamp_type ls = LATSAMPLER_UNSPEC \<or> latsamp_num_samples ls = 0 then Some (b, stats)
      else if rxq = 0 \<or> rxq > MAX_QUEUES_PER_PORT then Some (b, stats)
      else
        (let stats1 = map (\<lambda>(q, s). if q < rxq
               then s\<lparr>ls_next := 0, ls_idx := 0, ls_num_samples := latsamp_num_samples ls div of_nat rxq\<rparr> else s)
               (enumerate 0 stats);
             pkt = seq_pkt pinfo ! LATENCY_PKT;
             size1 = (if pk_size pkt < (RTE_ETHER_MIN_LEN - RTE_ETHER_CRC_LEN) + 16 then pk_size pkt + 16 else pk_size pkt)
         in map_option (\<lambda>b1. (with_pinfo (pktgen_set_port_flags SAMPLING_LATENCIES) b1, stats1))
              (pktgen_packet_ctor env LATENCY_PKT (-1)
                (with_pinfo (upd_pkt LATENCY_PKT (\<lambda>p. p\<lparr>pk_size := size1, ipProto := PG_IPPROTO_UDP\<rparr>)) b))))"

text \<open>The samples written to the file, when it opens, and the state after.\<close>

definition pktgen_stop_latency_sampler ::
  "build_env \<Rightarrow> l2p \<Rightarrow> bool \<Rightarrow> build \<Rightarrow> latsamp_stats list \<Rightarrow> (u64 list option \<times> build \<times> latsamp_stats list) option" where
  "pktgen_stop_latency_sampler env t opens b stats =
     (let pinfo = b_pinfo b; rxq = l2p_get_rxcnt t (unat (p_pid pinfo)) in
      if \<not> pktgen_tst_port_flags SAMPLING_LATENCIES pinfo then Some (None, b, stats)
      else
        (let out = (if opens then Some (concat (map (\<lambda>s. take (unat (ls_idx s)) (ls_data s)) (take rxq stats))) else None);
             stats1 = map (\<lambda>(q, s). if q < rxq then s\<lparr>ls_next := 0, ls_idx := 0, ls_num_samples := 0\<rparr> else s)
               (enumerate 0 stats)
         in map_option (\<lambda>b1. (out, b1, stats1))
              (pktgen_packet_ctor env LATENCY_PKT (-1)
                (with_pinfo (\<lambda>p. upd_pkt LATENCY_PKT (\<lambda>k. k\<lparr>ipProto := PG_IPPROTO_UDP\<rparr>)
                                (pktgen_clr_port_flags SAMPLING_LATENCIES p)) b))))"

text \<open>\<open>strcasecmp\<close> against a name in lower case.\<close>

definition lower :: "char \<Rightarrow> char" where
  "lower c = (let n = of_char c :: nat in if 65 \<le> n \<and> n \<le> 90 then char_of (n + 32) else c)"

definition sampler_type :: "string \<Rightarrow> latsampler option" where
  "sampler_type ty =
     (if map lower ty = ''simple'' then Some LATSAMPLER_SIMPLE
      else if map lower ty = ''poisson'' then Some LATSAMPLER_POISSON else None)"

text \<open>\<open>strcpy\<close> into the 256 bytes of the member; no value when the name does not fit.\<close>

definition single_set_latsampler_params ::
  "build_env \<Rightarrow> string \<Rightarrow> u32 \<Rightarrow> u32 \<Rightarrow> string \<Rightarrow> bool \<Rightarrow> build \<Rightarrow> latsampler_setup \<Rightarrow> (build \<times> latsampler_setup) option" where
  "single_set_latsampler_params env ty num_samples sampling_rate outfile opens b ls =
     (if pktgen_tst_port_flags SAMPLING_LATENCIES (b_pinfo b) then Some (b, ls)
      else case sampler_type ty of None \<Rightarrow> Some (b, ls)
      | Some st \<Rightarrow>
          if \<not> opens then Some (b, ls)
          else if unat num_samples > MAX_LATENCY_ENTRIES then Some (b, ls)
          else if length outfile \<ge> 256 then None
          else map_option (\<lambda>b1. (b1, ls\<lparr>latsamp_type := st, latsamp_rate := sampling_rate,
                  latsamp_num_samples := num_samples, latsamp_outfile := outfile\<rparr>))
                 (pktgen_packet_ctor env SINGLE_PKT (-1) b))"

section \<open>The ring\<close>

text \<open>The ring after the latencies \<open>vs\<close>: each of the last \<open>RING_SIZE\<close> at its place.\<close>

definition ring_of :: "u64 list \<Rightarrow> latency_ring \<Rightarrow> bool" where
  "ring_of vs ring \<longleftrightarrow>
     length (ring_data ring) = RING_SIZE \<and> ring_count ring = min (length vs) RING_SIZE \<and>
     ring_head ring = length vs mod RING_SIZE \<and>
     (\<forall>i. length vs \<le> i + RING_SIZE \<and> i < length vs \<longrightarrow> ring_data ring ! (i mod RING_SIZE) = vs ! i)"

lemma ring_of_empty: "ring_of [] empty_ring"
  by (simp add: ring_of_def empty_ring_def RING_SIZE_def)

lemma mod_window: "i < n \<Longrightarrow> n \<le> i + k \<Longrightarrow> i mod k = n mod k \<Longrightarrow> n = i + k" for i n k :: nat
  by (metis add_diff_inverse_nat dvd_imp_le le_antisym less_imp_le_nat linorder_not_less mod_eq_dvd_iff_nat
      nat_add_left_cancel_le zero_less_diff)

lemma ring_of_insert:
  assumes "ring_of vs ring"
  shows "ring_of (vs @ [v]) (latency_ring_insert ring v)"
proof -
  let ?n = "length vs"
  have r: "length (ring_data ring) = 1024" "ring_count ring = min ?n 1024" "ring_head ring = ?n mod 1024"
    and data: "\<And>i. ?n \<le> i + 1024 \<Longrightarrow> i < ?n \<Longrightarrow> ring_data ring ! (i mod 1024) = vs ! i"
    using assms by (auto simp: ring_of_def RING_SIZE_def)
  have "(ring_data ring)[?n mod 1024 := v] ! (i mod 1024) = (vs @ [v]) ! i"
    if "?n + 1 \<le> i + 1024" "i < ?n + 1" for i
  proof (cases "i = ?n")
    case True
    then show ?thesis using r(1) by simp
  next
    case False
    then have "i mod 1024 \<noteq> ?n mod 1024" using that mod_window [of i ?n 1024] by auto
    then show ?thesis using that False data [of i] by (simp add: nth_append)
  qed
  then show ?thesis using r
    by (auto simp: ring_of_def latency_ring_insert_def RING_SIZE_def mod_Suc)
qed

section \<open>The statistics of a sequence of probes\<close>

text \<open>The probes among the received packets, with index and latency, and the latencies that count: a probe out
  of turn is skipped, and the next one expected is its successor.\<close>

definition probes :: "received list \<Rightarrow> (u32 \<times> u64) list" where
  "probes rs =
     map (\<lambda>(m, t1, t2). let ts = drop pktgen_tstamp_pointer m in (get_le32 (drop 4 ts), t1 - get_le64 (drop 8 ts)))
       (filter (\<lambda>(m, t1, t2). get_le32 (drop pktgen_tstamp_pointer m) = TSTAMP_MAGIC) rs)"

fun accepted :: "u32 \<Rightarrow> (u32 \<times> u64) list \<Rightarrow> u64 list" where
  "accepted e [] = []"
| "accepted e ((i, c) # ps) = (if i = e then c # accepted (e + 1) ps else accepted (i + 1) ps)"

definition distance :: "u64 \<Rightarrow> u64 \<Rightarrow> u64" where
  "distance a b = (if b > a then b - a else a - b)"

definition jitters :: "u64 \<Rightarrow> u64 list \<Rightarrow> nat" where
  "jitters thr cs = length (filter (\<lambda>(a, b). distance a b > thr) (zip (0 # cs) cs))"

definition summary :: "latency \<Rightarrow> u64 list \<Rightarrow> bool" where
  "summary lat cs \<longleftrightarrow>
     num_latency_pkts lat = of_nat (length cs) \<and> running_cycles lat = sum_list cs \<and>
     ring_of cs (tail_latencies lat) \<and> prev_cycles lat = last (0 # cs) \<and>
     max_cycles lat = fold max cs 0 \<and> (0 \<notin> set cs \<and> cs \<noteq> [] \<longrightarrow> min_cycles lat = Min (set cs)) \<and>
     (cs = [] \<longrightarrow> min_cycles lat = 0) \<and>
     jitter_count lat = of_nat (jitters (jitter_threshold_cycles lat) cs)"

lemma zip_prev_snoc: "zip (a # cs @ [c]) (cs @ [c]) = zip (a # cs) cs @ [(last (a # cs), c)]"
  by (induction cs arbitrary: a) auto

lemma jitters_snoc: "jitters thr (cs @ [c]) = jitters thr cs + (if distance (last (0 # cs)) c > thr then 1 else 0)"
  by (simp add: jitters_def zip_prev_snoc)

lemma summary_clear: "summary (clear_latency_stats lat) []"
  by (simp add: summary_def clear_latency_stats_def ring_of_empty jitters_def)

lemma min_step:
  assumes "summary lat cs" and "i = expect_index lat" and "0 \<notin> set (cs @ [c])"
  shows "min_cycles (snd (probe_received i c lat)) = Min (set (cs @ [c]))"
proof (cases "cs = []")
  case True
  then show ?thesis using assms by (simp add: summary_def probe_received_def Let_def)
next
  case False
  define M where "M = Min (set cs)"
  have "M \<in> set cs" unfolding M_def using False by simp
  then have "M \<noteq> 0" using assms(3) by auto
  moreover have "min_cycles lat = M" using assms(1,3) False by (simp add: summary_def M_def)
  moreover have "Min (set (cs @ [c])) = min c M" using False by (simp add: M_def)
  ultimately show ?thesis using assms(2) by (auto simp: probe_received_def Let_def min_def)
qed

lemma summary_step:
  assumes "summary lat cs" and "i = expect_index lat"
  shows "summary (snd (probe_received i c lat)) (cs @ [c])"
proof -
  have "jitter_count (snd (probe_received i c lat)) = of_nat (jitters (jitter_threshold_cycles lat) (cs @ [c]))"
    using assms by (simp add: summary_def probe_received_def Let_def jitters_snoc distance_def del: last.simps)
  with assms min_step [OF assms] show ?thesis
    by (auto simp: summary_def probe_received_def Let_def ring_of_insert max_def word_gt_0)
qed

lemma probe_received_skip:
  "i \<noteq> expect_index lat \<Longrightarrow> probe_received i c lat = (None, lat\<lparr>expect_index := i + 1, num_skipped := num_skipped lat + 1\<rparr>)"
  by (simp add: probe_received_def)

lemma length_accepted: "length (accepted e ps) \<le> length ps"
  by (induction e ps rule: accepted.induct) auto

lemma summary_probes:
  assumes "summary lat cs"
  shows "summary (foldl (\<lambda>l (i, c). snd (probe_received i c l)) lat ps) (cs @ accepted (expect_index lat) ps) \<and>
     num_skipped (foldl (\<lambda>l (i, c). snd (probe_received i c l)) lat ps)
       = num_skipped lat + of_nat (length ps - length (accepted (expect_index lat) ps))"
  using assms
proof (induction ps arbitrary: lat cs)
  case (Cons p ps)
  obtain i c where p: "p = (i, c)" by (rule prod.exhaust)
  show ?case
  proof (cases "i = expect_index lat")
    case True
    then have "expect_index (snd (probe_received i c lat)) = expect_index lat + 1"
      and "num_skipped (snd (probe_received i c lat)) = num_skipped lat"
      by (simp_all add: probe_received_def Let_def)
    then show ?thesis using Cons.IH [OF summary_step [OF Cons.prems True, of c]] True by (simp add: p)
  next
    case False
    have "summary (snd (probe_received i c lat)) cs"
      using Cons.prems by (simp add: probe_received_skip [OF False] summary_def)
    moreover have "of_nat (Suc (length ps) - length (accepted (i + 1) ps)) = (1 :: u64) + of_nat (length ps - length (accepted (i + 1) ps))"
      using length_accepted [of "i + 1" ps] by (simp add: Suc_diff_le)
    ultimately show ?thesis using Cons.IH [of "snd (probe_received i c lat)" cs] False
      by (auto simp: p probe_received_skip [OF False])
  qed
qed simp

lemma threshold_kept:
  "jitter_threshold_cycles (foldl (\<lambda>l (i, c). snd (probe_received i c l)) lat ps) = jitter_threshold_cycles lat"
proof (induction ps arbitrary: lat)
  case (Cons p ps)
  have "jitter_threshold_cycles (snd (probe_received i c lat)) = jitter_threshold_cycles lat" for i c
    by (simp add: probe_received_def Let_def)
  then show ?case using Cons.IH [unfolded split_beta] by (simp add: split_beta)
qed simp

text \<open>A sampler never stores beyond its array as long as no more samples are asked for than fit.\<close>

definition sampler_fits :: "latsamp_stats \<Rightarrow> bool" where
  "sampler_fits st \<longleftrightarrow> unat (ls_num_samples st) \<le> length (ls_data st)"

lemma latency_sample_fits:
  assumes "sampler_fits st"
  shows "\<exists>st1. latency_sample ls hz poisson c now st = Some st1 \<and> sampler_fits st1"
  using assms by (auto simp: latency_sample_def sampler_fits_def Let_def word_less_nat_alt)

lemma tstamp_check_latency:
  assumes "\<forall>(m, t1, t2) \<in> set rs. 64 \<le> length m" and "sampler_fits st"
  shows "\<exists>ms st1. pktgen_tstamp_check sampling ls hz poisson rs (lat, st) =
      Some (ms, foldl (\<lambda>l (i, c). snd (probe_received i c l)) lat (probes rs), st1) \<and> sampler_fits st1"
  using assms
proof (induction rs arbitrary: lat st)
  case (Cons r rs)
  obtain m t1 t2 where r: "r = (m, t1, t2)" by (rule prod_cases3)
  have p: "pktgen_tstamp_pointer = 48" by (simp add: pktgen_tstamp_pointer_def)
  have len: "64 \<le> length m" "\<forall>(m, t1, t2) \<in> set rs. 64 \<le> length m" using Cons.prems(1) by (auto simp: r)
  show ?case
  proof (cases "get_le32 (drop 48 m) = TSTAMP_MAGIC")
    case False
    then show ?thesis using Cons.IH [OF len(2) Cons.prems(2), of lat] len(1) by (auto simp: r p probes_def)
  next
    case True
    let ?c = "t1 - get_le64 (drop 56 m)" and ?i = "get_le32 (drop 52 m)"
    obtain taken lat1 where pr: "probe_received ?i ?c lat = (taken, lat1)" by (rule prod.exhaust)
    obtain st1 where st1: "(if taken = None \<or> \<not> sampling then Some st else latency_sample ls hz poisson ?c t2 st) = Some st1"
      "sampler_fits st1" using latency_sample_fits [OF Cons.prems(2), of ls hz poisson ?c t2] Cons.prems(2)
      by (cases "taken = None \<or> \<not> sampling") auto
    have "probes (r # rs) = (?i, ?c) # probes rs" using True by (simp add: probes_def r p Let_def)
    then show ?thesis using Cons.IH [OF len(2) st1(2), of lat1] len(1) True st1(1) pr
      by (auto simp: r p Let_def)
  qed
qed (simp add: probes_def)

text \<open>
  C32 Latency statistics: from cleared statistics, the check of received packets always returns, and
  leaves what the latencies of the probes received in turn say: their number, sum, minimum, maximum
  and last one, the last 1024 of them in the ring, and the count of the jumps over the jitter
  threshold (the first latency being taken as a jump from zero); the other probes are counted as skipped.
\<close>

theorem latency_statistics:
  assumes "\<forall>(m, t1, t2) \<in> set rs. 64 \<le> length m" and "sampler_fits st"
  shows "\<exists>ms lat1 st1. pktgen_tstamp_check sampling ls hz poisson rs (clear_latency_stats lat, st) = Some (ms, lat1, st1)
    \<and> sampler_fits st1 \<and> summary lat1 (accepted 0 (probes rs))
    \<and> num_skipped lat1 = of_nat (length (probes rs) - length (accepted 0 (probes rs)))
    \<and> jitter_threshold_cycles lat1 = jitter_threshold_cycles lat"
  using tstamp_check_latency [OF assms, of sampling ls hz poisson "clear_latency_stats lat"]
    summary_probes [OF summary_clear [of lat], of "probes rs"] threshold_kept [of "clear_latency_stats lat" "probes rs"]
  by (auto simp: clear_latency_stats_def)


text \<open>A received probe, and a port that never measured anything.\<close>

definition probe_mem :: "u32 \<Rightarrow> u64 \<Rightarrow> u8 list" where
  "probe_mem index ts = replicate 48 0 @ tstamp_bytes index ts"

definition no_latency :: latency where
  "no_latency = \<lparr>latency_rate_us = 0, jitter_threshold_us = 0, jitter_threshold_cycles = 10, latency_rate_cycles = 0,
     latency_timo_cycles = 0, latency_entropy = 0, jitter_count = 0, num_latency_pkts = 0, num_latency_tx_pkts = 0,
     num_skipped = 0, running_cycles = 0, prev_cycles = 0, min_cycles = 0, avg_cycles = 0, max_cycles = 0,
     next_index = 0, expect_index = 0, tail_latencies = empty_ring\<rparr>"

definition no_samples :: latsamp_stats where
  "no_samples = \<lparr>ls_data = [], ls_idx = 0, ls_num_samples = 0, ls_next = 0\<rparr>"

definition simple_setup :: latsampler_setup where
  "simple_setup = \<lparr>latsamp_type = LATSAMPLER_SIMPLE, latsamp_rate = 1000, latsamp_num_samples = 100, latsamp_outfile = []\<rparr>"

lemma length_probe_mem [simp]: "length (probe_mem i t) = 64"
  by (simp add: probe_mem_def tstamp_bytes_def put_le64_def bytes_simps)

lemma latency_statistics_witness:
  "\<exists>ms lat1 st1. pktgen_tstamp_check False simple_setup 1000 id
       [(probe_mem 0 100, 130, 0), (probe_mem 2 200, 260, 0), (probe_mem 3 300, 320, 0)]
       (clear_latency_stats no_latency, no_samples) = Some (ms, lat1, st1)
     \<and> num_skipped lat1 = 1 \<and> max_cycles lat1 = 30 \<and> min_cycles lat1 = 20 \<and> jitter_count lat1 = 1"
proof -
  let ?rs = "[(probe_mem 0 100, 130, 0), (probe_mem 2 200, 260, 0), (probe_mem 3 300, 320, 0)] :: received list"
  have e: "accepted 0 (probes ?rs) = [30, 20]" "length (probes ?rs) = 3" by code_simp+
  have j: "jitters 10 [30, 20] = 1" by code_simp
  from latency_statistics [of ?rs no_samples False simple_setup 1000 id no_latency]
  obtain ms lat1 st1 where r: "pktgen_tstamp_check False simple_setup 1000 id ?rs
      (clear_latency_stats no_latency, no_samples) = Some (ms, lat1, st1)"
    and "summary lat1 [30, 20]" "num_skipped lat1 = 1" "jitter_threshold_cycles lat1 = 10"
    unfolding e by (auto simp: sampler_fits_def no_samples_def no_latency_def)
  then show ?thesis using j by (intro exI [of _ ms] exI [of _ lat1] exI [of _ st1]) (simp add: summary_def)
qed

section \<open>Intervals\<close>

lemma unat_ucast_32_64_le: "unat (ucast v :: u64) = unat v" for v :: u32
  by simp

text \<open>
  Interval of the probes: the number of cycles is never less than the requested microseconds make, and is
  that number when the rate divides a second; but every rate over half a second gives a whole
  second, since the number of probes in a second is rounded down first.
\<close>

lemma latency_rate_interval:
  assumes "v \<noteq> 0" and "unat v \<le> 1000000"
  shows "unat (latency_rate_us (latency_set_rate hz v lat)) = unat v \<and>
    unat hz * unat v div 1000000 \<le> unat (latency_rate_cycles (latency_set_rate hz v lat)) \<and>
    (unat v dvd 1000000 \<longrightarrow> unat (latency_rate_cycles (latency_set_rate hz v lat)) = unat hz * unat v div 1000000) \<and>
    (500000 < unat v \<longrightarrow> latency_rate_cycles (latency_set_rate hz v lat) = hz)"
proof -
  define n where "n = unat v"
  define k where "k = 1000000 div n"
  have n: "0 < n" "n \<le> 1000000" using assms by (simp_all add: n_def unat_gt_0)
  have small: "\<not> v > MAX_LATENCY_RATE" using assms(2) by (simp add: MAX_LATENCY_RATE_def word_less_nat_alt)
  have c: "unat (latency_rate_cycles (latency_set_rate hz v lat)) = unat hz div k"
    and us: "unat (latency_rate_us (latency_set_rate hz v lat)) = n"
    using assms(1) small by (simp_all add: latency_set_rate_def Let_def unat_div MAX_LATENCY_RATE_def n_def k_def)
  have k: "0 < k" "k * n \<le> 1000000" using n by (simp_all add: k_def div_greater_zero_iff)
  have "unat hz * n div 1000000 \<le> unat hz * n div (k * n)" using n k by (intro div_le_mono2) auto
  also have "\<dots> = unat hz div k" using n by simp
  finally have le: "unat hz * n div 1000000 \<le> unat hz div k" .
  have eq: "unat hz div k = unat hz * n div 1000000" if "n dvd 1000000"
  proof -
    have "k * n = 1000000" using that by (simp add: k_def)
    then show ?thesis using n by (metis div_mult_mult2 less_irrefl)
  qed
  have one: "k = 1" if "500000 < n" using that n by (simp add: k_def div_nat_eqI)
  show ?thesis using c us le eq one by (auto simp: n_def [symmetric] word_unat_eq_iff)
qed

lemma latency_rate_interval_witness:
  "latency_rate_cycles (latency_set_rate 1000000000 600000 no_latency) = 1000000000
   \<and> unat (latency_rate_cycles (latency_set_rate 1000000000 250 no_latency)) = 250000"
  using latency_rate_interval [of 600000 1000000000 no_latency] latency_rate_interval [of 250 1000000000 no_latency]
  by simp

text \<open>
  The sampler: with a rate of two or more samples in a second, and a clock that has run for more than a second,
  the time for the next sample lies in the past: every probe is taken as a sample until
  the array of the queue is full.
\<close>

lemma sampler_takes_every_probe:
  assumes "latsamp_type ls \<noteq> LATSAMPLER_POISSON" and "2 \<le> latsamp_rate ls"
    and "unat now + unat hz < 2 ^ 64" and "hz \<le> now" and "now \<le> now1"
    and "ls_next st = 0 \<or> ls_next st \<le> now" and "latency_sample ls hz poisson c now st = Some st1"
    and "sampler_fits st1" and "ls_idx st1 < ls_num_samples st1"
  shows "\<exists>st2. latency_sample ls hz poisson c1 now1 st1 = Some st2 \<and> ls_idx st2 = ls_idx st1 + 1"
proof -
  have "ls_next st1 = (now + hz) div ucast (latsamp_rate ls)"
    using assms(1,6,7) by (auto simp: latency_sample_def Let_def split: if_splits)
  then have "unat (ls_next st1) = (unat now + unat hz) div unat (latsamp_rate ls)"
    using assms(3) by (simp add: unat_div unat_add_no_wrap)
  also have "\<dots> \<le> (unat now + unat hz) div 2" using assms(2) by (intro div_le_mono2) (simp_all add: word_le_nat_alt)
  also have "\<dots> \<le> unat now1" using assms(4,5) by (simp add: word_le_nat_alt)
  finally have "ls_next st1 \<le> now1" by (simp add: word_le_nat_alt)
  moreover have "\<not> unat (ls_idx st1) \<ge> length (ls_data st1)"
    using assms(8,9) by (simp add: sampler_fits_def word_less_nat_alt)
  ultimately show ?thesis using assms(9) by (simp add: latency_sample_def Let_def)
qed

lemma sampler_takes_every_probe_witness:
  "\<exists>st2. latency_sample simple_setup 1000 id 7 5001
      \<lparr>ls_data = [5000000, 0, 0], ls_idx = 1, ls_num_samples = 3, ls_next = 6\<rparr> = Some st2 \<and> ls_idx st2 = 2"
  using sampler_takes_every_probe [of simple_setup 5000 1000 5001 "\<lparr>ls_data = [0, 0, 0], ls_idx = 0, ls_num_samples = 3, ls_next = 0\<rparr>"
      id 5 "\<lparr>ls_data = [5000000, 0, 0], ls_idx = 1, ls_num_samples = 3, ls_next = 6\<rparr>" 7]
  by (simp add: simple_setup_def latency_sample_def sampler_fits_def Billion_def Let_def)

section \<open>Percentiles\<close>

lemma insert_cmp_insort: "insert_cmp cmp_uint64_asc x ys = insort x ys"
  by (induction ys) (auto simp: cmp_uint64_asc_def)

lemma qsort_sort: "qsort cmp_uint64_asc xs = sort xs"
  by (induction xs) (simp_all add: qsort_def insert_cmp_insort)

text \<open>The ring holds the last values, in some order.\<close>

definition last_values :: "u64 list \<Rightarrow> u64 list" where
  "last_values vs = drop (length vs - RING_SIZE) vs"

lemma mset_mod_window: "mset (map (\<lambda>i. i mod k) [a..<a + k]) = mset [0..<k]" if "0 < k"
proof (induction a)
  case 0
  have "map (\<lambda>i. i mod k) [0..<k] = [0..<k]" by (rule map_idI) simp
  then show ?case by simp
next
  case (Suc a)
  have "[a..<a + k] = a # [Suc a..<a + k]" and "[Suc a..<Suc a + k] = [Suc a..<a + k] @ [a + k]"
    using that by (simp_all add: upt_conv_Cons)
  then have "mset (map (\<lambda>i. i mod k) [Suc a..<Suc a + k]) = mset (map (\<lambda>i. i mod k) [a..<a + k])" by simp
  then show ?case using Suc by simp
qed

lemma ring_contents:
  assumes "ring_of vs ring"
  shows "mset (take (ring_count ring) (ring_data ring)) = mset (last_values vs)"
proof -
  let ?n = "length vs" and ?d = "ring_data ring"
  have len: "length ?d = 1024" and cnt: "ring_count ring = min ?n 1024"
    and data: "\<And>i. ?n \<le> i + 1024 \<Longrightarrow> i < ?n \<Longrightarrow> ?d ! (i mod 1024) = vs ! i"
    using assms by (auto simp: ring_of_def RING_SIZE_def)
  show ?thesis
  proof (cases "?n \<le> 1024")
    case True
    then have "take ?n ?d = vs" using len data by (intro nth_equalityI) auto
    then show ?thesis using True by (simp add: cnt last_values_def RING_SIZE_def)
  next
    case False
    define a where "a = ?n - 1024"
    have n: "?n = a + 1024" using False by (simp add: a_def)
    have "drop a vs = map (\<lambda>i. ?d ! (i mod 1024)) [a..<a + 1024]"
      using n data by (intro nth_equalityI) auto
    also have "\<dots> = map ((!) ?d) (map (\<lambda>i. i mod 1024) [a..<a + 1024])" by simp
    finally have "mset (drop a vs) = image_mset ((!) ?d) (mset [0..<1024])"
      using mset_mod_window [of 1024 a] by (simp only: mset_map)
    also have "\<dots> = mset ?d" using len by (metis map_nth mset_map)
    finally show ?thesis using False len by (simp add: cnt last_values_def RING_SIZE_def a_def)
  qed
qed

text \<open>Rounding to a double is monotone and keeps the integers up to \<open>2^53\<close>.\<close>

definition double_rounding :: "(rat \<Rightarrow> rat) \<Rightarrow> bool" where
  "double_rounding fl \<longleftrightarrow> mono fl \<and> (\<forall>n :: nat. n \<le> 2 ^ 53 \<longrightarrow> fl (of_nat n) = of_nat n)"

lemma double_rounding_between:
  assumes "double_rounding fl" and "0 \<le> x" and "x \<le> of_nat n" and "n \<le> 2 ^ 53"
  shows "0 \<le> fl x" and "fl x \<le> of_nat n"
proof -
  have "fl (of_nat 0) = of_nat 0" "fl (of_nat n) = of_nat n"
    using assms(1,4) unfolding double_rounding_def by blast+
  then have "fl 0 = 0" "fl (of_nat n) = of_nat n" and "mono fl" using assms(1) by (simp_all add: double_rounding_def)
  then show "0 \<le> fl x" "fl x \<le> of_nat n" using assms(2,3) by (metis monoD)+
qed

lemma count_le_sorted: "sorted xs \<Longrightarrow> i < length xs \<Longrightarrow> xs ! i \<le> p \<Longrightarrow> i < length (filter (\<lambda>v. v \<le> p) xs)"
proof -
  assume xs: "sorted xs" "i < length xs" "xs ! i \<le> p"
  have "\<forall>v \<in> set (take (Suc i) xs). v \<le> p"
    using xs(2,3) sorted_nth_mono [OF xs(1), of _ i] by (fastforce simp: in_set_conv_nth less_Suc_eq_le)
  then have "length (filter (\<lambda>v. v \<le> p) (take (Suc i) xs)) = Suc i" using xs(2) by simp
  moreover have "filter (\<lambda>v. v \<le> p) xs = filter (\<lambda>v. v \<le> p) (take (Suc i) xs) @ filter (\<lambda>v. v \<le> p) (drop (Suc i) xs)"
    by (metis append_take_drop_id filter_append)
  ultimately show ?thesis by simp
qed

lemma count_less_sorted:
  assumes "sorted xs" and "k < length xs \<Longrightarrow> p \<le> xs ! k"
  shows "length (filter (\<lambda>v. v < p) xs) \<le> k"
proof -
  have "\<not> v < p" if v: "v \<in> set (drop k xs)" for v
  proof -
    obtain j where "j < length (drop k xs)" "drop k xs ! j = v" using v unfolding in_set_conv_nth by blast
    then have "v = xs ! (k + j)" "k + j < length xs" by auto
    then show ?thesis using assms sorted_nth_mono [OF assms(1), of k "k + j"] by auto
  qed
  then have "filter (\<lambda>v. v < p) (drop k xs) = []" by (simp add: filter_empty_conv)
  moreover have "filter (\<lambda>v. v < p) xs = filter (\<lambda>v. v < p) (take k xs) @ filter (\<lambda>v. v < p) (drop k xs)"
    by (metis append_take_drop_id filter_append)
  moreover have "length (filter (\<lambda>v. v < p) (take k xs)) \<le> k"
    by (rule order_trans [OF length_filter_le]) simp
  ultimately show ?thesis by simp
qed

lemma length_filter_mset: "mset xs = mset ys \<Longrightarrow> length (filter P xs) = length (filter P ys)"
  by (metis mset_filter size_mset)

text \<open>The interpolation stays between its two neighbours.\<close>

lemma interpolation_between:
  fixes a b :: u64
  assumes "double_rounding fl" and "a \<le> b" and "unat (b - a) \<le> 2 ^ 53" and "0 \<le> part" and "part \<le> 1"
  shows "a \<le> a + of_int \<lfloor>fl (fl (of_nat (unat (b - a))) * part)\<rfloor>"
    and "a + of_int \<lfloor>fl (fl (of_nat (unat (b - a))) * part)\<rfloor> \<le> b"
proof -
  define d where "d = unat (b - a)"
  have fd: "fl (of_nat d) = of_nat d" using assms(1,3) by (auto simp: double_rounding_def d_def)
  have "d \<le> 2 ^ 53" using assms(3) by (simp add: d_def)
  moreover have "0 \<le> of_nat d * part" "of_nat d * part \<le> of_nat d" using assms(4,5) by (simp_all add: mult_left_le)
  ultimately have r: "0 \<le> fl (of_nat d * part)" "fl (of_nat d * part) \<le> of_nat d"
    using double_rounding_between [OF assms(1), of "of_nat d * part" d] by blast+
  define k where "k = nat \<lfloor>fl (of_nat d * part)\<rfloor>"
  have k: "k \<le> d" "\<lfloor>fl (of_nat d * part)\<rfloor> = int k"
    using r by (simp_all add: k_def nat_le_iff floor_le_iff) (linarith+)?
  have "unat b = unat a + d" using assms(2) by (simp add: d_def unat_sub word_le_nat_alt)
  then have "unat (a + of_nat k) = unat a + k"
    using k(1) unat_less_2p64 [of b] by (simp add: unat_add_no_wrap unat_of_nat_small)
  then show "a \<le> a + of_int \<lfloor>fl (fl (of_nat (unat (b - a))) * part)\<rfloor>"
    and "a + of_int \<lfloor>fl (fl (of_nat (unat (b - a))) * part)\<rfloor> \<le> b"
    using k \<open>unat b = unat a + d\<close> fd by (simp_all add: d_def word_le_nat_alt)
qed

text \<open>
  Percentiles: of the last latencies, the position that the quantile names and one more are not above the value
  the page shows, and no more than these are below it.
\<close>

lemma percentile_of_ring:
  assumes "ring_of vs ring" and "vs \<noteq> []" and "double_rounding fl" and "0 \<le> q" and "q \<le> 1"
    and "\<forall>v \<in> set vs. unat v \<le> 2 ^ 53"
  shows "nat \<lfloor>fl (q * of_nat (ring_count ring - 1))\<rfloor> < length (filter (\<lambda>v. v \<le> latency_ring_percentile fl ring q) (last_values vs))
    \<and> length (filter (\<lambda>v. v < latency_ring_percentile fl ring q) (last_values vs))
        \<le> nat \<lfloor>fl (q * of_nat (ring_count ring - 1))\<rfloor> + 1"
proof -
  define c where "c = ring_count ring"
  define tmp where "tmp = sort (take c (ring_data ring))"
  define pos where "pos = fl (q * of_nat (c - 1))"
  define idx where "idx = nat \<lfloor>pos\<rfloor>"
  have c: "0 < c" "c \<le> 1024" and len: "length tmp = c"
    using assms(1,2) by (auto simp: ring_of_def RING_SIZE_def c_def tmp_def)
  have ms: "mset tmp = mset (last_values vs)" using ring_contents [OF assms(1)] by (simp add: tmp_def c_def)
  have sorted: "sorted tmp" by (simp add: tmp_def)
  have "q * of_nat (c - 1) \<le> of_nat (c - 1)" using assms(4,5) by (simp add: mult_left_le_one_le)
  then have pos: "0 \<le> pos" "pos \<le> of_nat (c - 1)"
    using double_rounding_between [OF assms(3), of "q * of_nat (c - 1)" "c - 1"] assms(4) c by (simp_all add: pos_def)
  then have "of_nat idx = (of_int \<lfloor>pos\<rfloor> :: rat)" by (simp add: idx_def)
  then have idx: "of_nat idx \<le> pos" "pos < of_nat idx + 1" by linarith+
  then have "(of_nat idx :: rat) \<le> of_nat (c - 1)" using pos(2) by linarith
  then have "idx \<le> c - 1" by (simp only: of_nat_le_iff)
  then have ic: "idx < c" using c(1) by linarith
  have part: "0 \<le> fl (pos - of_nat idx)" "fl (pos - of_nat idx) \<le> 1"
    using double_rounding_between [OF assms(3), of "pos - of_nat idx" 1] idx by simp_all
  let ?P = "latency_ring_percentile fl ring q"
  have P: "?P = (if idx + 1 < c then tmp ! idx + of_int \<lfloor>fl (fl (of_nat (unat (tmp ! (idx + 1) - tmp ! idx))) * fl (pos - of_nat idx))\<rfloor>
      else tmp ! idx)"
    using c(1) by (simp add: latency_ring_percentile_def qsort_sort Let_def c_def tmp_def pos_def idx_def)
  have sub: "v \<in> set tmp \<Longrightarrow> unat v \<le> 2 ^ 53" for v
    using mset_eq_setD [OF ms] assms(6) set_drop_subset [of _ vs] by (auto simp: last_values_def)
  have between: "tmp ! idx \<le> ?P \<and> (idx + 1 < c \<longrightarrow> ?P \<le> tmp ! (idx + 1))"
  proof (cases "idx + 1 < c")
    case True
    have le: "tmp ! idx \<le> tmp ! (idx + 1)" using sorted_nth_mono [OF sorted] True len by simp
    then have "unat (tmp ! (idx + 1) - tmp ! idx) \<le> 2 ^ 53"
      using sub [OF nth_mem, of "idx + 1"] True len by (simp add: unat_sub word_le_nat_alt)
    from interpolation_between [OF assms(3) le this part] show ?thesis using True by (simp add: P)
  qed (simp add: P)
  have "idx < length (filter (\<lambda>v. v \<le> ?P) tmp)"
    using count_le_sorted [OF sorted] between ic len by simp
  moreover have "length (filter (\<lambda>v. v < ?P) tmp) \<le> idx + 1"
    using count_less_sorted [OF sorted, of "idx + 1" ?P] between len by simp
  ultimately show ?thesis
    by (simp add: length_filter_mset [OF ms] idx_def pos_def c_def)
qed

lemma percentile_of_ring_example:
  "\<exists>ring. ring_of [50, 10, 40, 20, 30] ring \<and>
     3 < length (filter (\<lambda>v. v \<le> latency_ring_percentile id ring (9 / 10)) [50, 10, 40, 20, 30])"
proof -
  let ?vs = "[50, 10, 40, 20, 30] :: u64 list"
  obtain ring where ring: "ring_of ?vs ring"
    using ring_of_insert [OF ring_of_insert [OF ring_of_insert [OF ring_of_insert [OF ring_of_insert [OF ring_of_empty]]]]]
    by (metis append_Cons append_Nil)
  have "double_rounding id" by (simp add: double_rounding_def mono_def)
  moreover have "ring_count ring = 5" using ring by (simp add: ring_of_def RING_SIZE_def)
  moreover have "last_values ?vs = ?vs" by (simp add: last_values_def RING_SIZE_def)
  moreover have "nat \<lfloor>18 / 5 :: rat\<rfloor> = 3" using floor_eq_iff [of "18 / 5 :: rat" 3] by simp
  ultimately have "3 < length (filter (\<lambda>v. v \<le> latency_ring_percentile id ring (9 / 10)) ?vs)"
    using percentile_of_ring [OF ring, of id "9 / 10"] by (simp del: filter.simps)
  with ring show ?thesis by blast
qed

section \<open>Probes on the wire\<close>

text \<open>What is written below an offset leaves the bytes from there on.\<close>

definition keeps_from :: "nat \<Rightarrow> u8 list \<Rightarrow> u8 list \<Rightarrow> bool" where
  "keeps_from n m m' \<longleftrightarrow> length m' = length m \<and> drop n m' = drop n m"

lemma keeps_from_refl [simp]: "keeps_from n m m"
  by (simp add: keeps_from_def)

lemma keeps_from_wr [simp]:
  "keeps_from n m m' \<Longrightarrow> i + length bs \<le> n \<Longrightarrow> n \<le> length m \<Longrightarrow> keeps_from n m (wr i bs m')"
  by (simp add: keeps_from_def wr_drop)

lemma keeps_from_ipv4_partial [simp]:
  "keeps_from n m m' \<Longrightarrow> ip + 20 \<le> n \<Longrightarrow> n \<le> length m \<Longrightarrow> keeps_from n m (ipv4_partial pkt ip m')"
  by (simp add: ipv4_partial_def Let_def)

lemma keeps_from_udp:
  assumes "pktgen_udp_hdr_ctor pkt ip RTE_ETHER_TYPE_IPV4 o1 o2 m' = Some m''" and "keeps_from n m m'" and "ip + 28 \<le> n"
    and "n \<le> length m" and "pk_dport pkt \<noteq> VXLAN_PORT_ID"
  shows "keeps_from n m m''"
  using assms by (auto simp: pktgen_udp_hdr_ctor_def Let_def udp_hdr_def bytes_simps split: if_splits)

lemma keeps_from_ipv4:
  assumes "pktgen_ipv4_ctor pkt ident ip off m' = Some (m'', i)" and "keeps_from n m m'" and "ip + 20 \<le> n" and "n \<le> length m"
  shows "keeps_from n m m''"
  using assms by (auto simp: pktgen_ipv4_ctor_def ipv4_hdr_def Let_def bytes_simps split: if_splits)

lemma keeps_from_ipv4_packet:
  assumes "ipv4_packet env pinfo en ty ip ident pkt m' = Some (p, m'', i)" and "keeps_from n m m'" and "ip + 28 \<le> n"
    and "n \<le> length m" and "ipProto pkt = PG_IPPROTO_UDP" and "pk_dport pkt = LATENCY_DPORT"
    and "\<not> pktgen_tst_port_flags SEND_VXLAN_PACKETS pinfo"
  shows "keeps_from n m m''"
proof -
  have d: "pk_dport pkt \<noteq> VXLAN_PORT_ID" "pk_dport pkt \<noteq> PG_IPPROTO_L4_GTPU_PORT" "ipProto pkt \<noteq> PG_IPPROTO_TCP"
    using assms(5,6) by (simp_all add: LATENCY_DPORT_def VXLAN_PORT_ID_def PG_IPPROTO_L4_GTPU_PORT_def
        PG_IPPROTO_TCP_def PG_IPPROTO_UDP_def)
  obtain m1 where m1: "pktgen_udp_hdr_ctor pkt ip RTE_ETHER_TYPE_IPV4 (be_udp_offload env) (be_requires_phdr env) m' = Some m1"
    and fin: "pktgen_ipv4_ctor pkt ident ip (be_ipv4_offload env) m1 = Some (m'', i)"
    using assms(1,5,7) d by (auto simp: ipv4_packet_def Let_def split: option.splits)
  show ?thesis
    using keeps_from_ipv4 [OF fin keeps_from_udp [OF m1 assms(2-4) d(1)]] assms(3,4) by simp
qed

lemma get_put_le64 [simp]: "get_le64 (put_le64 x @ bs) = x"
proof -
  have "get_le64 (put_le64 x @ bs) = ucast (ucast x :: u32) OR push_bit 32 (ucast (ucast (drop_bit 32 x) :: u32))"
    by (simp add: get_le64_def put_le64_def get_put_le32 bytes_simps)
  also have "\<dots> = x" by (rule bit_word_eqI) (auto simp: bit_simps)
  finally show ?thesis .
qed

lemma tstamp_reads:
  "get_le32 (tstamp_bytes i t @ bs) = TSTAMP_MAGIC" "get_le32 (drop 4 (tstamp_bytes i t @ bs)) = i"
  "get_le64 (drop 8 (tstamp_bytes i t @ bs)) = t"
  by (simp_all add: tstamp_bytes_def bytes_simps)

lemma three_parts: "l3 + 40 \<le> length m \<Longrightarrow> drop l3 m = take 20 (drop l3 m) @ take 20 (drop (l3 + 20) m) @ drop (l3 + 40) m"
  for m :: "u8 list"
  using take_drop3 [of 20 "drop l3 m" 20] by (simp add: add.commute)

lemma ether_hdr_18: "\<not> pktgen_tst_port_flags SEND_Q_IN_Q_IDS pinfo \<Longrightarrow> fst (pktgen_ether_hdr_ctor pinfo pkt m) \<le> 18"
  by (simp add: pktgen_ether_hdr_ctor_def Let_def)

text \<open>What a template must be for the packet of a probe, and how the port must be set.\<close>

definition probe_template :: "pkt_seq \<Rightarrow> bool" where
  "probe_template pkt \<longleftrightarrow> wf_pkt pkt \<and> ethType pkt = RTE_ETHER_TYPE_IPV4 \<and> ipProto pkt = PG_IPPROTO_UDP
     \<and> pk_dport pkt = LATENCY_DPORT \<and> pk_size pkt = LATENCY_PKT_SIZE"

definition probe_port :: "build_env \<Rightarrow> port_info \<Rightarrow> bool" where
  "probe_port env pinfo \<longleftrightarrow> \<not> pktgen_tst_port_flags SEND_GRE_IPv4_HEADER pinfo \<and> \<not> pktgen_tst_port_flags SEND_GRE_ETHER_HEADER pinfo
     \<and> \<not> pktgen_tst_port_flags SEND_VXLAN_PACKETS pinfo \<and> \<not> pktgen_tst_port_flags SEND_Q_IN_Q_IDS pinfo
     \<and> \<not> be_ipv4_offload env \<and> \<not> be_tcp_offload env \<and> \<not> be_udp_offload env"

lemma probe_built:
  assumes i: "LATENCY_PKT < length (seq_pkt (b_pinfo b))" "LATENCY_PKT < length (b_hdr b)"
    and pkt: "pkt = seq_pkt (b_pinfo b) ! LATENCY_PKT" "probe_template pkt" and port: "probe_port env (b_pinfo b)"
    and fill: "pktgen_fill_pattern (if be_jumbo env then RTE_ETHER_MAX_JUMBO_FRAME_LEN else RTE_ETHER_MAX_LEN)
      (be_fill env) (be_user_pattern env) (b_hdr b ! LATENCY_PKT) = Some m0"
    and size: "64 \<le> length m0"
  shows "\<exists>b'. pktgen_packet_ctor env LATENCY_PKT ty b = Some b' \<and> b_next_index b' = b_next_index b + 1
    \<and> take 16 (drop 48 (b_hdr b' ! LATENCY_PKT)) = tstamp_bytes (b_next_index b) (be_time env)
    \<and> 64 \<le> length (b_hdr b' ! LATENCY_PKT)"
proof -
  let ?r = "randomize env (b_pinfo b) pkt" and ?ts = "tstamp_bytes (b_next_index b) (be_time env)"
  define m1 where "m1 = wr pktgen_tstamp_pointer ?ts m0"
  have r: "wf_pkt ?r" "ethType ?r = RTE_ETHER_TYPE_IPV4" "ipProto ?r = PG_IPPROTO_UDP" "pk_dport ?r = LATENCY_DPORT"
    "pk_size ?r = LATENCY_PKT_SIZE"
    using pkt(2) wf_randomize [of pkt env "b_pinfo b"] by (simp_all add: probe_template_def randomize_def Let_def)
  have tl: "length ?ts = 16" by (simp add: tstamp_bytes_def put_le64_def bytes_simps)
  have m1: "length m1 = length m0" "take 16 (drop 48 m1) = ?ts"
    using size tl wr_at [of 48 ?ts m0] by (simp_all add: m1_def pktgen_tstamp_pointer_def)
  have "22 \<le> length m1" using m1(1) size by simp
  from ether_hdr_layout [OF r(1) this, of "b_pinfo b"] obtain l3 E where
    l: "pktgen_ether_hdr_ctor (b_pinfo b) ?r m1 = (l3, ?r\<lparr>ether_hdr_size := of_nat l3\<rparr>, E @ drop l3 m1)"
    and E: "length E = l3" "14 \<le> l3" .
  have l3: "l3 \<le> 18" using ether_hdr_18 [of "b_pinfo b" ?r m1] port l by (simp add: probe_port_def)
  define en where "en = (if be_entropy env \<noteq> 0 then pk_sport pkt + ucast (b_next_index b mod ucast (be_entropy env)) else 0)"
  let ?q = "?r\<lparr>ether_hdr_size := of_nat l3\<rparr>" and ?X = "take 20 (drop l3 m1)" and ?T = "take 20 (drop (l3 + 20) m1)"
    and ?R = "drop (l3 + 40) m1"
  have parts: "drop l3 m1 = ?X @ ?T @ ?R" using l3 m1(1) size by (intro three_parts) simp
  have u: "unat (pk_size ?q) = 64" using r(5) by (simp add: LATENCY_PKT_SIZE_def RTE_ETHER_MIN_LEN_def)
  have "pk_dport ?q \<noteq> PG_IPPROTO_L4_GTPU_PORT" using r(4) by (simp add: LATENCY_DPORT_def PG_IPPROTO_L4_GTPU_PORT_def)
  then obtain p m2 n where P: "ipv4_packet env (b_pinfo b) en ty l3 (b_ident b) ?q (E @ drop l3 m1) = Some (p, m2, n)"
    using ipv4_packet_valid [OF E(1), of ?X ?T ?q ?R env "b_pinfo b" en ty "b_ident b"] port l3 m1(1) size u r(3) parts
    by (auto simp: probe_port_def)
  have "keeps_from 48 m1 (E @ drop l3 m1)" using E l3 m1(1) size by (simp add: keeps_from_def)
  then have keep: "keeps_from 48 m1 m2"
    by (rule keeps_from_ipv4_packet [OF P]) (use l3 m1(1) size r port in \<open>simp_all add: probe_port_def\<close>)
  let ?b = "set_hdr LATENCY_PKT m2 (b\<lparr>b_pinfo := upd_pkt LATENCY_PKT (\<lambda>_. p) (b_pinfo b), b_ident := n,
    b_next_index := b_next_index b + 1\<rparr>)"
  have "pktgen_packet_ctor env LATENCY_PKT ty b = Some ?b"
    unfolding pktgen_packet_ctor_def Let_def fill pkt(1) [symmetric]
    using port l P r(2) by (simp add: link_layer_def probe_port_def en_def m1_def)
  moreover have "take 16 (drop 48 m2) = ?ts" "64 \<le> length m2"
    using keep m1 size by (simp_all add: keeps_from_def)
  ultimately show ?thesis using i(2) by (simp add: set_hdr_def)
qed

text \<open>
  C31 A probe from end to end: the packet of the latency template, set up from the single packet of the port,
  carries the next index and the time in the 64 bytes that are sent, and a port that expects this
  index measures the time that has passed since the packet was made.
\<close>

theorem probe_measures_delay:
  assumes i: "length (seq_pkt (b_pinfo b)) = NUM_TOTAL_PKTS" "length (b_hdr b) = NUM_TOTAL_PKTS"
    and wf: "wf_pkt (seq_pkt (b_pinfo b) ! SINGLE_PKT)" and port: "probe_port env (b_pinfo b)"
    and fill: "pktgen_fill_pattern (if be_jumbo env then RTE_ETHER_MAX_JUMBO_FRAME_LEN else RTE_ETHER_MAX_LEN)
      (be_fill env) (be_user_pattern env) (b_hdr b ! LATENCY_PKT) = Some m0" and size: "64 \<le> length m0"
    and expect: "expect_index lat = b_next_index b"
  shows "\<exists>b' ms lat1. pktgen_packet_ctor env LATENCY_PKT ty (with_pinfo pktgen_latency_setup b) = Some b'
    \<and> b_next_index b' = b_next_index b + 1
    \<and> pktgen_tstamp_check False ls hz poisson [(take 64 (b_hdr b' ! LATENCY_PKT) @ rest, t1, t2)] (lat, st) = Some (ms, lat1, st)
    \<and> num_latency_pkts lat1 = num_latency_pkts lat + 1 \<and> prev_cycles lat1 = t1 - be_time env
    \<and> expect_index lat1 = b_next_index b'"
proof -
  let ?b = "with_pinfo pktgen_latency_setup b"
  let ?pkt = "(seq_pkt (b_pinfo b) ! SINGLE_PKT)\<lparr>pk_size := LATENCY_PKT_SIZE, ipProto := PG_IPPROTO_UDP,
    ethType := RTE_ETHER_TYPE_IPV4, pk_dport := LATENCY_DPORT\<rparr>"
  have set: "seq_pkt (b_pinfo ?b) ! LATENCY_PKT = ?pkt" "length (seq_pkt (b_pinfo ?b)) = 20" "b_hdr ?b = b_hdr b"
    "b_next_index ?b = b_next_index b" "port_flags (b_pinfo ?b) = port_flags (b_pinfo b)"
    using i(1) by (simp_all add: with_pinfo_def pktgen_latency_setup_def upd_pkt_def LATENCY_PKT_def NUM_TOTAL_PKTS_def)
  have "probe_template ?pkt" using wf by (simp add: probe_template_def wf_pkt_def)
  moreover have "probe_port env (b_pinfo ?b)" using port set(5) by (simp add: probe_port_def pktgen_tst_port_flags_def)
  ultimately obtain b' where b': "pktgen_packet_ctor env LATENCY_PKT ty ?b = Some b'" "b_next_index b' = b_next_index b + 1"
    and ts: "take 16 (drop 48 (b_hdr b' ! LATENCY_PKT)) = tstamp_bytes (b_next_index b) (be_time env)"
    and len: "64 \<le> length (b_hdr b' ! LATENCY_PKT)"
    using probe_built [of ?b ?pkt env m0 ty] i set fill size by (auto simp: LATENCY_PKT_def NUM_TOTAL_PKTS_def)
  let ?m = "take 64 (b_hdr b' ! LATENCY_PKT) @ rest"
  have "drop 48 ?m = tstamp_bytes (b_next_index b) (be_time env) @ rest"
    using ts len by (simp add: drop_take)
  then have "get_le32 (drop 48 ?m) = TSTAMP_MAGIC" "get_le32 (drop 4 (drop 48 ?m)) = b_next_index b"
    "get_le64 (drop 8 (drop 48 ?m)) = be_time env"
    by (simp_all only: append_assoc tstamp_reads)
  moreover have "64 \<le> length ?m" using len by simp
  ultimately show ?thesis using b' expect
    by (simp add: pktgen_tstamp_pointer_def probe_received_def Let_def del: drop_append drop_drop length_append)
qed

lemma probe_measures_delay_witness:
  "\<exists>b' ms lat1. pktgen_packet_ctor (plain_env\<lparr>be_time := 500\<rparr>) LATENCY_PKT (-2)
       (with_pinfo pktgen_latency_setup (tcp_build (tcp_template PG_IPPROTO_TCP) 0)) = Some b'
    \<and> pktgen_tstamp_check False simple_setup 1000 id [(take 64 (b_hdr b' ! LATENCY_PKT) @ [], 700, 0)] (no_latency, no_samples)
        = Some (ms, lat1, no_samples)
    \<and> prev_cycles lat1 = 200"
proof -
  let ?b = "tcp_build (tcp_template PG_IPPROTO_TCP) 0" and ?env = "plain_env\<lparr>be_time := 500\<rparr>"
  have b: "length (seq_pkt (b_pinfo ?b)) = NUM_TOTAL_PKTS" "length (b_hdr ?b) = NUM_TOTAL_PKTS"
    "wf_pkt (seq_pkt (b_pinfo ?b) ! SINGLE_PKT)" "probe_port ?env (b_pinfo ?b)"
    "pktgen_fill_pattern (if be_jumbo ?env then RTE_ETHER_MAX_JUMBO_FRAME_LEN else RTE_ETHER_MAX_LEN)
      (be_fill ?env) (be_user_pattern ?env) (b_hdr ?b ! LATENCY_PKT) = Some (replicate 1518 0)"
    by (simp_all add: tcp_build_def plain_env_def tcp_template_def wf_pkt_def pktgen_fill_pattern_def pktgen_tst_port_flags_def
        NUM_TOTAL_PKTS_def SINGLE_PKT_def LATENCY_PKT_def bytes_simps with_ipv4_def probe_port_def)
  have "64 \<le> length (replicate 1518 (0 :: u8))" "expect_index no_latency = b_next_index ?b"
    by (simp_all add: no_latency_def tcp_build_def)
  from probe_measures_delay [OF b this, of "-2" simple_setup 1000 id "[]" 700 0 no_samples]
  obtain b' ms lat1 where "pktgen_packet_ctor ?env LATENCY_PKT (-2) (with_pinfo pktgen_latency_setup ?b) = Some b'"
    "pktgen_tstamp_check False simple_setup 1000 id [(take 64 (b_hdr b' ! LATENCY_PKT) @ [], 700, 0)] (no_latency, no_samples)
       = Some (ms, lat1, no_samples)" "prev_cycles lat1 = 700 - be_time ?env" by blast
  then show ?thesis by (intro exI [of _ b'] exI [of _ ms] exI [of _ lat1]) simp
qed

end
