(* ===== verification/RandomBits.thy ===== *)
theory RandomBits
  imports NetCksum Mbuf
begin

text \<open>
  The random bit fields of a port (\<open>app/pktgen-random.c\<close>, \<open>app/pktgen-random.h\<close>), the generator of random
  numbers they use (\<open>app/xorshift64star.h\<close>) and the text form in which they are set and saved
  (\<open>convert_bitfield\<close> of \<open>app/pktgen-cmds.c\<close>, the command in \<open>app/cli-functions.c\<close>). A specification
  has the three masks in network order, as the code keeps them.
\<close>

definition MAX_RND_BITFIELDS :: nat where "MAX_RND_BITFIELDS = 32"
definition MAX_BITFIELD_SIZE :: nat where "MAX_BITFIELD_SIZE = 32"

lemmas rnd_limits = MAX_RND_BITFIELDS_def MAX_BITFIELD_SIZE_def

record bf_spec =
  bf_offset :: u8
  andMask :: u32
  orMask :: u32
  rndMask :: u32

record rnd_bits =
  active_specs :: u32
  bf_specs :: "bf_spec list"

subsection \<open>The generator\<close>

definition xorshift64star :: "u64 \<Rightarrow> u64 \<times> u64" where
  "xorshift64star state =
     (let x1 = state XOR drop_bit 12 state;
          x2 = x1 XOR push_bit 25 x1;
          x3 = x2 XOR drop_bit 27 x2
      in (x3 * 0x2545F4914F6CDD1D, x3))"

definition pktgen_default_rnd_func :: "u64 \<Rightarrow> u32 \<times> u64" where
  "pktgen_default_rnd_func state = (let (v, state1) = xorshift64star state in (ucast v, state1))"

subsection \<open>Setting a specification\<close>

fun mask_bits :: "string \<Rightarrow> u32 \<times> u32 \<times> u32 \<Rightarrow> (u32 \<times> u32 \<times> u32) option" where
  "mask_bits [] ms = Some ms"
| "mask_bits (c # cs) (mask0, mask1, maskRnd) =
     (let m0 = push_bit 1 mask0; m1 = push_bit 1 mask1; mr = push_bit 1 maskRnd in
      if c = CHR ''0'' then mask_bits cs (m0 + 1, m1, mr)
      else if c = CHR ''1'' then mask_bits cs (m0, m1 + 1, mr)
      else if c = CHR ''.'' then mask_bits cs (m0, m1, mr)
      else if c = CHR ''x'' \<or> c = CHR ''X'' then mask_bits cs (m0, m1, mr + 1)
      else None)"

definition pktgen_set_random_bitfield :: "rnd_bits \<Rightarrow> u8 \<Rightarrow> u8 \<Rightarrow> string \<Rightarrow> rnd_bits" where
  "pktgen_set_random_bitfield rb idx offset str =
     (let i = unat idx in
      if i \<ge> MAX_RND_BITFIELDS then rb
      else if length str > MAX_BITFIELD_SIZE then rb
      else if str = [] then rb\<lparr>active_specs := active_specs rb AND NOT (push_bit i 1)\<rparr>
      else case mask_bits str (0, 0, 0) of
        None \<Rightarrow> rb
      | Some (mask0, mask1, maskRnd) \<Rightarrow>
          (let pad_len = MAX_BITFIELD_SIZE - length str;
               m0 = push_bit pad_len mask0; m1 = push_bit pad_len mask1; mr = push_bit pad_len maskRnd in
           rb\<lparr>active_specs := active_specs rb OR push_bit i 1,
              bf_specs := (bf_specs rb)[i := \<lparr>bf_offset = offset, andMask = htonl (NOT (m0 OR mr)),
                                              orMask = htonl m1, rndMask = htonl mr\<rparr>]\<rparr>))"

text \<open>The structure after \<open>rte_zmalloc_socket\<close>, and the two calls the initialisation makes for every slot.\<close>

definition zero_spec :: bf_spec where
  "zero_spec = \<lparr>bf_offset = 0, andMask = 0, orMask = 0, rndMask = 0\<rparr>"

definition pktgen_rnd_bits_init :: rnd_bits where
  "pktgen_rnd_bits_init =
     foldl (\<lambda>rb i. pktgen_set_random_bitfield
                     (pktgen_set_random_bitfield rb (of_nat i) 0 (replicate 32 (CHR ''?''))) (of_nat i) 0 [])
       \<lparr>active_specs = 0, bf_specs = replicate MAX_RND_BITFIELDS zero_spec\<rparr> [0..<MAX_RND_BITFIELDS]"

text \<open>The command keeps the characters that have a meaning, at most 32 of them.\<close>

definition mask_char :: "char \<Rightarrow> bool" where
  "mask_char c \<longleftrightarrow> c = CHR ''0'' \<or> c = CHR ''1'' \<or> c = CHR ''.'' \<or> c = CHR ''X'' \<or> c = CHR ''x''"

fun filter_mask :: "nat \<Rightarrow> string \<Rightarrow> string" where
  "filter_mask room [] = []"
| "filter_mask room (c # cs) =
     (if room = 0 then [] else if mask_char c then c # filter_mask (room - 1) cs else filter_mask room cs)"

definition set_rnd_command :: "rnd_bits \<Rightarrow> u8 \<Rightarrow> u8 \<Rightarrow> string \<Rightarrow> rnd_bits" where
  "set_rnd_command rb id1 id2 m =
     pktgen_set_random_bitfield rb id1 id2 (if m \<noteq> ''off'' then filter_mask 32 m else [])"

subsection \<open>The text of a specification\<close>

definition convert_bitfield :: "bf_spec \<Rightarrow> string" where
  "convert_bitfield bf =
     map (\<lambda>i. let curr = push_bit (MAX_BITFIELD_SIZE - i - 1) 1 :: u32 in
              if ntohl (rndMask bf) AND curr \<noteq> 0 then CHR ''X''
              else if ntohl (andMask bf) AND curr = 0 then CHR ''0''
              else if ntohl (orMask bf) AND curr \<noteq> 0 then CHR ''1''
              else CHR ''.'') [0..<MAX_BITFIELD_SIZE]"

subsection \<open>Applying the specifications\<close>

text \<open>The packet is the memory from \<open>rte_pktmbuf_mtod\<close> on; no value for an access beyond it.\<close>

definition apply_spec :: "bf_spec \<Rightarrow> u8 list \<Rightarrow> u64 \<Rightarrow> (u8 list \<times> u64) option" where
  "apply_spec bf m x =
     (let off = unat (bf_offset bf) in
      if length m < off + 4 then None
      else let w = get_le32 (drop off m) AND andMask bf OR orMask bf in
        if rndMask bf \<noteq> 0 then
          (let (v, x1) = pktgen_default_rnd_func x
           in Some (wr off (put_le32 (w OR v AND rndMask bf)) m, x1))
        else Some (wr off (put_le32 w) m, x))"

fun apply_specs :: "u32 \<Rightarrow> bf_spec list \<Rightarrow> u8 list \<Rightarrow> u64 \<Rightarrow> (u8 list \<times> u64) option" where
  "apply_specs active [] m x = (if active = 0 then Some (m, x) else None)"
| "apply_specs active (bf # bfs) m x =
     (if active = 0 then Some (m, x)
      else if active AND 1 \<noteq> 0 then
        (case apply_spec bf m x of None \<Rightarrow> None
         | Some (m1, x1) \<Rightarrow> apply_specs (drop_bit 1 active) bfs m1 x1)
      else apply_specs (drop_bit 1 active) bfs m x)"

fun apply_pkts :: "rnd_bits \<Rightarrow> 'a mbuf_scheme list \<Rightarrow> u64 \<Rightarrow> ('a mbuf_scheme list \<times> u64) option" where
  "apply_pkts rb [] x = Some ([], x)"
| "apply_pkts rb (m # ms) x =
     (case apply_specs (active_specs rb) (bf_specs rb) (m_data m) x of None \<Rightarrow> None
      | Some (d, x1) \<Rightarrow>
          (case apply_pkts rb ms x1 of None \<Rightarrow> None
           | Some (ms1, x2) \<Rightarrow> Some (m\<lparr>m_data := d\<rparr> # ms1, x2)))"

text \<open>\<open>own\<close>: the bit fields of the port; \<open>rbits\<close>: the argument, which replaces them unless it is null.\<close>

definition pktgen_rnd_bits_apply ::
  "rnd_bits \<Rightarrow> 'a mbuf_scheme list \<Rightarrow> rnd_bits option \<Rightarrow> u64 \<Rightarrow> ('a mbuf_scheme list \<times> u64) option" where
  "pktgen_rnd_bits_apply own pkts rbits x =
     (let rb = (case rbits of None \<Rightarrow> own | Some r \<Rightarrow> r) in
      if active_specs rb = 0 then Some (pkts, x) else apply_pkts rb pkts x)"

section \<open>The generator\<close>

lemma xor_drop_bit_0:
  fixes x :: "'w::len word"
  assumes "0 < k" and "x XOR drop_bit k x = 0"
  shows "x = 0"
proof -
  have eq: "x = drop_bit k x" using assms(2) by (metis xor.assoc xor_self_eq xor.left_neutral xor.right_neutral)
  have "x = drop_bit (n * k) x" for n
  proof (induction n)
    case (Suc n)
    then show ?case using eq by (metis drop_bit_drop_bit mult_Suc)
  qed simp
  also have "drop_bit (LENGTH('w) * k) x = 0"
    using assms(1) by (intro bit_word_eqI) (auto simp: bit_simps dest: bit_imp_le_length)
  finally show ?thesis .
qed

lemma xor_push_bit_0:
  fixes x :: "'w::len word"
  assumes "0 < k" and "x XOR push_bit k x = 0"
  shows "x = 0"
proof -
  have eq: "x = push_bit k x" using assms(2) by (metis xor.assoc xor_self_eq xor.left_neutral xor.right_neutral)
  have "x = push_bit (n * k) x" for n
  proof (induction n)
    case (Suc n)
    then show ?case using eq by (metis push_bit_push_bit mult_Suc)
  qed simp
  also have "push_bit (LENGTH('w) * k) x = 0"
    using assms(1) by (intro bit_word_eqI) (auto simp: bit_simps)
  finally show ?thesis .
qed

text \<open>A state that is not zero stays so; the state zero is never left.\<close>

lemma xorshift_state: "snd (xorshift64star x) = 0 \<longleftrightarrow> x = 0"
proof
  define x1 where "x1 = x XOR drop_bit 12 x"
  define x2 where "x2 = x1 XOR push_bit 25 x1"
  assume "snd (xorshift64star x) = 0"
  then have "x2 XOR drop_bit 27 x2 = 0"
    unfolding xorshift64star_def Let_def snd_conv x1_def x2_def .
  then have "x2 = 0" by (rule xor_drop_bit_0 [rotated]) simp
  then have "x1 = 0" unfolding x2_def by (rule xor_push_bit_0 [rotated]) simp
  then show "x = 0" unfolding x1_def by (rule xor_drop_bit_0 [rotated]) simp
qed (simp add: xorshift64star_def Let_def)

section \<open>Masks and their text\<close>

definition shl1 :: "'w::len word \<Rightarrow> bool \<Rightarrow> 'w word" where
  "shl1 w b = push_bit 1 w + of_bool b"

lemma bit_shl1:
  "bit (shl1 w b) k \<longleftrightarrow> k < LENGTH('w) \<and> (if k = 0 then b else bit w (k - 1))"
  for w :: "'w::len word"
proof (cases b)
  case True
  have "push_bit 1 w + 1 = push_bit 1 w OR 1"
    by (rule disjunctive_add, simp only: bit_push_bit_iff bit_1_iff) auto
  then have e: "shl1 w b = push_bit 1 w OR 1" unfolding shl1_def using True by simp
  show ?thesis unfolding e bit_or_iff bit_push_bit_iff bit_1_iff using True by auto
next
  case False
  then have e: "shl1 w b = push_bit 1 w" by (simp add: shl1_def)
  show ?thesis unfolding e bit_push_bit_iff using False by auto
qed

lemma mask_bits_step:
  "mask_bits (c # cs) (a, b, r) =
     (if mask_char c
      then mask_bits cs (shl1 a (c = CHR ''0''), shl1 b (c = CHR ''1''), shl1 r (c = CHR ''x'' \<or> c = CHR ''X''))
      else None)"
  by (simp add: Let_def mask_char_def shl1_def)

text \<open>A word built from a string, the bit of the last character being bit 0.\<close>

fun str_bits :: "(char \<Rightarrow> bool) \<Rightarrow> string \<Rightarrow> u32 \<Rightarrow> u32" where
  "str_bits P [] w = w"
| "str_bits P (c # cs) w = str_bits P cs (shl1 w (P c))"

lemma bit_str_bits:
  "bit (str_bits P s w) k \<longleftrightarrow> k < 32 \<and> (if k < length s then P (s ! (length s - 1 - k)) else bit w (k - length s))"
proof (induction s arbitrary: w k)
  case Nil
  show ?case using bit_imp_le_length [of w k] by auto
next
  case (Cons c cs)
  consider "k < length cs" | "k = length cs" | "length cs < k" by fastforce
  then show ?case
    by cases (auto simp: Cons bit_shl1 nth_Cons')
qed

lemma mask_bits_str:
  assumes "list_all mask_char s"
  shows "mask_bits s (a, b, r) =
           Some (str_bits (\<lambda>c. c = CHR ''0'') s a, str_bits (\<lambda>c. c = CHR ''1'') s b,
                 str_bits (\<lambda>c. c = CHR ''x'' \<or> c = CHR ''X'') s r)"
  using assms
proof (induction s arbitrary: a b r)
  case (Cons c cs)
  then show ?case by (simp add: mask_bits_step del: mask_bits.simps(2))
qed simp

lemma mask_bits_invalid: "\<not> list_all mask_char s \<Longrightarrow> mask_bits s (a, b, r) = None"
proof (induction s arbitrary: a b r)
  case (Cons c cs)
  then show ?case by (auto simp: mask_bits_step simp del: mask_bits.simps(2))
qed simp

text \<open>After the padding, the character at position \<open>j\<close> is bit \<open>31 - j\<close>.\<close>

lemma bit_padded:
  assumes "length s \<le> 32" and "j < 32"
  shows "bit (push_bit (32 - length s) (str_bits P s 0)) (31 - j) \<longleftrightarrow> j < length s \<and> P (s ! j)"
proof (cases "j < length s")
  case True
  then have "length s - 1 - (31 - j - (32 - length s)) = j" using assms by simp
  then show ?thesis using True assms by (auto simp: bit_push_bit_iff bit_str_bits)
next
  case False
  then show ?thesis using assms by (auto simp: bit_push_bit_iff)
qed

text \<open>The specification that a valid string gives.\<close>

definition spec_of :: "u8 \<Rightarrow> string \<Rightarrow> bf_spec" where
  "spec_of offset str =
     (let m0 = push_bit (32 - length str) (str_bits (\<lambda>c. c = CHR ''0'') str 0);
          m1 = push_bit (32 - length str) (str_bits (\<lambda>c. c = CHR ''1'') str 0);
          mr = push_bit (32 - length str) (str_bits (\<lambda>c. c = CHR ''x'' \<or> c = CHR ''X'') str 0)
      in \<lparr>bf_offset = offset, andMask = htonl (NOT (m0 OR mr)), orMask = htonl m1, rndMask = htonl mr\<rparr>)"

lemma set_valid:
  assumes "list_all mask_char str" and "str \<noteq> []" and "length str \<le> 32" and "unat idx < 32"
  shows "pktgen_set_random_bitfield rb idx offset str =
           rb\<lparr>active_specs := active_specs rb OR push_bit (unat idx) 1,
              bf_specs := (bf_specs rb)[unat idx := spec_of offset str]\<rparr>"
  using assms by (simp add: pktgen_set_random_bitfield_def rnd_limits mask_bits_str spec_of_def Let_def)

lemma set_invalid:
  "\<not> list_all mask_char str \<Longrightarrow> pktgen_set_random_bitfield rb idx offset str = rb"
  by (auto simp: pktgen_set_random_bitfield_def mask_bits_invalid Let_def)

lemma word32_eqI: "(\<And>j. j < 32 \<Longrightarrow> bit a (31 - j) = bit b (31 - j)) \<Longrightarrow> a = b" for a b :: u32
proof (rule bit_word_eqI)
  fix n assume eq: "\<And>j. j < 32 \<Longrightarrow> bit a (31 - j) = bit b (31 - j)" and n: "n < LENGTH(32)"
  then have "31 - (31 - n) = n" by simp
  then show "bit a n = bit b n" using eq [of "31 - n"] n by simp
qed

lemma and_bit_0: "w AND 2 ^ k = 0 \<longleftrightarrow> \<not> bit w k" if "k < 32" for w :: u32
proof
  assume "w AND 2 ^ k = 0"
  then have "bit (w AND 2 ^ k) k = bit (0 :: u32) k" by (rule arg_cong)
  then show "\<not> bit w k" using that by (simp add: bit_and_iff bit_exp_iff)
next
  assume "\<not> bit w k"
  then show "w AND 2 ^ k = 0"
    by (intro bit_word_eqI) (auto simp: bit_and_iff bit_exp_iff)
qed

lemma convert_nth:
  "j < 32 \<Longrightarrow> convert_bitfield bf ! j =
     (if bit (ntohl (rndMask bf)) (31 - j) then CHR ''X''
      else if \<not> bit (ntohl (andMask bf)) (31 - j) then CHR ''0''
      else if bit (ntohl (orMask bf)) (31 - j) then CHR ''1'' else CHR ''.'')"
  by (simp add: convert_bitfield_def rnd_limits and_bit_0 Let_def)

lemma length_convert [simp]: "length (convert_bitfield bf) = 32"
  by (simp add: convert_bitfield_def rnd_limits)

lemma convert_chars: "list_all mask_char (convert_bitfield bf)"
  by (simp add: list_all_length convert_nth mask_char_def)

lemma ntohl_htonl [simp]: "ntohl (htonl x) = x" "htonl (ntohl x) = x"
  by (simp_all add: htonl_def)

lemma spec_of_bits:
  assumes "length str \<le> 32" and "j < 32"
  shows "bit (ntohl (andMask (spec_of offset str))) (31 - j) \<longleftrightarrow>
           \<not> (j < length str \<and> str ! j \<in> {CHR ''0'', CHR ''x'', CHR ''X''})"
    and "bit (ntohl (orMask (spec_of offset str))) (31 - j) \<longleftrightarrow> j < length str \<and> str ! j = CHR ''1''"
    and "bit (ntohl (rndMask (spec_of offset str))) (31 - j) \<longleftrightarrow>
           j < length str \<and> str ! j \<in> {CHR ''x'', CHR ''X''}"
  using assms by (auto simp: spec_of_def Let_def bit_padded bit_not_iff bit_or_iff bit_and_iff)

text \<open>The text that is printed for it: random bits in upper case, bits not mentioned left alone.\<close>

definition padded :: "string \<Rightarrow> string" where
  "padded str = map (\<lambda>c. if c = CHR ''x'' then CHR ''X'' else c) str @ replicate (32 - length str) (CHR ''.'')"

lemma convert_spec_of:
  assumes "list_all mask_char str" and "length str \<le> 32"
  shows "convert_bitfield (spec_of offset str) = padded str"
proof (rule nth_equalityI)
  fix j assume "j < length (convert_bitfield (spec_of offset str))"
  then have j: "j < 32" by simp
  show "convert_bitfield (spec_of offset str) ! j = padded str ! j"
  proof (cases "j < length str")
    case True
    then have "mask_char (str ! j)" using assms(1) by (simp add: list_all_length)
    then show ?thesis using True j
      by (auto simp: convert_nth spec_of_bits [OF assms(2) j] padded_def nth_append mask_char_def)
  next
    case False
    then show ?thesis using j by (simp add: convert_nth spec_of_bits [OF assms(2) j] padded_def nth_append)
  qed
qed (simp add: padded_def assms(2))

section \<open>Saving and restoring\<close>

text \<open>The masks of a specification agree: a bit is kept, cleared, set or random.\<close>

definition wf_spec :: "bf_spec \<Rightarrow> bool" where
  "wf_spec bf \<longleftrightarrow> ntohl (orMask bf) AND NOT (ntohl (andMask bf)) = 0 \<and> ntohl (rndMask bf) AND ntohl (andMask bf) = 0"

definition wf_bits :: "rnd_bits \<Rightarrow> bool" where
  "wf_bits rb \<longleftrightarrow> length (bf_specs rb) = 32 \<and> list_all wf_spec (bf_specs rb)"

lemma and_0_bits: "a AND b = 0 \<longleftrightarrow> (\<forall>k<32. \<not> (bit a k \<and> bit b k))" for a b :: u32
proof
  assume "a AND b = 0"
  then have "bit (a AND b) k = bit (0 :: u32) k" for k by simp
  then show "\<forall>k<32. \<not> (bit a k \<and> bit b k)" by (simp add: bit_and_iff)
next
  assume "\<forall>k<32. \<not> (bit a k \<and> bit b k)"
  then show "a AND b = 0" by (intro bit_word_eqI) (auto simp: bit_and_iff)
qed

lemma wf_specD:
  assumes "wf_spec bf" and "k < 32"
  shows "bit (ntohl (orMask bf)) k \<Longrightarrow> bit (ntohl (andMask bf)) k"
    and "bit (ntohl (rndMask bf)) k \<Longrightarrow> \<not> bit (ntohl (andMask bf)) k"
  using assms by (auto simp: wf_spec_def and_0_bits bit_not_iff)

lemma wf_spec_of:
  assumes "length str \<le> 32" shows "wf_spec (spec_of offset str)"
  unfolding wf_spec_def and_0_bits
proof (intro conjI allI impI)
  fix k :: nat assume "k < 32"
  then have k: "k = 31 - (31 - k)" and j: "31 - k < 32" by simp_all
  note bits = spec_of_bits [OF assms j, where offset = offset, folded k]
  show "\<not> (bit (ntohl (orMask (spec_of offset str))) k \<and> bit (NOT (ntohl (andMask (spec_of offset str)))) k)"
    and "\<not> (bit (ntohl (rndMask (spec_of offset str))) k \<and> bit (ntohl (andMask (spec_of offset str))) k)"
    by (auto simp: bits bit_not_iff)
qed

lemma spec_of_convert:
  assumes "wf_spec bf"
  shows "spec_of (bf_offset bf) (convert_bitfield bf) = bf"
proof -
  let ?s = "spec_of (bf_offset bf) (convert_bitfield bf)"
  have "ntohl (andMask ?s) = ntohl (andMask bf) \<and> ntohl (orMask ?s) = ntohl (orMask bf)
    \<and> ntohl (rndMask ?s) = ntohl (rndMask bf)"
  proof (intro conjI; rule word32_eqI)
    fix j :: nat assume j: "j < 32"
    then have "31 - j < 32" by simp
    note wf = wf_specD [OF assms this] and bits = spec_of_bits [of "convert_bitfield bf" j, OF _ j, where offset = "bf_offset bf"]
    show "bit (ntohl (andMask ?s)) (31 - j) = bit (ntohl (andMask bf)) (31 - j)"
      and "bit (ntohl (orMask ?s)) (31 - j) = bit (ntohl (orMask bf)) (31 - j)"
      and "bit (ntohl (rndMask ?s)) (31 - j) = bit (ntohl (rndMask bf)) (31 - j)"
      using wf by (auto simp: bits convert_nth j)
  qed
  moreover have "bf_offset ?s = bf_offset bf" by (simp add: spec_of_def Let_def)
  ultimately show ?thesis by simp
qed

lemma rnd_bits_init: "pktgen_rnd_bits_init = \<lparr>active_specs = 0, bf_specs = replicate 32 zero_spec\<rparr>"
proof -
  have q: "pktgen_set_random_bitfield rb idx off (replicate 32 (CHR ''?'')) = rb" for rb idx off
    by (rule set_invalid) (simp add: numeral_eq_Suc mask_char_def)
  have off: "pktgen_set_random_bitfield rb idx 0 [] = rb" if "active_specs rb = 0" for rb idx
    using that by (simp add: pktgen_set_random_bitfield_def Let_def)
  have "foldl (\<lambda>rb i. pktgen_set_random_bitfield (pktgen_set_random_bitfield rb (of_nat i) 0 (replicate 32 (CHR ''?'')))
          (of_nat i) 0 []) rb is = rb" if "active_specs rb = 0" for rb "is"
    using that by (induction "is") (simp_all only: foldl_Nil foldl_Cons q off)
  then show ?thesis by (simp add: pktgen_rnd_bits_init_def rnd_limits)
qed

lemma ntohl_0 [simp]: "ntohl 0 = 0"
  by (simp add: ntohl_def put_le32_def)

lemma wf_bits_init: "wf_bits pktgen_rnd_bits_init"
  by (simp add: rnd_bits_init wf_bits_def wf_spec_def zero_spec_def list_all_length)

lemma wf_bits_set: "wf_bits rb \<Longrightarrow> wf_bits (pktgen_set_random_bitfield rb idx offset str)"
proof (cases "list_all mask_char str \<and> str \<noteq> [] \<and> length str \<le> 32 \<and> unat idx < 32")
  case True
  assume "wf_bits rb"
  then show ?thesis using True
    by (auto simp: set_valid wf_bits_def list_all_iff wf_spec_of dest!: set_update_subset_insert [THEN subsetD])
next
  case False
  assume "wf_bits rb"
  then show ?thesis using False set_invalid [of str]
    by (cases "list_all mask_char str") (auto simp: pktgen_set_random_bitfield_def rnd_limits wf_bits_def Let_def)
qed

text \<open>The commands of a saved configuration: one per active specification, with its offset and text.\<close>

definition saved_commands :: "rnd_bits \<Rightarrow> (nat \<times> u8 \<times> string) list" where
  "saved_commands rb =
     map (\<lambda>j. (j, bf_offset (bf_specs rb ! j), convert_bitfield (bf_specs rb ! j)))
       (filter (\<lambda>j. active_specs rb AND push_bit j 1 \<noteq> 0) [0..<MAX_RND_BITFIELDS])"

definition run_commands :: "(nat \<times> u8 \<times> string) list \<Rightarrow> rnd_bits \<Rightarrow> rnd_bits" where
  "run_commands cmds rb = foldl (\<lambda>r (j, off, s). set_rnd_command r (of_nat j) off s) rb cmds"

lemma filter_mask_id: "list_all mask_char s \<Longrightarrow> length s \<le> n \<Longrightarrow> filter_mask n s = s"
  by (induction n s rule: filter_mask.induct) auto

lemma set_saved:
  assumes "wf_spec bf" and "j < 32"
  shows "set_rnd_command r (of_nat j) (bf_offset bf) (convert_bitfield bf) =
           r\<lparr>active_specs := active_specs r OR push_bit j 1, bf_specs := (bf_specs r)[j := bf]\<rparr>"
proof -
  have "convert_bitfield bf \<noteq> ''off''" "convert_bitfield bf \<noteq> []"
    using arg_cong [of _ _ length] length_convert [of bf] by fastforce+
  moreover have "unat (of_nat j :: u8) = j" using assms(2) by (simp add: unat_of_nat_small)
  ultimately show ?thesis using assms(2)
    by (simp add: set_rnd_command_def filter_mask_id convert_chars set_valid spec_of_convert [OF assms(1)]
        del: push_bit_of_1)
qed

lemma run_saved:
  assumes "list_all wf_spec S" and "length S = 32" and "\<forall>j \<in> set js. j < 32" and "length (bf_specs r) = 32"
    and "r1 = run_commands (map (\<lambda>j. (j, bf_offset (S ! j), convert_bitfield (S ! j))) js) r"
  shows "length (bf_specs r1) = 32"
    and "k < 32 \<Longrightarrow> bf_specs r1 ! k = (if k \<in> set js then S ! k else bf_specs r ! k)"
    and "k < 32 \<Longrightarrow> bit (active_specs r1) k \<longleftrightarrow> k \<in> set js \<or> bit (active_specs r) k"
proof -
  have "length (bf_specs r1) = 32 \<and> (k < 32 \<longrightarrow>
      bf_specs r1 ! k = (if k \<in> set js then S ! k else bf_specs r ! k) \<and>
      (bit (active_specs r1) k \<longleftrightarrow> k \<in> set js \<or> bit (active_specs r) k))"
    using assms(3-5)
  proof (induction js arbitrary: r)
    case Nil
    then show ?case by (simp add: run_commands_def)
  next
    case (Cons j js)
    let ?r = "r\<lparr>active_specs := active_specs r OR push_bit j 1, bf_specs := (bf_specs r)[j := S ! j]\<rparr>"
    have "wf_spec (S ! j)" using assms(1,2) Cons.prems(1) by (simp add: list_all_length)
    then have "r1 = run_commands (map (\<lambda>j. (j, bf_offset (S ! j), convert_bitfield (S ! j))) js) ?r"
      using Cons.prems by (simp add: run_commands_def set_saved del: push_bit_of_1)
    from Cons.IH [OF _ _ this] show ?case
      using Cons.prems by (auto simp: bit_or_iff bit_exp_iff nth_list_update)
  qed
  then show "length (bf_specs r1) = 32"
    and "k < 32 \<Longrightarrow> bf_specs r1 ! k = (if k \<in> set js then S ! k else bf_specs r ! k)"
    and "k < 32 \<Longrightarrow> bit (active_specs r1) k \<longleftrightarrow> k \<in> set js \<or> bit (active_specs r) k" by auto
qed

lemma and_1_bit: "active AND 1 \<noteq> 0 \<longleftrightarrow> bit active 0" for active :: u32
  using and_bit_0 [of 0 active] by simp

lemma apply_specs_cong:
  assumes "length ss = length ts" and "\<And>i. i < length ss \<Longrightarrow> bit active i \<Longrightarrow> ss ! i = ts ! i"
  shows "apply_specs active ss m x = apply_specs active ts m x"
  using assms
proof (induction ss arbitrary: active ts m x)
  case (Cons bf bfs)
  obtain t ts' where ts: "ts = t # ts'" using Cons.prems(1) by (cases ts) auto
  have rest: "apply_specs (drop_bit 1 active) bfs m x = apply_specs (drop_bit 1 active) ts' m x" for m x
    using Cons.prems(1) Cons.prems(2) [of "Suc i" for i] by (intro Cons.IH) (auto simp: ts bit_drop_bit_eq)
  have "bf = t" if "active AND 1 \<noteq> 0" using that Cons.prems(2) [of 0] by (simp add: ts and_1_bit)
  then show ?case by (auto simp: ts rest [unfolded One_nat_def] split: option.splits)
qed simp

lemma apply_pkts_cong:
  assumes "active_specs rb = active_specs rc"
    and "\<And>m x. apply_specs (active_specs rb) (bf_specs rb) m x = apply_specs (active_specs rb) (bf_specs rc) m x"
  shows "apply_pkts rb ms x = apply_pkts rc ms x"
  by (induction ms arbitrary: x) (auto simp: assms(1) assms(2) [unfolded assms(1)] split: option.splits prod.splits)

text \<open>
  C33 Saved bit fields: the commands that a saved configuration holds for the random bit fields of a port
  make, on a port without active ones, the same fields active and give each the specification
  it had, so that packets are treated as before.
\<close>

theorem random_fields_restored:
  assumes "wf_bits rb" and "wf_bits r0" and "active_specs r0 = 0"
  shows "active_specs (run_commands (saved_commands rb) r0) = active_specs rb \<and>
    pktgen_rnd_bits_apply (run_commands (saved_commands rb) r0) pkts None x = pktgen_rnd_bits_apply rb pkts None x"
proof -
  let ?js = "filter (\<lambda>j. active_specs rb AND push_bit j 1 \<noteq> 0) [0..<MAX_RND_BITFIELDS]"
  let ?r = "run_commands (saved_commands rb) r0"
  have js: "k \<in> set ?js \<longleftrightarrow> k < 32 \<and> bit (active_specs rb) k" for k
    by (auto simp: rnd_limits and_bit_0)
  have wf: "list_all wf_spec (bf_specs rb)" "length (bf_specs rb) = 32" "length (bf_specs r0) = 32"
    and small: "\<forall>j \<in> set ?js. j < 32" using assms(1,2) js by (auto simp only: wf_bits_def)
  note run = run_saved [OF wf(1,2) small wf(3) saved_commands_def [THEN arg_cong, of "\<lambda>c. run_commands c r0"]]
  have active: "active_specs ?r = active_specs rb"
    using run(3) js by (intro bit_word_eqI) (auto simp: assms(3))
  have "apply_specs (active_specs ?r) (bf_specs ?r) m x = apply_specs (active_specs ?r) (bf_specs rb) m x" for m x
    by (rule apply_specs_cong) (use run(1,2) js active wf in auto)
  from apply_pkts_cong [OF active this, of pkts x] show ?thesis by (simp add: active pktgen_rnd_bits_apply_def)
qed


lemma random_fields_restored_witness:
  "active_specs (run_commands (saved_commands (pktgen_set_random_bitfield pktgen_rnd_bits_init 3 12 ''01.X'')) pktgen_rnd_bits_init)
     = 8"
proof -
  let ?rb = "pktgen_set_random_bitfield pktgen_rnd_bits_init 3 12 ''01.X''"
  have "active_specs ?rb = 8" by (simp add: set_valid mask_char_def rnd_bits_init)
  then show ?thesis
    using random_fields_restored [OF wf_bits_set [OF wf_bits_init] wf_bits_init, of 3 12 "''01.X''" "[] :: mbuf list" 0]
    by (simp add: rnd_bits_init)
qed

section \<open>What the packets get\<close>

text \<open>Bit \<open>p\<close> of a packet, the most significant bit of a byte first.\<close>

definition bit_at :: "u8 list \<Rightarrow> nat \<Rightarrow> bool" where
  "bit_at m p = bit (m ! (p div 8)) (7 - p mod 8)"

lemma less_4_cases: "k < 4 \<Longrightarrow> k = 0 \<or> k = 1 \<or> k = 2 \<or> k = 3" for k :: nat
  by linarith

lemma bit_get_le32:
  assumes "k < 4" and "i < 8"
  shows "bit (get_le32 [a, b, c, d]) (8 * k + i) \<longleftrightarrow> bit ([a, b, c, d] ! k) i"
proof -
  from less_4_cases [OF assms(1)] show ?thesis using assms(2) by (elim disjE) (simp_all add: bit_simps)
qed

lemma bit_put_le32:
  assumes "k < 4" and "i < 8"
  shows "bit (put_le32 x ! k) i \<longleftrightarrow> bit x (8 * k + i)"
proof -
  from less_4_cases [OF assms(1)] show ?thesis using assms(2) by (elim disjE) (simp_all add: put_le32_def bit_simps)
qed

lemma bit_ntohl:
  assumes "k < 4" and "i < 8"
  shows "bit (ntohl x) (8 * k + i) \<longleftrightarrow> bit x (8 * (3 - k) + i)"
proof -
  obtain a b c d where p: "put_le32 x = [a, b, c, d]" by (simp add: put_le32_def)
  have "bit ([d, c, b, a] ! k) i = bit (put_le32 x ! (3 - k)) i"
    using less_4_cases [OF assms(1)] unfolding p by (elim disjE) simp_all
  also have "\<dots> = bit x (8 * (3 - k) + i)" using assms by (intro bit_put_le32) auto
  finally show ?thesis by (simp add: ntohl_def p bit_get_le32 [OF assms] del: get_le32.simps)
qed

lemma word32_bytesI: "(\<And>k i. k < 4 \<Longrightarrow> i < 8 \<Longrightarrow> bit a (8 * k + i) = bit b (8 * k + i)) \<Longrightarrow> a = b" for a b :: u32
proof (rule bit_word_eqI)
  fix n assume eq: "\<And>k i. k < 4 \<Longrightarrow> i < 8 \<Longrightarrow> bit a (8 * k + i) = bit b (8 * k + i)" and "n < LENGTH(32)"
  then show "bit a n = bit b n" using eq [of "n div 8" "n mod 8"] by simp
qed

lemma ntohl_and: "ntohl (a AND b) = ntohl a AND ntohl b"
  and ntohl_or: "ntohl (a OR b) = ntohl a OR ntohl b"
  by (rule word32_bytesI; simp add: bit_ntohl bit_and_iff bit_or_iff)+

lemma drop_4_bytes:
  "off + 4 \<le> length m \<Longrightarrow> drop off m = [m ! off, m ! (off + 1), m ! (off + 2), m ! (off + 3)] @ drop (off + 4) m"
  using Cons_nth_drop_Suc [of off m] Cons_nth_drop_Suc [of "Suc off" m] Cons_nth_drop_Suc [of "off + 2" m]
    Cons_nth_drop_Suc [of "off + 3" m] by (simp add: eval_nat_numeral)

lemma ntohl_get_le32: "ntohl (get_le32 (a # b # c # d # r)) = get_le32 [d, c, b, a]"
  using put_get_le32 [of a b c d] by (simp add: ntohl_def)

lemma bit_ntohl_get:
  assumes "off + 4 \<le> length m" and "j < 32"
  shows "bit (ntohl (get_le32 (drop off m))) (31 - j) \<longleftrightarrow> bit_at m (8 * off + j)"
proof -
  define k i where "k = j div 8" and "i = j mod 8"
  have k: "k < 4" "i < 8" "j = 8 * k + i" using assms(2) by (auto simp: k_def i_def)
  then have n: "31 - j = 8 * (3 - k) + (7 - i)" by simp
  have "bit ([m ! (off + 3), m ! (off + 2), m ! (off + 1), m ! off] ! (3 - k)) (7 - i) = bit (m ! (off + k)) (7 - i)"
    using less_4_cases [OF k(1)] by (elim disjE) simp_all
  moreover have "bit_at m (8 * off + j) = bit (m ! (off + k)) (7 - i)"
    using k(2) by (simp add: bit_at_def k(3))
  ultimately show ?thesis
    unfolding n drop_4_bytes [OF assms(1)] append_Cons ntohl_get_le32 by (simp add: bit_get_le32 del: get_le32.simps)
qed

lemma bit_at_wr:
  assumes "off + length bs \<le> length m" and "bs \<noteq> []"
  shows "bit_at (wr off bs m) p =
           (if 8 * off \<le> p \<and> p < 8 * (off + length bs) then bit_at bs (p - 8 * off) else bit_at m p)"
proof (cases "8 * off \<le> p")
  case True
  then obtain q where q: "p = 8 * off + q" by (rule less_eqE)
  have "q < 8 * length bs \<longleftrightarrow> q div 8 < length bs" by linarith
  moreover have "off < length m" using assms by (cases bs) auto
  ultimately show ?thesis using assms by (auto simp: q bit_at_def wr_def nth_append min_def)
next
  case False
  then have "p div 8 < off" by linarith
  then show ?thesis using False assms by (simp add: bit_at_def wr_def nth_append)
qed

text \<open>What a specification says of a bit of the packet.\<close>

definition spec_at :: "bf_spec \<Rightarrow> nat \<Rightarrow> char" where
  "spec_at bf p =
     (let off = 8 * unat (bf_offset bf) in
      if off \<le> p \<and> p < off + 32 then convert_bitfield bf ! (p - off) else CHR ''.'')"

lemma apply_spec_bit:
  assumes "wf_spec bf" and "unat (bf_offset bf) + 4 \<le> length m"
  shows "\<exists>m1 x1. apply_spec bf m x = Some (m1, x1) \<and> length m1 = length m \<and>
    (\<forall>p. (spec_at bf p = CHR ''.'' \<longrightarrow> bit_at m1 p = bit_at m p) \<and>
         (spec_at bf p = CHR ''0'' \<longrightarrow> \<not> bit_at m1 p) \<and> (spec_at bf p = CHR ''1'' \<longrightarrow> bit_at m1 p))"
proof -
  let ?off = "unat (bf_offset bf)"
  let ?w = "get_le32 (drop ?off m) AND andMask bf OR orMask bf"
  have put: "bit_at (put_le32 W) j \<longleftrightarrow> bit (ntohl W) (31 - j)" if "j < 32" for W j
    using bit_ntohl_get [of 0 "put_le32 W" j] that by (simp add: bytes_simps)
  have put_ne: "put_le32 W \<noteq> []" for W by (simp add: put_le32_def)
  have bits: "(spec_at bf p = CHR ''.'' \<longrightarrow> bit_at (wr ?off (put_le32 (?w OR v AND rndMask bf)) m) p = bit_at m p) \<and>
      (spec_at bf p = CHR ''0'' \<longrightarrow> \<not> bit_at (wr ?off (put_le32 (?w OR v AND rndMask bf)) m) p) \<and>
      (spec_at bf p = CHR ''1'' \<longrightarrow> bit_at (wr ?off (put_le32 (?w OR v AND rndMask bf)) m) p)" for v p
  proof (cases "8 * ?off \<le> p \<and> p < 8 * ?off + 32")
    case True
    define j where "j = p - 8 * ?off"
    then have j: "j < 32" "31 - j < 32" "p = 8 * ?off + j" using True by auto
    have at: "spec_at bf p = convert_bitfield bf ! j" using True by (simp add: spec_at_def j_def)
    have "bit_at (wr ?off (put_le32 W) m) p \<longleftrightarrow> bit (ntohl W) (31 - j)" for W
      using True assms(2) by (simp add: bit_at_wr bytes_simps put [OF j(1)] put_ne j_def [symmetric])
    then have new: "bit_at (wr ?off (put_le32 (?w OR v AND rndMask bf)) m) p \<longleftrightarrow>
        (bit_at m p \<and> bit (ntohl (andMask bf)) (31 - j) \<or> bit (ntohl (orMask bf)) (31 - j))
        \<or> bit (ntohl v) (31 - j) \<and> bit (ntohl (rndMask bf)) (31 - j)"
      by (simp only: ntohl_and ntohl_or bit_and_iff bit_or_iff bit_ntohl_get [OF assms(2) j(1)] j(3))
    show ?thesis using wf_specD [OF assms(1) j(2)]
      unfolding new at convert_nth [OF j(1)]
      by (cases "bit (ntohl (andMask bf)) (31 - j)"; cases "bit (ntohl (orMask bf)) (31 - j)";
          cases "bit (ntohl (rndMask bf)) (31 - j)"; simp)
  next
    case False
    then show ?thesis using assms(2) by (auto simp: spec_at_def bit_at_wr bytes_simps put_ne Let_def)
  qed
  have len: "length (wr ?off (put_le32 W) m) = length m" for W using assms(2) by (simp add: put_le32_def)
  show ?thesis
  proof (cases "rndMask bf = 0")
    case True
    then have "apply_spec bf m x = Some (wr ?off (put_le32 ?w) m, x)"
      using assms(2) by (simp add: apply_spec_def Let_def)
    then show ?thesis using bits [of _ 0] len by simp
  next
    case False
    obtain v x1 where "pktgen_default_rnd_func x = (v, x1)" by (rule prod.exhaust)
    then have "apply_spec bf m x = Some (wr ?off (put_le32 (?w OR v AND rndMask bf)) m, x1)"
      using False assms(2) by (simp add: apply_spec_def Let_def)
    then show ?thesis using bits [of _ v] len by simp
  qed
qed

text \<open>The specification that decides on a bit of the packet: the last active one that mentions it.\<close>

definition deciding :: "rnd_bits \<Rightarrow> nat \<Rightarrow> char" where
  "deciding rb p =
     foldl (\<lambda>c i. if bit (active_specs rb) i \<and> spec_at (bf_specs rb ! i) p \<noteq> CHR ''.''
                  then spec_at (bf_specs rb ! i) p else c) (CHR ''.'') [0..<MAX_RND_BITFIELDS]"

fun decide :: "u32 \<Rightarrow> bf_spec list \<Rightarrow> nat \<Rightarrow> char \<Rightarrow> char" where
  "decide active [] p c = c"
| "decide active (bf # bfs) p c =
     decide (drop_bit 1 active) bfs p (if bit active 0 \<and> spec_at bf p \<noteq> CHR ''.'' then spec_at bf p else c)"

lemma foldl_decide:
  "foldl (\<lambda>c i. if bit active i \<and> spec_at (ss ! i) p \<noteq> CHR ''.'' then spec_at (ss ! i) p else c) c [0..<length ss]
     = decide active ss p c"
proof (induction ss arbitrary: active c)
  case (Cons bf bfs)
  have "[0..<length (bf # bfs)] = 0 # map Suc [0..<length bfs]"
    by (simp add: upt_conv_Cons map_Suc_upt del: upt_Suc)
  then show ?case using Cons [of "drop_bit 1 active"]
    by (simp only: foldl_Cons foldl_map nth_Cons_0 nth_Cons_Suc decide.simps bit_drop_bit_eq comp_def plus_1_eq_Suc)
qed simp

lemma deciding_decide: "length (bf_specs rb) = 32 \<Longrightarrow> deciding rb p = decide (active_specs rb) (bf_specs rb) p (CHR ''.'')"
  using foldl_decide [of "active_specs rb" "bf_specs rb" p] by (simp add: deciding_def rnd_limits)

text \<open>What a character asks of a bit: nothing said, the old value stays.\<close>

definition obeys :: "char \<Rightarrow> bool \<Rightarrow> bool \<Rightarrow> bool" where
  "obeys c old new \<longleftrightarrow> (c = CHR ''.'' \<longrightarrow> new = old) \<and> (c = CHR ''0'' \<longrightarrow> \<not> new) \<and> (c = CHR ''1'' \<longrightarrow> new)"

lemma apply_specs_bits:
  assumes "list_all wf_spec ss" and "259 \<le> length m" and "\<And>p. obeys (c p) (bit_at m0 p) (bit_at m p)"
    and "unat active < 2 ^ length ss"
  shows "\<exists>m1 x1. apply_specs active ss m x = Some (m1, x1) \<and> length m1 = length m \<and>
           (\<forall>p. obeys (decide active ss p (c p)) (bit_at m0 p) (bit_at m1 p))"
  using assms
proof (induction ss arbitrary: active c m x)
  case Nil
  then show ?case by (simp add: unat_eq_0)
next
  case (Cons bf bfs)
  have half: "unat (drop_bit 1 active) < 2 ^ length bfs"
    using Cons.prems(4) drop_bit_eq_div [of 1 active] unat_div [of active 2] by simp
  show ?case
  proof (cases "bit active 0")
    case True
    have room: "unat (bf_offset bf) + 4 \<le> length m" using Cons.prems(2) unsigned_less [where ?'a = nat, of "bf_offset bf"] by simp
    from apply_spec_bit [OF _ room, of x] Cons.prems(1)
    obtain m1 x1 where m1: "apply_spec bf m x = Some (m1, x1)" "length m1 = length m"
      "\<And>p. obeys (spec_at bf p) (bit_at m p) (bit_at m1 p)" by (auto simp: obeys_def)
    have "obeys (if bit active 0 \<and> spec_at bf p \<noteq> CHR ''.'' then spec_at bf p else c p) (bit_at m0 p) (bit_at m1 p)" for p
      using Cons.prems(3) [of p] m1(3) [of p] True by (auto simp: obeys_def)
    from Cons.IH [OF _ _ this half, of x1] show ?thesis using Cons.prems(1,2) m1 True and_1_bit [of active]
      by (auto simp del: One_nat_def)
  next
    case False
    from Cons.IH [OF _ Cons.prems(2,3) half, of x] show ?thesis
    proof (cases "active = 0")
      case True
      have "decide 0 ss p d = d" for ss p d by (induction ss) auto
      then show ?thesis using True Cons.prems(3) by (auto simp del: decide.simps)
    next
      case False
      then show ?thesis using Cons.IH [OF _ Cons.prems(2,3) half, of x] Cons.prems(1) \<open>\<not> bit active 0\<close> and_1_bit [of active]
        by (auto simp del: One_nat_def)
    qed
  qed
qed

lemma random_fields_bits:
  assumes "wf_bits rb" and "259 \<le> length m"
  shows "\<exists>d x1. apply_specs (active_specs rb) (bf_specs rb) m x = Some (d, x1) \<and> length d = length m \<and>
           (\<forall>p. obeys (deciding rb p) (bit_at m p) (bit_at d p))"
proof -
  have wf: "list_all wf_spec (bf_specs rb)" and len: "length (bf_specs rb) = 32" using assms(1) by (auto simp: wf_bits_def)
  have "obeys (CHR ''.'') b b" for b by (simp add: obeys_def)
  from apply_specs_bits [OF wf assms(2) this, of "active_specs rb" x] unat_less_2p32 [of "active_specs rb"]
  show ?thesis by (simp add: len deciding_decide)
qed

lemma apply_specs_inactive: "apply_specs 0 ss m x = Some (m, x)"
  by (cases ss) simp_all

text \<open>One packet of a burst before and after: nothing but bits of its data changes.\<close>

definition randomized :: "rnd_bits \<Rightarrow> 'a mbuf_scheme \<Rightarrow> 'a mbuf_scheme \<Rightarrow> bool" where
  "randomized rb m m1 \<longleftrightarrow> m1 = m\<lparr>m_data := m_data m1\<rparr> \<and> length (m_data m1) = length (m_data m) \<and>
     (\<forall>p. obeys (deciding rb p) (bit_at (m_data m) p) (bit_at (m_data m1) p))"

lemma random_fields_bursts:
  assumes "wf_bits rb" and "\<forall>m \<in> set pkts. 259 \<le> length (m_data m)"
  shows "\<exists>pkts1 x1. pktgen_rnd_bits_apply rb pkts None x = Some (pkts1, x1) \<and> list_all2 (randomized rb) pkts pkts1"
proof -
  have "\<exists>pkts1 x1. apply_pkts rb pkts x = Some (pkts1, x1) \<and> list_all2 (randomized rb) pkts pkts1"
    using assms(2)
  proof (induction pkts arbitrary: x)
    case (Cons m ms)
    obtain d x1 where d: "apply_specs (active_specs rb) (bf_specs rb) (m_data m) x = Some (d, x1)"
      "length d = length (m_data m)" "\<forall>p. obeys (deciding rb p) (bit_at (m_data m) p) (bit_at d p)"
      using random_fields_bits [OF assms(1), of "m_data m" x] Cons.prems by auto
    obtain ms1 x2 where "apply_pkts rb ms x1 = Some (ms1, x2)" "list_all2 (randomized rb) ms ms1"
      using Cons.IH [of x1] Cons.prems by auto
    moreover have "randomized rb m (m\<lparr>m_data := d\<rparr>)" using d(2,3) by (simp add: randomized_def)
    ultimately show ?case using d(1) by simp
  qed simp
  moreover have "apply_pkts rb pkts x = Some (pkts, x)" if "active_specs rb = 0"
    using that by (induction pkts) (simp_all add: apply_specs_inactive)
  ultimately show ?thesis by (cases "active_specs rb = 0") (auto simp: pktgen_rnd_bits_apply_def)
qed

text \<open>
  C34 Random bit fields: on packets with room for 259 bytes the application of the fields stays in the
  buffers, and every bit of a packet becomes what the last active field that mentions it asks: 0 and
  1 are set, other bits than those of a field are left alone.
\<close>

theorem random_fields_applied:
  assumes "wf_bits rb" and "\<forall>m \<in> set pkts. 259 \<le> length (m_data m)"
  shows "\<exists>pkts1 x1. pktgen_rnd_bits_apply rb pkts None x = Some (pkts1, x1) \<and> list_all2 (randomized rb) pkts pkts1"
  using assms by (rule random_fields_bursts)

definition sample_bits :: rnd_bits where
  "sample_bits = pktgen_set_random_bitfield pktgen_rnd_bits_init 3 1 ''01.1''"

lemma random_fields_applied_witness:
  "\<exists>m1 x1. pktgen_rnd_bits_apply sample_bits
      [\<lparr>m_data = replicate 260 0xAA, m_pool = None, m_next = None, m_data_len = 64, m_pkt_len = 64, m_port = 0, m_ol_flags = 0\<rparr>]
      None 1 = Some ([m1], x1) \<and> \<not> bit_at (m_data m1) 8 \<and> bit_at (m_data m1) 9"
proof -
  have d: "deciding sample_bits 8 = CHR ''0''" "deciding sample_bits 9 = CHR ''1''" by code_simp+
  have "wf_bits sample_bits" by (simp add: sample_bits_def wf_bits_set wf_bits_init)
  from random_fields_applied [OF this, of "[\<lparr>m_data = replicate 260 0xAA, m_pool = None, m_next = None,
      m_data_len = 64, m_pkt_len = 64, m_port = 0, m_ol_flags = 0\<rparr>]" 1]
  obtain m1 x1 where "pktgen_rnd_bits_apply sample_bits
      [\<lparr>m_data = replicate 260 0xAA, m_pool = None, m_next = None, m_data_len = 64, m_pkt_len = 64, m_port = 0, m_ol_flags = 0\<rparr>]
      None 1 = Some ([m1], x1)" "\<forall>p. obeys (deciding sample_bits p) (bit_at (replicate 260 0xAA) p) (bit_at (m_data m1) p)"
    by (auto simp: list_all2_Cons1 randomized_def)
  moreover from this(2) d have "\<not> bit_at (m_data m1) 8" "bit_at (m_data m1) 9" by (metis obeys_def)+
  ultimately show ?thesis by blast
qed

text \<open>
  Unset fields: the initialisation of the bit fields passes a template of 32 question marks, a
  character that is refused, so that it changes nothing: a field that was never set prints as 32 zero
  bits instead of bits left alone.
\<close>

lemma unset_fields_print_zero:
  "pktgen_rnd_bits_init = \<lparr>active_specs = 0, bf_specs = replicate 32 zero_spec\<rparr> \<and>
   convert_bitfield zero_spec = replicate 32 (CHR ''0'')"
  using rnd_bits_init by (simp add: list_eq_iff_nth_eq convert_nth zero_spec_def ntohl_0)

end
