(* ===== verification/TxPath.thy ===== *)
theory TxPath
  imports Latency RandomBits PktSetup
begin

text \<open>
  The transmit side of a core (\<open>app/pktgen.c\<close>): the rate of a port as cycles between two bursts, the loop of a
  core that sends when the time has come, the handing over of a burst to the device with the random bit
  fields and the probes of the latency measurement, and the commands that change rate, burst and size
  (\<open>app/pktgen-cmds.c\<close>). The device is a function that says how many packets each call of
  \<open>rte_eth_tx_burst\<close> takes; a double is a rational, rounded by \<open>fl\<close> after each operation.
\<close>

definition Million :: u64 where "Million = 1000000"
definition PKT_OVERHEAD_SIZE :: u32 where "PKT_OVERHEAD_SIZE = 12 + 1 + 7 + 4"
definition DEFAULT_MAX_TX_LAG :: int where "DEFAULT_MAX_TX_LAG = 20000"
definition MAX_PKT_TX_BURST :: u32 where "MAX_PKT_TX_BURST = 256"
definition MAX_PKT_RX_BURST :: u32 where "MAX_PKT_RX_BURST = 256"

subsection \<open>The rate\<close>

record rate_port =
  rp_build :: build
  rp_link_speed :: u32
  rp_tx_rate :: rat
  rp_tx_pps :: u64
  rp_avg_pkt_size :: u32

text \<open>\<open>WIRE_SIZE\<close>: the sum is computed in 32 bits.\<close>

definition wire_size :: "u32 \<Rightarrow> u64" where "wire_size pkt_size = ucast (pkt_size + PKT_OVERHEAD_SIZE)"

definition pktgen_wire_size :: "u32 \<Rightarrow> port_info \<Rightarrow> u64" where
  "pktgen_wire_size avg pinfo =
     (let n = unat (seqCnt pinfo);
          bytes = (if pktgen_tst_port_flags SEND_PCAP_PKTS pinfo then wire_size avg
                   else if seqCnt pinfo > 0
                     then sum_list (map (\<lambda>i. wire_size (ucast (pk_size (seq_pkt pinfo ! i)))) [0..<n]) div of_nat n
                   else wire_size (ucast (pk_size (seq_pkt pinfo ! SINGLE_PKT))))
      in bytes * 8)"

text \<open>The packets per second for a queue, before the fraction is cut off.\<close>

definition thread_pps :: "(rat \<Rightarrow> rat) \<Rightarrow> rate_port \<Rightarrow> nat \<Rightarrow> rat" where
  "thread_pps fl rp txcnt =
     (let link_speed = ucast (rp_link_speed rp) * Million;
          line = link_speed div pktgen_wire_size (rp_avg_pkt_size rp) (b_pinfo (rp_build rp))
      in fl (fl (fl (of_nat (unat line)) * fl (rp_tx_rate rp / of_nat txcnt)) / 100))"

text \<open>No value where the conversion of the double to an integer is undefined: no queue, or out of range.\<close>

definition pktgen_packet_rate :: "(rat \<Rightarrow> rat) \<Rightarrow> u64 \<Rightarrow> l2p \<Rightarrow> rate_port \<Rightarrow> rate_port option" where
  "pktgen_packet_rate fl timer_hz t rp =
     (let port = b_pinfo (rp_build rp); txcnt = l2p_get_txcnt t (unat (p_pid port)) in
      if rp_link_speed rp = 0 \<or> rp_tx_rate rp = 0
      then Some (rp\<lparr>rp_build := with_pinfo (\<lambda>p. p\<lparr>tx_cycles := 0\<rparr>) (rp_build rp), rp_tx_pps := 0\<rparr>)
      else if txcnt = 0 then None
      else
        (let d = thread_pps fl rp txcnt in
         if d \<le> -1 \<or> 2 ^ 64 \<le> d then None
         else let pps0 = of_nat (nat \<lfloor>d\<rfloor>); pps = (if pps0 > 0 then pps0 else 1);
                  cpb = (pps div 2 + of_nat txcnt * ucast (tx_burst port) * timer_hz) div pps
              in Some (rp\<lparr>rp_build := with_pinfo (\<lambda>p. p\<lparr>tx_cycles := cpb\<rparr>) (rp_build rp), rp_tx_pps := pps\<rparr>)))"

definition set_burst :: "(u16 \<Rightarrow> port_info \<Rightarrow> port_info) \<Rightarrow> u32 \<Rightarrow> u32 \<Rightarrow> rate_port \<Rightarrow> rate_port" where
  "set_burst f limit burst rp =
     (let b = (if burst = 0 then 1 else if burst > limit then limit else burst)
      in rp\<lparr>rp_build := with_pinfo (f (ucast b)) (rp_build rp)\<rparr>)"

definition single_set_tx_burst :: "(rat \<Rightarrow> rat) \<Rightarrow> u64 \<Rightarrow> l2p \<Rightarrow> u32 \<Rightarrow> rate_port \<Rightarrow> rate_port option" where
  "single_set_tx_burst fl hz t burst rp =
     pktgen_packet_rate fl hz t (set_burst (\<lambda>b p. p\<lparr>tx_burst := b, tx_cycles := 0\<rparr>) MAX_PKT_TX_BURST burst rp)"

definition single_set_rx_burst :: "(rat \<Rightarrow> rat) \<Rightarrow> u64 \<Rightarrow> l2p \<Rightarrow> u32 \<Rightarrow> rate_port \<Rightarrow> rate_port option" where
  "single_set_rx_burst fl hz t burst rp =
     pktgen_packet_rate fl hz t (set_burst (\<lambda>b p. p\<lparr>rx_burst := b\<rparr>) MAX_PKT_RX_BURST burst rp)"

definition debug_set_tx_cycles :: "u32 \<Rightarrow> port_info \<Rightarrow> port_info" where
  "debug_set_tx_cycles cycles pinfo = pinfo\<lparr>tx_cycles := ucast cycles\<rparr>"

text \<open>\<open>rate\<close> is what \<open>strtod\<close> makes of the argument.\<close>

definition single_set_tx_rate :: "(rat \<Rightarrow> rat) \<Rightarrow> u64 \<Rightarrow> l2p \<Rightarrow> rat \<Rightarrow> rate_port \<Rightarrow> rate_port option" where
  "single_set_tx_rate fl hz t rate rp =
     (let r = (if rate = 0 then fl (1 / 100) else if rate > 100 then 100 else rate)
      in pktgen_packet_rate fl hz t (rp\<lparr>rp_tx_rate := r, rp_build := with_pinfo (\<lambda>p. p\<lparr>tx_cycles := 0\<rparr>) (rp_build rp)\<rparr>))"

definition single_set_pkt_size ::
  "(rat \<Rightarrow> rat) \<Rightarrow> u64 \<Rightarrow> l2p \<Rightarrow> build_env \<Rightarrow> u16 \<Rightarrow> rate_port \<Rightarrow> rate_port option" where
  "single_set_pkt_size fl hz t env size0 rp =
     (let pkt = seq_pkt (b_pinfo (rp_build rp)) ! SINGLE_PKT;
          s1 = (if size0 < RTE_ETHER_MIN_LEN then RTE_ETHER_MIN_LEN else size0);
          s2 = (if be_jumbo env \<and> s1 > RTE_ETHER_MAX_JUMBO_FRAME_LEN then RTE_ETHER_MAX_JUMBO_FRAME_LEN
                else if \<not> be_jumbo env \<and> s1 > RTE_ETHER_MAX_LEN then RTE_ETHER_MAX_LEN else s1);
          s3 = (if ethType pkt = RTE_ETHER_TYPE_IPV6 \<and> s2 < MIN_v6_PKT_SIZE then MIN_v6_PKT_SIZE else s2)
      in case pktgen_packet_ctor env SINGLE_PKT (-1)
                (with_pinfo (upd_pkt SINGLE_PKT (\<lambda>p. p\<lparr>pk_size := s3 - RTE_ETHER_CRC_LEN\<rparr>)) (rp_build rp)) of
           None \<Rightarrow> None
         | Some b \<Rightarrow> pktgen_packet_rate fl hz t (rp\<lparr>rp_build := b\<rparr>))"

subsection \<open>The loop of a core\<close>

text \<open>When the time has come, and the next time: a lag of up to the limit is made good, a larger one is not.\<close>

definition tx_due :: "u64 \<Rightarrow> u64 \<Rightarrow> u64 \<Rightarrow> bool \<times> u64" where
  "tx_due cycles curr_tsc tx_next_cycle =
     (let dt = sint (curr_tsc - tx_next_cycle) in
      if dt \<ge> 0 then (True, curr_tsc + cycles - (if dt \<le> DEFAULT_MAX_TX_LAG then of_int dt else 0))
      else (False, tx_next_cycle))"

datatype loop_act = Receive | Transmit | Bond_burst

text \<open>One round: the reading of the clock, the cycles of the port, and whether it is bonding, at that time.\<close>

definition loop_round :: "bool \<Rightarrow> u64 \<Rightarrow> u64 \<times> u64 \<times> bool \<Rightarrow> u64 \<times> u64 \<Rightarrow> loop_act list \<times> u64 \<times> u64" where
  "loop_round rx timer_hz = (\<lambda>(curr_tsc, cycles, bonding) (next_tx, bond).
     let (due, next1) = tx_due cycles curr_tsc next_tx in
     ((if rx then [Receive] else []) @ (if due then [Transmit] else [])
      @ (if curr_tsc \<ge> bond \<and> bonding then [Bond_burst] else []),
      next1, if curr_tsc \<ge> bond then curr_tsc + timer_hz div 10 else bond))"

fun loop_rounds :: "bool \<Rightarrow> u64 \<Rightarrow> (u64 \<times> u64 \<times> bool) list \<Rightarrow> u64 \<times> u64 \<Rightarrow> loop_act list" where
  "loop_rounds rx hz [] s = []"
| "loop_rounds rx hz (r # rs) s = (let (acts, s1) = loop_round rx hz r s in acts @ loop_rounds rx hz rs s1)"

text \<open>The loops until the program is told to quit; \<open>start\<close> is the first reading of the clock.\<close>

definition pktgen_main_rxtx_loop :: "u64 \<Rightarrow> u64 \<Rightarrow> (u64 \<times> u64 \<times> bool) list \<Rightarrow> loop_act list" where
  "pktgen_main_rxtx_loop hz start rounds = loop_rounds True hz rounds (start, start + hz div 10)"

definition pktgen_main_tx_loop :: "u64 \<Rightarrow> u64 \<Rightarrow> u64 \<Rightarrow> (u64 \<times> u64 \<times> bool) list \<Rightarrow> loop_act list" where
  "pktgen_main_tx_loop hz start cycles rounds = loop_rounds False hz rounds (start + cycles, start + hz div 10)"

subsection \<open>Handing over a burst\<close>

text \<open>
  \<open>accepts k\<close>: how many packets call number \<open>k\<close> of \<open>rte_eth_tx_burst\<close> takes when enough are offered. The loop
  need not end, so its value is an option.
\<close>

partial_function (option) tx_burst_all :: "(nat \<Rightarrow> nat) \<Rightarrow> nat \<Rightarrow> 'm list \<Rightarrow> 'm list \<Rightarrow> ('m list \<times> nat) option" where
  "tx_burst_all accepts k pkts out =
     (let sent = min (accepts k) (length pkts) in
      if drop sent pkts = [] then Some (out @ take sent pkts, k + 1)
      else tx_burst_all accepts (k + 1) (drop sent pkts) (out @ take sent pkts))"

record tx_state =
  x_build :: build
  x_lat :: latency
  x_rnd :: rnd_bits
  x_rng :: u64
  x_opackets :: u64
  x_calls :: nat
  x_sent :: "mbuf list"

text \<open>\<open>got\<close>: the buffer that the pool of the special packets gives, if any; \<open>curr_ts\<close> the reading of the clock.\<close>

definition pktgen_tstamp_inject ::
  "build_env \<Rightarrow> (nat \<Rightarrow> nat) \<Rightarrow> mbuf option \<Rightarrow> u64 \<Rightarrow> tx_state \<Rightarrow> tx_state option" where
  "pktgen_tstamp_inject env accepts got curr_ts s =
     (let lat = x_lat s in
      if curr_ts \<ge> latency_timo_cycles lat then
        (let lat1 = lat\<lparr>latency_timo_cycles := curr_ts + latency_rate_cycles lat\<rparr> in
         case got of
           None \<Rightarrow> Some (s\<lparr>x_lat := lat1\<rparr>)
         | Some mbuf \<Rightarrow>
             (let pktsize = pk_size (seq_pkt (b_pinfo (x_build s)) ! LATENCY_PKT) in
              case pktgen_packet_ctor (env\<lparr>be_entropy := latency_entropy lat\<rparr>) LATENCY_PKT (-2)
                     ((x_build s)\<lparr>b_next_index := next_index lat\<rparr>) of
                None \<Rightarrow> None
              | Some b \<Rightarrow>
                  if length (b_hdr b ! LATENCY_PKT) < unat pktsize then None
                  else case mtod_write (take (unat pktsize) (b_hdr b ! LATENCY_PKT))
                              (mbuf\<lparr>m_pkt_len := ucast pktsize, m_data_len := pktsize\<rparr>) of
                    None \<Rightarrow> None
                  | Some m \<Rightarrow>
                      (case tx_burst_all accepts (x_calls s) [m] (x_sent s) of
                         None \<Rightarrow> None
                       | Some (out, k) \<Rightarrow>
                           Some (s\<lparr>x_build := b, x_calls := k, x_sent := out,
                                   x_lat := lat1\<lparr>next_index := b_next_index b, num_latency_tx_pkts := num_latency_tx_pkts lat + 1\<rparr>\<rparr>))))
      else Some s)"

definition tx_send_packets ::
  "build_env \<Rightarrow> (nat \<Rightarrow> nat) \<Rightarrow> mbuf option \<Rightarrow> u64 \<Rightarrow> nat \<Rightarrow> mbuf list \<Rightarrow> tx_state \<Rightarrow> tx_state option" where
  "tx_send_packets env accepts got curr_ts qid pkts s =
     (if pkts = [] then Some s
      else
        (let pinfo = b_pinfo (x_build s); s1 = s\<lparr>x_opackets := x_opackets s + of_nat (length pkts)\<rparr> in
         case (if pktgen_tst_port_flags SEND_RANDOM_PKTS pinfo then pktgen_rnd_bits_apply (x_rnd s) pkts None (x_rng s)
               else Some (pkts, x_rng s)) of
           None \<Rightarrow> None
         | Some (pkts1, rng1) \<Rightarrow>
             (case tx_burst_all accepts (x_calls s1) pkts1 (x_sent s1) of
                None \<Rightarrow> None
              | Some (out, k) \<Rightarrow>
                  (let s2 = s1\<lparr>x_rng := rng1, x_sent := out, x_calls := k\<rparr> in
                   if qid = 0 \<and> pktgen_tst_port_flags SEND_LATENCY_PKTS pinfo
                   then pktgen_tstamp_inject env accepts got curr_ts s2 else Some s2))))"

section \<open>Pacing\<close>

text \<open>The bursts among the rounds, as readings of the clock answered with or without a burst.\<close>

fun bursts :: "u64 \<Rightarrow> u64 list \<Rightarrow> u64 \<Rightarrow> nat" where
  "bursts cycles [] nxt = 0"
| "bursts cycles (t # ts) nxt = (let (due, n1) = tx_due cycles t nxt in (if due then 1 else 0) + bursts cycles ts n1)"

lemma bursts_count:
  "length (filter (\<lambda>a. a = Transmit) (loop_rounds rx hz (map (\<lambda>t. (t, cycles, bonding)) ts) (nxt, bond))) = bursts cycles ts nxt"
proof (induction ts arbitrary: nxt bond)
  case (Cons t ts)
  obtain due n1 where d: "tx_due cycles t nxt = (due, n1)" by (rule prod.exhaust)
  then show ?case by (simp add: loop_round_def Cons.IH)
qed simp

lemma sint_diff:
  fixes a b :: u64
  assumes "unat a < 2 ^ 63" and "unat b < 2 ^ 63"
  shows "sint (a - b) = int (unat a) - int (unat b)"
proof -
  have "a - b = of_int (int (unat a) - int (unat b))" by simp
  then have "sint (a - b) = signed_take_bit 63 (int (unat a) - int (unat b))"
    by (simp only: signed_of_int) simp
  also have "signed_take_bit 63 (int m - int n) = int m - int n" if "m < 2 ^ 63" "n < 2 ^ 63" for m n :: nat
    using that by (intro signed_take_bit_int_eq_self) auto
  from this [OF assms] have "signed_take_bit 63 (int (unat a) - int (unat b)) = int (unat a) - int (unat b)" .
  finally show ?thesis .
qed

text \<open>On times that are far from the end of the counter the test is the comparison of the two times.\<close>

lemma tx_due_nat:
  assumes "unat now < 2 ^ 62" and "unat nxt < 2 ^ 62" and "unat cycles < 2 ^ 62"
  shows "fst (tx_due cycles now nxt) \<longleftrightarrow> unat nxt \<le> unat now"
    and "unat (snd (tx_due cycles now nxt)) =
      (if unat nxt \<le> unat now
       then unat now + unat cycles - (if unat now - unat nxt \<le> 20000 then unat now - unat nxt else 0) else unat nxt)"
proof -
  have "sint (now - nxt) = int (unat now) - int (unat nxt)" using assms by (intro sint_diff) simp_all
  then have d: "0 \<le> sint (now - nxt) \<longleftrightarrow> unat nxt \<le> unat now"
    "unat nxt \<le> unat now \<Longrightarrow> sint (now - nxt) \<le> 20000 \<longleftrightarrow> unat now - unat nxt \<le> 20000" by linarith+
  then show "fst (tx_due cycles now nxt) \<longleftrightarrow> unat nxt \<le> unat now" by (simp add: tx_due_def Let_def)
  have sum: "unat (now + cycles) = unat now + unat cycles" using assms by (simp add: unat_add_no_wrap)
  have "now + cycles - (now - nxt) = nxt + cycles" by simp
  then have "unat (now + cycles - (now - nxt)) = unat nxt + unat cycles" using assms by (simp add: unat_add_no_wrap)
  then show "unat (snd (tx_due cycles now nxt)) =
      (if unat nxt \<le> unat now
       then unat now + unat cycles - (if unat now - unat nxt \<le> 20000 then unat now - unat nxt else 0) else unat nxt)"
    using d sum by (auto simp: tx_due_def DEFAULT_MAX_TX_LAG_def Let_def)
qed

text \<open>
  C28 Never faster than the rate: however a core is delayed, by the last reading of the clock it has sent no more
  bursts than fit since the first due time at one in \<open>tx_cycles\<close>, the first one included.
\<close>

theorem pace_never_too_fast:
  assumes "\<forall>t \<in> set ts. unat t \<le> T" and "T < 2 ^ 61" and "unat nxt < 2 ^ 62" and "unat cycles < 2 ^ 61"
  shows "unat cycles * bursts cycles ts nxt \<le> (if unat nxt \<le> T then T - unat nxt + unat cycles else 0)"
  using assms(1,3)
proof (induction ts arbitrary: nxt)
  case (Cons t ts)
  obtain due n1 where d: "tx_due cycles t nxt = (due, n1)" by (rule prod.exhaust)
  have t: "unat t \<le> T" using Cons.prems(1) by simp
  have lt: "unat t < 2 ^ 62" "unat cycles < 2 ^ 62" using t assms(2,4) by simp_all
  note nat = tx_due_nat [OF lt(1) Cons.prems(2) lt(2), unfolded d fst_conv snd_conv]
  show ?case
  proof (cases "unat nxt \<le> unat t")
    case True
    have n1: "due" "unat nxt + unat cycles \<le> unat n1" "unat n1 \<le> unat t + unat cycles" using nat True by auto
    have "unat n1 < 2 ^ 62" using n1(3) t assms(2,4) by simp
    then have "unat cycles * bursts cycles ts n1 \<le> (if unat n1 \<le> T then T - unat n1 + unat cycles else 0)"
      using Cons.IH [of n1] Cons.prems(1) by simp
    then show ?thesis using n1 d t True by (auto simp: algebra_simps split: if_splits)
  next
    case False
    then have "n1 = nxt" "\<not> due" using nat by (simp_all add: word_unat_eq_iff)
    then show ?thesis using Cons.IH [OF _ Cons.prems(2)] Cons.prems(1) d by simp
  qed
qed simp

lemma pace_never_too_fast_witness:
  "1000 * bursts 1000 [5000, 5100, 90000, 90010, 91500] 5000 \<le> 91500 - 5000 + 1000"
  using pace_never_too_fast [of "[5000, 5100, 90000, 90010, 91500]" 91500 5000 1000] by simp

text \<open>
  C27 No drift: a core that looks at the clock at least every \<open>g\<close> cycles, less than the time between two bursts
  and no more than the lag that is made good, has at each reading sent exactly the bursts that are due
  by then, one every \<open>tx_cycles\<close> from the first due time on, however late each of them was.
\<close>

theorem pace_keeps_rate:
  assumes "ts \<noteq> []" and "sorted_wrt (\<lambda>a b. unat a \<le> unat b) (prev # ts)"
    and "\<forall>(a, b) \<in> set (zip (prev # ts) ts). unat b \<le> unat a + g" and "unat prev \<le> unat nxt"
    and "g < unat cycles" and "g \<le> 20000" and "\<forall>t \<in> set ts. unat t < 2 ^ 61" and "unat cycles < 2 ^ 61" and "unat nxt < 2 ^ 62"
  shows "bursts cycles ts nxt =
    (if unat (last ts) < unat nxt then 0 else (unat (last ts) - unat nxt) div unat cycles + 1)"
  using assms(1-4,7,9)
proof (induction ts arbitrary: prev nxt)
  case (Cons t ts)
  obtain due n1 where d: "tx_due cycles t nxt = (due, n1)" by (rule prod.exhaust)
  have t: "unat t < 2 ^ 61" "unat t \<le> unat prev + g" using Cons.prems by auto
  have lt: "unat t < 2 ^ 62" "unat cycles < 2 ^ 62" using t assms(8) by simp_all
  note nat = tx_due_nat [OF lt(1) Cons.prems(6) lt(2), unfolded d fst_conv snd_conv]
  have mono: "unat t \<le> unat (last ts)" if "ts \<noteq> []" using Cons.prems(2) that by simp
  show ?case
  proof (cases "unat nxt \<le> unat t")
    case True
    then have lag: "unat t - unat nxt \<le> g" using t(2) Cons.prems(4) by simp
    then have n1: "due" "unat n1 = unat nxt + unat cycles" "unat t < unat n1" using nat True assms(5,6) by auto
    then have big: "unat n1 < 2 ^ 62" using t(1) True assms(8) by simp
    show ?thesis
    proof (cases "ts = []")
      case True
      then show ?thesis using d n1 lag assms(5) \<open>unat nxt \<le> unat t\<close> by simp
    next
      case ne: False
      have "bursts cycles ts n1 = (if unat (last ts) < unat n1 then 0 else (unat (last ts) - unat n1) div unat cycles + 1)"
        using Cons.IH [OF ne, of t n1] Cons.prems(2,3,5) n1(3) big by auto
      moreover have "(unat (last ts) - unat nxt) div unat cycles = (if unat (last ts) < unat n1 then 0
          else (unat (last ts) - unat n1) div unat cycles + 1)"
      proof (cases "unat (last ts) < unat n1")
        case False
        then have e: "unat (last ts) - unat nxt = (unat (last ts) - unat n1) + unat cycles" using n1(2) by simp
        show ?thesis unfolding e using False assms(5) by (simp only: div_add_self2 if_False)
      next
        case True
        then have "unat (last ts) - unat nxt < unat cycles" using n1(2) assms(5) by linarith
        then show ?thesis using True by simp
      qed
      ultimately show ?thesis using d n1 ne mono True by auto
    qed
  next
    case False
    then have n1: "n1 = nxt" "\<not> due" using nat by (simp_all add: word_unat_eq_iff)
    show ?thesis
    proof (cases "ts = []")
      case True
      then show ?thesis using d n1 False by simp
    next
      case ne: False
      then show ?thesis using Cons.IH [OF ne, of t nxt] Cons.prems(2,3,5,6) n1 d False by auto
    qed
  qed
qed simp

lemma pace_keeps_rate_witness:
  "bursts 1000 [5000, 5600, 6300, 7100, 7900] 5000 = 3"
  using pace_keeps_rate [of "[5000, 5600, 6300, 7100, 7900]" 5000 900 5000 1000] by simp

section \<open>The rate asked for and the rate of the port\<close>

lemma div_round: "(c div 2 + x) div c * c \<le> c div 2 + x" "c div 2 + x < ((c div 2 + x) div c + 1) * c" if "0 < c" for c x :: nat
  using that by (simp_all add: div_times_less_eq_dividend dividend_less_div_times)

lemma nat_floor_less: "d < 2 ^ 64 \<Longrightarrow> nat \<lfloor>d\<rfloor> < 2 ^ 64" for d :: rat
proof -
  assume "d < 2 ^ 64"
  then have "\<lfloor>d\<rfloor> < 2 ^ 64" by (simp add: floor_less_iff)
  then show ?thesis by (cases "0 \<le> \<lfloor>d\<rfloor>") (simp_all add: nat_less_iff)
qed

lemma at_least_1: "k < 2 ^ 64 \<Longrightarrow> unat (if of_nat k > (0 :: u64) then of_nat k else 1 :: u64) = (if 0 < k then k else 1)"
  using unat_of_nat_small [where ?'w = 64, of k] by (simp add: word_less_nat_alt)

lemma unat_mult_no_wrap:
  "unat a * unat b < 2 ^ LENGTH('w) \<Longrightarrow> unat (a * b) = unat a * unat b" for a b :: "'w::len word"
  by (simp add: unat_word_ariths)

lemma unat_ucast_16_64: "unat (ucast x :: u64) = unat x" for x :: u16
  using unsigned_less [where ?'a = nat, of x] by (simp add: unsigned_ucast_eq take_bit_nat_eq_self)

text \<open>What a successful computation leaves in the port.\<close>

lemma packet_rate_values:
  assumes "pktgen_packet_rate fl hz t rp = Some rp1" and "rp_link_speed rp \<noteq> 0" and "rp_tx_rate rp \<noteq> 0"
    and "n = l2p_get_txcnt t (unat (p_pid (b_pinfo (rp_build rp))))" and "n < 2 ^ 16"
    and "burst = unat (tx_burst (b_pinfo (rp_build rp)))" and "pps = unat (rp_tx_pps rp1)"
    and "pps div 2 + n * burst * unat hz < 2 ^ 64"
  shows "0 < n" and "0 < pps" and "unat (tx_cycles (b_pinfo (rp_build rp1))) = (pps div 2 + n * burst * unat hz) div pps"
    and "pps = (if 1 \<le> thread_pps fl rp n then nat \<lfloor>thread_pps fl rp n\<rfloor> else 1)"
proof -
  define d where "d = thread_pps fl rp n"
  define P where "P = (if of_nat (nat \<lfloor>d\<rfloor>) > (0 :: u64) then of_nat (nat \<lfloor>d\<rfloor>) else 1 :: u64)"
  have r: "0 < n" "-1 < d" "d < 2 ^ 64"
    and rp1: "rp1 = rp\<lparr>rp_build := with_pinfo (\<lambda>p. p\<lparr>tx_cycles :=
        (P div 2 + of_nat n * ucast (tx_burst (b_pinfo (rp_build rp))) * hz) div P\<rparr>) (rp_build rp), rp_tx_pps := P\<rparr>"
    using assms(1-3) unfolding pktgen_packet_rate_def Let_def assms(4) [symmetric] d_def [symmetric] P_def [symmetric]
    by (simp_all split: if_splits)
  have pps: "pps = unat P" using assms(7) by (simp add: rp1)
  have val: "pps = (if 1 \<le> d then nat \<lfloor>d\<rfloor> else 1)"
    unfolding pps P_def at_least_1 [OF nat_floor_less [OF r(3)]] by (simp add: one_le_floor)
  show "0 < n" by (rule r(1))
  show "0 < pps" using val by (cases "1 \<le> d") simp_all
  show "pps = (if 1 \<le> thread_pps fl rp n then nat \<lfloor>thread_pps fl rp n\<rfloor> else 1)"
    using val unfolding d_def .
  have prod: "unat (of_nat n * ucast (tx_burst (b_pinfo (rp_build rp))) * hz) = n * burst * unat hz"
  proof -
    have "n * burst < 2 ^ 16 * 2 ^ 16"
      using assms(5,6) unsigned_less [where ?'a = nat, of "tx_burst (b_pinfo (rp_build rp))"] by (intro mult_strict_mono) auto
    moreover have "unat (of_nat n :: u64) = n" using assms(5) by (simp add: unat_of_nat_small)
    ultimately have "unat (of_nat n * ucast (tx_burst (b_pinfo (rp_build rp))) :: u64) = n * burst"
      by (simp add: unat_mult_no_wrap unat_ucast_16_64 assms(6))
    then show ?thesis using assms(8) by (simp add: unat_mult_no_wrap)
  qed
  show "unat (tx_cycles (b_pinfo (rp_build rp1))) = (pps div 2 + n * burst * unat hz) div pps"
    using assms(8) prod by (simp add: rp1 with_pinfo_def unat_div unat_add_no_wrap pps)
qed

text \<open>
  Cycles between bursts: when every queue of a port sends one burst per \<open>tx_cycles\<close>, the port sends the
  packets per second that the rate computation found, to within half a cycle per packet.
\<close>

lemma tx_cycles_make_pps:
  assumes "pktgen_packet_rate fl hz t rp = Some rp1" and "rp_link_speed rp \<noteq> 0" and "rp_tx_rate rp \<noteq> 0"
    and "n = l2p_get_txcnt t (unat (p_pid (b_pinfo (rp_build rp))))" and "n < 2 ^ 16"
    and "burst = unat (tx_burst (b_pinfo (rp_build rp)))" and "pps = unat (rp_tx_pps rp1)"
    and "pps div 2 + n * burst * unat hz < 2 ^ 64" and "cycles = unat (tx_cycles (b_pinfo (rp_build rp1)))"
  shows "0 < pps \<and> 2 * (n * burst * unat hz) \<le> 2 * cycles * pps + pps \<and> 2 * cycles * pps \<le> 2 * (n * burst * unat hz) + pps"
proof -
  note v = packet_rate_values [OF assms(1-8)]
  define X where "X = n * burst * unat hz"
  have c: "cycles = (pps div 2 + X) div pps" using v(3) assms(9) by (simp add: X_def)
  have "cycles * pps \<le> pps div 2 + X" "pps div 2 + X < (cycles + 1) * pps"
    using div_round [OF v(2), of X] unfolding c .
  then have "2 * X \<le> 2 * (cycles * pps) + pps \<and> 2 * (cycles * pps) \<le> 2 * X + pps"
    by (simp add: algebra_simps) linarith
  then show ?thesis using v(2) by (simp add: X_def algebra_simps)
qed

text \<open>
  Rate over several queues: the packets per second found are those of one queue, the share of the line
  divided by the number of queues, but the cycles make them the packets of the whole port: a port with
  several queues sends no more than that fraction of the rate that was asked for.
\<close>

lemma rate_divided_by_queues:
  assumes "pktgen_packet_rate id hz t rp = Some rp1" and "rp_link_speed rp \<noteq> 0" and "rp_tx_rate rp \<noteq> 0"
    and "n = l2p_get_txcnt t (unat (p_pid (b_pinfo (rp_build rp))))" and "n < 2 ^ 16"
    and "burst = unat (tx_burst (b_pinfo (rp_build rp)))" and "pps = unat (rp_tx_pps rp1)"
    and "pps div 2 + n * burst * unat hz < 2 ^ 64" and "1 < pps"
  shows "of_nat (n * pps) \<le> of_nat (unat (ucast (rp_link_speed rp) * Million
      div pktgen_wire_size (rp_avg_pkt_size rp) (b_pinfo (rp_build rp)))) * rp_tx_rate rp / 100"
proof -
  note v = packet_rate_values [OF assms(1-8)]
  define L where "L = unat (ucast (rp_link_speed rp) * Million div pktgen_wire_size (rp_avg_pkt_size rp) (b_pinfo (rp_build rp)))"
  have d: "thread_pps id rp n = of_nat L * (rp_tx_rate rp / of_nat n) / 100" by (simp add: thread_pps_def Let_def L_def)
  have "1 \<le> thread_pps id rp n" "pps = nat \<lfloor>thread_pps id rp n\<rfloor>" using v(4) assms(9) by (auto split: if_splits)
  then have "of_nat pps \<le> thread_pps id rp n" by (simp add: of_nat_floor)
  then have "of_nat n * of_nat pps \<le> of_nat n * thread_pps id rp n" by (intro mult_left_mono) simp_all
  also have "of_nat n * thread_pps id rp n = of_nat L * rp_tx_rate rp / 100" using v(1) by (simp add: d)
  finally show ?thesis by (simp add: L_def)
qed

text \<open>A port at ten gigabits with two transmit queues.\<close>

definition two_queues :: l2p where
  "two_queues = upd_port 0 (\<lambda>p. p\<lparr>l_pid := 0, num_rx_qids := 1, num_tx_qids := 2\<rparr>) l2p_zero"

definition ten_gigabit :: rate_port where
  "ten_gigabit = \<lparr>rp_build = tcp_build (tcp_template PG_IPPROTO_UDP) 0, rp_link_speed = 10000, rp_tx_rate = 100,
     rp_tx_pps = 0, rp_avg_pkt_size = 0\<rparr>"

lemma ten_gigabit_facts:
  "l2p_get_txcnt two_queues (unat (p_pid (b_pinfo (rp_build ten_gigabit)))) = 2"
  "unat (tx_burst (b_pinfo (rp_build ten_gigabit))) = 32"
  "thread_pps id ten_gigabit 2 = 14204545 / 2"
  "unat (ucast (rp_link_speed ten_gigabit) * Million div pktgen_wire_size (rp_avg_pkt_size ten_gigabit) (b_pinfo (rp_build ten_gigabit)))
     = 14204545"
  by (simp_all add: two_queues_def ten_gigabit_def l2p_get_txcnt_def l2p_zero_def RTE_MAX_ETHPORTS_def tcp_build_def
      tcp_template_def thread_pps_def Million_def pktgen_wire_size_def wire_size_def PKT_OVERHEAD_SIZE_def SINGLE_PKT_def
      pktgen_tst_port_flags_def Let_def)

lemma ten_gigabit_rate:
  obtains rp1 where "pktgen_packet_rate id 1000000000 two_queues ten_gigabit = Some rp1"
    and "unat (rp_tx_pps rp1) div 2 + 2 * 32 * unat (1000000000 :: u64) < 2 ^ 64"
proof -
  have "pktgen_packet_rate id 1000000000 two_queues ten_gigabit \<noteq> None"
    by (simp add: pktgen_packet_rate_def ten_gigabit_facts Let_def)
  then obtain rp1 where "pktgen_packet_rate id 1000000000 two_queues ten_gigabit = Some rp1" by blast
  moreover have "unat (rp_tx_pps rp1) div 2 + 2 * 32 * unat (1000000000 :: u64) < 2 ^ 64"
    using unat_less_2p64 [of "rp_tx_pps rp1"] by simp
  ultimately show thesis by (rule that)
qed

lemma tx_cycles_make_pps_witness:
  "\<exists>rp1. pktgen_packet_rate id 1000000000 two_queues ten_gigabit = Some rp1 \<and> 0 < unat (rp_tx_pps rp1)"
proof -
  obtain rp1 where rp1: "pktgen_packet_rate id 1000000000 two_queues ten_gigabit = Some rp1"
    "unat (rp_tx_pps rp1) div 2 + 2 * 32 * unat (1000000000 :: u64) < 2 ^ 64" by (rule ten_gigabit_rate)
  have "rp_link_speed ten_gigabit \<noteq> 0" "rp_tx_rate ten_gigabit \<noteq> 0" by (simp_all add: ten_gigabit_def)
  from tx_cycles_make_pps [OF rp1(1) this ten_gigabit_facts(1) [symmetric] _ ten_gigabit_facts(2) [symmetric] refl rp1(2) refl]
  show ?thesis using rp1(1) by simp
qed

lemma rate_divided_by_queues_witness:
  "\<exists>rp1. pktgen_packet_rate id 1000000000 two_queues ten_gigabit = Some rp1 \<and> 2 * unat (rp_tx_pps rp1) \<le> 14204545"
proof -
  obtain rp1 where rp1: "pktgen_packet_rate id 1000000000 two_queues ten_gigabit = Some rp1"
    "unat (rp_tx_pps rp1) div 2 + 2 * 32 * unat (1000000000 :: u64) < 2 ^ 64" by (rule ten_gigabit_rate)
  have n: "rp_link_speed ten_gigabit \<noteq> 0" "rp_tx_rate ten_gigabit \<noteq> 0" by (simp_all add: ten_gigabit_def)
  note v = packet_rate_values [OF rp1(1) n ten_gigabit_facts(1) [symmetric] _ ten_gigabit_facts(2) [symmetric] refl rp1(2)]
  have "\<lfloor>14204545 / 2 :: rat\<rfloor> = 7102272" using floor_eq_iff [of "14204545 / 2 :: rat" 7102272] by simp
  then have "1 < unat (rp_tx_pps rp1)" using v(4) by (simp add: ten_gigabit_facts)
  with rate_divided_by_queues [OF rp1(1) n ten_gigabit_facts(1) [symmetric] _ ten_gigabit_facts(2) [symmetric] refl rp1(2)]
  have "of_nat (2 * unat (rp_tx_pps rp1)) \<le> (of_nat 14204545 :: rat)"
    by (simp only: ten_gigabit_facts) (simp add: ten_gigabit_def)
  then show ?thesis using rp1(1) by (simp only: of_nat_le_iff) blast
qed

section \<open>Bursts\<close>

text \<open>A device that goes on taking packets takes them all, each once and in order.\<close>

lemma tx_burst_all_done:
  assumes "\<forall>k. \<exists>j \<ge> k. 0 < accepts j"
  shows "\<exists>k1. tx_burst_all accepts k pkts out = Some (out @ pkts, k1)"
proof (induction "length pkts" arbitrary: k pkts out rule: less_induct)
  case less
  have now: "\<exists>k1. tx_burst_all accepts k pkts out = Some (out @ pkts, k1)" if "0 < accepts k" for k out
  proof (cases "drop (min (accepts k) (length pkts)) pkts = []")
    case True
    then have "take (min (accepts k) (length pkts)) pkts = pkts" by simp
    then show ?thesis using True by (subst tx_burst_all.simps) (simp add: Let_def)
  next
    case False
    then have "length (drop (min (accepts k) (length pkts)) pkts) < length pkts" using that by auto
    from less [OF this, of "k + 1" "out @ take (min (accepts k) (length pkts)) pkts"] show ?thesis
      using False by (subst tx_burst_all.simps) (simp add: Let_def)
  qed
  have later: "\<exists>k1. tx_burst_all accepts k pkts out = Some (out @ pkts, k1)" if "0 < accepts (k + d)" for k d
    using that
  proof (induction d arbitrary: k)
    case (Suc d)
    show ?case
    proof (cases "0 < accepts k")
      case False
      then show ?thesis using Suc.IH [of "k + 1"] Suc.prems by (subst tx_burst_all.simps) (auto simp: Let_def)
    qed (rule now)
  qed (use now in simp)
  obtain j where "k \<le> j" "0 < accepts j" using assms by blast
  then show ?case using later [of k "j - k"] by simp
qed

lemma length_tstamp: "length (tstamp_bytes i t) = 16"
  by (simp add: tstamp_bytes_def put_le64_def bytes_simps)

text \<open>What a probe is when it leaves: the bytes of the template with the time, of the size of the template.\<close>

definition is_probe :: "u32 \<Rightarrow> u64 \<Rightarrow> mbuf \<Rightarrow> bool" where
  "is_probe index ts m \<longleftrightarrow> m_pkt_len m = 64 \<and> m_data_len m = 64 \<and> take 16 (drop 48 (m_data m)) = tstamp_bytes index ts"

lemma tstamp_inject_effect:
  assumes i: "LATENCY_PKT < length (seq_pkt (b_pinfo (x_build s)))" "LATENCY_PKT < length (b_hdr (x_build s))"
    and pkt: "probe_template (seq_pkt (b_pinfo (x_build s)) ! LATENCY_PKT)" and port: "probe_port env (b_pinfo (x_build s))"
    and fill: "pktgen_fill_pattern (if be_jumbo env then RTE_ETHER_MAX_JUMBO_FRAME_LEN else RTE_ETHER_MAX_LEN)
      (be_fill env) (be_user_pattern env) (b_hdr (x_build s) ! LATENCY_PKT) = Some m0"
    and size: "64 \<le> length m0" and room: "\<forall>m. got = Some m \<longrightarrow> 64 \<le> length (m_data m)"
    and dev: "\<forall>k. \<exists>j \<ge> k. 0 < accepts j"
  shows "\<exists>s1. pktgen_tstamp_inject env accepts got now s = Some s1 \<and>
    (if now < latency_timo_cycles (x_lat s) then s1 = s
     else latency_timo_cycles (x_lat s1) = now + latency_rate_cycles (x_lat s) \<and>
       (if got = None then x_sent s1 = x_sent s \<and> next_index (x_lat s1) = next_index (x_lat s)
        else (\<exists>m. x_sent s1 = x_sent s @ [m] \<and> is_probe (next_index (x_lat s)) (be_time env) m) \<and>
          next_index (x_lat s1) = next_index (x_lat s) + 1 \<and>
          num_latency_tx_pkts (x_lat s1) = num_latency_tx_pkts (x_lat s) + 1))"
proof (cases "now < latency_timo_cycles (x_lat s) \<or> got = None")
  case True
  then show ?thesis by (auto simp: pktgen_tstamp_inject_def Let_def)
next
  case False
  then obtain mb where mb: "got = Some mb" "64 \<le> length (m_data mb)" and due: "latency_timo_cycles (x_lat s) \<le> now"
    using room by auto
  let ?env = "env\<lparr>be_entropy := latency_entropy (x_lat s)\<rparr>" and ?b = "(x_build s)\<lparr>b_next_index := next_index (x_lat s)\<rparr>"
  have "probe_port ?env (b_pinfo ?b)" using port by (simp add: probe_port_def)
  then obtain b' where b': "pktgen_packet_ctor ?env LATENCY_PKT (-2) ?b = Some b'" "b_next_index b' = next_index (x_lat s) + 1"
    "take 16 (drop 48 (b_hdr b' ! LATENCY_PKT)) = tstamp_bytes (next_index (x_lat s)) (be_time env)"
    "64 \<le> length (b_hdr b' ! LATENCY_PKT)"
    using probe_built [of ?b _ ?env m0 "-2"] i pkt fill size by auto
  let ?bs = "take 64 (b_hdr b' ! LATENCY_PKT)"
  define m where "m = mb\<lparr>m_pkt_len := 64, m_data_len := 64, m_data := ?bs @ drop 64 (m_data mb)\<rparr>"
  have sz: "pk_size (seq_pkt (b_pinfo (x_build s)) ! LATENCY_PKT) = 64"
    using pkt by (simp add: probe_template_def LATENCY_PKT_SIZE_def RTE_ETHER_MIN_LEN_def)
  have w: "mtod_write ?bs (mb\<lparr>m_pkt_len := 64, m_data_len := 64\<rparr>) = Some m"
    using b'(4) mb(2) by (simp add: mtod_write_def m_def min_absorb2)
  obtain k1 where k1: "tx_burst_all accepts (x_calls s) [m] (x_sent s) = Some (x_sent s @ [m], k1)"
    using tx_burst_all_done [OF dev] by blast
  have probe: "is_probe (next_index (x_lat s)) (be_time env) m"
    using b'(3,4) by (simp add: is_probe_def m_def drop_take min_absorb2 length_tstamp)
  have "pktgen_tstamp_inject env accepts got now s = Some (s\<lparr>x_build := b', x_calls := k1, x_sent := x_sent s @ [m],
      x_lat := (x_lat s)\<lparr>latency_timo_cycles := now + latency_rate_cycles (x_lat s), next_index := b_next_index b',
        num_latency_tx_pkts := num_latency_tx_pkts (x_lat s) + 1\<rparr>\<rparr>)"
    using due b'(1,4) mb(1) sz w k1 by (simp add: pktgen_tstamp_inject_def Let_def)
  then show ?thesis using due mb(1) probe b'(2) by (intro exI conjI) (assumption, auto simp: not_less [symmetric])
qed

text \<open>
  Injection of probes: when the time has come and a buffer is there, one probe with the next index and the
  time of its construction follows what was sent, and the next one is due a whole interval later;
  before that time nothing happens, and without a buffer only the time moves on.
\<close>

lemma probe_injected:
  assumes i: "LATENCY_PKT < length (seq_pkt (b_pinfo (x_build s)))" "LATENCY_PKT < length (b_hdr (x_build s))"
    and pkt: "probe_template (seq_pkt (b_pinfo (x_build s)) ! LATENCY_PKT)" and port: "probe_port env (b_pinfo (x_build s))"
    and fill: "pktgen_fill_pattern (if be_jumbo env then RTE_ETHER_MAX_JUMBO_FRAME_LEN else RTE_ETHER_MAX_LEN)
      (be_fill env) (be_user_pattern env) (b_hdr (x_build s) ! LATENCY_PKT) = Some m0"
    and size: "64 \<le> length m0" and room: "\<forall>m. got = Some m \<longrightarrow> 64 \<le> length (m_data m)"
    and dev: "\<forall>k. \<exists>j \<ge> k. 0 < accepts j"
  shows "\<exists>s1. pktgen_tstamp_inject env accepts got now s = Some s1 \<and>
    (if now < latency_timo_cycles (x_lat s) then s1 = s
     else latency_timo_cycles (x_lat s1) = now + latency_rate_cycles (x_lat s) \<and>
       (if got = None then x_sent s1 = x_sent s \<and> next_index (x_lat s1) = next_index (x_lat s)
        else (\<exists>m. x_sent s1 = x_sent s @ [m] \<and> is_probe (next_index (x_lat s)) (be_time env) m) \<and>
          next_index (x_lat s1) = next_index (x_lat s) + 1 \<and>
          num_latency_tx_pkts (x_lat s1) = num_latency_tx_pkts (x_lat s) + 1))"
  using assms by (rule tstamp_inject_effect)

text \<open>A port that sends UDP packets with probes, and a buffer of the pool.\<close>

definition probing :: tx_state where
  "probing = \<lparr>x_build = with_pinfo (\<lambda>p. enable_latency True p) (tcp_build (tcp_template PG_IPPROTO_UDP) 0),
     x_lat = no_latency\<lparr>latency_rate_cycles := 100\<rparr>, x_rnd = pktgen_rnd_bits_init, x_rng = 1, x_opackets = 0, x_calls = 0, x_sent = []\<rparr>"

definition spare :: mbuf where
  "spare = \<lparr>m_data = replicate 300 0, m_pool = None, m_next = None, m_data_len = 64, m_pkt_len = 64, m_port = 0, m_ol_flags = 0\<rparr>"

lemma probing_facts:
  "LATENCY_PKT < length (seq_pkt (b_pinfo (x_build probing)))" "LATENCY_PKT < length (b_hdr (x_build probing))"
  "probe_template (seq_pkt (b_pinfo (x_build probing)) ! LATENCY_PKT)" "probe_port plain_env (b_pinfo (x_build probing))"
  "pktgen_fill_pattern (if be_jumbo plain_env then RTE_ETHER_MAX_JUMBO_FRAME_LEN else RTE_ETHER_MAX_LEN)
    (be_fill plain_env) (be_user_pattern plain_env) (b_hdr (x_build probing) ! LATENCY_PKT) = Some (replicate 1518 0)"
  by (simp_all add: probing_def with_pinfo_def enable_latency_def pktgen_latency_setup_def upd_pkt_def pktgen_set_port_flags_def
      tcp_build_def tcp_template_def plain_env_def LATENCY_PKT_def SINGLE_PKT_def probe_template_def wf_pkt_def probe_port_def
      pktgen_tst_port_flags_def pktgen_fill_pattern_def SEND_LATENCY_PKTS_def SEND_GRE_IPv4_HEADER_def
      SEND_GRE_ETHER_HEADER_def SEND_VXLAN_PACKETS_def SEND_Q_IN_Q_IDS_def bytes_simps with_ipv4_def)

lemma probe_injected_witness:
  "\<exists>s1. pktgen_tstamp_inject plain_env (\<lambda>_. 1) (Some spare) 5000 probing = Some s1 \<and> latency_timo_cycles (x_lat s1) = 5100
     \<and> num_latency_tx_pkts (x_lat s1) = 1"
proof -
  have "64 \<le> length (replicate 1518 (0 :: u8))" "\<forall>m. Some spare = Some m \<longrightarrow> 64 \<le> length (m_data m)"
    "\<forall>k :: nat. \<exists>j \<ge> k. 0 < (1 :: nat)" by (auto simp: spare_def)
  from probe_injected [OF probing_facts this, of 5000] show ?thesis
    by (auto simp: probing_def no_latency_def)
qed

lemma inject_opackets: "pktgen_tstamp_inject env accepts got now s = Some s1 \<Longrightarrow> x_opackets s1 = x_opackets s"
  by (auto simp: pktgen_tstamp_inject_def Let_def split: if_splits option.splits)

text \<open>
  C29 A burst: with a device that goes on taking packets the send returns; the packets are handed over once each and
  in order, changed in nothing but the bits of the active random fields when these are on, their number
  is added to the counter of the queue, and at most one probe follows them, on queue 0 only.
\<close>

theorem burst_handed_over:
  assumes dev: "\<forall>k. \<exists>j \<ge> k. 0 < accepts j" and pkts: "pkts \<noteq> []"
    and bits: "wf_bits (x_rnd s)" "\<forall>m \<in> set pkts. 259 \<le> length (m_data m)"
    and i: "LATENCY_PKT < length (seq_pkt (b_pinfo (x_build s)))" "LATENCY_PKT < length (b_hdr (x_build s))"
    and pkt: "probe_template (seq_pkt (b_pinfo (x_build s)) ! LATENCY_PKT)" and port: "probe_port env (b_pinfo (x_build s))"
    and fill: "pktgen_fill_pattern (if be_jumbo env then RTE_ETHER_MAX_JUMBO_FRAME_LEN else RTE_ETHER_MAX_LEN)
      (be_fill env) (be_user_pattern env) (b_hdr (x_build s) ! LATENCY_PKT) = Some m0"
    and size: "64 \<le> length m0" and room: "\<forall>m. got = Some m \<longrightarrow> 64 \<le> length (m_data m)"
  shows "\<exists>s1 pkts1 probe. tx_send_packets env accepts got now qid pkts s = Some s1 \<and> x_sent s1 = x_sent s @ pkts1 @ probe \<and>
    (if pktgen_tst_port_flags SEND_RANDOM_PKTS (b_pinfo (x_build s)) then list_all2 (randomized (x_rnd s)) pkts pkts1
     else pkts1 = pkts) \<and>
    x_opackets s1 = x_opackets s + of_nat (length pkts) \<and>
    (probe = [] \<or> qid = 0 \<and> (\<exists>m. probe = [m] \<and> is_probe (next_index (x_lat s)) (be_time env) m))"
proof -
  let ?rnd = "pktgen_tst_port_flags SEND_RANDOM_PKTS (b_pinfo (x_build s))"
  obtain pkts1 x1 where r: "(if ?rnd then pktgen_rnd_bits_apply (x_rnd s) pkts None (x_rng s) else Some (pkts, x_rng s)) = Some (pkts1, x1)"
    "if ?rnd then list_all2 (randomized (x_rnd s)) pkts pkts1 else pkts1 = pkts"
    using random_fields_bursts [OF bits, of "x_rng s"] by (cases ?rnd) auto
  obtain k1 where k1: "tx_burst_all accepts (x_calls s) pkts1 (x_sent s) = Some (x_sent s @ pkts1, k1)"
    using tx_burst_all_done [OF dev] by blast
  define s2 where "s2 = s\<lparr>x_opackets := x_opackets s + of_nat (length pkts), x_rng := x1, x_sent := x_sent s @ pkts1, x_calls := k1\<rparr>"
  have send: "tx_send_packets env accepts got now qid pkts s =
      (if qid = 0 \<and> pktgen_tst_port_flags SEND_LATENCY_PKTS (b_pinfo (x_build s))
       then pktgen_tstamp_inject env accepts got now s2 else Some s2)"
    using pkts r(1) k1 by (simp add: tx_send_packets_def Let_def s2_def)
  obtain s1 where s1: "pktgen_tstamp_inject env accepts got now s2 = Some s1" "x_opackets s1 = x_opackets s2"
    and out: "x_sent s1 = x_sent s2 \<or> (\<exists>m. x_sent s1 = x_sent s2 @ [m] \<and> is_probe (next_index (x_lat s2)) (be_time env) m)"
  proof -
    have "LATENCY_PKT < length (seq_pkt (b_pinfo (x_build s2)))" "LATENCY_PKT < length (b_hdr (x_build s2))"
      "probe_template (seq_pkt (b_pinfo (x_build s2)) ! LATENCY_PKT)" "probe_port env (b_pinfo (x_build s2))"
      "pktgen_fill_pattern (if be_jumbo env then RTE_ETHER_MAX_JUMBO_FRAME_LEN else RTE_ETHER_MAX_LEN)
        (be_fill env) (be_user_pattern env) (b_hdr (x_build s2) ! LATENCY_PKT) = Some m0"
      using i pkt port fill by (simp_all add: s2_def)
    from tstamp_inject_effect [OF this size room dev, of now]
    obtain s1 where "pktgen_tstamp_inject env accepts got now s2 = Some s1"
      "x_sent s1 = x_sent s2 \<or> (\<exists>m. x_sent s1 = x_sent s2 @ [m] \<and> is_probe (next_index (x_lat s2)) (be_time env) m)"
      by (auto split: if_splits)
    then show thesis using that inject_opackets by blast
  qed
  obtain probe where p: "x_sent s1 = x_sent s @ pkts1 @ probe"
    "probe = [] \<or> (\<exists>m. probe = [m] \<and> is_probe (next_index (x_lat s)) (be_time env) m)"
    using out by (auto simp: s2_def)
  show ?thesis
  proof (cases "qid = 0 \<and> pktgen_tst_port_flags SEND_LATENCY_PKTS (b_pinfo (x_build s))")
    case True
    then show ?thesis using send s1 p r(2)
      by (intro exI [of _ s1] exI [of _ pkts1] exI [of _ probe]) (simp add: s2_def)
  next
    case False
    then show ?thesis using send r(2)
      by (intro exI [of _ s2] exI [of _ pkts1] exI [of _ "[]"]) (auto simp: s2_def)
  qed
qed

lemma burst_handed_over_witness:
  "\<exists>s1. tx_send_packets plain_env (\<lambda>k. k mod 2) (Some spare) 5000 0 [spare, spare] probing = Some s1 \<and> x_opackets s1 = 2"
proof -
  have d: "64 \<le> length (replicate 1518 (0 :: u8))" "\<forall>m. Some spare = Some m \<longrightarrow> 64 \<le> length (m_data m)"
    "wf_bits (x_rnd probing)" "\<forall>m \<in> set [spare, spare]. 259 \<le> length (m_data m)" "[spare, spare] \<noteq> []" "x_opackets probing = 0"
    by (auto simp: spare_def probing_def wf_bits_init)
  have "\<exists>j \<ge> k. 0 < j mod 2" for k :: nat by (rule exI [of _ "2 * k + 1"]) simp
  then have dev: "\<forall>k. \<exists>j \<ge> k. 0 < j mod (2 :: nat)" by blast
  from burst_handed_over [OF dev d(5,3,4) probing_facts d(1,2), of 5000 0] show ?thesis
    using d(6) by auto
qed

section \<open>Sending a number of packets\<close>

text \<open>The compare and set loop takes at most a burst from the counter, both signed 64 bit integers.\<close>

definition pkt_atomic64_tx_count :: "u64 \<Rightarrow> u64 \<Rightarrow> u64 \<times> u64" where
  "pkt_atomic64_tx_count cnt burst =
     (if cnt = 0 then (0, cnt) else let tmp2 = (if sint cnt > sint burst then burst else cnt) in (tmp2, cnt - tmp2))"

text \<open>The number of packets of a call of \<open>pktgen_send_pkts\<close>, zero when it returns before it sends.\<close>

definition send_count :: "port_info \<Rightarrow> u64 \<times> port_info" where
  "send_count pinfo =
     (if \<not> pktgen_tst_port_flags SEND_FOREVER pinfo then
        (let (txCnt, cnt) = pkt_atomic64_tx_count (current_tx_count pinfo) (ucast (tx_burst pinfo));
             pinfo1 = pinfo\<lparr>current_tx_count := cnt\<rparr> in
         if txCnt = 0 then (0, pktgen_clr_port_flags SENDING_PACKETS pinfo1)
         else (if txCnt > ucast (tx_burst pinfo) then ucast (tx_burst pinfo) else txCnt, pinfo1))
      else (ucast (tx_burst pinfo), pinfo))"

text \<open>
  The calls of \<open>pktgen_main_transmit\<close> for a port that does not replay a capture: what the pool answers to each
  \<open>rte_mempool_get_bulk\<close>, and the sum of the packets given to \<open>tx_send_packets\<close>.
\<close>

fun transmit_calls :: "bool list \<Rightarrow> port_info \<Rightarrow> nat \<times> port_info" where
  "transmit_calls [] pinfo = (0, pinfo)"
| "transmit_calls (ok # oks) pinfo =
     (if pktgen_tst_port_flags SENDING_PACKETS pinfo
      then (let (n, p1) = send_count pinfo; (t, p2) = transmit_calls oks p1 in ((if ok then unat n else 0) + t, p2))
      else transmit_calls oks pinfo)"

lemma unat_ucast_16_small: "unat (ucast b :: u64) < 2 ^ 16" for b :: u16
  using unsigned_less [where ?'a = nat, of b] by (simp add: unat_ucast_16_64)

lemma tx_count_min:
  assumes "unat cnt < 2 ^ 63" and "unat burst < 2 ^ 63"
  shows "unat (fst (pkt_atomic64_tx_count cnt burst)) = min (unat cnt) (unat burst)"
    and "unat (snd (pkt_atomic64_tx_count cnt burst)) = unat cnt - unat burst"
proof -
  have s: "sint cnt = int (unat cnt)" "sint burst = int (unat burst)"
    using sint_diff [of cnt 0] sint_diff [of burst 0] assms by simp_all
  then have "sint burst < sint cnt \<longleftrightarrow> unat burst < unat cnt" by linarith
  then show "unat (fst (pkt_atomic64_tx_count cnt burst)) = min (unat cnt) (unat burst)"
    and "unat (snd (pkt_atomic64_tx_count cnt burst)) = unat cnt - unat burst"
    by (auto simp: pkt_atomic64_tx_count_def Let_def unat_sub word_le_nat_alt min_def)
qed

lemma clr_clears: "\<not> pktgen_tst_port_flags fl (pktgen_clr_port_flags fl p)"
proof -
  have "(port_flags p AND NOT fl) AND fl = 0" by (rule bit_word_eqI) (auto simp: bit_simps)
  then show ?thesis by (simp add: pktgen_tst_port_flags_def pktgen_clr_port_flags_def)
qed

lemma clr_keeps_clear: "\<not> pktgen_tst_port_flags fl p \<Longrightarrow> \<not> pktgen_tst_port_flags fl (pktgen_clr_port_flags g p)"
proof -
  have "(port_flags p AND NOT g) AND fl = (port_flags p AND fl) AND NOT g" by (rule bit_word_eqI) (auto simp: bit_simps)
  then show "\<not> pktgen_tst_port_flags fl p \<Longrightarrow> \<not> pktgen_tst_port_flags fl (pktgen_clr_port_flags g p)"
    by (simp add: pktgen_tst_port_flags_def pktgen_clr_port_flags_def)
qed

text \<open>What one call does to a port that sends a number of packets.\<close>

lemma send_count_step:
  assumes "\<not> pktgen_tst_port_flags SEND_FOREVER p" and "pktgen_tst_port_flags SENDING_PACKETS p" and "tx_burst p \<noteq> 0"
    and "unat (current_tx_count p) < 2 ^ 63"
  obtains n p1 where "send_count p = (n, p1)" and "unat n = min (unat (current_tx_count p)) (unat (tx_burst p))"
    and "unat (current_tx_count p1) = unat (current_tx_count p) - unat (tx_burst p)" and "tx_burst p1 = tx_burst p"
    and "\<not> pktgen_tst_port_flags SEND_FOREVER p1"
    and "pktgen_tst_port_flags SENDING_PACKETS p1 \<longleftrightarrow> current_tx_count p \<noteq> 0"
proof -
  obtain n c where nc: "pkt_atomic64_tx_count (current_tx_count p) (ucast (tx_burst p)) = (n, c)" by (rule prod.exhaust)
  have b: "unat (ucast (tx_burst p) :: u64) = unat (tx_burst p)" "unat (ucast (tx_burst p) :: u64) < 2 ^ 63"
    using unat_ucast_16_small [of "tx_burst p"] by (simp_all add: unat_ucast_16_64)
  have v: "unat n = min (unat (current_tx_count p)) (unat (tx_burst p))" "unat c = unat (current_tx_count p) - unat (tx_burst p)"
    using tx_count_min [OF assms(4) b(2)] by (simp_all add: nc b(1))
  have bpos: "0 < unat (tx_burst p)" using assms(3) by (simp add: unat_gt_0)
  have n0: "n = 0 \<longleftrightarrow> current_tx_count p = 0" using v(1) bpos by (auto simp: unat_eq_0 [symmetric] min_def split: if_splits)
  have le: "\<not> ucast (tx_burst p) < n" using v(1) b(1) by (simp add: word_less_nat_alt)
  show thesis
  proof (cases "n = 0")
    case True
    have "\<not> pktgen_tst_port_flags SENDING_PACKETS (pktgen_clr_port_flags SENDING_PACKETS (p\<lparr>current_tx_count := c\<rparr>))"
      by (rule clr_clears)
    moreover have "\<not> pktgen_tst_port_flags SEND_FOREVER (pktgen_clr_port_flags SENDING_PACKETS (p\<lparr>current_tx_count := c\<rparr>))"
      using assms(1) by (intro clr_keeps_clear) (simp add: pktgen_tst_port_flags_def)
    ultimately show thesis using True nc assms(1) v n0
      by (intro that [of 0 "pktgen_clr_port_flags SENDING_PACKETS (p\<lparr>current_tx_count := c\<rparr>)"])
        (simp_all add: send_count_def pktgen_clr_port_flags_def)
  next
    case False
    then show thesis using nc assms(1,2) v n0 le
      by (intro that [of n "p\<lparr>current_tx_count := c\<rparr>"]) (simp_all add: send_count_def pktgen_tst_port_flags_def)
  qed
qed

lemma transmit_stopped: "\<not> pktgen_tst_port_flags SENDING_PACKETS p \<Longrightarrow> transmit_calls oks p = (0, p)"
  by (induction oks) auto

text \<open>
  C30 A number of packets: a port that is to send \<open>N\<close> packets, not for ever, has sent exactly \<open>N\<close> and has stopped
  after enough calls, whatever the burst, when its pool always has the buffers.
\<close>

theorem counted_packets_sent:
  assumes "\<not> pktgen_tst_port_flags SEND_FOREVER p" and "pktgen_tst_port_flags SENDING_PACKETS p" and "tx_burst p \<noteq> 0"
    and "unat (current_tx_count p) < 2 ^ 63" and "unat (current_tx_count p) < length oks" and "\<forall>ok \<in> set oks. ok"
  shows "fst (transmit_calls oks p) = unat (current_tx_count p) \<and>
    \<not> pktgen_tst_port_flags SENDING_PACKETS (snd (transmit_calls oks p))"
  using assms
proof (induction oks arbitrary: p)
  case (Cons ok oks)
  obtain n p1 where n: "send_count p = (n, p1)" "unat n = min (unat (current_tx_count p)) (unat (tx_burst p))"
    "unat (current_tx_count p1) = unat (current_tx_count p) - unat (tx_burst p)" "tx_burst p1 = tx_burst p"
    "\<not> pktgen_tst_port_flags SEND_FOREVER p1" "pktgen_tst_port_flags SENDING_PACKETS p1 \<longleftrightarrow> current_tx_count p \<noteq> 0"
    using send_count_step [OF Cons.prems(1-4)] by metis
  have bpos: "0 < unat (tx_burst p)" using Cons.prems(3) by (simp add: unat_gt_0)
  show ?case
  proof (cases "current_tx_count p = 0")
    case True
    then show ?thesis using n Cons.prems(2) transmit_stopped [of p1 oks] by simp
  next
    case False
    then have "0 < unat (current_tx_count p)" by (simp add: unat_gt_0)
    then have "fst (transmit_calls oks p1) = unat (current_tx_count p1) \<and>
        \<not> pktgen_tst_port_flags SENDING_PACKETS (snd (transmit_calls oks p1))"
      using Cons.prems(3-6) n(3-6) False bpos by (intro Cons.IH) auto
    then show ?thesis using n(1-3) Cons.prems(2,6) by (simp add: split_beta)
  qed
qed simp

text \<open>A port with 70 packets to send in bursts of 32.\<close>

definition seventy :: port_info where
  "seventy = (b_pinfo (tcp_build (tcp_template PG_IPPROTO_UDP) SENDING_PACKETS))\<lparr>current_tx_count := 70\<rparr>"

lemma seventy_facts:
  "\<not> pktgen_tst_port_flags SEND_FOREVER seventy" "pktgen_tst_port_flags SENDING_PACKETS seventy" "tx_burst seventy = 32"
  "unat (current_tx_count seventy) = 70"
  by (simp_all add: seventy_def tcp_build_def pktgen_tst_port_flags_def SEND_FOREVER_def SENDING_PACKETS_def)

lemma counted_packets_sent_witness: "fst (transmit_calls (replicate 100 True) seventy) = 70"
  using counted_packets_sent [of seventy "replicate 100 True"] seventy_facts by simp

text \<open>
  Packets that are not sent: the number is taken from the counter before the buffers are asked for, so that a
  call that finds too few buffers in the pool loses its packets: a port with one burst left
  whose pool is empty for one call stops without having sent it.
\<close>

lemma empty_pool_loses_burst:
  assumes "\<not> pktgen_tst_port_flags SEND_FOREVER p" and "pktgen_tst_port_flags SENDING_PACKETS p" and "tx_burst p \<noteq> 0"
    and "unat (current_tx_count p) \<le> unat (tx_burst p)" and "current_tx_count p \<noteq> 0"
  shows "fst (transmit_calls [False, True] p) = 0 \<and> \<not> pktgen_tst_port_flags SENDING_PACKETS (snd (transmit_calls [False, True] p))"
proof -
  have small: "unat (current_tx_count p) < 2 ^ 63"
    using assms(4) unsigned_less [where ?'a = nat, of "tx_burst p"] by simp
  obtain n p1 where n: "send_count p = (n, p1)" "unat (current_tx_count p1) = unat (current_tx_count p) - unat (tx_burst p)"
    "tx_burst p1 = tx_burst p" "\<not> pktgen_tst_port_flags SEND_FOREVER p1" "pktgen_tst_port_flags SENDING_PACKETS p1"
    using send_count_step [OF assms(1-3) small] assms(5) by metis
  have z: "current_tx_count p1 = 0" using n(2) assms(4) by (simp add: unat_eq_0 [symmetric])
  obtain k p2 where k: "send_count p1 = (k, p2)" "unat k = min (unat (current_tx_count p1)) (unat (tx_burst p1))"
    "\<not> pktgen_tst_port_flags SENDING_PACKETS p2"
    using send_count_step [OF n(4,5)] assms(3) n(3) z by (metis unat_0 zero_less_numeral zero_less_power)
  show ?thesis using n(1,5) k z assms(2) by simp
qed

lemma empty_pool_loses_burst_witness:
  "fst (transmit_calls [False, True] (seventy\<lparr>current_tx_count := 20\<rparr>)) = 0"
  using empty_pool_loses_burst [of "seventy\<lparr>current_tx_count := 20\<rparr>"] seventy_facts
  by (simp add: pktgen_tst_port_flags_def)

end
