(* ===== verification/CText.thy ===== *)
theory CText
  imports Prelude
begin

text \<open>
  Text as the C code handles it: the character classes and the conversions \<open>strtoul\<close> and \<open>strtol\<close> of the C library,
  numbers printed with \<open>%d\<close> and \<open>%u\<close>, and the string helpers of \<open>lib/common/pg_strings.c\<close>. A C string is the list of its
  characters before the terminating zero; a tokenizer that cuts a string in place gives the list of the pieces.
\<close>

subsection \<open>Characters\<close>

definition isblank :: "char \<Rightarrow> bool" where
  "isblank c \<longleftrightarrow> c = CHR '' '' \<or> c = CHR 0x09"

definition isspace :: "char \<Rightarrow> bool" where
  "isspace c \<longleftrightarrow> c \<in> set [CHR '' '', CHR 0x09, CHR 0x0A, CHR 0x0B, CHR 0x0C, CHR 0x0D]"

definition char_code :: "char \<Rightarrow> nat" where "char_code c = of_char c"

text \<open>The value of a digit in a base up to 16; 16 for a character that is none.\<close>

definition xdigit :: "char \<Rightarrow> nat" where
  "xdigit c = (let n = char_code c in
     if 48 \<le> n \<and> n \<le> 57 then n - 48
     else if 97 \<le> n \<and> n \<le> 102 then n - 87
     else if 65 \<le> n \<and> n \<le> 70 then n - 55 else 16)"

abbreviation isdigit :: "char \<Rightarrow> bool" where "isdigit c \<equiv> xdigit c < 10"

text \<open>The number that a list of digits stands for.\<close>

definition num_val :: "nat \<Rightarrow> string \<Rightarrow> nat" where
  "num_val base cs = foldl (\<lambda>a c. a * base + xdigit c) 0 cs"

lemma num_val_Nil [simp]: "num_val base [] = 0" by (simp add: num_val_def)

lemma num_val_snoc [simp]: "num_val base (cs @ [c]) = num_val base cs * base + xdigit c" by (simp add: num_val_def)

subsection \<open>Printing a number\<close>

fun dec :: "nat \<Rightarrow> string" where
  "dec n = (if n < 10 then [char_of (48 + n)] else dec (n div 10) @ [char_of (48 + n mod 10)])"

declare dec.simps [simp del]

lemma xdigit_char_of: "n < 10 \<Longrightarrow> xdigit (char_of (48 + n)) = n"
  by (simp add: xdigit_def char_code_def Let_def)

lemma dec_nonempty [simp]: "dec n \<noteq> []"
  by (subst dec.simps) simp

lemma dec_digits: "list_all isdigit (dec n)"
  by (induction n rule: dec.induct) (subst dec.simps, auto simp: xdigit_char_of)

lemma num_val_dec [simp]: "num_val 10 (dec n) = n"
proof (induction n rule: dec.induct)
  case (1 n)
  show ?case
  proof (cases "n < 10")
    case True
    then show ?thesis using num_val_snoc [of 10 "[]" "char_of (48 + n)"] by (simp add: dec.simps [of n] xdigit_char_of)
  next
    case False
    then show ?thesis using 1 by (simp add: dec.simps [of n] xdigit_char_of)
  qed
qed

text \<open>A printed number starts with zero only when it is zero.\<close>

lemma dec_leading: "0 < n \<Longrightarrow> 0 < xdigit (hd (dec n))"
proof (induction n rule: dec.induct)
  case (1 n)
  show ?case
  proof (cases "n < 10")
    case True
    then show ?thesis using 1(2) by (simp add: dec.simps [of n] xdigit_char_of)
  next
    case False
    then have "0 < n div 10" by simp
    with 1(1) [OF False] show ?thesis using False by (simp add: dec.simps [of n])
  qed
qed

lemma dec_0 [simp]: "dec 0 = ''0''" by code_simp

lemma length_dec: "n < 10 ^ k \<Longrightarrow> 0 < k \<Longrightarrow> length (dec n) \<le> k"
proof (induction n arbitrary: k rule: dec.induct)
  case (1 n)
  show ?case
  proof (cases "n < 10")
    case True
    then show ?thesis using 1(3) by (simp add: dec.simps [of n])
  next
    case False
    obtain j where k: "k = Suc j" using 1(3) by (cases k) auto
    with False 1(2) have "0 < j" by (cases j) auto
    note j = k this
    then have "n div 10 < 10 ^ j" using 1(2) by (simp add: div_less_iff_less_mult mult.commute)
    then have "length (dec (n div 10)) \<le> j" using 1(1) [OF False] j(2) by simp
    then show ?thesis using False j by (simp add: dec.simps [of n])
  qed
qed

subsection \<open>Reading a number\<close>

text \<open>
  What \<open>strtoul\<close> and \<open>strtol\<close> share: blanks, a sign, for base 16 a prefix, and the digits; the result is the sign, the
  number and the rest of the string, which is the whole string when there is no digit.
\<close>

definition strto :: "nat \<Rightarrow> string \<Rightarrow> bool \<times> nat \<times> string" where
  "strto base s =
     (let s1 = dropWhile isspace s;
          neg = (s1 \<noteq> [] \<and> hd s1 = CHR ''-'');
          s2 = (if s1 \<noteq> [] \<and> (hd s1 = CHR ''-'' \<or> hd s1 = CHR ''+'') then tl s1 else s1);
          s3 = (if base = 16 \<and> length s2 > 2 \<and> s2 ! 0 = CHR ''0'' \<and> (s2 ! 1 = CHR ''x'' \<or> s2 ! 1 = CHR ''X'') \<and> xdigit (s2 ! 2) < 16
                then drop 2 s2 else s2);
          ds = takeWhile (\<lambda>c. xdigit c < base) s3
      in if ds = [] then (False, 0, s) else (neg, num_val base ds, dropWhile (\<lambda>c. xdigit c < base) s3))"

definition strtoul :: "nat \<Rightarrow> string \<Rightarrow> u64 \<times> string \<times> bool" where
  "strtoul base s =
     (let (neg, v, rest) = strto base s in
      if v \<ge> 2 ^ 64 then (-1, rest, True) else (if neg then - of_nat v else of_nat v, rest, False))"

definition strtol :: "nat \<Rightarrow> string \<Rightarrow> int \<times> string \<times> bool" where
  "strtol base s =
     (let (neg, v, rest) = strto base s in
      if neg then (if v > 2 ^ 63 then (- (2 ^ 63), rest, True) else (- int v, rest, False))
      else (if v \<ge> 2 ^ 63 then (2 ^ 63 - 1, rest, True) else (int v, rest, False)))"

lemma digit_class: "isdigit c \<Longrightarrow> \<not> isspace c \<and> c \<noteq> CHR ''-'' \<and> c \<noteq> CHR ''+''"
  by (auto simp: isspace_def xdigit_def char_code_def Let_def)

lemma takeWhile_digits: "list_all P ds \<Longrightarrow> r = [] \<or> \<not> P (hd r) \<Longrightarrow> takeWhile P (ds @ r) = ds \<and> dropWhile P (ds @ r) = r"
  by (induction ds) (auto simp: takeWhile_eq_Nil_iff dropWhile_eq_self_iff)

text \<open>Digits that end the string, or are followed by another character, are read as their number.\<close>

lemma strto_digits:
  assumes "list_all isdigit ds" and "ds \<noteq> []" and "r = [] \<or> \<not> isdigit (hd r)"
  shows "strto 10 (ds @ r) = (False, num_val 10 ds, r)"
proof -
  have h: "isdigit (hd (ds @ r))" "ds @ r \<noteq> []" using assms(1,2) by (cases ds; simp)+
  then have "dropWhile isspace (ds @ r) = ds @ r" using digit_class by (simp add: dropWhile_eq_self_iff)
  then show ?thesis using h digit_class [OF h(1)] takeWhile_digits [OF assms(1,3)] assms(2)
    by (simp add: strto_def Let_def)
qed

lemma strtoul_dec:
  assumes "n < 2 ^ 64" and "r = [] \<or> \<not> isdigit (hd r)"
  shows "strtoul 10 (dec n @ r) = (of_nat n, r, False)"
  using strto_digits [OF dec_digits dec_nonempty assms(2), of n] assms(1) by (simp add: strtoul_def)

lemma strtol_dec:
  assumes "n < 2 ^ 63" and "r = [] \<or> \<not> isdigit (hd r)"
  shows "strtol 10 (dec n @ r) = (int n, r, False)"
  using strto_digits [OF dec_digits dec_nonempty assms(2), of n] assms(1) by (simp add: strtol_def)

subsection \<open>Joining\<close>

fun join :: "'a list \<Rightarrow> 'a list list \<Rightarrow> 'a list" where
  "join sep [] = []"
| "join sep [x] = x"
| "join sep (x # y # ys) = x @ sep @ join sep (y # ys)"

lemma join_Cons: "xs \<noteq> [] \<Longrightarrow> join sep (x # xs) = x @ sep @ join sep xs"
  by (cases xs) auto

lemma join_snoc: "xs \<noteq> [] \<Longrightarrow> join sep (xs @ [x]) = join sep xs @ sep @ x"
  by (induction xs rule: induct_list012) auto

lemma set_join: "set (join sep xs) \<subseteq> set sep \<union> (\<Union>x \<in> set xs. set x)"
  by (induction sep xs rule: join.induct) auto

subsection \<open>\<open>pg_strings.c\<close>\<close>

definition pg_strtrim :: "string \<Rightarrow> string" where
  "pg_strtrim s = rev (dropWhile isspace (rev (dropWhile isspace s)))"

text \<open>\<open>strtok_r\<close>: the next token and the rest behind the delimiter that ends it.\<close>

definition strtok_r :: "string \<Rightarrow> string \<Rightarrow> (string \<times> string) option" where
  "strtok_r delim s =
     (let s1 = dropWhile (\<lambda>c. c \<in> set delim) s in
      if s1 = [] then None
      else Some (takeWhile (\<lambda>c. c \<notin> set delim) s1, drop 1 (dropWhile (\<lambda>c. c \<notin> set delim) s1)))"

lemma strtok_r_shorter: "strtok_r delim s = Some (tok, rest) \<Longrightarrow> length rest < length s"
proof -
  assume a: "strtok_r delim s = Some (tok, rest)"
  let ?s1 = "dropWhile (\<lambda>c. c \<in> set delim) s"
  have "?s1 \<noteq> []" "rest = drop 1 (dropWhile (\<lambda>c. c \<notin> set delim) ?s1)" using a by (auto simp: strtok_r_def Let_def split: if_splits)
  moreover have "length (dropWhile (\<lambda>c. c \<notin> set delim) ?s1) \<le> length ?s1" by (rule length_dropWhile_le)
  moreover have "length ?s1 \<le> length s" by (rule length_dropWhile_le)
  ultimately show ?thesis by (cases ?s1) (auto simp: less_Suc_eq_le)
qed

text \<open>The tokens, trimmed, at most \<open>room\<close> of them.\<close>

function strtok_loop :: "string \<Rightarrow> nat \<Rightarrow> string \<Rightarrow> string list" where
  "strtok_loop delim room s =
     (case strtok_r delim s of
        None \<Rightarrow> []
      | Some (tok, rest) \<Rightarrow> pg_strtrim tok # (if room \<le> 1 then [] else strtok_loop delim (room - 1) rest))"
  by auto
termination by (relation "measure (\<lambda>(d, n, s). length s)") (auto dest: strtok_r_shorter)

declare strtok_loop.simps [simp del]

definition pg_strtok :: "string \<Rightarrow> string \<Rightarrow> nat \<Rightarrow> string list option" where
  "pg_strtok s delim maxtokens = (if maxtokens = 0 then None else Some (strtok_loop delim maxtokens s))"

lemma pg_strtrim_id: "s = [] \<or> \<not> isspace (hd s) \<and> \<not> isspace (last s) \<Longrightarrow> pg_strtrim s = s"
proof (cases "s = []")
  case False
  assume "s = [] \<or> \<not> isspace (hd s) \<and> \<not> isspace (last s)"
  with False have "dropWhile isspace s = s" "dropWhile isspace (rev s) = rev s"
    by (simp_all add: dropWhile_eq_self_iff hd_rev)
  then show ?thesis by (simp add: pg_strtrim_def)
qed (simp add: pg_strtrim_def)

lemma strtok_r_word:
  assumes "tok \<noteq> []" and "set tok \<inter> set delim = {}" and "c \<in> set delim"
  shows "strtok_r delim tok = Some (tok, [])" and "strtok_r delim (tok @ c # rest) = Some (tok, rest)"
proof -
  have d: "dropWhile (\<lambda>c. c \<in> set delim) (tok @ r) = tok @ r" for r
    using assms(1,2) by (cases tok) auto
  have t: "takeWhile (\<lambda>c. c \<notin> set delim) tok = tok" using assms(2) by (auto simp: takeWhile_eq_all_conv)
  moreover have "drop 1 (dropWhile (\<lambda>c. c \<notin> set delim) tok) = []"
    using assms(2) takeWhile_dropWhile_id [of "\<lambda>c. c \<notin> set delim" tok] unfolding t by (metis append_self_conv drop_Nil)
  ultimately show "strtok_r delim tok = Some (tok, [])" using d [of "[]"] assms(1)
    by (simp only: strtok_r_def Let_def append_Nil2 if_False)
  have "list_all (\<lambda>c. c \<notin> set delim) tok" using assms(2) by (auto simp: list_all_iff)
  then have "takeWhile (\<lambda>c. c \<notin> set delim) (tok @ c # rest) = tok" "dropWhile (\<lambda>c. c \<notin> set delim) (tok @ c # rest) = c # rest"
    using takeWhile_digits [of "\<lambda>c. c \<notin> set delim" tok "c # rest"] assms(3) by simp_all
  then show "strtok_r delim (tok @ c # rest) = Some (tok, rest)"
    using d [of "c # rest"] assms(1) by (simp add: strtok_r_def Let_def)
qed

text \<open>Words joined by a delimiter, with room for all, are the tokens, each trimmed.\<close>

lemma strtok_join:
  assumes "\<forall>w \<in> set ws. w \<noteq> [] \<and> set w \<inter> set delim = {}" and "ws \<noteq> []" and "c \<in> set delim" and "length ws \<le> room"
  shows "strtok_loop delim room (join [c] ws) = map pg_strtrim ws"
  using assms
proof (induction ws arbitrary: room)
  case (Cons w ws)
  have w: "w \<noteq> []" "set w \<inter> set delim = {}" using Cons.prems(1) by auto
  note tok = strtok_r_word [OF w Cons.prems(3)]
  show ?case
  proof (cases "ws = []")
    case True
    then show ?thesis using tok(1) by (simp add: strtok_loop.simps [of _ _ w] strtok_loop.simps [of _ _ "[]"] strtok_r_def)
  next
    case False
    then have "\<not> room \<le> 1" "length ws \<le> room - 1" using Cons.prems(4) by (cases ws; simp)+
    moreover have "strtok_loop delim (room - 1) (join [c] ws) = map pg_strtrim ws"
      using Cons.IH [of "room - 1"] Cons.prems False calculation by simp
    ultimately show ?thesis using tok(2) [of "join [c] ws"]
      by (simp add: join_Cons [OF False] strtok_loop.simps [of _ _ "w @ c # join [c] ws"])
  qed
qed simp

end
