(* ===== verification/AddrParse.thy ===== *)
theory AddrParse
  imports CText Inet
begin

text \<open>
  Addresses as text: the parsers for IPv4 and IPv6 addresses of \<open>lib/utils/_atoip.c\<close> (\<open>inet_ipton\<close>, \<open>_atoip\<close>, used by
  the commands) and of \<open>lib/utils/inet_pton.c\<close> (\<open>inet_pton\<close>), which descend from the same code, and the printing of
  \<open>lib/common/pg_inet.h\<close>. An address is the list of its bytes in network order; \<open>None\<close> is the return value 0.
\<close>

subsection \<open>IPv4\<close>

text \<open>The bytes so far are \<open>tmp\<close>, the last one still growing.\<close>

fun ipton4_loop :: "string \<Rightarrow> bool \<Rightarrow> nat \<Rightarrow> u8 list \<Rightarrow> u8 list option" where
  "ipton4_loop [] saw_digit octets tmp = (if octets < 4 then None else Some tmp)"
| "ipton4_loop (ch # src) saw_digit octets tmp =
     (if isdigit ch then
        (let new = unat (last tmp) * 10 + xdigit ch in
         if new > 255 then None
         else if \<not> saw_digit \<and> octets + 1 > 4 then None
         else ipton4_loop src True (if saw_digit then octets else octets + 1) (butlast tmp @ [of_nat new]))
      else if ch = CHR ''.'' \<and> saw_digit then
        (if octets = 4 then None else ipton4_loop src False octets (tmp @ [0]))
      else None)"

definition inet_ipton4 :: "string \<Rightarrow> u8 list option" where
  "inet_ipton4 src = ipton4_loop src False 0 [0]"

text \<open>The other parser also refuses a digit behind a leading zero.\<close>

fun pton4_loop :: "string \<Rightarrow> bool \<Rightarrow> nat \<Rightarrow> u8 list \<Rightarrow> u8 list option" where
  "pton4_loop [] saw_digit octets tmp = (if octets < 4 then None else Some tmp)"
| "pton4_loop (ch # src) saw_digit octets tmp =
     (if isdigit ch then
        (let new = unat (last tmp) * 10 + xdigit ch in
         if saw_digit \<and> last tmp = 0 then None
         else if new > 255 then None
         else if \<not> saw_digit \<and> octets + 1 > 4 then None
         else pton4_loop src True (if saw_digit then octets else octets + 1) (butlast tmp @ [of_nat new]))
      else if ch = CHR ''.'' \<and> saw_digit then
        (if octets = 4 then None else pton4_loop src False octets (tmp @ [0]))
      else None)"

definition inet_pton4 :: "string \<Rightarrow> u8 list option" where
  "inet_pton4 src = pton4_loop src False 0 [0]"

subsection \<open>IPv6\<close>

text \<open>
  The variables of the loop: the text from the start of the current group, whether and how many digits of it were
  seen, its value, the 16 bytes, the position of the next one, the position of the double colon, and the
  number of groups.
\<close>

record v6 =
  v6_curtok :: string
  v6_saw :: bool
  v6_count :: nat
  v6_val :: u32
  v6_tmp :: "u8 list"
  v6_tp :: nat
  v6_colonp :: "nat option"
  v6_dbloct :: nat

definition put_bytes :: "nat \<Rightarrow> u8 list \<Rightarrow> u8 list \<Rightarrow> u8 list" where
  "put_bytes i bs m = take i m @ bs @ drop (i + length bs) m"

text \<open>The two bytes of a finished group.\<close>

definition v6_store :: "v6 \<Rightarrow> v6" where
  "v6_store s = s\<lparr>v6_tmp := put_bytes (v6_tp s) [ucast (drop_bit 8 (v6_val s) AND 0xff), ucast (v6_val s AND 0xff)] (v6_tmp s),
     v6_tp := v6_tp s + 2\<rparr>"

fun ipton6_loop :: "string \<Rightarrow> v6 \<Rightarrow> v6 option" where
  "ipton6_loop [] s = Some s"
| "ipton6_loop (ch # src) s =
     (if xdigit ch < 16 then
        (if v6_count s \<ge> 4 then None
         else let v = push_bit 4 (v6_val s) OR of_nat (xdigit ch) in
           if v > 0xffff then None
           else ipton6_loop src (s\<lparr>v6_val := v, v6_saw := True, v6_count := v6_count s + 1\<rparr>))
      else if ch = CHR '':'' then
        (let s1 = s\<lparr>v6_curtok := src\<rparr> in
         if \<not> v6_saw s then
           (if v6_colonp s \<noteq> None then None else ipton6_loop src (s1\<lparr>v6_colonp := Some (v6_tp s)\<rparr>))
         else if src = [] then None
         else if v6_tp s + 2 > 16 then None
         else ipton6_loop src ((v6_store s1)\<lparr>v6_saw := False, v6_count := 0, v6_val := 0, v6_dbloct := v6_dbloct s + 1\<rparr>))
      else if ch = CHR ''.'' \<and> v6_tp s + 4 \<le> 16 then
        (case inet_ipton4 (v6_curtok s) of
           None \<Rightarrow> None
         | Some bs \<Rightarrow> Some (s\<lparr>v6_tmp := put_bytes (v6_tp s) bs (v6_tmp s), v6_tp := v6_tp s + 4, v6_saw := False,
                              v6_dbloct := v6_dbloct s + 2\<rparr>))
      else None)"

definition v6_start :: "string \<Rightarrow> v6" where
  "v6_start src = \<lparr>v6_curtok = src, v6_saw = False, v6_count = 0, v6_val = 0, v6_tmp = replicate 16 0, v6_tp = 0,
     v6_colonp = None, v6_dbloct = 0\<rparr>"

text \<open>A leading colon must be one of two; the loop then starts at the second one.\<close>

definition v6_skip :: "string \<Rightarrow> string option" where
  "v6_skip src = (case src of c # cs \<Rightarrow> if c = CHR '':'' then (if cs \<noteq> [] \<and> hd cs = CHR '':'' then Some cs else None) else Some src
                            | [] \<Rightarrow> Some src)"

text \<open>The bytes behind the double colon are moved to the end, and those at their old place are cleared.\<close>

definition ipton6_end :: "v6 \<Rightarrow> u8 list option" where
  "ipton6_end s =
     (if v6_saw s \<and> v6_tp s + 2 > 16 then None
      else let s1 = (if v6_saw s then (v6_store s)\<lparr>v6_dbloct := v6_dbloct s + 1\<rparr> else s) in
        case v6_colonp s1 of
          Some colonp \<Rightarrow>
            if v6_dbloct s1 = 8 then None
            else let n = v6_tp s1 - colonp;
                     m1 = put_bytes (16 - n) (take n (drop colonp (v6_tmp s1))) (v6_tmp s1)
                 in Some (put_bytes colonp (replicate n 0) m1)
        | None \<Rightarrow> if v6_tp s1 \<noteq> 16 then None else Some (v6_tmp s1))"

definition inet_ipton6 :: "string \<Rightarrow> u8 list option" where
  "inet_ipton6 src =
     (case v6_skip src of None \<Rightarrow> None
      | Some src1 \<Rightarrow> (case ipton6_loop src1 (v6_start src1) of None \<Rightarrow> None | Some s \<Rightarrow> ipton6_end s))"

fun pton6_loop :: "string \<Rightarrow> v6 \<Rightarrow> v6 option" where
  "pton6_loop [] s = Some s"
| "pton6_loop (ch # src) s =
     (if xdigit ch < 16 then
        (let s1 = s\<lparr>v6_val := push_bit 4 (v6_val s) OR of_nat (xdigit ch), v6_saw := True, v6_count := v6_count s + 1\<rparr> in
         if v6_count s1 > 4 then None else pton6_loop src s1)
      else if ch = CHR '':'' then
        (let s1 = s\<lparr>v6_curtok := src\<rparr> in
         if v6_count s = 0 then
           (if v6_colonp s \<noteq> None then None else pton6_loop src (s1\<lparr>v6_colonp := Some (v6_tp s)\<rparr>))
         else if src = [] then None
         else if v6_tp s + 2 > 16 then None
         else pton6_loop src ((v6_store s1)\<lparr>v6_saw := False, v6_count := 0, v6_val := 0\<rparr>))
      else if ch = CHR ''.'' \<and> v6_tp s + 4 \<le> 16 then
        (case inet_pton4 (v6_curtok s) of
           None \<Rightarrow> None
         | Some bs \<Rightarrow> Some (s\<lparr>v6_tmp := put_bytes (v6_tp s) bs (v6_tmp s), v6_tp := v6_tp s + 4, v6_saw := False, v6_count := 0\<rparr>))
      else None)"

text \<open>The shift, byte by byte from the last one.\<close>

fun shift_bytes :: "nat \<Rightarrow> nat \<Rightarrow> nat list \<Rightarrow> u8 list \<Rightarrow> u8 list" where
  "shift_bytes colonp n [] m = m"
| "shift_bytes colonp n (i # is) m =
     shift_bytes colonp n is ((m[16 - i := m ! (colonp + (n - i))])[colonp + (n - i) := 0])"

definition pton6_end :: "v6 \<Rightarrow> u8 list option" where
  "pton6_end s =
     (if v6_count s \<noteq> 0 \<and> v6_tp s + 2 > 16 then None
      else let s1 = (if v6_count s \<noteq> 0 then v6_store s else s) in
        case v6_colonp s1 of
          Some colonp \<Rightarrow>
            let n = v6_tp s1 - colonp in
            if v6_tp s1 = 16 then None else Some (shift_bytes colonp n [1..<n + 1] (v6_tmp s1))
        | None \<Rightarrow> if v6_tp s1 \<noteq> 16 then None else Some (v6_tmp s1))"

definition inet_pton6 :: "string \<Rightarrow> u8 list option" where
  "inet_pton6 src =
     (case v6_skip src of None \<Rightarrow> None
      | Some src1 \<Rightarrow> (case pton6_loop src1 (v6_start src1) of None \<Rightarrow> None | Some s \<Rightarrow> pton6_end s))"

section \<open>IPv4: the parsers and their specification\<close>

text \<open>The parts of a text between the places of a character, and the reference: four parts that are numbers up to 255.\<close>

fun split_at :: "char \<Rightarrow> string \<Rightarrow> string list" where
  "split_at x [] = [[]]"
| "split_at x (c # cs) = (if c = x then [] # split_at x cs else (c # hd (split_at x cs)) # tl (split_at x cs))"

definition octet :: "string \<Rightarrow> bool" where
  "octet d \<longleftrightarrow> d \<noteq> [] \<and> list_all isdigit d \<and> num_val 10 d \<le> 255"

definition plain_octet :: "string \<Rightarrow> bool" where
  "plain_octet d \<longleftrightarrow> octet d \<and> (length d > 1 \<longrightarrow> hd d \<noteq> CHR ''0'')"

abbreviation octet_val :: "string \<Rightarrow> u8" where "octet_val d \<equiv> of_nat (num_val 10 d)"

definition dotted_quad :: "(string \<Rightarrow> bool) \<Rightarrow> string \<Rightarrow> u8 list option" where
  "dotted_quad ok src =
     (let ds = split_at (CHR ''.'') src in
      if length ds = 4 \<and> list_all ok ds then Some (map octet_val ds) else None)"

lemma split_at_nonempty [simp]: "split_at x s \<noteq> []"
  by (cases s) auto

lemma split_at_code [code]:
  "split_at x [] = [[]]"
  "split_at x (c # cs) = (case split_at x cs of [] \<Rightarrow> [[c]] | w # ws \<Rightarrow> if c = x then [] # w # ws else (c # w) # ws)"
  using split_at_nonempty [of x cs] by (auto split: list.split)

lemma split_at_join: "ds \<noteq> [] \<Longrightarrow> \<forall>d \<in> set ds. x \<notin> set d \<Longrightarrow> split_at x (join [x] ds) = ds"
proof (induction ds rule: induct_list012)
  case (2 d)
  then have "split_at x d = [d]" by (induction d) auto
  then show ?case by simp
next
  case (3 d e ds)
  have "split_at x (d @ x # r) = d # split_at x r" if "x \<notin> set d" for d r using that by (induction d) auto
  then show ?case using 3 by simp
qed simp

lemma num_val_prefix: "num_val 10 d \<le> num_val 10 (d @ e)"
proof (induction e rule: rev_induct)
  case (snoc c e)
  then show ?case using num_val_snoc [of 10 "d @ e" c] by simp
qed simp

lemma num_val_pos: "0 < xdigit (hd d) \<Longrightarrow> d \<noteq> [] \<Longrightarrow> 0 < num_val 10 d"
  using num_val_prefix [of "[hd d]" "tl d"] num_val_snoc [of 10 "[]" "hd d"] by simp

lemma zero_char: "xdigit c = 0 \<Longrightarrow> c = CHR ''0''"
proof -
  assume "xdigit c = 0"
  then have "of_char c = (48 :: nat)" unfolding xdigit_def char_code_def Let_def by (simp split: if_splits)
  then have "c = char_of (48 :: nat)" by (metis char_of_char)
  also have "\<dots> = CHR ''0''" by code_simp
  finally show ?thesis .
qed

lemma xdigit_dot: "\<not> isdigit (CHR ''.'')" by code_simp

text \<open>
  The loops against the reference: \<open>done\<close> are the finished parts, \<open>cur\<close> the digits of the current one.
\<close>

lemma butlast_last_map: "butlast (map f done @ [a]) @ [b] = map f done @ [b]" by simp

lemma val_snoc: "num_val 10 cur \<le> 255 \<Longrightarrow> unat (octet_val cur) * 10 + xdigit c = num_val 10 (cur @ [c])"
  by (simp add: unat_of_nat_small)

lemma ipton4_loop_ref:
  assumes "list_all isdigit cur" and "num_val 10 cur \<le> 255" and "list_all octet done" and "length done \<le> 3"
  shows "ipton4_loop src (cur \<noteq> []) (length done + (if cur = [] then 0 else 1)) (map octet_val done @ [octet_val cur]) =
    (let ds = (cur @ hd (split_at (CHR ''.'') src)) # tl (split_at (CHR ''.'') src) in
     if length done + length ds = 4 \<and> list_all octet ds then Some (map octet_val (done @ ds)) else None)"
  using assms
proof (induction src arbitrary: "done" cur)
  case Nil
  then show ?case by (auto simp: octet_def)
next
  case (Cons c src)
  note val = val_snoc [OF Cons.prems(2), of c]
  consider (digit) "isdigit c" | (dot) "c = CHR ''.''" | (other) "\<not> isdigit c" "c \<noteq> CHR ''.''" by blast
  then show ?case
  proof cases
    case digit
    then have c: "c \<noteq> CHR ''.''" using xdigit_dot by auto
    show ?thesis
    proof (cases "num_val 10 (cur @ [c]) \<le> 255")
      case True
      then show ?thesis using Cons.IH [of "cur @ [c]" "done"] Cons.prems digit c val by (auto simp: Let_def)
    next
      case False
      then have "\<not> octet (cur @ c # r)" for r using num_val_prefix [of "cur @ [c]" r] by (simp add: octet_def)
      then show ?thesis using False digit c val by (simp add: Let_def)
    qed
  next
    case dot
    show ?thesis
    proof (cases "cur \<noteq> [] \<and> length done < 3")
      case True
      then show ?thesis using Cons.IH [of "[]" "done @ [cur]"] Cons.prems dot xdigit_dot
        by (auto simp: Let_def octet_def)
    next
      case False
      then show ?thesis using Cons.prems dot xdigit_dot by (cases "split_at (CHR ''.'') src") (auto simp: octet_def)
    qed
  next
    case other
    then show ?thesis by (simp add: octet_def)
  qed
qed

lemma zero_value:
  assumes "cur \<noteq> []" and "length cur > 1 \<longrightarrow> hd cur \<noteq> CHR ''0''"
  shows "num_val 10 cur = 0 \<longleftrightarrow> hd cur = CHR ''0''"
proof
  assume "num_val 10 cur = 0"
  then have "xdigit (hd cur) = 0" using num_val_pos [OF _ assms(1)] by (metis gr0I less_irrefl)
  then show "hd cur = CHR ''0''" by (rule zero_char)
next
  assume h: "hd cur = CHR ''0''"
  then have "cur = ''0''" using assms by (cases cur) auto
  then show "num_val 10 cur = 0" using num_val_snoc [of 10 "[]" "CHR ''0''"] by (simp add: xdigit_def char_code_def)
qed

lemma pton4_loop_ref:
  assumes "list_all isdigit cur" and "num_val 10 cur \<le> 255" and "length cur > 1 \<longrightarrow> hd cur \<noteq> CHR ''0''"
    and "list_all plain_octet done" and "length done \<le> 3"
  shows "pton4_loop src (cur \<noteq> []) (length done + (if cur = [] then 0 else 1)) (map octet_val done @ [octet_val cur]) =
    (let ds = (cur @ hd (split_at (CHR ''.'') src)) # tl (split_at (CHR ''.'') src) in
     if length done + length ds = 4 \<and> list_all plain_octet ds then Some (map octet_val (done @ ds)) else None)"
  using assms
proof (induction src arbitrary: "done" cur)
  case Nil
  then show ?case by (auto simp: octet_def plain_octet_def)
next
  case (Cons c src)
  note val = val_snoc [OF Cons.prems(2), of c]
  have z: "octet_val cur = 0 \<longleftrightarrow> num_val 10 cur = 0"
    using Cons.prems(2) unat_of_nat_small [of "num_val 10 cur", where ?'w = 8] by (auto simp: unat_eq_0 [symmetric] simp del: unat_eq_0)
  consider (digit) "isdigit c" | (dot) "c = CHR ''.''" | (other) "\<not> isdigit c" "c \<noteq> CHR ''.''" by blast
  then show ?case
  proof cases
    case digit
    then have c: "c \<noteq> CHR ''.''" using xdigit_dot by auto
    consider (zero) "cur \<noteq> []" "num_val 10 cur = 0" | (big) "\<not> num_val 10 (cur @ [c]) \<le> 255"
      | (go) "cur = [] \<or> num_val 10 cur \<noteq> 0" "num_val 10 (cur @ [c]) \<le> 255" by blast
    then show ?thesis
    proof cases
      case zero
      then have "\<not> plain_octet (cur @ c # r)" for r using zero_value [OF zero(1) Cons.prems(3)] by (simp add: plain_octet_def hd_append)
      then show ?thesis using zero digit c z by (simp add: Let_def)
    next
      case big
      then have "\<not> plain_octet (cur @ c # r)" for r using num_val_prefix [of "cur @ [c]" r] by (simp add: octet_def plain_octet_def)
      then show ?thesis using big digit c val by (simp add: Let_def)
    next
      case go
      then have "length (cur @ [c]) > 1 \<longrightarrow> hd (cur @ [c]) \<noteq> CHR ''0''"
        using zero_value [OF _ Cons.prems(3)] by (cases "cur = []") auto
      then show ?thesis using Cons.IH [of "cur @ [c]" "done"] Cons.prems digit c val go z by (auto simp: Let_def)
    qed
  next
    case dot
    show ?thesis
    proof (cases "cur \<noteq> [] \<and> length done < 3")
      case True
      then show ?thesis using Cons.IH [of "[]" "done @ [cur]"] Cons.prems dot xdigit_dot
        by (auto simp: Let_def octet_def plain_octet_def)
    next
      case False
      then show ?thesis using Cons.prems dot xdigit_dot by (cases "split_at (CHR ''.'') src") (auto simp: octet_def plain_octet_def)
    qed
  next
    case other
    then show ?thesis by (simp add: octet_def plain_octet_def)
  qed
qed

lemma ipton4_is_dotted:
  "inet_ipton4 src = dotted_quad octet src" "inet_pton4 src = dotted_quad plain_octet src"
  using ipton4_loop_ref [of "[]" "[]" src] pton4_loop_ref [of "[]" "[]" src]
  by (simp_all add: inet_ipton4_def inet_pton4_def dotted_quad_def Let_def)

text \<open>
  C36 IPv4 addresses: both parsers accept exactly four numbers up to 255 between three dots and give their values;
  they differ in the numbers with leading zeros, which the parser of the commands reads as decimal and the
  other one refuses.
\<close>

theorem ipton4_is_dotted_quad:
  "inet_ipton4 src = dotted_quad octet src \<and> inet_pton4 src = dotted_quad plain_octet src"
  using ipton4_is_dotted by blast

lemma ipton4_samples:
  "inet_ipton4 ''10.0.0.010'' = Some [10, 0, 0, 10]" "inet_pton4 ''10.0.0.10'' = Some [10, 0, 0, 10]"
  by code_simp+

section \<open>IPv6: groups and the double colon\<close>

definition hexgroup :: "string \<Rightarrow> bool" where
  "hexgroup g \<longleftrightarrow> g \<noteq> [] \<and> length g \<le> 4 \<and> (\<forall>c \<in> set g. xdigit c < 16)"

definition gbytes :: "string \<Rightarrow> u8 list" where
  "gbytes g = [of_nat (num_val 16 g div 256), of_nat (num_val 16 g)]"

text \<open>The state before a group, after the bytes \<open>B\<close>.\<close>

definition v6_at :: "u8 list \<Rightarrow> nat option \<Rightarrow> nat \<Rightarrow> string \<Rightarrow> v6" where
  "v6_at B col db cur = \<lparr>v6_curtok = cur, v6_saw = False, v6_count = 0, v6_val = 0,
     v6_tmp = B @ replicate (16 - length B) 0, v6_tp = length B, v6_colonp = col, v6_dbloct = db\<rparr>"

lemma num_val_bound: "\<forall>c \<in> set g. xdigit c < 16 \<Longrightarrow> num_val 16 g < 16 ^ length g"
proof (induction g rule: rev_induct)
  case (snoc c g)
  then have "num_val 16 g + 1 \<le> 16 ^ length g" "xdigit c < 16" by simp_all
  then have "(num_val 16 g + 1) * 16 \<le> 16 ^ length g * 16" by (intro mult_le_mono1)
  then show ?case using \<open>xdigit c < 16\<close> by simp
qed simp

lemma shift_or: "push_bit 4 (of_nat n :: u32) OR of_nat d = of_nat (n * 16 + d)" if "d < 16" "n < 65536"
proof -
  have "(push_bit 4 (of_nat n :: u32)) AND of_nat d = 0"
  proof (rule bit_word_eqI)
    fix k assume "k < LENGTH(32)"
    have "\<not> bit (of_nat d :: u32) k" if "4 \<le> k"
    proof -
      have "take_bit 4 d = d" using \<open>d < 16\<close> by (simp add: take_bit_nat_eq_self)
      then have "\<not> bit d k" using that by (metis bit_take_bit_iff not_less)
      then show ?thesis by (simp add: bit_of_nat_iff)
    qed
    then show "bit (push_bit 4 (of_nat n :: u32) AND of_nat d) k = bit (0 :: u32) k" by (auto simp: bit_simps)
  qed
  then have "push_bit 4 (of_nat n :: u32) OR of_nat d = push_bit 4 (of_nat n) + of_nat d"
    by (simp only: disjunctive_add_eq_or)
  then show ?thesis by (simp add: push_bit_eq_mult)
qed

text \<open>The digits of a group, \<open>ds\<close> of which have been read.\<close>

lemma ipton6_digits:
  assumes "\<forall>c \<in> set ds. xdigit c < 16" and "\<forall>c \<in> set g. xdigit c < 16" and "length ds + length g \<le> 4"
  shows "ipton6_loop (g @ rest) (s\<lparr>v6_val := of_nat (num_val 16 ds), v6_saw := ds \<noteq> [], v6_count := length ds\<rparr>) =
    ipton6_loop rest (s\<lparr>v6_val := of_nat (num_val 16 (ds @ g)), v6_saw := ds @ g \<noteq> [], v6_count := length (ds @ g)\<rparr>) \<and>
    pton6_loop (g @ rest) (s\<lparr>v6_val := of_nat (num_val 16 ds), v6_saw := ds \<noteq> [], v6_count := length ds\<rparr>) =
    pton6_loop rest (s\<lparr>v6_val := of_nat (num_val 16 (ds @ g)), v6_saw := ds @ g \<noteq> [], v6_count := length (ds @ g)\<rparr>)"
  using assms
proof (induction g arbitrary: ds)
  case (Cons c g)
  have "num_val 16 ds < 16 ^ length ds" "num_val 16 (ds @ [c]) < 16 ^ length (ds @ [c])"
    using Cons.prems by (intro num_val_bound; simp)+
  moreover have "(16::nat) ^ length ds \<le> 16 ^ 3" "(16::nat) ^ length (ds @ [c]) \<le> 16 ^ 4"
    using Cons.prems(3) by (intro power_increasing; simp)+
  ultimately have b: "num_val 16 ds < 65536" "num_val 16 (ds @ [c]) < 65536" by simp_all
  have v: "push_bit 4 (of_nat (num_val 16 ds) :: u32) OR of_nat (xdigit c) = of_nat (num_val 16 (ds @ [c]))"
    using shift_or [of "xdigit c" "num_val 16 ds"] Cons.prems b by simp
  have le: "\<not> (of_nat (num_val 16 (ds @ [c])) :: u32) > 0xffff"
    using b(2) by (simp add: word_less_nat_alt unat_of_nat_small del: num_val_snoc)
  show ?case using Cons.IH [of "ds @ [c]"] Cons.prems v le by (simp add: Let_def del: num_val_snoc)
qed simp

lemma group_value: "hexgroup g \<Longrightarrow> num_val 16 g < 65536"
proof -
  assume g: "hexgroup g"
  then have "num_val 16 g < 16 ^ length g" "(16::nat) ^ length g \<le> 16 ^ 4"
    using num_val_bound [of g] power_increasing [of "length g" 4 "16::nat"] by (auto simp: hexgroup_def)
  then show ?thesis by simp
qed

lemma store_bytes:
  assumes "v < 65536"
  shows "[ucast (drop_bit 8 (of_nat v :: u32) AND 0xff), ucast ((of_nat v :: u32) AND 0xff)] = [of_nat (v div 256), of_nat v :: u8]"
proof -
  have m: "(0xff :: u32) = mask 8" by (simp add: mask_eq_exp_minus_1)
  have c: "(ucast (x AND 0xff) :: u8) = ucast x" for x :: u32 unfolding m by (rule bit_word_eqI) (auto simp: bit_simps)
  have "drop_bit 8 (of_nat v :: u32) = of_nat (v div 256)"
    using assms by (simp add: word_unat_eq_iff unat_div unat_of_nat_small drop_bit_eq_div)
  moreover have "(ucast (of_nat n :: u32) :: u8) = of_nat n" if "n < 65536" for n
    using that by (simp add: word_unat_eq_iff unsigned_ucast_eq unat_of_nat take_bit_nat_eq_self) (simp add: take_bit_eq_mod)
  ultimately show ?thesis unfolding c using assms by simp
qed

lemma put_at_end: "length B + length bs \<le> 16 \<Longrightarrow>
    put_bytes (length B) bs (B @ replicate (16 - length B) 0) = (B @ bs) @ replicate (16 - length (B @ bs)) 0"
  by (simp add: put_bytes_def)

lemma store_group:
  assumes "hexgroup g" and "length B + 2 \<le> 16"
  shows "v6_store (s\<lparr>v6_tmp := B @ replicate (16 - length B) 0, v6_tp := length B, v6_val := of_nat (num_val 16 g)\<rparr>) =
    s\<lparr>v6_tmp := (B @ gbytes g) @ replicate (16 - length (B @ gbytes g)) 0, v6_tp := length (B @ gbytes g), v6_val := of_nat (num_val 16 g)\<rparr>"
  using put_at_end [of B "gbytes g"] assms(2) store_bytes [OF group_value [OF assms(1)]]
  by (simp add: v6_store_def gbytes_def)

text \<open>A group and its colon, a second colon, and the last group.\<close>

lemma group_step:
  assumes g: "hexgroup g" and B: "length B + 2 \<le> 16" and rest: "rest \<noteq> []"
  shows "ipton6_loop (g @ CHR '':'' # rest) (v6_at B col db cur) = ipton6_loop rest (v6_at (B @ gbytes g) col (db + 1) rest)"
    and "pton6_loop (g @ CHR '':'' # rest) (v6_at B col db cur) = pton6_loop rest (v6_at (B @ gbytes g) col db rest)"
proof -
  have h: "g \<noteq> []" "length g \<le> 4" "\<forall>c \<in> set g. xdigit c < 16" using g by (auto simp: hexgroup_def)
  have x: "\<not> xdigit (CHR '':'') < 16" by code_simp
  have start: "v6_at B col db cur = (v6_at B col db cur)\<lparr>v6_val := of_nat (num_val 16 []), v6_saw := [] \<noteq> ([] :: string), v6_count := length ([] :: string)\<rparr>"
    by (simp add: v6_at_def)
  note d = ipton6_digits [of "[]" g "CHR '':'' # rest" "v6_at B col db cur", folded start, unfolded append_Nil]
  note st = store_group [OF g B, of "v6_at B col db rest\<lparr>v6_saw := True, v6_count := length g\<rparr>"]
  show "ipton6_loop (g @ CHR '':'' # rest) (v6_at B col db cur) = ipton6_loop rest (v6_at (B @ gbytes g) col (db + 1) rest)"
    and "pton6_loop (g @ CHR '':'' # rest) (v6_at B col db cur) = pton6_loop rest (v6_at (B @ gbytes g) col db rest)"
    using d h rest x B st by (simp_all add: Let_def v6_at_def)
qed

lemma colon_step:
  "ipton6_loop (CHR '':'' # rest) (v6_at B None db cur) = ipton6_loop rest (v6_at B (Some (length B)) db rest)"
  "pton6_loop (CHR '':'' # rest) (v6_at B None db cur) = pton6_loop rest (v6_at B (Some (length B)) db rest)"
proof -
  have x: "\<not> xdigit (CHR '':'') < 16" by code_simp
  then show "ipton6_loop (CHR '':'' # rest) (v6_at B None db cur) = ipton6_loop rest (v6_at B (Some (length B)) db rest)"
    and "pton6_loop (CHR '':'' # rest) (v6_at B None db cur) = pton6_loop rest (v6_at B (Some (length B)) db rest)"
    by (simp_all add: v6_at_def)
qed

lemma last_group_step:
  assumes g: "hexgroup g" and B: "length B + 2 \<le> 16"
  shows "\<exists>s. ipton6_loop g (v6_at B col db cur) = Some s \<and> ipton6_end s = ipton6_end (v6_at (B @ gbytes g) col (db + 1) cur)"
    and "\<exists>s. pton6_loop g (v6_at B col db cur) = Some s \<and> pton6_end s = pton6_end (v6_at (B @ gbytes g) col db cur)"
proof -
  have h: "g \<noteq> []" "length g \<le> 4" "\<forall>c \<in> set g. xdigit c < 16" using g by (auto simp: hexgroup_def)
  have start: "v6_at B col db cur = (v6_at B col db cur)\<lparr>v6_val := of_nat (num_val 16 []), v6_saw := [] \<noteq> ([] :: string), v6_count := length ([] :: string)\<rparr>"
    by (simp add: v6_at_def)
  note d = ipton6_digits [of "[]" g "[]" "v6_at B col db cur", folded start, unfolded append_Nil append_Nil2]
  note st = store_group [OF g B, of "v6_at B col db cur\<lparr>v6_saw := True, v6_count := length g\<rparr>"]
  show "\<exists>s. ipton6_loop g (v6_at B col db cur) = Some s \<and> ipton6_end s = ipton6_end (v6_at (B @ gbytes g) col (db + 1) cur)"
    and "\<exists>s. pton6_loop g (v6_at B col db cur) = Some s \<and> pton6_end s = pton6_end (v6_at (B @ gbytes g) col db cur)"
    using d h B st by (simp_all add: v6_at_def ipton6_end_def pton6_end_def Let_def split: option.split)
qed

definition group_bytes :: "string list \<Rightarrow> u8 list" where
  "group_bytes gs = concat (map gbytes gs)"

lemma length_group_bytes [simp]: "length (group_bytes gs) = 2 * length gs"
  by (induction gs) (simp_all add: group_bytes_def gbytes_def)

lemma group_bytes_simps [simp]: "group_bytes [] = []" "group_bytes (g # gs) = gbytes g @ group_bytes gs" "length (gbytes g) = 2"
  by (simp_all add: group_bytes_def gbytes_def)

lemma end_curtok:
  "ipton6_end (v6_at B col db cur) = ipton6_end (v6_at B col db cur1)" "pton6_end (v6_at B col db cur) = pton6_end (v6_at B col db cur1)"
  by (simp_all add: ipton6_end_def pton6_end_def v6_at_def Let_def split: option.split)

text \<open>Groups with a colon behind each, and groups joined by colons.\<close>

lemma groups_step:
  assumes "\<forall>g \<in> set gs. hexgroup g" and "length B + 2 * length gs \<le> 16" and "rest \<noteq> []"
  shows "\<exists>cur1. ipton6_loop (concat (map (\<lambda>g. g @ '':'') gs) @ rest) (v6_at B col db cur) =
      ipton6_loop rest (v6_at (B @ group_bytes gs) col (db + length gs) cur1)"
    and "\<exists>cur1. pton6_loop (concat (map (\<lambda>g. g @ '':'') gs) @ rest) (v6_at B col db cur) =
      pton6_loop rest (v6_at (B @ group_bytes gs) col db cur1)"
  using assms
proof (induction gs arbitrary: B db cur)
  case (Cons g gs)
  let ?r = "concat (map (\<lambda>g. g @ '':'') gs) @ rest"
  {
    case 1
    then show ?case using group_step(1) [of g B ?r col db cur] Cons.IH(1) [of "B @ gbytes g" "db + 1" ?r] by simp
  next
    case 2
    then show ?case using group_step(2) [of g B ?r col db cur] Cons.IH(2) [of "B @ gbytes g" db ?r] by simp
  }
qed auto

lemma join_last: "gs \<noteq> [] \<Longrightarrow> join sep gs = concat (map (\<lambda>g. g @ sep) (butlast gs)) @ last gs"
  by (induction gs rule: induct_list012) auto

lemma groups_last:
  assumes "\<forall>g \<in> set gs. hexgroup g" and "length B + 2 * length gs \<le> 16"
  shows "\<exists>s. ipton6_loop (join '':'' gs) (v6_at B col db cur) = Some s
      \<and> ipton6_end s = ipton6_end (v6_at (B @ group_bytes gs) col (db + length gs) cur)"
    and "\<exists>s. pton6_loop (join '':'' gs) (v6_at B col db cur) = Some s
      \<and> pton6_end s = pton6_end (v6_at (B @ group_bytes gs) col db cur)"
proof -
  have "(\<exists>s. ipton6_loop (join '':'' gs) (v6_at B col db cur) = Some s
      \<and> ipton6_end s = ipton6_end (v6_at (B @ group_bytes gs) col (db + length gs) cur)) \<and>
    (\<exists>s. pton6_loop (join '':'' gs) (v6_at B col db cur) = Some s
      \<and> pton6_end s = pton6_end (v6_at (B @ group_bytes gs) col db cur))"
  proof (cases "gs = []")
    case False
    define hs where "hs = butlast gs"
    have gs: "gs = hs @ [last gs]" using False by (simp add: hs_def)
    have l: "hexgroup (last gs)" "last gs \<noteq> []" using assms(1) False by (auto simp: hexgroup_def)
    have "length gs = length hs + 1" by (subst gs) simp
    then have hs: "\<forall>g \<in> set hs. hexgroup g" "length B + 2 * length hs \<le> 16" "length (B @ group_bytes hs) + 2 \<le> 16"
      using assms by (auto simp: hs_def dest: in_set_butlastD)
    have e: "B @ group_bytes gs = (B @ group_bytes hs) @ gbytes (last gs)" "db + length gs = (db + length hs) + 1"
      unfolding group_bytes_def by (subst gs, simp)+
    obtain c1 c2 where "ipton6_loop (join '':'' gs) (v6_at B col db cur) = ipton6_loop (last gs) (v6_at (B @ group_bytes hs) col (db + length hs) c1)"
      "pton6_loop (join '':'' gs) (v6_at B col db cur) = pton6_loop (last gs) (v6_at (B @ group_bytes hs) col db c2)"
      using groups_step [OF hs(1,2) l(2), of col db cur] join_last [OF False, of "'':''"] by (auto simp: hs_def)
    then show ?thesis
      using last_group_step(1) [OF l(1) hs(3), of col "db + length hs" c1] last_group_step(2) [OF l(1) hs(3), of col db c2] end_curtok
      unfolding e by metis
  qed auto
  then show "\<exists>s. ipton6_loop (join '':'' gs) (v6_at B col db cur) = Some s
      \<and> ipton6_end s = ipton6_end (v6_at (B @ group_bytes gs) col (db + length gs) cur)"
    and "\<exists>s. pton6_loop (join '':'' gs) (v6_at B col db cur) = Some s
      \<and> pton6_end s = pton6_end (v6_at (B @ group_bytes gs) col db cur)" by auto
qed

subsection \<open>The end\<close>

lemma shift_bytes_move:
  assumes "0 < z" and "length A + length P + z + length Q = 16" and "length P + length Q = n"
  shows "shift_bytes (length A) n [length Q + 1..<n + 1] (A @ P @ replicate z 0 @ Q) = A @ replicate z 0 @ P @ Q"
  using assms
proof (induction P arbitrary: Q rule: rev_induct)
  case (snoc b P)
  define i where "i = length Q + 1"
  have u: "[length Q + 1..<n + 1] = i # [i + 1..<n + 1]" using snoc.prems by (simp add: i_def upt_conv_Cons)
  have k: "length A + (n - i) = length (A @ P)" "16 - i = length (A @ P) + z" using snoc.prems by (simp_all add: i_def)
  obtain z' where z: "z = Suc z'" using snoc.prems(1) by (cases z) auto
  define m where "m = A @ (P @ [b]) @ replicate z 0 @ Q"
  have m: "m = (A @ P) @ b # replicate z 0 @ Q" by (simp add: m_def)
  have b: "m ! length (A @ P) = b" unfolding m by (rule nth_append_length)
  have "(m[length (A @ P) + z := b])[length (A @ P) := 0] = (A @ P) @ 0 # replicate z' 0 @ b # Q"
    unfolding m z list_update_append by (simp add: replicate_app_Cons_same [symmetric] list_update_append)
  also have "\<dots> = A @ P @ replicate z 0 @ b # Q" by (simp add: z replicate_app_Cons_same)
  finally have step: "(m[16 - i := m ! (length A + (n - i))])[length A + (n - i) := 0] = A @ P @ replicate z 0 @ b # Q"
    unfolding k b .
  have "shift_bytes (length A) n [length Q + 1..<n + 1] m = shift_bytes (length A) n [i + 1..<n + 1] (A @ P @ replicate z 0 @ b # Q)"
    unfolding u using step by (simp del: upt_Suc)
  also have "\<dots> = A @ replicate z 0 @ P @ b # Q" using snoc.IH [of "b # Q"] snoc.prems by (simp add: i_def del: upt_Suc)
  finally show ?case by (simp add: m_def)
qed simp

lemma pton6_end_colon:
  assumes "length A + length P < 16"
  shows "pton6_end (v6_at (A @ P) (Some (length A)) db cur) = Some (A @ replicate (16 - length A - length P) 0 @ P)"
  using shift_bytes_move [of "16 - length A - length P" A P "[]" "length P"] assms
  by (simp add: pton6_end_def v6_at_def Let_def)

text \<open>The other parser clears the bytes at the old place after it has moved them, also where both places overlap.\<close>

lemma ipton6_end_colon:
  assumes "length A + length P < 16" and "db \<noteq> 8"
  shows "ipton6_end (v6_at (A @ P) (Some (length A)) db cur) =
    (let k = length A + 2 * length P - 16 in Some (A @ replicate (16 - length A - length P + k) 0 @ drop k P))"
proof -
  define a where "a = length A"
  define p where "p = length P"
  have ap: "a + p < 16" using assms(1) by (simp add: a_def p_def)
  define M where "M = (A @ P) @ replicate (16 - (a + p)) 0"
  have m1: "put_bytes (16 - p) P M = take (16 - p) M @ P"
    using ap by (simp add: put_bytes_def M_def a_def [symmetric] p_def [symmetric])
  have tk: "take p (drop a M) = P" by (simp add: M_def a_def p_def)
  have A: "take a (take (16 - p) M @ P) = A" using ap by (simp add: M_def a_def p_def min_def)
  have "drop (a + p) (take (16 - p) M) = replicate (16 - p - (a + p)) 0"
    using ap by (simp add: M_def a_def p_def drop_take)
  then have D: "drop (a + p) (take (16 - p) M @ P) = replicate (16 - p - (a + p)) 0 @ drop (a + 2 * p - 16) P"
  proof -
    have "length (take (16 - p) M) = 16 - p" using ap by (simp add: M_def a_def p_def)
    moreover have "a + p - (16 - p) = a + 2 * p - 16" using ap by linarith
    ultimately show ?thesis using \<open>drop (a + p) (take (16 - p) M) = _\<close> by (simp only: drop_append)
  qed
  have "p + (16 - p - (a + p)) = 16 - a - p + (a + 2 * p - 16)" using ap by linarith
  then have "replicate p 0 @ replicate (16 - p - (a + p)) 0 = replicate (16 - a - p + (a + 2 * p - 16)) (0 :: u8)"
    by (metis replicate_add)
  then have "put_bytes a (replicate p 0) (take (16 - p) M @ P) = A @ replicate (16 - a - p + (a + 2 * p - 16)) 0 @ drop (a + 2 * p - 16) P"
    using A D by (simp add: put_bytes_def)
  moreover have "ipton6_end (v6_at (A @ P) (Some (length A)) db cur) = Some (put_bytes a (replicate p 0) (put_bytes (16 - p) (take p (drop a M)) M))"
    using assms(2) by (simp add: ipton6_end_def v6_at_def Let_def M_def a_def p_def)
  ultimately show ?thesis unfolding tk m1 by (simp add: Let_def a_def p_def)
qed

lemma v6_skip_group: "hexgroup g \<Longrightarrow> v6_skip (g @ r) = Some (g @ r)"
proof -
  assume "hexgroup g"
  moreover have "\<not> xdigit (CHR '':'') < 16" by code_simp
  ultimately show ?thesis by (cases g) (auto simp: hexgroup_def v6_skip_def)
qed

lemma v6_start_at: "v6_start s = v6_at [] None 0 s" by (simp add: v6_start_def v6_at_def)

text \<open>Up to the double colon, from either side.\<close>

lemma double_colon_loop:
  assumes pre: "\<forall>g \<in> set pre. hexgroup g" and post: "\<forall>g \<in> set post. hexgroup g" and len: "length pre + length post \<le> 7"
  shows "\<exists>src1 s1 s2 c1 c2. v6_skip (join '':'' pre @ ''::'' @ join '':'' post) = Some src1
    \<and> ipton6_loop src1 (v6_start src1) = Some s1 \<and> pton6_loop src1 (v6_start src1) = Some s2
    \<and> ipton6_end s1 = ipton6_end (v6_at (group_bytes pre @ group_bytes post) (Some (length (group_bytes pre))) (length pre + length post) c1)
    \<and> pton6_end s2 = pton6_end (v6_at (group_bytes pre @ group_bytes post) (Some (length (group_bytes pre))) 0 c2)"
proof -
  define src1 where "src1 = concat (map (\<lambda>g. g @ '':'') pre) @ CHR '':'' # join '':'' post"
  let ?s = "join '':'' pre @ ''::'' @ join '':'' post"
  have skip: "v6_skip ?s = Some src1"
  proof (cases pre)
    case (Cons g gs)
    have "join '':'' (g # gs) @ '':'' = concat (map (\<lambda>g. g @ '':'') (g # gs))" by (induction gs arbitrary: g) (auto simp: join_Cons)
    then have "join '':'' pre @ '':'' = concat (map (\<lambda>g. g @ '':'') pre)" unfolding Cons .
    then have s: "?s = src1" by (simp add: src1_def)
    have "src1 = g @ ('':'' @ concat (map (\<lambda>g. g @ '':'') gs) @ CHR '':'' # join '':'' post)" by (simp add: src1_def Cons)
    then show ?thesis unfolding s using v6_skip_group [of g] pre Cons by simp
  qed (simp add: v6_skip_def src1_def)
  have l: "length ([] :: u8 list) + 2 * length pre \<le> 16" "length (group_bytes pre) + 2 * length post \<le> 16" using len by simp_all
  obtain c1 c2 where pre_steps: "ipton6_loop src1 (v6_start src1) = ipton6_loop (CHR '':'' # join '':'' post) (v6_at (group_bytes pre) None (length pre) c1)"
    "pton6_loop src1 (v6_start src1) = pton6_loop (CHR '':'' # join '':'' post) (v6_at (group_bytes pre) None 0 c2)"
    using groups_step [OF pre l(1), of "CHR '':'' # join '':'' post" None 0 src1] by (auto simp: v6_start_at src1_def)
  show ?thesis
    using skip pre_steps groups_last [OF post l(2), of "Some (length (group_bytes pre))" "length pre" "join '':'' post"]
      groups_last [OF post l(2), of "Some (length (group_bytes pre))" 0 "join '':'' post"]
    unfolding colon_step by fastforce
qed

text \<open>
  C37 IPv6 addresses with a double colon: the groups before and behind it stand at the two ends of the address with
  zeros between them; so it is in the one parser, but the parser of the commands also clears the first of the
  groups behind the double colon when their new place overlaps the old one.
\<close>

theorem ipv6_double_colon:
  assumes "\<forall>g \<in> set pre. hexgroup g" and "\<forall>g \<in> set post. hexgroup g" and "length pre + length post \<le> 7"
  shows "let s = join '':'' pre @ ''::'' @ join '':'' post;
      zeros = 16 - 2 * length pre - 2 * length post; lost = 2 * length pre + 4 * length post - 16
    in inet_pton6 s = Some (group_bytes pre @ replicate zeros 0 @ group_bytes post) \<and>
       inet_ipton6 s = Some (group_bytes pre @ replicate (zeros + lost) 0 @ drop lost (group_bytes post))"
  using double_colon_loop [OF assms(1-3)] assms(3)
    pton6_end_colon [of "group_bytes pre" "group_bytes post"] ipton6_end_colon [of "group_bytes pre" "group_bytes post" "length pre + length post"]
  by (auto simp: inet_pton6_def inet_ipton6_def Let_def algebra_simps)

lemma ipv6_double_colon_witness:
  "inet_pton6 ''1::2:3:4:5:6:7'' = Some [0, 1, 0, 0, 0, 2, 0, 3, 0, 4, 0, 5, 0, 6, 0, 7] \<and>
   inet_ipton6 ''1::2:3:4:5:6:7'' = Some [0, 1, 0, 0, 0, 0, 0, 0, 0, 0, 0, 0, 0, 0, 0, 7]"
proof -
  have g: "\<forall>g \<in> set [''1'']. hexgroup g" "\<forall>g \<in> set [''2'', ''3'', ''4'', ''5'', ''6'', ''7'']. hexgroup g"
    by (simp_all add: hexgroup_def xdigit_def char_code_def)
  have b: "group_bytes [''1''] = [0, 1]" "group_bytes [''2'', ''3'', ''4'', ''5'', ''6'', ''7''] = [0, 2, 0, 3, 0, 4, 0, 5, 0, 6, 0, 7]"
  proof -
    have d: "gbytes [c] = [0, of_nat (xdigit c)]" if "xdigit c < 256" for c using that by (simp add: gbytes_def num_val_def)
    have x: "xdigit (CHR ''1'') = 1" "xdigit (CHR ''2'') = 2" "xdigit (CHR ''3'') = 3" "xdigit (CHR ''4'') = 4"
      "xdigit (CHR ''5'') = 5" "xdigit (CHR ''6'') = 6" "xdigit (CHR ''7'') = 7" by code_simp+
    show "group_bytes [''1''] = [0, 1]" "group_bytes [''2'', ''3'', ''4'', ''5'', ''6'', ''7''] = [0, 2, 0, 3, 0, 4, 0, 5, 0, 6, 0, 7]"
      by (simp_all add: d x)
  qed
  have r: "[0, 1] @ replicate (2 + 10) 0 @ drop 10 [0, 2, 0, 3, 0, 4, 0, 5, 0, 6, 0, 7 :: u8] = [0, 1, 0, 0, 0, 0, 0, 0, 0, 0, 0, 0, 0, 0, 0, 7]"
    "[0, 1] @ replicate 2 0 @ [0, 2, 0, 3, 0, 4, 0, 5, 0, 6, 0, 7 :: u8] = [0, 1, 0, 0, 0, 2, 0, 3, 0, 4, 0, 5, 0, 6, 0, 7]" by code_simp+
  have n: "(16 :: nat) - 2 * length [''1''] - 2 * length [''2'', ''3'', ''4'', ''5'', ''6'', ''7''] = 2"
    "2 * length [''1''] + 4 * length [''2'', ''3'', ''4'', ''5'', ''6'', ''7''] - 16 = (10 :: nat)" by simp_all
  have t: "join '':'' [''1''] @ ''::'' @ join '':'' [''2'', ''3'', ''4'', ''5'', ''6'', ''7''] = ''1::2:3:4:5:6:7''" by simp
  have "length [''1''] + length [''2'', ''3'', ''4'', ''5'', ''6'', ''7''] \<le> 7" by simp
  from ipv6_double_colon [OF g this] show ?thesis unfolding Let_def b n t r .
qed

lemma ipv6_eight_groups:
  assumes "\<forall>g \<in> set gs. hexgroup g" and "length gs = 8"
  shows "inet_pton6 (join '':'' gs) = Some (group_bytes gs) \<and> inet_ipton6 (join '':'' gs) = Some (group_bytes gs)"
proof -
  obtain g hs where gs: "gs = g # hs" using assms(2) by (cases gs) auto
  have g: "hexgroup g" using assms(1) gs by simp
  obtain r where r: "join '':'' gs = g @ r" unfolding gs by (cases hs) auto
  have "v6_skip (join '':'' gs) = Some (join '':'' gs)" unfolding r by (rule v6_skip_group [OF g])
  then show ?thesis
    using groups_last [OF assms(1), of "[]" None 0 "join '':'' gs"] assms(2)
    by (auto simp: inet_pton6_def inet_ipton6_def v6_start_at ipton6_end_def pton6_end_def v6_at_def)
qed

section \<open>The parser of the commands\<close>

definition INET6_ADDRSTRLEN :: nat where "INET6_ADDRSTRLEN = 46"
definition RTE_PREFIXMAX :: int where "RTE_PREFIXMAX = 128"
definition RTE_V4PREFIXMAX :: int where "RTE_V4PREFIXMAX = 32"

datatype af = AF_INET | AF_INET6

record rte_ipaddr =
  ia_family :: af
  ia_addr :: "u8 list"
  ia_prefixlen :: u32

definition rte_isendoftoken :: "char \<Rightarrow> bool" where
  "rte_isendoftoken c \<longleftrightarrow> c = CHR ''#'' \<or> c = CHR '' '' \<or> c = CHR 0x09 \<or> c = CHR 0x0A \<or> c = CHR 0x0D"

definition inet_ipton :: "af \<Rightarrow> string \<Rightarrow> u8 list option" where
  "inet_ipton af src = (case af of AF_INET \<Rightarrow> inet_ipton4 src | AF_INET6 \<Rightarrow> inet_ipton6 src)"

text \<open>The text before and behind the last place of a character (\<open>strrchr\<close>).\<close>

definition cut_last :: "char \<Rightarrow> string \<Rightarrow> (string \<times> string) option" where
  "cut_last x s = (if x \<notin> set s then None
     else Some (rev (tl (dropWhile (\<lambda>c. c \<noteq> x) (rev s))), rev (takeWhile (\<lambda>c. c \<noteq> x) (rev s))))"

text \<open>The prefix length with the rest of the text: \<open>None\<close> for an error, an inner \<open>None\<close> when there is none.\<close>

definition atoip_prefix :: "bool \<Rightarrow> string \<Rightarrow> (string \<times> int option) option" where
  "atoip_prefix network ip_str =
     (if network then
        (case cut_last (CHR ''/'') ip_str of
           None \<Rightarrow> Some (ip_str, None)
         | Some (ip, p) \<Rightarrow>
             (let (n, rest, range) = strtol 10 p in
              if range \<or> rest \<noteq> [] \<or> n < 0 \<or> n > RTE_PREFIXMAX then None else Some (ip, Some n)))
      else Some (ip_str, Some 0))"

text \<open>The return value, 4 or 6, and the address; \<open>None\<close> for \<open>-1\<close>. \<open>network\<close> is the flag \<open>RTE_IPADDR_NETWORK\<close>, the only one tested.\<close>

definition atoip :: "string \<Rightarrow> bool \<Rightarrow> (nat \<times> rte_ipaddr) option" where
  "atoip buf network =
     (let tok = takeWhile (\<lambda>c. \<not> rte_isendoftoken c) buf in
      if buf = [] then None
      else if length tok \<ge> INET6_ADDRSTRLEN + 4 then None
      else case atoip_prefix network tok of
        None \<Rightarrow> None
      | Some (ip, pl) \<Rightarrow>
          let prefixlen = (case pl of None \<Rightarrow> 0 | Some n \<Rightarrow> n) in
          (case (if prefixlen \<le> RTE_V4PREFIXMAX then inet_ipton AF_INET ip else None) of
             Some a \<Rightarrow> Some (4, \<lparr>ia_family = AF_INET, ia_addr = a,
                       ia_prefixlen = of_int (case pl of None \<Rightarrow> RTE_V4PREFIXMAX | Some n \<Rightarrow> n)\<rparr>)
           | None \<Rightarrow>
               (case inet_ipton AF_INET6 ip of
                  Some a \<Rightarrow> Some (6, \<lparr>ia_family = AF_INET6, ia_addr = a,
                            ia_prefixlen = of_int (case pl of None \<Rightarrow> RTE_PREFIXMAX | Some n \<Rightarrow> n)\<rparr>)
                | None \<Rightarrow> None)))"

text \<open>
  Printing: \<open>inet_ntop\<close> of the C library writes the four bytes of the address in decimal; \<open>None\<close> when the buffer is
  too short for that.
\<close>

definition ntop4_text :: "u8 list \<Rightarrow> string" where
  "ntop4_text bs = join ''.'' (map (\<lambda>b. dec (unat b)) bs)"

definition inet_ntop4 :: "nat \<Rightarrow> u32 \<Rightarrow> u32 \<Rightarrow> string option" where
  "inet_ntop4 len ip_addr msk =
     (let t = ntop4_text (put_le32 ip_addr) in
      if length t \<ge> len then None
      else if msk \<noteq> 0xFFFFFFFF then Some (take (len - 1) (take 63 (t @ ''/'' @ dec (mask_size msk)))) else Some t)"

lemma cut_last_append: "x \<notin> set b \<Longrightarrow> cut_last x (a @ x # b) = Some (a, b)"
proof -
  assume b: "x \<notin> set b"
  then have "takeWhile (\<lambda>c. c \<noteq> x) (rev b @ x # rev a) = rev b \<and> dropWhile (\<lambda>c. c \<noteq> x) (rev b @ x # rev a) = x # rev a"
    by (intro takeWhile_digits [of "\<lambda>c. c \<noteq> x" "rev b" "x # rev a"]) (auto simp: list_all_iff)
  then show ?thesis by (simp add: cut_last_def)
qed

lemma dec_char: "c \<in> set (dec n) \<Longrightarrow> isdigit c"
  using dec_digits [of n] by (auto simp: list_all_iff)

lemma ntop4_chars: "c \<in> set (ntop4_text bs) \<Longrightarrow> isdigit c \<or> c = CHR ''.''"
  using set_join [of "''.''" "map (\<lambda>b. dec (unat b)) bs"] dec_char by (auto simp: ntop4_text_def)

lemma ntop4_no_slash: "CHR ''/'' \<notin> set (ntop4_text bs)" "c \<in> set (ntop4_text bs @ ''/'' @ dec n) \<Longrightarrow> \<not> rte_isendoftoken c"
proof -
  have "\<not> isdigit (CHR ''/'')" by code_simp
  then show "CHR ''/'' \<notin> set (ntop4_text bs)" using ntop4_chars by fastforce
  have e: "\<not> isdigit d" "d \<noteq> CHR ''.''" "d \<noteq> CHR ''/''" if "rte_isendoftoken d" for d
    using that by (auto simp: rte_isendoftoken_def xdigit_def char_code_def)
  assume "c \<in> set (ntop4_text bs @ ''/'' @ dec n)"
  then consider "c \<in> set (ntop4_text bs)" | "c = CHR ''/''" | "c \<in> set (dec n)" by auto
  then have "isdigit c \<or> c = CHR ''.'' \<or> c = CHR ''/''" using ntop4_chars dec_char by cases blast+
  then show "\<not> rte_isendoftoken c" using e by blast
qed

lemma dec_octet: "octet (dec (unat b))" "plain_octet (dec (unat b))" for b :: u8
proof -
  have b: "unat b \<le> 255" using unsigned_less [where ?'a = nat, of b] by simp
  then show o: "octet (dec (unat b))" by (simp add: octet_def dec_digits)
  have "hd (dec (unat b)) \<noteq> CHR ''0''" if "length (dec (unat b)) > 1"
  proof (cases "unat b = 0")
    case True
    then show ?thesis using that by simp
  next
    case False
    then show ?thesis using dec_leading [of "unat b"] by (auto simp: xdigit_def char_code_def)
  qed
  then show "plain_octet (dec (unat b))" using o by (simp add: plain_octet_def)
qed

text \<open>What the C library prints both parsers read.\<close>

lemma ipton4_ntop4:
  assumes "length bs = 4"
  shows "inet_ipton4 (ntop4_text bs) = Some bs" and "inet_pton4 (ntop4_text bs) = Some bs"
proof -
  have "CHR ''.'' \<notin> set (dec n)" for n using dec_char xdigit_dot by blast
  then have "split_at (CHR ''.'') (ntop4_text bs) = map (\<lambda>b. dec (unat b)) bs"
    using assms unfolding ntop4_text_def by (intro split_at_join) auto
  then show "inet_ipton4 (ntop4_text bs) = Some bs" "inet_pton4 (ntop4_text bs) = Some bs"
    using assms dec_octet by (simp_all add: ipton4_is_dotted dotted_quad_def list_all_iff comp_def)
qed

lemma length_ntop4: "length bs = 4 \<Longrightarrow> length (ntop4_text bs) \<le> 15"
proof -
  have d: "length (dec (unat b)) \<le> 3" for b :: u8
    using unsigned_less [where ?'a = nat, of b] by (intro length_dec) auto
  assume "length bs = 4"
  then obtain a b c e where "bs = [a, b, c, e]" by (auto simp: eval_nat_numeral length_Suc_conv)
  then show ?thesis using d [of a] d [of b] d [of c] d [of e] by (simp add: ntop4_text_def)
qed

lemma mask_size_le: "mask_size m \<le> 32"
  using length_takeWhile_le [of "\<lambda>i. bit m (31 - i)" "[0..<32]"] by (simp add: mask_size_loop)

lemma atoip_v4:
  assumes "\<forall>c \<in> set s. \<not> rte_isendoftoken c" and "s \<noteq> []" and "length s < 50" and "atoip_prefix network s = Some (ip, pl)"
    and "inet_ipton4 ip = Some a" and "case pl of None \<Rightarrow> True | Some n \<Rightarrow> n \<le> RTE_V4PREFIXMAX"
  shows "atoip s network = Some (4, \<lparr>ia_family = AF_INET, ia_addr = a,
    ia_prefixlen = of_int (case pl of None \<Rightarrow> RTE_V4PREFIXMAX | Some n \<Rightarrow> n)\<rparr>)"
proof -
  have tw: "takeWhile (\<lambda>c. \<not> rte_isendoftoken c) s = s" using assms(1) by (simp add: takeWhile_eq_all_conv)
  have "(case pl of None \<Rightarrow> 0 | Some n \<Rightarrow> n) \<le> RTE_V4PREFIXMAX" using assms(6) by (auto simp: RTE_V4PREFIXMAX_def split: option.splits)
  then show ?thesis using assms(2-5) unfolding atoip_def tw by (simp add: Let_def INET6_ADDRSTRLEN_def inet_ipton_def)
qed

text \<open>
  C38 IPv4 addresses from end to end: the text that is printed for an address and a netmask, as in a saved
  configuration, is read back by the commands as the same address with the prefix length of the mask.
\<close>

theorem atoip_ntop4:
  assumes "19 \<le> len"
  shows "\<exists>s. inet_ntop4 len ip m = Some s \<and>
    atoip s True = Some (4, \<lparr>ia_family = AF_INET, ia_addr = put_le32 ip, ia_prefixlen = of_nat (mask_size m)\<rparr>)"
proof -
  define t where "t = ntop4_text (put_le32 ip)"
  have l: "length t \<le> 15" "inet_ipton4 t = Some (put_le32 ip)"
    using length_ntop4 ipton4_ntop4 by (simp_all add: t_def bytes_simps)
  have ne: "t \<noteq> []" using l(2) by (auto simp: inet_ipton4_def)
  show ?thesis
  proof (cases "m = 0xFFFFFFFF")
    case True
    then have "inet_ntop4 len ip m = Some t" "mask_size m = 32" using assms l by (simp_all add: inet_ntop4_def t_def mask_size_def)
    moreover have "atoip t True = Some (4, \<lparr>ia_family = AF_INET, ia_addr = put_le32 ip, ia_prefixlen = 32\<rparr>)"
    proof -
      have "atoip_prefix True t = Some (t, None)" using ntop4_no_slash(1) by (simp add: atoip_prefix_def cut_last_def t_def)
      then show ?thesis using l ne ntop4_no_slash(2) [where bs = "put_le32 ip"] atoip_v4 [of t True t None]
        by (simp add: t_def RTE_V4PREFIXMAX_def)
    qed
    ultimately show ?thesis by simp
  next
    case False
    define n where "n = mask_size m"
    define s where "s = t @ ''/'' @ dec n"
    have n: "n \<le> 32" using mask_size_le by (simp add: n_def)
    have ln: "length (dec n) \<le> 2" using n by (intro length_dec) auto
    have "inet_ntop4 len ip m = Some s" using False assms l ln by (simp add: inet_ntop4_def t_def [symmetric] s_def n_def [symmetric])
    moreover have "\<not> isdigit (CHR ''/'')" by code_simp
    then have "CHR ''/'' \<notin> set (dec n)" using dec_char by blast
    then have "cut_last (CHR ''/'') s = Some (t, dec n)" using cut_last_append by (simp add: s_def)
    then have "atoip_prefix True s = Some (t, Some (int n))"
      using n strtol_dec [of n "[]"] by (simp add: atoip_prefix_def RTE_PREFIXMAX_def)
    then have "atoip s True = Some (4, \<lparr>ia_family = AF_INET, ia_addr = put_le32 ip, ia_prefixlen = of_nat n\<rparr>)"
      using l n ln ntop4_no_slash(2) [where bs = "put_le32 ip" and n = n] atoip_v4 [of s True t "Some (int n)"]
      by (simp add: s_def t_def RTE_V4PREFIXMAX_def)
    ultimately show ?thesis by (simp add: n_def)
  qed
qed

lemma atoip_ntop4_witness:
  "\<exists>s. inet_ntop4 32 0x0100000A 0xFFFFFF00 = Some s \<and>
    atoip s True = Some (4, \<lparr>ia_family = AF_INET, ia_addr = [10, 0, 0, 1], ia_prefixlen = 24\<rparr>)"
proof -
  have "put_le32 0x0100000A = [10, 0, 0, 1]" by code_simp
  then show ?thesis using atoip_ntop4 [of 32 "0x0100000A" "0xFFFFFF00"] by (simp add: mask_size_def)
qed

text \<open>A slash without a prefix length is accepted as length 0.\<close>

lemma empty_prefix_accepted: "atoip_prefix True (ip @ ''/'') = Some (ip, Some 0)"
  using cut_last_append [of "CHR ''/''" "[]" ip]
  by (simp add: atoip_prefix_def strtol_def strto_def RTE_PREFIXMAX_def Let_def)

end
