(* ===== verification/CliMap.thy ===== *)
theory CliMap
  imports AddrParse
begin

text \<open>
  From a command line to a command variant: the splitting of a line into words with quotes (\<open>pg_strqtok\<close>,
  \<open>lib/common/pg_strings.c\<close>) and the choice of the variant by templates such as \<open>range %P dst port %d\<close>
  (\<open>cli_mapping\<close>, \<open>lib/cli/cli_map.c\<close>). An outer \<open>None\<close> stands for a read behind the end of a string.
\<close>

section \<open>Words\<close>

datatype qstate = INIT | WORD | STRING_QUOTE | STRING_TICK | STRING_BRACKET

text \<open>
  The loop of \<open>pg_strqtok\<close> from the character at \<open>p\<close> on: \<open>room\<close> is what is left of the argument vector, \<open>cur\<close> the text
  from the start of the word to \<open>p\<close>. A backslash starts the word anew at the character behind it; behind a
  backslash at the end of the line the loop goes on past the end.
\<close>

fun qloop :: "string \<Rightarrow> qstate \<Rightarrow> nat \<Rightarrow> string \<Rightarrow> string \<Rightarrow> string list option" where
  "qloop delim st room cur [] = Some (if st \<noteq> INIT \<and> room > 0 then [cur] else [])"
| "qloop delim st room cur (c # cs) =
     (if room = 0 then Some []
      else if c = CHR 0x5C then (case cs of [] \<Rightarrow> None | e # cs1 \<Rightarrow> qloop delim st room [e] cs1)
      else case st of
        INIT \<Rightarrow> (if c = CHR 0x22 then qloop delim STRING_QUOTE room [] cs
                 else if c = CHR 0x27 then qloop delim STRING_TICK room [] cs
                 else if c = CHR ''{'' then qloop delim STRING_BRACKET room [] cs
                 else if c \<notin> set delim then qloop delim WORD room [c] cs
                 else qloop delim INIT room cur cs)
      | STRING_QUOTE \<Rightarrow> (if c = CHR 0x22 then map_option (Cons cur) (qloop delim INIT (room - 1) [] cs)
                         else qloop delim STRING_QUOTE room (cur @ [c]) cs)
      | STRING_TICK \<Rightarrow> (if c = CHR 0x27 then map_option (Cons cur) (qloop delim INIT (room - 1) [] cs)
                        else qloop delim STRING_TICK room (cur @ [c]) cs)
      | STRING_BRACKET \<Rightarrow> (if c = CHR ''}'' then map_option (Cons cur) (qloop delim INIT (room - 1) [] cs)
                           else qloop delim STRING_BRACKET room (cur @ [c]) cs)
      | WORD \<Rightarrow> (if c \<in> set delim then map_option (Cons cur) (qloop delim INIT (room - 1) [] cs)
                 else qloop delim WORD room (cur @ [c]) cs))"

text \<open>The words of a line. The loop starts inside a word, so there is always at least one, which may be empty.\<close>

definition pg_strqtok :: "string \<Rightarrow> string \<Rightarrow> nat \<Rightarrow> string list option" where
  "pg_strqtok str delim maxtokens = qloop delim WORD maxtokens [] (pg_strtrim str)"

section \<open>Templates\<close>

definition STR_MAX_ARGVS :: nat where "STR_MAX_ARGVS = 64"
definition CLI_MAX_ARGVS :: nat where "CLI_MAX_ARGVS = 64"
definition CLI_MAX_PATH_LENGTH :: nat where "CLI_MAX_PATH_LENGTH = 2048"

record cli_map =
  cm_index :: int
  cm_fmt :: string

fun pg_strmatch :: "string \<Rightarrow> string \<Rightarrow> bool" where
  "pg_strmatch (a # s1) (b # s2) = (a = b \<and> pg_strmatch s1 s2)"
| "pg_strmatch s1 s2 = (s1 = [] \<and> s2 = [])"

fun first_match :: "string list \<Rightarrow> string \<Rightarrow> nat \<Rightarrow> nat option" where
  "first_match [] str i = None"
| "first_match (a # argv) str i = (if pg_strmatch a str then Some i else first_match argv str (i + 1))"

text \<open>The place of a string in a list of options, which may start with \<open>%|\<close>.\<close>

definition pg_stropt :: "string \<Rightarrow> string \<Rightarrow> string \<Rightarrow> nat option" where
  "pg_stropt list_str str delim =
     (let l = (if take 2 list_str = ''%|'' then drop 2 list_str else list_str) in
      if l = [] then None
      else case pg_strtok l delim STR_MAX_ARGVS of None \<Rightarrow> None | Some argv \<Rightarrow> first_match argv str 0)"

text \<open>Character classes of the C locale.\<close>

definition isxdigit :: "char \<Rightarrow> bool" where "isxdigit c \<longleftrightarrow> xdigit c < 16"
definition isprint :: "char \<Rightarrow> bool" where "isprint c \<longleftrightarrow> 32 \<le> char_code c \<and> char_code c \<le> 126"

text \<open>
  The loop over the characters of an argument: it goes on while the characters do \<^emph>\<open>not\<close> match. It looks at the
  character behind the one it has just tested, so an empty argument is left behind its end.
\<close>

fun scan_arg :: "(char \<Rightarrow> bool) \<Rightarrow> string \<Rightarrow> bool option" where
  "scan_arg ok [] = None"
| "scan_arg ok (c # cs) = (if ok c then Some True else if cs = [] then Some False else scan_arg ok cs)"

definition is_map_valid :: "string \<Rightarrow> string \<Rightarrow> bool option" where
  "is_map_valid fmt arg =
     (case drop 1 fmt of
        [] \<Rightarrow> Some False
      | k # _ \<Rightarrow>
          (if k \<notin> set ''%bdDuUhHsnc46mkPC|l'' then Some False
           else if k \<in> set ''%l'' then scan_arg (\<lambda>_. True) arg
           else if k \<in> set ''bdDuUn'' then scan_arg isdigit arg
           else if k \<in> set ''hHm'' then scan_arg isxdigit arg
           else if k \<in> set ''sc'' then scan_arg isprint arg
           else if k = CHR ''4'' then Some (map_option fst (atoip arg (CHR ''/'' \<in> set arg)) = Some 4)
           else if k = CHR ''6'' then Some (map_option fst (atoip arg (CHR ''/'' \<in> set arg)) = Some 6)
           else if k = CHR ''k'' then Some True
           else if k \<in> set ''PC'' then scan_arg (\<lambda>c. isdigit c \<or> c = CHR ''a'') arg
           else Some (pg_stropt (drop 1 fmt) arg ''|'' \<noteq> None)))"

text \<open>The words of a template against those of the line, in turn, up to the first that does not match.\<close>

fun match_args :: "string list \<Rightarrow> string list \<Rightarrow> bool option" where
  "match_args (t # ts) (a # argv) =
     (if t \<noteq> [] \<and> hd t = CHR ''%'' then
        (case is_map_valid t a of None \<Rightarrow> None | Some ok \<Rightarrow> if ok then match_args ts argv else Some False)
      else if pg_strmatch t a then match_args ts argv else Some False)"
| "match_args ts argv = Some True"

fun cli_mapping :: "cli_map list \<Rightarrow> string list \<Rightarrow> cli_map option option" where
  "cli_mapping [] argv = Some None"
| "cli_mapping (m # maps) argv =
     (let ts = strtok_loop '' '' CLI_MAX_ARGVS (take CLI_MAX_PATH_LENGTH (cm_fmt m)) in
      if last argv = ''-?'' \<or> last argv = ''?'' then Some None
      else if length ts \<noteq> length argv then cli_mapping maps argv
      else (case match_args ts argv of
              None \<Rightarrow> None
            | Some ok \<Rightarrow> if ok then Some (Some m) else cli_mapping maps argv))"

text \<open>The place of a word in the options of the template's word \<open>index\<close>; an inner \<open>None\<close> is \<open>-1\<close>.\<close>

definition cli_map_list_search :: "string \<Rightarrow> string \<Rightarrow> nat \<Rightarrow> nat option option" where
  "cli_map_list_search fmt item index =
     (let opts = strtok_loop '' '' CLI_MAX_ARGVS fmt in
      if index < length opts \<and> length (opts ! index) \<ge> 2 then Some (pg_stropt (drop 2 (opts ! index)) item ''|'') else None)"


section \<open>The words of a line\<close>

text \<open>A word as it is typed: plain, or in one of the three kinds of quotes.\<close>

definition qtext :: "qstate \<times> string \<Rightarrow> string" where
  "qtext q = (case fst q of STRING_QUOTE \<Rightarrow> CHR 0x22 # snd q @ [CHR 0x22] | STRING_TICK \<Rightarrow> CHR 0x27 # snd q @ [CHR 0x27]
     | STRING_BRACKET \<Rightarrow> CHR ''{'' # snd q @ ''}'' | _ \<Rightarrow> snd q)"

definition qword_ok :: "string \<Rightarrow> qstate \<times> string \<Rightarrow> bool" where
  "qword_ok delim q \<longleftrightarrow> CHR 0x5C \<notin> set (snd q) \<and>
     (case fst q of STRING_QUOTE \<Rightarrow> CHR 0x22 \<notin> set (snd q) | STRING_TICK \<Rightarrow> CHR 0x27 \<notin> set (snd q)
      | STRING_BRACKET \<Rightarrow> CHR ''}'' \<notin> set (snd q) | INIT \<Rightarrow> False
      | WORD \<Rightarrow> snd q \<noteq> [] \<and> list_all (\<lambda>c. c \<notin> set delim \<and> \<not> isspace c) (snd q) \<and>
          hd (snd q) \<notin> set [CHR 0x22, CHR 0x27, CHR ''{''])"

text \<open>What comes before a word, between words, does not matter.\<close>

lemma qloop_INIT_cur: "qloop delim INIT room cur s = qloop delim INIT room cur' s"
proof (induction s arbitrary: cur cur')
  case (Cons c cs)
  show ?case using Cons.IH [of cur cur'] by (simp split: if_split list.split)
qed simp

lemma qloop_quoted:
  assumes "CHR 0x5C \<notin> set w"
  shows "CHR 0x22 \<notin> set w \<Longrightarrow> qloop delim STRING_QUOTE (Suc room) cur (w @ CHR 0x22 # r) = map_option (Cons (cur @ w)) (qloop delim INIT room [] r)"
    and "CHR 0x27 \<notin> set w \<Longrightarrow> qloop delim STRING_TICK (Suc room) cur (w @ CHR 0x27 # r) = map_option (Cons (cur @ w)) (qloop delim INIT room [] r)"
    and "CHR ''}'' \<notin> set w \<Longrightarrow> qloop delim STRING_BRACKET (Suc room) cur (w @ CHR ''}'' # r) = map_option (Cons (cur @ w)) (qloop delim INIT room [] r)"
  using assms by (induction w arbitrary: cur) auto

lemma qloop_plain:
  assumes "CHR 0x5C \<notin> set w" and "list_all (\<lambda>c. c \<notin> set delim) w"
  shows "qloop delim WORD (Suc room) cur w = Some [cur @ w]"
    and "d \<in> set delim \<Longrightarrow> d \<noteq> CHR 0x5C \<Longrightarrow>
      qloop delim WORD (Suc room) cur (w @ d # r) = map_option (Cons (cur @ w)) (qloop delim INIT room [] r)"
  using assms by (induction w arbitrary: cur) auto

lemma qloop_word:
  assumes ok: "qword_ok delim q" and "CHR '' '' \<in> set delim"
  shows "qloop delim INIT (Suc room) cur (qtext q) = Some [snd q]"
    and "qloop delim INIT (Suc room) cur (qtext q @ CHR '' '' # r) = map_option (Cons (snd q)) (qloop delim INIT room [] r)"
proof -
  have blank: "qloop delim INIT room [] (CHR '' '' # r) = qloop delim INIT room [] r"
    using assms(2) by (cases r; cases "room = 0") simp_all
  obtain st w where q: "q = (st, w)" by (cases q)
  have w: "CHR 0x5C \<notin> set w" using ok by (simp add: qword_ok_def q)
  show "qloop delim INIT (Suc room) cur (qtext q) = Some [snd q]"
  proof (cases st)
    case WORD
    then have "w \<noteq> []" "list_all (\<lambda>c. c \<notin> set delim) w" "hd w \<notin> set [CHR 0x22, CHR 0x27, CHR ''{'']"
      using ok by (auto simp: qword_ok_def q list_all_iff)
    then show ?thesis using w qloop_plain(1) [of "tl w" delim room "[hd w]"] WORD by (cases w) (auto simp: q qtext_def)
  qed (use ok w qloop_quoted [OF w, of delim room "[]" "[]"] in \<open>auto simp: q qtext_def qword_ok_def\<close>)
  show "qloop delim INIT (Suc room) cur (qtext q @ CHR '' '' # r) = map_option (Cons (snd q)) (qloop delim INIT room [] r)"
  proof (cases st)
    case WORD
    then have "w \<noteq> []" "list_all (\<lambda>c. c \<notin> set delim) w" "hd w \<notin> set [CHR 0x22, CHR 0x27, CHR ''{'']"
      using ok by (auto simp: qword_ok_def q list_all_iff)
    then show ?thesis using w assms(2) qloop_plain(2) [of "tl w" delim "CHR '' ''" room "[hd w]" r] WORD by (cases w) (auto simp: q qtext_def)
  qed (use ok w blank qloop_quoted [OF w, of delim room "[]" "CHR '' '' # r"] in \<open>auto simp: q qtext_def qword_ok_def\<close>)
qed

lemma qloop_words:
  assumes "CHR '' '' \<in> set delim" and "\<forall>q \<in> set qs. qword_ok delim q" and "length qs \<le> room"
  shows "qloop delim INIT room cur (join '' '' (map qtext qs)) = Some (map snd qs)"
  using assms(2,3)
proof (induction qs arbitrary: room cur)
  case (Cons q qs)
  then obtain room' where room: "room = Suc room'" by (cases room) auto
  have q: "qword_ok delim q" using Cons.prems by simp
  show ?case
  proof (cases "qs = []")
    case True
    then show ?thesis using qloop_word(1) [OF q assms(1)] room by simp
  next
    case False
    then have "join '' '' (map qtext (q # qs)) = qtext q @ CHR '' '' # join '' '' (map qtext qs)" by (simp add: join_Cons)
    then show ?thesis using qloop_word(2) [OF q assms(1)] Cons room by (simp del: join.simps)
  qed
qed simp


lemma qtext_last: "qword_ok delim q \<Longrightarrow> qtext q \<noteq> [] \<and> \<not> isspace (last (qtext q))"
  by (cases q; cases "fst q") (auto simp: qword_ok_def qtext_def list_all_iff isspace_def)

lemma last_join: "ws \<noteq> [] \<Longrightarrow> last ws \<noteq> [] \<Longrightarrow> last (join sep ws) = last (last ws) \<and> join sep ws \<noteq> []"
  by (induction ws rule: induct_list012) (auto simp: last_append)

lemma qloop_line:
  assumes "\<forall>q \<in> set qs. qword_ok delim q" and "qs \<noteq> []" and "fst (hd qs) = WORD"
    and "CHR '' '' \<in> set delim" and "length qs \<le> maxtokens"
  shows "pg_strqtok (join '' '' (map qtext qs)) delim maxtokens = Some (map snd qs)"
proof -
  obtain w qs1 where qs: "qs = (WORD, w) # qs1" using assms(2,3) by (cases qs) (auto simp: prod_eq_iff)
  have w: "CHR 0x5C \<notin> set w" "list_all (\<lambda>c. c \<notin> set delim) w" "w \<noteq> []" "\<not> isspace (hd w)"
    using assms(1) by (cases w; auto simp: qs qword_ok_def list_all_iff)+
  let ?s = "join '' '' (map qtext qs)"
  have h: "hd ?s = hd w" using w(3) by (cases "qs1 = []") (auto simp: qs qtext_def join_Cons)
  have "\<not> isspace (last ?s) \<and> ?s \<noteq> []"
    using last_join [of "map qtext qs" "'' ''"] qtext_last [of delim "last qs"] assms(1,2) by (simp add: last_map)
  then have trim: "pg_strtrim ?s = ?s" using pg_strtrim_id [of ?s] h w(4) by simp
  obtain room where room: "maxtokens = Suc room" using assms(5) qs by (cases maxtokens) auto
  show ?thesis
  proof (cases "qs1 = []")
    case True
    then show ?thesis unfolding pg_strqtok_def trim using qloop_plain(1) [OF w(1,2), of room "[]"] by (simp add: qs qtext_def room)
  next
    case False
    then have "?s = w @ CHR '' '' # join '' '' (map qtext qs1)" by (simp add: qs join_Cons qtext_def)
    moreover have "qloop delim INIT room [] (join '' '' (map qtext qs1)) = Some (map snd qs1)"
      using qloop_words [OF assms(4), of qs1 room] assms(1,5) by (simp add: qs room)
    ultimately show ?thesis unfolding pg_strqtok_def trim
      using qloop_plain(2) [OF w(1,2) assms(4), of room "[]"] by (simp add: qs room)
  qed
qed

text \<open>
  C39 The words of a command line: words without blanks and words in double quotes, ticks or braces, with a single
  blank between them, are split into exactly these words without their quotes, when the first is a plain word and
  none holds a backslash or its own closing quote.
\<close>

theorem command_words:
  assumes "\<forall>q \<in> set qs. qword_ok delim q" and "qs \<noteq> []" and "fst (hd qs) = WORD"
    and "CHR '' '' \<in> set delim" and "length qs \<le> maxtokens"
  shows "pg_strqtok (join '' '' (map qtext qs)) delim maxtokens = Some (map snd qs)"
  using qloop_line [OF assms] .

lemma command_words_witness:
  "pg_strqtok ''set 0-3 pattern {a b} 5'' '' '' 64 = Some [''set'', ''0-3'', ''pattern'', ''a b'', ''5'']"
  using command_words [of "[(WORD, ''set''), (WORD, ''0-3''), (WORD, ''pattern''), (STRING_BRACKET, ''a b''), (WORD, ''5'')]" "'' ''" 64]
  by (simp add: qword_ok_def qtext_def isspace_def)

text \<open>A quote is not seen at the start of the line, and a backslash loses the part of the word before it.\<close>

lemma leading_quote_kept: "pg_strqtok (CHR 0x22 # ''my cmd'' @ [CHR 0x22]) '' '' 64 = Some [CHR 0x22 # ''my'', ''cmd'' @ [CHR 0x22]]"
  by code_simp

lemma backslash_cuts_word: "pg_strqtok (''set 0 a'' @ CHR 0x5C # '' b'') '' '' 64 = Some [''set'', ''0'', '' b'']"
  by code_simp

lemma empty_line_word: "pg_strqtok '''' delim (Suc n) = Some [[]]"
  by (simp add: pg_strqtok_def pg_strtrim_def)


section \<open>The choice of a template\<close>

text \<open>The words of a text that are separated by any number of the character \<open>x\<close>.\<close>

definition parts :: "char \<Rightarrow> string \<Rightarrow> string list" where
  "parts x s = filter (\<lambda>w. w \<noteq> []) (split_at x s)"

lemma parts_drop: "parts x (dropWhile (\<lambda>c. c \<in> set [x]) s) = parts x s"
  by (induction s) (auto simp: parts_def)

lemma split_at_word: "x \<notin> set w \<Longrightarrow> split_at x w = [w] \<and> split_at x (w @ x # r) = w # split_at x r"
  by (induction w) auto

lemma strtok_parts: "0 < room \<Longrightarrow> strtok_loop [x] room s = map pg_strtrim (take room (parts x s))"
proof (induction s arbitrary: room rule: length_induct)
  case (1 s)
  define s1 where "s1 = dropWhile (\<lambda>c. c \<in> set [x]) s"
  have p: "parts x s = parts x s1" by (simp only: s1_def parts_drop)
  show ?case
  proof (cases "s1 = []")
    case True
    have "strtok_r [x] s = None" unfolding strtok_r_def s1_def [symmetric] Let_def using True by simp
    then show ?thesis using p True by (simp add: strtok_loop.simps [of _ _ s] parts_def)
  next
    case False
    define tok where "tok = takeWhile (\<lambda>c. c \<notin> set [x]) s1"
    define r where "r = dropWhile (\<lambda>c. c \<notin> set [x]) s1"
    have tr: "s1 = tok @ r" by (simp add: tok_def r_def)
    have hd: "hd s1 \<noteq> x" using hd_dropWhile [of "\<lambda>c. c \<in> set [x]" s] False by (simp add: s1_def)
    have tok: "x \<notin> set tok" "tok \<noteq> []" using False hd by (auto simp: tok_def takeWhile_eq_Nil_iff dest: set_takeWhileD)
    have step: "strtok_r [x] s = Some (tok, drop 1 r)"
      unfolding strtok_r_def s1_def [symmetric] tok_def r_def Let_def using False by simp
    have rest: "parts x s = tok # parts x (drop 1 r)"
    proof (cases r)
      case Nil
      then show ?thesis unfolding p using tok split_at_word [OF tok(1)] tr by (simp add: parts_def)
    next
      case (Cons c r1)
      then have "c = x" using hd_dropWhile [of "\<lambda>c. c \<notin> set [x]" s1] by (simp add: r_def)
      then show ?thesis unfolding p using tok split_at_word [OF tok(1)] Cons tr by (simp add: parts_def)
    qed
    have "length (drop 1 r) < length s" using strtok_r_shorter [OF step] .
    then have "1 < room \<Longrightarrow> strtok_loop [x] (room - 1) (drop 1 r) = map pg_strtrim (take (room - 1) (parts x (drop 1 r)))"
      using 1 by simp
    then show ?thesis using \<open>0 < room\<close>
      by (cases "room \<le> 1") (simp_all add: strtok_loop.simps [of _ _ s] step rest take_Cons')
  qed
qed

text \<open>
  What a word of the line must be for a word of a template: any of its characters decides for the formats of
  numbers and names.
\<close>

definition some_char :: "(char \<Rightarrow> bool) \<Rightarrow> string \<Rightarrow> bool" where "some_char ok a \<longleftrightarrow> list_ex ok a"

definition fits :: "string \<Rightarrow> string \<Rightarrow> bool" where
  "fits t a \<longleftrightarrow>
     (if t = [] \<or> hd t \<noteq> CHR ''%'' then t = a
      else if t = ''%'' then False
      else let k = t ! 1 in
        if k \<in> set ''%lk'' then True
        else if k \<in> set ''bdDuUn'' then some_char isdigit a
        else if k \<in> set ''hHm'' then some_char isxdigit a
        else if k \<in> set ''sc'' then some_char isprint a
        else if k \<in> set ''PC'' then some_char (\<lambda>c. isdigit c \<or> c = CHR ''a'') a
        else if k = CHR ''4'' then map_option fst (atoip a (CHR ''/'' \<in> set a)) = Some 4
        else if k = CHR ''6'' then map_option fst (atoip a (CHR ''/'' \<in> set a)) = Some 6
        else k = CHR ''|'' \<and> a \<in> set (parts (CHR ''|'') (drop 2 t)))"

text \<open>Templates within the limits of the buffers, with blanks only between their words.\<close>

definition plain_template :: "string \<Rightarrow> bool" where
  "plain_template fmt \<longleftrightarrow> length fmt \<le> CLI_MAX_PATH_LENGTH \<and> length (parts (CHR '' '') fmt) \<le> CLI_MAX_ARGVS
     \<and> list_all (\<lambda>c. isspace c \<longrightarrow> c = CHR '' '') fmt
     \<and> list_all (\<lambda>t. length (parts (CHR ''|'') t) \<le> STR_MAX_ARGVS) (parts (CHR '' '') fmt)"

lemma pg_strmatch_eq: "pg_strmatch a b \<longleftrightarrow> a = b"
  by (induction a b rule: pg_strmatch.induct) auto

lemma first_match_in: "first_match argv s i \<noteq> None \<longleftrightarrow> s \<in> set argv"
  by (induction argv arbitrary: i) (auto simp: pg_strmatch_eq)

lemma scan_arg_some: "a \<noteq> [] \<Longrightarrow> scan_arg ok a = Some (some_char ok a)"
proof (induction a)
  case (Cons c cs)
  then show ?case by (cases cs) (auto simp: some_char_def)
qed simp

lemma set_split_at: "w \<in> set (split_at x s) \<Longrightarrow> set w \<subseteq> set s - {x}"
proof (induction s arbitrary: w)
  case (Cons c cs)
  have h: "hd (split_at x cs) \<in> set (split_at x cs)" by simp
  show ?case
  proof (cases "c = x \<or> w \<in> set (tl (split_at x cs))")
    case True
    then have "w = [] \<or> w \<in> set (split_at x cs)" using Cons.prems by (auto split: if_splits dest: list.set_sel(2) [OF split_at_nonempty])
    then show ?thesis using Cons.IH by auto
  next
    case False
    then show ?thesis using Cons.prems Cons.IH [OF h] by auto
  qed
qed simp

lemma parts_plain:
  assumes "list_all (\<lambda>c. isspace c \<longrightarrow> c = x) s"
  shows "map pg_strtrim (parts x s) = parts x s"
proof (rule map_idI)
  fix w
  assume "w \<in> set (parts x s)"
  then have "set w \<subseteq> set s - {x}" by (auto simp: parts_def dest: set_split_at)
  then have "\<forall>c \<in> set w. \<not> isspace c" using assms by (auto simp: list_all_iff)
  then show "pg_strtrim w = w" by (intro pg_strtrim_id) auto
qed


text \<open>One word of the template.\<close>

lemma option_fits:
  assumes "list_all (\<lambda>c. \<not> isspace c) t" and "length (parts (CHR ''|'') t) \<le> STR_MAX_ARGVS" and "t = ''%|'' @ r"
  shows "pg_stropt (drop 1 t) a ''|'' \<noteq> None \<longleftrightarrow> a \<in> set (parts (CHR ''|'') r)"
proof -
  have "parts (CHR ''|'') t = ''%'' # parts (CHR ''|'') r" "parts (CHR ''|'') (drop 1 t) = parts (CHR ''|'') r"
    by (simp_all add: assms(3) parts_def)
  moreover have "list_all (\<lambda>c. isspace c \<longrightarrow> c = CHR ''|'') r" using assms(1,3) by (auto simp: list_all_iff)
  ultimately have "strtok_loop ''|'' STR_MAX_ARGVS (drop 1 t) = parts (CHR ''|'') r"
    using assms(2) parts_plain by (simp add: strtok_parts STR_MAX_ARGVS_def)
  then show ?thesis using first_match_in by (simp add: pg_stropt_def pg_strtok_def STR_MAX_ARGVS_def assms(3) Let_def)
qed

lemma is_map_valid_fits:
  assumes "list_all (\<lambda>c. \<not> isspace c) t" and "length (parts (CHR ''|'') t) \<le> STR_MAX_ARGVS" and "a \<noteq> []"
    and "t \<noteq> []" and "hd t = CHR ''%''"
  shows "is_map_valid t a = Some (fits t a)"
proof (cases "drop 1 t")
  case Nil
  then show ?thesis using assms(4,5) by (cases t) (simp_all add: is_map_valid_def fits_def)
next
  case (Cons k r)
  then have t: "t = CHR ''%'' # k # r" using assms(4,5) by (cases t) simp_all
  note bar = option_fits [OF assms(1,2), of r a]
  show ?thesis using bar assms(3) by (auto simp: t is_map_valid_def fits_def scan_arg_some some_char_def neq_Nil_conv)
qed

lemma match_args_fits:
  assumes "\<forall>t \<in> set ts. list_all (\<lambda>c. \<not> isspace c) t \<and> length (parts (CHR ''|'') t) \<le> STR_MAX_ARGVS" and "\<forall>a \<in> set argv. a \<noteq> []"
    and "length ts = length argv"
  shows "match_args ts argv = Some (list_all2 fits ts argv)"
  using assms(3,1,2)
proof (induction ts argv rule: list_induct2)
  case (Cons t ts a argv)
  show ?case
  proof (cases "t \<noteq> [] \<and> hd t = CHR ''%''")
    case True
    then show ?thesis using is_map_valid_fits [of t a] Cons by auto
  next
    case False
    then show ?thesis using Cons by (auto simp: pg_strmatch_eq fits_def)
  qed
qed simp

lemma template_words:
  assumes "plain_template fmt"
  shows "strtok_loop '' '' CLI_MAX_ARGVS (take CLI_MAX_PATH_LENGTH fmt) = parts (CHR '' '') fmt"
    and "\<forall>t \<in> set (parts (CHR '' '') fmt). list_all (\<lambda>c. \<not> isspace c) t \<and> length (parts (CHR ''|'') t) \<le> STR_MAX_ARGVS"
proof -
  have p: "length fmt \<le> CLI_MAX_PATH_LENGTH" "length (parts (CHR '' '') fmt) \<le> CLI_MAX_ARGVS"
    "list_all (\<lambda>c. isspace c \<longrightarrow> c = CHR '' '') fmt"
    "list_all (\<lambda>t. length (parts (CHR ''|'') t) \<le> STR_MAX_ARGVS) (parts (CHR '' '') fmt)"
    using assms by (simp_all add: plain_template_def)
  show "strtok_loop '' '' CLI_MAX_ARGVS (take CLI_MAX_PATH_LENGTH fmt) = parts (CHR '' '') fmt"
    using p(1,2) parts_plain [OF p(3)] by (simp add: strtok_parts CLI_MAX_ARGVS_def)
  show "\<forall>t \<in> set (parts (CHR '' '') fmt). list_all (\<lambda>c. \<not> isspace c) t \<and> length (parts (CHR ''|'') t) \<le> STR_MAX_ARGVS"
    using p(3,4) by (fastforce simp: parts_def list_all_iff dest: set_split_at)
qed

text \<open>
  C40 The choice of a command variant: for arguments that are not empty and do not ask for help, it is the first
  template of the table with as many words as there are arguments, each argument fitting its word, where a number
  or name format fits as soon as \<^emph>\<open>some\<close> character of the argument is of the right kind.
\<close>

theorem first_fitting_template:
  assumes "\<forall>m \<in> set maps. plain_template (cm_fmt m)" and "\<forall>a \<in> set argv. a \<noteq> []"
    and "last argv \<noteq> ''?''" and "last argv \<noteq> ''-?''"
  shows "cli_mapping maps argv = Some (find (\<lambda>m. list_all2 fits (parts (CHR '' '') (cm_fmt m)) argv) maps)"
  using assms(1)
proof (induction maps)
  case (Cons m maps)
  then have m: "plain_template (cm_fmt m)" by simp
  note ts = template_words [OF m]
  show ?case
  proof (cases "length (parts (CHR '' '') (cm_fmt m)) = length argv")
    case True
    then have "match_args (parts (CHR '' '') (cm_fmt m)) argv = Some (list_all2 fits (parts (CHR '' '') (cm_fmt m)) argv)"
      using match_args_fits [OF ts(2) assms(2)] by simp
    then show ?thesis using Cons True assms(3,4) ts(1) by (simp add: Let_def)
  next
    case False
    then have "\<not> list_all2 fits (parts (CHR '' '') (cm_fmt m)) argv" by (auto dest: list_all2_lengthD)
    then show ?thesis using Cons False assms(3,4) ts(1) by (simp add: Let_def)
  qed
qed simp


lemma first_fitting_template_witness:
  "cli_mapping [\<lparr>cm_index = 10, cm_fmt = ''set %P %|size|rate %d''\<rparr>, \<lparr>cm_index = 20, cm_fmt = ''set %P %s %h''\<rparr>]
     [''set'', ''0-3'', ''rate'', ''x7''] = Some (Some \<lparr>cm_index = 10, cm_fmt = ''set %P %|size|rate %d''\<rparr>)"
proof -
  have t: "\<forall>m \<in> set [\<lparr>cm_index = 10, cm_fmt = ''set %P %|size|rate %d''\<rparr>, \<lparr>cm_index = 20, cm_fmt = ''set %P %s %h''\<rparr>].
      plain_template (cm_fmt m)"
    by code_simp
  have f: "list_all2 fits (parts (CHR '' '') ''set %P %|size|rate %d'') [''set'', ''0-3'', ''rate'', ''x7'']" by code_simp
  show ?thesis using first_fitting_template [OF t, of "[''set'', ''0-3'', ''rate'', ''x7'']"] f by simp
qed

text \<open>A number need not be one: a single digit in the argument is enough.\<close>

lemma number_with_letters: "is_map_valid ''%d'' ''abc1'' = Some True \<and> is_map_valid ''%m'' ''xyz:a'' = Some True"
  by code_simp

text \<open>The position of an option in its list, which the handlers switch on.\<close>

lemma list_search_position:
  assumes "plain_template fmt" and "index < length (parts (CHR '' '') fmt)" and "parts (CHR '' '') fmt ! index = ''%|'' @ join ''|'' os"
    and "\<forall>w \<in> set os. w \<noteq> [] \<and> CHR ''|'' \<notin> set w" and "distinct os" and "i < length os" and "hd (hd os) \<noteq> CHR ''%''"
  shows "cli_map_list_search fmt (os ! i) index = Some (Some i)"
proof -
  have opts: "strtok_loop '' '' CLI_MAX_ARGVS fmt = parts (CHR '' '') fmt"
    using template_words(1) [OF assms(1)] assms(1) by (simp add: plain_template_def)
  let ?t = "parts (CHR '' '') fmt ! index"
  have t: "list_all (\<lambda>c. \<not> isspace c) ?t" "length (parts (CHR ''|'') ?t) \<le> STR_MAX_ARGVS"
    using template_words(2) [OF assms(1)] assms(2) nth_mem by blast+
  have os: "os \<noteq> []" using assms(6) by auto
  have "filter (\<lambda>w. w \<noteq> []) os = os" using assms(4) by (induction os) auto
  then have po: "parts (CHR ''|'') (join ''|'' os) = os" using split_at_join [OF os, of "CHR ''|''"] assms(4) by (simp add: parts_def)
  have "parts (CHR ''|'') ?t = ''%'' # os" using po by (simp add: assms(3)) (simp add: parts_def)
  then have "length os \<le> STR_MAX_ARGVS" using t(2) by simp
  moreover have "map pg_strtrim os = os"
    using parts_plain [of "CHR ''|''" "join ''|'' os"] t(1) po by (auto simp: assms(3) list_all_iff)
  ultimately have tok: "pg_strtok (join ''|'' os) ''|'' STR_MAX_ARGVS = Some os"
    using po by (simp add: pg_strtok_def STR_MAX_ARGVS_def strtok_parts)
  obtain o1 os1 where o1: "os = o1 # os1" using os by (cases os) auto
  then have o1': "o1 \<noteq> []" "hd o1 \<noteq> CHR ''%''" using assms(4,7) by auto
  then have "join ''|'' os \<noteq> [] \<and> hd (join ''|'' os) \<noteq> CHR ''%''" by (cases "os1 = []") (auto simp: o1 join_Cons)
  then have j: "join ''|'' os \<noteq> []" "take 2 (join ''|'' os) \<noteq> ''%|''" by (cases "join ''|'' os"; auto)+
  have fm: "first_match ws (ws ! k) n = Some (n + k)" if "distinct ws" "k < length ws" for ws k n
    using that by (induction ws arbitrary: k n) (auto simp: pg_strmatch_eq nth_Cons split: nat.split)
  have "pg_stropt (join ''|'' os) (os ! i) ''|'' = Some i"
    unfolding pg_stropt_def Let_def if_not_P [OF j(2)] if_not_P [OF j(1)] tok using fm [OF assms(5,6), of 0] by simp
  then show ?thesis using assms(2) by (simp add: cli_map_list_search_def opts assms(3))
qed

end
