(* ===== verification/MacText.thy ===== *)
theory MacText
  imports CText Inet
begin

text \<open>
  MAC addresses as text: printing by \<open>inet_mtoa\<close> (\<open>lib/common/pg_inet.h\<close>) and parsing by \<open>pg_ether_aton\<close>
  (\<open>lib/common/pg_strings.h\<close>).
\<close>

definition RTE_ETHER_ADDR_LEN :: nat where "RTE_ETHER_ADDR_LEN = 6"

definition hexdigit :: "nat \<Rightarrow> char" where
  "hexdigit n = (if n < 10 then char_of (48 + n) else char_of (87 + n))"

text \<open>\<open>%02x\<close> of a byte.\<close>

definition hex2 :: "u8 \<Rightarrow> string" where
  "hex2 b = [hexdigit (unat b div 16), hexdigit (unat b mod 16)]"

definition inet_mtoa :: "nat \<Rightarrow> u8 list \<Rightarrow> string" where
  "inet_mtoa len eaddr = take (len - 1) (join '':'' (map hex2 (take RTE_ETHER_ADDR_LEN eaddr)))"

text \<open>The numbers between the colons, with room for so many.\<close>

fun aton_loop :: "nat \<Rightarrow> string \<Rightarrow> u64 list option" where
  "aton_loop 0 a = None"
| "aton_loop (Suc room) a =
     (let (v, rest, range_err) = strtoul 16 a in
      if range_err \<or> rest = a \<or> (rest \<noteq> [] \<and> hd rest \<noteq> CHR '':'') then None
      else if rest = [] then Some [v]
      else map_option (Cons v) (aton_loop room (tl rest)))"

definition pg_ether_aton :: "string \<Rightarrow> u8 list option" where
  "pg_ether_aton a =
     (case aton_loop RTE_ETHER_ADDR_LEN a of
        None \<Rightarrow> None
      | Some os \<Rightarrow>
          (if length os = RTE_ETHER_ADDR_LEN then
             (if list_all (\<lambda>x. x \<le> 255) os then Some (map ucast os) else None)
           else if length os = RTE_ETHER_ADDR_LEN div 2 then
             (if list_all (\<lambda>x. x \<le> 65535) os then Some (concat (map (\<lambda>x. [ucast (drop_bit 8 x), ucast (x AND 0xFF)]) os)) else None)
           else None))"

section \<open>Reading back what was printed\<close>

lemma hexdigit_less: "n < 16 \<Longrightarrow> xdigit (hexdigit n) = n \<and> \<not> isspace (hexdigit n) \<and> hexdigit n \<notin> set ''-+xX:/,'' \<and> hexdigit n \<noteq> CHR 0x22"
proof -
  assume n: "n < 16"
  have x: "xdigit (hexdigit n) = n" using n by (simp add: hexdigit_def xdigit_def char_code_def Let_def)
  have "\<forall>c \<in> set (CHR 0x22 # ''-+xX:/,''). \<not> xdigit c < 16" by code_simp
  moreover have "\<forall>c. isspace c \<longrightarrow> \<not> xdigit c < 16" by (auto simp: isspace_def xdigit_def char_code_def Let_def)
  ultimately show ?thesis using x n by (metis list.set_intros(1,2))
qed

lemma hex2_digits: "\<exists>a b. hex2 x = [hexdigit a, hexdigit b] \<and> a < 16 \<and> b < 16 \<and> a * 16 + b = unat x"
proof -
  have "unat x < 256" using unsigned_less [where ?'a = nat, of x] by simp
  then show ?thesis unfolding hex2_def by (intro exI [of _ "unat x div 16"] exI [of _ "unat x mod 16"]) auto
qed

lemma strtoul_hex2:
  assumes "r = [] \<or> hd r = CHR '':''"
  shows "strtoul 16 (hex2 x @ r) = (ucast x, r, False)"
proof -
  obtain a b where d: "hex2 x = [hexdigit a, hexdigit b]" "a < 16" "b < 16" "a * 16 + b = unat x" using hex2_digits by blast
  note h = hexdigit_less [OF d(2)] hexdigit_less [OF d(3)]
  have "\<not> xdigit (CHR '':'') < 16" by code_simp
  then have r: "r = [] \<or> \<not> xdigit (hd r) < 16" using assms by auto
  have t: "takeWhile (\<lambda>c. xdigit c < 16) (hex2 x @ r) = hex2 x" "dropWhile (\<lambda>c. xdigit c < 16) (hex2 x @ r) = r"
    using h d r takeWhile_digits [of "\<lambda>c. xdigit c < 16" "hex2 x" r] by auto
  have "strto 16 (hex2 x @ r) = (False, num_val 16 (hex2 x), r)"
    using h t unfolding strto_def d(1) by (simp add: Let_def)
  moreover have "num_val 16 (hex2 x) = unat x" using h d by (simp add: num_val_def)
  moreover have "unat x < 2 ^ 64" using unsigned_less [where ?'a = nat, of x] by simp
  ultimately show ?thesis by (simp add: strtoul_def)
qed

lemma aton_loop_print:
  "bs \<noteq> [] \<Longrightarrow> length bs \<le> room \<Longrightarrow> aton_loop room (join '':'' (map hex2 bs)) = Some (map ucast bs)"
proof (induction bs arbitrary: room)
  case (Cons x bs)
  then obtain n where n: "room = Suc n" by (cases room) auto
  show ?case
  proof (cases "bs = []")
    case True
    then show ?thesis using strtoul_hex2 [of "[]" x] by (simp add: n hex2_def)
  next
    case False
    let ?r = "CHR '':'' # join '':'' (map hex2 bs)"
    have "join '':'' (map hex2 (x # bs)) = hex2 x @ ?r" using False by (simp add: join_Cons)
    moreover have "?r \<noteq> hex2 x @ ?r" by (simp add: hex2_def)
    ultimately show ?thesis using strtoul_hex2 [of ?r x] Cons False by (simp add: n del: join.simps)
  qed
qed simp

lemma mac_printed:
  assumes "length bs = 6" and "18 \<le> len"
  shows "inet_mtoa len bs = join '':'' (map hex2 bs)"
proof -
  have l: "length (join '':'' (map hex2 ws)) = 3 * length ws - 1" for ws
  proof (induction ws)
    case (Cons w ws)
    then show ?case by (cases "ws = []") (auto simp: join_Cons hex2_def)
  qed simp
  then show ?thesis using assms by (simp add: inet_mtoa_def RTE_ETHER_ADDR_LEN_def)
qed

lemma ether_aton_mtoa:
  assumes "length bs = 6" and "18 \<le> len"
  shows "pg_ether_aton (inet_mtoa len bs) = Some bs"
proof -
  note p = mac_printed [OF assms]
  have u: "(ucast x :: u64) \<le> 255" for x :: u8
    using unsigned_less [where ?'a = nat, of x] by (simp add: word_le_nat_alt unsigned_ucast_eq take_bit_nat_eq_self)
  have "(ucast (ucast x :: u64) :: u8) = x" for x by (rule bit_word_eqI) (simp add: bit_simps)
  then have "map (\<lambda>x. ucast (ucast x :: u64)) bs = bs" by simp
  moreover have "bs \<noteq> []" using assms(1) by auto
  ultimately show ?thesis using aton_loop_print [of bs 6] assms u unfolding p
    by (simp add: pg_ether_aton_def RTE_ETHER_ADDR_LEN_def list_all_iff comp_def)
qed

end
