(* ===== verification/TcpFlags.thy ===== *)
theory TcpFlags
  imports CText
begin

text \<open>
  The flags of a TCP header as text, for the commands and the saved configuration: \<open>tcp_flags_from_str\<close> and
  \<open>tcp_str_from_flags\<close> of \<open>app/pktgen-cmds.c\<close> with the string splitter of DPDK they use.
\<close>

definition TCP_FLAGS_LIST :: "(string \<times> u16) list" where
  "TCP_FLAGS_LIST = [(''rs0'', 0x800), (''rs1'', 0x400), (''rs2'', 0x200), (''rs3'', 0x100), (''cwr'', 0x080), (''ece'', 0x040),
     (''urg'', 0x020), (''ack'', 0x010), (''psh'', 0x008), (''rst'', 0x004), (''syn'', 0x002), (''fin'', 0x001)]"

definition TCP_FLAGS_MASK :: u16 where "TCP_FLAGS_MASK = 0x0FFF"

text \<open>The last token the array has room for is not cut at the delimiter behind it.\<close>

fun rte_strsplit :: "nat \<Rightarrow> char \<Rightarrow> string \<Rightarrow> string list" where
  "rte_strsplit 0 delim s = []"
| "rte_strsplit (Suc n) delim [] = []"
| "rte_strsplit (Suc n) delim (c # cs) =
     (if n = 0 then [if c = delim then [] else c # cs]
      else takeWhile (\<lambda>c. c \<noteq> delim) (c # cs) # rte_strsplit n delim (drop 1 (dropWhile (\<lambda>c. c \<noteq> delim) (c # cs))))"

text \<open>One field of the list.\<close>

definition flag_field :: "u16 \<Rightarrow> string \<Rightarrow> u16" where
  "flag_field flags f =
     (if f = ''clr'' then 0
      else case find (\<lambda>(name, b). f = name) TCP_FLAGS_LIST of None \<Rightarrow> flags | Some (name, b) \<Rightarrow> flags OR b)"

definition tcp_flags_from_str :: "string \<Rightarrow> u16" where
  "tcp_flags_from_str str = foldl flag_field 0 (rte_strsplit 16 (CHR '','') (take 127 str))"

text \<open>
  The loop over the list with the text so far, the length of the last piece and the room that is left; it stops
  with an error when the next name does not fit. The caller of \<open>tcp_str_from_flags\<close> ignores the error and uses the text.
\<close>

fun flag_names :: "u16 \<Rightarrow> (string \<times> u16) list \<Rightarrow> string \<Rightarrow> nat \<Rightarrow> nat \<Rightarrow> string" where
  "flag_names flags [] txt_so_far n len = txt_so_far"
| "flag_names flags ((name, b) # fs) txt_so_far n len =
     (if flags AND b \<noteq> 0 then
        (if n + length name + 1 \<ge> len then txt_so_far
         else let piece = (if txt_so_far = [] then name else CHR '','' # name)
              in flag_names flags fs (txt_so_far @ piece) (length piece) (len - length piece))
      else flag_names flags fs txt_so_far n len)"

definition tcp_str_from_flags :: "u16 \<Rightarrow> nat \<Rightarrow> string option" where
  "tcp_str_from_flags flags len =
     (if len < 4 then None
      else if flags AND TCP_FLAGS_MASK = 0 then Some ''clr''
      else Some (flag_names flags TCP_FLAGS_LIST [] 0 len))"

section \<open>Reading back what was printed\<close>

lemma strsplit_join:
  assumes "\<forall>w \<in> set ws. w \<noteq> [] \<and> x \<notin> set w" and "length ws < n"
  shows "rte_strsplit n x (join [x] ws) = ws"
  using assms
proof (induction ws arbitrary: n)
  case Nil
  then show ?case by (cases n) auto
next
  case (Cons w ws)
  then obtain m where n: "n = Suc m" "length ws < m" by (cases n) auto
  obtain c cs where w: "w = c # cs" "x \<notin> set w" using Cons.prems(1) by (cases w) auto
  have t: "takeWhile (\<lambda>c. c \<noteq> x) (w @ x # r) = w" "dropWhile (\<lambda>c. c \<noteq> x) (w @ x # r) = x # r" for r
    using w(2) by (induction w) auto
  have t0: "takeWhile (\<lambda>c. c \<noteq> x) w = w" "dropWhile (\<lambda>c. c \<noteq> x) w = []" using w(2) by (induction w) auto
  show ?case
  proof (cases "ws = []")
    case True
    have "rte_strsplit m x [] = []" by (cases m) simp_all
    then show ?thesis using True n t0 w(1) by simp
  next
    case False
    then have "join [x] (w # ws) = w @ x # join [x] ws" by (simp add: join_Cons)
    moreover have "rte_strsplit m x (join [x] ws) = ws" using Cons n by simp
    ultimately show ?thesis using t [of "join [x] ws"] n w(1) by simp
  qed
qed

text \<open>With 128 bytes the names of all flags that are set are printed.\<close>

definition set_flags :: "u16 \<Rightarrow> (string \<times> u16) list \<Rightarrow> (string \<times> u16) list" where
  "set_flags flags fs = filter (\<lambda>(name, b). flags AND b \<noteq> 0) fs"

lemma flag_names_join:
  assumes "\<forall>f \<in> set fs. length (fst f) = 3" and "n \<le> 4" and "4 * length fs + 5 \<le> len"
  shows "flag_names flags fs t n len = (if t = [] then join '','' (map fst (set_flags flags fs))
    else t @ concat (map (\<lambda>f. CHR '','' # fst f) (set_flags flags fs)))"
  using assms
proof (induction fs arbitrary: t n len)
  case (Cons f fs)
  obtain name b where f: "f = (name, b)" by (cases f)
  have name: "length name = 3" "name \<noteq> []" using Cons.prems(1) by (auto simp: f)
  show ?case
  proof (cases "flags AND b = 0")
    case True
    then show ?thesis using Cons by (simp add: f set_flags_def)
  next
    case False
    define p where "p = (if t = [] then name else CHR '','' # name)"
    have "length p \<le> 4" using name by (simp add: p_def)
    then have "4 * length fs + 5 \<le> len - length p" using Cons.prems(3) by simp
    then have IH: "flag_names flags fs (t @ p) (length p) (len - length p) =
        (t @ p) @ concat (map (\<lambda>f. CHR '','' # fst f) (set_flags flags fs))"
      using Cons.IH [of "length p" "len - length p" "t @ p"] Cons.prems(1) \<open>length p \<le> 4\<close> name by (simp add: p_def)
    have j: "nm @ concat (map (\<lambda>f. CHR '','' # fst f) gs) = join '','' (nm # map fst gs)" for nm and gs :: "(string \<times> u16) list"
    proof (induction gs arbitrary: nm)
      case (Cons g gs)
      show ?case using Cons.IH [of "fst g"] by (simp add: join_Cons [of "fst g # map fst gs"])
    qed simp
    have "\<not> n + length name + 1 \<ge> len" using Cons.prems(2,3) name by simp
    then have "flag_names flags (f # fs) t n len = flag_names flags fs (t @ p) (length p) (len - length p)"
      using False by (simp add: f p_def Let_def)
    then show ?thesis using IH j [of name "set_flags flags fs"] False by (auto simp: f p_def set_flags_def)
  qed
qed (simp add: set_flags_def)

lemma and_one_bit: "w AND 2 ^ k \<noteq> 0 \<Longrightarrow> w AND 2 ^ k = 2 ^ k" for w :: u16
proof -
  assume "w AND 2 ^ k \<noteq> 0"
  then have "bit w k" by (simp add: and_exp_eq_0_iff_not_bit)
  then show ?thesis by (intro bit_word_eqI) (auto simp: bit_simps)
qed

lemma list_single_bits: "\<forall>f \<in> set TCP_FLAGS_LIST. \<exists>k. snd f = 2 ^ k"
proof -
  have "map snd TCP_FLAGS_LIST = map (\<lambda>k. 2 ^ k) [11, 10, 9, 8, 7, 6, 5, 4, 3, 2, 1, 0 :: nat]" by (simp add: TCP_FLAGS_LIST_def)
  moreover have "\<forall>x \<in> set (map (\<lambda>k. 2 ^ k) ks). \<exists>k. x = 2 ^ k" for ks :: "nat list" by auto
  ultimately have "\<forall>x \<in> set (map snd TCP_FLAGS_LIST). \<exists>k. x = 2 ^ k" by (simp only:)
  then show ?thesis by auto
qed

lemma list_names: "\<forall>f \<in> set TCP_FLAGS_LIST. length (fst f) = 3 \<and> CHR '','' \<notin> set (fst f) \<and> (\<forall>a. flag_field a (fst f) = a OR snd f)"
  by (simp add: TCP_FLAGS_LIST_def flag_field_def)

lemma flag_fields:
  assumes "\<forall>f \<in> set fs. f \<in> set TCP_FLAGS_LIST"
  shows "foldl flag_field acc (map fst (set_flags flags fs)) = acc OR foldr (\<lambda>f a. flags AND snd f OR a) fs 0"
  using assms
proof (induction fs arbitrary: acc)
  case (Cons f fs)
  then obtain k where k: "snd f = 2 ^ k" using list_single_bits by auto
  have fld: "flag_field acc (fst f) = acc OR snd f" using list_names Cons.prems by auto
  show ?case
  proof (cases "flags AND snd f = 0")
    case True
    then show ?thesis using Cons by (simp add: set_flags_def case_prod_beta)
  next
    case False
    then have "flags AND snd f = snd f" using and_one_bit unfolding k by blast
    then show ?thesis using Cons fld False by (simp add: set_flags_def case_prod_beta or.assoc)
  qed
qed (simp add: set_flags_def)

lemma tcp_flags_printed: "flags AND TCP_FLAGS_MASK \<noteq> 0 \<Longrightarrow>
  tcp_str_from_flags flags 128 = Some (join '','' (map fst (set_flags flags TCP_FLAGS_LIST)))"
  using flag_names_join [of TCP_FLAGS_LIST 0 128 flags "[]"] list_names
  by (simp add: tcp_str_from_flags_def TCP_FLAGS_LIST_def)

lemma tcp_flags_restored:
  "\<exists>s. tcp_str_from_flags flags 128 = Some s \<and> tcp_flags_from_str s = flags AND TCP_FLAGS_MASK"
proof (cases "flags AND TCP_FLAGS_MASK = 0")
  case True
  have "rte_strsplit 16 (CHR '','') (take 127 ''clr'') = [''clr'']" by code_simp
  then show ?thesis using True by (simp add: tcp_str_from_flags_def tcp_flags_from_str_def flag_field_def)
next
  case False
  define ns where "ns = map fst (set_flags flags TCP_FLAGS_LIST)"
  have "length ns \<le> length TCP_FLAGS_LIST" unfolding ns_def set_flags_def by (simp add: length_filter_le)
  then have l: "length ns \<le> 12" by (simp add: TCP_FLAGS_LIST_def)
  have w: "\<forall>w \<in> set ns. length w = 3 \<and> CHR '','' \<notin> set w" using list_names by (auto simp: ns_def set_flags_def)
  have "length (join '','' ws) \<le> 4 * length ws" if "\<forall>w \<in> set ws. length w = 3" for ws :: "string list"
    using that
  proof (induction ws)
    case (Cons w ws)
    then show ?case by (cases "ws = []") (auto simp: join_Cons)
  qed simp
  then have "length (join '','' ns) \<le> 127" using l w by fastforce
  moreover have "rte_strsplit 16 (CHR '','') (join '','' ns) = ns" using strsplit_join [of ns "CHR '',''" 16] w l by fastforce
  ultimately have "tcp_flags_from_str (join '','' ns) = foldl flag_field 0 ns" by (simp add: tcp_flags_from_str_def)
  also have "\<dots> = flags AND TCP_FLAGS_MASK"
    using flag_fields [of TCP_FLAGS_LIST 0 flags]
    by (simp add: ns_def) (simp add: TCP_FLAGS_LIST_def TCP_FLAGS_MASK_def bit.conj_disj_distrib [symmetric])
  finally show ?thesis using tcp_flags_printed [OF False] by (simp add: ns_def)
qed

end
