(* ===== verification/PortList.thy ===== *)
theory PortList
  imports CText L2pTable
begin

text \<open>
  Lists of ports as text and as bit masks (\<open>lib/utils/portlist.c\<close>): the argument of almost every command. The result
  of a parser is the C return value with what the call leaves in the variable of the caller.
\<close>

definition MAX_SPLIT :: nat where "MAX_SPLIT = 64"

definition portmask_parse :: "string \<Rightarrow> u64 option" where
  "portmask_parse str =
     (let (pm, rest, _) = strtoul 16 str in
      if str = [] \<or> rest \<noteq> [] then None else if pm = 0 then None else Some pm)"

function set_portlist_bits :: "nat \<Rightarrow> nat \<Rightarrow> u64 \<Rightarrow> u64" where
  "set_portlist_bits low high m =
     (let m1 = m OR push_bit low 1 in if low + 1 \<le> high then set_portlist_bits (low + 1) high m1 else m1)"
  by auto
termination by (relation "measure (\<lambda>(low, high, m). high - low)") auto

declare set_portlist_bits.simps [simp del]

text \<open>One item, a number or two of them with a dash between; the second test limits the width of the mask.\<close>

definition item_range :: "string \<Rightarrow> (nat \<times> nat) option" where
  "item_range t =
     (let (ps, pe) = (if CHR ''-'' \<notin> set t then let p = fst (strtoul 10 t) in (p, p)
                      else (fst (strtoul 10 (takeWhile (\<lambda>c. c \<noteq> CHR ''-'') t)),
                            fst (strtoul 10 (tl (dropWhile (\<lambda>c. c \<noteq> CHR ''-'') t)))))
      in if ps > pe \<or> unat pe \<ge> 64 then None else Some (unat ps, unat pe))"

fun portlist_items :: "string list \<Rightarrow> u64 \<Rightarrow> u64 option" where
  "portlist_items [] m = Some m"
| "portlist_items (t # ts) m =
     (case item_range t of
        None \<Rightarrow> None
      | Some (ps, pe) \<Rightarrow> portlist_items ts (set_portlist_bits ps (min pe RTE_MAX_ETHPORTS) m))"

definition portlist_parse :: "string \<Rightarrow> nat \<Rightarrow> u64 \<Rightarrow> int \<times> u64" where
  "portlist_parse str nb_ports old =
     (if str = [] then (-1, old)
      else if str = ''all'' then (0, foldl (\<lambda>m i. m OR push_bit i 1) 0 [0..<nb_ports])
      else case pg_strtok str '','' MAX_SPLIT of
        None \<Rightarrow> (-1, 0)
      | Some toks \<Rightarrow>
          if toks = [] then (0, 0)
          else case portlist_items toks 0 of None \<Rightarrow> (-1, 0) | Some m \<Rightarrow> (0, m))"

text \<open>
  The loop that prints into a buffer of \<open>len\<close> bytes: the text in the buffer and \<open>k\<close>, the sum of the lengths that
  \<open>snprintf\<close> asked for; \<open>sep\<close> is what follows a number. \<open>None\<close>: a write behind the buffer.
\<close>

fun print_ports :: "(nat \<Rightarrow> string) \<Rightarrow> nat \<Rightarrow> u64 \<Rightarrow> nat list \<Rightarrow> nat \<Rightarrow> string \<times> nat \<Rightarrow> string \<times> nat" where
  "print_ports sep len m [] j (buf, k) = (buf, k)"
| "print_ports sep len m (i # is) j (buf, k) =
     (if k \<ge> len then (buf, k)
      else if m AND push_bit i 1 \<noteq> 0 then
        (let piece = dec i @ sep j in print_ports sep len m is (j + 1) (buf @ take (len - k - 1) piece, k + length piece))
      else print_ports sep len m is j (buf, k))"

definition cut_text :: "nat \<Rightarrow> string \<times> nat \<Rightarrow> string option" where
  "cut_text len = (\<lambda>(buf, k). if k \<ge> 2 then (if k - 2 \<ge> len then None else Some (take (k - 2) buf)) else Some buf)"

definition portlist_string :: "u64 \<Rightarrow> nat \<Rightarrow> string option" where
  "portlist_string m len =
     (let cnt = length (filter (\<lambda>i. m AND push_bit i 1 \<noteq> 0) [0..<RTE_MAX_ETHPORTS]) in
      if len = 0 then None
      else cut_text len (print_ports (\<lambda>j. if j \<ge> cnt then '''' else '', '') len m [0..<RTE_MAX_ETHPORTS] 0 ([], 0)))"

text \<open>The stream is never written to, only the buffer.\<close>

definition portlist_print :: "u64 \<Rightarrow> nat \<Rightarrow> string option" where
  "portlist_print m len =
     (if len = 0 then None else cut_text len (print_ports (\<lambda>_. '', '') len m [0..<RTE_MAX_ETHPORTS] 0 ([], 0)))"

section \<open>Parsing\<close>

lemma bit_or_push: "bit (m OR push_bit i 1) n \<longleftrightarrow> bit m n \<or> n = i" if "i < 64" for m :: u64
  using that by (auto simp: bit_simps)

lemma bit_set_portlist: "low \<le> high \<Longrightarrow> high < 64 \<Longrightarrow> bit (set_portlist_bits low high m) n \<longleftrightarrow> bit m n \<or> low \<le> n \<and> n \<le> high"
proof (induction low high m rule: set_portlist_bits.induct)
  case (1 low high m)
  let ?m = "m OR push_bit low 1"
  have b: "bit ?m n \<longleftrightarrow> bit m n \<or> n = low" using 1(2,3) by (intro bit_or_push) simp
  show ?case
  proof (cases "low + 1 \<le> high")
    case True
    then have "bit (set_portlist_bits low high m) n \<longleftrightarrow> bit ?m n \<or> low + 1 \<le> n \<and> n \<le> high"
      using 1(1) [OF refl True True 1(3)] by (subst set_portlist_bits.simps) (simp add: Let_def)
    then show ?thesis using b True by auto
  next
    case False
    then show ?thesis using b 1(2) by (subst set_portlist_bits.simps) (auto simp: Let_def)
  qed
qed

text \<open>The text of a range, and the mask of a list of ranges.\<close>

definition range_text :: "nat \<times> nat \<Rightarrow> string" where
  "range_text = (\<lambda>(a, b). if a = b then dec a else dec a @ ''-'' @ dec b)"

lemma isdigit_not: "c = CHR ''-'' \<or> c = CHR '','' \<or> isspace c \<Longrightarrow> \<not> isdigit c"
  by (auto simp: isspace_def xdigit_def char_code_def Let_def)

lemma dec_set: "c \<in> set (dec n) \<Longrightarrow> isdigit c"
  using dec_digits [of n] by (auto simp: list_all_iff)

lemma takeWhile_to: "x \<notin> set as \<Longrightarrow> takeWhile (\<lambda>c. c \<noteq> x) (as @ x # bs) = as \<and> dropWhile (\<lambda>c. c \<noteq> x) (as @ x # bs) = x # bs"
  by (induction as) auto

lemma item_range_text:
  assumes "a \<le> b" and "b < 64"
  shows "item_range (range_text (a, b)) = Some (a, b)"
proof -
  have s: "strtoul 10 (dec n) = (of_nat n, [], False)" if "n < 64" for n using strtoul_dec [of n "[]"] that by simp
  have u: "unat (of_nat n :: u64) = n" if "n < 64" for n using that by (simp add: unat_of_nat_small)
  have nd: "CHR ''-'' \<notin> set (dec n)" for n using dec_set isdigit_not by blast
  have le: "\<not> (of_nat a :: u64) > of_nat b" using assms u by (simp add: word_less_nat_alt not_less)
  show ?thesis
  proof (cases "a = b")
    case True
    then show ?thesis using assms s u nd by (simp add: item_range_def range_text_def Let_def)
  next
    case False
    have "takeWhile (\<lambda>c. c \<noteq> CHR ''-'') (dec a @ CHR ''-'' # dec b) = dec a"
      "dropWhile (\<lambda>c. c \<noteq> CHR ''-'') (dec a @ CHR ''-'' # dec b) = CHR ''-'' # dec b"
      using takeWhile_to [OF nd] by auto
    then show ?thesis using False assms s u le by (simp add: item_range_def range_text_def Let_def)
  qed
qed

lemma portlist_items_ranges:
  assumes "\<forall>(a, b) \<in> set rs. a \<le> b \<and> b < 32"
  shows "\<exists>m1. portlist_items (map range_text rs) m = Some m1 \<and> (\<forall>n. bit m1 n \<longleftrightarrow> bit m n \<or> (\<exists>(a, b) \<in> set rs. a \<le> n \<and> n \<le> b))"
  using assms
proof (induction rs arbitrary: m)
  case (Cons r rs)
  obtain a b where r: "r = (a, b)" by (cases r)
  have ab: "a \<le> b" "b < 32" using Cons.prems by (auto simp: r)
  then have m: "min b RTE_MAX_ETHPORTS = b" by (simp add: RTE_MAX_ETHPORTS_def)
  obtain m1 where m1: "portlist_items (map range_text rs) (set_portlist_bits a b m) = Some m1"
    "\<forall>n. bit m1 n \<longleftrightarrow> bit (set_portlist_bits a b m) n \<or> (\<exists>(a, b) \<in> set rs. a \<le> n \<and> n \<le> b)"
    using Cons.IH [of "set_portlist_bits a b m"] Cons.prems by auto
  have "bit m1 n \<longleftrightarrow> bit m n \<or> (\<exists>(a, b) \<in> set (r # rs). a \<le> n \<and> n \<le> b)" for n
    using m1(2) bit_set_portlist [of a b m n] ab by (auto simp: r)
  then show ?case using m1(1) item_range_text [OF ab(1)] ab(2) m by (simp add: r)
qed simp


lemma range_text_chars: "c \<in> set (range_text r) \<Longrightarrow> isdigit c \<or> c = CHR ''-''"
  by (auto simp: range_text_def dest: dec_set split: prod.splits if_splits)

lemma range_text_plain:
  "range_text r \<noteq> []" "CHR '','' \<notin> set (range_text r)" "pg_strtrim (range_text r) = range_text r"
proof -
  show n: "range_text r \<noteq> []" by (auto simp: range_text_def split: prod.splits)
  show "CHR '','' \<notin> set (range_text r)" using range_text_chars [of _ r] isdigit_not by force
  have "\<not> isspace c" if "c \<in> set (range_text r)" for c
    using range_text_chars [OF that] isdigit_not by (auto simp: isspace_def)
  then show "pg_strtrim (range_text r) = range_text r" using n by (intro pg_strtrim_id) auto
qed

lemma not_all: "s \<noteq> [] \<Longrightarrow> isdigit (hd s) \<Longrightarrow> s \<noteq> ''all''"
  by (auto simp: xdigit_def char_code_def)

lemma range_text_hd: "isdigit (hd (range_text r))"
  using dec_set [OF hd_in_set [OF dec_nonempty]] by (auto simp: range_text_def split: prod.splits)

text \<open>Tokens that are ranges once trimmed, the first one starting with its digit.\<close>

lemma portlist_parse_tokens:
  assumes "toks \<noteq> []" and "length toks \<le> 64" and "\<forall>t \<in> set toks. t \<noteq> [] \<and> CHR '','' \<notin> set t" and "isdigit (hd (hd toks))"
    and "map pg_strtrim toks = map range_text rs" and "\<forall>(a, b) \<in> set rs. a \<le> b \<and> b < 32"
  shows "\<exists>m. portlist_parse (join '','' toks) nb old = (0, m) \<and> (\<forall>n. bit m n \<longleftrightarrow> (\<exists>(a, b) \<in> set rs. a \<le> n \<and> n \<le> b))"
proof -
  let ?s = "join '','' toks"
  have s: "?s \<noteq> []" "hd ?s = hd (hd toks)" using assms(1,3) by (cases toks rule: remdups_adj.cases; simp)+
  have all: "?s \<noteq> ''all''" using not_all s assms(4) by simp
  have "strtok_loop '','' 64 ?s = map pg_strtrim toks" using assms(1-3) by (intro strtok_join) auto
  then have t: "pg_strtok ?s '','' MAX_SPLIT = Some (map range_text rs)" using assms(5) by (simp add: pg_strtok_def MAX_SPLIT_def)
  have "rs \<noteq> []" using assms(1,5) by auto
  then show ?thesis using portlist_items_ranges [OF assms(6), of 0] s(1) all t by (auto simp: portlist_parse_def)
qed

text \<open>
  C35 Port lists: a list of up to 64 ports below 32 and ranges of such ports, in any order and with overlaps, is
  accepted and selects exactly the ports of its items. The number of ports is not looked at: ports beyond it are
  selected as well, although the header describes it as the most ports to set.
\<close>

theorem portlist_ranges:
  assumes "rs \<noteq> []" and "length rs \<le> 64" and "\<forall>(a, b) \<in> set rs. a \<le> b \<and> b < 32"
  shows "\<exists>m. portlist_parse (join '','' (map range_text rs)) nb old = (0, m) \<and>
    (\<forall>n. bit m n \<longleftrightarrow> (\<exists>(a, b) \<in> set rs. a \<le> n \<and> n \<le> b))"
  using assms range_text_plain range_text_hd
  by (intro portlist_parse_tokens) (auto simp: hd_map)

lemma portlist_ranges_witness:
  "\<exists>m. portlist_parse ''4,0-2'' 4 7 = (0, m) \<and> bit m 4 \<and> bit m 1 \<and> \<not> bit m 3"
proof -
  have "join '','' (map range_text [(4, 4), (0, 2)]) = ''4,0-2''" by code_simp
  then show ?thesis using portlist_ranges [of "[(4, 4), (0, 2)]" 4 7] by fastforce
qed

section \<open>Printing\<close>

lemma print_ports_text:
  assumes "\<forall>i < j + length (filter (\<lambda>i. m AND push_bit i 1 \<noteq> 0) is). sep i = '', ''"
    and "length buf + length (concat (map (\<lambda>i. dec i @ '', '') (filter (\<lambda>i. m AND push_bit i 1 \<noteq> 0) is))) < len"
  shows "print_ports sep len m is j (buf, length buf) =
    (let t = buf @ concat (map (\<lambda>i. dec i @ '', '') (filter (\<lambda>i. m AND push_bit i 1 \<noteq> 0) is)) in (t, length t))"
  using assms
proof (induction "is" arbitrary: j buf)
  case (Cons i "is")
  let ?piece = "dec i @ '', ''"
  show ?case
  proof (cases "m AND push_bit i 1 \<noteq> 0")
    case True
    have f: "take (len - length buf - 1) ?piece = ?piece" "sep j = '', ''" "length buf < len"
      using Cons.prems True by (simp_all add: take_all)
    have "print_ports sep len m is (j + 1) (buf @ ?piece, length (buf @ ?piece)) =
      (let t = (buf @ ?piece) @ concat (map (\<lambda>i. dec i @ '', '') (filter (\<lambda>i. m AND push_bit i 1 \<noteq> 0) is)) in (t, length t))"
      using Cons.prems True by (intro Cons.IH) auto
    then show ?thesis using True f by (simp add: Let_def add.assoc)
  next
    case False
    then show ?thesis using Cons by simp
  qed
qed simp

lemma join_comma: "is \<noteq> [] \<Longrightarrow> concat (map (\<lambda>i. dec i @ '', '') is) = join '', '' (map dec is) @ '', ''"
  by (induction "is" rule: induct_list012) auto

lemma join_blank: "ws \<noteq> [] \<Longrightarrow> join '', '' ws = join '','' (hd ws # map (Cons (CHR '' '')) (tl ws))"
proof (induction ws rule: induct_list012)
  case (3 x y zs)
  then show ?case by (cases zs) auto
qed auto

lemma length_pieces: "\<forall>i \<in> set is. i < 32 \<Longrightarrow> length (concat (map (\<lambda>i. dec i @ '', '') is)) \<le> 4 * length is"
proof (induction "is")
  case (Cons i "is")
  have "length (dec i) \<le> 2" using Cons.prems by (intro length_dec) auto
  then show ?case using Cons by simp
qed simp

lemma trim_blank: "pg_strtrim (CHR '' '' # dec i) = dec i"
proof -
  have "pg_strtrim (CHR '' '' # dec i) = pg_strtrim (dec i)" by (simp add: pg_strtrim_def isspace_def)
  also have "\<dots> = dec i" using range_text_plain(3) [of "(i, i)"] by (simp add: range_text_def)
  finally show ?thesis .
qed

text \<open>The ports of a mask as the printed text has them.\<close>

definition mask_ports :: "u64 \<Rightarrow> nat list" where
  "mask_ports m = filter (\<lambda>i. m AND push_bit i 1 \<noteq> 0) [0..<RTE_MAX_ETHPORTS]"

lemma set_mask_ports: "set (mask_ports m) = {i. i < 32 \<and> bit m i}"
  by (auto simp: mask_ports_def RTE_MAX_ETHPORTS_def and_exp_eq_0_iff_not_bit)

lemma bits_low: "m < 2 ^ 32 \<Longrightarrow> bit m n \<Longrightarrow> n < 32" for m :: u64
proof (rule ccontr)
  assume a: "m < 2 ^ 32" "bit m n" "\<not> n < 32"
  have "take_bit 32 (unat m) = unat m" using a(1) by (simp add: word_less_nat_alt take_bit_nat_eq_self)
  moreover have "bit (unat m) n" using a(2) by (simp add: bit_unsigned_iff bit_imp_le_length)
  ultimately show False using a(3) by (metis bit_take_bit_iff)
qed

lemma portlist_text:
  assumes "m \<noteq> 0" and "m < 2 ^ 32" and "129 \<le> len"
  shows "portlist_string m len = Some (join '', '' (map dec (mask_ports m)))"
    and "portlist_print m len = Some (join '', '' (map dec (mask_ports m)))"
    and "mask_ports m \<noteq> []" and "length (mask_ports m) \<le> 32"
proof -
  obtain n where "bit m n" using assms(1) by (metis bit_eq_iff bit_0_eq bot_apply bot_bool_def)
  then show ne: "mask_ports m \<noteq> []" using bits_low [OF assms(2)] set_mask_ports [of m] by fastforce
  show l: "length (mask_ports m) \<le> 32" using length_filter_le [of _ "[0..<32]"] by (simp add: mask_ports_def RTE_MAX_ETHPORTS_def)
  define t where "t = join '', '' (map dec (mask_ports m))"
  have c: "concat (map (\<lambda>i. dec i @ '', '') (mask_ports m)) = t @ '', ''" unfolding t_def by (rule join_comma [OF ne])
  have "length (t @ '', '') \<le> 4 * length (mask_ports m)" using length_pieces [of "mask_ports m"] set_mask_ports unfolding c by simp
  then have len: "length (t @ '', '') < len" using assms(3) l by simp
  have cut: "cut_text len (t @ '', '', length (t @ '', '')) = Some t" using len by (simp add: cut_text_def)
  have p: "print_ports sep len m [0..<RTE_MAX_ETHPORTS] 0 ([], 0) = (t @ '', '', length (t @ '', ''))"
    if "\<forall>i < length (mask_ports m). sep i = '', ''" for sep
    using print_ports_text [of 0 m "[0..<RTE_MAX_ETHPORTS]" sep "[]" len] that len
    unfolding mask_ports_def [symmetric] c by simp
  show "portlist_string m len = Some t" "portlist_print m len = Some t"
    unfolding portlist_string_def portlist_print_def mask_ports_def [symmetric] Let_def
    using assms(3) cut p [of "\<lambda>j. if j \<ge> length (mask_ports m) then '''' else '', ''"] p [of "\<lambda>_. '', ''"]
    by simp_all
qed

text \<open>
  Port lists from end to end: the text of a set of the 32 ports, in a buffer that is long enough, is read
  back as the same set.
\<close>

lemma portlist_roundtrip:
  assumes "m \<noteq> 0" and "m < 2 ^ 32" and "129 \<le> len"
  shows "\<exists>s. portlist_string m len = Some s \<and> portlist_print m len = Some s \<and> portlist_parse s nb old = (0, m)"
proof -
  note t = portlist_text [OF assms]
  let ?is = "mask_ports m"
  define toks where "toks = dec (hd ?is) # map (\<lambda>i. CHR '' '' # dec i) (tl ?is)"
  have is_eq: "?is = hd ?is # tl ?is" using t(3) by simp
  have joined: "join '', '' (map dec ?is) = join '','' toks"
    using join_blank [of "map dec ?is"] t(3) by (simp add: toks_def map_tl [symmetric] hd_map comp_def)
  have sel: "(\<exists>(a, b) \<in> set (map (\<lambda>i. (i, i)) ?is). a \<le> n \<and> n \<le> b) \<longleftrightarrow> n < 32 \<and> bit m n" for n
    by (auto simp: set_mask_ports)
  have "\<exists>m1. portlist_parse (join '','' toks) nb old = (0, m1) \<and>
      (\<forall>n. bit m1 n \<longleftrightarrow> (\<exists>(a, b) \<in> set (map (\<lambda>i. (i, i)) ?is). a \<le> n \<and> n \<le> b))"
  proof (rule portlist_parse_tokens)
    show "toks \<noteq> []" "length toks \<le> 64" using t(4) by (simp_all add: toks_def)
    show "\<forall>t \<in> set toks. t \<noteq> [] \<and> CHR '','' \<notin> set t"
      using range_text_plain(2) [of "(i, i)" for i] by (auto simp: toks_def range_text_def)
    show "isdigit (hd (hd toks))" using range_text_hd [of "(hd ?is, hd ?is)"] by (simp add: toks_def range_text_def)
    have "pg_strtrim (dec i) = dec i" for i using range_text_plain(3) [of "(i, i)"] by (simp add: range_text_def)
    then have "map pg_strtrim toks = map dec (hd ?is # tl ?is)" by (simp add: toks_def trim_blank)
    then show "map pg_strtrim toks = map range_text (map (\<lambda>i. (i, i)) ?is)"
      unfolding is_eq [symmetric] by (simp add: range_text_def comp_def)
    show "\<forall>(a, b) \<in> set (map (\<lambda>i. (i, i)) ?is). a \<le> b \<and> b < 32" using set_mask_ports by auto
  qed
  then obtain m1 where m1: "portlist_parse (join '','' toks) nb old = (0, m1)"
    "\<And>n. bit m1 n \<longleftrightarrow> n < 32 \<and> bit m n" unfolding sel by blast
  have "m1 = m" using m1(2) bits_low [OF assms(2)] by (intro bit_eqI) auto
  then show ?thesis using t(1,2) m1(1) joined by simp
qed

lemma portlist_roundtrip_example:
  "\<exists>s. portlist_string 0x80000015 255 = Some s \<and> portlist_parse s 4 0 = (0, 0x80000015)"
  using portlist_roundtrip [where m = "0x80000015" and len = 255 and nb = 4 and old = 0] by auto

text \<open>
  A word that is no number at all, such as a misspelled name, is read as zero: the list is accepted and selects
  port 0.
\<close>

lemma word_selects_port_0:
  assumes "s \<noteq> []" and "s \<noteq> ''all''" and "\<forall>c \<in> set s. c \<noteq> CHR '','' \<and> c \<noteq> CHR ''-'' \<and> c \<noteq> CHR ''+'' \<and> \<not> isspace c \<and> \<not> isdigit c"
  shows "portlist_parse s nb old = (0, 1)"
proof -
  have h: "\<not> isspace (hd s)" "\<not> isdigit (hd s)" "hd s \<noteq> CHR ''-''" "hd s \<noteq> CHR ''+''" "\<not> isspace (last s)"
    using assms(1,3) by auto
  have "strtok_loop '','' 64 (join '','' [s]) = map pg_strtrim [s]" using assms(1,3) by (intro strtok_join) auto
  then have t: "pg_strtok s '','' MAX_SPLIT = Some [s]" using pg_strtrim_id [of s] h by (simp add: pg_strtok_def MAX_SPLIT_def)
  have "dropWhile isspace s = s" "takeWhile (\<lambda>c. xdigit c < 10) s = []"
    using h assms(1) by (auto simp: dropWhile_eq_self_iff takeWhile_eq_Nil_iff)
  then have "strtoul 10 s = (0, s, False)" using h by (simp add: strtoul_def strto_def Let_def)
  moreover have "CHR ''-'' \<notin> set s" using assms(3) by blast
  ultimately have "item_range s = Some (0, 0)" by (simp add: item_range_def)
  then show ?thesis using assms(1,2) t
    by (simp add: portlist_parse_def set_portlist_bits.simps [of 0] RTE_MAX_ETHPORTS_def)
qed

end
