(* ===== verification/RangeCmds.thy ===== *)
theory RangeCmds
  imports PktRange
begin

text \<open>
  The default ranges of a port (\<open>pktgen_range_setup\<close> of \<open>app/pktgen-range.c\<close>) and the commands of
  \<open>app/pktgen-cmds.c\<close> that change the ranges, with the limits that they keep.
\<close>

subsection \<open>Defaults\<close>

definition IPv4 :: "u32 \<Rightarrow> u32 \<Rightarrow> u32 \<Rightarrow> u32 \<Rightarrow> u32" where
  "IPv4 a b c d = push_bit 24 (a AND 0xff) OR push_bit 16 (b AND 0xff) OR push_bit 8 (c AND 0xff) OR (d AND 0xff)"

definition set4 :: "u32 \<Rightarrow> u32 \<Rightarrow> u32 \<Rightarrow> u32 \<Rightarrow> (u8 list, u8 list) span \<Rightarrow> (u8 list, u8 list) span" where
  "set4 v lo hi inc sp = \<lparr>sp_start = with_ipv4 v (sp_start sp), sp_min = with_ipv4 lo (sp_min sp),
     sp_max = with_ipv4 hi (sp_max sp), sp_inc = with_ipv4 inc (sp_inc sp)\<rparr>"

definition pktgen_range_setup :: "u32 \<Rightarrow> port_info \<Rightarrow> port_info" where
  "pktgen_range_setup flags pinfo =
     (let single = seq_pkt pinfo ! SINGLE_PKT; rg = p_range pinfo; pid = ucast (p_pid pinfo) :: u32;
          size_max = (if flags AND JUMBO_PKTS_FLAG \<noteq> 0 then RTE_ETHER_MAX_JUMBO_FRAME_LEN else RTE_ETHER_MAX_LEN);
          rg1 = rg\<lparr>
            r_ip_proto := ipProto single,
            r_dst_ip := set4 (IPv4 192 168 (pid + 1) 1) (IPv4 192 168 (pid + 1) 1) (IPv4 192 168 (pid + 1) 254) 1 (r_dst_ip rg),
            r_src_ip := set4 (IPv4 192 168 pid 1) (IPv4 192 168 pid 1) (IPv4 192 168 pid 254) 0 (r_src_ip rg),
            r_dst_port := \<lparr>sp_start = pk_dport single, sp_min = 0, sp_max = 65535, sp_inc = 1\<rparr>,
            r_src_port := \<lparr>sp_start = pk_sport single, sp_min = 0, sp_max = 65535, sp_inc = 1\<rparr>,
            r_ttl := \<lparr>sp_start = pk_ttl single, sp_min = 0, sp_max = 255, sp_inc = 0\<rparr>,
            r_vlan_id := \<lparr>sp_start = pk_vlanid single, sp_min = MIN_VLAN_ID, sp_max = MAX_VLAN_ID, sp_inc = 0\<rparr>,
            r_cos := \<lparr>sp_start = pk_cos single, sp_min = MIN_COS, sp_max = MAX_COS, sp_inc = 0\<rparr>,
            r_tos := \<lparr>sp_start = pk_tos single, sp_min = MIN_TOS, sp_max = MAX_TOS, sp_inc = 0\<rparr>,
            r_pkt_size := \<lparr>sp_start = RTE_ETHER_MIN_LEN - RTE_ETHER_CRC_LEN, sp_min = RTE_ETHER_MIN_LEN - RTE_ETHER_CRC_LEN,
              sp_max = size_max - RTE_ETHER_CRC_LEN, sp_inc = 0\<rparr>,
            r_vxlan_gid := \<lparr>sp_start = ucast (pk_group_id single), sp_min = 0, sp_max = 65535, sp_inc = 0\<rparr>,
            r_vxlan_vid := \<lparr>sp_start = pk_vxlan_id single, sp_min = 0, sp_max = 65535, sp_inc = 0\<rparr>,
            r_vni_flags := ucast (p_vni_flags pinfo),
            r_tcp_flags := ucast (pk_tcp_flags single),
            r_tcp_seq := \<lparr>sp_start = pk_tcp_seq single, sp_min = 0, sp_max = MAX_TCP_SEQ_NUMBER, sp_inc = 0\<rparr>,
            r_tcp_ack := \<lparr>sp_start = pk_tcp_ack single, sp_min = 0, sp_max = MAX_TCP_ACK_NUMBER, sp_inc = 0\<rparr>,
            r_dst_mac := \<lparr>sp_start = inet_mtoh64 (eth_dst_addr single), sp_min = 0, sp_max = 0, sp_inc = 0\<rparr>,
            r_src_mac := \<lparr>sp_start = inet_mtoh64 (eth_src_addr single), sp_min = 0, sp_max = 0, sp_inc = 0\<rparr>\<rparr>
      in upd_pkt RANGE_PKT (\<lambda>pkt. pkt\<lparr>pk_size := sp_start (r_pkt_size rg1)\<rparr>) (pinfo\<lparr>p_range := rg1\<rparr>))"

subsection \<open>The commands\<close>

definition is_min :: "string \<Rightarrow> bool" where "is_min what \<longleftrightarrow> what = ''min'' \<or> what = ''minimum''"
definition is_max :: "string \<Rightarrow> bool" where "is_max what \<longleftrightarrow> what = ''max'' \<or> what = ''maximum''"
definition is_inc :: "string \<Rightarrow> bool" where "is_inc what \<longleftrightarrow> what = ''inc'' \<or> what = ''increment''"

text \<open>The member that \<open>what\<close> names, in the order of the tests; the increment has its own type.\<close>

definition set_member :: "string \<Rightarrow> 'v \<Rightarrow> ('v, 'i) span \<Rightarrow> ('v, 'i) span" where
  "set_member what v sp =
     (if is_min what then sp\<lparr>sp_min := v\<rparr> else if is_max what then sp\<lparr>sp_max := v\<rparr>
      else if what = ''start'' then sp\<lparr>sp_start := v\<rparr> else sp)"

definition set_span :: "string \<Rightarrow> 'v \<Rightarrow> 'i \<Rightarrow> ('v, 'i) span \<Rightarrow> ('v, 'i) span" where
  "set_span what v i sp = (if is_inc what then sp\<lparr>sp_inc := i\<rparr> else set_member what v sp)"

definition range_set_dest_mac :: "string \<Rightarrow> u8 list \<Rightarrow> port_info \<Rightarrow> port_info" where
  "range_set_dest_mac what mac pinfo =
     (let p1 = upd_range (\<lambda>rg. rg\<lparr>r_dst_mac := set_span what (inet_mtoh64 mac) (inet_mtoh64 mac) (r_dst_mac rg)\<rparr>) pinfo
      in if what = ''start'' then upd_pkt RANGE_PKT (\<lambda>pkt. pkt\<lparr>eth_dst_addr := mac\<rparr>) p1 else p1)"

definition range_set_src_mac :: "string \<Rightarrow> u8 list \<Rightarrow> port_info \<Rightarrow> port_info" where
  "range_set_src_mac what mac pinfo =
     (let p1 = upd_range (\<lambda>rg. rg\<lparr>r_src_mac := set_span what (inet_mtoh64 mac) (inet_mtoh64 mac) (r_src_mac rg)\<rparr>) pinfo
      in if what = ''start'' then upd_pkt RANGE_PKT (\<lambda>pkt. pkt\<lparr>eth_src_addr := mac\<rparr>) p1 else p1)"

text \<open>
  \<open>struct pg_ipaddr\<close> by the sixteen bytes of its union. The IPv4 branch writes the first four bytes of
  the union of the range.
\<close>

definition set_addr :: "bool \<Rightarrow> string \<Rightarrow> u8 list \<Rightarrow> (u8 list, u8 list) span \<Rightarrow> (u8 list, u8 list) span" where
  "set_addr v6 what ip sp =
     (if v6 then set_span what ip ip sp
      else (let v = ntohl (ipv4_of ip) in
        if is_min what then sp\<lparr>sp_min := with_ipv4 v (sp_min sp)\<rparr>
        else if is_max what then sp\<lparr>sp_max := with_ipv4 v (sp_max sp)\<rparr>
        else if is_inc what then sp\<lparr>sp_inc := with_ipv4 v (sp_inc sp)\<rparr>
        else if what = ''start'' then sp\<lparr>sp_start := with_ipv4 v (sp_start sp)\<rparr>
        else sp))"

definition range_set_src_ip :: "string \<Rightarrow> u8 list \<Rightarrow> port_info \<Rightarrow> port_info" where
  "range_set_src_ip what ip pinfo =
     upd_range (\<lambda>rg. rg\<lparr>r_src_ip :=
       set_addr (ethType (seq_pkt pinfo ! RANGE_PKT) = RTE_ETHER_TYPE_IPV6) what ip (r_src_ip rg)\<rparr>) pinfo"

definition range_set_dst_ip :: "string \<Rightarrow> u8 list \<Rightarrow> port_info \<Rightarrow> port_info" where
  "range_set_dst_ip what ip pinfo =
     upd_range (\<lambda>rg. rg\<lparr>r_dst_ip :=
       set_addr (ethType (seq_pkt pinfo ! RANGE_PKT) = RTE_ETHER_TYPE_IPV6) what ip (r_dst_ip rg)\<rparr>) pinfo"

definition range_set_src_port :: "string \<Rightarrow> u16 \<Rightarrow> port_info \<Rightarrow> port_info" where
  "range_set_src_port what port pinfo =
     upd_range (\<lambda>rg. rg\<lparr>r_src_port := set_span what port (if port > 64 then 64 else port) (r_src_port rg)\<rparr>) pinfo"

definition range_set_dst_port :: "string \<Rightarrow> u16 \<Rightarrow> port_info \<Rightarrow> port_info" where
  "range_set_dst_port what port pinfo =
     upd_range (\<lambda>rg. rg\<lparr>r_dst_port := set_span what port (if port > 64 then 64 else port) (r_dst_port rg)\<rparr>) pinfo"

definition range_set_gtpu_teid :: "string \<Rightarrow> u32 \<Rightarrow> port_info \<Rightarrow> port_info" where
  "range_set_gtpu_teid what teid pinfo =
     (let p1 = upd_range (\<lambda>rg. rg\<lparr>r_gtpu_teid :=
            set_span what teid (if teid \<noteq> 0 then teid else sp_inc (r_gtpu_teid rg)) (r_gtpu_teid rg)\<rparr>) pinfo
      in if what = ''start'' then upd_pkt RANGE_PKT (\<lambda>pkt. pkt\<lparr>pk_gtpu_teid := teid\<rparr>) p1 else p1)"

definition range_set_ttl :: "string \<Rightarrow> u8 \<Rightarrow> port_info \<Rightarrow> port_info" where
  "range_set_ttl what ttl pinfo = upd_range (\<lambda>rg. rg\<lparr>r_ttl := set_span what ttl ttl (r_ttl rg)\<rparr>) pinfo"

definition range_set_hop_limits :: "string \<Rightarrow> u8 \<Rightarrow> port_info \<Rightarrow> port_info" where
  "range_set_hop_limits what hop_limits pinfo =
     upd_range (\<lambda>rg. rg\<lparr>r_ttl := set_span what hop_limits hop_limits (r_ttl rg)\<rparr>) pinfo"

definition range_set_vlan_id :: "string \<Rightarrow> u16 \<Rightarrow> port_info \<Rightarrow> port_info" where
  "range_set_vlan_id what id1 pinfo =
     upd_range (\<lambda>rg. rg\<lparr>r_vlan_id :=
       (if is_inc what then (r_vlan_id rg)\<lparr>sp_inc := (if id1 > 64 then 64 else id1)\<rparr>
        else set_member what (if id1 < MIN_VLAN_ID \<or> id1 > MAX_VLAN_ID then MIN_VLAN_ID else id1) (r_vlan_id rg))\<rparr>) pinfo"

definition range_set_tos_id :: "string \<Rightarrow> u8 \<Rightarrow> port_info \<Rightarrow> port_info" where
  "range_set_tos_id what id1 pinfo = upd_range (\<lambda>rg. rg\<lparr>r_tos := set_span what id1 (ucast id1) (r_tos rg)\<rparr>) pinfo"

definition range_set_traffic_class :: "string \<Rightarrow> u8 \<Rightarrow> port_info \<Rightarrow> port_info" where
  "range_set_traffic_class what tc pinfo =
     upd_range (\<lambda>rg. rg\<lparr>r_tos := set_span what tc (ucast tc) (r_tos rg)\<rparr>) pinfo"

definition range_set_cos_id :: "string \<Rightarrow> u8 \<Rightarrow> port_info \<Rightarrow> port_info" where
  "range_set_cos_id what id1 pinfo =
     upd_range (\<lambda>rg. rg\<lparr>r_cos := set_span what id1 (ucast (if id1 > 7 then 7 else id1)) (r_cos rg)\<rparr>) pinfo"

definition range_set_tcp_seq :: "string \<Rightarrow> u32 \<Rightarrow> port_info \<Rightarrow> port_info" where
  "range_set_tcp_seq what sq pinfo =
     upd_range (\<lambda>rg. rg\<lparr>r_tcp_seq := set_span what sq (ucast sq) (r_tcp_seq rg)\<rparr>) pinfo"

definition range_set_tcp_ack :: "string \<Rightarrow> u32 \<Rightarrow> port_info \<Rightarrow> port_info" where
  "range_set_tcp_ack what ack pinfo =
     upd_range (\<lambda>rg. rg\<lparr>r_tcp_ack := set_span what ack (ucast ack) (r_tcp_ack rg)\<rparr>) pinfo"

definition range_set_pkt_size :: "u32 \<Rightarrow> string \<Rightarrow> u16 \<Rightarrow> port_info \<Rightarrow> port_info" where
  "range_set_pkt_size flags what sz pinfo =
     (if is_inc what then
        upd_range (\<lambda>rg. rg\<lparr>r_pkt_size := (r_pkt_size rg)\<lparr>sp_inc :=
          (if flags AND JUMBO_PKTS_FLAG \<noteq> 0 \<and> sz > RTE_ETHER_MAX_JUMBO_FRAME_LEN
           then RTE_ETHER_MAX_JUMBO_FRAME_LEN else sz)\<rparr>\<rparr>) pinfo
      else
        (let sz1 = (if sz < RTE_ETHER_MIN_LEN then RTE_ETHER_MIN_LEN else sz);
             max_size = (if flags AND JUMBO_PKTS_FLAG \<noteq> 0 then RTE_ETHER_MAX_JUMBO_FRAME_LEN else RTE_ETHER_MAX_LEN);
             sz2 = (if sz1 > max_size then max_size else sz1);
             sz3 = (if ethType (seq_pkt pinfo ! RANGE_PKT) = RTE_ETHER_TYPE_IPV6 \<and> sz2 < MIN_v6_PKT_SIZE
                    then MIN_v6_PKT_SIZE else sz2)
         in upd_range (\<lambda>rg. rg\<lparr>r_pkt_size := set_member what (sz3 - RTE_ETHER_CRC_LEN) (r_pkt_size rg)\<rparr>) pinfo))"

text \<open>
  Characters of a C string: reading past the terminating zero is an error. The byte after a string that does
  not start with \<open>a\<close> is read at position 3.
\<close>

definition str_at :: "string \<Rightarrow> nat \<Rightarrow> char option" where
  "str_at s i = (if i < length s then Some (s ! i) else if i = length s then Some (CHR 0x00) else None)"

definition range_set_proto :: "string \<Rightarrow> port_info \<Rightarrow> port_info" where
  "range_set_proto type pinfo =
     (let c = str_at type 0;
          proto = (if c = Some (CHR ''u'') then PG_IPPROTO_UDP else if c = Some (CHR ''i'') then PG_IPPROTO_ICMP
                   else PG_IPPROTO_TCP);
          p1 = upd_range (\<lambda>rg. rg\<lparr>r_ip_proto := proto\<rparr>)
                 (upd_pkt RANGE_PKT (\<lambda>pkt. pkt\<lparr>ipProto := proto\<rparr>) pinfo)
      in if c = Some (CHR ''i'') then upd_pkt RANGE_PKT (\<lambda>pkt. pkt\<lparr>ethType := RTE_ETHER_TYPE_IPV4\<rparr>) p1 else p1)"

definition at_least :: "u16 \<Rightarrow> u16 \<Rightarrow> u16" where
  "at_least lo v = (if v < lo then lo else v)"

definition range_eth_type :: "string \<Rightarrow> u16" where
  "range_eth_type type = (if str_at type 0 = Some (CHR ''a'') then RTE_ETHER_TYPE_ARP
     else if str_at type 3 = Some (CHR ''4'') then RTE_ETHER_TYPE_IPV4
     else if str_at type 3 = Some (CHR ''6'') then RTE_ETHER_TYPE_IPV6 else RTE_ETHER_TYPE_IPV4)"

definition range_set_pkt_type :: "string \<Rightarrow> port_info \<Rightarrow> port_info option" where
  "range_set_pkt_type type pinfo =
     (if str_at type 0 \<noteq> Some (CHR ''a'') \<and> str_at type 3 = None then None
      else
        (let et = range_eth_type type;
             p1 = upd_pkt RANGE_PKT (\<lambda>pkt. pkt\<lparr>ethType := et\<rparr>) pinfo
         in Some (if et = RTE_ETHER_TYPE_IPV6 then
              upd_range (\<lambda>rg. let sp = r_pkt_size rg in
                rg\<lparr>r_pkt_size := sp\<lparr>sp_start := at_least MIN_v6_PKT_SIZE (sp_start sp),
                  sp_min := at_least MIN_v6_PKT_SIZE (sp_min sp), sp_max := at_least MIN_v6_PKT_SIZE (sp_max sp)\<rparr>\<rparr>) p1
            else p1)))"

subsection \<open>What the commands keep\<close>

datatype range_cmd = Dest_mac string "u8 list" | Src_mac string "u8 list" | Src_ip string "u8 list" | Dst_ip string "u8 list"
  | Src_port string u16 | Dst_port string u16 | Gtpu_teid string u32 | Ttl string u8 | Hop_limits string u8
  | Vlan_id string u16 | Tos_id string u8 | Traffic_class string u8 | Cos_id string u8 | Tcp_seq string u32
  | Tcp_ack string u32 | Pkt_size string u16 | Set_proto string | Pkt_type string

fun do_range_cmd :: "u32 \<Rightarrow> range_cmd \<Rightarrow> port_info \<Rightarrow> port_info option" where
  "do_range_cmd flags (Dest_mac w a) p = Some (range_set_dest_mac w a p)"
| "do_range_cmd flags (Src_mac w a) p = Some (range_set_src_mac w a p)"
| "do_range_cmd flags (Src_ip w a) p = Some (range_set_src_ip w a p)"
| "do_range_cmd flags (Dst_ip w a) p = Some (range_set_dst_ip w a p)"
| "do_range_cmd flags (Src_port w v) p = Some (range_set_src_port w v p)"
| "do_range_cmd flags (Dst_port w v) p = Some (range_set_dst_port w v p)"
| "do_range_cmd flags (Gtpu_teid w v) p = Some (range_set_gtpu_teid w v p)"
| "do_range_cmd flags (Ttl w v) p = Some (range_set_ttl w v p)"
| "do_range_cmd flags (Hop_limits w v) p = Some (range_set_hop_limits w v p)"
| "do_range_cmd flags (Vlan_id w v) p = Some (range_set_vlan_id w v p)"
| "do_range_cmd flags (Tos_id w v) p = Some (range_set_tos_id w v p)"
| "do_range_cmd flags (Traffic_class w v) p = Some (range_set_traffic_class w v p)"
| "do_range_cmd flags (Cos_id w v) p = Some (range_set_cos_id w v p)"
| "do_range_cmd flags (Tcp_seq w v) p = Some (range_set_tcp_seq w v p)"
| "do_range_cmd flags (Tcp_ack w v) p = Some (range_set_tcp_ack w v p)"
| "do_range_cmd flags (Pkt_size w v) p = Some (range_set_pkt_size flags w v p)"
| "do_range_cmd flags (Set_proto t) p = Some (range_set_proto t p)"
| "do_range_cmd flags (Pkt_type t) p = range_set_pkt_type t p"

fun do_range_cmds :: "u32 \<Rightarrow> range_cmd list \<Rightarrow> port_info \<Rightarrow> port_info option" where
  "do_range_cmds flags [] p = Some p"
| "do_range_cmds flags (c # cs) p = (case do_range_cmd flags c p of None \<Rightarrow> None | Some p1 \<Rightarrow> do_range_cmds flags cs p1)"

definition all_of :: "('v \<Rightarrow> bool) \<Rightarrow> ('v, 'i) span \<Rightarrow> bool" where
  "all_of P sp \<longleftrightarrow> P (sp_start sp) \<and> P (sp_min sp) \<and> P (sp_max sp)"

definition size_limit :: "u32 \<Rightarrow> u16" where
  "size_limit flags = (if flags AND JUMBO_PKTS_FLAG \<noteq> 0 then RTE_ETHER_MAX_JUMBO_FRAME_LEN else RTE_ETHER_MAX_LEN) - RTE_ETHER_CRC_LEN"

definition range_limits :: "u32 \<Rightarrow> port_info \<Rightarrow> bool" where
  "range_limits flags p \<longleftrightarrow> length (seq_pkt p) = NUM_TOTAL_PKTS
     \<and> all_of (\<lambda>v. MIN_VLAN_ID \<le> v \<and> v \<le> MAX_VLAN_ID) (r_vlan_id (p_range p)) \<and> sp_inc (r_vlan_id (p_range p)) \<le> 64
     \<and> sp_inc (r_src_port (p_range p)) \<le> 64 \<and> sp_inc (r_dst_port (p_range p)) \<le> 64 \<and> sp_inc (r_cos (p_range p)) \<le> 7
     \<and> all_of (\<lambda>v. RTE_ETHER_MIN_LEN - RTE_ETHER_CRC_LEN \<le> v \<and> v \<le> size_limit flags) (r_pkt_size (p_range p))
     \<and> (ethType (seq_pkt p ! RANGE_PKT) = RTE_ETHER_TYPE_IPV6 \<longrightarrow>
          all_of (\<lambda>v. MIN_v6_PKT_SIZE - RTE_ETHER_CRC_LEN \<le> v) (r_pkt_size (p_range p)))"

lemma upd_sel [simp]:
  "p_range (upd_pkt i f p) = p_range p" "seq_pkt (upd_range g p) = seq_pkt p"
  "p_range (upd_range g p) = g (p_range p)" "length (seq_pkt (upd_pkt i f p)) = length (seq_pkt p)"
  "p_pid (upd_pkt i f p) = p_pid p" "p_pid (upd_range g p) = p_pid p"
  by (simp_all add: upd_pkt_def upd_range_def)

lemma upd_pkt_at [simp]: "i < length (seq_pkt p) \<Longrightarrow> seq_pkt (upd_pkt i f p) ! j = (if j = i then f (seq_pkt p ! i) else seq_pkt p ! j)"
  by (auto simp: upd_pkt_def nth_list_update)

lemma set_member_sel [simp]: "sp_inc (set_member w v sp) = sp_inc sp"
  by (simp add: set_member_def)

lemma all_of_member: "all_of P sp \<Longrightarrow> P v \<Longrightarrow> all_of P (set_member w v sp)"
  by (simp add: all_of_def set_member_def)

lemma all_of_inc [simp]: "all_of P (sp\<lparr>sp_inc := i\<rparr>) = all_of P sp"
  by (simp add: all_of_def)

lemma sp_inc_set_span: "sp_inc sp \<le> k \<Longrightarrow> i \<le> k \<Longrightarrow> sp_inc (set_span w v i sp) \<le> k" for k :: "'w::len word"
  by (simp add: set_span_def)

lemma range_in_20: "RANGE_PKT < NUM_TOTAL_PKTS"
  by (simp add: pkt_consts)

lemma size_limit_cases: "size_limit flags = (if flags AND JUMBO_PKTS_FLAG \<noteq> 0 then 0x3EFC else 1514)"
  by (simp add: size_limit_def pkt_consts)

lemma clamp_size:
  fixes v lim :: u16
  assumes "lim = 0x3F00 \<or> lim = 1518"
  shows "60 \<le> (if v < 64 then 64 else if v > lim then lim else v) - 4"
    and "(if v < 64 then 64 else if v > lim then lim else v) - 4 \<le> lim - 4"
    and "(if v < 64 then 64 else if v > lim then lim else v) < 78 \<or> 74 \<le> (if v < 64 then 64 else if v > lim then lim else v) - 4"
proof -
  have m: "a \<le> b \<Longrightarrow> k \<le> a \<Longrightarrow> a - k \<le> b - k" for a b k :: u16
    by (simp add: word_le_nat_alt unat_sub)
  let ?w = "if v < 64 then 64 else if v > lim then lim else v"
  have w: "64 \<le> ?w" "?w \<le> lim" using assms by (auto simp: not_less)
  have four: "4 \<le> ?w" using w(1) by (rule order.trans [rotated]) simp
  show "60 \<le> ?w - 4" using m [OF w(1), of 4] by simp
  show "?w - 4 \<le> lim - 4" by (rule m [OF w(2) four])
  show "?w < 78 \<or> 74 \<le> ?w - 4" 
  proof (cases "?w < 78")
    case False
    then have "78 - 4 \<le> ?w - 4" using m [of 78 ?w 4] by (simp add: not_less del: if_split)
    then show ?thesis by (simp del: if_split)
  qed (rule disjI1)
qed

lemma range_size_limits:
  assumes "range_limits flags p"
  shows "range_limits flags (range_set_pkt_size flags w v p)"
proof (cases "is_inc w")
  case True
  then show ?thesis using assms by (simp add: range_set_pkt_size_def range_limits_def)
next
  case False
  let ?lim = "if flags AND JUMBO_PKTS_FLAG \<noteq> 0 then 0x3F00 else 1518 :: u16"
  let ?w = "if v < 64 then 64 else if v > ?lim then ?lim else v"
  let ?v6 = "ethType (seq_pkt p ! RANGE_PKT) = RTE_ETHER_TYPE_IPV6"
  let ?z = "(if ?v6 \<and> ?w < 78 then 78 else ?w) - 4"
  have lim: "?lim = 0x3F00 \<or> ?lim = 1518" by simp
  have sl: "size_limit flags = ?lim - 4" by (simp add: size_limit_def pkt_consts)
  have z: "60 \<le> ?z" "?z \<le> size_limit flags" "?v6 \<longrightarrow> 74 \<le> ?z"
    using clamp_size [OF lim, of v] by (auto simp: sl simp del: if_split split: if_splits)
  have "(if v < 64 then 64 else v) > ?lim \<longleftrightarrow> \<not> v < 64 \<and> v > ?lim" by simp
  then have p': "range_set_pkt_size flags w v p
      = upd_range (\<lambda>rg. rg\<lparr>r_pkt_size := set_member w ?z (r_pkt_size rg)\<rparr>) p"
    using False by (simp add: range_set_pkt_size_def Let_def pkt_consts)
  show ?thesis unfolding p' using assms z
    by (simp add: range_limits_def all_of_member pkt_consts)
qed

lemma range_type_limits:
  assumes "range_limits flags p" and "range_set_pkt_type t p = Some p'"
  shows "range_limits flags p'"
proof -
  have lim: "78 \<le> size_limit flags" by (simp add: size_limit_cases)
  have up: "all_of (\<lambda>v. 60 \<le> v \<and> v \<le> size_limit flags) sp \<Longrightarrow>
    all_of (\<lambda>v. 60 \<le> v \<and> v \<le> size_limit flags) (sp\<lparr>sp_start := at_least 78 (sp_start sp),
      sp_min := at_least 78 (sp_min sp), sp_max := at_least 78 (sp_max sp)\<rparr>)" for sp :: "(u16, u16) span"
    using lim order.trans [of "60 :: u16" 78] by (auto simp: all_of_def at_least_def)
  have "74 \<le> at_least 78 v" for v
    using order.trans [of "74 :: u16" 78 v] by (auto simp: at_least_def not_less)
  then have six: "all_of ((\<le>) 74) (sp\<lparr>sp_start := at_least 78 (sp_start sp),
      sp_min := at_least 78 (sp_min sp), sp_max := at_least 78 (sp_max sp)\<rparr>)" for sp :: "(u16, u16) span"
    by (simp add: all_of_def)
  show ?thesis using assms up [of "r_pkt_size (p_range p)"] six [of "r_pkt_size (p_range p)"]
    unfolding range_set_pkt_type_def Let_def
    by (cases "range_eth_type t = RTE_ETHER_TYPE_IPV6")
      (auto simp: range_limits_def range_in_20 RTE_ETHER_MIN_LEN_def RTE_ETHER_CRC_LEN_def MIN_v6_PKT_SIZE_def
        split: if_split_asm)
qed

lemma u16_ge_1: "v \<noteq> 0 \<Longrightarrow> 1 \<le> v" for v :: u16
  by (simp add: word_le_nat_alt Suc_le_eq unat_gt_0)

lemma ucast_le_7: "v \<le> 7 \<Longrightarrow> (ucast v :: u16) \<le> 7" for v :: u8
  by (simp add: word_le_nat_alt unat_ucast_up)

lemma range_cmd_limits:
  assumes "range_limits flags p"
  shows "case do_range_cmd flags c p of None \<Rightarrow> True | Some p' \<Rightarrow> range_limits flags p'"
proof (cases c)
  case (Pkt_size w v)
  then show ?thesis using range_size_limits [OF assms] by simp
next
  case (Pkt_type t)
  then show ?thesis using range_type_limits [OF assms] by (simp split: option.split)
qed (use assms in \<open>simp_all add: range_limits_def range_in_20 all_of_member sp_inc_set_span Let_def range_set_dest_mac_def
   range_set_src_mac_def range_set_src_ip_def range_set_dst_ip_def range_set_src_port_def range_set_dst_port_def
   range_set_gtpu_teid_def range_set_ttl_def range_set_hop_limits_def range_set_vlan_id_def range_set_tos_id_def
   range_set_traffic_class_def range_set_cos_id_def range_set_tcp_seq_def range_set_tcp_ack_def range_set_proto_def
   RTE_ETHER_TYPE_IPV4_def RTE_ETHER_TYPE_IPV6_def MIN_VLAN_ID_def MAX_VLAN_ID_def not_less u16_ge_1 ucast_le_7\<close>)

lemma range_cmds_limits:
  "range_limits flags p \<Longrightarrow> do_range_cmds flags cs p = Some p' \<Longrightarrow> range_limits flags p'"
proof (induction cs arbitrary: p)
  case (Cons c cs)
  then show ?case using range_cmd_limits [of flags p c] by (auto split: option.splits)
qed simp

lemma setup_limits:
  assumes "length (seq_pkt p) = NUM_TOTAL_PKTS" and "ethType (seq_pkt p ! RANGE_PKT) \<noteq> RTE_ETHER_TYPE_IPV6"
    and "MIN_VLAN_ID \<le> pk_vlanid (seq_pkt p ! SINGLE_PKT)" and "pk_vlanid (seq_pkt p ! SINGLE_PKT) \<le> MAX_VLAN_ID"
  shows "range_limits flags (pktgen_range_setup flags p)"
proof -
  show ?thesis using assms
    by (simp add: pktgen_range_setup_def Let_def range_limits_def range_in_20 all_of_def size_limit_def)
      (simp add: pkt_consts)
qed

text \<open>
  The limits of the range commands: after the defaults of a port are set up, any sequence of range
  commands, with any words and values, keeps the VLAN ids between 1 and 4095, the increments of the
  ports and the VLAN id at most 64 and that of the priority at most 7, and every packet size between 60 and
  the largest frame without its checksum, and at least 74 while the range packet is an IPv6 packet.
\<close>

lemma range_commands_keep_limits:
  assumes "length (seq_pkt p) = NUM_TOTAL_PKTS" and "ethType (seq_pkt p ! RANGE_PKT) \<noteq> RTE_ETHER_TYPE_IPV6"
    and "MIN_VLAN_ID \<le> pk_vlanid (seq_pkt p ! SINGLE_PKT)" and "pk_vlanid (seq_pkt p ! SINGLE_PKT) \<le> MAX_VLAN_ID"
    and "do_range_cmds flags cs (pktgen_range_setup flags p) = Some p'"
  shows "range_limits flags p'"
  using range_cmds_limits [OF setup_limits [OF assms(1-4)] assms(5)] .

definition sample_port :: port_info where
  "sample_port = \<lparr>p_pid = 0, port_flags = 0, transmit_count = 0, current_tx_count = 0, tx_cycles = 0,
     seq_pkt = replicate 20 sample_pkt, p_range = sample_range, rx_burst = 64, tx_burst = 32, seqIdx = 0, seqCnt = 0,
     prime_cnt = 1, p_vlanid = 1, p_cos = 0, p_tos = 0, p_vni_flags = 0\<rparr>"

lemma range_commands_keep_limits_example:
  "\<exists>p'. do_range_cmds 0 [Vlan_id ''max'' 9999, Pkt_type ''ipv6'', Pkt_size ''min'' 10, Cos_id ''inc'' 200]
      (pktgen_range_setup 0 sample_port) = Some p' \<and> range_limits 0 p'"
proof -
  have ok: "length (seq_pkt sample_port) = NUM_TOTAL_PKTS" "ethType (seq_pkt sample_port ! RANGE_PKT) \<noteq> RTE_ETHER_TYPE_IPV6"
    "MIN_VLAN_ID \<le> pk_vlanid (seq_pkt sample_port ! SINGLE_PKT)" "pk_vlanid (seq_pkt sample_port ! SINGLE_PKT) \<le> MAX_VLAN_ID"
    by (simp_all add: sample_port_def pkt_consts) (simp_all add: sample_pkt_def)
  obtain p' where "do_range_cmds 0 [Vlan_id ''max'' 9999, Pkt_type ''ipv6'', Pkt_size ''min'' 10, Cos_id ''inc'' 200]
      (pktgen_range_setup 0 sample_port) = Some p'"
    by (simp add: range_set_pkt_type_def str_at_def Let_def)
  with range_commands_keep_limits [OF ok this] show ?thesis by blast
qed

text \<open>
  The default ranges: the ports, the VLAN id, the priority, the type of service, the time to live, the
  packet size and the TCP numbers all start inside their range when the packet of single mode is within the
  limits of these fields, so range mode stays in them.
\<close>

lemma range_setup_spans:
  assumes "MIN_VLAN_ID \<le> pk_vlanid (seq_pkt p ! SINGLE_PKT)" and "pk_vlanid (seq_pkt p ! SINGLE_PKT) \<le> MAX_VLAN_ID"
    and "pk_cos (seq_pkt p ! SINGLE_PKT) \<le> MAX_COS"
    and "pk_tcp_seq (seq_pkt p ! SINGLE_PKT) \<le> MAX_TCP_SEQ_NUMBER" and "pk_tcp_ack (seq_pkt p ! SINGLE_PKT) \<le> MAX_TCP_ACK_NUMBER"
    and "rg = p_range (pktgen_range_setup flags p)"
  shows "span_ok (r_src_port rg) \<and> span_ok (r_dst_port rg) \<and> span_ok (r_vlan_id rg) \<and> span_ok (r_cos rg) \<and> span_ok (r_tos rg)
    \<and> span_ok (r_ttl rg) \<and> span_ok (r_pkt_size rg) \<and> span_ok (r_tcp_seq rg) \<and> span_ok (r_tcp_ack rg)"
proof -
  have "(65535 :: u16) = - 1" "(255 :: u8) = - 1" by simp_all
  then have "\<And>v :: u16. v \<le> 65535" "\<And>v :: u8. v \<le> 255" using word_order.extremum by metis+
  then show ?thesis
    using assms unfolding assms(6) pktgen_range_setup_def Let_def
    by (simp add: in_span_def) (simp add: pkt_consts)
qed

lemma range_setup_spans_example:
  "span_ok (r_pkt_size (p_range (pktgen_range_setup JUMBO_PKTS_FLAG sample_port)))"
proof -
  have "pk_vlanid (seq_pkt sample_port ! SINGLE_PKT) = 1" "pk_cos (seq_pkt sample_port ! SINGLE_PKT) = 0"
    "pk_tcp_seq (seq_pkt sample_port ! SINGLE_PKT) = 0" "pk_tcp_ack (seq_pkt sample_port ! SINGLE_PKT) = 0"
    by (simp_all add: sample_port_def pkt_consts) (simp_all add: sample_pkt_def)
  then show ?thesis
    using range_setup_spans [OF _ _ _ _ _ refl, of sample_port JUMBO_PKTS_FLAG] by (simp add: pkt_consts)
qed

end
