(* ===== verification/RangeCli.thy ===== *)
theory RangeCli
  imports CliMap MacText TcpFlags PortList RangeCmds PktBuild
begin

text \<open>
  The command \<open>range\<close> from its arguments to the ports (\<open>range_cmd\<close> of \<open>app/cli-functions.c\<close>): the table of its variants,
  what each variant does with each port of the port list, and the commands on templates that it reaches beside those
  of the ranges.
\<close>

section \<open>The variants\<close>

definition SMMI :: string where "SMMI = ''%|start|minimum|maximum|increment|min|max|inc''"

definition range_map :: "cli_map list" where
  "range_map = map (\<lambda>(i, f). \<lparr>cm_index = i, cm_fmt = f\<rparr>)
    [(20, ''range %P dst mac '' @ SMMI @ '' %m''),
     (21, ''range %P src mac '' @ SMMI @ '' %m''),
     (22, ''range %P dst mac %m %m %m %m''),
     (23, ''range %P src mac %m %m %m %m''),
     (30, ''range %P dst ip '' @ SMMI @ '' %4''),
     (31, ''range %P src ip '' @ SMMI @ '' %4''),
     (32, ''range %P dst ip %4 %4 %4 %4''),
     (33, ''range %P src ip %4 %4 %4 %4''),
     (34, ''range %P dst ip '' @ SMMI @ '' %6''),
     (35, ''range %P src ip '' @ SMMI @ '' %6''),
     (36, ''range %P dst ip %6 %6 %6 %6''),
     (37, ''range %P src ip %6 %6 %6 %6''),
     (40, ''range %P proto %|tcp|udp''),
     (41, ''range %P type %|ipv4|ipv6''),
     (42, ''range %P tcp %|flag|flags %c''),
     (44, ''range %P tcp seq %d %d %d %d''),
     (45, ''range %P tcp ack %d %d %d %d''),
     (46, ''range %P tcp seq '' @ SMMI @ '' %d''),
     (47, ''range %P tcp ack '' @ SMMI @ '' %d''),
     (50, ''range %P dst port '' @ SMMI @ '' %d''),
     (51, ''range %P src port '' @ SMMI @ '' %d''),
     (52, ''range %P dst port %d %d %d %d''),
     (53, ''range %P src port %d %d %d %d''),
     (55, ''range %P ttl '' @ SMMI @ '' %b''),
     (56, ''range %P ttl %b %b %b %b''),
     (60, ''range %P vlan '' @ SMMI @ '' %d''),
     (61, ''range %P vlan %d %d %d %d''),
     (70, ''range %P size '' @ SMMI @ '' %d''),
     (71, ''range %P size %d %d %d %d''),
     (80, ''range %P mpls entry %h''),
     (85, ''range %P qinq index %d %d''),
     (90, ''range %P gre key %d''),
     (91, ''range %P gre_key %d''),
     (100, ''range %P gtpu '' @ SMMI @ '' %d''),
     (101, ''range %P gtpu %d %d %d %d''),
     (160, ''range %P cos '' @ SMMI @ '' %d''),
     (161, ''range %P cos %d %d %d %d''),
     (170, ''range %P tos '' @ SMMI @ '' %d''),
     (171, ''range %P tos %d %d %d %d''),
     (172, ''range %P hop_limits '' @ SMMI @ '' %b''),
     (173, ''range %P hop_limits %d %d %d %d''),
     (174, ''range %P traffic_class '' @ SMMI @ '' %d''),
     (175, ''range %P traffic_class %d %d %d %d'')]"

section \<open>What a variant does with a port\<close>

text \<open>\<open>No_address\<close> is the use of an address that no conversion has written.\<close>

datatype range_act = Act range_cmd | Mpls_entry u32 | Qinqids u16 u16 | Gre_key u32 | Set_tcp_flags string | No_address

definition range_set_tcp_flags :: "string \<Rightarrow> port_info \<Rightarrow> port_info" where
  "range_set_tcp_flags flags pinfo =
     (let v = (ucast (tcp_flags_from_str flags) :: u8) in
      upd_pkt RANGE_PKT (\<lambda>pkt. pkt\<lparr>pk_tcp_flags := ucast v\<rparr>) (upd_range (\<lambda>rg. rg\<lparr>r_tcp_flags := v\<rparr>) pinfo))"

text \<open>The copies of the entry and the key in the port itself are never read and not part of the model.\<close>

definition range_set_mpls_entry :: "build_env \<Rightarrow> u32 \<Rightarrow> build \<Rightarrow> build option" where
  "range_set_mpls_entry env mpls b =
     pktgen_packet_ctor env SINGLE_PKT (-1) (b\<lparr>b_pinfo := upd_pkt SINGLE_PKT (\<lambda>pkt. pkt\<lparr>pk_mpls_entry := mpls\<rparr>) (b_pinfo b)\<rparr>)"

definition range_set_qinqids :: "build_env \<Rightarrow> u16 \<Rightarrow> u16 \<Rightarrow> build \<Rightarrow> build option" where
  "range_set_qinqids env outerid innerid b =
     pktgen_packet_ctor env RANGE_PKT (-1)
       (b\<lparr>b_pinfo := upd_pkt RANGE_PKT (\<lambda>pkt. pkt\<lparr>qinq_outerid := outerid, qinq_innerid := innerid\<rparr>) (b_pinfo b)\<rparr>)"

definition range_set_gre_key :: "build_env \<Rightarrow> u32 \<Rightarrow> build \<Rightarrow> build option" where
  "range_set_gre_key env key b =
     pktgen_packet_ctor env SINGLE_PKT (-1) (b\<lparr>b_pinfo := upd_pkt SINGLE_PKT (\<lambda>pkt. pkt\<lparr>pk_gre_key := key\<rparr>) (b_pinfo b)\<rparr>)"

text \<open>
  An IPv4 address fills four of the sixteen bytes of the address variable; the setters copy all sixteen when the
  range packet is an IPv6 packet.
\<close>

definition addr_written :: "range_cmd \<Rightarrow> port_info \<Rightarrow> bool" where
  "addr_written c pinfo =
     (case c of Src_ip w a \<Rightarrow> length a = 16 \<or> ethType (seq_pkt pinfo ! RANGE_PKT) \<noteq> RTE_ETHER_TYPE_IPV6
      | Dst_ip w a \<Rightarrow> length a = 16 \<or> ethType (seq_pkt pinfo ! RANGE_PKT) \<noteq> RTE_ETHER_TYPE_IPV6 | _ \<Rightarrow> True)"

fun do_range_act :: "u32 \<Rightarrow> build_env \<Rightarrow> range_act \<Rightarrow> build \<Rightarrow> build option" where
  "do_range_act flags env (Act c) b =
     (if addr_written c (b_pinfo b) then map_option (\<lambda>p. b\<lparr>b_pinfo := p\<rparr>) (do_range_cmd flags c (b_pinfo b)) else None)"
| "do_range_act flags env (Mpls_entry v) b = range_set_mpls_entry env v b"
| "do_range_act flags env (Qinqids v w) b = range_set_qinqids env v w b"
| "do_range_act flags env (Gre_key v) b = range_set_gre_key env v b"
| "do_range_act flags env (Set_tcp_flags s) b = Some (b\<lparr>b_pinfo := range_set_tcp_flags s (b_pinfo b)\<rparr>)"
| "do_range_act flags env No_address b = None"

fun do_range_acts :: "u32 \<Rightarrow> build_env \<Rightarrow> range_act list \<Rightarrow> build \<Rightarrow> build option" where
  "do_range_acts flags env [] b = Some b"
| "do_range_acts flags env (a # acts) b =
     (case do_range_act flags env a b of None \<Rightarrow> None | Some b1 \<Rightarrow> do_range_acts flags env acts b1)"

section \<open>From the arguments to the actions\<close>

definition atoi :: "string \<Rightarrow> u32" where "atoi s = of_int (fst (strtol 10 s))"

text \<open>The identifier of a tunnel has 32 bits, the result of this function 16.\<close>

definition valid_gtpu_teid :: "string \<Rightarrow> u16" where "valid_gtpu_teid s = ucast (atoi s)"

text \<open>All MAC addresses are converted before the first is used; a failure is reported and ends the command.\<close>

definition mac_acts :: "(string \<Rightarrow> u8 list \<Rightarrow> range_cmd) \<Rightarrow> (string \<times> string) list \<Rightarrow> range_act list" where
  "mac_acts setter ws =
     (case those (map (\<lambda>(w, a). map_option (\<lambda>m. Act (setter w m)) (pg_ether_aton a)) ws) of None \<Rightarrow> [] | Some as \<Rightarrow> as)"

text \<open>An address that cannot be converted leaves the variable as it was.\<close>

fun ip_acts :: "(string \<Rightarrow> u8 list \<Rightarrow> range_cmd) \<Rightarrow> u8 list option \<Rightarrow> (string \<times> string) list \<Rightarrow> range_act list" where
  "ip_acts setter prev [] = []"
| "ip_acts setter prev ((w, a) # ws) =
     (case (case atoip a False of Some (_, ip) \<Rightarrow> Some (ia_addr ip) | None \<Rightarrow> prev) of
        None \<Rightarrow> [No_address]
      | Some ip \<Rightarrow> Act (setter w ip) # ip_acts setter (Some ip) ws)"

definition four_words :: "string list \<Rightarrow> (string \<times> string) list" where
  "four_words vs = zip [''start'', ''min'', ''max'', ''inc''] vs"

definition num_acts :: "(string \<Rightarrow> 'w::len word \<Rightarrow> range_cmd) \<Rightarrow> (string \<times> string) list \<Rightarrow> range_act list" where
  "num_acts setter ws = map (\<lambda>(w, a). Act (setter w (ucast (atoi a)))) ws"

definition before_slash :: "string \<Rightarrow> string" where "before_slash s = takeWhile (\<lambda>c. c \<noteq> CHR ''/'') s"

text \<open>The \<open>switch\<close> of the handler; \<open>None\<close> is its \<open>default\<close>.\<close>

definition range_switch :: "int \<Rightarrow> string list \<Rightarrow> range_act list option" where
  "range_switch idx argv =
     (let a3 = argv ! 3; what = argv ! 4; val = argv ! 5 in
      if idx = 20 then Some (mac_acts Dest_mac [(what, val)])
      else if idx = 21 then Some (mac_acts Src_mac [(what, val)])
      else if idx = 22 then Some (mac_acts Dest_mac (four_words (drop 4 argv)))
      else if idx = 23 then Some (mac_acts Src_mac (four_words (drop 4 argv)))
      else if idx = 30 \<or> idx = 34 then Some (ip_acts Dst_ip None [(before_slash what, val)])
      else if idx = 31 \<or> idx = 35 then Some (ip_acts Src_ip None [(before_slash what, val)])
      else if idx = 32 \<or> idx = 36 then Some (ip_acts Dst_ip None (four_words (drop 4 argv)))
      else if idx = 33 \<or> idx = 37 then Some (ip_acts Src_ip None (four_words (drop 4 argv)))
      else if idx = 40 then Some [Act (Set_proto a3)]
      else if idx = 41 then Some [Act (Pkt_type a3)]
      else if idx = 42 then Some [Set_tcp_flags what]
      else if idx = 44 then Some (num_acts Tcp_seq (four_words (drop 4 argv)))
      else if idx = 45 then Some (num_acts Tcp_ack (four_words (drop 4 argv)))
      else if idx = 46 then Some (num_acts Tcp_seq [(what, val)])
      else if idx = 47 then Some (num_acts Tcp_ack [(what, val)])
      else if idx = 50 then Some (num_acts Dst_port [(what, val)])
      else if idx = 51 then Some (num_acts Src_port [(what, val)])
      else if idx = 52 then Some (num_acts Dst_port (four_words (drop 4 argv)))
      else if idx = 53 then Some (num_acts Src_port (four_words (drop 4 argv)))
      else if idx = 55 then Some (num_acts Ttl [(a3, what)])
      else if idx = 56 then Some (num_acts Ttl (four_words (drop 3 argv)))
      else if idx = 60 then Some (num_acts Vlan_id [(a3, what)])
      else if idx = 61 then Some (num_acts Vlan_id (four_words (drop 3 argv)))
      else if idx = 70 then Some (num_acts Pkt_size [(a3, if a3 \<noteq> ''inc'' then what else a3)])
      else if idx = 71 then Some (num_acts Pkt_size (four_words (drop 3 argv)))
      else if idx = 80 then Some [Mpls_entry (ucast (fst (strtoul 16 what)))]
      else if idx = 85 then Some [Qinqids (ucast (atoi what)) (ucast (atoi val))]
      else if idx = 90 \<or> idx = 91 then Some [Gre_key (ucast (fst (strtoul 10 what)))]
      else if idx = 100 then Some [Act (Gtpu_teid a3 (if a3 \<noteq> ''inc'' then ucast (valid_gtpu_teid what) else atoi what))]
      else if idx = 101 then Some [Act (Gtpu_teid ''start'' (ucast (valid_gtpu_teid a3))), Act (Gtpu_teid ''min'' (ucast (valid_gtpu_teid what))),
        Act (Gtpu_teid ''max'' (ucast (valid_gtpu_teid val))), Act (Gtpu_teid ''inc'' (atoi (argv ! 6)))]
      else if idx = 160 then Some (num_acts Cos_id [(a3, what)])
      else if idx = 161 then Some (num_acts Cos_id (four_words (drop 3 argv)))
      else if idx = 170 then Some (num_acts Tos_id [(a3, what)])
      else if idx = 171 then Some (num_acts Tos_id (four_words (drop 3 argv)))
      else if idx = 172 then Some (num_acts Hop_limits [(a3, what)])
      else if idx = 173 then Some (num_acts Hop_limits (four_words (drop 3 argv)))
      else if idx = 174 then Some (num_acts Traffic_class [(a3, what)])
      else if idx = 175 then Some (num_acts Traffic_class (four_words (drop 3 argv)))
      else None)"


section \<open>The handler\<close>

text \<open>
  The ports by number, with their templates and packet memory, and the identification counter of the constructors,
  which all ports share. Also: a port without templates has an empty list.
\<close>

record cli_ports =
  cp_port :: "nat \<Rightarrow> build"
  cp_ident :: u16

text \<open>\<open>foreach_port\<close>: the action on every device of the list; it stops the program's defined behaviour where an action does.\<close>

fun foreach_port :: "u64 \<Rightarrow> (nat \<Rightarrow> build \<Rightarrow> build option) \<Rightarrow> nat list \<Rightarrow> cli_ports \<Rightarrow> cli_ports option" where
  "foreach_port pl action [] st = Some st"
| "foreach_port pl action (pid # pids) st =
     (if pl AND push_bit pid 1 = 0 then foreach_port pl action pids st
      else if seq_pkt (b_pinfo (cp_port st pid)) = [] then foreach_port pl action pids st
      else case action pid ((cp_port st pid)\<lparr>b_ident := cp_ident st\<rparr>) of
        None \<Rightarrow> None
      | Some b \<Rightarrow> foreach_port pl action pids \<lparr>cp_port = (cp_port st)(pid := b), cp_ident = b_ident b\<rparr>)"

text \<open>
  The parameters: the flags of the program, the number of its ports, the devices and what the constructors find for
  each of them. The result is the return value with the ports.
\<close>

record cli_env =
  ce_flags :: u32
  ce_nb_ports :: nat
  ce_devs :: "nat list"
  ce_build :: "nat \<Rightarrow> build_env"

definition range_cmd :: "cli_env \<Rightarrow> string list \<Rightarrow> cli_ports \<Rightarrow> (int \<times> cli_ports) option" where
  "range_cmd env argv st =
     (case cli_mapping range_map argv of
        None \<Rightarrow> None
      | Some None \<Rightarrow> Some (-1, st)
      | Some (Some m) \<Rightarrow>
          (let portlist = snd (portlist_parse (argv ! 1) (ce_nb_ports env) 0) in
           case range_switch (cm_index m) argv of
             None \<Rightarrow> Some (-1, st)
           | Some acts \<Rightarrow>
               map_option (Pair 0)
                 (foreach_port portlist (\<lambda>pid. do_range_acts (ce_flags env) (ce_build env pid) acts) (ce_devs env) st)))"

text \<open>A line of the command line that is a range command.\<close>

definition range_line :: "cli_env \<Rightarrow> string \<Rightarrow> cli_ports \<Rightarrow> (int \<times> cli_ports) option" where
  "range_line env line st =
     (case pg_strqtok line ('' '' @ [CHR 0x0D, CHR 0x0A]) CLI_MAX_ARGVS of
        None \<Rightarrow> None
      | Some argv \<Rightarrow> if argv ! 0 = ''range'' then range_cmd env argv st else None)"


section \<open>Which variant a line selects\<close>

definition range_words :: "(int \<times> string list) list" where
  "range_words =
    [(20, [''range'', ''%P'', ''dst'', ''mac'', SMMI, ''%m'']),
     (21, [''range'', ''%P'', ''src'', ''mac'', SMMI, ''%m'']),
     (22, [''range'', ''%P'', ''dst'', ''mac'', ''%m'', ''%m'', ''%m'', ''%m'']),
     (23, [''range'', ''%P'', ''src'', ''mac'', ''%m'', ''%m'', ''%m'', ''%m'']),
     (30, [''range'', ''%P'', ''dst'', ''ip'', SMMI, ''%4'']),
     (31, [''range'', ''%P'', ''src'', ''ip'', SMMI, ''%4'']),
     (32, [''range'', ''%P'', ''dst'', ''ip'', ''%4'', ''%4'', ''%4'', ''%4'']),
     (33, [''range'', ''%P'', ''src'', ''ip'', ''%4'', ''%4'', ''%4'', ''%4'']),
     (34, [''range'', ''%P'', ''dst'', ''ip'', SMMI, ''%6'']),
     (35, [''range'', ''%P'', ''src'', ''ip'', SMMI, ''%6'']),
     (36, [''range'', ''%P'', ''dst'', ''ip'', ''%6'', ''%6'', ''%6'', ''%6'']),
     (37, [''range'', ''%P'', ''src'', ''ip'', ''%6'', ''%6'', ''%6'', ''%6'']),
     (40, [''range'', ''%P'', ''proto'', ''%|tcp|udp'']),
     (41, [''range'', ''%P'', ''type'', ''%|ipv4|ipv6'']),
     (42, [''range'', ''%P'', ''tcp'', ''%|flag|flags'', ''%c'']),
     (44, [''range'', ''%P'', ''tcp'', ''seq'', ''%d'', ''%d'', ''%d'', ''%d'']),
     (45, [''range'', ''%P'', ''tcp'', ''ack'', ''%d'', ''%d'', ''%d'', ''%d'']),
     (46, [''range'', ''%P'', ''tcp'', ''seq'', SMMI, ''%d'']),
     (47, [''range'', ''%P'', ''tcp'', ''ack'', SMMI, ''%d'']),
     (50, [''range'', ''%P'', ''dst'', ''port'', SMMI, ''%d'']),
     (51, [''range'', ''%P'', ''src'', ''port'', SMMI, ''%d'']),
     (52, [''range'', ''%P'', ''dst'', ''port'', ''%d'', ''%d'', ''%d'', ''%d'']),
     (53, [''range'', ''%P'', ''src'', ''port'', ''%d'', ''%d'', ''%d'', ''%d'']),
     (55, [''range'', ''%P'', ''ttl'', SMMI, ''%b'']),
     (56, [''range'', ''%P'', ''ttl'', ''%b'', ''%b'', ''%b'', ''%b'']),
     (60, [''range'', ''%P'', ''vlan'', SMMI, ''%d'']),
     (61, [''range'', ''%P'', ''vlan'', ''%d'', ''%d'', ''%d'', ''%d'']),
     (70, [''range'', ''%P'', ''size'', SMMI, ''%d'']),
     (71, [''range'', ''%P'', ''size'', ''%d'', ''%d'', ''%d'', ''%d'']),
     (80, [''range'', ''%P'', ''mpls'', ''entry'', ''%h'']),
     (85, [''range'', ''%P'', ''qinq'', ''index'', ''%d'', ''%d'']),
     (90, [''range'', ''%P'', ''gre'', ''key'', ''%d'']),
     (91, [''range'', ''%P'', ''gre_key'', ''%d'']),
     (100, [''range'', ''%P'', ''gtpu'', SMMI, ''%d'']),
     (101, [''range'', ''%P'', ''gtpu'', ''%d'', ''%d'', ''%d'', ''%d'']),
     (160, [''range'', ''%P'', ''cos'', SMMI, ''%d'']),
     (161, [''range'', ''%P'', ''cos'', ''%d'', ''%d'', ''%d'', ''%d'']),
     (170, [''range'', ''%P'', ''tos'', SMMI, ''%d'']),
     (171, [''range'', ''%P'', ''tos'', ''%d'', ''%d'', ''%d'', ''%d'']),
     (172, [''range'', ''%P'', ''hop_limits'', SMMI, ''%b'']),
     (173, [''range'', ''%P'', ''hop_limits'', ''%d'', ''%d'', ''%d'', ''%d'']),
     (174, [''range'', ''%P'', ''traffic_class'', SMMI, ''%d'']),
     (175, [''range'', ''%P'', ''traffic_class'', ''%d'', ''%d'', ''%d'', ''%d''])]"

definition word_ok :: "string \<Rightarrow> bool" where
  "word_ok w \<longleftrightarrow> w \<noteq> [] \<and> length w \<le> 60 \<and> list_all (\<lambda>c. \<not> isspace c) w"

lemma range_words_ok:
  "word_ok SMMI"
  "word_ok ''range''" "word_ok ''%P''" "word_ok ''dst''" "word_ok ''mac''" "word_ok ''%m''"
  "word_ok ''src''" "word_ok ''ip''" "word_ok ''%4''" "word_ok ''%6''" "word_ok ''proto''"
  "word_ok ''%|tcp|udp''" "word_ok ''type''" "word_ok ''%|ipv4|ipv6''" "word_ok ''tcp''" "word_ok ''%|flag|flags''"
  "word_ok ''%c''" "word_ok ''seq''" "word_ok ''%d''" "word_ok ''ack''" "word_ok ''port''"
  "word_ok ''ttl''" "word_ok ''%b''" "word_ok ''vlan''" "word_ok ''size''" "word_ok ''mpls''"
  "word_ok ''entry''" "word_ok ''%h''" "word_ok ''qinq''" "word_ok ''index''" "word_ok ''gre''"
  "word_ok ''key''" "word_ok ''gre_key''" "word_ok ''gtpu''" "word_ok ''cos''" "word_ok ''tos''"
  "word_ok ''hop_limits''" "word_ok ''traffic_class''"
  by code_simp+

lemma range_map_join: "range_map = map (\<lambda>(i, ws). \<lparr>cm_index = i, cm_fmt = join '' '' ws\<rparr>) range_words"
  by (simp add: range_map_def range_words_def SMMI_def)

lemma range_words_wf: "\<forall>p \<in> set range_words. length (snd p) \<le> 8 \<and> snd p \<noteq> [] \<and> list_all word_ok (snd p)"
  by (simp add: range_words_def range_words_ok)

lemma length_split_at: "length (split_at x s) \<le> length s + 1"
proof (induction s)
  case (Cons c cs)
  then show ?case using split_at_nonempty [of x cs] by (cases "split_at x cs") auto
qed simp

lemma join_words:
  assumes "length ws \<le> 8" and "ws \<noteq> []" and "list_all word_ok ws"
  shows "parts (CHR '' '') (join '' '' ws) = ws" and "plain_template (join '' '' ws)"
proof -
  have w: "\<forall>w \<in> set ws. w \<noteq> [] \<and> length w \<le> 60 \<and> (\<forall>c \<in> set w. \<not> isspace c)" using assms(3) by (auto simp: word_ok_def list_all_iff)
  have "isspace (CHR '' '')" by (simp add: isspace_def)
  then have nb: "\<forall>w \<in> set ws. CHR '' '' \<notin> set w" using w by auto
  have "filter (\<lambda>w. w \<noteq> []) ws = ws" using w by (induction ws) auto
  then show p: "parts (CHR '' '') (join '' '' ws) = ws" using split_at_join [OF assms(2) nb] by (simp add: parts_def)
  have jl: "length (join '' '' vs) \<le> 61 * length vs" if "\<forall>w \<in> set vs. length w \<le> 60" for vs
    using that
  proof (induction vs)
    case (Cons v vs)
    then show ?case by (cases "vs = []") (auto simp: join_Cons)
  qed simp
  have "length (join '' '' ws) \<le> 61 * length ws" using w by (intro jl) blast
  then have "length (join '' '' ws) \<le> 2048" using assms(1) by linarith
  moreover have "length (parts (CHR ''|'') w) \<le> 64" if "w \<in> set ws" for w
  proof -
    have "length (parts (CHR ''|'') w) \<le> length (split_at (CHR ''|'') w)" by (simp add: parts_def)
    moreover have "length w \<le> 60" using w that by blast
    ultimately show ?thesis using length_split_at [of "CHR ''|''" w] by linarith
  qed
  moreover have "\<forall>c \<in> set (join '' '' ws). isspace c \<longrightarrow> c = CHR '' ''"
  proof
    fix c
    assume "c \<in> set (join '' '' ws)"
    then have "c = CHR '' '' \<or> (\<exists>w \<in> set ws. c \<in> set w)" using set_join [of "'' ''" ws] by auto
    then show "isspace c \<longrightarrow> c = CHR '' ''" using w by blast
  qed
  ultimately show "plain_template (join '' '' ws)" using assms(1)
    by (simp add: plain_template_def p list_all_iff CLI_MAX_PATH_LENGTH_def CLI_MAX_ARGVS_def STR_MAX_ARGVS_def)
qed

lemma range_map_plain: "\<forall>m \<in> set range_map. plain_template (cm_fmt m)"
  using range_words_wf join_words(2) by (auto simp: range_map_join)

lemma range_map_words: "map (\<lambda>m. (cm_index m, parts (CHR '' '') (cm_fmt m))) range_map = range_words"
  using range_words_wf join_words(1) by (simp add: range_map_join comp_def case_prod_beta map_idI)

lemma find_image: "map_option f (find (\<lambda>x. Q (g x)) xs) = map_option fst (find (\<lambda>p. Q (snd p)) (map (\<lambda>x. (f x, g x)) xs))"
  by (induction xs) auto

lemma range_variant:
  assumes "\<forall>a \<in> set argv. a \<noteq> []" and "last argv \<noteq> ''?''" and "last argv \<noteq> ''-?''"
    and "find (\<lambda>p. list_all2 fits (snd p) argv) range_words = Some (i, ws)"
  shows "\<exists>m. cli_mapping range_map argv = Some (Some m) \<and> cm_index m = i"
proof -
  define r where "r = find (\<lambda>m. list_all2 fits (parts (CHR '' '') (cm_fmt m)) argv) range_map"
  have "map_option cm_index r = Some i"
    using find_image [of cm_index "\<lambda>ws. list_all2 fits ws argv" "\<lambda>m. parts (CHR '' '') (cm_fmt m)" range_map] assms(4)
    by (simp add: r_def range_map_words)
  then show ?thesis using first_fitting_template [OF range_map_plain assms(1-3)] by (auto simp: r_def [symmetric])
qed


text \<open>The words of a template on the words of a line.\<close>

definition smmi_words :: "string list" where
  "smmi_words = [''start'', ''minimum'', ''maximum'', ''increment'', ''min'', ''max'', ''inc'']"

definition port_arg :: "string \<Rightarrow> bool" where "port_arg a \<longleftrightarrow> some_char (\<lambda>c. isdigit c \<or> c = CHR ''a'') a"

lemma fits_plain: "t \<noteq> [] \<Longrightarrow> hd t \<noteq> CHR ''%'' \<Longrightarrow> fits t a \<longleftrightarrow> t = a"
  by (simp add: fits_def)

lemma fits_choice:
  assumes "os \<noteq> []" and "\<forall>w \<in> set os. w \<noteq> [] \<and> CHR ''|'' \<notin> set w"
  shows "fits (''%|'' @ join ''|'' os) a \<longleftrightarrow> a \<in> set os"
proof -
  have "filter (\<lambda>w. w \<noteq> []) os = os" using assms(2) by (induction os) auto
  then have "parts (CHR ''|'') (join ''|'' os) = os" using split_at_join [of os "CHR ''|''"] assms by (simp add: parts_def)
  then show ?thesis by (simp add: fits_def)
qed

lemma fits_SMMI: "fits SMMI a \<longleftrightarrow> a \<in> set smmi_words"
proof -
  have "SMMI = ''%|'' @ join ''|'' smmi_words" by (simp add: SMMI_def smmi_words_def)
  then show ?thesis using fits_choice [of smmi_words a] by (simp add: smmi_words_def)
qed

lemma fits_formats:
  "fits ''%P'' a \<longleftrightarrow> port_arg a" "fits ''%d'' a \<longleftrightarrow> some_char isdigit a" "fits ''%b'' a \<longleftrightarrow> some_char isdigit a"
  "fits ''%h'' a \<longleftrightarrow> some_char isxdigit a" "fits ''%m'' a \<longleftrightarrow> some_char isxdigit a" "fits ''%c'' a \<longleftrightarrow> some_char isprint a"
  "fits ''%4'' a \<longleftrightarrow> map_option fst (atoip a (CHR ''/'' \<in> set a)) = Some 4"
  by (simp_all add: fits_def port_arg_def)

lemma fits_options: "fits ''%|tcp|udp'' a \<longleftrightarrow> a \<in> set [''tcp'', ''udp'']" "fits ''%|flag|flags'' a \<longleftrightarrow> a \<in> set [''flag'', ''flags'']"
  using fits_choice [of "[''tcp'', ''udp'']" a] fits_choice [of "[''flag'', ''flags'']" a] by simp_all

lemmas fits_rules = fits_plain fits_SMMI fits_formats fits_options

definition selects :: "string list \<Rightarrow> int \<Rightarrow> bool" where
  "selects argv i \<longleftrightarrow> map_option fst (find (\<lambda>p. list_all2 fits (snd p) argv) range_words) = Some i"

lemma selects_values:
  assumes "port_arg p" and "w \<in> set smmi_words" and "some_char isdigit v"
  shows "selects [''range'', p, ''src'', ''port'', w, v] 51"
    and "selects [''range'', p, ''dst'', ''port'', w, v] 50"
    and "selects [''range'', p, ''tcp'', ''seq'', w, v] 46"
    and "selects [''range'', p, ''tcp'', ''ack'', w, v] 47"
    and "selects [''range'', p, ''ttl'', w, v] 55"
    and "selects [''range'', p, ''vlan'', w, v] 60"
    and "selects [''range'', p, ''size'', w, v] 70"
    and "selects [''range'', p, ''cos'', w, v] 160"
    and "selects [''range'', p, ''tos'', w, v] 170"
    and "selects [''range'', p, ''gtpu'', w, v] 100"
  using assms by (simp_all add: selects_def range_words_def fits_rules)

lemma selects_addresses:
  assumes "port_arg p" and "w \<in> set smmi_words"
  shows "some_char isxdigit v \<Longrightarrow> selects [''range'', p, ''dst'', ''mac'', w, v] 20"
    and "some_char isxdigit v \<Longrightarrow> selects [''range'', p, ''src'', ''mac'', w, v] 21"
    and "fits ''%4'' v \<Longrightarrow> selects [''range'', p, ''dst'', ''ip'', w, v] 30"
    and "fits ''%4'' v \<Longrightarrow> selects [''range'', p, ''src'', ''ip'', w, v] 31"
  using assms by (simp_all add: selects_def range_words_def fits_plain fits_SMMI fits_formats(1-6))

lemma selects_others:
  assumes "port_arg p"
  shows "w \<in> set [''tcp'', ''udp''] \<Longrightarrow> selects [''range'', p, ''proto'', w] 40"
    and "some_char isprint v \<Longrightarrow> selects [''range'', p, ''tcp'', ''flags'', v] 42"
    and "some_char isdigit v \<Longrightarrow> selects [''range'', p, ''gre'', ''key'', v] 90"
  using assms by (simp_all add: selects_def range_words_def fits_rules)


section \<open>The limits of the ranges\<close>

text \<open>A constructor leaves the ranges and the Ethernet types of the templates alone.\<close>

lemma randomize_type: "ethType (randomize env pinfo pkt) = ethType pkt"
  by (simp add: randomize_def Let_def)

lemma link_layer_type: "link_layer pinfo ident pkt m = (l3, pkt2, m2, ident2) \<Longrightarrow> ethType pkt2 = ethType pkt"
  by (auto simp: link_layer_def pktgen_gre_hdr_ctor_def pktgen_gre_ether_hdr_ctor_def pktgen_ether_hdr_ctor_def Let_def split: if_splits)

lemma ipv4_packet_type: "ipv4_packet env pinfo entropy ty l3 ident pkt m = Some (p, m1, i) \<Longrightarrow> ethType p = ethType pkt"
  by (auto simp: ipv4_packet_def Let_def split: if_splits option.splits)

lemma ctor_keeps:
  assumes "pktgen_packet_ctor env i ty b = Some b'"
  shows "p_range (b_pinfo b') = p_range (b_pinfo b)" and "length (seq_pkt (b_pinfo b')) = length (seq_pkt (b_pinfo b))"
    and "ethType (seq_pkt (b_pinfo b') ! j) = ethType (seq_pkt (b_pinfo b) ! j)"
proof -
  let ?q = "b_pinfo b"
  obtain p where p: "b_pinfo b' = upd_pkt i (\<lambda>_. p) ?q" "ethType p = ethType (seq_pkt ?q ! i)"
    using assms unfolding pktgen_packet_ctor_def
    by (auto simp: Let_def set_hdr_def randomize_type split: option.splits prod.splits if_splits
      dest!: link_layer_type ipv4_packet_type)
  then show "p_range (b_pinfo b') = p_range ?q" "length (seq_pkt (b_pinfo b')) = length (seq_pkt ?q)" by simp_all
  show "ethType (seq_pkt (b_pinfo b') ! j) = ethType (seq_pkt ?q ! j)"
    using p by (cases "i < length (seq_pkt ?q)") (auto simp: upd_pkt_def nth_list_update not_less list_update_beyond)
qed


lemma limits_same:
  assumes "range_limits flags p" and "r_vlan_id (p_range p') = r_vlan_id (p_range p)" and "r_src_port (p_range p') = r_src_port (p_range p)"
    and "r_dst_port (p_range p') = r_dst_port (p_range p)" and "r_cos (p_range p') = r_cos (p_range p)"
    and "r_pkt_size (p_range p') = r_pkt_size (p_range p)" and "length (seq_pkt p') = length (seq_pkt p)"
    and "ethType (seq_pkt p' ! RANGE_PKT) = ethType (seq_pkt p ! RANGE_PKT)"
  shows "range_limits flags p'"
  using assms by (simp add: range_limits_def)

lemma range_act_limits:
  assumes "range_limits flags (b_pinfo b)" and "do_range_act flags env a b = Some b'"
  shows "range_limits flags (b_pinfo b')"
proof -
  have len: "length (seq_pkt (b_pinfo b)) = NUM_TOTAL_PKTS" using assms(1) by (simp add: range_limits_def)
  have c: "range_limits flags (b_pinfo b')"
    if "pktgen_packet_ctor env i (-1) (b\<lparr>b_pinfo := upd_pkt i f (b_pinfo b)\<rparr>) = Some b'" and "i < NUM_TOTAL_PKTS"
      and "\<And>p. ethType (f p) = ethType p" for i f
    using ctor_keeps [OF that(1)] that(2,3) len by (intro limits_same [OF assms(1)]) simp_all
  show ?thesis
  proof (cases a)
    case (Act r)
    then show ?thesis using assms range_cmd_limits [OF assms(1), of r] by (auto split: if_splits option.splits)
  next
    case (Set_tcp_flags s)
    then show ?thesis using assms len
      by (auto simp: range_set_tcp_flags_def Let_def range_in_20 intro!: limits_same [OF assms(1)])
  qed (use assms in \<open>auto simp: range_set_mpls_entry_def range_set_qinqids_def range_set_gre_key_def pkt_consts intro: c\<close>)
qed

lemma range_acts_limits:
  "range_limits flags (b_pinfo b) \<Longrightarrow> do_range_acts flags env as b = Some b' \<Longrightarrow> range_limits flags (b_pinfo b')"
proof (induction "as" arbitrary: b)
  case (Cons a "as")
  then show ?case using range_act_limits by (fastforce split: option.splits)
qed simp

text \<open>The same for all ports of the list.\<close>

definition ports_ok :: "u32 \<Rightarrow> cli_ports \<Rightarrow> bool" where
  "ports_ok flags st \<longleftrightarrow> (\<forall>pid. seq_pkt (b_pinfo (cp_port st pid)) = [] \<or> range_limits flags (b_pinfo (cp_port st pid)))"

lemma foreach_keeps:
  assumes "\<And>pid b b'. range_limits flags (b_pinfo b) \<Longrightarrow> action pid b = Some b' \<Longrightarrow> range_limits flags (b_pinfo b')"
  shows "ports_ok flags st \<Longrightarrow> foreach_port pl action pids st = Some st' \<Longrightarrow> ports_ok flags st'"
proof (induction pids arbitrary: st)
  case (Cons pid pids)
  let ?b = "(cp_port st pid)\<lparr>b_ident := cp_ident st\<rparr>"
  show ?case
  proof (cases "pl AND push_bit pid 1 = 0 \<or> seq_pkt (b_pinfo (cp_port st pid)) = []")
    case True
    then show ?thesis using Cons by (auto split: if_splits)
  next
    case False
    then obtain b where b: "action pid ?b = Some b"
      "foreach_port pl action pids \<lparr>cp_port = (cp_port st)(pid := b), cp_ident = b_ident b\<rparr> = Some st'"
      using Cons.prems(2) by (auto split: option.splits)
    have "range_limits flags (b_pinfo ?b)" using False Cons.prems(1) by (auto simp: ports_ok_def)
    then have "range_limits flags (b_pinfo b)" using assms b(1) by blast
    then have "ports_ok flags \<lparr>cp_port = (cp_port st)(pid := b), cp_ident = b_ident b\<rparr>"
      using Cons.prems(1) by (simp add: ports_ok_def)
    then show ?thesis using Cons.IH b(2) by blast
  qed
qed simp

lemma range_cmd_keeps: "ports_ok (ce_flags env) st \<Longrightarrow> range_cmd env argv st = Some (r, st') \<Longrightarrow> ports_ok (ce_flags env) st'"
  using foreach_keeps [where flags = "ce_flags env" and action = "\<lambda>pid. do_range_acts (ce_flags env) (ce_build env pid) acts" for acts]
    range_acts_limits
  by (fastforce simp: range_cmd_def split: option.splits)


fun range_lines :: "cli_env \<Rightarrow> string list \<Rightarrow> cli_ports \<Rightarrow> cli_ports option" where
  "range_lines env [] st = Some st"
| "range_lines env (l # ls) st = (case range_line env l st of None \<Rightarrow> None | Some (_, st1) \<Rightarrow> range_lines env ls st1)"

lemma range_lines_keep: "ports_ok (ce_flags env) st \<Longrightarrow> range_lines env ls st = Some st' \<Longrightarrow> ports_ok (ce_flags env) st'"
proof (induction ls arbitrary: st)
  case (Cons l ls)
  then obtain r st1 where 1: "range_line env l st = Some (r, st1)" "range_lines env ls st1 = Some st'" by (auto split: option.splits)
  then obtain argv where "range_cmd env argv st = Some (r, st1)" by (auto simp: range_line_def split: option.splits if_splits)
  then show ?case using Cons.IH Cons.prems(1) 1(2) range_cmd_keeps by blast
qed simp

section \<open>A line for one port\<close>

definition plain_word :: "string \<Rightarrow> bool" where
  "plain_word w \<longleftrightarrow> w \<noteq> [] \<and> CHR 0x5C \<notin> set w \<and> list_all (\<lambda>c. \<not> isspace c) w \<and> hd w \<notin> set [CHR 0x22, CHR 0x27, CHR ''{'']"

lemma line_words:
  assumes "argv \<noteq> []" and "list_all plain_word argv" and "length argv \<le> 64"
  shows "pg_strqtok (join '' '' argv) ('' '' @ [CHR 0x0D, CHR 0x0A]) CLI_MAX_ARGVS = Some argv"
proof -
  let ?qs = "map (Pair WORD) argv" and ?delim = "'' '' @ [CHR 0x0D, CHR 0x0A]"
  have d: "isspace c" if "c \<in> set ?delim" for c using that by (auto simp: isspace_def)
  have "qword_ok ?delim (WORD, w)" if "plain_word w" for w
    using that d by (auto simp: qword_ok_def plain_word_def list_all_iff)
  then have "\<forall>q \<in> set ?qs. qword_ok ?delim q" using assms(2) by (auto simp: list_all_iff)
  then have "pg_strqtok (join '' '' (map qtext ?qs)) ?delim CLI_MAX_ARGVS = Some (map snd ?qs)"
    using assms(1,3) by (intro qloop_line) (auto simp: hd_map CLI_MAX_ARGVS_def)
  then show ?thesis by (simp add: qtext_def comp_def)
qed

lemma portlist_single: "i < 32 \<Longrightarrow> snd (portlist_parse (dec i) nb old) = push_bit i 1"
proof -
  assume i: "i < 32"
  have d: "list_all isdigit (dec i)" by (rule dec_digits)
  have nd: "c \<notin> set (dec i)" if "\<not> isdigit c" for c using d that by (auto simp: list_all_iff)
  have "\<not> isdigit (CHR ''a'')" "\<not> isdigit (CHR '','')" by code_simp+
  then have "CHR ''a'' \<notin> set (dec i)" "CHR '','' \<notin> set (dec i)" using nd by blast+
  then have ne: "dec i \<noteq> ''all''" "CHR '','' \<notin> set (dec i)" by auto
  have sp: "\<forall>c \<in> set (dec i). \<not> isspace c" using d digit_class by (auto simp: list_all_iff)
  have "strtok_loop '','' MAX_SPLIT (join '','' [dec i]) = map pg_strtrim [dec i]"
    using ne by (intro strtok_join) (auto simp: MAX_SPLIT_def)
  moreover have "pg_strtrim (dec i) = dec i" using sp by (intro pg_strtrim_id) simp
  ultimately have "pg_strtok (dec i) '','' MAX_SPLIT = Some [dec i]" by (simp add: pg_strtok_def MAX_SPLIT_def)
  moreover have "item_range (dec i) = Some (i, i)" using item_range_text [of i i] i by (simp add: range_text_def)
  ultimately show ?thesis using i ne
    by (simp add: portlist_parse_def set_portlist_bits.simps RTE_MAX_ETHPORTS_def)
qed

lemma foreach_single:
  assumes "distinct pids" and "\<forall>p \<in> set pids. p < 64" and "i < 64"
  shows "foreach_port (push_bit i 1) action pids st =
    (if i \<notin> set pids \<or> seq_pkt (b_pinfo (cp_port st i)) = [] then Some st
     else map_option (\<lambda>b. \<lparr>cp_port = (cp_port st)(i := b), cp_ident = b_ident b\<rparr>) (action i ((cp_port st i)\<lparr>b_ident := cp_ident st\<rparr>)))"
  using assms(1,2)
proof (induction pids arbitrary: st)
  case (Cons pid pids)
  have "(push_bit i 1 :: u64) AND push_bit pid 1 = 0 \<longleftrightarrow> pid \<noteq> i"
    using Cons.prems(2) assms(3) by (auto simp: and_exp_eq_0_iff_not_bit bit_simps)
  then show ?case using Cons by (auto split: option.split)
qed simp


text \<open>The port that a line acts on, with the common counter, and the ports with this one replaced.\<close>

definition cur_port :: "nat \<Rightarrow> cli_ports \<Rightarrow> build" where
  "cur_port i st = (cp_port st i)\<lparr>b_ident := cp_ident st\<rparr>"

definition with_port :: "nat \<Rightarrow> build \<Rightarrow> cli_ports \<Rightarrow> cli_ports" where
  "with_port i b st = \<lparr>cp_port = (cp_port st)(i := b), cp_ident = b_ident b\<rparr>"

lemma with_port_simps [simp]:
  "cur_port i (with_port i b st) = b" "with_port i b2 (with_port i b1 st) = with_port i b2 st"
  "cp_port (with_port i b st) i = b"
  by (simp_all add: cur_port_def with_port_def)

definition one_port :: "cli_env \<Rightarrow> nat \<Rightarrow> bool" where
  "one_port env i \<longleftrightarrow> i < 32 \<and> i \<in> set (ce_devs env) \<and> distinct (ce_devs env) \<and> (\<forall>p \<in> set (ce_devs env). p < 64)"

text \<open>A line for one port and what it does there.\<close>

definition line_does :: "nat \<Rightarrow> string \<Rightarrow> range_act list \<Rightarrow> bool" where
  "line_does i line acts \<longleftrightarrow> (\<exists>ws k. line = join '' '' (''range'' # dec i # ws) \<and> ws \<noteq> [] \<and> length ws \<le> 60 \<and> list_all plain_word ws
     \<and> last ws \<noteq> ''?'' \<and> last ws \<noteq> ''-?'' \<and> selects (''range'' # dec i # ws) k \<and> range_switch k (''range'' # dec i # ws) = Some acts)"

lemma digits_plain: "list_all isdigit w \<Longrightarrow> w \<noteq> [] \<Longrightarrow> plain_word w"
proof -
  assume "list_all isdigit w" "w \<noteq> []"
  moreover have "isdigit c \<Longrightarrow> c \<noteq> CHR 0x5C \<and> \<not> isspace c \<and> c \<notin> set [CHR 0x22, CHR 0x27, CHR ''{'']" for c
    by (auto simp: isspace_def xdigit_def char_code_def Let_def)
  ultimately show ?thesis by (cases w) (auto simp: plain_word_def list_all_iff)
qed

lemma range_line_one:
  assumes "one_port env i" and "seq_pkt (b_pinfo (cp_port st i)) \<noteq> []" and "line_does i line acts"
  shows "range_line env line st =
    map_option (\<lambda>b. (0, with_port i b st)) (do_range_acts (ce_flags env) (ce_build env i) acts (cur_port i st))"
proof -
  obtain ws k where l: "line = join '' '' (''range'' # dec i # ws)" "ws \<noteq> []" "length ws \<le> 60" "list_all plain_word ws"
      "last ws \<noteq> ''?''" "last ws \<noteq> ''-?''" "selects (''range'' # dec i # ws) k" "range_switch k (''range'' # dec i # ws) = Some acts"
    using assms(3) by (auto simp: line_does_def)
  let ?argv = "''range'' # dec i # ws"
  have "plain_word (dec i)" using dec_digits by (intro digits_plain) auto
  moreover have "plain_word ''range''" by (simp add: plain_word_def isspace_def)
  ultimately have pw: "list_all plain_word ?argv" using l(4) by simp
  have tok: "pg_strqtok line ('' '' @ [CHR 0x0D, CHR 0x0A]) CLI_MAX_ARGVS = Some ?argv"
    unfolding l(1) using pw l(3) by (intro line_words) auto
  have "\<forall>a \<in> set ?argv. a \<noteq> []" using pw by (auto simp: list_all_iff plain_word_def)
  moreover obtain ws' where "find (\<lambda>p. list_all2 fits (snd p) ?argv) range_words = Some (k, ws')"
    using l(7) by (auto simp: selects_def)
  ultimately obtain m where m: "cli_mapping range_map ?argv = Some (Some m)" "cm_index m = k"
    using range_variant [of ?argv k ws'] l(2,5,6) by auto
  have i: "i < 32" "i < 64" using assms(1) by (auto simp: one_port_def)
  have "foreach_port (push_bit i 1) (\<lambda>pid. do_range_acts (ce_flags env) (ce_build env pid) acts) (ce_devs env) st =
      map_option (\<lambda>b. with_port i b st) (do_range_acts (ce_flags env) (ce_build env i) acts (cur_port i st))"
    using foreach_single [of "ce_devs env" i _ st] assms(1,2) i(2) by (simp add: one_port_def with_port_def cur_port_def)
  then have "range_cmd env ?argv st =
      map_option (\<lambda>b. (0, with_port i b st)) (do_range_acts (ce_flags env) (ce_build env i) acts (cur_port i st))"
    using m l(8) portlist_single [OF i(1)] by (simp add: range_cmd_def option.map_comp comp_def)
  then show ?thesis unfolding range_line_def tok by simp
qed

lemma do_range_acts_append:
  "do_range_acts flags env (as @ bs) b = (case do_range_acts flags env as b of None \<Rightarrow> None | Some b1 \<Rightarrow> do_range_acts flags env bs b1)"
  by (induction "as" arbitrary: b) (auto split: option.split)

text \<open>The templates of a port stay allocated.\<close>

lemma range_acts_alloc: "range_limits flags (b_pinfo b) \<Longrightarrow> do_range_acts flags env as b = Some b' \<Longrightarrow> seq_pkt (b_pinfo b') \<noteq> []"
  using range_acts_limits [of flags b env "as" b'] by (auto simp: range_limits_def pkt_consts)

text \<open>Lines for one port have the effect of their actions in turn.\<close>

lemma range_lines_one:
  assumes "one_port env i" and "ls \<noteq> []" and "list_all2 (line_does i) ls ass" and "range_limits (ce_flags env) (b_pinfo (cp_port st i))"
    and "do_range_acts (ce_flags env) (ce_build env i) (concat ass) (cur_port i st) = Some b"
  shows "range_lines env ls st = Some (with_port i b st)"
  using assms(3,2,4,5)
proof (induction arbitrary: st rule: list_all2_induct)
  case (Cons l ls "as" ass)
  obtain b1 where b1: "do_range_acts (ce_flags env) (ce_build env i) as (cur_port i st) = Some b1"
    "do_range_acts (ce_flags env) (ce_build env i) (concat ass) b1 = Some b"
    using Cons.prems(3) by (auto simp: do_range_acts_append split: option.splits)
  have alloc: "seq_pkt (b_pinfo (cp_port st i)) \<noteq> []" using Cons.prems(2) by (auto simp: range_limits_def pkt_consts)
  have line: "range_line env l st = Some (0, with_port i b1 st)" using range_line_one [OF assms(1) alloc Cons.hyps(1)] b1(1) by simp
  have lim: "range_limits (ce_flags env) (b_pinfo b1)"
    using range_acts_limits [OF _ b1(1)] Cons.prems(2) by (simp add: cur_port_def)
  show ?case
  proof (cases "ls = []")
    case True
    then show ?thesis using line b1(2) Cons.hyps(2) by simp
  next
    case False
    then show ?thesis using line Cons.IH [OF False, of "with_port i b1 st"] lim b1(2) by simp
  qed
qed simp


subsection \<open>Lines with numbers\<close>

lemma some_digit: "list_all isdigit v \<Longrightarrow> v \<noteq> [] \<Longrightarrow> some_char isdigit v \<and> port_arg v \<and> some_char isxdigit v \<and> some_char isprint v"
proof -
  assume v: "list_all isdigit v" "v \<noteq> []"
  have "isdigit c \<Longrightarrow> isxdigit c \<and> isprint c" for c by (auto simp: isxdigit_def isprint_def xdigit_def Let_def split: if_splits)
  then show ?thesis using v by (cases v) (auto simp: some_char_def port_arg_def)
qed

lemma atoi_dec: "n < 2 ^ 63 \<Longrightarrow> atoi (dec n) = of_nat n"
  using strtol_dec [of n "[]"] by (simp add: atoi_def)

lemma atoi_word [simp]:
  "ucast (atoi (dec (unat v))) = v" "ucast (atoi (dec (unat x))) = x" "atoi (dec (unat y)) = y" for v :: u16 and x :: u8 and y :: u32
proof -
  have w: "unat v < 2 ^ 16" "unat x < 2 ^ 8" "unat y < 2 ^ 32"
    using unsigned_less [where ?'a = nat, of v] unsigned_less [where ?'a = nat, of x] unsigned_less [where ?'a = nat, of y] by simp_all
  have "(ucast (ucast v :: u32) :: u16) = v" "(ucast (ucast x :: u32) :: u8) = x" by (rule bit_word_eqI, simp add: bit_simps)+
  then show "ucast (atoi (dec (unat v))) = v" "ucast (atoi (dec (unat x))) = x" using w(1,2) by (simp_all add: atoi_dec)
  show "atoi (dec (unat y)) = y" using w(3) by (simp add: atoi_dec)
qed

lemma digits_help: "list_all isdigit v \<Longrightarrow> v \<noteq> ''?'' \<and> v \<noteq> ''-?''"
proof -
  have "\<not> isdigit (CHR ''?'')" by code_simp
  then show "list_all isdigit v \<Longrightarrow> ?thesis" by auto
qed

lemma smmi_plain: "w \<in> set smmi_words \<Longrightarrow> plain_word w"
  by (auto simp: smmi_words_def plain_word_def isspace_def)

lemma line_value:
  assumes "list_all plain_word cs" and "length cs \<le> 3" and "w \<in> set smmi_words"
    and "\<And>p v. port_arg p \<Longrightarrow> some_char isdigit v \<Longrightarrow> selects (''range'' # p # cs @ [w, v]) k"
    and "range_switch k (''range'' # dec i # cs @ [w, dec n]) = Some acts"
  shows "line_does i (join '' '' (''range'' # dec i # cs @ [w, dec n])) acts"
proof -
  have d: "list_all isdigit (dec j)" "dec j \<noteq> []" for j using dec_digits by auto
  have "selects (''range'' # dec i # cs @ [w, dec n]) k" using assms(4) some_digit [OF d] by blast
  then show ?thesis unfolding line_does_def
    using assms smmi_plain digits_plain [OF d] digits_help [OF d(1)] by (intro exI [of _ "cs @ [w, dec n]"] exI [of _ k]) auto
qed

lemma value_words: "list_all plain_word [''src'', ''port'']" "list_all plain_word [''dst'', ''port'']" "list_all plain_word [''tcp'', ''seq'']"
  "list_all plain_word [''tcp'', ''ack'']" "list_all plain_word [''ttl'']" "list_all plain_word [''vlan'']" "list_all plain_word [''size'']"
  "list_all plain_word [''cos'']" "list_all plain_word [''tos'']"
  by (simp_all add: plain_word_def isspace_def)

lemma lines_value:
  assumes "w \<in> set smmi_words"
  shows "line_does i (join '' '' [''range'', dec i, ''src'', ''port'', w, dec n]) [Act (Src_port w (ucast (atoi (dec n))))]"
    and "line_does i (join '' '' [''range'', dec i, ''dst'', ''port'', w, dec n]) [Act (Dst_port w (ucast (atoi (dec n))))]"
    and "line_does i (join '' '' [''range'', dec i, ''tcp'', ''seq'', w, dec n]) [Act (Tcp_seq w (ucast (atoi (dec n))))]"
    and "line_does i (join '' '' [''range'', dec i, ''tcp'', ''ack'', w, dec n]) [Act (Tcp_ack w (ucast (atoi (dec n))))]"
    and "line_does i (join '' '' [''range'', dec i, ''ttl'', w, dec n]) [Act (Ttl w (ucast (atoi (dec n))))]"
    and "line_does i (join '' '' [''range'', dec i, ''vlan'', w, dec n]) [Act (Vlan_id w (ucast (atoi (dec n))))]"
    and "line_does i (join '' '' [''range'', dec i, ''cos'', w, dec n]) [Act (Cos_id w (ucast (atoi (dec n))))]"
    and "line_does i (join '' '' [''range'', dec i, ''tos'', w, dec n]) [Act (Tos_id w (ucast (atoi (dec n))))]"
    and "line_does i (join '' '' [''range'', dec i, ''size'', w, dec n])
      [Act (Pkt_size w (ucast (atoi (if w \<noteq> ''inc'' then dec n else w))))]"
  using line_value [OF value_words(1) _ assms, of 51 i n] line_value [OF value_words(2) _ assms, of 50 i n]
    line_value [OF value_words(3) _ assms, of 46 i n] line_value [OF value_words(4) _ assms, of 47 i n]
    line_value [OF value_words(5) _ assms, of 55 i n] line_value [OF value_words(6) _ assms, of 60 i n]
    line_value [OF value_words(8) _ assms, of 160 i n] line_value [OF value_words(9) _ assms, of 170 i n]
    line_value [OF value_words(7) _ assms, of 70 i n] selects_values [OF _ assms]
  by (simp_all add: range_switch_def num_acts_def)

text \<open>The increment of the packet size is read from the word \<open>inc\<close> instead of the number behind it.\<close>

lemma size_increment_is_zero:
  "range_switch 70 [''range'', p, ''size'', ''inc'', v] = Some [Act (Pkt_size ''inc'' 0)]"
proof -
  have "strto 10 ''inc'' = (False, 0, ''inc'')" by code_simp
  then have "atoi ''inc'' = 0" by (simp add: atoi_def strtol_def)
  then show ?thesis by (simp add: range_switch_def num_acts_def)
qed

text \<open>A tunnel identifier loses its upper half, and an address with a prefix length, which the template accepts, is never converted.\<close>

lemma teid_truncated: "range_switch 100 [''range'', ''0'', ''gtpu'', ''start'', ''65537''] = Some [Act (Gtpu_teid ''start'' 1)]"
proof -
  have "list_all isdigit ''65537''" by code_simp
  then have "strto 10 ''65537'' = (False, num_val 10 ''65537'', '''')" using strto_digits [of "''65537''" "[]"] by simp
  then have "atoi ''65537'' = 65537" by (simp add: atoi_def strtol_def num_val_def xdigit_def char_code_def)
  then show ?thesis by (simp add: range_switch_def valid_gtpu_teid_def)
qed

lemma address_with_prefix: "range_switch 30 [''range'', ''0'', ''dst'', ''ip'', ''min'', ''10.0.0.1/24''] = Some [No_address]"
proof -
  have "atoip ''10.0.0.1/24'' False = None" by code_simp
  then show ?thesis by (simp add: range_switch_def)
qed

text \<open>The handler knows every variant of its table.\<close>

lemma range_switch_covers: "\<forall>m \<in> set range_map. range_switch (cm_index m) argv \<noteq> None"
  by (simp add: range_map_def range_switch_def Let_def)

text \<open>
  C14 The limits of the ranges at the command line: when the ranges of every port are set up, any sequence of range
  lines, however malformed, keeps on every port the VLAN ids, the increments and the packet sizes within the limits of
  the commands, unless a line makes the program use an address it never wrote.
\<close>

theorem range_lines_keep_limits:
  assumes "\<And>pid. seq_pkt (b_pinfo (cp_port st pid)) = [] \<or>
      (\<exists>p. b_pinfo (cp_port st pid) = pktgen_range_setup (ce_flags env) p \<and> length (seq_pkt p) = NUM_TOTAL_PKTS
        \<and> ethType (seq_pkt p ! RANGE_PKT) \<noteq> RTE_ETHER_TYPE_IPV6
        \<and> MIN_VLAN_ID \<le> pk_vlanid (seq_pkt p ! SINGLE_PKT) \<and> pk_vlanid (seq_pkt p ! SINGLE_PKT) \<le> MAX_VLAN_ID)"
    and "range_lines env ls st = Some st'"
  shows "seq_pkt (b_pinfo (cp_port st' pid)) = [] \<or> range_limits (ce_flags env) (b_pinfo (cp_port st' pid))"
proof -
  have "ports_ok (ce_flags env) st" unfolding ports_ok_def using assms(1) setup_limits by metis
  then show ?thesis using range_lines_keep [OF _ assms(2)] by (auto simp: ports_ok_def)
qed


definition range_env0 :: cli_env where
  "range_env0 = \<lparr>ce_flags = 0, ce_nb_ports = 1, ce_devs = [0], ce_build = (\<lambda>_. \<lparr>be_fill = ABC_FILL_PATTERN,
     be_user_pattern = [], be_jumbo = False, be_ipv4_offload = False, be_tcp_offload = False, be_udp_offload = False,
     be_requires_phdr = False, be_entropy = 0, be_time = 0, be_rnd_ip = 0, be_rnd_pt = 0\<rparr>)\<rparr>"

definition range_ports0 :: cli_ports where
  "range_ports0 = \<lparr>cp_port = (\<lambda>_. \<lparr>b_pinfo = pktgen_range_setup 0 sample_port, b_hdr = [], b_ident = 0, b_next_index = 0\<rparr>), cp_ident = 0\<rparr>"

lemma sample_setup:
  "b_pinfo (cp_port range_ports0 pid) = pktgen_range_setup (ce_flags range_env0) sample_port"
  "length (seq_pkt sample_port) = NUM_TOTAL_PKTS" "ethType (seq_pkt sample_port ! RANGE_PKT) \<noteq> RTE_ETHER_TYPE_IPV6"
  "MIN_VLAN_ID \<le> pk_vlanid (seq_pkt sample_port ! SINGLE_PKT)" "pk_vlanid (seq_pkt sample_port ! SINGLE_PKT) \<le> MAX_VLAN_ID"
  by (simp_all add: range_ports0_def range_env0_def sample_port_def pkt_consts) (simp_all add: sample_pkt_def)

theorem range_lines_keep_limits_witness:
  "\<exists>st'. range_lines range_env0 [join '' '' [''range'', dec 0, ''vlan'', ''max'', dec 9999], join '' '' [''range'', dec 0, ''size'', ''min'', dec 7]]
      range_ports0 = Some st' \<and> (seq_pkt (b_pinfo (cp_port st' 0)) = [] \<or> range_limits 0 (b_pinfo (cp_port st' 0)))"
proof -
  let ?ls = "[join '' '' [''range'', dec 0, ''vlan'', ''max'', dec 9999], join '' '' [''range'', dec 0, ''size'', ''min'', dec 7]]"
  have does: "list_all2 (line_does 0) ?ls [[Act (Vlan_id ''max'' (ucast (atoi (dec 9999))))], [Act (Pkt_size ''min'' (ucast (atoi (dec 7))))]]"
    using lines_value(6) [of "''max''" 0 9999] lines_value(9) [of "''min''" 0 7] by (simp add: smmi_words_def)
  have one: "one_port range_env0 0" by (simp add: one_port_def range_env0_def)
  have lim: "range_limits 0 (b_pinfo (cp_port range_ports0 0))"
    using setup_limits [OF sample_setup(2-5), of 0] by (simp add: range_ports0_def)
  obtain st' where st': "range_lines range_env0 ?ls range_ports0 = Some st'"
    using range_lines_one [OF one _ does] lim by (auto simp: range_env0_def addr_written_def)
  have init: "\<exists>p. b_pinfo (cp_port range_ports0 pid) = pktgen_range_setup (ce_flags range_env0) p \<and> length (seq_pkt p) = NUM_TOTAL_PKTS
      \<and> ethType (seq_pkt p ! RANGE_PKT) \<noteq> RTE_ETHER_TYPE_IPV6
      \<and> MIN_VLAN_ID \<le> pk_vlanid (seq_pkt p ! SINGLE_PKT) \<and> pk_vlanid (seq_pkt p ! SINGLE_PKT) \<le> MAX_VLAN_ID" for pid
    using sample_setup by blast
  have "seq_pkt (b_pinfo (cp_port st' 0)) = [] \<or> range_limits (ce_flags range_env0) (b_pinfo (cp_port st' 0))"
    using range_lines_keep_limits [of range_ports0 range_env0 ?ls st' 0] init st' by blast
  then show ?thesis using st' by (simp add: range_env0_def)
qed

end
