(* ===== verification/RangeSave.thy ===== *)
theory RangeSave
  imports RangeCli
begin

text \<open>
  The ranges of a port in a saved configuration (\<open>pktgen_script_save\<close> of \<open>app/pktgen-cmds.c\<close>) and what they become when
  the lines are executed again.
\<close>

section \<open>The saved lines\<close>

text \<open>
  A line \<open>range <port> ...\<close>; the empty lines between the groups are not listed, nor is the line \<open>range <port> gre key\<close>
  before those of the packet size, which concerns no range.
\<close>

definition save_line :: "nat \<Rightarrow> string \<Rightarrow> string" where
  "save_line i s = ''range '' @ dec i @ '' '' @ s"

definition span_lines :: "nat \<Rightarrow> string \<Rightarrow> ('v \<Rightarrow> string) \<Rightarrow> ('i \<Rightarrow> string) \<Rightarrow> ('v, 'i) span \<Rightarrow> string list" where
  "span_lines i f tv ti sp =
     [save_line i (f @ '' start '' @ tv (sp_start sp)), save_line i (f @ '' min '' @ tv (sp_min sp)),
      save_line i (f @ '' max '' @ tv (sp_max sp)), save_line i (f @ '' inc '' @ ti (sp_inc sp))]"

definition mac_text :: "u64 \<Rightarrow> string" where "mac_text v = inet_mtoa 64 (inet_h64tom v)"

definition ip_text :: "u8 list \<Rightarrow> string" where
  "ip_text bs = (case inet_ntop4 64 (ntohl (ipv4_of bs)) 0xFFFFFFFF of Some t \<Rightarrow> t | None \<Rightarrow> [])"

definition num_text :: "'w::len word \<Rightarrow> string" where "num_text v = dec (unat v)"

definition proto_text :: "u16 \<Rightarrow> string" where
  "proto_text p = (if p = PG_IPPROTO_UDP then ''udp'' else if p = PG_IPPROTO_ICMP then ''icmp'' else ''tcp'')"

definition flags_text :: "u8 \<Rightarrow> string" where
  "flags_text v = (case tcp_str_from_flags (ucast v) 128 of Some t \<Rightarrow> t | None \<Rightarrow> [])"

definition saved_range_lines :: "nat \<Rightarrow> range_info \<Rightarrow> string list" where
  "saved_range_lines i rg =
     span_lines i ''src mac'' mac_text mac_text (r_src_mac rg)
     @ span_lines i ''dst mac'' mac_text mac_text (r_dst_mac rg)
     @ span_lines i ''src ip'' ip_text ip_text (r_src_ip rg)
     @ span_lines i ''dst ip'' ip_text ip_text (r_dst_ip rg)
     @ [save_line i (''proto '' @ proto_text (r_ip_proto rg))]
     @ span_lines i ''src port'' num_text num_text (r_src_port rg)
     @ span_lines i ''dst port'' num_text num_text (r_dst_port rg)
     @ [save_line i (''tcp flags '' @ flags_text (r_tcp_flags rg))]
     @ span_lines i ''tcp seq'' num_text num_text (r_tcp_seq rg)
     @ span_lines i ''tcp ack'' num_text num_text (r_tcp_ack rg)
     @ span_lines i ''ttl'' num_text num_text (r_ttl rg)
     @ span_lines i ''vlan'' num_text num_text (r_vlan_id rg)
     @ span_lines i ''cos'' num_text num_text (r_cos rg)
     @ span_lines i ''tos'' num_text num_text (r_tos rg)"

definition saved_size_lines :: "nat \<Rightarrow> range_info \<Rightarrow> string list" where
  "saved_size_lines i rg =
     (let size_text = \<lambda>v :: u16. dec (unat v + unat RTE_ETHER_CRC_LEN) in
      span_lines i ''size'' size_text num_text (r_pkt_size rg))"

section \<open>What the lines do\<close>

definition four_acts :: "(string \<Rightarrow> 'v \<Rightarrow> range_cmd) \<Rightarrow> ('v, 'v) span \<Rightarrow> range_act list" where
  "four_acts setter sp = [Act (setter ''start'' (sp_start sp)), Act (setter ''min'' (sp_min sp)), Act (setter ''max'' (sp_max sp)),
     Act (setter ''inc'' (sp_inc sp))]"

definition span_as :: "('v \<Rightarrow> 'a) \<Rightarrow> ('i \<Rightarrow> 'b) \<Rightarrow> ('v, 'i) span \<Rightarrow> ('a, 'b) span" where
  "span_as f g sp = \<lparr>sp_start = f (sp_start sp), sp_min = f (sp_min sp), sp_max = f (sp_max sp), sp_inc = g (sp_inc sp)\<rparr>"

lemma span_as_sel [simp]:
  "sp_start (span_as f g sp) = f (sp_start sp)" "sp_min (span_as f g sp) = f (sp_min sp)"
  "sp_max (span_as f g sp) = f (sp_max sp)" "sp_inc (span_as f g sp) = g (sp_inc sp)"
  by (simp_all add: span_as_def)

lemma smmi_four: "''start'' \<in> set smmi_words" "''min'' \<in> set smmi_words" "''max'' \<in> set smmi_words" "''inc'' \<in> set smmi_words"
  by (simp_all add: smmi_words_def)

lemma smmi_three: "w \<in> set [''start'', ''min'', ''max''] \<Longrightarrow> w \<in> set smmi_words"
  by (auto simp: smmi_words_def)

lemma join_append: "xs \<noteq> [] \<Longrightarrow> ys \<noteq> [] \<Longrightarrow> join sep (xs @ ys) = join sep xs @ sep @ join sep ys"
  by (induction xs rule: induct_list012) (auto simp: join_Cons)

lemma save_line_words:
  assumes "fs \<noteq> []"
  shows "save_line i (join '' '' fs @ '' '' @ w @ '' '' @ t) = join '' '' (''range'' # dec i # fs @ [w, t])"
  using assms by (simp add: save_line_def join_append join_Cons)

text \<open>The four lines of a span.\<close>

lemma span_does:
  assumes "fs \<noteq> []" and "f = join '' '' fs"
    and "\<And>w v. w \<in> set [''start'', ''min'', ''max''] \<Longrightarrow> line_does i (join '' '' (''range'' # dec i # fs @ [w, tv v])) [Act (setter w (g v))]"
    and "\<And>v. line_does i (join '' '' (''range'' # dec i # fs @ [''inc'', ti v])) [Act (setter ''inc'' (h v))]"
  shows "list_all2 (line_does i) (span_lines i f tv ti sp) (map (\<lambda>a. [a]) (four_acts setter (span_as g h sp)))"
proof -
  have w: "save_line i (f @ '' start '' @ t) = join '' '' (''range'' # dec i # fs @ [''start'', t])"
    "save_line i (f @ '' min '' @ t) = join '' '' (''range'' # dec i # fs @ [''min'', t])"
    "save_line i (f @ '' max '' @ t) = join '' '' (''range'' # dec i # fs @ [''max'', t])"
    "save_line i (f @ '' inc '' @ t) = join '' '' (''range'' # dec i # fs @ [''inc'', t])" for t
    using save_line_words [OF assms(1), of i "''start''"] save_line_words [OF assms(1), of i "''min''"]
      save_line_words [OF assms(1), of i "''max''"] save_line_words [OF assms(1), of i "''inc''"] by (simp_all add: assms(2))
  show ?thesis unfolding span_lines_def four_acts_def w span_as_sel list.map
    using assms(3) [of "''start''"] assms(3) [of "''min''"] assms(3) [of "''max''"] assms(4)
    by (simp only: list_all2_Cons list_all2_Nil simp_thms list.set_intros)
qed

lemma atoi_u16: "atoi (dec (unat v)) = ucast v" for v :: u16
proof -
  have "unat v < 2 ^ 16" using unsigned_less [where ?'a = nat, of v] by simp
  then show ?thesis by (simp add: atoi_dec)
qed

text \<open>The numbers.\<close>

lemma num_does:
  fixes v :: u16 and x :: u8 and y :: u32
  assumes "w \<in> set smmi_words"
  shows "line_does i (join '' '' (''range'' # dec i # [''src'', ''port''] @ [w, num_text v])) [Act (Src_port w v)]"
    and "line_does i (join '' '' (''range'' # dec i # [''dst'', ''port''] @ [w, num_text v])) [Act (Dst_port w v)]"
    and "line_does i (join '' '' (''range'' # dec i # [''vlan''] @ [w, num_text v])) [Act (Vlan_id w v)]"
    and "line_does i (join '' '' (''range'' # dec i # [''ttl''] @ [w, num_text x])) [Act (Ttl w x)]"
    and "line_does i (join '' '' (''range'' # dec i # [''tcp'', ''seq''] @ [w, num_text y])) [Act (Tcp_seq w y)]"
    and "line_does i (join '' '' (''range'' # dec i # [''tcp'', ''seq''] @ [w, num_text v])) [Act (Tcp_seq w (ucast v))]"
    and "line_does i (join '' '' (''range'' # dec i # [''tcp'', ''ack''] @ [w, num_text y])) [Act (Tcp_ack w y)]"
    and "line_does i (join '' '' (''range'' # dec i # [''tcp'', ''ack''] @ [w, num_text v])) [Act (Tcp_ack w (ucast v))]"
    and "line_does i (join '' '' (''range'' # dec i # [''cos''] @ [w, num_text x])) [Act (Cos_id w x)]"
    and "line_does i (join '' '' (''range'' # dec i # [''cos''] @ [w, num_text v])) [Act (Cos_id w (ucast v))]"
    and "line_does i (join '' '' (''range'' # dec i # [''tos''] @ [w, num_text x])) [Act (Tos_id w x)]"
    and "line_does i (join '' '' (''range'' # dec i # [''tos''] @ [w, num_text v])) [Act (Tos_id w (ucast v))]"
proof -
  have r: "(ucast (ucast v :: u32) :: u8) = ucast v" "(ucast (ucast v :: u32) :: u16) = v" by (rule bit_word_eqI, simp add: bit_simps)+
  note l = lines_value [OF assms, of i]
  show "line_does i (join '' '' (''range'' # dec i # [''src'', ''port''] @ [w, num_text v])) [Act (Src_port w v)]"
    using l(1) [of "unat v"] by (simp only: num_text_def append.simps atoi_u16 r atoi_word ucast_id)
  show "line_does i (join '' '' (''range'' # dec i # [''dst'', ''port''] @ [w, num_text v])) [Act (Dst_port w v)]"
    using l(2) [of "unat v"] by (simp only: num_text_def append.simps atoi_u16 r atoi_word ucast_id)
  show "line_does i (join '' '' (''range'' # dec i # [''vlan''] @ [w, num_text v])) [Act (Vlan_id w v)]"
    using l(6) [of "unat v"] by (simp only: num_text_def append.simps atoi_u16 r atoi_word ucast_id)
  show "line_does i (join '' '' (''range'' # dec i # [''ttl''] @ [w, num_text x])) [Act (Ttl w x)]"
    using l(5) [of "unat x"] by (simp only: num_text_def append.simps atoi_u16 r atoi_word ucast_id)
  show "line_does i (join '' '' (''range'' # dec i # [''tcp'', ''seq''] @ [w, num_text y])) [Act (Tcp_seq w y)]"
    using l(3) [of "unat y"] by (simp only: num_text_def append.simps atoi_u16 r atoi_word ucast_id)
  show "line_does i (join '' '' (''range'' # dec i # [''tcp'', ''seq''] @ [w, num_text v])) [Act (Tcp_seq w (ucast v))]"
    using l(3) [of "unat v"] by (simp only: num_text_def append.simps atoi_u16 r atoi_word ucast_id)
  show "line_does i (join '' '' (''range'' # dec i # [''tcp'', ''ack''] @ [w, num_text y])) [Act (Tcp_ack w y)]"
    using l(4) [of "unat y"] by (simp only: num_text_def append.simps atoi_u16 r atoi_word ucast_id)
  show "line_does i (join '' '' (''range'' # dec i # [''tcp'', ''ack''] @ [w, num_text v])) [Act (Tcp_ack w (ucast v))]"
    using l(4) [of "unat v"] by (simp only: num_text_def append.simps atoi_u16 r atoi_word ucast_id)
  show "line_does i (join '' '' (''range'' # dec i # [''cos''] @ [w, num_text x])) [Act (Cos_id w x)]"
    using l(7) [of "unat x"] by (simp only: num_text_def append.simps atoi_u16 r atoi_word ucast_id)
  show "line_does i (join '' '' (''range'' # dec i # [''cos''] @ [w, num_text v])) [Act (Cos_id w (ucast v))]"
    using l(7) [of "unat v"] by (simp only: num_text_def append.simps atoi_u16 r atoi_word ucast_id)
  show "line_does i (join '' '' (''range'' # dec i # [''tos''] @ [w, num_text x])) [Act (Tos_id w x)]"
    using l(8) [of "unat x"] by (simp only: num_text_def append.simps atoi_u16 r atoi_word ucast_id)
  show "line_does i (join '' '' (''range'' # dec i # [''tos''] @ [w, num_text v])) [Act (Tos_id w (ucast v))]"
    using l(8) [of "unat v"] by (simp only: num_text_def append.simps atoi_u16 r atoi_word ucast_id)
qed

lemma num_lines:
  "list_all2 (line_does i) (span_lines i ''src port'' num_text num_text sp16) (map (\<lambda>a. [a]) (four_acts Src_port (span_as (\<lambda>v. v) (\<lambda>v. v) sp16)))"
  "list_all2 (line_does i) (span_lines i ''dst port'' num_text num_text sp16) (map (\<lambda>a. [a]) (four_acts Dst_port (span_as (\<lambda>v. v) (\<lambda>v. v) sp16)))"
  "list_all2 (line_does i) (span_lines i ''vlan'' num_text num_text sp16) (map (\<lambda>a. [a]) (four_acts Vlan_id (span_as (\<lambda>v. v) (\<lambda>v. v) sp16)))"
  "list_all2 (line_does i) (span_lines i ''ttl'' num_text num_text sp8) (map (\<lambda>a. [a]) (four_acts Ttl (span_as (\<lambda>v. v) (\<lambda>v. v) sp8)))"
  "list_all2 (line_does i) (span_lines i ''tcp seq'' num_text num_text sp32) (map (\<lambda>a. [a]) (four_acts Tcp_seq (span_as (\<lambda>v. v) ucast sp32)))"
  "list_all2 (line_does i) (span_lines i ''tcp ack'' num_text num_text sp32) (map (\<lambda>a. [a]) (four_acts Tcp_ack (span_as (\<lambda>v. v) ucast sp32)))"
  "list_all2 (line_does i) (span_lines i ''cos'' num_text num_text spc) (map (\<lambda>a. [a]) (four_acts Cos_id (span_as (\<lambda>v. v) ucast spc)))"
  "list_all2 (line_does i) (span_lines i ''tos'' num_text num_text spc) (map (\<lambda>a. [a]) (four_acts Tos_id (span_as (\<lambda>v. v) ucast spc)))"
  for sp16 :: "(u16, u16) span" and sp8 :: "(u8, u8) span" and sp32 :: "(u32, u16) span" and spc :: "(u8, u16) span"
proof -
  show "list_all2 (line_does i) (span_lines i ''src port'' num_text num_text sp16) (map (\<lambda>a. [a]) (four_acts Src_port (span_as (\<lambda>v. v) (\<lambda>v. v) sp16)))"
    by (rule span_does [where fs = "[''src'', ''port'']"], simp, simp, rule num_does(1), erule smmi_three, rule num_does(1), rule smmi_four)
  show "list_all2 (line_does i) (span_lines i ''dst port'' num_text num_text sp16) (map (\<lambda>a. [a]) (four_acts Dst_port (span_as (\<lambda>v. v) (\<lambda>v. v) sp16)))"
    by (rule span_does [where fs = "[''dst'', ''port'']"], simp, simp, rule num_does(2), erule smmi_three, rule num_does(2), rule smmi_four)
  show "list_all2 (line_does i) (span_lines i ''vlan'' num_text num_text sp16) (map (\<lambda>a. [a]) (four_acts Vlan_id (span_as (\<lambda>v. v) (\<lambda>v. v) sp16)))"
    by (rule span_does [where fs = "[''vlan'']"], simp, simp, rule num_does(3), erule smmi_three, rule num_does(3), rule smmi_four)
  show "list_all2 (line_does i) (span_lines i ''ttl'' num_text num_text sp8) (map (\<lambda>a. [a]) (four_acts Ttl (span_as (\<lambda>v. v) (\<lambda>v. v) sp8)))"
    by (rule span_does [where fs = "[''ttl'']"], simp, simp, rule num_does(4), erule smmi_three, rule num_does(4), rule smmi_four)
  show "list_all2 (line_does i) (span_lines i ''tcp seq'' num_text num_text sp32) (map (\<lambda>a. [a]) (four_acts Tcp_seq (span_as (\<lambda>v. v) ucast sp32)))"
    by (rule span_does [where fs = "[''tcp'', ''seq'']"], simp, simp, rule num_does(5), erule smmi_three, rule num_does(6), rule smmi_four)
  show "list_all2 (line_does i) (span_lines i ''tcp ack'' num_text num_text sp32) (map (\<lambda>a. [a]) (four_acts Tcp_ack (span_as (\<lambda>v. v) ucast sp32)))"
    by (rule span_does [where fs = "[''tcp'', ''ack'']"], simp, simp, rule num_does(7), erule smmi_three, rule num_does(8), rule smmi_four)
  show "list_all2 (line_does i) (span_lines i ''cos'' num_text num_text spc) (map (\<lambda>a. [a]) (four_acts Cos_id (span_as (\<lambda>v. v) ucast spc)))"
    by (rule span_does [where fs = "[''cos'']"], simp, simp, rule num_does(9), erule smmi_three, rule num_does(10), rule smmi_four)
  show "list_all2 (line_does i) (span_lines i ''tos'' num_text num_text spc) (map (\<lambda>a. [a]) (four_acts Tos_id (span_as (\<lambda>v. v) ucast spc)))"
    by (rule span_does [where fs = "[''tos'']"], simp, simp, rule num_does(11), erule smmi_three, rule num_does(12), rule smmi_four)
qed


text \<open>The sizes: they are saved with the checksum, and the increment is lost.\<close>

lemma size_lines: "list_all2 (line_does i) (saved_size_lines i rg)
    (map (\<lambda>a. [a]) (four_acts Pkt_size (span_as (\<lambda>v. v + 4) (\<lambda>_. 0) (r_pkt_size rg))))"
proof -
  have "line_does i (join '' '' (''range'' # dec i # [''size''] @ [w, dec (unat v + unat RTE_ETHER_CRC_LEN)])) [Act (Pkt_size w (v + 4))]"
    if w: "w \<in> set [''start'', ''min'', ''max'']" for w v
  proof -
    have "w \<in> set smmi_words" "w \<noteq> ''inc''" using w by (auto simp: smmi_words_def)
    note l = lines_value(9) [OF this(1), of i "unat v + 4"] this(2)
    have "unat v < 2 ^ 16" using unsigned_less [where ?'a = nat, of v] by simp
    then have a: "atoi (dec (unat v + 4)) = of_nat (unat v + 4)" by (intro atoi_dec) simp
    have "(ucast (of_nat k :: u32) :: u16) = of_nat k" for k
      by (rule bit_word_eqI) (simp add: bit_simps)
    then have "(ucast (of_nat (unat v + 4) :: u32) :: u16) = of_nat (unat v + 4)" .
    also have "\<dots> = v + 4" by simp
    finally have "ucast (atoi (dec (unat v + 4))) = v + 4" unfolding a .
    then show ?thesis using l by (simp add: RTE_ETHER_CRC_LEN_def)
  qed
  moreover have "line_does i (join '' '' (''range'' # dec i # [''size''] @ [''inc'', num_text v])) [Act (Pkt_size ''inc'' 0)]" for v :: u16
  proof -
    have "strto 10 ''inc'' = (False, 0, ''inc'')" by code_simp
    then have "atoi ''inc'' = 0" by (simp add: atoi_def strtol_def)
    then show ?thesis using lines_value(9) [OF smmi_four(4), of i "unat v"] by (simp add: num_text_def)
  qed
  ultimately show ?thesis unfolding saved_size_lines_def Let_def
    by (intro span_does [where fs = "[''size'']"]) (simp_all only: join.simps list.simps simp_thms)
qed

lemma line_doesI:
  assumes "ws \<noteq> []" and "length ws \<le> 60" and "list_all plain_word ws" and "last ws \<noteq> ''?''" and "last ws \<noteq> ''-?''"
    and "selects (''range'' # dec i # ws) k" and "range_switch k (''range'' # dec i # ws) = Some acts"
  shows "line_does i (join '' '' (''range'' # dec i # ws)) acts"
  using assms by (auto simp: line_does_def)

lemma port_arg_dec: "port_arg (dec i)"
  using some_digit [OF dec_digits] by simp

text \<open>The MAC addresses.\<close>

lemma mac_text_plain: "plain_word (mac_text v) \<and> some_char isxdigit (mac_text v) \<and> mac_text v \<noteq> ''?'' \<and> mac_text v \<noteq> ''-?''"
proof -
  have l: "length (inet_h64tom v) = 6" by (simp add: inet_h64tom_def)
  have m: "mac_text v = join '':'' (map hex2 (inet_h64tom v))" by (simp add: mac_text_def mac_printed l)
  obtain b bs where bs: "inet_h64tom v = b # bs" "bs \<noteq> []" by (simp add: inet_h64tom_def)
  have h: "\<exists>n < 16. c = hexdigit n" if "c \<in> set (hex2 x)" for c x using hex2_digits [of x] that by auto
  have c: "isxdigit c \<and> \<not> isspace c \<and> c \<notin> set [CHR 0x5C, CHR 0x22, CHR 0x27, CHR ''{'']" if "c = hexdigit n" "n < 16" for c n
  proof -
    have "xdigit c < 16" using that hexdigit_less by simp
    then show ?thesis by (auto simp: isxdigit_def isspace_def xdigit_def char_code_def Let_def)
  qed
  have colon: "\<not> isspace (CHR '':'')" by (simp add: isspace_def)
  obtain r where r: "mac_text v = hex2 b @ r" using bs by (simp add: m join_Cons)
  have all: "\<not> isspace x \<and> x \<noteq> CHR 0x5C" if "x \<in> set (mac_text v)" for x
  proof -
    have "x = CHR '':'' \<or> (\<exists>n < 16. x = hexdigit n)" using that h set_join [of "'':''" "map hex2 (inet_h64tom v)"] by (auto simp: m)
    then show ?thesis using c colon by auto
  qed
  have hd: "\<exists>n < 16. hd (mac_text v) = hexdigit n" "length (mac_text v) \<ge> 2" using h [of "hd (hex2 b)" b] by (simp_all add: r hex2_def)
  then obtain n where n: "n < 16" "hd (mac_text v) = hexdigit n" by blast
  have ne: "mac_text v \<noteq> []" using hd(2) by auto
  have "\<not> isxdigit (CHR ''-'')" "\<not> isxdigit (CHR ''?'')" by (simp_all add: isxdigit_def xdigit_def char_code_def)
  then have "hd (mac_text v) \<noteq> CHR ''?''" "hd (mac_text v) \<noteq> CHR ''-''" using c [OF n(2,1)] by auto
  moreover have "some_char isxdigit (mac_text v)" using c [OF n(2,1)] ne by (cases "mac_text v") (auto simp: some_char_def)
  ultimately show ?thesis using all ne c [OF n(2,1)] by (auto simp: plain_word_def list_all_iff)
qed


lemma mac_does:
  assumes "w \<in> set smmi_words"
  shows "line_does i (join '' '' (''range'' # dec i # [''src'', ''mac''] @ [w, mac_text v])) [Act (Src_mac w (inet_h64tom v))]"
    and "line_does i (join '' '' (''range'' # dec i # [''dst'', ''mac''] @ [w, mac_text v])) [Act (Dest_mac w (inet_h64tom v))]"
proof -
  note m = mac_text_plain [of v]
  have e: "pg_ether_aton (mac_text v) = Some (inet_h64tom v)" by (simp add: mac_text_def ether_aton_mtoa inet_h64tom_def)
  have "list_all plain_word [''src'', ''mac'', w, mac_text v]" "list_all plain_word [''dst'', ''mac'', w, mac_text v]"
    using m smmi_plain [OF assms] by (simp_all add: plain_word_def isspace_def)
  then show "line_does i (join '' '' (''range'' # dec i # [''src'', ''mac''] @ [w, mac_text v])) [Act (Src_mac w (inet_h64tom v))]"
    "line_does i (join '' '' (''range'' # dec i # [''dst'', ''mac''] @ [w, mac_text v])) [Act (Dest_mac w (inet_h64tom v))]"
    using m selects_addresses(1,2) [OF port_arg_dec assms] e
    by (intro line_doesI [where k = 21] line_doesI [where k = 20]; simp add: range_switch_def mac_acts_def)+
qed

text \<open>The IPv4 addresses.\<close>

lemma ip_text_reads:
  "atoip (ip_text bs) False = Some (4, \<lparr>ia_family = AF_INET, ia_addr = put_le32 (ntohl (ipv4_of bs)), ia_prefixlen = 0\<rparr>)"
  "ip_text bs = ntop4_text (put_le32 (ntohl (ipv4_of bs)))"
proof -
  let ?a = "put_le32 (ntohl (ipv4_of bs))"
  have l: "length ?a = 4" by (simp add: bytes_simps)
  show t: "ip_text bs = ntop4_text ?a" using length_ntop4 [OF l] by (simp add: ip_text_def inet_ntop4_def)
  have "inet_ipton4 (ntop4_text ?a) = Some ?a" by (rule ipton4_ntop4(1) [OF l])
  moreover have "ntop4_text ?a \<noteq> []" using calculation by (auto simp: inet_ipton4_def)
  moreover have "\<forall>c \<in> set (ntop4_text ?a). \<not> rte_isendoftoken c" using ntop4_no_slash(2) [of _ ?a 0] by auto
  ultimately show "atoip (ip_text bs) False = Some (4, \<lparr>ia_family = AF_INET, ia_addr = ?a, ia_prefixlen = 0\<rparr>)"
    using atoip_v4 [of "ntop4_text ?a" False "ntop4_text ?a" "Some 0" ?a] length_ntop4 [OF l]
    by (simp add: t atoip_prefix_def RTE_V4PREFIXMAX_def)
qed

lemma ip_text_plain: "plain_word (ip_text bs) \<and> ip_text bs \<noteq> ''?'' \<and> ip_text bs \<noteq> ''-?'' \<and> fits ''%4'' (ip_text bs)"
proof -
  have ne: "ip_text bs \<noteq> []" using ip_text_reads(1) [of bs] by (auto simp: atoip_def)
  have c: "isdigit c \<or> c = CHR ''.''" if "c \<in> set (ip_text bs)" for c using ntop4_chars that by (auto simp: ip_text_reads(2))
  have b: "\<not> isspace c \<and> c \<notin> set [CHR 0x5C, CHR 0x22, CHR 0x27, CHR ''{'', CHR ''?'', CHR ''-'', CHR ''/'']" if "isdigit c \<or> c = CHR ''.''" for c
    using that by (auto simp: isspace_def xdigit_def char_code_def Let_def)
  have s: "\<not> isspace c \<and> c \<notin> set [CHR 0x5C, CHR 0x22, CHR 0x27, CHR ''{'', CHR ''?'', CHR ''-'', CHR ''/'']" if "c \<in> set (ip_text bs)" for c
    by (rule b [OF c [OF that]])
  have h: "hd (ip_text bs) \<in> set (ip_text bs)" using ne by simp
  have "plain_word (ip_text bs)" using ne s [OF h] s by (simp add: plain_word_def list_all_iff) blast
  moreover have "ip_text bs \<noteq> ''?''" "ip_text bs \<noteq> ''-?''" using s [OF h] by (metis list.sel(1) list.set_intros)+
  moreover have "CHR ''/'' \<notin> set (ip_text bs)" using s by (metis list.set_intros)
  ultimately show ?thesis using ip_text_reads(1) [of bs] by (simp add: fits_formats)
qed

lemma ip_does:
  assumes "w \<in> set smmi_words"
  shows "line_does i (join '' '' (''range'' # dec i # [''src'', ''ip''] @ [w, ip_text v])) [Act (Src_ip w (put_le32 (ntohl (ipv4_of v))))]"
    and "line_does i (join '' '' (''range'' # dec i # [''dst'', ''ip''] @ [w, ip_text v])) [Act (Dst_ip w (put_le32 (ntohl (ipv4_of v))))]"
proof -
  note m = ip_text_plain [of v]
  have slash: "before_slash w = w" using assms by (auto simp: smmi_words_def before_slash_def)
  have "list_all plain_word [''src'', ''ip'', w, ip_text v]" "list_all plain_word [''dst'', ''ip'', w, ip_text v]"
    using m smmi_plain [OF assms] by (simp_all add: plain_word_def isspace_def)
  then show "line_does i (join '' '' (''range'' # dec i # [''src'', ''ip''] @ [w, ip_text v])) [Act (Src_ip w (put_le32 (ntohl (ipv4_of v))))]"
    "line_does i (join '' '' (''range'' # dec i # [''dst'', ''ip''] @ [w, ip_text v])) [Act (Dst_ip w (put_le32 (ntohl (ipv4_of v))))]"
    using m selects_addresses(3,4) [OF port_arg_dec assms] ip_text_reads(1)
    by (intro line_doesI [where k = 31] line_doesI [where k = 30]; simp add: range_switch_def slash)+
qed


text \<open>The protocol and the flags.\<close>

lemma proto_does:
  assumes "p = PG_IPPROTO_TCP \<or> p = PG_IPPROTO_UDP"
  shows "line_does i (save_line i (''proto '' @ proto_text p)) [Act (Set_proto (proto_text p))]"
proof -
  have w: "proto_text p \<in> set [''tcp'', ''udp'']" using assms by (auto simp: proto_text_def PG_IPPROTO_ICMP_def PG_IPPROTO_TCP_def)
  then have "list_all plain_word [''proto'', proto_text p]" by (auto simp: plain_word_def isspace_def)
  then have "line_does i (join '' '' (''range'' # dec i # [''proto'', proto_text p])) [Act (Set_proto (proto_text p))]"
    using w selects_others(1) [OF port_arg_dec w] by (intro line_doesI [where k = 40]) (auto simp: range_switch_def)
  moreover have "save_line i (''proto '' @ proto_text p) = join '' '' (''range'' # dec i # [''proto'', proto_text p])" by (simp add: save_line_def)
  ultimately show ?thesis by simp
qed

lemma flags_text_reads: "(ucast (tcp_flags_from_str (flags_text v)) :: u8) = v"
proof -
  obtain s where s: "tcp_str_from_flags (ucast v) 128 = Some s" "tcp_flags_from_str s = ucast v AND TCP_FLAGS_MASK"
    using tcp_flags_restored by blast
  have "(ucast (ucast v AND TCP_FLAGS_MASK :: u16) :: u8) = v"
  proof (rule bit_word_eqI)
    fix n
    assume "n < LENGTH(8)"
    moreover have m: "TCP_FLAGS_MASK = mask 12" by (simp add: TCP_FLAGS_MASK_def mask_eq_exp_minus_1)
    ultimately show "bit (ucast (ucast v AND TCP_FLAGS_MASK :: u16) :: u8) n = bit v n" unfolding m by (simp add: bit_simps)
  qed
  then show ?thesis by (simp add: flags_text_def s)
qed

lemma flags_text_plain: "plain_word (flags_text v) \<and> some_char isprint (flags_text v) \<and> flags_text v \<noteq> ''?'' \<and> flags_text v \<noteq> ''-?''"
proof (cases "(ucast v :: u16) AND TCP_FLAGS_MASK = 0")
  case True
  then have "flags_text v = ''clr''" by (simp add: flags_text_def tcp_str_from_flags_def)
  then show ?thesis by (simp add: plain_word_def isspace_def some_char_def isprint_def char_code_def)
next
  case False
  define fs where "fs = set_flags (ucast v) TCP_FLAGS_LIST"
  have t: "flags_text v = join '','' (map fst fs)" using tcp_flags_printed [OF False] by (simp add: flags_text_def fs_def)
  have ne: "fs \<noteq> []"
  proof
    assume "fs = []"
    then have "(ucast v :: u16) AND TCP_FLAGS_MASK = 0" using flag_fields [of TCP_FLAGS_LIST 0 "ucast v"]
      by (simp add: fs_def) (simp add: TCP_FLAGS_LIST_def TCP_FLAGS_MASK_def bit.conj_disj_distrib [symmetric])
    then show False using False by simp
  qed
  have names: "\<forall>f \<in> set TCP_FLAGS_LIST. plain_word (fst f) \<and> isprint (hd (fst f)) \<and> hd (fst f) \<notin> set ''?-'' "
    by (simp add: TCP_FLAGS_LIST_def plain_word_def isspace_def isprint_def char_code_def)
  then have n: "\<forall>f \<in> set fs. plain_word (fst f) \<and> isprint (hd (fst f)) \<and> hd (fst f) \<notin> set ''?-''"
    by (auto simp: fs_def set_flags_def)
  obtain f fs' where f: "fs = f # fs'" using ne by (cases fs) auto
  have fne: "fst f \<noteq> []" using n by (auto simp: f plain_word_def)
  then have hd: "hd (flags_text v) = hd (fst f)" "flags_text v \<noteq> []" by (cases "fs' = []"; simp add: t f join_Cons)+
  have c: "\<forall>c \<in> set (flags_text v). \<not> isspace c \<and> c \<noteq> CHR 0x5C"
  proof
    fix c
    assume "c \<in> set (flags_text v)"
    then have "c = CHR '','' \<or> (\<exists>g \<in> set fs. c \<in> set (fst g))" using set_join [of "'',''" "map fst fs"] by (auto simp: t)
    then show "\<not> isspace c \<and> c \<noteq> CHR 0x5C" using n by (auto simp: plain_word_def list_all_iff isspace_def)
  qed
  have "plain_word (fst f)" "isprint (hd (fst f))" "hd (fst f) \<notin> set ''?-''" using n by (auto simp: f)
  then have "plain_word (flags_text v)" "isprint (hd (flags_text v))" "hd (flags_text v) \<notin> set ''?-''"
    using c hd by (auto simp: plain_word_def list_all_iff)
  then show ?thesis using hd(2) by (cases "flags_text v") (auto simp: some_char_def)
qed

lemma flags_does: "line_does i (save_line i (''tcp flags '' @ flags_text v)) [Set_tcp_flags (flags_text v)]"
proof -
  have "list_all plain_word [''tcp'', ''flags'', flags_text v]" using flags_text_plain [of v] by (simp add: plain_word_def isspace_def)
  then have "line_does i (join '' '' (''range'' # dec i # [''tcp'', ''flags'', flags_text v])) [Set_tcp_flags (flags_text v)]"
    using flags_text_plain [of v] selects_others(2) [OF port_arg_dec] by (intro line_doesI [where k = 42]) (auto simp: range_switch_def)
  moreover have "save_line i (''tcp flags '' @ flags_text v) = join '' '' (''range'' # dec i # [''tcp'', ''flags'', flags_text v])"
    by (simp add: save_line_def)
  ultimately show ?thesis by simp
qed


section \<open>The state after the lines\<close>

lemma span_four: "sp\<lparr>sp_start := a, sp_min := b, sp_max := c, sp_inc := d\<rparr> = \<lparr>sp_start = a, sp_min = b, sp_max = c, sp_inc = d\<rparr>"
  for sp :: "('v, 'i) span" by (cases sp) simp

lemma span_surj: "\<lparr>sp_start = sp_start sp, sp_min = sp_min sp, sp_max = sp_max sp, sp_inc = sp_inc sp\<rparr> = sp"
  for sp :: "('v, 'i) span" by (cases sp) simp

lemma span_inc: "\<lparr>sp_start = sp_start sp, sp_min = sp_min sp, sp_max = sp_max sp, sp_inc = k\<rparr> = sp\<lparr>sp_inc := k\<rparr>"
  for sp :: "('v, 'i) span" by (cases sp) simp

lemma upd_range_upd: "upd_range f (upd_range g p) = upd_range (\<lambda>rg. f (g rg)) p" by (simp add: upd_range_def)

lemma set_words [simp]:
  "set_member ''start'' v sp = sp\<lparr>sp_start := v\<rparr>" "set_member ''min'' v sp = sp\<lparr>sp_min := v\<rparr>" "set_member ''max'' v sp = sp\<lparr>sp_max := v\<rparr>"
  "set_span ''start'' v k sp = sp\<lparr>sp_start := v\<rparr>" "set_span ''min'' v k sp = sp\<lparr>sp_min := v\<rparr>"
  "set_span ''max'' v k sp = sp\<lparr>sp_max := v\<rparr>" "set_span ''inc'' v k sp = sp\<lparr>sp_inc := k\<rparr>"
  "\<not> is_inc ''start''" "\<not> is_inc ''min''" "\<not> is_inc ''max''" "is_inc ''inc''"
  by (simp_all add: set_span_def set_member_def is_inc_def is_min_def is_max_def)

lemmas acts_simps = four_acts_def addr_written_def upd_range_upd span_four span_surj not_less

lemma four_numbers:
  fixes sp :: "(u16, u16) span" and sp' :: "(u8, u8) span" and sq :: "(u32, u16) span"
  shows "sp_inc sp \<le> 64 \<Longrightarrow> do_range_acts flags env (four_acts Src_port (span_as (\<lambda>v. v) (\<lambda>v. v) sp)) b =
     Some (b\<lparr>b_pinfo := upd_range (\<lambda>rg. rg\<lparr>r_src_port := sp\<rparr>) (b_pinfo b)\<rparr>)"
    and "sp_inc sp \<le> 64 \<Longrightarrow> do_range_acts flags env (four_acts Dst_port (span_as (\<lambda>v. v) (\<lambda>v. v) sp)) b =
     Some (b\<lparr>b_pinfo := upd_range (\<lambda>rg. rg\<lparr>r_dst_port := sp\<rparr>) (b_pinfo b)\<rparr>)"
    and "all_of (\<lambda>v. MIN_VLAN_ID \<le> v \<and> v \<le> MAX_VLAN_ID) sp \<Longrightarrow> sp_inc sp \<le> 64 \<Longrightarrow> do_range_acts flags env (four_acts Vlan_id (span_as (\<lambda>v. v) (\<lambda>v. v) sp)) b =
     Some (b\<lparr>b_pinfo := upd_range (\<lambda>rg. rg\<lparr>r_vlan_id := sp\<rparr>) (b_pinfo b)\<rparr>)"
    and "do_range_acts flags env (four_acts Ttl (span_as (\<lambda>v. v) (\<lambda>v. v) sp')) b =
     Some (b\<lparr>b_pinfo := upd_range (\<lambda>rg. rg\<lparr>r_ttl := sp'\<rparr>) (b_pinfo b)\<rparr>)"
    and "do_range_acts flags env (four_acts Tcp_seq (span_as (\<lambda>v. v) ucast sq)) b =
     Some (b\<lparr>b_pinfo := upd_range (\<lambda>rg. rg\<lparr>r_tcp_seq := sq\<rparr>) (b_pinfo b)\<rparr>)"
    and "do_range_acts flags env (four_acts Tcp_ack (span_as (\<lambda>v. v) ucast sq)) b =
     Some (b\<lparr>b_pinfo := upd_range (\<lambda>rg. rg\<lparr>r_tcp_ack := sq\<rparr>) (b_pinfo b)\<rparr>)"
proof -
  have u: "(ucast (ucast v :: u32) :: u16) = v" for v :: u16 by (rule bit_word_eqI) (simp add: bit_simps)
  show "do_range_acts flags env (four_acts Src_port (span_as (\<lambda>v. v) (\<lambda>v. v) sp)) b =
     Some (b\<lparr>b_pinfo := upd_range (\<lambda>rg. rg\<lparr>r_src_port := sp\<rparr>) (b_pinfo b)\<rparr>)" if "sp_inc sp \<le> 64"
    using that by (simp add: acts_simps range_set_src_port_def)
  show "do_range_acts flags env (four_acts Dst_port (span_as (\<lambda>v. v) (\<lambda>v. v) sp)) b =
     Some (b\<lparr>b_pinfo := upd_range (\<lambda>rg. rg\<lparr>r_dst_port := sp\<rparr>) (b_pinfo b)\<rparr>)" if "sp_inc sp \<le> 64"
    using that by (simp add: acts_simps range_set_dst_port_def)
  show "do_range_acts flags env (four_acts Vlan_id (span_as (\<lambda>v. v) (\<lambda>v. v) sp)) b =
     Some (b\<lparr>b_pinfo := upd_range (\<lambda>rg. rg\<lparr>r_vlan_id := sp\<rparr>) (b_pinfo b)\<rparr>)"
     if "all_of (\<lambda>v. MIN_VLAN_ID \<le> v \<and> v \<le> MAX_VLAN_ID) sp" "sp_inc sp \<le> 64"
  proof -
    have "\<not> (sp_start sp < MIN_VLAN_ID \<or> sp_start sp > MAX_VLAN_ID)" "\<not> (sp_min sp < MIN_VLAN_ID \<or> sp_min sp > MAX_VLAN_ID)"
      "\<not> (sp_max sp < MIN_VLAN_ID \<or> sp_max sp > MAX_VLAN_ID)" "\<not> sp_inc sp > 64" using that by (auto simp: all_of_def not_less)
    then show ?thesis by (simp add: four_acts_def addr_written_def upd_range_upd span_four span_surj range_set_vlan_id_def)
  qed
  show "do_range_acts flags env (four_acts Ttl (span_as (\<lambda>v. v) (\<lambda>v. v) sp')) b =
     Some (b\<lparr>b_pinfo := upd_range (\<lambda>rg. rg\<lparr>r_ttl := sp'\<rparr>) (b_pinfo b)\<rparr>)"
    by (simp add: acts_simps range_set_ttl_def)
  show "do_range_acts flags env (four_acts Tcp_seq (span_as (\<lambda>v. v) ucast sq)) b =
     Some (b\<lparr>b_pinfo := upd_range (\<lambda>rg. rg\<lparr>r_tcp_seq := sq\<rparr>) (b_pinfo b)\<rparr>)"
    by (simp add: acts_simps range_set_tcp_seq_def u)
  show "do_range_acts flags env (four_acts Tcp_ack (span_as (\<lambda>v. v) ucast sq)) b =
     Some (b\<lparr>b_pinfo := upd_range (\<lambda>rg. rg\<lparr>r_tcp_ack := sq\<rparr>) (b_pinfo b)\<rparr>)"
    by (simp add: acts_simps range_set_tcp_ack_def u)
qed

lemma four_bytes:
  fixes sp :: "(u8, u16) span"
  shows "sp_inc sp \<le> 7 \<Longrightarrow> do_range_acts flags env (four_acts Cos_id (span_as (\<lambda>v. v) ucast sp)) b =
     Some (b\<lparr>b_pinfo := upd_range (\<lambda>rg. rg\<lparr>r_cos := sp\<rparr>) (b_pinfo b)\<rparr>)"
    and "sp_inc sp \<le> 255 \<Longrightarrow> do_range_acts flags env (four_acts Tos_id (span_as (\<lambda>v. v) ucast sp)) b =
     Some (b\<lparr>b_pinfo := upd_range (\<lambda>rg. rg\<lparr>r_tos := sp\<rparr>) (b_pinfo b)\<rparr>)"
proof -
  have u: "(ucast (ucast v :: u8) :: u16) = v" if "v \<le> 255" for v :: u16
  proof -
    have "unat v < 256" using that by (simp add: word_le_nat_alt)
    then show ?thesis by (simp add: word_unat_eq_iff unsigned_ucast_eq unsigned_take_bit_eq take_bit_nat_eq_self)
  qed
  show "do_range_acts flags env (four_acts Cos_id (span_as (\<lambda>v. v) ucast sp)) b =
     Some (b\<lparr>b_pinfo := upd_range (\<lambda>rg. rg\<lparr>r_cos := sp\<rparr>) (b_pinfo b)\<rparr>)" if "sp_inc sp \<le> 7"
  proof -
    have "sp_inc sp \<le> 255" using order.trans [OF that, of 255] by simp
    moreover have "unat (ucast (sp_inc sp) :: u8) \<le> 7"
      using that by (simp add: unsigned_ucast_eq word_le_nat_alt) (rule order.trans [OF take_bit_nat_less_eq_self])
    then have "(ucast (sp_inc sp) :: u8) \<le> 7" by (simp add: word_le_nat_alt)
    ultimately show ?thesis using u by (simp add: acts_simps range_set_cos_id_def)
  qed
  show "do_range_acts flags env (four_acts Tos_id (span_as (\<lambda>v. v) ucast sp)) b =
     Some (b\<lparr>b_pinfo := upd_range (\<lambda>rg. rg\<lparr>r_tos := sp\<rparr>) (b_pinfo b)\<rparr>)" if "sp_inc sp \<le> 255"
    using that u by (simp add: acts_simps range_set_tos_id_def)
qed


lemma four_sizes:
  fixes sp :: "(u16, u16) span"
  assumes "all_of (\<lambda>v. RTE_ETHER_MIN_LEN - RTE_ETHER_CRC_LEN \<le> v \<and> v \<le> size_limit flags) sp"
    and "ethType (seq_pkt (b_pinfo b) ! RANGE_PKT) \<noteq> RTE_ETHER_TYPE_IPV6"
  shows "do_range_acts flags env (four_acts Pkt_size (span_as (\<lambda>v. v + 4) (\<lambda>_. 0) sp)) b =
     Some (b\<lparr>b_pinfo := upd_range (\<lambda>rg. rg\<lparr>r_pkt_size := sp\<lparr>sp_inc := 0\<rparr>\<rparr>) (b_pinfo b)\<rparr>)"
proof -
  have fits: "\<not> v + 4 < 64 \<and> \<not> v + 4 > lim" if "60 \<le> v" "v \<le> lim - 4" "lim = 0x3F00 \<or> lim = 1518" for v lim :: u16
  proof -
    have "unat v \<le> unat lim - 4" "60 \<le> unat v" "unat lim \<le> 0x3F00" using that by (auto simp: word_le_nat_alt unat_sub)
    moreover have "unat (v + 4) = unat v + 4" using calculation unat_add_no_wrap [of v 4] by simp
    ultimately show ?thesis using that(3) by (auto simp: word_less_nat_alt)
  qed
  let ?lim = "if flags AND JUMBO_PKTS_FLAG \<noteq> 0 then 0x3F00 else 1518 :: u16"
  have lim: "size_limit flags = ?lim - 4" by (simp add: size_limit_def pkt_consts)
  have f: "\<not> v + 4 < 64 \<and> \<not> v + 4 > ?lim" if "60 \<le> v \<and> v \<le> size_limit flags" for v
    using fits [of v ?lim] that lim by (simp split: if_splits)
  have step: "range_set_pkt_size flags w (v + 4) p = upd_range (\<lambda>rg. rg\<lparr>r_pkt_size := set_member w v (r_pkt_size rg)\<rparr>) p"
    if "\<not> is_inc w" "60 \<le> v \<and> v \<le> size_limit flags" "ethType (seq_pkt p ! RANGE_PKT) \<noteq> RTE_ETHER_TYPE_IPV6" for w v p
  proof -
    note fv = f [OF that(2)]
    show ?thesis using that(1,3) fv unfolding range_set_pkt_size_def
      by (simp only: if_False Let_def if_not_P fv [THEN conjunct1] fv [THEN conjunct2] RTE_ETHER_MIN_LEN_def RTE_ETHER_MAX_LEN_def
          RTE_ETHER_MAX_JUMBO_FRAME_LEN_def RTE_ETHER_CRC_LEN_def simp_thms if_cancel) simp
  qed
  have v: "60 \<le> v \<and> v \<le> size_limit flags" if "v \<in> {sp_start sp, sp_min sp, sp_max sp}" for v
    using assms(1) that by (auto simp: all_of_def pkt_consts)
  have inc: "range_set_pkt_size flags ''inc'' 0 p = upd_range (\<lambda>rg. rg\<lparr>r_pkt_size := (r_pkt_size rg)\<lparr>sp_inc := 0\<rparr>\<rparr>) p" for p
    by (simp add: range_set_pkt_size_def)
  show ?thesis using assms(2) v
    by (simp add: four_acts_def addr_written_def step inc upd_range_upd span_four span_inc)
qed


lemma upd_swap: "upd_range f (upd_pkt j g p) = upd_pkt j g (upd_range f p)" by (simp add: upd_range_def upd_pkt_def)

lemma four_macs:
  fixes sp :: "(u64, u64) span"
  assumes "\<forall>v \<in> {sp_start sp, sp_min sp, sp_max sp, sp_inc sp}. take_bit 48 v = v"
  shows "do_range_acts flags env (four_acts Src_mac (span_as inet_h64tom inet_h64tom sp)) b = Some (b\<lparr>b_pinfo :=
      upd_pkt RANGE_PKT (\<lambda>pkt. pkt\<lparr>eth_src_addr := inet_h64tom (sp_start sp)\<rparr>) (upd_range (\<lambda>rg. rg\<lparr>r_src_mac := sp\<rparr>) (b_pinfo b))\<rparr>)"
    and "do_range_acts flags env (four_acts Dest_mac (span_as inet_h64tom inet_h64tom sp)) b = Some (b\<lparr>b_pinfo :=
      upd_pkt RANGE_PKT (\<lambda>pkt. pkt\<lparr>eth_dst_addr := inet_h64tom (sp_start sp)\<rparr>) (upd_range (\<lambda>rg. rg\<lparr>r_dst_mac := sp\<rparr>) (b_pinfo b))\<rparr>)"
  using assms by (simp_all add: acts_simps range_set_src_mac_def range_set_dest_mac_def mtoh64_h64tom upd_swap)

text \<open>The first four bytes of the addresses of a span.\<close>

definition same_ipv4 :: "(u8 list, u8 list) span \<Rightarrow> (u8 list, u8 list) span \<Rightarrow> bool" where
  "same_ipv4 sp old \<longleftrightarrow> ipv4_of (sp_start sp) = ipv4_of (sp_start old) \<and> ipv4_of (sp_min sp) = ipv4_of (sp_min old)
     \<and> ipv4_of (sp_max sp) = ipv4_of (sp_max old) \<and> ipv4_of (sp_inc sp) = ipv4_of (sp_inc old)"

abbreviation wire4 :: "u8 list \<Rightarrow> u8 list" where "wire4 bs \<equiv> put_le32 (ntohl (ipv4_of bs))"

definition merge4 :: "(u8 list, u8 list) span \<Rightarrow> (u8 list, u8 list) span \<Rightarrow> (u8 list, u8 list) span" where
  "merge4 sp old = \<lparr>sp_start = with_ipv4 (ipv4_of (sp_start sp)) (sp_start old), sp_min = with_ipv4 (ipv4_of (sp_min sp)) (sp_min old),
     sp_max = with_ipv4 (ipv4_of (sp_max sp)) (sp_max old), sp_inc = with_ipv4 (ipv4_of (sp_inc sp)) (sp_inc old)\<rparr>"

lemma merge4_same: "same_ipv4 (merge4 sp old) sp" by (simp add: same_ipv4_def merge4_def)

lemma four_ips:
  assumes "ethType (seq_pkt (b_pinfo b) ! RANGE_PKT) \<noteq> RTE_ETHER_TYPE_IPV6"
  shows "do_range_acts flags env (four_acts Src_ip (span_as wire4 wire4 sp)) b =
      Some (b\<lparr>b_pinfo := upd_range (\<lambda>rg. rg\<lparr>r_src_ip := merge4 sp (r_src_ip rg)\<rparr>) (b_pinfo b)\<rparr>)"
    and "do_range_acts flags env (four_acts Dst_ip (span_as wire4 wire4 sp)) b =
      Some (b\<lparr>b_pinfo := upd_range (\<lambda>rg. rg\<lparr>r_dst_ip := merge4 sp (r_dst_ip rg)\<rparr>) (b_pinfo b)\<rparr>)"
proof -
  have "ipv4_of (wire4 bs) = ntohl (ipv4_of bs)" for bs by (simp add: ipv4_of_def)
  moreover have "is_min ''min''" "is_max ''max''" "\<not> is_min ''max''" "\<not> is_min ''inc''" "\<not> is_max ''inc''" "\<not> is_min ''start''" "\<not> is_max ''start''"
    by (simp_all add: is_min_def is_max_def)
  ultimately show "do_range_acts flags env (four_acts Src_ip (span_as wire4 wire4 sp)) b =
      Some (b\<lparr>b_pinfo := upd_range (\<lambda>rg. rg\<lparr>r_src_ip := merge4 sp (r_src_ip rg)\<rparr>) (b_pinfo b)\<rparr>)"
    "do_range_acts flags env (four_acts Dst_ip (span_as wire4 wire4 sp)) b =
      Some (b\<lparr>b_pinfo := upd_range (\<lambda>rg. rg\<lparr>r_dst_ip := merge4 sp (r_dst_ip rg)\<rparr>) (b_pinfo b)\<rparr>)"
    using assms by (simp_all add: acts_simps range_set_src_ip_def range_set_dst_ip_def set_addr_def merge4_def Let_def)
qed

lemma proto_effect:
  assumes "p = PG_IPPROTO_TCP \<or> p = PG_IPPROTO_UDP"
  shows "range_set_proto (proto_text p) q = upd_pkt RANGE_PKT (\<lambda>pkt. pkt\<lparr>ipProto := p\<rparr>) (upd_range (\<lambda>rg. rg\<lparr>r_ip_proto := p\<rparr>) q)"
  using assms by (auto simp: range_set_proto_def proto_text_def str_at_def upd_swap pkt_consts)


text \<open>The actions of all saved lines in turn.\<close>

definition saved_acts :: "range_info \<Rightarrow> range_act list" where
  "saved_acts rg =
     four_acts Src_mac (span_as inet_h64tom inet_h64tom (r_src_mac rg))
     @ four_acts Dest_mac (span_as inet_h64tom inet_h64tom (r_dst_mac rg))
     @ four_acts Src_ip (span_as wire4 wire4 (r_src_ip rg))
     @ four_acts Dst_ip (span_as wire4 wire4 (r_dst_ip rg))
     @ [Act (Set_proto (proto_text (r_ip_proto rg)))]
     @ four_acts Src_port (span_as (\<lambda>v. v) (\<lambda>v. v) (r_src_port rg))
     @ four_acts Dst_port (span_as (\<lambda>v. v) (\<lambda>v. v) (r_dst_port rg))
     @ [Set_tcp_flags (flags_text (r_tcp_flags rg))]
     @ four_acts Tcp_seq (span_as (\<lambda>v. v) ucast (r_tcp_seq rg))
     @ four_acts Tcp_ack (span_as (\<lambda>v. v) ucast (r_tcp_ack rg))
     @ four_acts Ttl (span_as (\<lambda>v. v) (\<lambda>v. v) (r_ttl rg))
     @ four_acts Vlan_id (span_as (\<lambda>v. v) (\<lambda>v. v) (r_vlan_id rg))
     @ four_acts Cos_id (span_as (\<lambda>v. v) ucast (r_cos rg))
     @ four_acts Tos_id (span_as (\<lambda>v. v) ucast (r_tos rg))
     @ four_acts Pkt_size (span_as (\<lambda>v. v + 4) (\<lambda>_. 0) (r_pkt_size rg))"

lemma address_lines:
  "list_all2 (line_does i) (span_lines i ''src mac'' mac_text mac_text sp) (map (\<lambda>a. [a]) (four_acts Src_mac (span_as inet_h64tom inet_h64tom sp)))"
  "list_all2 (line_does i) (span_lines i ''dst mac'' mac_text mac_text sp) (map (\<lambda>a. [a]) (four_acts Dest_mac (span_as inet_h64tom inet_h64tom sp)))"
  "list_all2 (line_does i) (span_lines i ''src ip'' ip_text ip_text sq) (map (\<lambda>a. [a]) (four_acts Src_ip (span_as wire4 wire4 sq)))"
  "list_all2 (line_does i) (span_lines i ''dst ip'' ip_text ip_text sq) (map (\<lambda>a. [a]) (four_acts Dst_ip (span_as wire4 wire4 sq)))"
     apply (rule span_does [where fs = "[''src'', ''mac'']"], simp, simp, rule mac_does(1), erule smmi_three, rule mac_does(1), rule smmi_four)
    apply (rule span_does [where fs = "[''dst'', ''mac'']"], simp, simp, rule mac_does(2), erule smmi_three, rule mac_does(2), rule smmi_four)
   apply (rule span_does [where fs = "[''src'', ''ip'']"], simp, simp, rule ip_does(1), erule smmi_three, rule ip_does(1), rule smmi_four)
  apply (rule span_does [where fs = "[''dst'', ''ip'']"], simp, simp, rule ip_does(2), erule smmi_three, rule ip_does(2), rule smmi_four)
  done

lemma saved_lines_do:
  assumes "r_ip_proto rg = PG_IPPROTO_TCP \<or> r_ip_proto rg = PG_IPPROTO_UDP"
  shows "list_all2 (line_does i) (saved_range_lines i rg @ saved_size_lines i rg) (map (\<lambda>a. [a]) (saved_acts rg))"
proof -
  have one: "list_all2 (line_does i) [l] (map (\<lambda>a. [a]) [a])" if "line_does i l [a]" for l a using that by simp
  show ?thesis unfolding saved_range_lines_def saved_acts_def map_append append_assoc
    by (intro list_all2_appendI address_lines num_lines size_lines one proto_does [OF assms] flags_does)
qed

lemma saved_acts_effect:
  assumes lim: "range_limits flags p" and rg: "rg = p_range p" and proto: "r_ip_proto rg = PG_IPPROTO_TCP \<or> r_ip_proto rg = PG_IPPROTO_UDP"
    and tos: "sp_inc (r_tos rg) \<le> 255"
    and macs: "\<forall>sp \<in> {r_src_mac rg, r_dst_mac rg}. \<forall>v \<in> {sp_start sp, sp_min sp, sp_max sp, sp_inc sp}. take_bit 48 v = v"
    and target: "length (seq_pkt (b_pinfo b)) = NUM_TOTAL_PKTS" "ethType (seq_pkt (b_pinfo b) ! RANGE_PKT) \<noteq> RTE_ETHER_TYPE_IPV6"
  shows "\<exists>b'. do_range_acts flags env (saved_acts rg) b = Some b' \<and> p_range (b_pinfo b') = (p_range (b_pinfo b))
    \<lparr>r_src_ip := merge4 (r_src_ip rg) (r_src_ip (p_range (b_pinfo b))), r_dst_ip := merge4 (r_dst_ip rg) (r_dst_ip (p_range (b_pinfo b))),
     r_src_port := r_src_port rg, r_dst_port := r_dst_port rg, r_vlan_id := r_vlan_id rg, r_tcp_seq := r_tcp_seq rg,
     r_tcp_ack := r_tcp_ack rg, r_tos := r_tos rg, r_cos := r_cos rg, r_pkt_size := (r_pkt_size rg)\<lparr>sp_inc := 0\<rparr>,
     r_src_mac := r_src_mac rg, r_dst_mac := r_dst_mac rg, r_ttl := r_ttl rg, r_ip_proto := r_ip_proto rg, r_tcp_flags := r_tcp_flags rg\<rparr>"
proof -
  have l: "all_of (\<lambda>v. MIN_VLAN_ID \<le> v \<and> v \<le> MAX_VLAN_ID) (r_vlan_id rg)" "sp_inc (r_vlan_id rg) \<le> 64"
    "sp_inc (r_src_port rg) \<le> 64" "sp_inc (r_dst_port rg) \<le> 64" "sp_inc (r_cos rg) \<le> 7"
    "all_of (\<lambda>v. RTE_ETHER_MIN_LEN - RTE_ETHER_CRC_LEN \<le> v \<and> v \<le> size_limit flags) (r_pkt_size rg)"
    using lim by (simp_all add: range_limits_def rg)
  have m: "\<forall>v \<in> {sp_start (r_src_mac rg), sp_min (r_src_mac rg), sp_max (r_src_mac rg), sp_inc (r_src_mac rg)}. take_bit 48 v = v"
    "\<forall>v \<in> {sp_start (r_dst_mac rg), sp_min (r_dst_mac rg), sp_max (r_dst_mac rg), sp_inc (r_dst_mac rg)}. take_bit 48 v = v"
    using macs by simp_all
  have r: "RANGE_PKT < length (seq_pkt (b_pinfo b))" using target(1) range_in_20 by simp
  show ?thesis using target(2) r
    by (simp add: saved_acts_def do_range_acts_append four_macs [OF m(1)] four_macs [OF m(2)] four_ips addr_written_def
      proto_effect [OF proto] four_numbers l four_bytes tos four_sizes [OF l(6)] range_set_tcp_flags_def Let_def flags_text_reads)
qed


section \<open>Saving and loading\<close>

text \<open>
  C15 A saved range, executed again: the lines that are written for the ranges of a port, given to the command line for
  any port whose range packet is not an IPv6 packet, restore the ranges of the MAC addresses, the IPv4 addresses, the
  ports, the TCP sequence and acknowledgement numbers, the time to live, the VLAN identifier, the class and type of
  service, the protocol and the TCP flags, and the start and the limits of the packet size; its increment becomes zero.
  The ranges of the GTP-U tunnel and of the VXLAN identifiers are not saved: they stay what they were in the port. The
  source keeps the limits of the commands, ranges over TCP or UDP (the line that is saved for ICMP is refused) and has a
  type-of-service increment and MAC addresses that fit their fields. Ranges of IPv6 addresses are not saved either.
\<close>

theorem ranges_restored:
  assumes "one_port env i" and "range_limits (ce_flags env) p" and "r_ip_proto (p_range p) \<in> {PG_IPPROTO_TCP, PG_IPPROTO_UDP}"
    and "sp_inc (r_tos (p_range p)) \<le> 255"
    and "\<forall>sp \<in> {r_src_mac (p_range p), r_dst_mac (p_range p)}. \<forall>v \<in> {sp_start sp, sp_min sp, sp_max sp, sp_inc sp}. take_bit 48 v = v"
    and "range_limits (ce_flags env) (b_pinfo (cp_port st i))" and "ethType (seq_pkt (b_pinfo (cp_port st i)) ! RANGE_PKT) \<noteq> RTE_ETHER_TYPE_IPV6"
  shows "\<exists>st'. range_lines env (saved_range_lines i (p_range p) @ saved_size_lines i (p_range p)) st = Some st' \<and>
    (let rg = p_range p; rg' = p_range (b_pinfo (cp_port st' i)) in
      r_src_mac rg' = r_src_mac rg \<and> r_dst_mac rg' = r_dst_mac rg \<and> same_ipv4 (r_src_ip rg') (r_src_ip rg) \<and> same_ipv4 (r_dst_ip rg') (r_dst_ip rg)
      \<and> r_src_port rg' = r_src_port rg \<and> r_dst_port rg' = r_dst_port rg \<and> r_tcp_seq rg' = r_tcp_seq rg \<and> r_tcp_ack rg' = r_tcp_ack rg
      \<and> r_ttl rg' = r_ttl rg \<and> r_vlan_id rg' = r_vlan_id rg \<and> r_cos rg' = r_cos rg \<and> r_tos rg' = r_tos rg
      \<and> r_ip_proto rg' = r_ip_proto rg \<and> r_tcp_flags rg' = r_tcp_flags rg \<and> r_pkt_size rg' = (r_pkt_size rg)\<lparr>sp_inc := 0\<rparr>)
    \<and> (let old = p_range (b_pinfo (cp_port st i)); rg' = p_range (b_pinfo (cp_port st' i)) in
      r_gtpu_teid rg' = r_gtpu_teid old \<and> r_vxlan_gid rg' = r_vxlan_gid old \<and> r_vxlan_vid rg' = r_vxlan_vid old)"
proof -
  let ?rg = "p_range p" and ?ls = "saved_range_lines i (p_range p) @ saved_size_lines i (p_range p)"
  have proto: "r_ip_proto ?rg = PG_IPPROTO_TCP \<or> r_ip_proto ?rg = PG_IPPROTO_UDP" using assms(3) by simp
  have "length (seq_pkt (b_pinfo (cur_port i st))) = NUM_TOTAL_PKTS" "ethType (seq_pkt (b_pinfo (cur_port i st)) ! RANGE_PKT) \<noteq> RTE_ETHER_TYPE_IPV6"
    using assms(6,7) by (simp_all add: cur_port_def range_limits_def)
  then obtain b where b: "do_range_acts (ce_flags env) (ce_build env i) (saved_acts ?rg) (cur_port i st) = Some b"
    "p_range (b_pinfo b) = (p_range (b_pinfo (cur_port i st)))
      \<lparr>r_src_ip := merge4 (r_src_ip ?rg) (r_src_ip (p_range (b_pinfo (cur_port i st)))),
       r_dst_ip := merge4 (r_dst_ip ?rg) (r_dst_ip (p_range (b_pinfo (cur_port i st)))),
       r_src_port := r_src_port ?rg, r_dst_port := r_dst_port ?rg, r_vlan_id := r_vlan_id ?rg, r_tcp_seq := r_tcp_seq ?rg,
       r_tcp_ack := r_tcp_ack ?rg, r_tos := r_tos ?rg, r_cos := r_cos ?rg, r_pkt_size := (r_pkt_size ?rg)\<lparr>sp_inc := 0\<rparr>,
       r_src_mac := r_src_mac ?rg, r_dst_mac := r_dst_mac ?rg, r_ttl := r_ttl ?rg, r_ip_proto := r_ip_proto ?rg, r_tcp_flags := r_tcp_flags ?rg\<rparr>"
    using saved_acts_effect [OF assms(2) refl proto assms(4,5)] by blast
  have "?ls \<noteq> []" by (simp add: saved_range_lines_def span_lines_def)
  moreover have "concat (map (\<lambda>a. [a]) as) = as" for "as" :: "range_act list" by (induction "as") auto
  ultimately have "range_lines env ?ls st = Some (with_port i b st)"
    using range_lines_one [OF assms(1) _ saved_lines_do [OF proto] assms(6)] b(1) by simp
  then show ?thesis using b(2) by (intro exI [of _ "with_port i b st"]) (simp add: Let_def merge4_same cur_port_def)
qed

text \<open>A range with an increment of the packet size, loaded into a fresh port.\<close>

definition saved_port :: port_info where
  "saved_port = upd_range (\<lambda>rg. rg\<lparr>r_pkt_size := (r_pkt_size rg)\<lparr>sp_inc := 64\<rparr>\<rparr>) (pktgen_range_setup 0 sample_port)"

theorem ranges_restored_witness:
  "\<exists>st'. range_lines range_env0 (saved_range_lines 0 (p_range saved_port) @ saved_size_lines 0 (p_range saved_port)) range_ports0 = Some st'
    \<and> r_src_port (p_range (b_pinfo (cp_port st' 0))) = \<lparr>sp_start = 10, sp_min = 0, sp_max = 65535, sp_inc = 1\<rparr>
    \<and> sp_inc (r_pkt_size (p_range saved_port)) = 64 \<and> sp_inc (r_pkt_size (p_range (b_pinfo (cp_port st' 0)))) = 0"
proof -
  let ?p = "b_pinfo (cp_port range_ports0 0)"
  have one: "one_port range_env0 0" by (simp add: one_port_def range_env0_def)
  have lim: "range_limits (ce_flags range_env0) ?p"
    using setup_limits [OF sample_setup(2-5), of 0] by (simp add: range_ports0_def range_env0_def)
  then have lim2: "range_limits (ce_flags range_env0) saved_port"
    by (simp add: saved_port_def range_ports0_def range_limits_def)
  have v4: "ethType (seq_pkt ?p ! RANGE_PKT) \<noteq> RTE_ETHER_TYPE_IPV6"
    by (simp add: range_ports0_def pktgen_range_setup_def sample_port_def pkt_consts Let_def) (simp add: sample_pkt_def)
  have "inet_mtoh64 (replicate 6 0) = 0" by (simp add: inet_mtoh64_def)
  then have rg: "r_ip_proto (p_range saved_port) \<in> {PG_IPPROTO_TCP, PG_IPPROTO_UDP}" "sp_inc (r_tos (p_range saved_port)) \<le> 255"
    "\<forall>sp \<in> {r_src_mac (p_range saved_port), r_dst_mac (p_range saved_port)}. \<forall>v \<in> {sp_start sp, sp_min sp, sp_max sp, sp_inc sp}. take_bit 48 v = v"
    "r_src_port (p_range saved_port) = \<lparr>sp_start = 10, sp_min = 0, sp_max = 65535, sp_inc = 1\<rparr>" "sp_inc (r_pkt_size (p_range saved_port)) = 64"
    by (simp_all add: saved_port_def pktgen_range_setup_def sample_port_def sample_pkt_def SINGLE_PKT_def PG_IPPROTO_UDP_def Let_def)
  show ?thesis using ranges_restored [OF one lim2 rg(1-3) lim v4] rg(4,5) by (auto simp: Let_def)
qed

end
