(* ===== verification/L2pParse.thy ===== *)
theory L2pParse
  imports TcpFlags PcapSections
begin

text \<open>
  The option that gives logical cores to ports, \<open>[rx cores:tx cores].port\<close> (\<open>app/l2p.c\<close>, with \<open>pg_strtrimset\<close> of
  \<open>lib/common/utils.h\<close>): the parser of a mapping, and how the table of ports and cores is filled from it. A result
  \<open>None\<close> is an access outside an array, \<open>Inl\<close> the end of the program by \<open>rte_exit\<close>.
\<close>

subsection \<open>What the code takes from outside\<close>

text \<open>
  The bytes behind the two string literals in memory, the socket of a port, whether the object of a core can be
  allocated, the pool of a name, a size, a cache size and a socket, and the size of the structure in front of a pool.
\<close>

record l2p_env =
  behind_square :: string
  behind_curly :: string
  socket_id :: "nat \<Rightarrow> int"
  alloc_lport :: "nat \<Rightarrow> bool"
  new_pool :: "string \<Rightarrow> u64 \<Rightarrow> nat \<Rightarrow> int \<Rightarrow> nat option"
  buf_size :: u16
  sizeof_mempool :: u64

text \<open>The part of the state of the program that the parser changes.\<close>

record l2p_state =
  st_l2p :: l2p
  mem_used :: u64
  total_mem_used :: u64

datatype l2p_exit =
    Exit_core_map string
  | Exit_no_lport
  | Exit_rx_queues nat
  | Exit_tx_queues nat
  | Exit_port_mode
  | Exit_no_pool string

definition MAX_ALLOCA_SIZE :: nat where "MAX_ALLOCA_SIZE = 1024"
definition MEMPOOL_CACHE_SIZE :: nat where "MEMPOOL_CACHE_SIZE = 512 div 2"
definition MAX_SPECIAL_MBUFS :: u64 where "MAX_SPECIAL_MBUFS = 1024"

definition MAX_MBUFS_PER_PORT :: "u64 \<Rightarrow> u64 \<Rightarrow> u64" where
  "MAX_MBUFS_PER_PORT rxd txd = (rxd + txd) * 16"

text \<open>The next step, unless the program has ended.\<close>

definition and_then :: "'e + 'a \<Rightarrow> ('a \<Rightarrow> 'e + 'b) \<Rightarrow> 'e + 'b" where
  "and_then r f = (case r of Inl e \<Rightarrow> Inl e | Inr a \<Rightarrow> f a)"

lemma and_then_simps [simp]: "and_then (Inl e) f = Inl e" "and_then (Inr a) f = f a"
  by (simp_all add: and_then_def)

lemma and_then_Inr: "and_then r f = Inr b \<longleftrightarrow> (\<exists>a. r = Inr a \<and> f a = Inr b)"
  by (simp add: and_then_def split: sum.split)

lemma and_then_InrE:
  assumes "and_then r f = Inr b" obtains a where "r = Inr a" and "f a = Inr b"
  using assms by (auto simp: and_then_Inr)

subsection \<open>Removing the brackets\<close>

text \<open>
  The loop of \<open>pg_strtrimset\<close> over the memory from the set on, with what has been cut from the front of the string. A
  pointer to the old start of the string sees the front and the rest, since only the end is cut in place. After a match
  the pointer into the set is one ahead and steps over the terminating zero.
\<close>

fun trim_walk :: "string \<Rightarrow> string \<Rightarrow> string \<Rightarrow> (string \<times> string) option" where
  "trim_walk [] front s = None"
| "trim_walk (c # m) front s =
     (if c = CHR 0x00 then Some (front, s)
      else if s = [] \<or> hd s \<noteq> c then trim_walk (drop 1 m) front s
      else case m of
             [] \<Rightarrow> None
           | b # m' \<Rightarrow> trim_walk (drop 1 m') (front @ [c])
               (if tl s \<noteq> [] \<and> last (tl s) = b then butlast (tl s) else tl s))"

definition pg_strtrimset :: "string \<Rightarrow> string \<Rightarrow> string \<Rightarrow> (string \<times> string) option option" where
  "pg_strtrimset set_chars behind s =
     (if length set_chars = 0 \<or> odd (length set_chars) then Some None
      else map_option Some (trim_walk (set_chars @ CHR 0x00 # behind) [] s))"

text \<open>The two calls on a field.\<close>

definition trim_sets :: "l2p_env \<Rightarrow> string \<Rightarrow> (string \<times> string) option" where
  "trim_sets env s =
     (case pg_strtrimset ''[]'' (behind_square env) s of
        Some (Some (p1, s1)) \<Rightarrow>
          (case pg_strtrimset ''{}'' (behind_curly env) s1 of
             Some (Some (p2, s2)) \<Rightarrow> Some (p1 @ p2, s2) | _ \<Rightarrow> None)
      | _ \<Rightarrow> None)"

text \<open>
  The two fields of a list, trimmed one after the other. When there is one only, both pointers are to the same text:
  the second round of trimming starts at its old start and may cut the end that the first pointer sees.
\<close>

definition trim_pair :: "l2p_env \<Rightarrow> string list \<Rightarrow> (string \<times> string) option" where
  "trim_pair env fs =
     (case trim_sets env (fs ! 0) of
        None \<Rightarrow> None
      | Some (front, f0) \<Rightarrow>
          (if length fs = 1 then
             map_option (\<lambda>(front1, f1). (drop (length front) (front1 @ f1), f1)) (trim_sets env (front @ f0))
           else map_option (\<lambda>(_, f1). (f0, f1)) (trim_sets env (fs ! 1))))"

subsection \<open>The objects of a core\<close>

text \<open>\<open>pg_eth_dev_socket_id\<close>, and the name of a pool.\<close>

definition pg_eth_dev_socket_id :: "l2p_env \<Rightarrow> nat \<Rightarrow> int" where
  "pg_eth_dev_socket_id env pid = (if socket_id env pid = -1 then 0 else socket_id env pid)"

definition pool_name :: "string \<Rightarrow> nat \<Rightarrow> nat \<Rightarrow> int \<Rightarrow> string" where
  "pool_name ty pid qid sid =
     take 30 (ty @ ''-P'' @ dec pid @ ''/Q'' @ dec qid @ ''/S'' @ dec (unat (word_of_int sid :: u32)))"

definition l2p_pktmbuf_create :: "l2p_env \<Rightarrow> string \<Rightarrow> nat \<Rightarrow> nat \<Rightarrow> u64 \<Rightarrow> nat \<Rightarrow> l2p_state \<Rightarrow> l2p_exit + (nat \<times> l2p_state)" where
  "l2p_pktmbuf_create env ty pid qid nb_mbufs cache_size st =
     (let sid = pg_eth_dev_socket_id env pid;
          name = pool_name ty pid qid sid;
          sz = rte_align_ceil (nb_mbufs * ucast (buf_size env) + sizeof_mempool env) 1024;
          st1 = st\<lparr>mem_used := mem_used st + sz, total_mem_used := total_mem_used st + sz\<rparr>
      in case new_pool env name nb_mbufs cache_size sid of
           None \<Rightarrow> Inl (Exit_no_pool name)
         | Some mp \<Rightarrow> Inr (mp, st1))"

text \<open>The queue numbers of the core, from the counters of the port.\<close>

definition take_queues :: "nat \<Rightarrow> lcore_mode \<Rightarrow> l2p_lport \<Rightarrow> l2p \<Rightarrow> l2p_exit + (l2p_lport \<times> l2p)" where
  "take_queues pid mode lp t =
     (let rx = num_rx_qids (ports t pid); tx = num_tx_qids (ports t pid) in
      case mode of
        LCORE_MODE_RX \<Rightarrow>
          (if rx \<ge> MAX_QUEUES_PER_PORT then Inl (Exit_rx_queues pid)
           else Inr (lp\<lparr>lp_rx_qid := rx\<rparr>, upd_port pid (\<lambda>p. p\<lparr>num_rx_qids := rx + 1\<rparr>) t))
      | LCORE_MODE_TX \<Rightarrow>
          (if tx \<ge> MAX_QUEUES_PER_PORT then Inl (Exit_tx_queues pid)
           else Inr (lp\<lparr>lp_tx_qid := tx\<rparr>, upd_port pid (\<lambda>p. p\<lparr>num_tx_qids := tx + 1\<rparr>) t))
      | LCORE_MODE_BOTH \<Rightarrow>
          (if rx \<ge> MAX_QUEUES_PER_PORT then Inl (Exit_rx_queues pid)
           else if tx \<ge> MAX_QUEUES_PER_PORT then Inl (Exit_tx_queues pid)
           else Inr (lp\<lparr>lp_rx_qid := rx, lp_tx_qid := tx\<rparr>,
                     upd_port pid (\<lambda>p. p\<lparr>num_rx_qids := rx + 1, num_tx_qids := tx + 1\<rparr>) t))
      | LCORE_MODE_UNKNOWN \<Rightarrow> Inl Exit_port_mode)"

abbreviation upd_l2p :: "(l2p \<Rightarrow> l2p) \<Rightarrow> l2p_state \<Rightarrow> l2p_state" where
  "upd_l2p f st \<equiv> st\<lparr>st_l2p := f (st_l2p st)\<rparr>"

text \<open>The pools of a queue, unless they exist.\<close>

definition rx_pool :: "l2p_env \<Rightarrow> nat \<Rightarrow> nat \<Rightarrow> l2p_state \<Rightarrow> l2p_exit + l2p_state" where
  "rx_pool env pid qid st =
     (if rx_mp (ports (st_l2p st) pid) qid \<noteq> None then Inr st
      else and_then (l2p_pktmbuf_create env ''RX'' pid qid (MAX_MBUFS_PER_PORT 1024 1024) MEMPOOL_CACHE_SIZE st)
        (\<lambda>(mp, st1). Inr (upd_l2p (upd_port pid (\<lambda>p. p\<lparr>rx_mp := (rx_mp p)(qid := Some mp)\<rparr>)) st1)))"

definition tx_pool :: "l2p_env \<Rightarrow> nat \<Rightarrow> nat \<Rightarrow> l2p_state \<Rightarrow> l2p_exit + l2p_state" where
  "tx_pool env pid qid st =
     (if tx_mp (ports (st_l2p st) pid) qid \<noteq> None then Inr st
      else and_then (l2p_pktmbuf_create env ''TX'' pid qid (MAX_MBUFS_PER_PORT 1024 1024) MEMPOOL_CACHE_SIZE st)
        (\<lambda>(mp, st1). Inr (upd_l2p (upd_port pid (\<lambda>p. p\<lparr>tx_mp := (tx_mp p)(qid := Some mp)\<rparr>)) st1)))"

definition sp_pool :: "l2p_env \<Rightarrow> nat \<Rightarrow> nat \<Rightarrow> l2p_state \<Rightarrow> l2p_exit + l2p_state" where
  "sp_pool env pid qid st =
     (if sp_mp (ports (st_l2p st) pid) qid \<noteq> None then Inr st
      else and_then (l2p_pktmbuf_create env ''SP'' pid qid MAX_SPECIAL_MBUFS 0 st)
        (\<lambda>(mp, st1). Inr (upd_l2p (upd_port pid (\<lambda>p. p\<lparr>sp_mp := (sp_mp p)(qid := Some mp)\<rparr>)) st1)))"

subsection \<open>The cores of a list\<close>

text \<open>One round of the loop for core \<open>l\<close> below the size of the array.\<close>

abbreviation receives :: "lcore_mode \<Rightarrow> bool" where
  "receives mode \<equiv> mode = LCORE_MODE_RX \<or> mode = LCORE_MODE_BOTH"

abbreviation transmits :: "lcore_mode \<Rightarrow> bool" where
  "transmits mode \<equiv> mode = LCORE_MODE_TX \<or> mode = LCORE_MODE_BOTH"

definition get_lport :: "l2p_env \<Rightarrow> nat \<Rightarrow> l2p \<Rightarrow> l2p_exit + l2p_lport" where
  "get_lport env l t =
     (case lports t l of
        Some lp \<Rightarrow> Inr lp
      | None \<Rightarrow> if alloc_lport env l
          then Inr \<lparr>lp_mode = LCORE_MODE_UNKNOWN, lp_lid = l, lp_rx_qid = 0, lp_tx_qid = 0, lp_port = None\<rparr>
          else Inl Exit_no_lport)"

definition assign_core :: "l2p_env \<Rightarrow> nat \<Rightarrow> lcore_mode \<Rightarrow> nat \<Rightarrow> l2p_state \<Rightarrow> l2p_exit + l2p_state" where
  "assign_core env pid mode l st =
     and_then (get_lport env l (st_l2p st)) (\<lambda>lp0.
     and_then (take_queues pid mode (lp0\<lparr>lp_port := Some pid, lp_mode := mode\<rparr>) (st_l2p st)) (\<lambda>(lp, t).
     let st1 = st\<lparr>st_l2p := t\<lparr>lports := (lports t)(l := Some lp)\<rparr>\<rparr> in
     and_then (if receives mode then rx_pool env pid (lp_rx_qid lp) st1 else Inr st1) (\<lambda>st2.
       if transmits mode
       then and_then (tx_pool env pid (lp_tx_qid lp) st2) (sp_pool env pid (lp_tx_qid lp))
       else Inr st2)))"

text \<open>The loop from \<open>l\<close> to \<open>h\<close>, which runs at least once; the number of cores it has seen is the result.\<close>

function cores_loop :: "l2p_env \<Rightarrow> nat \<Rightarrow> lcore_mode \<Rightarrow> int \<Rightarrow> int \<Rightarrow> nat \<Rightarrow> l2p_state \<Rightarrow> (l2p_exit + (nat \<times> l2p_state)) option" where
  "cores_loop env pid mode l h n st =
     (if l < 0 \<or> l \<ge> int RTE_MAX_LCORE then None
      else case assign_core env pid mode (nat l) st of
             Inl e \<Rightarrow> Some (Inl e)
           | Inr st1 \<Rightarrow> if l < h then cores_loop env pid mode (l + 1) h (n + 1) st1 else Some (Inr (n + 1, st1)))"
  by auto
termination by (relation "measure (\<lambda>(env, pid, mode, l, h, n, st). nat (h - l))") auto

declare cores_loop.simps [simp del]

text \<open>A \<open>long\<close> stored in an \<open>int\<close>, on the machines the program runs on.\<close>

definition int_of_long :: "int \<Rightarrow> int" where "int_of_long v = sint (word_of_int v :: u32)"

definition parse_cores :: "l2p_env \<Rightarrow> nat \<Rightarrow> string \<Rightarrow> lcore_mode \<Rightarrow> l2p_state \<Rightarrow> (l2p_exit + (nat \<times> l2p_state)) option" where
  "parse_cores env pid cores mode st =
     (let fs = rte_strsplit 3 (CHR ''-'') (take (MAX_ALLOCA_SIZE - 2) cores) in
      if length fs = 0 \<or> length fs > 2 then Some (Inl (Exit_core_map cores))
      else case trim_pair env fs of
             None \<Rightarrow> None
           | Some (f0, f1) \<Rightarrow>
               cores_loop env pid mode (int_of_long (fst (strtol 10 f0))) (int_of_long (fst (strtol 10 f1))) 0 st)"

subsection \<open>A mapping, and all of them\<close>

text \<open>The tests of the number of cores after the two calls.\<close>

definition need_cores :: "(l2p_exit + (nat \<times> l2p_state)) option \<Rightarrow> (l2p_state \<Rightarrow> (l2p_exit + (int \<times> l2p_state)) option)
    \<Rightarrow> (l2p_exit + (int \<times> l2p_state)) option" where
  "need_cores r next_step =
     (case r of
        None \<Rightarrow> None
      | Some (Inl e) \<Rightarrow> Some (Inl e)
      | Some (Inr (num_cores, st)) \<Rightarrow> if num_cores = 0 then Some (Inr (-1, st)) else next_step st)"

definition parse_mapping :: "l2p_env \<Rightarrow> string \<Rightarrow> l2p_state \<Rightarrow> (l2p_exit + (int \<times> l2p_state)) option" where
  "parse_mapping env m st =
     (if m = [] then Some (Inr (-1, st))
      else let fs = rte_strsplit 3 (CHR ''.'') (take (MAX_ALLOCA_SIZE - 2) m) in
        if length fs \<noteq> 2 then Some (Inr (-1, st))
        else case trim_pair env fs of
               None \<Rightarrow> None
             | Some (f0, f1) \<Rightarrow>
                 let pid = unat (word_of_int (fst (strtol 10 f1)) :: u16) in
                 if pid \<ge> RTE_MAX_ETHPORTS then Some (Inr (-1, st))
                 else let st1 = upd_l2p (\<lambda>t. (upd_port pid (\<lambda>p. p\<lparr>l_pid := pid\<rparr>) t)\<lparr>num_ports := num_ports t + 1\<rparr>) st;
                          lcores = rte_strsplit 3 (CHR '':'') f0 in
                   if length lcores = 0 \<or> length lcores > 2 then Some (Inr (-1, st1))
                   else case trim_pair env lcores of
                          None \<Rightarrow> None
                        | Some (c0, c1) \<Rightarrow>
                            if length lcores = 1
                            then need_cores (parse_cores env pid c0 LCORE_MODE_BOTH st1) (\<lambda>st2. Some (Inr (0, st2)))
                            else need_cores (parse_cores env pid c0 LCORE_MODE_RX st1)
                                   (\<lambda>st2. need_cores (parse_cores env pid c1 LCORE_MODE_TX st2) (\<lambda>st3. Some (Inr (0, st3)))))"

fun parse_all :: "l2p_env \<Rightarrow> string list \<Rightarrow> l2p_state \<Rightarrow> (l2p_exit + (int \<times> l2p_state)) option" where
  "parse_all env [] st = Some (Inr (0, st))"
| "parse_all env (m # ms) st =
     (case parse_mapping env m st of
        None \<Rightarrow> None
      | Some (Inl e) \<Rightarrow> Some (Inl e)
      | Some (Inr (rc, st1)) \<Rightarrow> if rc \<noteq> 0 then Some (Inr (-1, st1)) else parse_all env ms st1)"

definition l2p_parse_mappings :: "l2p_env \<Rightarrow> l2p_state \<Rightarrow> (l2p_exit + (int \<times> l2p_state)) option" where
  "l2p_parse_mappings env st = parse_all env (mappings (st_l2p st)) st"

text \<open>The copy of the argument is taken to be made; the entry behind the last one is outside the array.\<close>

definition l2p_parse_mapping_add :: "string option \<Rightarrow> l2p \<Rightarrow> (int \<times> l2p) option" where
  "l2p_parse_mapping_add str t =
     (case str of
        None \<Rightarrow> Some (-1, t)
      | Some s \<Rightarrow>
          if length (mappings t) > RTE_MAX_ETHPORTS then Some (-1, t)
          else if length (mappings t) \<ge> RTE_MAX_ETHPORTS then None
          else Some (0, t\<lparr>mappings := mappings t @ [s]\<rparr>))"

section \<open>What one core changes\<close>

lemma rx_poolD:
  assumes "rx_pool env pid q st = Inr st'"
  obtains mp where "st_l2p st' = upd_port pid (\<lambda>p. p\<lparr>rx_mp := (rx_mp p)(q := Some mp)\<rparr>) (st_l2p st)"
proof (cases "rx_mp (ports (st_l2p st) pid) q")
  case None
  then show ?thesis using assms that by (auto simp: rx_pool_def and_then_Inr l2p_pktmbuf_create_def Let_def split: option.splits)
next
  case (Some mp)
  then have "(rx_mp (ports (st_l2p st) pid))(q := Some mp) = rx_mp (ports (st_l2p st) pid)" by auto
  then show ?thesis using assms Some that [of mp] by (simp add: rx_pool_def)
qed

lemma tx_poolD:
  assumes "tx_pool env pid q st = Inr st'"
  obtains mp where "st_l2p st' = upd_port pid (\<lambda>p. p\<lparr>tx_mp := (tx_mp p)(q := Some mp)\<rparr>) (st_l2p st)"
proof (cases "tx_mp (ports (st_l2p st) pid) q")
  case None
  then show ?thesis using assms that by (auto simp: tx_pool_def and_then_Inr l2p_pktmbuf_create_def Let_def split: option.splits)
next
  case (Some mp)
  then have "(tx_mp (ports (st_l2p st) pid))(q := Some mp) = tx_mp (ports (st_l2p st) pid)" by auto
  then show ?thesis using assms Some that [of mp] by (simp add: tx_pool_def)
qed

lemma sp_poolD:
  assumes "sp_pool env pid q st = Inr st'"
  obtains mp where "st_l2p st' = upd_port pid (\<lambda>p. p\<lparr>sp_mp := (sp_mp p)(q := Some mp)\<rparr>) (st_l2p st)"
proof (cases "sp_mp (ports (st_l2p st) pid) q")
  case None
  then show ?thesis using assms that by (auto simp: sp_pool_def and_then_Inr l2p_pktmbuf_create_def Let_def split: option.splits)
next
  case (Some mp)
  then have "(sp_mp (ports (st_l2p st) pid))(q := Some mp) = sp_mp (ports (st_l2p st) pid)" by auto
  then show ?thesis using assms Some that [of mp] by (simp add: sp_pool_def)
qed

text \<open>The port after a core has been given to it: one more queue of each kind the core serves, with its pools.\<close>

definition more_rx :: "nat option \<Rightarrow> l2p_port \<Rightarrow> l2p_port" where
  "more_rx mp p = p\<lparr>num_rx_qids := num_rx_qids p + 1, rx_mp := (rx_mp p)(num_rx_qids p := mp)\<rparr>"

definition more_tx :: "nat option \<Rightarrow> nat option \<Rightarrow> l2p_port \<Rightarrow> l2p_port" where
  "more_tx mp sp p = p\<lparr>num_tx_qids := num_tx_qids p + 1, tx_mp := (tx_mp p)(num_tx_qids p := mp), sp_mp := (sp_mp p)(num_tx_qids p := sp)\<rparr>"

text \<open>What a core does for its port.\<close>

definition serves :: "lcore_mode \<Rightarrow> l2p_port \<Rightarrow> l2p_lport \<Rightarrow> l2p_port \<Rightarrow> bool" where
  "serves mode p lp p' \<longleftrightarrow> mode \<noteq> LCORE_MODE_UNKNOWN \<and> lp_mode lp = mode
     \<and> (receives mode \<longrightarrow> num_rx_qids p < MAX_QUEUES_PER_PORT \<and> lp_rx_qid lp = num_rx_qids p)
     \<and> (transmits mode \<longrightarrow> num_tx_qids p < MAX_QUEUES_PER_PORT \<and> lp_tx_qid lp = num_tx_qids p)
     \<and> (\<exists>r x s. p' = (if transmits mode then more_tx (Some x) (Some s) else id) ((if receives mode then more_rx (Some r) else id) p))"

text \<open>The counters after the queues have been taken, and the pools after they have been made.\<close>

abbreviation counted :: "lcore_mode \<Rightarrow> l2p_port \<Rightarrow> l2p_port" where
  "counted mode p \<equiv> p\<lparr>num_rx_qids := num_rx_qids p + (if receives mode then 1 else 0),
                      num_tx_qids := num_tx_qids p + (if transmits mode then 1 else 0)\<rparr>"

lemma take_queuesD:
  assumes "take_queues pid mode lp t = Inr (lp', t')"
  shows "t' = t\<lparr>ports := (ports t)(pid := counted mode (ports t pid))\<rparr>"
    and "lp_mode lp' = lp_mode lp" "lp_lid lp' = lp_lid lp" "lp_port lp' = lp_port lp" "mode \<noteq> LCORE_MODE_UNKNOWN"
    and "receives mode \<Longrightarrow> num_rx_qids (ports t pid) < MAX_QUEUES_PER_PORT \<and> lp_rx_qid lp' = num_rx_qids (ports t pid)"
    and "transmits mode \<Longrightarrow> num_tx_qids (ports t pid) < MAX_QUEUES_PER_PORT \<and> lp_tx_qid lp' = num_tx_qids (ports t pid)"
    and "lp' = lp\<lparr>lp_rx_qid := if receives mode then num_rx_qids (ports t pid) else lp_rx_qid lp,
                   lp_tx_qid := if transmits mode then num_tx_qids (ports t pid) else lp_tx_qid lp\<rparr>"
  using assms by (cases mode; auto simp: take_queues_def Let_def split: if_splits)+

lemma rx_stepD:
  assumes "(if receives mode then rx_pool env pid q st else Inr st) = Inr st'"
  obtains f where "st_l2p st' = upd_port pid (\<lambda>p. p\<lparr>rx_mp := f\<rparr>) (st_l2p st)"
    and "\<exists>r. f = (if receives mode then (rx_mp (ports (st_l2p st) pid))(q := Some r) else rx_mp (ports (st_l2p st) pid))"
proof (cases "receives mode")
  case True
  then have "rx_pool env pid q st = Inr st'" using assms by simp
  then obtain r where "st_l2p st' = upd_port pid (\<lambda>p. p\<lparr>rx_mp := (rx_mp p)(q := Some r)\<rparr>) (st_l2p st)" by (rule rx_poolD)
  then show ?thesis using True by (intro that [of "(rx_mp (ports (st_l2p st) pid))(q := Some r)"]) auto
next
  case False
  then show ?thesis using assms by (intro that [of "rx_mp (ports (st_l2p st) pid)"]) simp_all
qed

lemma tx_stepD:
  assumes "(if transmits mode then and_then (tx_pool env pid q st) (sp_pool env pid q) else Inr st) = Inr st'"
  obtains f g where "st_l2p st' = upd_port pid (\<lambda>p. p\<lparr>tx_mp := f, sp_mp := g\<rparr>) (st_l2p st)"
    and "\<exists>x s. f = (if transmits mode then (tx_mp (ports (st_l2p st) pid))(q := Some x) else tx_mp (ports (st_l2p st) pid))
      \<and> g = (if transmits mode then (sp_mp (ports (st_l2p st) pid))(q := Some s) else sp_mp (ports (st_l2p st) pid))"
proof (cases "transmits mode")
  case True
  then obtain st1 where 1: "tx_pool env pid q st = Inr st1" and 2: "sp_pool env pid q st1 = Inr st'"
    using assms by (auto simp: and_then_Inr)
  obtain x where x: "st_l2p st1 = upd_port pid (\<lambda>p. p\<lparr>tx_mp := (tx_mp p)(q := Some x)\<rparr>) (st_l2p st)" using tx_poolD [OF 1] .
  obtain s where s: "st_l2p st' = upd_port pid (\<lambda>p. p\<lparr>sp_mp := (sp_mp p)(q := Some s)\<rparr>) (st_l2p st1)" using sp_poolD [OF 2] .
  show ?thesis
  proof (rule that)
    show "st_l2p st' = upd_port pid (\<lambda>p. p\<lparr>tx_mp := (tx_mp (ports (st_l2p st) pid))(q := Some x),
        sp_mp := (sp_mp (ports (st_l2p st) pid))(q := Some s)\<rparr>) (st_l2p st)"
      by (simp add: s x)
  qed (simp only: True if_True, blast)
next
  case False
  then show ?thesis using assms
    by (intro that [where f = "tx_mp (ports (st_l2p st) pid)" and g = "sp_mp (ports (st_l2p st) pid)"]) simp_all
qed

lemma assign_coreD:
  assumes a: "assign_core env pid mode l st = Inr st'"
  obtains lp p' where "st_l2p st' = (st_l2p st)\<lparr>lports := (lports (st_l2p st))(l := Some lp), ports := (ports (st_l2p st))(pid := p')\<rparr>"
    and "serves mode (ports (st_l2p st) pid) lp p'" and "lp_port lp = Some pid"
    and "lp_lid lp = (case lports (st_l2p st) l of None \<Rightarrow> l | Some lp0 \<Rightarrow> lp_lid lp0)"
    and "lports (st_l2p st) l = None \<Longrightarrow> lp = \<lparr>lp_mode = mode, lp_lid = l,
      lp_rx_qid = (if receives mode then num_rx_qids (ports (st_l2p st) pid) else 0),
      lp_tx_qid = (if transmits mode then num_tx_qids (ports (st_l2p st) pid) else 0), lp_port = Some pid\<rparr>"
proof -
  let ?t = "st_l2p st" and ?p = "ports (st_l2p st) pid"
  obtain lp0 lp t st2 where
    g: "get_lport env l ?t = Inr lp0" and
    q: "take_queues pid mode (lp0\<lparr>lp_port := Some pid, lp_mode := mode\<rparr>) ?t = Inr (lp, t)" and
    r: "(if receives mode then rx_pool env pid (lp_rx_qid lp) (st\<lparr>st_l2p := t\<lparr>lports := (lports t)(l := Some lp)\<rparr>\<rparr>)
         else Inr (st\<lparr>st_l2p := t\<lparr>lports := (lports t)(l := Some lp)\<rparr>\<rparr>)) = Inr st2" and
    s: "(if transmits mode then and_then (tx_pool env pid (lp_tx_qid lp) st2) (sp_pool env pid (lp_tx_qid lp)) else Inr st2) = Inr st'"
    using a unfolding assign_core_def Let_def
    by (elim and_then_InrE) (simp only: split_paired_all prod.case, elim and_then_InrE, blast)
  have lid: "lp_lid lp0 = (case lports ?t l of None \<Rightarrow> l | Some lp0 \<Rightarrow> lp_lid lp0)"
    using g by (auto simp: get_lport_def split: option.splits if_splits)
  note t = take_queuesD [OF q]
  have fresh: "lp = \<lparr>lp_mode = mode, lp_lid = l, lp_rx_qid = (if receives mode then num_rx_qids ?p else 0),
      lp_tx_qid = (if transmits mode then num_tx_qids ?p else 0), lp_port = Some pid\<rparr>" if "lports ?t l = None"
    using g that by (subst t(8)) (auto simp: get_lport_def split: if_splits)
  have e: "st_l2p (st\<lparr>st_l2p := t1\<rparr>) = t1" and e1: "ports (t\<lparr>lports := L\<rparr>) = ports t" for t1 L by simp_all
  obtain f where f: "st_l2p st2 = upd_port pid (\<lambda>p. p\<lparr>rx_mp := f\<rparr>) (t\<lparr>lports := (lports t)(l := Some lp)\<rparr>)"
      "\<exists>r. f = (if receives mode then (rx_mp (ports t pid))(lp_rx_qid lp := Some r) else rx_mp (ports t pid))"
    by (rule rx_stepD [OF r, unfolded e]) (unfold e1, blast)
  obtain g h where gh: "st_l2p st' = upd_port pid (\<lambda>p. p\<lparr>tx_mp := g, sp_mp := h\<rparr>) (st_l2p st2)"
      "\<exists>x s. g = (if transmits mode then (tx_mp (ports (st_l2p st2) pid))(lp_tx_qid lp := Some x) else tx_mp (ports (st_l2p st2) pid))
        \<and> h = (if transmits mode then (sp_mp (ports (st_l2p st2) pid))(lp_tx_qid lp := Some s) else sp_mp (ports (st_l2p st2) pid))"
    by (rule tx_stepD [OF s])
  let ?p' = "(counted mode ?p)\<lparr>rx_mp := f, tx_mp := g, sp_mp := h\<rparr>"
  have old: "rx_mp (ports t pid) = rx_mp ?p" "tx_mp (ports (st_l2p st2) pid) = tx_mp ?p" "sp_mp (ports (st_l2p st2) pid) = sp_mp ?p"
    by (simp_all add: t(1) f(1))
  obtain x r s where pools: "f = (if receives mode then (rx_mp ?p)(lp_rx_qid lp := Some r) else rx_mp ?p)"
      "g = (if transmits mode then (tx_mp ?p)(lp_tx_qid lp := Some x) else tx_mp ?p)"
      "h = (if transmits mode then (sp_mp ?p)(lp_tx_qid lp := Some s) else sp_mp ?p)"
    using f(2) gh(2) unfolding old by blast
  have p': "?p' = (if transmits mode then more_tx (Some x) (Some s) else id) ((if receives mode then more_rx (Some r) else id) ?p)"
    unfolding pools using t(6,7) by (cases mode) (simp_all add: more_rx_def more_tx_def)
  have serve: "serves mode ?p lp ?p'"
    unfolding serves_def using t(2,5,6,7) p' by auto
  have st': "st_l2p st' = ?t\<lparr>lports := (lports ?t)(l := Some lp), ports := (ports ?t)(pid := ?p')\<rparr>"
    by (simp add: gh(1) f(1) t(1))
  show thesis by (rule that [OF st' serve _ _ fresh]) (simp_all add: t(3,4) lid)
qed

section \<open>The table of ports and cores\<close>

text \<open>The receive and the transmit queue of a core that serves one.\<close>

definition rx_of :: "l2p_lport \<Rightarrow> (nat \<times> nat) option" where
  "rx_of lp = (case lp_port lp of Some p \<Rightarrow> if receives (lp_mode lp) then Some (p, lp_rx_qid lp) else None | None \<Rightarrow> None)"

definition tx_of :: "l2p_lport \<Rightarrow> (nat \<times> nat) option" where
  "tx_of lp = (case lp_port lp of Some p \<Rightarrow> if transmits (lp_mode lp) then Some (p, lp_tx_qid lp) else None | None \<Rightarrow> None)"

text \<open>A port has at most 32 queues of a kind and a pool for each.\<close>

definition port_ok :: "l2p_port \<Rightarrow> bool" where
  "port_ok p \<longleftrightarrow> num_rx_qids p \<le> MAX_QUEUES_PER_PORT \<and> num_tx_qids p \<le> MAX_QUEUES_PER_PORT
     \<and> (\<forall>q < num_rx_qids p. rx_mp p q \<noteq> None) \<and> (\<forall>q < num_tx_qids p. tx_mp p q \<noteq> None \<and> sp_mp p q \<noteq> None)"

text \<open>A core knows its number, serves an attached port, and its queues are queues of that port.\<close>

definition core_ok :: "(nat \<Rightarrow> l2p_port) \<Rightarrow> nat \<Rightarrow> l2p_lport \<Rightarrow> bool" where
  "core_ok ps l lp \<longleftrightarrow> lp_lid lp = l \<and> l < RTE_MAX_LCORE \<and> lp_mode lp \<noteq> LCORE_MODE_UNKNOWN
     \<and> (\<exists>p < RTE_MAX_ETHPORTS. lp_port lp = Some p \<and> l_pid (ps p) = p
          \<and> (receives (lp_mode lp) \<longrightarrow> lp_rx_qid lp < num_rx_qids (ps p))
          \<and> (transmits (lp_mode lp) \<longrightarrow> lp_tx_qid lp < num_tx_qids (ps p)))"

text \<open>No two cores serve the same queue.\<close>

definition l2p_ok :: "l2p \<Rightarrow> bool" where
  "l2p_ok t \<longleftrightarrow> (\<forall>p. port_ok (ports t p)) \<and> (\<forall>l lp. lports t l = Some lp \<longrightarrow> core_ok (ports t) l lp)
     \<and> (\<forall>l l' lp lp'. l \<noteq> l' \<and> lports t l = Some lp \<and> lports t l' = Some lp' \<longrightarrow>
          (rx_of lp = None \<or> rx_of lp \<noteq> rx_of lp') \<and> (tx_of lp = None \<or> tx_of lp \<noteq> tx_of lp'))"

text \<open>A new queue has the number of the queues before.\<close>

lemma serves_facts:
  assumes "serves mode p lp p'" and "port_ok p"
  shows "port_ok p'" "num_rx_qids p' = num_rx_qids p + (if receives mode then 1 else 0)"
    "num_tx_qids p' = num_tx_qids p + (if transmits mode then 1 else 0)" "l_pid p' = l_pid p"
    "lp_mode lp = mode" "mode \<noteq> LCORE_MODE_UNKNOWN"
    "receives mode \<Longrightarrow> lp_rx_qid lp = num_rx_qids p" "transmits mode \<Longrightarrow> lp_tx_qid lp = num_tx_qids p"
  using assms by (cases mode; auto simp: serves_def port_ok_def more_rx_def more_tx_def less_Suc_eq)+

lemma core_ok_grow:
  assumes "core_ok ps l lp" and "num_rx_qids (ps pid) \<le> num_rx_qids p'" "num_tx_qids (ps pid) \<le> num_tx_qids p'" "l_pid p' = l_pid (ps pid)"
  shows "core_ok (ps(pid := p')) l lp"
  using assms unfolding core_ok_def by (auto simp: order_less_le_trans)

text \<open>The queues of the cores of a good table lie below the counters of their ports.\<close>

lemma queue_below:
  assumes "core_ok ps l lp"
  shows "rx_of lp = Some (p, q) \<Longrightarrow> q < num_rx_qids (ps p)" "tx_of lp = Some (p, q) \<Longrightarrow> q < num_tx_qids (ps p)"
  using assms by (auto simp: core_ok_def rx_of_def tx_of_def split: if_splits)

lemma assign_core_ok:
  assumes "assign_core env pid mode l st = Inr st'" and ok: "l2p_ok (st_l2p st)"
    and port: "pid < RTE_MAX_ETHPORTS" "l_pid (ports (st_l2p st) pid) = pid" and l: "l < RTE_MAX_LCORE"
  shows "l2p_ok (st_l2p st')" and "l_pid (ports (st_l2p st') pid) = pid"
proof -
  let ?t = "st_l2p st" and ?p = "ports (st_l2p st) pid"
  obtain lp p' where t': "st_l2p st' = ?t\<lparr>lports := (lports ?t)(l := Some lp), ports := (ports ?t)(pid := p')\<rparr>"
    and serve: "serves mode ?p lp p'" and lp: "lp_port lp = Some pid"
      "lp_lid lp = (case lports ?t l of None \<Rightarrow> l | Some lp0 \<Rightarrow> lp_lid lp0)"
    using assign_coreD [OF assms(1)] .
  have ps: "\<And>q. port_ok (ports ?t q)" and cs: "\<And>k k0. lports ?t k = Some k0 \<Longrightarrow> core_ok (ports ?t) k k0"
    and ds: "\<And>k k' c c'. k \<noteq> k' \<Longrightarrow> lports ?t k = Some c \<Longrightarrow> lports ?t k' = Some c' \<Longrightarrow>
          (rx_of c = None \<or> rx_of c \<noteq> rx_of c') \<and> (tx_of c = None \<or> tx_of c \<noteq> tx_of c')"
    using ok by (auto simp: l2p_ok_def)
  note s = serves_facts [OF serve ps]
  have lid: "lp_lid lp = l" using lp(2) cs by (auto simp: core_ok_def split: option.splits)
  have new: "core_ok ((ports ?t)(pid := p')) l lp"
    using lid lp(1) s port l by (auto simp: core_ok_def)
  have old: "core_ok ((ports ?t)(pid := p')) k c" if "lports ?t k = Some c" for k c
    using core_ok_grow [OF cs [OF that], of pid p'] s(2-4) by simp
  have rx: "rx_of lp = None \<or> rx_of lp \<noteq> rx_of c" and tx: "tx_of lp = None \<or> tx_of lp \<noteq> tx_of c"
    if "lports ?t k = Some c" for k c
    using queue_below [OF cs [OF that], of pid] lp(1) s(5,7,8)
    by (auto simp: rx_of_def [of lp] tx_of_def [of lp] dest: sym)
  show "l_pid (ports (st_l2p st') pid) = pid" using port s(4) by (simp add: t')
  show "l2p_ok (st_l2p st')"
    unfolding l2p_ok_def
  proof (intro conjI allI impI)
    fix q show "port_ok (ports (st_l2p st') q)" using ps s(1) by (simp add: t')
  next
    fix k c assume "lports (st_l2p st') k = Some c"
    then show "core_ok (ports (st_l2p st')) k c" using new old by (auto simp: t' split: if_splits)
  next
    fix k k' c c' assume a: "k \<noteq> k' \<and> lports (st_l2p st') k = Some c \<and> lports (st_l2p st') k' = Some c'"
    then show "rx_of c = None \<or> rx_of c \<noteq> rx_of c'" "tx_of c = None \<or> tx_of c \<noteq> tx_of c'"
      using ds [of k k' c c'] rx [of k' c'] tx [of k' c'] rx [of k c] tx [of k c]
      by (auto simp: t' split: if_splits)
  qed
qed

text \<open>It is kept by the loop, by a mapping and by all of them.\<close>

lemma cores_loop_step:
  assumes "0 \<le> l" "l < int RTE_MAX_LCORE" "assign_core env pid mode (nat l) st = Inr st1"
  shows "cores_loop env pid mode l h n st =
    (if l < h then cores_loop env pid mode (l + 1) h (n + 1) st1 else Some (Inr (n + 1, st1)))"
  using assms by (subst cores_loop.simps) simp

lemma cores_loop_ok:
  assumes "cores_loop env pid mode l h n st = Some (Inr (n', st'))" and "l2p_ok (st_l2p st)"
    and "pid < RTE_MAX_ETHPORTS" "l_pid (ports (st_l2p st) pid) = pid"
  shows "l2p_ok (st_l2p st') \<and> l_pid (ports (st_l2p st') pid) = pid \<and> n < n'"
  using assms
proof (induction env pid mode l h n st rule: cores_loop.induct)
  case (1 env pid mode l h n st)
  have l: "0 \<le> l" "nat l < RTE_MAX_LCORE"
    using 1(2) by (auto simp: cores_loop.simps [of env pid mode l] split: if_splits)
  then have l': "\<not> (l < 0 \<or> l \<ge> int RTE_MAX_LCORE)" "l < int RTE_MAX_LCORE" by auto
  obtain st1 where a: "assign_core env pid mode (nat l) st = Inr st1"
    using 1(2) l by (auto simp: cores_loop.simps [of env pid mode l] split: sum.splits if_splits)
  note ok = assign_core_ok [OF a 1(3-5) l(2)]
  show ?case
  proof (cases "l < h")
    case True
    then have "cores_loop env pid mode (l + 1) h (n + 1) st1 = Some (Inr (n', st'))"
      using 1(2) cores_loop_step [OF l(1) l'(2) a] by simp
    from 1(1) [OF l'(1) a True this ok(1) 1(4) ok(2)] show ?thesis by simp
  next
    case False
    then show ?thesis using 1(2) cores_loop_step [OF l(1) l'(2) a] ok by simp
  qed
qed

lemma attach_ok:
  assumes "l2p_ok t"
  shows "l2p_ok ((upd_port pid (\<lambda>p. p\<lparr>l_pid := pid\<rparr>) t)\<lparr>num_ports := n\<rparr>)"
proof -
  have "core_ok ((ports t)(pid := (ports t pid)\<lparr>l_pid := pid\<rparr>)) l lp" if "core_ok (ports t) l lp" for l lp
    using that by (auto simp: core_ok_def)
  moreover have "port_ok ((ports t pid)\<lparr>l_pid := pid\<rparr>)" using assms by (simp add: l2p_ok_def port_ok_def)
  ultimately show ?thesis using assms by (simp add: l2p_ok_def)
qed

lemma parse_cores_ok:
  assumes "parse_cores env pid cores mode st = Some (Inr (n', st'))" and "l2p_ok (st_l2p st)"
    and "pid < RTE_MAX_ETHPORTS" "l_pid (ports (st_l2p st) pid) = pid"
  shows "l2p_ok (st_l2p st') \<and> l_pid (ports (st_l2p st') pid) = pid \<and> 0 < n'"
proof -
  obtain l h where "cores_loop env pid mode l h 0 st = Some (Inr (n', st'))"
    using assms(1) by (auto simp: parse_cores_def Let_def split: if_splits option.splits)
  then show ?thesis using cores_loop_ok assms(2-4) by blast
qed

lemma need_coresD:
  assumes "need_cores r k = Some (Inr (rc, st'))"
  obtains n st where "r = Some (Inr (n, st))" and "n = 0 \<Longrightarrow> rc = -1 \<and> st' = st" and "n \<noteq> 0 \<Longrightarrow> k st = Some (Inr (rc, st'))"
proof -
  obtain n st where r: "r = Some (Inr (n, st))"
    using assms by (auto simp: need_cores_def split: option.splits sum.splits)
  show thesis using assms by (intro that [OF r]) (auto simp: need_cores_def r)
qed

lemma parse_mapping_ok:
  assumes "parse_mapping env m st = Some (Inr (rc, st'))" and ok: "l2p_ok (st_l2p st)"
  shows "l2p_ok (st_l2p st') \<and> (rc = 0 \<or> rc = -1)"
proof (cases "rc = -1 \<and> st' = st")
  case True
  then show ?thesis using ok by simp
next
  case False
  define st1 where "st1 pid = upd_l2p (\<lambda>t. (upd_port pid (\<lambda>p. p\<lparr>l_pid := pid\<rparr>) t)\<lparr>num_ports := num_ports t + 1\<rparr>) st" for pid
  have st1: "l2p_ok (st_l2p (st1 pid))" "l_pid (ports (st_l2p (st1 pid)) pid) = pid" for pid
    using attach_ok [OF ok] by (simp_all add: st1_def)
  obtain pid c0 c1 where pid: "pid < RTE_MAX_ETHPORTS" and
    r: "rc = -1 \<and> st' = st1 pid \<or> need_cores (parse_cores env pid c0 LCORE_MODE_BOTH (st1 pid)) (\<lambda>st2. Some (Inr (0, st2))) = Some (Inr (rc, st'))
      \<or> need_cores (parse_cores env pid c0 LCORE_MODE_RX (st1 pid))
          (\<lambda>st2. need_cores (parse_cores env pid c1 LCORE_MODE_TX st2) (\<lambda>st3. Some (Inr (0, st3)))) = Some (Inr (rc, st'))"
    using assms(1) False unfolding parse_mapping_def Let_def st1_def [symmetric]
    by (auto simp: not_le split: if_splits option.splits) blast+
  from r show ?thesis
  proof (elim disjE)
    assume "rc = -1 \<and> st' = st1 pid"
    then show ?thesis using st1 by simp
  next
    assume "need_cores (parse_cores env pid c0 LCORE_MODE_BOTH (st1 pid)) (\<lambda>st2. Some (Inr (0, st2))) = Some (Inr (rc, st'))"
    then show ?thesis by (rule need_coresD) (use parse_cores_ok st1 pid in fastforce)
  next
    assume "need_cores (parse_cores env pid c0 LCORE_MODE_RX (st1 pid))
      (\<lambda>st2. need_cores (parse_cores env pid c1 LCORE_MODE_TX st2) (\<lambda>st3. Some (Inr (0, st3)))) = Some (Inr (rc, st'))"
    then obtain n2 st2 where 2: "parse_cores env pid c0 LCORE_MODE_RX (st1 pid) = Some (Inr (n2, st2))"
      "n2 \<noteq> 0 \<Longrightarrow> need_cores (parse_cores env pid c1 LCORE_MODE_TX st2) (\<lambda>st3. Some (Inr (0, st3))) = Some (Inr (rc, st'))"
      by (rule need_coresD) blast
    note ok2 = parse_cores_ok [OF 2(1) st1(1) pid st1(2)]
    then have "need_cores (parse_cores env pid c1 LCORE_MODE_TX st2) (\<lambda>st3. Some (Inr (0, st3))) = Some (Inr (rc, st'))"
      using 2(2) by simp
    then show ?thesis by (rule need_coresD) (use parse_cores_ok ok2 pid in fastforce)
  qed
qed

lemma parse_all_ok:
  "parse_all env ms st = Some (Inr (rc, st')) \<Longrightarrow> l2p_ok (st_l2p st) \<Longrightarrow> l2p_ok (st_l2p st') \<and> (rc = 0 \<or> rc = -1)"
proof (induction ms arbitrary: st)
  case (Cons m ms)
  then show ?case by (auto split: option.splits sum.splits if_splits dest!: parse_mapping_ok)
qed simp

lemma created_ok: "l2p_ok ((l2p_create l2p_zero)\<lparr>mappings := ms\<rparr>)"
  by (simp add: l2p_ok_def l2p_create_def l2p_zero_def port_ok_def)

text \<open>What the receive and transmit loops ask of a good table.\<close>

lemma core_pools:
  assumes "l2p_ok t" and "lports t l = Some lp"
  shows "\<exists>p < RTE_MAX_ETHPORTS. l2p_get_pid_by_lcore t l = Some p
    \<and> (receives (lp_mode lp) \<longrightarrow> l2p_get_rx_mp t p (l2p_get_rxqid t l) \<noteq> None)
    \<and> (transmits (lp_mode lp) \<longrightarrow> l2p_get_tx_mp t p (l2p_get_txqid t l) \<noteq> None \<and> l2p_get_sp_mp t p (l2p_get_txqid t l) \<noteq> None)"
proof -
  have c: "core_ok (ports t) l lp" and ps: "\<And>p. port_ok (ports t p)" using assms by (auto simp: l2p_ok_def)
  then obtain p where p: "l < RTE_MAX_LCORE" "p < RTE_MAX_ETHPORTS" "lp_port lp = Some p" "l_pid (ports t p) = p"
      "receives (lp_mode lp) \<longrightarrow> lp_rx_qid lp < num_rx_qids (ports t p)"
      "transmits (lp_mode lp) \<longrightarrow> lp_tx_qid lp < num_tx_qids (ports t p)"
    by (auto simp: core_ok_def)
  have rx: "lp_rx_qid lp < MAX_QUEUES_PER_PORT \<and> rx_mp (ports t p) (lp_rx_qid lp) \<noteq> None" if "receives (lp_mode lp)"
    using ps [of p] p(5) that unfolding port_ok_def by (meson order_less_le_trans)
  have tx: "lp_tx_qid lp < MAX_QUEUES_PER_PORT \<and> tx_mp (ports t p) (lp_tx_qid lp) \<noteq> None \<and> sp_mp (ports t p) (lp_tx_qid lp) \<noteq> None"
    if "transmits (lp_mode lp)" using ps [of p] p(6) that unfolding port_ok_def by (meson order_less_le_trans)
  show ?thesis
    using p assms(2) rx tx
    by (intro exI [of _ p])
      (auto simp: l2p_get_pid_by_lcore_def l2p_get_rxqid_def l2p_get_txqid_def l2p_get_rx_mp_def l2p_get_tx_mp_def l2p_get_sp_mp_def)
qed

section \<open>What a mapping gives\<close>

text \<open>Memory for everything.\<close>

definition plenty :: "l2p_env \<Rightarrow> bool" where
  "plenty env \<longleftrightarrow> (\<forall>l. alloc_lport env l) \<and> (\<forall>nm nb c s. new_pool env nm nb c s \<noteq> None)"

lemma pool_made: "plenty env \<Longrightarrow> \<exists>mp st'. l2p_pktmbuf_create env ty pid qid nb c st = Inr (mp, st')"
  by (fastforce simp: plenty_def l2p_pktmbuf_create_def Let_def split: option.split)

lemma pools_made:
  assumes "plenty env"
  shows "\<exists>st'. rx_pool env pid q st = Inr st'" "\<exists>st'. tx_pool env pid q st = Inr st'" "\<exists>st'. sp_pool env pid q st = Inr st'"
  using pool_made [OF assms, of "''RX''" pid q "MAX_MBUFS_PER_PORT 1024 1024" MEMPOOL_CACHE_SIZE st]
    pool_made [OF assms, of "''TX''" pid q "MAX_MBUFS_PER_PORT 1024 1024" MEMPOOL_CACHE_SIZE st]
    pool_made [OF assms, of "''SP''" pid q MAX_SPECIAL_MBUFS 0 st]
  by (auto simp: rx_pool_def tx_pool_def sp_pool_def simp del: One_nat_def)

text \<open>The object of a core that is new.\<close>

definition new_lport :: "lcore_mode \<Rightarrow> nat \<Rightarrow> nat \<Rightarrow> nat \<Rightarrow> nat \<Rightarrow> l2p_lport" where
  "new_lport mode pid l rx tx = \<lparr>lp_mode = mode, lp_lid = l, lp_rx_qid = (if receives mode then rx else 0),
     lp_tx_qid = (if transmits mode then tx else 0), lp_port = Some pid\<rparr>"

lemma assign_core_new:
  assumes "plenty env" "lports (st_l2p st) l = None" "mode \<noteq> LCORE_MODE_UNKNOWN" and p: "p = ports (st_l2p st) pid"
    and "receives mode \<longrightarrow> num_rx_qids p < MAX_QUEUES_PER_PORT" "transmits mode \<longrightarrow> num_tx_qids p < MAX_QUEUES_PER_PORT"
  obtains st' p' where "assign_core env pid mode l st = Inr st'"
    and "st_l2p st' = (st_l2p st)\<lparr>lports := (lports (st_l2p st))(l := Some (new_lport mode pid l (num_rx_qids p) (num_tx_qids p))),
           ports := (ports (st_l2p st))(pid := p')\<rparr>"
    and "num_rx_qids p' = num_rx_qids p + (if receives mode then 1 else 0)"
      "num_tx_qids p' = num_tx_qids p + (if transmits mode then 1 else 0)" "l_pid p' = l_pid p"
proof -
  obtain lp0 where 1: "get_lport env l (st_l2p st) = Inr lp0" using assms(1,2) by (simp add: get_lport_def plenty_def)
  obtain lp t where 2: "take_queues pid mode (lp0\<lparr>lp_port := Some pid, lp_mode := mode\<rparr>) (st_l2p st) = Inr (lp, t)"
    using assms(3,5,6) p by (cases mode) (simp_all add: take_queues_def Let_def)
  let ?st1 = "st\<lparr>st_l2p := t\<lparr>lports := (lports t)(l := Some lp)\<rparr>\<rparr>"
  obtain st2 where 3: "(if receives mode then rx_pool env pid (lp_rx_qid lp) ?st1 else Inr ?st1) = Inr st2"
    using pools_made(1) [OF assms(1), of pid "lp_rx_qid lp" ?st1] by (cases "receives mode") (simp_all only: if_True if_False, blast+)
  obtain st' where 4: "(if transmits mode then and_then (tx_pool env pid (lp_tx_qid lp) st2) (sp_pool env pid (lp_tx_qid lp)) else Inr st2) = Inr st'"
    using pools_made(2) [OF assms(1), of pid "lp_tx_qid lp" st2] pools_made(3) [OF assms(1), of pid "lp_tx_qid lp"]
    by (cases "transmits mode") (simp_all only: if_True if_False, (metis and_then_simps(2))+)
  have st': "assign_core env pid mode l st = Inr st'"
    unfolding assign_core_def Let_def 1 and_then_simps 2 prod.case 3 4 ..
  obtain lp1 p' where eq: "st_l2p st' = (st_l2p st)\<lparr>lports := (lports (st_l2p st))(l := Some lp1), ports := (ports (st_l2p st))(pid := p')\<rparr>"
    and serve: "serves mode p lp1 p'" and new: "lp1 = new_lport mode pid l (num_rx_qids p) (num_tx_qids p)"
    using assign_coreD [OF st'] assms(2) unfolding p new_lport_def by metis
  show thesis
    by (rule that [OF st' eq [unfolded new]]) (use serve in \<open>auto simp: serves_def more_rx_def more_tx_def\<close>)
qed

text \<open>The loop gives consecutive queues to consecutive cores.\<close>

lemma cores_loop_new:
  assumes "plenty env" "mode \<noteq> LCORE_MODE_UNKNOWN" "l \<le> h" "h < RTE_MAX_LCORE" "\<forall>i. l \<le> i \<and> i \<le> h \<longrightarrow> lports (st_l2p st) i = None"
    and "rx = num_rx_qids (ports (st_l2p st) pid)" "tx = num_tx_qids (ports (st_l2p st) pid)"
    and "receives mode \<longrightarrow> rx + (h - l) < MAX_QUEUES_PER_PORT" "transmits mode \<longrightarrow> tx + (h - l) < MAX_QUEUES_PER_PORT"
  shows "\<exists>st' p'. cores_loop env pid mode (int l) (int h) n st = Some (Inr (n + (h - l + 1), st'))
    \<and> lports (st_l2p st') = (\<lambda>i. if l \<le> i \<and> i \<le> h then Some (new_lport mode pid i (rx + (i - l)) (tx + (i - l))) else lports (st_l2p st) i)
    \<and> ports (st_l2p st') = (ports (st_l2p st))(pid := p') \<and> l_pid p' = l_pid (ports (st_l2p st) pid)
    \<and> num_rx_qids p' = rx + (if receives mode then h - l + 1 else 0) \<and> num_tx_qids p' = tx + (if transmits mode then h - l + 1 else 0)
    \<and> num_ports (st_l2p st') = num_ports (st_l2p st)"
  using assms
proof (induction "h - l" arbitrary: l n st rx tx)
  case 0
  then have l: "h = l" by simp
  obtain st' p' where a: "assign_core env pid mode l st = Inr st'"
    "st_l2p st' = (st_l2p st)\<lparr>lports := (lports (st_l2p st))(l := Some (new_lport mode pid l rx tx)), ports := (ports (st_l2p st))(pid := p')\<rparr>"
    "num_rx_qids p' = rx + (if receives mode then 1 else 0)" "num_tx_qids p' = tx + (if transmits mode then 1 else 0)"
    "l_pid p' = l_pid (ports (st_l2p st) pid)"
    by (rule assign_core_new [of env st l mode, OF 0(2) _ 0(3) refl, of pid]) (use 0 l in auto)
  have "cores_loop env pid mode (int l) (int h) n st = Some (Inr (n + 1, st'))"
    using cores_loop_step [of "int l" env pid mode st st' "int h" n] a(1) 0 l by simp
  moreover have "lports (st_l2p st') = (\<lambda>i. if l \<le> i \<and> i \<le> h then Some (new_lport mode pid i (rx + (i - l)) (tx + (i - l))) else lports (st_l2p st) i)"
    using a(2) l by (intro ext) auto
  ultimately show ?case using a l by (intro exI [of _ st'] exI [of _ p']) simp
next
  case (Suc k)
  then have lh: "l < h" by simp
  obtain st1 p1 where a: "assign_core env pid mode l st = Inr st1"
    "st_l2p st1 = (st_l2p st)\<lparr>lports := (lports (st_l2p st))(l := Some (new_lport mode pid l rx tx)), ports := (ports (st_l2p st))(pid := p1)\<rparr>"
    "num_rx_qids p1 = rx + (if receives mode then 1 else 0)" "num_tx_qids p1 = tx + (if transmits mode then 1 else 0)"
    "l_pid p1 = l_pid (ports (st_l2p st) pid)"
    by (rule assign_core_new [of env st l mode, OF Suc(3) _ Suc(4) refl, of pid]) (use Suc lh in auto)
  have step: "cores_loop env pid mode (int l) (int h) n st = cores_loop env pid mode (int (Suc l)) (int h) (n + 1) st1"
    using cores_loop_step [of "int l" env pid mode st st1 "int h" n] a(1) Suc(6) lh by (simp add: add.commute)
  have k: "k = h - Suc l" "Suc l \<le> h" using Suc(2) lh by simp_all
  have p1: "ports (st_l2p st1) pid = p1" by (simp add: a(2))
  have unused: "\<forall>i. Suc l \<le> i \<and> i \<le> h \<longrightarrow> lports (st_l2p st1) i = None" using Suc(7) by (simp add: a(2))
  have room: "receives mode \<longrightarrow> num_rx_qids p1 + (h - Suc l) < MAX_QUEUES_PER_PORT"
      "transmits mode \<longrightarrow> num_tx_qids p1 + (h - Suc l) < MAX_QUEUES_PER_PORT"
    using Suc(10,11) a(3,4) lh by (auto simp: Suc_diff_Suc)
  from Suc(1) [OF k(1) Suc(3,4) k(2) Suc(6) unused _ _ room, of "n + 1"]
  obtain st' p' where r: "cores_loop env pid mode (int (Suc l)) (int h) (n + 1) st1 = Some (Inr (n + 1 + (h - Suc l + 1), st'))"
    "lports (st_l2p st') = (\<lambda>i. if Suc l \<le> i \<and> i \<le> h
       then Some (new_lport mode pid i (num_rx_qids p1 + (i - Suc l)) (num_tx_qids p1 + (i - Suc l))) else lports (st_l2p st1) i)"
    "ports (st_l2p st') = (ports (st_l2p st1))(pid := p')" "l_pid p' = l_pid (ports (st_l2p st1) pid)"
    "num_rx_qids p' = num_rx_qids p1 + (if receives mode then h - Suc l + 1 else 0)"
    "num_tx_qids p' = num_tx_qids p1 + (if transmits mode then h - Suc l + 1 else 0)"
    "num_ports (st_l2p st') = num_ports (st_l2p st1)"
    unfolding p1 by blast
  have "lports (st_l2p st') = (\<lambda>i. if l \<le> i \<and> i \<le> h then Some (new_lport mode pid i (rx + (i - l)) (tx + (i - l))) else lports (st_l2p st) i)"
    unfolding r(2) using lh by (intro ext) (auto simp: a(2-4) new_lport_def Suc_diff_Suc not_le less_Suc_eq_le)
  then show ?case using r a lh unfolding step by (intro exI [of _ st'] exI [of _ p']) auto
qed

subsection \<open>The text of a mapping\<close>

text \<open>The bytes behind a literal are harmless when the walk in steps of two ends in them before it meets a digit.\<close>

fun harmless :: "string \<Rightarrow> bool" where
  "harmless [] = False"
| "harmless (c # m) = (c = CHR 0x00 \<or> \<not> isdigit c \<and> harmless (drop 1 m))"

lemma trim_walk_digit: "harmless mem \<Longrightarrow> s \<noteq> [] \<Longrightarrow> isdigit (hd s) \<Longrightarrow> trim_walk mem front s = Some (front, s)"
  by (induction mem rule: harmless.induct) auto

lemma trim_digit:
  assumes "s \<noteq> []" "isdigit (hd s)"
  shows "trim_sets env s = Some ([], s)"
proof -
  have "\<not> isdigit (CHR ''['')" "\<not> isdigit (CHR ''{'')" by code_simp+
  then have "hd s \<noteq> CHR ''[''" "hd s \<noteq> CHR ''{''" using assms(2) by metis+
  then show ?thesis by (simp add: trim_sets_def pg_strtrimset_def)
qed

lemma trim_brackets:
  assumes "s \<noteq> []" "isdigit (hd s)" "harmless (behind_square env)"
  shows "trim_sets env (''['' @ s @ '']'') = Some (''['', s)"
proof -
  have "\<not> isdigit (CHR ''{'')" by code_simp
  then have "hd s \<noteq> CHR ''{''" using assms(2) by metis
  then show ?thesis using assms by (simp add: trim_sets_def pg_strtrimset_def trim_walk_digit)
qed

definition cores_text :: "nat \<Rightarrow> nat \<Rightarrow> string" where "cores_text a b = dec a @ ''-'' @ dec b"

definition mapping_text :: "nat \<Rightarrow> nat \<Rightarrow> nat \<Rightarrow> nat \<Rightarrow> nat \<Rightarrow> string" where
  "mapping_text a b c d p = ''['' @ cores_text a b @ '':'' @ cores_text c d @ ''].'' @ dec p"

lemma dec_chars: "x \<in> set (dec n) \<Longrightarrow> isdigit x" using dec_digits by (auto simp: list_all_iff)

lemma dec_hd: "isdigit (hd (dec n))" by (rule dec_chars [of _ n]) (simp add: hd_in_set)

lemma not_digits: "\<not> isdigit (CHR ''-'')" "\<not> isdigit (CHR '':'')" "\<not> isdigit (CHR ''.'')" by code_simp+

lemma dec_without: "CHR ''-'' \<notin> set (dec n)" "CHR '':'' \<notin> set (dec n)" "CHR ''.'' \<notin> set (dec n)"
  using dec_chars not_digits by blast+

lemma int_of_long_small: "n < 2 ^ 31 \<Longrightarrow> int_of_long (int n) = int n"
  by (simp add: int_of_long_def signed_of_nat signed_take_bit_int_eq_self)

lemma parse_cores_range:
  assumes "a < 1000" "b < 1000"
  shows "parse_cores env pid (cores_text a b) mode st = cores_loop env pid mode (int a) (int b) 0 st"
proof -
  have len: "length (dec a) \<le> 3" "length (dec b) \<le> 3" using length_dec [of _ 3] assms by simp_all
  then have t: "take (MAX_ALLOCA_SIZE - 2) (cores_text a b) = cores_text a b" by (simp add: cores_text_def MAX_ALLOCA_SIZE_def)
  have s: "rte_strsplit 3 (CHR ''-'') (cores_text a b) = [dec a, dec b]"
    using strsplit_join [of "[dec a, dec b]" "CHR ''-''" 3] dec_without(1) by (simp add: cores_text_def)
  have tr: "trim_pair env [dec a, dec b] = Some (dec a, dec b)"
    by (simp add: trim_pair_def trim_digit dec_hd)
  have "int_of_long (fst (strtol 10 (dec n))) = int n" if "n < 1000" for n
    using strtol_dec [of n "[]"] int_of_long_small [of n] that by simp
  then show ?thesis using assms unfolding parse_cores_def t s Let_def tr by simp
qed

lemma cores_text_facts:
  "cores_text a b \<noteq> []" "isdigit (hd (cores_text a b))" "CHR '':'' \<notin> set (cores_text a b)" "CHR ''.'' \<notin> set (cores_text a b)"
  using dec_hd [of a] dec_without by (auto simp: cores_text_def)

text \<open>The fields of a mapping.\<close>

lemma mapping_fields:
  assumes "a < 1000" "b < 1000" "c < 1000" "d < 1000" "p < 1000" and h: "harmless (behind_square env)"
  shows "\<exists>fs. rte_strsplit 3 (CHR ''.'') (take (MAX_ALLOCA_SIZE - 2) (mapping_text a b c d p)) = fs \<and> length fs = 2
      \<and> trim_pair env fs = Some (cores_text a b @ '':'' @ cores_text c d, dec p)"
    and "\<exists>cs. rte_strsplit 3 (CHR '':'') (cores_text a b @ '':'' @ cores_text c d) = cs \<and> length cs = 2
      \<and> trim_pair env cs = Some (cores_text a b, cores_text c d)"
proof -
  let ?cs = "cores_text a b @ '':'' @ cores_text c d"
  have l: "length (dec n) \<le> 3" if "n < 1000" for n using length_dec [of n 3] that by simp
  have "length (mapping_text a b c d p) \<le> 1022"
    using l [OF assms(1)] l [OF assms(2)] l [OF assms(3)] l [OF assms(4)] l [OF assms(5)] by (simp add: mapping_text_def cores_text_def)
  then have t: "take (MAX_ALLOCA_SIZE - 2) (mapping_text a b c d p) = mapping_text a b c d p" by (simp add: MAX_ALLOCA_SIZE_def)
  have m: "mapping_text a b c d p = join ''.'' [''['' @ ?cs @ '']'', dec p]" by (simp add: mapping_text_def)
  have "rte_strsplit 3 (CHR ''.'') (mapping_text a b c d p) = [''['' @ ?cs @ '']'', dec p]"
    unfolding m by (rule strsplit_join) (use cores_text_facts(4) dec_without(3) in auto)
  moreover have "trim_pair env [''['' @ ?cs @ '']'', dec p] = Some (?cs, dec p)"
    using trim_brackets [of ?cs env] trim_digit [of "dec p" env] cores_text_facts(1,2) [of a b] h
    by (simp add: trim_pair_def dec_hd)
  ultimately show "\<exists>fs. rte_strsplit 3 (CHR ''.'') (take (MAX_ALLOCA_SIZE - 2) (mapping_text a b c d p)) = fs \<and> length fs = 2
      \<and> trim_pair env fs = Some (?cs, dec p)" unfolding t by simp
  have c: "?cs = join '':'' [cores_text a b, cores_text c d]" by simp
  have "rte_strsplit 3 (CHR '':'') ?cs = [cores_text a b, cores_text c d]"
    unfolding c by (rule strsplit_join) (use cores_text_facts(1,3) in auto)
  moreover have "trim_pair env [cores_text a b, cores_text c d] = Some (cores_text a b, cores_text c d)"
    by (simp add: trim_pair_def trim_digit cores_text_facts)
  ultimately show "\<exists>cs. rte_strsplit 3 (CHR '':'') ?cs = cs \<and> length cs = 2
      \<and> trim_pair env cs = Some (cores_text a b, cores_text c d)" by simp
qed

lemma port_of_text: "p < RTE_MAX_ETHPORTS \<Longrightarrow> unat (word_of_int (fst (strtol 10 (dec p))) :: u16) = p"
  using strtol_dec [of p "[]"] by (simp add: RTE_MAX_ETHPORTS_def unat_of_nat)

lemma mapping_text_parsed:
  assumes "a < 1000" "b < 1000" "c < 1000" "d < 1000" "p < RTE_MAX_ETHPORTS" "harmless (behind_square env)"
  shows "parse_mapping env (mapping_text a b c d p) st =
    need_cores (cores_loop env p LCORE_MODE_RX (int a) (int b) 0
        (upd_l2p (\<lambda>t. (upd_port p (\<lambda>q. q\<lparr>l_pid := p\<rparr>) t)\<lparr>num_ports := num_ports t + 1\<rparr>) st))
      (\<lambda>st2. need_cores (cores_loop env p LCORE_MODE_TX (int c) (int d) 0 st2) (\<lambda>st3. Some (Inr (0, st3))))"
proof -
  have p: "p < 1000" using assms(5) by (simp add: RTE_MAX_ETHPORTS_def)
  obtain fs cs where f: "rte_strsplit 3 (CHR ''.'') (take (MAX_ALLOCA_SIZE - 2) (mapping_text a b c d p)) = fs" "length fs = 2"
      "trim_pair env fs = Some (cores_text a b @ '':'' @ cores_text c d, dec p)"
    and c: "rte_strsplit 3 (CHR '':'') (cores_text a b @ '':'' @ cores_text c d) = cs" "length cs = 2"
      "trim_pair env cs = Some (cores_text a b, cores_text c d)"
    using mapping_fields [OF assms(1-4) p assms(6)] by blast
  have "mapping_text a b c d p \<noteq> []" by (simp add: mapping_text_def)
  then show ?thesis
    unfolding parse_mapping_def Let_def f(1,3) option.case prod.case port_of_text [OF assms(5)] c(1,3)
    using f(2) c(2) assms(5) parse_cores_range [OF assms(1,2)] parse_cores_range [OF assms(3,4)] by simp
qed

lemma cores_loop_rx:
  assumes "plenty env" "l \<le> h" "h < RTE_MAX_LCORE"
    and st: "lports (st_l2p st) = L" "ports (st_l2p st) = P" "num_ports (st_l2p st) = k" "P pid = p"
    and "\<forall>i. l \<le> i \<and> i \<le> h \<longrightarrow> L i = None" "num_rx_qids p + (h - l) < MAX_QUEUES_PER_PORT"
  obtains st' p' where "cores_loop env pid LCORE_MODE_RX (int l) (int h) 0 st = Some (Inr (h - l + 1, st'))"
    and "lports (st_l2p st') = (\<lambda>i. if l \<le> i \<and> i \<le> h
           then Some \<lparr>lp_mode = LCORE_MODE_RX, lp_lid = i, lp_rx_qid = num_rx_qids p + (i - l), lp_tx_qid = 0, lp_port = Some pid\<rparr> else L i)"
    and "ports (st_l2p st') = P(pid := p')" "l_pid p' = l_pid p" "num_rx_qids p' = num_rx_qids p + (h - l + 1)"
      "num_tx_qids p' = num_tx_qids p" "num_ports (st_l2p st') = k"
  using cores_loop_new [of env LCORE_MODE_RX l h st "num_rx_qids p" pid "num_tx_qids p" 0] assms
  unfolding st by (auto simp: new_lport_def cong: if_cong)

lemma cores_loop_tx:
  assumes "plenty env" "l \<le> h" "h < RTE_MAX_LCORE"
    and st: "lports (st_l2p st) = L" "ports (st_l2p st) = P" "num_ports (st_l2p st) = k" "P pid = p"
    and "\<forall>i. l \<le> i \<and> i \<le> h \<longrightarrow> L i = None" "num_tx_qids p + (h - l) < MAX_QUEUES_PER_PORT"
  obtains st' p' where "cores_loop env pid LCORE_MODE_TX (int l) (int h) 0 st = Some (Inr (h - l + 1, st'))"
    and "lports (st_l2p st') = (\<lambda>i. if l \<le> i \<and> i \<le> h
           then Some \<lparr>lp_mode = LCORE_MODE_TX, lp_lid = i, lp_rx_qid = 0, lp_tx_qid = num_tx_qids p + (i - l), lp_port = Some pid\<rparr> else L i)"
    and "ports (st_l2p st') = P(pid := p')" "l_pid p' = l_pid p" "num_tx_qids p' = num_tx_qids p + (h - l + 1)"
      "num_rx_qids p' = num_rx_qids p" "num_ports (st_l2p st') = k"
  using cores_loop_new [of env LCORE_MODE_TX l h st "num_rx_qids p" pid "num_tx_qids p" 0] assms
  unfolding st by (auto simp: new_lport_def cong: if_cong)

lemma mapping_runs:
  assumes "a \<le> b" "b < RTE_MAX_LCORE" "c \<le> d" "d < RTE_MAX_LCORE" "b < c \<or> d < a" "p < RTE_MAX_ETHPORTS"
    and "plenty env" "harmless (behind_square env)"
    and "rx = num_rx_qids (ports (st_l2p st) p)" "tx = num_tx_qids (ports (st_l2p st) p)"
    and "rx + (b - a) < MAX_QUEUES_PER_PORT" "tx + (d - c) < MAX_QUEUES_PER_PORT"
    and "\<forall>i. a \<le> i \<and> i \<le> b \<or> c \<le> i \<and> i \<le> d \<longrightarrow> lports (st_l2p st) i = None"
  obtains st' p' where "parse_mapping env (mapping_text a b c d p) st = Some (Inr (0, st'))"
    and "lports (st_l2p st') = (\<lambda>i. if a \<le> i \<and> i \<le> b
          then Some \<lparr>lp_mode = LCORE_MODE_RX, lp_lid = i, lp_rx_qid = rx + (i - a), lp_tx_qid = 0, lp_port = Some p\<rparr>
        else if c \<le> i \<and> i \<le> d
          then Some \<lparr>lp_mode = LCORE_MODE_TX, lp_lid = i, lp_rx_qid = 0, lp_tx_qid = tx + (i - c), lp_port = Some p\<rparr>
        else lports (st_l2p st) i)"
    and "ports (st_l2p st') = (ports (st_l2p st))(p := p')" "l_pid p' = p" "num_tx_qids p' = tx + (d - c + 1)" "num_rx_qids p' = rx + (b - a + 1)"
      "num_ports (st_l2p st') = num_ports (st_l2p st) + 1"
proof -
  let ?st1 = "upd_l2p (\<lambda>t. (upd_port p (\<lambda>q. q\<lparr>l_pid := p\<rparr>) t)\<lparr>num_ports := num_ports t + 1\<rparr>) st"
  have small: "a < 1000" "b < 1000" "c < 1000" "d < 1000" using assms(1-4) by (simp_all add: RTE_MAX_LCORE_def)
  obtain st2 p2 where 2: "cores_loop env p LCORE_MODE_RX (int a) (int b) 0 ?st1 = Some (Inr (b - a + 1, st2))"
      "lports (st_l2p st2) = (\<lambda>i. if a \<le> i \<and> i \<le> b
         then Some \<lparr>lp_mode = LCORE_MODE_RX, lp_lid = i, lp_rx_qid = rx + (i - a), lp_tx_qid = 0, lp_port = Some p\<rparr> else lports (st_l2p st) i)"
      "ports (st_l2p st2) = (ports (st_l2p st))(p := p2)" "l_pid p2 = p" "num_rx_qids p2 = rx + (b - a + 1)" "num_tx_qids p2 = tx"
      "num_ports (st_l2p st2) = num_ports (st_l2p st) + 1"
    by (rule cores_loop_rx [of env a b ?st1 "lports (st_l2p st)" "(ports (st_l2p st))(p := (ports (st_l2p st) p)\<lparr>l_pid := p\<rparr>)"
          "num_ports (st_l2p st) + 1" p "(ports (st_l2p st) p)\<lparr>l_pid := p\<rparr>"]) (use assms in \<open>auto cong: if_cong\<close>)
  obtain st3 p3 where 3: "cores_loop env p LCORE_MODE_TX (int c) (int d) 0 st2 = Some (Inr (d - c + 1, st3))"
      "lports (st_l2p st3) = (\<lambda>i. if c \<le> i \<and> i \<le> d
         then Some \<lparr>lp_mode = LCORE_MODE_TX, lp_lid = i, lp_rx_qid = 0, lp_tx_qid = tx + (i - c), lp_port = Some p\<rparr> else lports (st_l2p st2) i)"
      "ports (st_l2p st3) = (ports (st_l2p st2))(p := p3)" "l_pid p3 = p" "num_tx_qids p3 = tx + (d - c + 1)" "num_rx_qids p3 = rx + (b - a + 1)"
      "num_ports (st_l2p st3) = num_ports (st_l2p st) + 1"
    by (rule cores_loop_tx [OF assms(7,3,4) refl refl 2(7), of p p2]) (use assms 2 in \<open>auto cong: if_cong\<close>)
  have "parse_mapping env (mapping_text a b c d p) st = Some (Inr (0, st3))"
    using mapping_text_parsed [OF small assms(6,8), of st] 2(1) 3(1) by (simp add: need_cores_def)
  moreover have "lports (st_l2p st3) = (\<lambda>i. if a \<le> i \<and> i \<le> b
          then Some \<lparr>lp_mode = LCORE_MODE_RX, lp_lid = i, lp_rx_qid = rx + (i - a), lp_tx_qid = 0, lp_port = Some p\<rparr>
        else if c \<le> i \<and> i \<le> d
          then Some \<lparr>lp_mode = LCORE_MODE_TX, lp_lid = i, lp_rx_qid = 0, lp_tx_qid = tx + (i - c), lp_port = Some p\<rparr>
        else lports (st_l2p st) i)"
    unfolding 3(2) 2(2) using assms(1,3,5) by (intro ext) auto
  ultimately show thesis using 2(3) 3(3-7) by (intro that) simp_all
qed

text \<open>A system with enough memory, at its start.\<close>

definition sys0 :: l2p_env where
  "sys0 = \<lparr>behind_square = ''{}'' @ [CHR 0x00], behind_curly = [CHR 0x00], socket_id = (\<lambda>_. -1), alloc_lport = (\<lambda>_. True),
     new_pool = (\<lambda>_ _ _ _. Some 7), buf_size = 2176, sizeof_mempool = 256\<rparr>"

definition start0 :: "string list \<Rightarrow> l2p_state" where
  "start0 ms = \<lparr>st_l2p = (l2p_create l2p_zero)\<lparr>mappings := ms\<rparr>, mem_used = 0, total_mem_used = 0\<rparr>"

lemma sys0_good: "plenty sys0" "harmless (behind_square sys0)"
  by (simp_all add: plenty_def sys0_def) code_simp

lemma start0_empty: "lports (st_l2p (start0 ms)) i = None" "num_rx_qids (ports (st_l2p (start0 ms)) p) = 0"
  "num_tx_qids (ports (st_l2p (start0 ms)) p) = 0"
  by (simp_all add: start0_def l2p_create_def l2p_zero_def)

section \<open>Properties\<close>

text \<open>
  C8 Whatever the mappings on the command line are, when the parser returns, the table it has filled is consistent:
  every core knows its number and its port, no two cores share a queue, no port has more than 32 queues of a kind, and
  the queues that a core serves have the pools its loops ask for.
\<close>

theorem mappings_keep_table:
  assumes "l2p_parse_mappings env st = Some (Inr (rc, st'))" and "st_l2p st = (l2p_create l2p_zero)\<lparr>mappings := ms\<rparr>"
  shows "l2p_ok (st_l2p st') \<and> (rc = 0 \<or> rc = -1)
    \<and> (\<forall>l lp. lports (st_l2p st') l = Some lp \<longrightarrow>
        (\<exists>p < RTE_MAX_ETHPORTS. l2p_get_pid_by_lcore (st_l2p st') l = Some p
          \<and> (receives (lp_mode lp) \<longrightarrow> l2p_get_rx_mp (st_l2p st') p (l2p_get_rxqid (st_l2p st') l) \<noteq> None)
          \<and> (transmits (lp_mode lp) \<longrightarrow> l2p_get_tx_mp (st_l2p st') p (l2p_get_txqid (st_l2p st') l) \<noteq> None
               \<and> l2p_get_sp_mp (st_l2p st') p (l2p_get_txqid (st_l2p st') l) \<noteq> None)))"
proof -
  have ok: "l2p_ok (st_l2p st') \<and> (rc = 0 \<or> rc = -1)"
    using assms(1) parse_all_ok [of env _ st rc st'] created_ok unfolding l2p_parse_mappings_def assms(2) by blast
  then show ?thesis using core_pools by blast
qed

theorem mappings_keep_table_witness:
  "\<exists>st'. l2p_parse_mappings sys0 (start0 [mapping_text 1 2 3 3 0]) = Some (Inr (0, st')) \<and> l2p_ok (st_l2p st')"
proof -
  obtain st' where "parse_mapping sys0 (mapping_text 1 2 3 3 0) (start0 [mapping_text 1 2 3 3 0]) = Some (Inr (0, st'))"
    by (rule mapping_runs [of 1 2 3 3 0 sys0 0 "start0 [mapping_text 1 2 3 3 0]" 0])
      (simp_all add: sys0_good start0_empty l2p_limits)
  then have "l2p_parse_mappings sys0 (start0 [mapping_text 1 2 3 3 0]) = Some (Inr (0, st'))"
    by (simp add: l2p_parse_mappings_def start0_def)
  then show ?thesis
    using mappings_keep_table [of sys0 "start0 [mapping_text 1 2 3 3 0]" 0 st' "[mapping_text 1 2 3 3 0]"]
    by (auto simp: start0_def)
qed

text \<open>
  C9 The mapping \<open>[a-b:c-d].p\<close> gives the cores \<open>a\<close> to \<open>b\<close> the next receive queues of port \<open>p\<close> and the cores \<open>c\<close> to
  \<open>d\<close> its next transmit queues, in order, and changes no other core or port; the number of ports grows by one with every
  mapping, also with a second one for the same port. The cores before the colon receive, where the README of the program
  documents the transmitting cores to come first. The cores are below the size of the table and not yet in use, the two
  groups do not meet, the port has queues left, every allocation succeeds (\<open>plenty\<close>), and the parser, which reads a few
  bytes behind a string literal, finds no digit there (\<open>harmless\<close>).
\<close>

theorem mapping_gives_queues:
  assumes "a \<le> b" "b < RTE_MAX_LCORE" "c \<le> d" "d < RTE_MAX_LCORE" "b < c \<or> d < a" "p < RTE_MAX_ETHPORTS"
    and "plenty env" "harmless (behind_square env)"
    and "rx = num_rx_qids (ports (st_l2p st) p)" "tx = num_tx_qids (ports (st_l2p st) p)"
    and "rx + (b - a) < MAX_QUEUES_PER_PORT" "tx + (d - c) < MAX_QUEUES_PER_PORT"
    and "\<forall>i. a \<le> i \<and> i \<le> b \<or> c \<le> i \<and> i \<le> d \<longrightarrow> lports (st_l2p st) i = None"
  shows "\<exists>st'. parse_mapping env (mapping_text a b c d p) st = Some (Inr (0, st'))
    \<and> lports (st_l2p st') = (\<lambda>i. if a \<le> i \<and> i \<le> b
          then Some \<lparr>lp_mode = LCORE_MODE_RX, lp_lid = i, lp_rx_qid = rx + (i - a), lp_tx_qid = 0, lp_port = Some p\<rparr>
        else if c \<le> i \<and> i \<le> d
          then Some \<lparr>lp_mode = LCORE_MODE_TX, lp_lid = i, lp_rx_qid = 0, lp_tx_qid = tx + (i - c), lp_port = Some p\<rparr>
        else lports (st_l2p st) i)
    \<and> l2p_get_qcnt (st_l2p st') p = Some (rx + (b - a + 1), tx + (d - c + 1))
    \<and> (\<forall>q. q \<noteq> p \<longrightarrow> ports (st_l2p st') q = ports (st_l2p st) q)
    \<and> l2p_get_port_cnt (st_l2p st') = l2p_get_port_cnt (st_l2p st) + 1"
proof -
  obtain st' p' where "parse_mapping env (mapping_text a b c d p) st = Some (Inr (0, st'))"
    "lports (st_l2p st') = (\<lambda>i. if a \<le> i \<and> i \<le> b
          then Some \<lparr>lp_mode = LCORE_MODE_RX, lp_lid = i, lp_rx_qid = rx + (i - a), lp_tx_qid = 0, lp_port = Some p\<rparr>
        else if c \<le> i \<and> i \<le> d
          then Some \<lparr>lp_mode = LCORE_MODE_TX, lp_lid = i, lp_rx_qid = 0, lp_tx_qid = tx + (i - c), lp_port = Some p\<rparr>
        else lports (st_l2p st) i)"
    "ports (st_l2p st') = (ports (st_l2p st))(p := p')" "l_pid p' = p" "num_tx_qids p' = tx + (d - c + 1)" "num_rx_qids p' = rx + (b - a + 1)"
      "num_ports (st_l2p st') = num_ports (st_l2p st) + 1"
    by (rule mapping_runs [OF assms])
  then show ?thesis using assms(6) by (auto simp: l2p_get_qcnt_def l2p_get_port_cnt_def)
qed

theorem mapping_gives_queues_witness:
  "\<exists>st'. parse_mapping sys0 (mapping_text 1 2 3 3 0) (start0 []) = Some (Inr (0, st')) \<and> l2p_get_qcnt (st_l2p st') 0 = Some (2, 1)"
  using mapping_gives_queues [of 1 2 3 3 0 sys0 0 "start0 []" 0] by (auto simp: sys0_good start0_empty l2p_limits)

section \<open>What the parser does not check\<close>

text \<open>The number of a core is not tested against the size of the array.\<close>

lemma core_outside: "l < 0 \<or> l \<ge> 128 \<Longrightarrow> cores_loop env pid mode l h n st = None"
  by (subst cores_loop.simps) (simp add: RTE_MAX_LCORE_def)

text \<open>With other bytes behind the first literal, trimming the brackets takes a digit away: of \<open>[1-2]\<close> stays \<open>-2\<close>.\<close>

lemma trim_takes_digit: "pg_strtrimset ''[]'' (''1ab'' @ [CHR 0x00]) ''[1-2]'' = Some (Some (''[1'', ''-2''))"
  by code_simp

text \<open>
  A core that is named twice is reported and then given its new port and queue all the same.
\<close>

lemma core_reused:
  assumes "assign_core env pid mode l st = Inr st'" "lports (st_l2p st) l = Some lp0"
  shows "\<exists>lp. lports (st_l2p st') l = Some lp \<and> lp_port lp = Some pid \<and> lp_mode lp = mode"
  by (rule assign_coreD [OF assms(1)]) (auto simp: serves_def)

end
