(* ===== verification/Spec2Isabelle.thy ===== *)
theory Spec2Isabelle
  imports PcapReplay LineEdit PktAnswer HashMapUse TxPath RangeSave L2pParse
begin

text \<open>
  Verification of Pktgen-DPDK, a traffic generator on DPDK (\<open>src/Pktgen-DPDK\<close>). The generator sends,
  on every port, packets it builds from templates, steps through ranges, or replays from capture
  files; a command line with a small line editor configures it. This development models the replay of
  capture files (the part this repository adds), the range mode with its commands, the construction of
  packets, the address helpers and checksums they use and the line editor of the command line.

  The replay. A port that replays captures has two sections, each a pool of buffers filled with
  records of the source files. The transmit core sends the packets of one section while a thread loads
  the following records into the other one; at the end of a section the core asks for a reload and
  switches, waiting under a mutex and a condition when the other section is not ready.
    \<^item> \<open>Prelude\<close>: machine integers, little-endian fields, \<open>ntohl\<close>, cyclic reading of lists.
    \<^item> \<open>Mbuf\<close>, \<open>L2pTable\<close>: the packet buffer and the table of ports and cores (\<open>app/l2p.h\<close>).
    \<^item> \<open>PcapFormat\<close>, \<open>PcapWriter\<close>: headers, byte order, the writer (\<open>app/pktgen-pcap.c\<close>, \<open>app/pktgen-pcap.h\<close>).
    \<^item> \<open>PcapSource\<close>, \<open>PcapReader\<close>, \<open>PcapScan\<close>: the source files of a port as a list of open files with
      positions, the reading of the next record round and round the files, the scan of the captures.
    \<^item> \<open>PcapLoad\<close>, \<open>PcapSections\<close>: the load of a section, the division of the huge page memory, the
      opening of a port.
    \<^item> \<open>PcapReload\<close>, \<open>PcapReplay\<close>: the transmit core, the reload thread and the device as one step
      relation over the shared state, invariants by induction over its steps, and the stream of
      packets it sends.

  The range mode. \<open>Inet\<close> holds the arithmetic on MAC and IPv6 addresses (\<open>lib/common/pg_inet.h\<close>),
  \<open>PortCfg\<close> the packet templates, the ranges and the flags of a port, \<open>PktRange\<close> the step that turns
  one packet of a range into the next (\<open>app/pktgen-range.c\<close>), cut into the stages the function
  has, and \<open>RangeCmds\<close> the defaults and the commands that set them (\<open>app/pktgen-cmds.c\<close>).

  Packets. \<open>NetCksum\<close> has the Internet checksums the constructors call (\<open>rte_cksum.h\<close>, \<open>rte_ip4.h\<close>,
  \<open>rte_ip6.h\<close> of DPDK); \<open>PktBuild\<close> is \<open>pktgen_packet_ctor\<close> with the constructors of the headers
  (\<open>app/pktgen.c\<close>, \<open>app/pktgen-ether.c\<close> and its siblings) over the bytes of a packet; \<open>PktCheck\<close>
  states what a receiver reads in them. \<open>PktSetup\<close> is the filling of the transmit pools before a port sends
  (\<open>mempool_setup_cb\<close>, \<open>pktgen_setup_packets\<close>), with the call-back as an interface, and \<open>PktAnswer\<close> the
  answers to received packets and the requests (\<open>app/pktgen-arp.c\<close>, \<open>app/pktgen-ipv4.c\<close>, \<open>app/pktgen-vlan.c\<close>).

  Sending. \<open>RandomBits\<close> has the random bit fields of a port and their text form (\<open>app/pktgen-random.c\<close>), \<open>Latency\<close>
  the probes, their statistics and the sampler (\<open>app/pktgen-latency.c\<close>, \<open>app/pktgen.c\<close>), \<open>TxPath\<close> the rate of
  a port, the loops of a core, the handing over of a burst and the counted sending (\<open>app/pktgen.c\<close>).
  A C number of type \<open>double\<close> is a rational, and a function \<open>fl\<close> rounds after each operation.

  The line editor. \<open>GapBuf\<close> is the gap buffer (\<open>lib/cli/cli_gapbuf.h\<close>) with pointers as offsets, and an
  interface, \<open>line_buffer\<close>, of a line with a cursor which it is proved to implement; \<open>CliHistory\<close> the
  history (\<open>lib/cli/cli_history.c\<close>); \<open>LineEdit\<close> the recognition of key sequences, the keys and the
  input loop (\<open>lib/cli/cli_vt100.c\<close>, \<open>lib/cli/cli_input.c\<close>).

  The hash map. \<open>HashMap\<close> is the table with open addressing of \<open>lib/hmap/hmap.c\<close>, with the default functions for
  hashing, comparing and freeing as an instance of an interface for any such functions; \<open>HashMapUse\<close> proves it an
  instance of the interface of a partial map, and has the typed values, arrays and the iteration.

  Text. \<open>CText\<close> has the conversions of the C library and the string helpers (\<open>lib/common/pg_strings.c\<close>), \<open>PortList\<close>
  the lists of ports of the commands (\<open>lib/utils/portlist.c\<close>), \<open>AddrParse\<close> the parsers of IP addresses
  (\<open>lib/utils/_atoip.c\<close>, \<open>lib/utils/inet_pton.c\<close>) with the printing of IPv4 addresses, \<open>MacText\<close> MAC addresses as
  text and \<open>TcpFlags\<close> the flags of TCP.

  The start. \<open>L2pParse\<close> is the option that gives cores to ports (\<open>app/l2p.c\<close>): the trimming of the brackets, with the
  bytes behind the string literals as a parameter because \<open>pg_strtrimset\<close> reads them, the loop that gives every core its
  queue and makes the pools, with the allocations as parameters, and the accesses outside the arrays as results of their own.

  The command line. \<open>CliMap\<close> splits a line into words and finds the template it fits (\<open>pg_strqtok\<close>,
  \<open>lib/cli/cli_map.c\<close>), \<open>RangeCli\<close> is the range command from its line to the ports (\<open>app/cli-functions.c\<close>), over the
  setters of \<open>RangeCmds\<close>, and \<open>RangeSave\<close> the lines that save the ranges of a port (\<open>app/pktgen-cmds.c\<close>) with
  what they become when they are executed again.

  Conventions. A C structure is a record, its operations are functions on it in the order of the code;
  an access outside memory, a use of freed memory and an exit of the process are results of their
  own (\<open>None\<close> or an error), so that a theorem that a function returns \<open>Some\<close> or \<open>Inr\<close> excludes them.
  Integers whose overflow matters are words. What DPDK and the operating system provide is an
  argument (what the allocator returns, the files of a directory, the state of new memory).

  Fuel and bounds. The reader of records may run round empty captures for ever; it takes fuel, and its
  theorems state how much is enough: one more than the files to look at. The transmit loop of the
  replay takes fuel five, the most times it goes round before it sends or waits. The word keys of the
  line editor are partial functions whose termination is a theorem.

  What the lemmas show. For the sources: the scan, the reader and the writer agree on what a capture
  means. For the sections: their sizes respect the memory, opening a port ends the process exactly when an
  independent plan in numbers finds no room, a load fills exactly the buffers. For the
  replay: mutual exclusion, no lost wake-up, and the stream is the capture round and round. For the
  range mode: every field that a step sets obeys its range, but for the identifiers of VXLAN, and a field sweeps
  its range. For the answers: what an untagged ARP request leads to, on every branch. For the editor: the buffer refines a
  plain line, keys have their effect, the history keeps the last lines. For packets: lengths, addresses
  and checksums are those of the template and those a receiver expects, for TCP and UDP without checksum offload and tunnels. For the text forms: what is printed is read back, the parsers are
  their reference definitions, lines of any text keep the limits of the ranges. For sending:
  the pace is kept without drift and never exceeded, bursts reach the device once and in order, a
  probe is measured by its receiver and the statistics summarise the probes. Theorems that say what
  goes wrong show defects of the code.

  Not modelled: the sequence and single packet commands and the statistics; the command
  tree with its search and completion, the substitution of variables, screens, Lua and plugins, which are input and output
  around the parts above; DPDK itself and the third-party JSON parser.
\<close>

end
